(* ===== verification/Enet_Prelude.thy ===== *)
theory Enet_Prelude
  imports Main "HOL-Library.Word"
begin

text \<open>
  Shared vocabulary of the development: the machine integers of \<^verbatim>\<open>include/enet/types.h\<close>,
  the macros of \<^verbatim>\<open>include/enet/time.h\<close> and \<^verbatim>\<open>include/enet/utility.h\<close>, flag words, and the
  generic list and word lemmas the components use.  Wrap-around arithmetic is that of
  HOL-Library.Word, so every unsigned overflow of the C code is an overflow of the model.
\<close>

unbundle bit_operations_syntax

section \<open>Machine integers\<close>

type_synonym u8 = "8 word"
type_synonym u16 = "16 word"
type_synonym u32 = "32 word"
type_synonym u64 = "64 word"

text \<open>
  Collections: \<open>enet_const\<close> holds the definitions of the named constants of the headers,
  \<open>window_simps\<close> the arithmetic of the reliable windows.
\<close>

named_theorems enet_const
named_theorems window_simps

section \<open>Words as numbers\<close>

lemma unat_minus_cases:
  fixes a b :: "'a::len word"
  shows "unat (a - b) = (if b \<le> a then unat a - unat b else unat a + 2 ^ LENGTH('a) - unat b)"
proof (cases "b \<le> a")
  case True
  then show ?thesis by (simp add: unat_sub)
next
  case False
  then show ?thesis by (simp add: unat_sub_if' word_le_nat_alt)
qed

lemma unat_minus_dist:
  fixes a b :: "'a::len word"
  shows "(unat b + unat (a - b)) mod 2 ^ LENGTH('a) = unat a"
proof -
  have "unat (b + (a - b)) = (unat b + unat (a - b)) mod 2 ^ LENGTH('a)"
    by (rule unat_word_ariths(1))
  then show ?thesis by simp
qed

lemma unat_of_nat_small: "n < 2 ^ LENGTH('a) \<Longrightarrow> unat (of_nat n :: 'a::len word) = n"
  by (simp add: unat_of_nat)

lemma ucast_of_nat_small:
  "n < 2 ^ LENGTH('a) \<Longrightarrow> ucast (of_nat n :: 'a::len word) = (of_nat n :: 'b::len word)"
  by (simp add: unsigned_of_nat take_bit_nat_eq_self)

lemma of_nat_less_iff: "m < 2 ^ LENGTH('a) \<Longrightarrow> n < 2 ^ LENGTH('a) \<Longrightarrow> (of_nat m :: 'a::len word) < of_nat n \<longleftrightarrow> m < n"
  by (simp add: word_less_nat_alt unat_of_nat_small)

lemma word_minus_eq_0 [simp]: "(a - b = 0) = (a = (b :: 'a::len word))"
  by simp

section \<open>Flag words\<close>

text \<open>\<open>flag & mask\<close> used as a condition, \<open>flags |= mask\<close> and \<open>flags &= ~mask\<close>.\<close>

definition has_flag :: "'a::len word \<Rightarrow> 'a word \<Rightarrow> bool" where
  "has_flag w f \<longleftrightarrow> w AND f \<noteq> 0"

definition set_flag :: "'a::len word \<Rightarrow> 'a word \<Rightarrow> 'a word" where
  "set_flag w f = w OR f"

definition clear_flag :: "'a::len word \<Rightarrow> 'a word \<Rightarrow> 'a word" where
  "clear_flag w f = w AND NOT f"

lemma has_set_flag [simp]: "has_flag (set_flag w f) f \<longleftrightarrow> f \<noteq> 0"
  by (simp add: has_flag_def set_flag_def bit.conj_disj_distrib2)

lemma has_clear_flag [simp]: "\<not> has_flag (clear_flag w f) f"
  by (simp add: has_flag_def clear_flag_def and.assoc)

lemma has_set_flag_other [simp]: "f AND g = 0 \<Longrightarrow> has_flag (set_flag w f) g = has_flag w g"
  by (simp add: has_flag_def set_flag_def bit.conj_disj_distrib2)

lemma has_clear_flag_other [simp]:
  assumes "f AND g = 0"
  shows "has_flag (clear_flag w f) g = has_flag w g"
proof -
  have "NOT f AND g = g"
    using assms by (metis and.commute bit.compl_unique bit.conj_cancel_right bit.conj_disj_distrib
      bit.conj_one_right bit.disj_cancel_right or.left_neutral)
  then show ?thesis by (simp add: has_flag_def clear_flag_def and.assoc)
qed

lemma has_flag_zero [simp]: "\<not> has_flag 0 f"
  by (simp add: has_flag_def)

section \<open>Wrap-around time (include/enet/time.h)\<close>

definition ENET_TIME_OVERFLOW :: u32 where
  [enet_const]: "ENET_TIME_OVERFLOW = 86400000"

definition ENET_TIME_LESS :: "u32 \<Rightarrow> u32 \<Rightarrow> bool" where
  "ENET_TIME_LESS a b \<longleftrightarrow> a - b \<ge> ENET_TIME_OVERFLOW"

definition ENET_TIME_GREATER :: "u32 \<Rightarrow> u32 \<Rightarrow> bool" where
  "ENET_TIME_GREATER a b \<longleftrightarrow> b - a \<ge> ENET_TIME_OVERFLOW"

definition ENET_TIME_LESS_EQUAL :: "u32 \<Rightarrow> u32 \<Rightarrow> bool" where
  "ENET_TIME_LESS_EQUAL a b \<longleftrightarrow> \<not> ENET_TIME_GREATER a b"

definition ENET_TIME_GREATER_EQUAL :: "u32 \<Rightarrow> u32 \<Rightarrow> bool" where
  "ENET_TIME_GREATER_EQUAL a b \<longleftrightarrow> \<not> ENET_TIME_LESS a b"

definition ENET_TIME_DIFFERENCE :: "u32 \<Rightarrow> u32 \<Rightarrow> u32" where
  "ENET_TIME_DIFFERENCE a b = (if a - b \<ge> ENET_TIME_OVERFLOW then b - a else a - b)"

lemmas enet_time_defs = ENET_TIME_LESS_def ENET_TIME_GREATER_def ENET_TIME_LESS_EQUAL_def
  ENET_TIME_GREATER_EQUAL_def ENET_TIME_DIFFERENCE_def ENET_TIME_OVERFLOW_def

lemma small_elapsed_not_overflow:
  assumes "0 < d" "d < ENET_TIME_OVERFLOW"
  shows "- d \<ge> ENET_TIME_OVERFLOW"
proof -
  have "unat d < 86400000" "0 < unat d"
    using assms by (simp_all add: enet_const word_less_nat_alt)
  moreover have "d \<noteq> 0"
    using assms(1) by simp
  ultimately have "unat (- d) = 2 ^ 32 - unat d"
    by (simp add: unat_minus_cases [of 0 d, simplified] word_le_nat_alt)
  then show ?thesis
    using \<open>unat d < 86400000\<close> by (simp add: enet_const word_le_nat_alt)
qed

text \<open>
  Less than a day apart, the macros compare and subtract instants as if the 32-bit clock
  had not wrapped.
\<close>

lemma time_order_recent:
  assumes "0 < d" "d < ENET_TIME_OVERFLOW"
  shows "ENET_TIME_LESS t (t + d)" "\<not> ENET_TIME_LESS (t + d) t"
    "ENET_TIME_GREATER (t + d) t" "\<not> ENET_TIME_GREATER t (t + d)"
  using assms small_elapsed_not_overflow [OF assms]
  by (auto simp: ENET_TIME_LESS_def ENET_TIME_GREATER_def)

lemma time_difference_recent:
  assumes "d < ENET_TIME_OVERFLOW"
  shows "ENET_TIME_DIFFERENCE (t + d) t = d" "ENET_TIME_DIFFERENCE t (t + d) = d"
proof -
  show "ENET_TIME_DIFFERENCE (t + d) t = d"
    using assms by (auto simp: ENET_TIME_DIFFERENCE_def)
  show "ENET_TIME_DIFFERENCE t (t + d) = d"
  proof (cases "d = 0")
    case True
    then show ?thesis by (simp add: enet_time_defs)
  next
    case False
    then have "- d \<ge> ENET_TIME_OVERFLOW"
      using assms by (intro small_elapsed_not_overflow) (simp_all add: word_gt_0)
    then show ?thesis by (simp add: ENET_TIME_DIFFERENCE_def)
  qed
qed

lemma time_less_irrefl [simp]: "\<not> ENET_TIME_LESS t t"
  by (simp add: enet_time_defs)

section \<open>Utility macros (include/enet/utility.h)\<close>

definition ENET_MAX :: "'a::linorder \<Rightarrow> 'a \<Rightarrow> 'a" where
  "ENET_MAX x y = (if x > y then x else y)"

definition ENET_MIN :: "'a::linorder \<Rightarrow> 'a \<Rightarrow> 'a" where
  "ENET_MIN x y = (if x < y then x else y)"

definition ENET_DIFFERENCE :: "u32 \<Rightarrow> u32 \<Rightarrow> u32" where
  "ENET_DIFFERENCE x y = (if x < y then y - x else x - y)"

lemma ENET_MAX_eq: "ENET_MAX x y = max x y"
  by (auto simp: ENET_MAX_def max_def)

lemma ENET_MIN_eq: "ENET_MIN x y = min x y"
  by (auto simp: ENET_MIN_def min_def)

section \<open>Positions in lists\<close>

definition insert_at :: "nat \<Rightarrow> 'a \<Rightarrow> 'a list \<Rightarrow> 'a list" where
  "insert_at n x xs = take n xs @ x # drop n xs"

lemma set_insert_at [simp]: "set (insert_at n x xs) = insert x (set xs)"
proof -
  have "set xs = set (take n xs) \<union> set (drop n xs)"
    by (metis append_take_drop_id set_append)
  then show ?thesis by (auto simp: insert_at_def)
qed

lemma length_insert_at [simp]: "length (insert_at n x xs) = Suc (length xs)"
  by (simp add: insert_at_def)

lemma insert_at_length [simp]: "insert_at (length xs) x xs = xs @ [x]"
  by (simp add: insert_at_def)

section \<open>The wrap-around clock\<close>

text \<open>C32: Two instants less than a day apart are ordered and subtracted by the time macros as if the
  32-bit millisecond clock had not wrapped between them, at every value of the clock.\<close>

theorem time_comparison_survives_wrap:
  assumes "0 < d" "d < ENET_TIME_OVERFLOW"
  shows "ENET_TIME_LESS t (t + d) \<and> \<not> ENET_TIME_LESS (t + d) t
    \<and> ENET_TIME_GREATER (t + d) t \<and> \<not> ENET_TIME_GREATER t (t + d)
    \<and> ENET_TIME_DIFFERENCE (t + d) t = d \<and> ENET_TIME_DIFFERENCE t (t + d) = d"
  using time_order_recent [OF assms] time_difference_recent [OF assms(2)] by blast

theorem time_comparison_survives_wrap_witness:
  "ENET_TIME_LESS 0xFFFFFFF0 0x10 \<and> ENET_TIME_DIFFERENCE 0x10 0xFFFFFFF0 = 0x20"
proof -
  have "(0xFFFFFFF0 + 0x20 :: u32) = 0x10" "0 < (0x20 :: u32)" "0x20 < ENET_TIME_OVERFLOW"
    by (simp_all add: enet_const)
  then show ?thesis
    using time_comparison_survives_wrap [of "0x20" "0xFFFFFFF0"] by metis
qed

end
