(* ===== verification/Enet_List.thy ===== *)
theory Enet_List
  imports Enet_Prelude
begin

text \<open>
  The intrusive doubly linked lists of \<^verbatim>\<open>src/list.c\<close> and \<^verbatim>\<open>include/enet/list.h\<close> at the level of
  pointers: a heap maps addresses to nodes, a list is a sentinel and the nodes its links
  reach, and each operation is the sequence of pointer writes of the C function.  The
  relation \<open>is_list\<close> abstracts a heap to the HOL list the rest of the development computes
  with; the lemmas show that every operation implements its list counterpart and leaves
  unrelated lists alone.
\<close>

section \<open>Nodes and writes\<close>

record ENetListNode =
  ln_next :: nat
  ln_previous :: nat

type_synonym node_heap = "nat \<Rightarrow> ENetListNode"

definition set_next :: "nat \<Rightarrow> nat \<Rightarrow> node_heap \<Rightarrow> node_heap" where
  "set_next a v h = h(a := (h a)\<lparr>ln_next := v\<rparr>)"

definition set_previous :: "nat \<Rightarrow> nat \<Rightarrow> node_heap \<Rightarrow> node_heap" where
  "set_previous a v h = h(a := (h a)\<lparr>ln_previous := v\<rparr>)"

lemma next_set_next [simp]: "ln_next (set_next a v h b) = (if b = a then v else ln_next (h b))"
  by (simp add: set_next_def)

lemma previous_set_next [simp]: "ln_previous (set_next a v h b) = ln_previous (h b)"
  by (simp add: set_next_def)

lemma next_set_previous [simp]: "ln_next (set_previous a v h b) = ln_next (h b)"
  by (simp add: set_previous_def)

lemma previous_set_previous [simp]:
  "ln_previous (set_previous a v h b) = (if b = a then v else ln_previous (h b))"
  by (simp add: set_previous_def)

section \<open>The operations of src/list.c\<close>

definition enet_list_begin :: "node_heap \<Rightarrow> nat \<Rightarrow> nat" where
  "enet_list_begin h l = ln_next (h l)"

definition enet_list_end :: "nat \<Rightarrow> nat" where
  "enet_list_end l = l"

definition enet_list_empty :: "node_heap \<Rightarrow> nat \<Rightarrow> bool" where
  "enet_list_empty h l \<longleftrightarrow> enet_list_begin h l = enet_list_end l"

definition enet_list_back :: "node_heap \<Rightarrow> nat \<Rightarrow> nat" where
  "enet_list_back h l = ln_previous (h l)"

definition enet_list_clear :: "nat \<Rightarrow> node_heap \<Rightarrow> node_heap" where
  "enet_list_clear l h = set_previous l l (set_next l l h)"

definition enet_list_insert :: "nat \<Rightarrow> nat \<Rightarrow> node_heap \<Rightarrow> nat \<times> node_heap" where
  "enet_list_insert position data h =
     (let result = data;
          h = set_previous result (ln_previous (h position)) h;
          h = set_next result position h;
          h = set_next (ln_previous (h result)) result h;
          h = set_previous position result h
      in (result, h))"

definition enet_list_remove :: "nat \<Rightarrow> node_heap \<Rightarrow> nat \<times> node_heap" where
  "enet_list_remove position h =
     (let h = set_next (ln_previous (h position)) (ln_next (h position)) h;
          h = set_previous (ln_next (h position)) (ln_previous (h position)) h
      in (position, h))"

definition enet_list_move :: "nat \<Rightarrow> nat \<Rightarrow> nat \<Rightarrow> node_heap \<Rightarrow> nat \<times> node_heap" where
  "enet_list_move position dataFirst dataLast h =
     (let first = dataFirst; final = dataLast;
          h = set_next (ln_previous (h first)) (ln_next (h final)) h;
          h = set_previous (ln_next (h final)) (ln_previous (h first)) h;
          h = set_previous first (ln_previous (h position)) h;
          h = set_next final position h;
          h = set_next (ln_previous (h first)) first h;
          h = set_previous position final h
      in (first, h))"

text \<open>The loop of \<open>enet_list_size\<close>: \<open>None\<close> is a traversal that never meets the sentinel.\<close>

partial_function (option) list_size_loop :: "node_heap \<Rightarrow> nat \<Rightarrow> nat \<Rightarrow> nat \<Rightarrow> nat option" where
  "list_size_loop h l position sz =
     (if position \<noteq> enet_list_end l
      then list_size_loop h l (ln_next (h position)) (Suc sz)
      else Some sz)"

definition enet_list_size :: "node_heap \<Rightarrow> nat \<Rightarrow> nat option" where
  "enet_list_size h l = list_size_loop h l (enet_list_begin h l) 0"

section \<open>Abstraction to HOL lists\<close>

fun linked :: "node_heap \<Rightarrow> nat list \<Rightarrow> bool" where
  "linked h (a # b # r) \<longleftrightarrow> ln_next (h a) = b \<and> ln_previous (h b) = a \<and> linked h (b # r)"
| "linked h _ \<longleftrightarrow> True"

definition is_list :: "node_heap \<Rightarrow> nat \<Rightarrow> nat list \<Rightarrow> bool" where
  "is_list h l xs \<longleftrightarrow> distinct (l # xs) \<and> linked h (l # xs @ [l])"

lemma linked_join:
  "xs \<noteq> [] \<Longrightarrow> ys \<noteq> [] \<Longrightarrow> linked h (xs @ ys) \<longleftrightarrow>
     linked h xs \<and> linked h ys \<and> ln_next (h (last xs)) = hd ys \<and> ln_previous (h (hd ys)) = last xs"
proof (induction h xs rule: linked.induct)
  case (1 h a b r)
  then show ?case by auto
qed (cases ys; auto)+

lemma linked_Cons:
  "ys \<noteq> [] \<Longrightarrow> linked h (x # ys) \<longleftrightarrow>
     ln_next (h x) = hd ys \<and> ln_previous (h (hd ys)) = x \<and> linked h ys"
  by (cases ys) auto

lemma linked_cong:
  "(\<forall>a \<in> set (butlast zs). ln_next (h' a) = ln_next (h a)) \<Longrightarrow>
   (\<forall>a \<in> set (tl zs). ln_previous (h' a) = ln_previous (h a)) \<Longrightarrow> linked h' zs = linked h zs"
  by (induction h zs rule: linked.induct) auto

lemma is_list_frame:
  assumes "\<forall>a \<in> insert l (set xs). h' a = h a"
  shows "is_list h' l xs = is_list h l xs"
proof -
  have "linked h' (l # xs @ [l]) = linked h (l # xs @ [l])"
    using assms by (intro linked_cong) (auto simp: butlast_append)
  then show ?thesis by (simp add: is_list_def)
qed

text \<open>The links around a split point, and what a rewiring there must provide.\<close>

lemma is_list_splitD:
  assumes "is_list h l (xs @ ys)"
  shows "linked h (l # xs)" "linked h (ys @ [l])" "distinct (l # xs @ ys)"
    "ln_next (h (last (l # xs))) = hd (ys @ [l])" "ln_previous (h (hd (ys @ [l]))) = last (l # xs)"
  using assms linked_join [of "l # xs" "ys @ [l]" h] by (simp_all add: is_list_def)

lemma is_list_splitI:
  assumes "linked h (l # xs)" "linked h (ys @ [l])" "distinct (l # xs @ ys)"
    "ln_next (h (last (l # xs))) = hd (ys @ [l])" "ln_previous (h (hd (ys @ [l]))) = last (l # xs)"
  shows "is_list h l (xs @ ys)"
  using assms linked_join [of "l # xs" "ys @ [l]" h] by (simp add: is_list_def)

lemma last_Cons_in: "last (l # xs) \<in> insert l (set xs)"
  by (metis last_in_set list.discI list.simps(15))

lemma hd_snoc_in: "hd (ys @ [l]) \<in> insert l (set ys)"
  by (cases ys) auto

lemma last_notin_butlast: "distinct zs \<Longrightarrow> zs \<noteq> [] \<Longrightarrow> last zs \<notin> set (butlast zs)"
  by (metis append_butlast_last_id disjoint_iff distinct_append list.set_intros(1))

lemma hd_notin_tl: "distinct zs \<Longrightarrow> zs \<noteq> [] \<Longrightarrow> hd zs \<notin> set (tl zs)"
  by (cases zs) auto

text \<open>
  A heap that changes only the link leaving the last node of a prefix and the link
  entering the first node of a suffix keeps both halves.
\<close>

lemma linked_prefix_cong:
  assumes "distinct (l # xs)"
    and "\<forall>a \<in> insert l (set xs) - {last (l # xs)}. ln_next (h' a) = ln_next (h a)"
    and "\<forall>a \<in> set xs. ln_previous (h' a) = ln_previous (h a)"
  shows "linked h' (l # xs) = linked h (l # xs)"
proof (rule linked_cong)
  have "last (l # xs) \<notin> set (butlast (l # xs))"
    using assms(1) by (intro last_notin_butlast) auto
  moreover have "set (butlast (l # xs)) \<subseteq> insert l (set xs)"
    by (auto dest: in_set_butlastD)
  ultimately show "\<forall>a \<in> set (butlast (l # xs)). ln_next (h' a) = ln_next (h a)"
    using assms(2) by blast
  show "\<forall>a \<in> set (tl (l # xs)). ln_previous (h' a) = ln_previous (h a)"
    using assms(3) by simp
qed

lemma linked_suffix_cong:
  assumes "distinct (ys @ [l])"
    and "\<forall>a \<in> set ys. ln_next (h' a) = ln_next (h a)"
    and "\<forall>a \<in> insert l (set ys) - {hd (ys @ [l])}. ln_previous (h' a) = ln_previous (h a)"
  shows "linked h' (ys @ [l]) = linked h (ys @ [l])"
proof (rule linked_cong)
  show "\<forall>a \<in> set (butlast (ys @ [l])). ln_next (h' a) = ln_next (h a)"
    using assms(2) by simp
  have "hd (ys @ [l]) \<notin> set (tl (ys @ [l]))"
    using assms(1) by (intro hd_notin_tl) auto
  moreover have "set (tl (ys @ [l])) \<subseteq> insert l (set ys)"
    by (cases ys) auto
  ultimately show "\<forall>a \<in> set (tl (ys @ [l])). ln_previous (h' a) = ln_previous (h a)"
    using assms(3) by blast
qed

section \<open>Effect of the pointer writes\<close>

lemma insert_result [simp]: "fst (enet_list_insert position data h) = data"
  by (simp add: enet_list_insert_def Let_def)

lemma insert_next:
  "ln_next (snd (enet_list_insert position data h) x) =
     (if x = ln_previous (h position) then data else if x = data then position else ln_next (h x))"
  by (simp add: enet_list_insert_def Let_def)

lemma insert_previous:
  "ln_previous (snd (enet_list_insert position data h) x) =
     (if x = position then data else if x = data then ln_previous (h position) else ln_previous (h x))"
  by (simp add: enet_list_insert_def Let_def)

lemma remove_result [simp]: "fst (enet_list_remove position h) = position"
  by (simp add: enet_list_remove_def Let_def)

lemma remove_next:
  "ln_next (snd (enet_list_remove position h) x) =
     (if x = ln_previous (h position) then ln_next (h position) else ln_next (h x))"
  by (simp add: enet_list_remove_def Let_def)

lemma remove_previous:
  "ln_previous (snd (enet_list_remove position h) x) =
     (if x = ln_next (h position) then ln_previous (h position) else ln_previous (h x))"
  by (simp add: enet_list_remove_def Let_def)

lemma move_next:
  assumes "position \<noteq> ln_next (h final)"
  shows "ln_next (snd (enet_list_move position first final h) x) =
     (if x = ln_previous (h position) then first else if x = final then position
      else if x = ln_previous (h first) then ln_next (h final) else ln_next (h x))"
  using assms by (simp add: enet_list_move_def Let_def)

lemma move_previous:
  assumes "position \<noteq> ln_next (h final)"
  shows "ln_previous (snd (enet_list_move position first final h) x) =
     (if x = position then final else if x = first then ln_previous (h position)
      else if x = ln_next (h final) then ln_previous (h first) else ln_previous (h x))"
  using assms by (simp add: enet_list_move_def Let_def)

section \<open>Each operation implements its list counterpart\<close>

lemma is_list_clear: "is_list (enet_list_clear l h) l []"
  by (simp add: is_list_def enet_list_clear_def)

lemma is_list_insert:
  assumes "is_list h l (xs @ ys)" "d \<notin> insert l (set xs \<union> set ys)" "position = hd (ys @ [l])"
  shows "is_list (snd (enet_list_insert position d h)) l (xs @ d # ys)"
proof -
  note sp = is_list_splitD [OF assms(1)]
  have prv: "ln_previous (h position) = last (l # xs)"
    using sp(5) assms(3) by simp
  have pin: "position \<in> insert l (set ys)" and lin: "last (l # xs) \<in> insert l (set xs)"
    using assms(3) hd_snoc_in last_Cons_in by metis+
  let ?h = "snd (enet_list_insert position d h)"
  have "linked ?h (l # xs) = linked h (l # xs)"
    using sp(3) pin assms(2)
    by (intro linked_prefix_cong) (auto simp: insert_next insert_previous prv)
  moreover have "linked ?h (ys @ [l]) = linked h (ys @ [l])"
    using sp(3) lin assms(2)
    by (intro linked_suffix_cong) (auto simp: insert_next insert_previous prv assms(3) [symmetric] simp del: last.simps)
  moreover have "d \<noteq> last (l # xs)" "d \<noteq> position"
    using lin pin assms(2) by auto
  ultimately have "linked ?h (l # xs)" "linked ?h ((d # ys) @ [l])"
    "ln_next (?h (last (l # xs))) = d" "ln_previous (?h d) = last (l # xs)"
    using sp linked_Cons [of "ys @ [l]" ?h d]
    by (simp_all add: insert_next insert_previous prv assms(3) [symmetric] del: last.simps)
  then show ?thesis
    using sp(3) assms(2) by (intro is_list_splitI) auto
qed

lemma is_list_remove:
  assumes "is_list h l (xs @ p # ys)"
  shows "is_list (snd (enet_list_remove p h)) l (xs @ ys)"
proof -
  note sp = is_list_splitD [OF assms]
  have prv: "ln_previous (h p) = last (l # xs)"
    using sp(5) by simp
  have nxt: "ln_next (h p) = hd (ys @ [l])" "linked h (ys @ [l])"
    using sp(2) linked_join [of "[p]" "ys @ [l]" h] by simp_all
  have pin: "hd (ys @ [l]) \<in> insert l (set ys)" and lin: "last (l # xs) \<in> insert l (set xs)"
    using hd_snoc_in last_Cons_in by metis+
  let ?h = "snd (enet_list_remove p h)"
  have "linked ?h (l # xs) = linked h (l # xs)"
    using sp(3) pin by (intro linked_prefix_cong) (auto simp: remove_next remove_previous prv nxt)
  moreover have "linked ?h (ys @ [l]) = linked h (ys @ [l])"
    using sp(3) lin
    by (intro linked_suffix_cong) (auto simp: remove_next remove_previous prv nxt simp del: last.simps)
  ultimately show ?thesis
    using sp nxt
    by (intro is_list_splitI) (auto simp: remove_next remove_previous prv simp del: last.simps)
qed

lemma linked_infix_cong:
  assumes "distinct zs"
    and "\<forall>a \<in> set zs - {last zs}. ln_next (h' a) = ln_next (h a)"
    and "\<forall>a \<in> set zs - {hd zs}. ln_previous (h' a) = ln_previous (h a)"
  shows "linked h' zs = linked h zs"
proof (cases "zs = []")
  case False
  show ?thesis
  proof (rule linked_cong)
    show "\<forall>a \<in> set (butlast zs). ln_next (h' a) = ln_next (h a)"
      using last_notin_butlast [OF assms(1) False] assms(2) by (auto dest: in_set_butlastD)
    show "\<forall>a \<in> set (tl zs). ln_previous (h' a) = ln_previous (h a)"
      using hd_notin_tl [OF assms(1) False] assms(3) by (auto dest: list.set_sel(2) [OF False])
  qed
qed simp

text \<open>
  \<open>enet_list_move\<close> takes the segment from its first to its last node out of one list and
  puts it before a position of another.
\<close>

lemma is_list_move:
  assumes src: "is_list h l (xs @ seg @ ys)" and dst: "is_list h m (us @ vs)"
    and ne: "seg \<noteq> []"
    and disj: "insert l (set (xs @ seg @ ys)) \<inter> insert m (set (us @ vs)) = {}"
    and pos: "position = hd (vs @ [m])"
  shows "is_list (snd (enet_list_move position (hd seg) (last seg) h)) l (xs @ ys)"
    and "is_list (snd (enet_list_move position (hd seg) (last seg) h)) m (us @ seg @ vs)"
proof -
  note sp = is_list_splitD [OF src] and dp = is_list_splitD [OF dst]
  have seg: "linked h seg" "linked h (ys @ [l])" "ln_next (h (last seg)) = hd (ys @ [l])"
    using sp(2) linked_join [of seg "ys @ [l]" h] ne by simp_all
  have pf: "ln_previous (h (hd seg)) = last (l # xs)" and nf: "ln_next (h (last (l # xs))) = hd seg"
    using sp(4,5) ne by (simp_all del: last.simps)
  have pp: "ln_previous (h position) = last (m # us)"
    using dp(5) pos by simp
  have mem: "hd (ys @ [l]) \<in> insert l (set ys)" "last (l # xs) \<in> insert l (set xs)"
    "position \<in> insert m (set vs)" "last (m # us) \<in> insert m (set us)"
    "hd seg \<in> set seg" "last seg \<in> set seg"
    unfolding pos by (rule hd_snoc_in last_Cons_in hd_in_set [OF ne] last_in_set [OF ne])+
  have "position \<notin> insert l (set ys)"
    using mem(3) disj by auto
  then have ne': "position \<noteq> ln_next (h (last seg))"
    using mem(1) seg(3) by metis
  have mv:
    "ln_next (snd (enet_list_move position (hd seg) (last seg) h) x) =
       (if x = last (m # us) then hd seg else if x = last seg then position
        else if x = last (l # xs) then hd (ys @ [l]) else ln_next (h x))"
    "ln_previous (snd (enet_list_move position (hd seg) (last seg) h) x) =
       (if x = position then last seg else if x = hd seg then last (m # us)
        else if x = hd (ys @ [l]) then last (l # xs) else ln_previous (h x))" for x
    by (simp_all only: move_next [where h = h, OF ne'] move_previous [where h = h, OF ne'] pf pp seg(3))
  obtain A B P Q F T where
    eqs: "A = last (l # xs)" "B = hd (ys @ [l])" "P = position" "Q = last (m # us)"
      "F = hd seg" "T = last seg" by blast
  define h' where "h' = snd (enet_list_move position (hd seg) (last seg) h)"
  have nx: "ln_next (h' a) = (if a = Q then F else if a = T then P else if a = A then B else ln_next (h a))"
    and pv: "ln_previous (h' a) =
      (if a = P then T else if a = F then Q else if a = B then A else ln_previous (h a))" for a
    using mv by (simp_all only: h'_def eqs)
  note mem = mem [folded eqs] and pos' = pos [folded eqs]
  have dm: "Q \<notin> insert l (set xs \<union> set seg \<union> set ys)" "P \<notin> insert l (set xs \<union> set seg \<union> set ys)"
    "A \<notin> insert m (set us \<union> set vs)" "B \<notin> insert m (set us \<union> set vs)"
    "F \<notin> insert m (set us \<union> set vs)" "T \<notin> insert m (set us \<union> set vs)"
    using mem disj by (simp, blast)+
  have ds: "F \<notin> insert l (set xs \<union> set ys)" "T \<notin> insert l (set xs \<union> set ys)"
    "A \<notin> set seg" "B \<notin> set seg" "B \<notin> set xs" "A \<notin> set ys" "P \<notin> set us" "Q \<notin> set vs"
    using mem sp(3) dp(3) by (simp, blast)+
  have src': "linked h' (l # xs)" "linked h' (ys @ [l])"
  proof -
    have "linked h' (l # xs) = linked h (l # xs)"
      by (intro linked_prefix_cong ballI; (unfold eqs [symmetric] nx pv)?; use sp(3) dm ds in auto)
    moreover have "linked h' (ys @ [l]) = linked h (ys @ [l])"
      by (intro linked_suffix_cong ballI; (unfold eqs [symmetric] nx pv)?; use sp(3) dm ds in auto)
    ultimately show "linked h' (l # xs)" "linked h' (ys @ [l])"
      using sp(1) seg(2) by simp_all
  qed
  have dst': "linked h' (m # us)" "linked h' (vs @ [m])" "linked h' seg"
  proof -
    have "linked h' (m # us) = linked h (m # us)"
      by (intro linked_prefix_cong ballI; (unfold eqs [symmetric] nx pv)?; use dp(3) dm ds in auto)
    moreover have "linked h' (vs @ [m]) = linked h (vs @ [m])"
      by (intro linked_suffix_cong ballI; (unfold pos [symmetric] eqs [symmetric] nx pv)?; use dp(3) dm ds in auto)
    moreover have "linked h' seg = linked h seg"
      by (intro linked_infix_cong ballI; (unfold eqs [symmetric] nx pv)?; use sp(3) dm ds in auto)
    ultimately show "linked h' (m # us)" "linked h' (vs @ [m])" "linked h' seg"
      using dp(1,2) seg(1) by simp_all
  qed
  have nA: "ln_next (h' A) = B" "ln_previous (h' B) = A" "ln_next (h' Q) = F" "ln_previous (h' F) = Q"
    "ln_next (h' T) = P" "ln_previous (h' P) = T"
    using dm ds mem by (auto simp: nx pv)
  show "is_list (snd (enet_list_move position (hd seg) (last seg) h)) l (xs @ ys)"
    unfolding h'_def [symmetric]
    by (intro is_list_splitI src') (use sp(3) nA in \<open>auto simp: eqs [symmetric] simp del: last.simps\<close>)
  have "linked h' (seg @ (vs @ [m]))"
    using dst' ne nA by (subst linked_join) (simp_all add: eqs pos [symmetric])
  then show "is_list (snd (enet_list_move position (hd seg) (last seg) h)) m (us @ seg @ vs)"
    unfolding h'_def [symmetric]
    using dst'(1) ne nA sp(3) dp(3) disj
    by (intro is_list_splitI) (auto simp: eqs [symmetric] simp del: last.simps)
qed

text \<open>The traversal of a well-formed list returns, with the number of nodes.\<close>

lemma list_size_loop_linked:
  "linked h (x # xs @ [l]) \<Longrightarrow> l \<notin> set xs \<Longrightarrow> list_size_loop h l (ln_next (h x)) n = Some (n + length xs)"
proof (induction xs arbitrary: x n)
  case Nil
  then show ?case by (simp add: list_size_loop.simps enet_list_end_def)
next
  case (Cons a xs)
  then show ?case
    by (subst list_size_loop.simps) (auto simp: enet_list_end_def)
qed

lemma is_list_size: "is_list h l xs \<Longrightarrow> enet_list_size h l = Some (length xs)"
  using list_size_loop_linked [of h l xs l 0]
  by (simp add: is_list_def enet_list_size_def enet_list_begin_def)

lemma is_list_begin: "is_list h l xs \<Longrightarrow> enet_list_begin h l = hd (xs @ [l])"
  by (cases xs) (simp_all add: is_list_def enet_list_begin_def)

lemma is_list_empty: "is_list h l xs \<Longrightarrow> enet_list_empty h l \<longleftrightarrow> xs = []"
  by (cases xs) (auto simp: is_list_def enet_list_begin_def enet_list_empty_def enet_list_end_def)

lemma is_list_back: "is_list h l xs \<Longrightarrow> enet_list_back h l = last (l # xs)"
  using is_list_splitD(5) [of h l xs "[]"] by (simp add: enet_list_back_def)

text \<open>
  A node that is already the last of a list must not be inserted at its end again: its
  link then points to itself and the traversal never returns.
\<close>

lemma self_loop_diverges:
  assumes "ln_next (h d) = d" "d \<noteq> l"
  shows "list_size_loop h l d n = None"
proof -
  have "\<not> list_size_loop h l d n = Some r" for r
  proof
    assume "list_size_loop h l d n = Some r"
    then have "d = d \<longrightarrow> h = h \<and> l = l \<longrightarrow> False"
    proof (rule list_size_loop.raw_induct [where P = "\<lambda>h' l' p n r. p = d \<longrightarrow> h' = h \<and> l' = l \<longrightarrow> False", rotated])
      fix f h' l' p n r
      assume IH: "\<And>h' l' p n r. f h' l' p n = Some r \<Longrightarrow> p = d \<longrightarrow> h' = h \<and> l' = l \<longrightarrow> False"
        and eq: "(if p \<noteq> enet_list_end l' then f h' l' (ln_next (h' p)) (Suc n) else Some n) = Some r"
      show "p = d \<longrightarrow> h' = h \<and> l' = l \<longrightarrow> False"
        using eq IH [of h l d "Suc n" r] assms by (auto simp: enet_list_end_def)
    qed
    then show False by simp
  qed
  then show ?thesis by (cases "list_size_loop h l d n") auto
qed

lemma list_size_loop_reaches:
  "linked h (x # xs @ [d]) \<Longrightarrow> l \<notin> set (xs @ [d]) \<Longrightarrow>
   \<forall>a \<in> set (x # xs). ln_next (h' a) = ln_next (h a) \<Longrightarrow>
   list_size_loop h' l (ln_next (h' x)) n = list_size_loop h' l d (n + length xs)"
proof (induction xs arbitrary: x n)
  case (Cons a xs)
  then show ?case
    by (subst list_size_loop.simps) (auto simp: enet_list_end_def)
qed simp

lemma is_list_reinsert_diverges:
  assumes "is_list h l (xs @ [d])"
  shows "enet_list_size (snd (enet_list_insert (enet_list_end l) d h)) l = None"
proof -
  let ?h = "snd (enet_list_insert l d h)"
  note sp = is_list_splitD [OF assms]
  have prv: "ln_previous (h l) = d"
    using is_list_back [OF assms] by (simp add: enet_list_back_def)
  have dl: "d \<noteq> l" and lx: "l \<notin> set (xs @ [d])" "d \<notin> set xs"
    using sp(3) by auto
  have "linked h (l # xs @ [d])"
    using assms linked_join [of "l # xs @ [d]" "[l]" h] by (simp add: is_list_def)
  moreover have "\<forall>a \<in> set (l # xs). ln_next (?h a) = ln_next (h a)"
    using dl lx by (auto simp: insert_next prv)
  ultimately have "enet_list_size ?h l = list_size_loop ?h l d (length xs)"
    using lx list_size_loop_reaches [of h l xs d l ?h 0]
    by (simp add: enet_list_size_def enet_list_begin_def)
  also have "\<dots> = None"
    using dl by (intro self_loop_diverges) (auto simp: insert_next prv)
  finally show ?thesis by (simp add: enet_list_end_def)
qed

section \<open>The lists as queues\<close>

text \<open>
  Every queue of ENet is filled at its end (\<open>enet_list_insert (enet_list_end q) x\<close>) and
  emptied from its beginning (\<open>while (!enet_list_empty (q)) enet_list_remove (enet_list_begin (q))\<close>).
  The emptying loop, over the operations it uses; \<open>None\<close> is a loop that does not end.
\<close>

partial_function (option) drain_loop ::
  "('h \<Rightarrow> nat \<Rightarrow> bool) \<Rightarrow> ('h \<Rightarrow> nat \<Rightarrow> nat) \<Rightarrow> (nat \<Rightarrow> 'h \<Rightarrow> nat \<times> 'h) \<Rightarrow> 'h \<Rightarrow> nat \<Rightarrow> nat list \<Rightarrow>
   (nat list \<times> 'h) option" where
  "drain_loop is_empty front unlink h l out =
     (if is_empty h l then Some (out, h)
      else let (x, h') = unlink (front h l) h
           in drain_loop is_empty front unlink h' l (out @ [x]))"

definition push_all :: "(nat \<Rightarrow> nat \<Rightarrow> 'h \<Rightarrow> nat \<times> 'h) \<Rightarrow> nat \<Rightarrow> nat list \<Rightarrow> 'h \<Rightarrow> 'h" where
  "push_all insert_before l ds h = fold (\<lambda>d h. snd (insert_before (enet_list_end l) d h)) ds h"

locale intrusive_queue =
  fixes rep :: "'h \<Rightarrow> nat \<Rightarrow> nat list \<Rightarrow> bool"
    and clear :: "nat \<Rightarrow> 'h \<Rightarrow> 'h"
    and insert_before :: "nat \<Rightarrow> nat \<Rightarrow> 'h \<Rightarrow> nat \<times> 'h"
    and unlink :: "nat \<Rightarrow> 'h \<Rightarrow> nat \<times> 'h"
    and is_empty :: "'h \<Rightarrow> nat \<Rightarrow> bool"
    and front :: "'h \<Rightarrow> nat \<Rightarrow> nat"
  assumes rep_clear: "rep (clear l h) l []"
    and rep_push: "rep h l xs \<Longrightarrow> d \<notin> insert l (set xs) \<Longrightarrow>
      rep (snd (insert_before (enet_list_end l) d h)) l (xs @ [d])"
    and rep_unlink: "rep h l (x # xs) \<Longrightarrow> rep (snd (unlink x h)) l xs"
    and unlink_result: "fst (unlink x h) = x"
    and rep_is_empty: "rep h l xs \<Longrightarrow> is_empty h l \<longleftrightarrow> xs = []"
    and rep_front: "rep h l (x # xs) \<Longrightarrow> front h l = x"
begin

lemma push_all_rep:
  "rep h l xs \<Longrightarrow> distinct (l # xs @ ds) \<Longrightarrow> rep (push_all insert_before l ds h) l (xs @ ds)"
proof (induction ds arbitrary: h xs)
  case (Cons d ds)
  then have "rep (snd (insert_before (enet_list_end l) d h)) l (xs @ [d])"
    by (intro rep_push) auto
  with Cons.IH [of _ "xs @ [d]"] Cons.prems(2) show ?case
    by (simp add: push_all_def)
qed (simp add: push_all_def)

lemma drain_rep:
  "rep h l xs \<Longrightarrow> \<exists>h'. drain_loop is_empty front unlink h l out = Some (out @ xs, h') \<and> rep h' l []"
proof (induction xs arbitrary: h out)
  case Nil
  then show ?case by (subst drain_loop.simps) (simp add: rep_is_empty)
next
  case (Cons x xs)
  obtain h' where h': "unlink x h = (x, h')" "rep h' l xs"
    using rep_unlink [OF Cons.prems] unlink_result [of x h] by (metis prod.collapse)
  then show ?case
    using Cons.IH [of h' "out @ [x]"] rep_is_empty [OF Cons.prems] rep_front [OF Cons.prems]
    by (subst drain_loop.simps) simp
qed

lemma drain_after_push_all:
  assumes "distinct (l # ds)"
  shows "\<exists>h'. drain_loop is_empty front unlink (push_all insert_before l ds (clear l h)) l [] = Some (ds, h')
    \<and> rep h' l []"
proof -
  have "rep (push_all insert_before l ds (clear l h)) l ([] @ ds)"
    by (rule push_all_rep [OF rep_clear]) (use assms in simp)
  from drain_rep [OF this, where out = "[]"] show ?thesis by simp
qed

end

interpretation enet_queue: intrusive_queue is_list enet_list_clear enet_list_insert enet_list_remove
  enet_list_empty enet_list_begin
proof unfold_locales
  show "is_list h l xs \<Longrightarrow> d \<notin> insert l (set xs) \<Longrightarrow>
      is_list (snd (enet_list_insert (enet_list_end l) d h)) l (xs @ [d])" for h l xs d
    using is_list_insert [of h l xs "[]" d l] by (simp add: enet_list_end_def)
  show "is_list h l (x # xs) \<Longrightarrow> is_list (snd (enet_list_remove x h)) l xs" for h l x xs
    using is_list_remove [of h l "[]" x xs] by simp
  show "is_list h l (x # xs) \<Longrightarrow> enet_list_begin h l = x" for h l x xs
    by (simp add: is_list_begin)
qed (simp_all add: is_list_clear is_list_empty)

text \<open>
  The emptying loop does not return either.  After the second insertion the links lead from the
  sentinel over the other nodes to a node that is its own successor; taking nodes off the front keeps this
  shape, and a list of this shape is not empty.
\<close>

definition caught :: "node_heap \<Rightarrow> nat \<Rightarrow> nat list \<Rightarrow> nat \<Rightarrow> bool" where
  "caught h l xs d \<longleftrightarrow> linked h (l # xs) \<and> distinct (l # xs @ [d]) \<and> ln_next (h (last (l # xs))) = d
     \<and> ln_next (h d) = d \<and> ln_previous (h d) \<in> {d, last (l # xs)}"

lemma caught_not_empty: "caught h l xs d \<Longrightarrow> \<not> enet_list_empty h l"
  by (cases xs) (auto simp: caught_def enet_list_empty_def enet_list_begin_def enet_list_end_def)

lemma caught_remove:
  assumes "caught h l xs d"
  shows "\<exists>ys. caught (snd (enet_list_remove (enet_list_begin h l) h)) l ys d"
proof (cases xs)
  case Nil
  then have "caught (snd (enet_list_remove (enet_list_begin h l) h)) l [] d"
    using assms by (auto simp: caught_def enet_list_begin_def remove_next remove_previous)
  then show ?thesis by blast
next
  case (Cons x ys)
  have "caught (snd (enet_list_remove (enet_list_begin h l) h)) l ys d"
  proof (cases ys)
    case Nil
    then show ?thesis
      using assms Cons by (auto simp: caught_def enet_list_begin_def remove_next remove_previous)
  next
    case (Cons y zs)
    let ?h = "snd (enet_list_remove x h)"
    have h: "linked h (l # x # y # zs)" "distinct (l # x # y # zs @ [d])" "ln_next (h (last (y # zs))) = d"
      "ln_next (h d) = d" "ln_previous (h d) \<in> {d, last (y # zs)}"
      using assms \<open>xs = x # ys\<close> Cons by (simp_all add: caught_def)
    have "linked ?h (y # zs) = linked h (y # zs)"
      using h(1,2) by (intro linked_cong) (auto simp: remove_next remove_previous dest: in_set_butlastD)
    then have "caught ?h l (y # zs) d"
      using h by (auto simp: caught_def remove_next remove_previous)
    then show ?thesis
      using assms \<open>xs = x # ys\<close> Cons h(1) by (simp add: enet_list_begin_def)
  qed
  then show ?thesis by blast
qed

lemma caught_drain_diverges:
  assumes "caught h l xs d"
  shows "drain_loop enet_list_empty enet_list_begin enet_list_remove h l out = None"
proof -
  have "\<not> drain_loop enet_list_empty enet_list_begin enet_list_remove h l out = Some r" for r
  proof
    assume "drain_loop enet_list_empty enet_list_begin enet_list_remove h l out = Some r"
    then have "enet_list_empty = enet_list_empty \<and> enet_list_begin = enet_list_begin \<and> enet_list_remove = enet_list_remove
      \<longrightarrow> (\<forall>xs. \<not> caught h l xs d)"
    proof (rule drain_loop.raw_induct [where P = "\<lambda>is_empty front unlink h' l' out r.
          is_empty = enet_list_empty \<and> front = enet_list_begin \<and> unlink = enet_list_remove \<longrightarrow> (\<forall>xs. \<not> caught h' l' xs d)",
          rotated])
      fix f is_empty front unlink h' l' out r
      assume IH: "\<And>is_empty front unlink h' l' out r. f is_empty front unlink h' l' out = Some r \<Longrightarrow>
          is_empty = enet_list_empty \<and> front = enet_list_begin \<and> unlink = enet_list_remove \<longrightarrow> (\<forall>xs. \<not> caught h' l' xs d)"
        and eq: "(if is_empty h' l' then Some (out, h')
          else let (x, h'') = unlink (front h' l') h' in f is_empty front unlink h'' l' (out @ [x])) = Some r"
      show "is_empty = enet_list_empty \<and> front = enet_list_begin \<and> unlink = enet_list_remove \<longrightarrow> (\<forall>xs. \<not> caught h' l' xs d)"
        using eq IH [of enet_list_empty enet_list_begin enet_list_remove "snd (enet_list_remove (enet_list_begin h' l') h')" l'
            "out @ [enet_list_begin h' l']" r] caught_not_empty [of h' l' _ d] caught_remove [of h' l' _ d]
        by (auto simp: Let_def case_prod_beta)
    qed
    then show False using assms by blast
  qed
  then show ?thesis
    by (cases "drain_loop enet_list_empty enet_list_begin enet_list_remove h l out") auto
qed

lemma reinsert_caught:
  assumes "is_list h l (xs @ [d])"
  shows "caught (snd (enet_list_insert (enet_list_end l) d h)) l xs d"
proof -
  let ?h = "snd (enet_list_insert l d h)"
  note sp = is_list_splitD [OF assms]
  have prv: "ln_previous (h l) = d"
    using is_list_back [OF assms] by (simp add: enet_list_back_def)
  have d: "d \<noteq> l" "d \<notin> set xs" "l \<notin> set xs" "distinct xs"
    using sp(3) by auto
  have "linked ?h (l # xs) = linked h (l # xs)"
    using d by (intro linked_cong) (auto simp: insert_next insert_previous prv dest: in_set_butlastD)
  moreover have "last (l # xs) \<noteq> d"
    using d by auto
  ultimately show ?thesis
    using sp d by (auto simp: caught_def enet_list_end_def insert_next insert_previous prv)
qed

section \<open>Properties of the lists\<close>

text \<open>C24: \<open>enet_list_move\<close> takes a non-empty run of nodes out of one list and links it, in order, in
  front of a position of another, leaving both lists well linked and every other node in place.\<close>

theorem move_splices:
  assumes "is_list h l (xs @ seg @ ys)" "is_list h m (us @ vs)" "seg \<noteq> []"
    and "insert l (set (xs @ seg @ ys)) \<inter> insert m (set (us @ vs)) = {}"
  shows "is_list (snd (enet_list_move (hd (vs @ [m])) (hd seg) (last seg) h)) l (xs @ ys)
    \<and> is_list (snd (enet_list_move (hd (vs @ [m])) (hd seg) (last seg) h)) m (us @ seg @ vs)"
  using is_list_move [OF assms refl] by blast

definition sample_heap :: node_heap where
  "sample_heap = push_all enet_list_insert 0 [1, 2, 3] (enet_list_clear 0 (enet_list_clear 10 (\<lambda>_. \<lparr>ln_next = 0, ln_previous = 0\<rparr>)))"

lemma sample_heap_lists: "is_list sample_heap 0 [1, 2, 3]" "is_list sample_heap 10 []"
  by (simp_all add: is_list_def sample_heap_def push_all_def enet_list_insert_def enet_list_clear_def
    enet_list_end_def set_next_def set_previous_def Let_def)

theorem move_splices_witness:
  "is_list (snd (enet_list_move 10 1 2 sample_heap)) 0 [3] \<and> is_list (snd (enet_list_move 10 1 2 sample_heap)) 10 [1, 2]"
  using move_splices [of sample_heap 0 "[]" "[1, 2]" "[3]" 10 "[]" "[]"] sample_heap_lists by simp

text \<open>C25: Filling a list at its end and emptying it from its beginning is a queue: the emptying loop
  ends, returns exactly the inserted nodes in the order of their insertion, and leaves the list empty.\<close>

theorem list_is_fifo:
  assumes "distinct (l # ds)"
  shows "\<exists>h'. drain_loop enet_list_empty enet_list_begin enet_list_remove
      (push_all enet_list_insert l ds (enet_list_clear l h)) l [] = Some (ds, h') \<and> is_list h' l []"
  using assms by (rule enet_queue.drain_after_push_all)

theorem list_is_fifo_witness:
  "\<exists>h'. drain_loop enet_list_empty enet_list_begin enet_list_remove
      (push_all enet_list_insert 0 [5, 3, 4] (enet_list_clear 0 sample_heap)) 0 [] = Some ([5, 3, 4], h')
      \<and> is_list h' 0 []"
  using list_is_fifo [of 0 "[5, 3, 4]" sample_heap] by simp

text \<open>C35: When the last node of a list is inserted at its end once more, neither the traversal of
  \<open>enet_list_size\<close> nor the loop that empties the list from its beginning returns: the node has become its
  own successor, so the traversal does not meet the sentinel, and \<open>enet_list_empty\<close> stays false
  however many nodes are removed.\<close>

theorem relinking_last_node_never_ends:
  assumes "is_list h l (xs @ [d])" "h' = snd (enet_list_insert (enet_list_end l) d h)"
  shows "enet_list_size h' l = None \<and> drain_loop enet_list_empty enet_list_begin enet_list_remove h' l [] = None"
  using is_list_reinsert_diverges [OF assms(1)] caught_drain_diverges [OF reinsert_caught [OF assms(1)]]
  by (simp add: assms(2))

theorem relinking_last_node_never_ends_witness:
  "let h' = snd (enet_list_insert (enet_list_end 0) 3 sample_heap) in
     enet_list_size h' 0 = None \<and> drain_loop enet_list_empty enet_list_begin enet_list_remove h' 0 [] = None"
  using relinking_last_node_never_ends [of sample_heap 0 "[1, 2]" 3, OF _ refl] sample_heap_lists
  by (simp add: Let_def)

end
