(* ===== verification/Enet_Packet.thy ===== *)
theory Enet_Packet
  imports Enet_Prelude "HOL-Library.Multiset"
begin

text \<open>
  Memory and packets: \<^verbatim>\<open>src/packet.c\<close> (creation, destruction, resizing) and the allocation
  wrappers of \<^verbatim>\<open>src/callbacks.c\<close>.  Packets are shared between queues and counted by
  \<open>referenceCount\<close>, so they live in a store and are named by their address.  The lemmas
  show when a reference count agrees with the references held, and that a packet is
  destroyed exactly when the last one is given back.
\<close>

section \<open>Memory\<close>

text \<open>
  A byte of a packet is \<open>None\<close> until it is written: \<open>enet_packet_create\<close> with a null
  \<open>data\<close> leaves the buffer uninitialised.  The null data pointer is the empty buffer.
  \<open>pk_freeCallback\<close> says whether the callback is set; what it does is the user's code.
\<close>

record ENetPacket =
  pk_referenceCount :: u64
  pk_flags :: u32
  pk_data :: "u8 option list"
  pk_dataLength :: nat
  pk_freeCallback :: bool

text \<open>
  The memory: the live packets, the number of allocations made so far (also the address of
  the next block), whether the \<open>n\<close>-th allocation succeeds, the packets handed to a free
  callback, latest first, and a flag raised when a dangling or null pointer is used or a
  linked list node is linked twice.  After the flag is raised nothing is claimed of the
  state.  An allocation may fail and return: the \<open>no_memory\<close> callback then returned.
\<close>

record memory =
  en_packets :: "nat \<Rightarrow> ENetPacket option"
  en_next :: nat
  en_malloc :: "nat \<Rightarrow> bool"
  en_callbacks :: "(nat \<times> ENetPacket) list"
  en_fault :: bool

definition raise_fault :: "'a memory_scheme \<Rightarrow> 'a memory_scheme" where
  "raise_fault m = m\<lparr>en_fault := True\<rparr>"

definition enet_malloc :: "'a memory_scheme \<Rightarrow> nat option \<times> 'a memory_scheme" where
  "enet_malloc m =
     (let n = en_next m
      in (if en_malloc m n then Some n else None, m\<lparr>en_next := Suc n\<rparr>))"

section \<open>Packet flags\<close>

abbreviation (input) ENET_PACKET_FLAG_RELIABLE :: u32 where
  "ENET_PACKET_FLAG_RELIABLE \<equiv> 1"

abbreviation (input) ENET_PACKET_FLAG_UNSEQUENCED :: u32 where
  "ENET_PACKET_FLAG_UNSEQUENCED \<equiv> 2"

abbreviation (input) ENET_PACKET_FLAG_NO_ALLOCATE :: u32 where
  "ENET_PACKET_FLAG_NO_ALLOCATE \<equiv> 4"

abbreviation (input) ENET_PACKET_FLAG_UNRELIABLE_FRAGMENT :: u32 where
  "ENET_PACKET_FLAG_UNRELIABLE_FRAGMENT \<equiv> 8"

abbreviation (input) ENET_PACKET_FLAG_SENT :: u32 where
  "ENET_PACKET_FLAG_SENT \<equiv> 256"

section \<open>src/packet.c\<close>

text \<open>\<open>data\<close> is \<open>None\<close> for the null pointer, otherwise the bytes it points to.\<close>

definition enet_packet_create ::
  "u8 list option \<Rightarrow> nat \<Rightarrow> u32 \<Rightarrow> 'a memory_scheme \<Rightarrow> nat option \<times> 'a memory_scheme" where
  "enet_packet_create data dataLength flags m =
     (case enet_malloc m of
        (None, m) \<Rightarrow> (None, m)
      | (Some packet, m) \<Rightarrow>
          (let (buffer, m) =
             (if has_flag flags ENET_PACKET_FLAG_NO_ALLOCATE then
                (Some (case data of None \<Rightarrow> [] | Some d \<Rightarrow> map Some d), m)
              else if dataLength \<le> 0 then (Some [], m)
              else
                (case enet_malloc m of
                   (None, m) \<Rightarrow> (None, m)
                 | (Some _, m) \<Rightarrow>
                     (Some (case data of None \<Rightarrow> replicate dataLength None
                            | Some d \<Rightarrow> map Some (take dataLength d)), m)))
           in case buffer of
                None \<Rightarrow> (None, m)
              | Some bytes \<Rightarrow>
                  (Some packet,
                   m\<lparr>en_packets := (en_packets m)(packet \<mapsto>
                       \<lparr>pk_referenceCount = 0, pk_flags = flags, pk_data = bytes,
                        pk_dataLength = dataLength, pk_freeCallback = False\<rparr>)\<rparr>)))"

text \<open>Destroying a packet that is not live is a double free.\<close>

definition enet_packet_destroy :: "nat option \<Rightarrow> 'a memory_scheme \<Rightarrow> 'a memory_scheme" where
  "enet_packet_destroy packet m =
     (case packet of
        None \<Rightarrow> m
      | Some p \<Rightarrow>
          (case en_packets m p of
             None \<Rightarrow> raise_fault m
           | Some pk \<Rightarrow>
               m\<lparr>en_callbacks := (if pk_freeCallback pk then (p, pk) # en_callbacks m else en_callbacks m),
                 en_packets := (en_packets m)(p := None)\<rparr>))"

definition enet_packet_resize :: "nat \<Rightarrow> nat \<Rightarrow> 'a memory_scheme \<Rightarrow> int \<times> 'a memory_scheme" where
  "enet_packet_resize packet dataLength m =
     (case en_packets m packet of
        None \<Rightarrow> (- 1, raise_fault m)
      | Some pk \<Rightarrow>
          if dataLength \<le> pk_dataLength pk \<or> has_flag (pk_flags pk) ENET_PACKET_FLAG_NO_ALLOCATE then
            (0, m\<lparr>en_packets := (en_packets m)(packet \<mapsto> pk\<lparr>pk_dataLength := dataLength\<rparr>)\<rparr>)
          else
            (case enet_malloc m of
               (None, m) \<Rightarrow> (- 1, m)
             | (Some _, m) \<Rightarrow>
                 (let newData = take (pk_dataLength pk) (pk_data pk)
                        @ replicate (dataLength - min (pk_dataLength pk) (length (pk_data pk))) None
                  in (0, m\<lparr>en_packets := (en_packets m)(packet \<mapsto>
                            pk\<lparr>pk_data := newData, pk_dataLength := dataLength\<rparr>)\<rparr>))))"

section \<open>Taking and giving back references\<close>

text \<open>\<open>++packet->referenceCount\<close> and \<open>packet->referenceCount += n\<close>.\<close>

definition packet_addref :: "u64 \<Rightarrow> nat \<Rightarrow> 'a memory_scheme \<Rightarrow> 'a memory_scheme" where
  "packet_addref n packet m =
     (case en_packets m packet of
        None \<Rightarrow> raise_fault m
      | Some pk \<Rightarrow>
          m\<lparr>en_packets := (en_packets m)(packet \<mapsto>
              pk\<lparr>pk_referenceCount := pk_referenceCount pk + n\<rparr>)\<rparr>)"

text \<open>
  The block every queue uses to let go of a packet: decrement, and destroy at zero, after
  setting the flags \<open>extra\<close> (\<open>ENET_PACKET_FLAG_SENT\<close> where the packet has been sent).
\<close>

definition packet_unref :: "u32 \<Rightarrow> nat \<Rightarrow> 'a memory_scheme \<Rightarrow> 'a memory_scheme" where
  "packet_unref extra packet m =
     (case en_packets m packet of
        None \<Rightarrow> raise_fault m
      | Some pk \<Rightarrow>
          (let pk = pk\<lparr>pk_referenceCount := pk_referenceCount pk - 1\<rparr>;
               m = m\<lparr>en_packets := (en_packets m)(packet \<mapsto> pk)\<rparr>
           in if pk_referenceCount pk = 0 then
                enet_packet_destroy (Some packet)
                  (m\<lparr>en_packets := (en_packets m)(packet \<mapsto>
                       pk\<lparr>pk_flags := set_flag (pk_flags pk) extra\<rparr>)\<rparr>)
              else m))"

section \<open>Operations on the memory keep the fields that extend it\<close>

named_theorems mem_frame

lemma more_malloc [mem_frame]: "memory.more (snd (enet_malloc m)) = memory.more m"
  by (simp add: enet_malloc_def Let_def)

lemma more_raise_fault [mem_frame]: "memory.more (raise_fault m) = memory.more m"
  by (simp add: raise_fault_def)

lemma more_destroy [mem_frame]: "memory.more (enet_packet_destroy p m) = memory.more m"
  by (simp add: enet_packet_destroy_def raise_fault_def split: option.splits)

lemma more_create [mem_frame]: "memory.more (snd (enet_packet_create d n f m)) = memory.more m"
  by (simp add: enet_packet_create_def enet_malloc_def Let_def split: option.splits)

lemma more_addref [mem_frame]: "memory.more (packet_addref k p m) = memory.more m"
  by (simp add: packet_addref_def raise_fault_def split: option.splits)

lemma more_unref [mem_frame]: "memory.more (packet_unref e p m) = memory.more m"
  by (simp add: packet_unref_def raise_fault_def Let_def mem_frame split: option.splits)

section \<open>Reference counts agree with the references held\<close>

text \<open>
  \<open>M\<close> is the multiset of references the queues hold.  Every referenced packet is live and
  its counter is the number of its references (modulo the counter's width).
\<close>

definition refs_ok :: "nat multiset \<Rightarrow> 'a memory_scheme \<Rightarrow> bool" where
  "refs_ok M m \<longleftrightarrow>
     (\<forall>p. case en_packets m p of
            None \<Rightarrow> count M p = 0
          | Some pk \<Rightarrow> pk_referenceCount pk = of_nat (count M p))"

lemma refs_ok_live: "refs_ok M m \<Longrightarrow> p \<in># M \<Longrightarrow> \<exists>pk. en_packets m p = Some pk"
  by (auto simp: refs_ok_def count_eq_zero_iff split: option.splits dest!: spec [of _ p])

lemma refs_ok_count: "refs_ok M m \<Longrightarrow> en_packets m p = Some pk \<Longrightarrow> pk_referenceCount pk = of_nat (count M p)"
  by (auto simp: refs_ok_def split: option.splits dest!: spec [of _ p])

lemma refs_ok_same_packets: "en_packets m' = en_packets m \<Longrightarrow> refs_ok M m' = refs_ok M m"
  by (simp add: refs_ok_def)

lemma refs_ok_addref:
  assumes "refs_ok M m" "en_packets m p = Some pk"
  shows "refs_ok (M + replicate_mset n p) (packet_addref (of_nat n) p m)"
    and "en_fault (packet_addref (of_nat n) p m) = en_fault m"
proof -
  show "refs_ok (M + replicate_mset n p) (packet_addref (of_nat n) p m)"
    unfolding refs_ok_def
  proof
    fix q
    show "case en_packets (packet_addref (of_nat n) p m) q of None \<Rightarrow> count (M + replicate_mset n p) q = 0
      | Some pk \<Rightarrow> pk_referenceCount pk = of_nat (count (M + replicate_mset n p) q)"
      using assms(1) [unfolded refs_ok_def, rule_format, of q] assms
      by (auto simp: packet_addref_def dest: refs_ok_count split: option.splits)
  qed
  show "en_fault (packet_addref (of_nat n) p m) = en_fault m"
    using assms(2) by (simp add: packet_addref_def)
qed

lemma refs_ok_unref:
  assumes ok: "refs_ok (add_mset p M) m" and small: "Suc (count M p) < 2 ^ 64"
  shows "refs_ok M (packet_unref extra p m)"
    and "en_fault (packet_unref extra p m) = en_fault m"
    and "en_packets (packet_unref extra p m) p = None \<longleftrightarrow> p \<notin># M"
proof -
  obtain pk where pk: "en_packets m p = Some pk"
    using refs_ok_live [OF ok, of p] by auto
  have rc: "pk_referenceCount pk - 1 = of_nat (count M p)"
    using refs_ok_count [OF ok pk] by simp
  have zero: "(of_nat (count M p) :: u64) = 0 \<longleftrightarrow> p \<notin># M"
    using small by (auto simp: word_of_nat_eq_0_iff not_in_iff dest: dvd_imp_le)
  note defs = packet_unref_def pk rc zero enet_packet_destroy_def refs_ok_def Let_def
  show "refs_ok M (packet_unref extra p m)"
    using ok by (auto simp: defs not_in_iff split: option.splits if_splits)
  show "en_fault (packet_unref extra p m) = en_fault m"
    by (simp add: defs)
  show "en_packets (packet_unref extra p m) p = None \<longleftrightarrow> p \<notin># M"
    by (simp add: defs)
qed

text \<open>C26: Giving back a reference that was taken keeps every reference count equal to the number of
  references left, never touches a packet that is not live, and frees the packet exactly when the
  last reference goes.\<close>

theorem packet_freed_with_last_reference:
  assumes "refs_ok (add_mset p M) m" "Suc (count M p) < 2 ^ 64"
  shows "refs_ok M (packet_unref extra p m) \<and> en_fault (packet_unref extra p m) = en_fault m
    \<and> (en_packets (packet_unref extra p m) p = None \<longleftrightarrow> p \<notin># M)"
  using refs_ok_unref [OF assms, of extra] by blast

definition sample_memory :: memory where
  "sample_memory = \<lparr>en_packets = [7 \<mapsto> \<lparr>pk_referenceCount = 2, pk_flags = 0, pk_data = [Some 65],
     pk_dataLength = 1, pk_freeCallback = False\<rparr>], en_next = 8, en_malloc = \<lambda>_. True,
     en_callbacks = [], en_fault = False\<rparr>"

theorem packet_freed_with_last_reference_witness:
  "en_packets (packet_unref 0 7 sample_memory) 7 \<noteq> None \<and> \<not> en_fault (packet_unref 0 7 sample_memory)"
proof -
  have "refs_ok (add_mset 7 {#7#}) sample_memory"
    by (simp add: refs_ok_def sample_memory_def)
  from packet_freed_with_last_reference [OF this, of 0] show ?thesis
    by (simp add: sample_memory_def)
qed

end
