(* ===== verification/Enet_Wire.thy ===== *)
theory Enet_Wire
  imports Enet_Prelude
begin

text \<open>
  The wire format of \<^verbatim>\<open>include/enet/protocol.h\<close>: the command structures, their packed
  layout in network byte order, and the size table of \<^verbatim>\<open>src/protocol.c\<close>.  A union
  \<open>ENetProtocol\<close> is a header extended by a body, one constructor per command number.
  Values are kept in host order; \<open>encode_command\<close> lays them out as the packed structs with
  the \<open>ENET_HOST_TO_NET\<close> conversions do, \<open>decode_command\<close> reads them at the same offsets.
  \<open>connectID\<close> travels without conversion: on a little-endian host its bytes are those of
  the native order.
\<close>

section \<open>Constants\<close>

abbreviation (input) ENET_PROTOCOL_MINIMUM_MTU :: u32 where "ENET_PROTOCOL_MINIMUM_MTU \<equiv> 576"
abbreviation (input) ENET_PROTOCOL_MAXIMUM_MTU :: u32 where "ENET_PROTOCOL_MAXIMUM_MTU \<equiv> 4096"
abbreviation (input) ENET_PROTOCOL_MAXIMUM_PACKET_COMMANDS :: nat where
  "ENET_PROTOCOL_MAXIMUM_PACKET_COMMANDS \<equiv> 32"
abbreviation (input) ENET_PROTOCOL_MINIMUM_WINDOW_SIZE :: u32 where
  "ENET_PROTOCOL_MINIMUM_WINDOW_SIZE \<equiv> 4096"
abbreviation (input) ENET_PROTOCOL_MAXIMUM_WINDOW_SIZE :: u32 where
  "ENET_PROTOCOL_MAXIMUM_WINDOW_SIZE \<equiv> 65536"
abbreviation (input) ENET_PROTOCOL_MINIMUM_CHANNEL_COUNT :: nat where
  "ENET_PROTOCOL_MINIMUM_CHANNEL_COUNT \<equiv> 1"
abbreviation (input) ENET_PROTOCOL_MAXIMUM_CHANNEL_COUNT :: nat where
  "ENET_PROTOCOL_MAXIMUM_CHANNEL_COUNT \<equiv> 255"
abbreviation (input) ENET_PROTOCOL_MAXIMUM_PEER_ID :: u16 where
  "ENET_PROTOCOL_MAXIMUM_PEER_ID \<equiv> 0xFFF"
abbreviation (input) ENET_PROTOCOL_MAXIMUM_FRAGMENT_COUNT :: u32 where
  "ENET_PROTOCOL_MAXIMUM_FRAGMENT_COUNT \<equiv> 1048576"

abbreviation (input) ENET_PROTOCOL_COMMAND_NONE :: u8 where "ENET_PROTOCOL_COMMAND_NONE \<equiv> 0"
abbreviation (input) ENET_PROTOCOL_COMMAND_ACKNOWLEDGE :: u8 where "ENET_PROTOCOL_COMMAND_ACKNOWLEDGE \<equiv> 1"
abbreviation (input) ENET_PROTOCOL_COMMAND_CONNECT :: u8 where "ENET_PROTOCOL_COMMAND_CONNECT \<equiv> 2"
abbreviation (input) ENET_PROTOCOL_COMMAND_VERIFY_CONNECT :: u8 where
  "ENET_PROTOCOL_COMMAND_VERIFY_CONNECT \<equiv> 3"
abbreviation (input) ENET_PROTOCOL_COMMAND_DISCONNECT :: u8 where "ENET_PROTOCOL_COMMAND_DISCONNECT \<equiv> 4"
abbreviation (input) ENET_PROTOCOL_COMMAND_PING :: u8 where "ENET_PROTOCOL_COMMAND_PING \<equiv> 5"
abbreviation (input) ENET_PROTOCOL_COMMAND_SEND_RELIABLE :: u8 where
  "ENET_PROTOCOL_COMMAND_SEND_RELIABLE \<equiv> 6"
abbreviation (input) ENET_PROTOCOL_COMMAND_SEND_UNRELIABLE :: u8 where
  "ENET_PROTOCOL_COMMAND_SEND_UNRELIABLE \<equiv> 7"
abbreviation (input) ENET_PROTOCOL_COMMAND_SEND_FRAGMENT :: u8 where
  "ENET_PROTOCOL_COMMAND_SEND_FRAGMENT \<equiv> 8"
abbreviation (input) ENET_PROTOCOL_COMMAND_SEND_UNSEQUENCED :: u8 where
  "ENET_PROTOCOL_COMMAND_SEND_UNSEQUENCED \<equiv> 9"
abbreviation (input) ENET_PROTOCOL_COMMAND_BANDWIDTH_LIMIT :: u8 where
  "ENET_PROTOCOL_COMMAND_BANDWIDTH_LIMIT \<equiv> 10"
abbreviation (input) ENET_PROTOCOL_COMMAND_THROTTLE_CONFIGURE :: u8 where
  "ENET_PROTOCOL_COMMAND_THROTTLE_CONFIGURE \<equiv> 11"
abbreviation (input) ENET_PROTOCOL_COMMAND_SEND_UNRELIABLE_FRAGMENT :: u8 where
  "ENET_PROTOCOL_COMMAND_SEND_UNRELIABLE_FRAGMENT \<equiv> 12"
abbreviation (input) ENET_PROTOCOL_COMMAND_COUNT :: u8 where "ENET_PROTOCOL_COMMAND_COUNT \<equiv> 13"
abbreviation (input) ENET_PROTOCOL_COMMAND_MASK :: u8 where "ENET_PROTOCOL_COMMAND_MASK \<equiv> 0x0F"

abbreviation (input) ENET_PROTOCOL_COMMAND_FLAG_ACKNOWLEDGE :: u8 where
  "ENET_PROTOCOL_COMMAND_FLAG_ACKNOWLEDGE \<equiv> 0x80"
abbreviation (input) ENET_PROTOCOL_COMMAND_FLAG_UNSEQUENCED :: u8 where
  "ENET_PROTOCOL_COMMAND_FLAG_UNSEQUENCED \<equiv> 0x40"

abbreviation (input) ENET_PROTOCOL_HEADER_FLAG_COMPRESSED :: u16 where
  "ENET_PROTOCOL_HEADER_FLAG_COMPRESSED \<equiv> 0x4000"
abbreviation (input) ENET_PROTOCOL_HEADER_FLAG_SENT_TIME :: u16 where
  "ENET_PROTOCOL_HEADER_FLAG_SENT_TIME \<equiv> 0x8000"
abbreviation (input) ENET_PROTOCOL_HEADER_FLAG_MASK :: u16 where
  "ENET_PROTOCOL_HEADER_FLAG_MASK \<equiv> 0xC000"
abbreviation (input) ENET_PROTOCOL_HEADER_SESSION_MASK :: u16 where
  "ENET_PROTOCOL_HEADER_SESSION_MASK \<equiv> 0x3000"
abbreviation (input) ENET_PROTOCOL_HEADER_SESSION_SHIFT :: nat where
  "ENET_PROTOCOL_HEADER_SESSION_SHIFT \<equiv> 12"

section \<open>Command structures\<close>

record ENetProtocolConnect =
  cn_outgoingPeerID :: u16
  cn_incomingSessionID :: u8
  cn_outgoingSessionID :: u8
  cn_mtu :: u32
  cn_windowSize :: u32
  cn_channelCount :: u32
  cn_incomingBandwidth :: u32
  cn_outgoingBandwidth :: u32
  cn_packetThrottleInterval :: u32
  cn_packetThrottleAcceleration :: u32
  cn_packetThrottleDeceleration :: u32
  cn_connectID :: u32
  cn_data :: u32

record ENetProtocolVerifyConnect =
  vc_outgoingPeerID :: u16
  vc_incomingSessionID :: u8
  vc_outgoingSessionID :: u8
  vc_mtu :: u32
  vc_windowSize :: u32
  vc_channelCount :: u32
  vc_incomingBandwidth :: u32
  vc_outgoingBandwidth :: u32
  vc_packetThrottleInterval :: u32
  vc_packetThrottleAcceleration :: u32
  vc_packetThrottleDeceleration :: u32
  vc_connectID :: u32

record ENetProtocolSendFragment =
  fr_startSequenceNumber :: u16
  fr_dataLength :: u16
  fr_fragmentCount :: u32
  fr_fragmentNumber :: u32
  fr_totalLength :: u32
  fr_fragmentOffset :: u32

datatype ENetProtocolBody =
    Acknowledge (receivedReliableSequenceNumber: u16) (receivedSentTime: u16)
  | Connect ENetProtocolConnect
  | VerifyConnect ENetProtocolVerifyConnect
  | Disconnect u32
  | Ping
  | SendReliable u16
  | SendUnreliable (unreliableSequenceNumber: u16) u16
  | SendFragment ENetProtocolSendFragment
  | SendUnsequenced (unsequencedGroup: u16) u16
  | BandwidthLimit u32 u32
  | ThrottleConfigure u32 u32 u32
  | SendUnreliableFragment ENetProtocolSendFragment

record ENetProtocolCommandHeader =
  hd_command :: u8
  hd_channelID :: u8
  hd_reliableSequenceNumber :: u16

record ENetProtocol = ENetProtocolCommandHeader +
  pr_body :: ENetProtocolBody

definition command_number :: "'a ENetProtocolCommandHeader_scheme \<Rightarrow> u8" where
  "command_number c = hd_command c AND ENET_PROTOCOL_COMMAND_MASK"

text \<open>The command number under which the code reads a body.\<close>

fun body_number :: "ENetProtocolBody \<Rightarrow> u8" where
  "body_number (Acknowledge _ _) = ENET_PROTOCOL_COMMAND_ACKNOWLEDGE"
| "body_number (Connect _) = ENET_PROTOCOL_COMMAND_CONNECT"
| "body_number (VerifyConnect _) = ENET_PROTOCOL_COMMAND_VERIFY_CONNECT"
| "body_number (Disconnect _) = ENET_PROTOCOL_COMMAND_DISCONNECT"
| "body_number Ping = ENET_PROTOCOL_COMMAND_PING"
| "body_number (SendReliable _) = ENET_PROTOCOL_COMMAND_SEND_RELIABLE"
| "body_number (SendUnreliable _ _) = ENET_PROTOCOL_COMMAND_SEND_UNRELIABLE"
| "body_number (SendFragment _) = ENET_PROTOCOL_COMMAND_SEND_FRAGMENT"
| "body_number (SendUnsequenced _ _) = ENET_PROTOCOL_COMMAND_SEND_UNSEQUENCED"
| "body_number (BandwidthLimit _ _) = ENET_PROTOCOL_COMMAND_BANDWIDTH_LIMIT"
| "body_number (ThrottleConfigure _ _ _) = ENET_PROTOCOL_COMMAND_THROTTLE_CONFIGURE"
| "body_number (SendUnreliableFragment _) = ENET_PROTOCOL_COMMAND_SEND_UNRELIABLE_FRAGMENT"

text \<open>The number of bytes behind a command that belong to it.\<close>

fun payload_length :: "ENetProtocolBody \<Rightarrow> nat" where
  "payload_length (SendReliable n) = unat n"
| "payload_length (SendUnreliable _ n) = unat n"
| "payload_length (SendUnsequenced _ n) = unat n"
| "payload_length (SendFragment f) = unat (fr_dataLength f)"
| "payload_length (SendUnreliableFragment f) = unat (fr_dataLength f)"
| "payload_length _ = 0"

definition wf_command :: "ENetProtocol \<Rightarrow> bool" where
  "wf_command c \<longleftrightarrow> command_number c = body_number (pr_body c)"

text \<open>
  The 16-bit word after the header as \<open>command->sendUnreliable.unreliableSequenceNumber\<close>
  reads it: the fragment structures keep \<open>startSequenceNumber\<close> there.
\<close>

fun union_unreliableSequenceNumber :: "ENetProtocolBody \<Rightarrow> u16" where
  "union_unreliableSequenceNumber (SendUnreliable u _) = u"
| "union_unreliableSequenceNumber (SendUnreliableFragment f) = fr_startSequenceNumber f"
| "union_unreliableSequenceNumber (SendFragment f) = fr_startSequenceNumber f"
| "union_unreliableSequenceNumber (SendUnsequenced g _) = g"
| "union_unreliableSequenceNumber _ = 0"

section \<open>Sizes\<close>

abbreviation (input) sizeof_ENetProtocolHeader :: nat where "sizeof_ENetProtocolHeader \<equiv> 4"
abbreviation (input) sizeof_ENetProtocolCommandHeader :: nat where "sizeof_ENetProtocolCommandHeader \<equiv> 4"
abbreviation (input) sizeof_ENetProtocolAcknowledge :: nat where "sizeof_ENetProtocolAcknowledge \<equiv> 8"
abbreviation (input) sizeof_ENetProtocolPing :: nat where "sizeof_ENetProtocolPing \<equiv> 4"
abbreviation (input) sizeof_ENetProtocolSendFragment :: nat where "sizeof_ENetProtocolSendFragment \<equiv> 24"

definition commandSizes :: "nat list" where
  "commandSizes = [0, 8, 48, 44, 8, 4, 6, 8, 24, 8, 12, 16, 24]"

definition enet_protocol_command_size :: "u8 \<Rightarrow> nat" where
  "enet_protocol_command_size commandNumber =
     commandSizes ! unat (commandNumber AND ENET_PROTOCOL_COMMAND_MASK)"

section \<open>Byte order\<close>

definition put16 :: "u16 \<Rightarrow> u8 list" where
  "put16 v = [ucast (drop_bit 8 v), ucast v]"

definition put32 :: "u32 \<Rightarrow> u8 list" where
  "put32 v = [ucast (drop_bit 24 v), ucast (drop_bit 16 v), ucast (drop_bit 8 v), ucast v]"

definition put32_native :: "u32 \<Rightarrow> u8 list" where
  "put32_native v = rev (put32 v)"

definition get16 :: "u8 list \<Rightarrow> nat \<Rightarrow> u16" where
  "get16 bs k = push_bit 8 (ucast (bs ! k)) OR ucast (bs ! (k + 1))"

definition get32 :: "u8 list \<Rightarrow> nat \<Rightarrow> u32" where
  "get32 bs k = push_bit 24 (ucast (bs ! k)) OR push_bit 16 (ucast (bs ! (k + 1)))
     OR push_bit 8 (ucast (bs ! (k + 2))) OR ucast (bs ! (k + 3))"

definition get32_native :: "u8 list \<Rightarrow> nat \<Rightarrow> u32" where
  "get32_native bs k = push_bit 24 (ucast (bs ! (k + 3))) OR push_bit 16 (ucast (bs ! (k + 2)))
     OR push_bit 8 (ucast (bs ! (k + 1))) OR ucast (bs ! k)"

section \<open>Layout\<close>

fun encode_body :: "ENetProtocolBody \<Rightarrow> u8 list" where
  "encode_body (Acknowledge r t) = put16 r @ put16 t"
| "encode_body (Connect c) =
     put16 (cn_outgoingPeerID c) @ [cn_incomingSessionID c, cn_outgoingSessionID c]
     @ put32 (cn_mtu c) @ put32 (cn_windowSize c) @ put32 (cn_channelCount c)
     @ put32 (cn_incomingBandwidth c) @ put32 (cn_outgoingBandwidth c)
     @ put32 (cn_packetThrottleInterval c) @ put32 (cn_packetThrottleAcceleration c)
     @ put32 (cn_packetThrottleDeceleration c) @ put32_native (cn_connectID c) @ put32 (cn_data c)"
| "encode_body (VerifyConnect c) =
     put16 (vc_outgoingPeerID c) @ [vc_incomingSessionID c, vc_outgoingSessionID c]
     @ put32 (vc_mtu c) @ put32 (vc_windowSize c) @ put32 (vc_channelCount c)
     @ put32 (vc_incomingBandwidth c) @ put32 (vc_outgoingBandwidth c)
     @ put32 (vc_packetThrottleInterval c) @ put32 (vc_packetThrottleAcceleration c)
     @ put32 (vc_packetThrottleDeceleration c) @ put32_native (vc_connectID c)"
| "encode_body (Disconnect d) = put32 d"
| "encode_body Ping = []"
| "encode_body (SendReliable n) = put16 n"
| "encode_body (SendUnreliable u n) = put16 u @ put16 n"
| "encode_body (SendFragment f) =
     put16 (fr_startSequenceNumber f) @ put16 (fr_dataLength f) @ put32 (fr_fragmentCount f)
     @ put32 (fr_fragmentNumber f) @ put32 (fr_totalLength f) @ put32 (fr_fragmentOffset f)"
| "encode_body (SendUnsequenced g n) = put16 g @ put16 n"
| "encode_body (BandwidthLimit i out) = put32 i @ put32 out"
| "encode_body (ThrottleConfigure i a d) = put32 i @ put32 a @ put32 d"
| "encode_body (SendUnreliableFragment f) =
     put16 (fr_startSequenceNumber f) @ put16 (fr_dataLength f) @ put32 (fr_fragmentCount f)
     @ put32 (fr_fragmentNumber f) @ put32 (fr_totalLength f) @ put32 (fr_fragmentOffset f)"

definition encode_command :: "ENetProtocol \<Rightarrow> u8 list" where
  "encode_command c =
     [hd_command c, hd_channelID c] @ put16 (hd_reliableSequenceNumber c) @ encode_body (pr_body c)"

definition decode_fragment :: "u8 list \<Rightarrow> ENetProtocolSendFragment" where
  "decode_fragment bs = \<lparr>fr_startSequenceNumber = get16 bs 4, fr_dataLength = get16 bs 6,
     fr_fragmentCount = get32 bs 8, fr_fragmentNumber = get32 bs 12,
     fr_totalLength = get32 bs 16, fr_fragmentOffset = get32 bs 20\<rparr>"

text \<open>The body at the offsets of the structure the number selects.\<close>

definition decode_body :: "u8 \<Rightarrow> u8 list \<Rightarrow> ENetProtocolBody" where
  "decode_body n bs =
     (if n = ENET_PROTOCOL_COMMAND_ACKNOWLEDGE then Acknowledge (get16 bs 4) (get16 bs 6)
      else if n = ENET_PROTOCOL_COMMAND_CONNECT then
        Connect \<lparr>cn_outgoingPeerID = get16 bs 4, cn_incomingSessionID = bs ! 6,
          cn_outgoingSessionID = bs ! 7, cn_mtu = get32 bs 8, cn_windowSize = get32 bs 12,
          cn_channelCount = get32 bs 16, cn_incomingBandwidth = get32 bs 20,
          cn_outgoingBandwidth = get32 bs 24, cn_packetThrottleInterval = get32 bs 28,
          cn_packetThrottleAcceleration = get32 bs 32, cn_packetThrottleDeceleration = get32 bs 36,
          cn_connectID = get32_native bs 40, cn_data = get32 bs 44\<rparr>
      else if n = ENET_PROTOCOL_COMMAND_VERIFY_CONNECT then
        VerifyConnect \<lparr>vc_outgoingPeerID = get16 bs 4, vc_incomingSessionID = bs ! 6,
          vc_outgoingSessionID = bs ! 7, vc_mtu = get32 bs 8, vc_windowSize = get32 bs 12,
          vc_channelCount = get32 bs 16, vc_incomingBandwidth = get32 bs 20,
          vc_outgoingBandwidth = get32 bs 24, vc_packetThrottleInterval = get32 bs 28,
          vc_packetThrottleAcceleration = get32 bs 32, vc_packetThrottleDeceleration = get32 bs 36,
          vc_connectID = get32_native bs 40\<rparr>
      else if n = ENET_PROTOCOL_COMMAND_DISCONNECT then Disconnect (get32 bs 4)
      else if n = ENET_PROTOCOL_COMMAND_PING then Ping
      else if n = ENET_PROTOCOL_COMMAND_SEND_RELIABLE then SendReliable (get16 bs 4)
      else if n = ENET_PROTOCOL_COMMAND_SEND_UNRELIABLE then SendUnreliable (get16 bs 4) (get16 bs 6)
      else if n = ENET_PROTOCOL_COMMAND_SEND_FRAGMENT then SendFragment (decode_fragment bs)
      else if n = ENET_PROTOCOL_COMMAND_SEND_UNSEQUENCED then SendUnsequenced (get16 bs 4) (get16 bs 6)
      else if n = ENET_PROTOCOL_COMMAND_BANDWIDTH_LIMIT then BandwidthLimit (get32 bs 4) (get32 bs 8)
      else if n = ENET_PROTOCOL_COMMAND_THROTTLE_CONFIGURE then
        ThrottleConfigure (get32 bs 4) (get32 bs 8) (get32 bs 12)
      else SendUnreliableFragment (decode_fragment bs))"

text \<open>
  The checks of the command loop of \<open>enet_protocol_handle_incoming_commands\<close> before a
  command is dispatched; \<open>None\<close> is its \<open>break\<close>.  The result is the command and the bytes
  after its structure.
\<close>

definition decode_command :: "u8 list \<Rightarrow> (ENetProtocol \<times> u8 list) option" where
  "decode_command bs =
     (if sizeof_ENetProtocolCommandHeader > length bs then None
      else let commandNumber = bs ! 0 AND ENET_PROTOCOL_COMMAND_MASK
           in if commandNumber \<ge> ENET_PROTOCOL_COMMAND_COUNT then None
              else let commandSize = commandSizes ! unat commandNumber
                   in if commandSize = 0 \<or> commandSize > length bs then None
                      else Some (\<lparr>hd_command = bs ! 0, hd_channelID = bs ! 1,
                                  hd_reliableSequenceNumber = get16 bs 2,
                                  pr_body = decode_body commandNumber bs\<rparr>, drop commandSize bs))"


section \<open>Reading back what was written\<close>

named_theorems codec_simps

lemma length_put [codec_simps]:
  "length (put16 v) = 2" "length (put32 w) = 4" "length (put32_native w) = 4"
  by (simp_all add: put16_def put32_def put32_native_def)

lemma get16_Cons [codec_simps]:
  "get16 (x # bs) (Suc k) = get16 bs k" "get32 (x # bs) (Suc k) = get32 bs k"
  "get32_native (x # bs) (Suc k) = get32_native bs k"
  by (simp_all add: get16_def get32_def get32_native_def add.commute)

lemma get16_Cons_numeral [codec_simps]:
  "get16 (x # bs) (numeral n) = get16 bs (pred_numeral n)"
  "get32 (x # bs) (numeral n) = get32 bs (pred_numeral n)"
  "get32_native (x # bs) (numeral n) = get32_native bs (pred_numeral n)"
  by (simp_all add: numeral_eq_Suc codec_simps)

lemma get16_skip [codec_simps]:
  "length xs \<le> k \<Longrightarrow> get16 (xs @ bs) k = get16 bs (k - length xs)"
  "length xs \<le> k \<Longrightarrow> get32 (xs @ bs) k = get32 bs (k - length xs)"
  "length xs \<le> k \<Longrightarrow> get32_native (xs @ bs) k = get32_native bs (k - length xs)"
  by (simp_all add: get16_def get32_def get32_native_def nth_append Suc_diff_le)

lemma join16: "push_bit 8 (ucast (ucast (drop_bit 8 v) :: u8)) OR ucast (ucast v :: u8) = (v :: u16)"
  by (rule bit_word_eqI) (auto simp: bit_simps)

lemma join32: "push_bit 24 (ucast (ucast (drop_bit 24 v) :: u8))
    OR push_bit 16 (ucast (ucast (drop_bit 16 v) :: u8))
    OR push_bit 8 (ucast (ucast (drop_bit 8 v) :: u8)) OR ucast (ucast v :: u8) = (v :: u32)"
proof (rule bit_word_eqI)
  fix n
  assume n: "n < LENGTH(32)"
  have "n < 8 \<or> n = 8 + (n - 8) \<and> n - 8 < 8 \<or> n = 16 + (n - 16) \<and> n - 16 < 8
    \<or> n = 24 + (n - 24) \<and> n - 24 < 8"
    using n by (simp, arith)
  then consider "n < 8" | m where "n = 8 + m" "m < 8" | m where "n = 16 + m" "m < 8"
    | m where "n = 24 + m" "m < 8"
    by blast
  then show "bit (push_bit 24 (ucast (ucast (drop_bit 24 v) :: u8))
    OR push_bit 16 (ucast (ucast (drop_bit 16 v) :: u8))
    OR push_bit 8 (ucast (ucast (drop_bit 8 v) :: u8)) OR ucast (ucast v :: u8) :: u32) n = bit v n"
    by cases (simp_all add: bit_simps)
qed

lemma get_put [codec_simps]:
  "get16 (put16 v @ bs) 0 = v" "get32 (put32 w @ bs) 0 = w"
  "get32_native (put32_native w @ bs) 0 = w"
  by (simp_all add: get16_def put16_def get32_def put32_def get32_native_def put32_native_def
    join16 join32)

lemma split16: "ucast (push_bit 8 (ucast (a :: u8)) OR ucast (b :: u8) :: u16) = b"
  "ucast (drop_bit 8 (push_bit 8 (ucast (a :: u8)) OR ucast (b :: u8) :: u16)) = a"
  by (rule bit_word_eqI; auto simp: bit_simps dest: bit_imp_le_length)+

lemma split32:
  fixes a b c d :: u8
  defines "w \<equiv> (push_bit 24 (ucast a) OR push_bit 16 (ucast b) OR push_bit 8 (ucast c) OR ucast d) :: u32"
  shows "ucast w = d" "ucast (drop_bit 8 w) = c" "ucast (drop_bit 16 w) = b" "ucast (drop_bit 24 w) = a"
  unfolding w_def by (rule bit_word_eqI; auto simp: bit_simps dest: bit_imp_le_length)+

lemma put_get:
  "put16 (get16 bs k) = [bs ! k, bs ! (k + 1)]"
  "put32 (get32 bs k) = [bs ! k, bs ! (k + 1), bs ! (k + 2), bs ! (k + 3)]"
  "put32_native (get32_native bs k) = [bs ! k, bs ! (k + 1), bs ! (k + 2), bs ! (k + 3)]"
  unfolding get16_def put16_def get32_def put32_def get32_native_def put32_native_def split16 split32
  by simp_all

lemma commandSizes_nth [codec_simps]:
  "commandSizes ! 1 = 8" "commandSizes ! Suc 0 = 8" "commandSizes ! 2 = 48" "commandSizes ! 3 = 44"
  "commandSizes ! 4 = 8" "commandSizes ! 5 = 4" "commandSizes ! 6 = 6" "commandSizes ! 7 = 8"
  "commandSizes ! 8 = 24" "commandSizes ! 9 = 8" "commandSizes ! 10 = 12" "commandSizes ! 11 = 16"
  "commandSizes ! 12 = 24"
  by (simp_all add: commandSizes_def)

text \<open>The size table gives the length of every structure.\<close>

lemma length_encode_body:
  "4 + length (encode_body b) = commandSizes ! unat (body_number b)"
  by (cases b) (simp_all add: codec_simps)

lemma length_encode_command:
  assumes "wf_command c"
  shows "length (encode_command c) = enet_protocol_command_size (hd_command c)"
  using assms length_encode_body [of "pr_body c"]
  by (simp add: encode_command_def wf_command_def enet_protocol_command_size_def command_number_def
    codec_simps)

lemma decode_fragment_encode:
  "decode_fragment (x # y # put16 s @ (put16 (fr_startSequenceNumber f) @ put16 (fr_dataLength f)
     @ put32 (fr_fragmentCount f) @ put32 (fr_fragmentNumber f) @ put32 (fr_totalLength f)
     @ put32 (fr_fragmentOffset f)) @ bs) = f"
  by (simp add: decode_fragment_def codec_simps)

lemma decode_body_encode:
  "decode_body (body_number b) (x # y # put16 s @ encode_body b @ bs) = b"
  by (cases b)
    (simp_all add: decode_body_def decode_fragment_encode [simplified] codec_simps nth_append)

lemma body_number_range:
  "body_number b < ENET_PROTOCOL_COMMAND_COUNT" "commandSizes ! unat (body_number b) \<noteq> 0"
  by (cases b; simp add: codec_simps)+

lemma decode_encode_command:
  assumes "wf_command c"
  shows "decode_command (encode_command c @ bs) = Some (c, bs)"
proof -
  obtain h ch s b where c: "c = \<lparr>hd_command = h, hd_channelID = ch, hd_reliableSequenceNumber = s, pr_body = b\<rparr>"
    by (cases c)
  have n: "h AND ENET_PROTOCOL_COMMAND_MASK = body_number b"
    using assms by (simp add: wf_command_def command_number_def c)
  let ?bs = "h # ch # put16 s @ encode_body b @ bs"
  have len: "commandSizes ! unat (body_number b) = length (h # ch # put16 s @ encode_body b)"
    using length_encode_body [of b] by (simp add: codec_simps)
  have hdr: "?bs ! 0 = h" "?bs ! 1 = ch" "get16 ?bs 2 = s"
    by (simp_all add: codec_simps)
  have bd: "decode_body (body_number b) ?bs = b"
    by (rule decode_body_encode)
  have drop: "drop (commandSizes ! unat (body_number b)) ?bs = bs"
    by (simp add: len)
  have ok: "4 \<le> length ?bs" "commandSizes ! unat (body_number b) \<le> length ?bs"
    by (simp_all add: codec_simps len)
  have e: "encode_command c @ bs = ?bs"
    by (simp add: encode_command_def c)
  show ?thesis
    unfolding e decode_command_def Let_def hdr n bd drop
    using ok body_number_range [of b] by (simp add: c del: length_Cons length_append)
qed

lemma encode_body_decode_body:
  assumes "0 < n" "n < ENET_PROTOCOL_COMMAND_COUNT"
  shows "[bs ! 0, bs ! 1, bs ! 2, bs ! 3] @ encode_body (decode_body n bs)
      = map ((!) bs) [0..<commandSizes ! unat n]" "body_number (decode_body n bs) = n"
proof -
  have "unat n < 13" "0 < unat n"
    using assms by (simp_all add: word_less_nat_alt unat_gt_0)
  then have "unat n \<in> {1, 2, 3, 4, 5, 6, 7, 8, 9, 10, 11, 12}"
    by (simp, arith)
  then have n: "n \<in> {1, 2, 3, 4, 5, 6, 7, 8, 9, 10, 11, 12}"
    by (simp add: word_unat_eq_iff)
  show "[bs ! 0, bs ! 1, bs ! 2, bs ! 3] @ encode_body (decode_body n bs)
      = map ((!) bs) [0..<commandSizes ! unat n]"
    using n by (elim insertE; simp add: decode_body_def decode_fragment_def codec_simps put_get
      upt_rec; simp add: eval_nat_numeral)
  show "body_number (decode_body n bs) = n"
    using n by (elim insertE) (simp_all add: decode_body_def)
qed

lemma encode_decode_command:
  assumes "decode_command bs = Some (c, rest)"
  shows "wf_command c \<and> encode_command c @ rest = bs"
proof -
  define n where "n = bs ! 0 AND ENET_PROTOCOL_COMMAND_MASK"
  have n: "n < ENET_PROTOCOL_COMMAND_COUNT" "commandSizes ! unat n \<noteq> 0"
    "commandSizes ! unat n \<le> length bs" and rest: "rest = drop (commandSizes ! unat n) bs"
    and c: "c = \<lparr>hd_command = bs ! 0, hd_channelID = bs ! 1, hd_reliableSequenceNumber = get16 bs 2,
                 pr_body = decode_body n bs\<rparr>"
    using assms by (auto simp: decode_command_def n_def Let_def split: if_splits)
  have "0 < n"
    using n(2) by (cases "n = 0") (simp_all add: commandSizes_def word_gt_0)
  note b = encode_body_decode_body [OF this n(1), of bs]
  have "encode_command c = map ((!) bs) [0..<commandSizes ! unat n]"
    using b(1) by (simp add: encode_command_def c put_get numeral_eq_Suc)
  also have "\<dots> = take (commandSizes ! unat n) bs"
    using n(3) by (simp add: list_eq_iff_nth_eq)
  finally show ?thesis
    using b(2) by (simp add: rest wf_command_def command_number_def c n_def)
qed

section \<open>Properties of the codec\<close>

text \<open>C20: What the sender writes for a command is what the receiver's command loop reads back: decoding
  the bytes of a well-formed command, whatever follows them in the datagram, gives the command and
  leaves exactly the bytes behind it.\<close>

theorem decode_after_encode:
  assumes "wf_command c"
  shows "decode_command (encode_command c @ bs) = Some (c, bs)"
  using assms by (rule decode_encode_command)

theorem decode_after_encode_witness:
  "decode_command (encode_command \<lparr>hd_command = 0x87, hd_channelID = 3, hd_reliableSequenceNumber = 0x1234,
     pr_body = SendUnreliable 5 0xABCD\<rparr> @ [1, 2, 3])
   = Some (\<lparr>hd_command = 0x87, hd_channelID = 3, hd_reliableSequenceNumber = 0x1234,
     pr_body = SendUnreliable 5 0xABCD\<rparr>, [1, 2, 3])"
proof -
  have "wf_command \<lparr>hd_command = 0x87, hd_channelID = 3, hd_reliableSequenceNumber = 0x1234,
     pr_body = SendUnreliable 5 0xABCD\<rparr>"
    by (simp add: wf_command_def command_number_def)
  then show ?thesis by (rule decode_after_encode)
qed

text \<open>C21: Conversely the command loop loses nothing: whenever it accepts the bytes at the current
  position as a command, the command is well formed, and encoding it again gives exactly the bytes
  that were consumed.\<close>

theorem encode_after_decode:
  assumes "decode_command bs = Some (c, rest)"
  shows "wf_command c \<and> encode_command c @ rest = bs"
  using assms by (rule encode_decode_command)

theorem encode_after_decode_witness:
  "encode_command (fst (the (decode_command [0x84, 0xFF, 0, 9, 0, 0, 0, 42, 7]))) @ [7]
     = [0x84, 0xFF, 0, 9, 0, 0, 0, 42, 7]"
proof -
  have "decode_command [0x84, 0xFF, 0, 9, 0, 0, 0, 42, 7]
      = Some (\<lparr>hd_command = 0x84, hd_channelID = 0xFF, hd_reliableSequenceNumber = get16 [0, 9] 0,
          pr_body = Disconnect (get32 [0, 0, 0, 42] 0)\<rparr>, [7])"
    by (simp add: decode_command_def decode_body_def commandSizes_def get16_def get32_def)
  from encode_after_decode [OF this] this show ?thesis by simp
qed

text \<open>The size table agrees with the layout of every structure: a well-formed command takes exactly
  the number of bytes \<open>enet_protocol_command_size\<close> gives for its number.\<close>

theorem command_size_is_layout:
  assumes "wf_command c"
  shows "length (encode_command c) = enet_protocol_command_size (hd_command c)"
  using assms by (rule length_encode_command)

theorem command_size_is_layout_witness:
  "length (encode_command \<lparr>hd_command = 0x85, hd_channelID = 0xFF, hd_reliableSequenceNumber = 1, pr_body = Ping\<rparr>)
     = enet_protocol_command_size 0x85"
  using command_size_is_layout [of "\<lparr>hd_command = 0x85, hd_channelID = 0xFF, hd_reliableSequenceNumber = 1, pr_body = Ping\<rparr>"]
  by (simp add: wf_command_def command_number_def)

end
