(* ===== verification/Enet_Types.thy ===== *)
theory Enet_Types
  imports Enet_Packet Enet_Wire Enet_Crc
begin

text \<open>
  The state of \<^verbatim>\<open>include/enet/enet.h\<close>: peers, channels, queued commands, the host and the
  events it reports.  An intrusive list \<open>ENetList\<close> is the list of its elements (Enet_List
  shows that the pointer operations of \<^verbatim>\<open>src/list.c\<close> implement them), an array is a list of
  fixed length, a pointer to a peer is its index in \<open>h_peers\<close>, and the embedded
  \<open>dispatchList\<close> nodes linked in the host's \<open>dispatchQueue\<close> are the indices of their
  peers.  \<open>size_t\<close> counters that are incremented and decremented are 64-bit words, lengths
  of objects are naturals.  Application data, the socket and the epoll descriptor are left
  out.
\<close>

section \<open>Constants\<close>

abbreviation (input) ENET_HOST_BANDWIDTH_THROTTLE_INTERVAL :: u32 where
  "ENET_HOST_BANDWIDTH_THROTTLE_INTERVAL \<equiv> 1000"
abbreviation (input) ENET_HOST_DEFAULT_MTU :: u32 where "ENET_HOST_DEFAULT_MTU \<equiv> 1392"
abbreviation (input) ENET_HOST_DEFAULT_MAXIMUM_PACKET_SIZE :: nat where
  "ENET_HOST_DEFAULT_MAXIMUM_PACKET_SIZE \<equiv> 33554432"
abbreviation (input) ENET_HOST_DEFAULT_MAXIMUM_WAITING_DATA :: u64 where
  "ENET_HOST_DEFAULT_MAXIMUM_WAITING_DATA \<equiv> 33554432"
abbreviation (input) ENET_HOST_ANY :: u32 where "ENET_HOST_ANY \<equiv> 0"
abbreviation (input) ENET_HOST_BROADCAST :: u32 where "ENET_HOST_BROADCAST \<equiv> 0xFFFFFFFF"
abbreviation (input) ENET_PEER_DEFAULT_ROUND_TRIP_TIME :: u32 where
  "ENET_PEER_DEFAULT_ROUND_TRIP_TIME \<equiv> 500"
abbreviation (input) ENET_PEER_DEFAULT_PACKET_THROTTLE :: u32 where
  "ENET_PEER_DEFAULT_PACKET_THROTTLE \<equiv> 32"
abbreviation (input) ENET_PEER_PACKET_THROTTLE_SCALE :: u32 where
  "ENET_PEER_PACKET_THROTTLE_SCALE \<equiv> 32"
abbreviation (input) ENET_PEER_PACKET_THROTTLE_COUNTER :: u32 where
  "ENET_PEER_PACKET_THROTTLE_COUNTER \<equiv> 7"
abbreviation (input) ENET_PEER_PACKET_THROTTLE_ACCELERATION :: u32 where
  "ENET_PEER_PACKET_THROTTLE_ACCELERATION \<equiv> 2"
abbreviation (input) ENET_PEER_PACKET_THROTTLE_DECELERATION :: u32 where
  "ENET_PEER_PACKET_THROTTLE_DECELERATION \<equiv> 2"
abbreviation (input) ENET_PEER_PACKET_THROTTLE_INTERVAL :: u32 where
  "ENET_PEER_PACKET_THROTTLE_INTERVAL \<equiv> 5000"
abbreviation (input) ENET_PEER_PACKET_LOSS_SCALE :: u32 where "ENET_PEER_PACKET_LOSS_SCALE \<equiv> 65536"
abbreviation (input) ENET_PEER_PACKET_LOSS_INTERVAL :: u32 where
  "ENET_PEER_PACKET_LOSS_INTERVAL \<equiv> 10000"
abbreviation (input) ENET_PEER_WINDOW_SIZE_SCALE :: u32 where "ENET_PEER_WINDOW_SIZE_SCALE \<equiv> 65536"
abbreviation (input) ENET_PEER_TIMEOUT_LIMIT :: u32 where "ENET_PEER_TIMEOUT_LIMIT \<equiv> 32"
abbreviation (input) ENET_PEER_TIMEOUT_MINIMUM :: u32 where "ENET_PEER_TIMEOUT_MINIMUM \<equiv> 5000"
abbreviation (input) ENET_PEER_TIMEOUT_MAXIMUM :: u32 where "ENET_PEER_TIMEOUT_MAXIMUM \<equiv> 30000"
abbreviation (input) ENET_PEER_PING_INTERVAL :: u32 where "ENET_PEER_PING_INTERVAL \<equiv> 500"
abbreviation (input) ENET_PEER_UNSEQUENCED_WINDOW_SIZE :: u32 where
  "ENET_PEER_UNSEQUENCED_WINDOW_SIZE \<equiv> 1024"
abbreviation (input) ENET_PEER_FREE_UNSEQUENCED_WINDOWS :: u32 where
  "ENET_PEER_FREE_UNSEQUENCED_WINDOWS \<equiv> 32"
abbreviation (input) ENET_PEER_RELIABLE_WINDOWS :: u16 where "ENET_PEER_RELIABLE_WINDOWS \<equiv> 16"
abbreviation (input) ENET_PEER_RELIABLE_WINDOW_SIZE :: u16 where
  "ENET_PEER_RELIABLE_WINDOW_SIZE \<equiv> 0x1000"
abbreviation (input) ENET_PEER_FREE_RELIABLE_WINDOWS :: u16 where
  "ENET_PEER_FREE_RELIABLE_WINDOWS \<equiv> 8"
abbreviation (input) ENET_PEER_FLAG_NEEDS_DISPATCH :: u16 where "ENET_PEER_FLAG_NEEDS_DISPATCH \<equiv> 1"
abbreviation (input) ENET_PEER_FLAG_CONTINUE_SENDING :: u16 where
  "ENET_PEER_FLAG_CONTINUE_SENDING \<equiv> 2"

section \<open>Peer states\<close>

datatype ENetPeerState =
    DISCONNECTED
  | CONNECTING
  | ACKNOWLEDGING_CONNECT
  | CONNECTION_PENDING
  | CONNECTION_SUCCEEDED
  | CONNECTED
  | DISCONNECT_LATER
  | DISCONNECTING
  | ACKNOWLEDGING_DISCONNECT
  | ZOMBIE

fun state_number :: "ENetPeerState \<Rightarrow> nat" where
  "state_number DISCONNECTED = 0"
| "state_number CONNECTING = 1"
| "state_number ACKNOWLEDGING_CONNECT = 2"
| "state_number CONNECTION_PENDING = 3"
| "state_number CONNECTION_SUCCEEDED = 4"
| "state_number CONNECTED = 5"
| "state_number DISCONNECT_LATER = 6"
| "state_number DISCONNECTING = 7"
| "state_number ACKNOWLEDGING_DISCONNECT = 8"
| "state_number ZOMBIE = 9"

lemma state_number_inject: "state_number s = state_number t \<longleftrightarrow> s = t"
  by (cases s; cases t; simp)

text \<open>The code compares states as the integers of their enumeration.\<close>

instantiation ENetPeerState :: linorder
begin

definition less_eq_ENetPeerState :: "ENetPeerState \<Rightarrow> ENetPeerState \<Rightarrow> bool" where
  "less_eq_ENetPeerState s t \<longleftrightarrow> state_number s \<le> state_number t"

definition less_ENetPeerState :: "ENetPeerState \<Rightarrow> ENetPeerState \<Rightarrow> bool" where
  "less_ENetPeerState s t \<longleftrightarrow> state_number s < state_number t"

instance
  by standard (auto simp: less_eq_ENetPeerState_def less_ENetPeerState_def state_number_inject)

end

section \<open>Queued commands\<close>

record ENetAddress =
  ad_host :: u32
  ad_port :: u16

record ENetAcknowledgement =
  ack_sentTime :: u32
  ack_command :: ENetProtocol

record ENetOutgoingCommand =
  oc_reliableSequenceNumber :: u16
  oc_unreliableSequenceNumber :: u16
  oc_sentTime :: u32
  oc_roundTripTimeout :: u32
  oc_queueTime :: u32
  oc_fragmentOffset :: u32
  oc_fragmentLength :: u16
  oc_sendAttempts :: u16
  oc_command :: ENetProtocol
  oc_packet :: "nat option"

text \<open>
  \<open>ic_addr\<close> is the address of the structure: \<open>enet_peer_queue_incoming_command\<close> hands
  out a pointer to a command it has queued.  \<open>ic_fragments\<close> is the bitmap of received
  fragments, empty for the null pointer.
\<close>

record ENetIncomingCommand =
  ic_addr :: nat
  ic_reliableSequenceNumber :: u16
  ic_unreliableSequenceNumber :: u16
  ic_command :: ENetProtocol
  ic_fragmentCount :: u32
  ic_fragmentsRemaining :: u32
  ic_fragments :: "u32 list"
  ic_packet :: nat

section \<open>Channels and peers\<close>

record ENetChannel =
  ch_outgoingReliableSequenceNumber :: u16
  ch_outgoingUnreliableSequenceNumber :: u16
  ch_usedReliableWindows :: u16
  ch_reliableWindows :: "u16 list"
  ch_incomingReliableSequenceNumber :: u16
  ch_incomingUnreliableSequenceNumber :: u16
  ch_incomingReliableCommands :: "ENetIncomingCommand list"
  ch_incomingUnreliableCommands :: "ENetIncomingCommand list"

record ENetPeer =
  p_outgoingPeerID :: u16
  p_incomingPeerID :: u16
  p_connectID :: u32
  p_outgoingSessionID :: u8
  p_incomingSessionID :: u8
  p_address :: ENetAddress
  p_state :: ENetPeerState
  p_channels :: "ENetChannel list"
  p_channelCount :: nat
  p_incomingBandwidth :: u32
  p_outgoingBandwidth :: u32
  p_incomingBandwidthThrottleEpoch :: u32
  p_outgoingBandwidthThrottleEpoch :: u32
  p_incomingDataTotal :: u32
  p_outgoingDataTotal :: u32
  p_lastSendTime :: u32
  p_lastReceiveTime :: u32
  p_nextTimeout :: u32
  p_earliestTimeout :: u32
  p_packetLossEpoch :: u32
  p_packetsSent :: u32
  p_packetsLost :: u32
  p_packetLoss :: u32
  p_packetLossVariance :: u32
  p_packetThrottle :: u32
  p_packetThrottleLimit :: u32
  p_packetThrottleCounter :: u32
  p_packetThrottleEpoch :: u32
  p_packetThrottleAcceleration :: u32
  p_packetThrottleDeceleration :: u32
  p_packetThrottleInterval :: u32
  p_pingInterval :: u32
  p_timeoutLimit :: u32
  p_timeoutMinimum :: u32
  p_timeoutMaximum :: u32
  p_lastRoundTripTime :: u32
  p_lowestRoundTripTime :: u32
  p_lastRoundTripTimeVariance :: u32
  p_highestRoundTripTimeVariance :: u32
  p_roundTripTime :: u32
  p_roundTripTimeVariance :: u32
  p_mtu :: u32
  p_windowSize :: u32
  p_reliableDataInTransit :: u32
  p_outgoingReliableSequenceNumber :: u16
  p_acknowledgements :: "ENetAcknowledgement list"
  p_sentReliableCommands :: "ENetOutgoingCommand list"
  p_outgoingSendReliableCommands :: "ENetOutgoingCommand list"
  p_outgoingCommands :: "ENetOutgoingCommand list"
  p_dispatchedCommands :: "ENetIncomingCommand list"
  p_flags :: u16
  p_incomingUnsequencedGroup :: u16
  p_outgoingUnsequencedGroup :: u16
  p_unsequencedWindow :: "u32 list"
  p_eventData :: u32
  p_totalWaitingData :: u64

section \<open>Events and the host\<close>

datatype ENetEventType =
    ENET_EVENT_TYPE_NONE
  | ENET_EVENT_TYPE_CONNECT
  | ENET_EVENT_TYPE_DISCONNECT
  | ENET_EVENT_TYPE_RECEIVE

record ENetEvent =
  ev_type :: ENetEventType
  ev_peer :: "nat option"
  ev_channelID :: u8
  ev_data :: u32
  ev_packet :: "nat option"

text \<open>What \<open>recvmsg\<close> does on the socket: nothing to read, an error, a datagram.\<close>

datatype recvmsg_result = WouldBlock | ReceiveError | Datagram ENetAddress "u8 list"

text \<open>
  What \<open>sendmsg\<close> does with a datagram, and what \<open>poll\<close> or \<open>epoll_wait\<close> returns: an error
  (is it \<open>EINTR\<close>?), nothing in time, or whether the socket can be written and read.  \<open>pc_modified\<close>
  says whether the \<open>epoll_ctl\<close> before it succeeds, \<open>pc_arrivals\<close> is what the socket has to read
  besides when the call returns.
\<close>

datatype sendmsg_result = SendWouldBlock | SendError | Sent nat

datatype poll_result = PollError bool | PollTimeout | PollReady bool bool

record poll_call =
  pc_modified :: bool
  pc_result :: poll_result
  pc_arrivals :: "recvmsg_result list"

text \<open>
  An element of \<open>host->buffers\<close> behind the first, the header's: it points to the command
  with this index in \<open>host->commands\<close>, into the data of a packet from an offset on, or to what
  the compressor wrote to \<open>packetData[1]\<close>.  The last number is the \<open>dataLength\<close>.
\<close>

datatype ENetBuffer =
    CommandBuffer nat nat
  | PacketBuffer nat u32 nat
  | CompressedBuffer "u8 list"

text \<open>
  The operating system as the host sees it: \<open>h_clock\<close> the values successive calls of
  \<open>enet_time_get\<close> return, \<open>h_inbox\<close> the outcomes of the next calls of \<open>recvmsg\<close>,
  \<open>h_sendmsg\<close> the results of successive calls of \<open>sendmsg\<close>, whose arguments \<open>h_outbox\<close>
  collects, \<open>h_poll\<close> what successive waits for the socket do, given their timeout, and
  \<open>h_hasEpoll\<close> whether the library is built with \<open>HAS_EPOLL\<close>.
  \<open>h_checksum\<close> is the checksum callback applied to the bytes of its buffers.
  \<open>h_decompress\<close> is the compressor's callback on the input from the start of the compressed
  part to the end of its buffer, the input limit and the output limit; its result is what it
  wrote, as long as the size it returns (\<open>None\<close> when no compressor is set).  Its context is
  the callback's own.  \<open>h_compress\<close> is the compressor's other callback, on the array of its
  buffers, each with its bytes, the number of bytes and the output limit; it has no result where it
  reads what is not there.  \<open>h_packetData\<close> is the receive buffer
  \<open>packetData[0]\<close>.  \<open>h_commands\<close> and \<open>h_buffers\<close> are the parts of \<open>commands\<close> and of
  \<open>buffers\<close>, from its second element, that are in use.
\<close>

record ENetHost = memory +
  h_clock :: "nat \<Rightarrow> u32"
  h_clockReads :: nat
  h_inbox :: "recvmsg_result list"
  h_sendmsg :: "nat \<Rightarrow> sendmsg_result"
  h_outbox :: "(ENetAddress \<times> u8 list) list"
  h_poll :: "nat \<Rightarrow> u32 \<Rightarrow> poll_call"
  h_pollCalls :: nat
  h_hasEpoll :: bool
  h_address :: ENetAddress
  h_incomingBandwidth :: u32
  h_outgoingBandwidth :: u32
  h_bandwidthThrottleEpoch :: u32
  h_mtu :: u32
  h_randomSeed :: u32
  h_recalculateBandwidthLimits :: bool
  h_peers :: "ENetPeer list"
  h_channelLimit :: nat
  h_serviceTime :: u32
  h_dispatchQueue :: "nat list"
  h_totalQueued :: u32
  h_packetSize :: u64
  h_headerFlags :: u16
  h_commands :: "ENetProtocol list"
  h_buffers :: "ENetBuffer list"
  h_checksum :: "(u8 list \<Rightarrow> u32) option"
  h_compress :: "(u8 list list \<Rightarrow> u64 \<Rightarrow> u64 \<Rightarrow> u8 list option) option"
  h_decompress :: "(u8 list \<Rightarrow> u64 \<Rightarrow> u64 \<Rightarrow> u8 list) option"
  h_packetData :: "u8 list"
  h_receivedAddress :: ENetAddress
  h_receivedData :: "u8 list"
  h_receivedDataLength :: nat
  h_totalSentData :: u32
  h_totalSentPackets :: u32
  h_totalReceivedData :: u32
  h_totalReceivedPackets :: u32
  h_connectedPeers :: u64
  h_bandwidthLimitedPeers :: u64
  h_duplicatePeers :: u64
  h_maximumPacketSize :: nat
  h_maximumWaitingData :: u64

definition peer_at :: "ENetHost \<Rightarrow> nat \<Rightarrow> ENetPeer" where
  "peer_at h i = h_peers h ! i"

definition upd_peer :: "nat \<Rightarrow> (ENetPeer \<Rightarrow> ENetPeer) \<Rightarrow> ENetHost \<Rightarrow> ENetHost" where
  "upd_peer i f h = h\<lparr>h_peers := (h_peers h)[i := f (h_peers h ! i)]\<rparr>"

definition channel_at :: "ENetPeer \<Rightarrow> u8 \<Rightarrow> ENetChannel" where
  "channel_at p c = p_channels p ! unat c"

definition upd_channel :: "u8 \<Rightarrow> (ENetChannel \<Rightarrow> ENetChannel) \<Rightarrow> ENetPeer \<Rightarrow> ENetPeer" where
  "upd_channel c f p = p\<lparr>p_channels := (p_channels p)[unat c := f (p_channels p ! unat c)]\<rparr>"

definition enet_time_get :: "ENetHost \<Rightarrow> u32 \<times> ENetHost" where
  "enet_time_get h = (h_clock h (h_clockReads h), h\<lparr>h_clockReads := Suc (h_clockReads h)\<rparr>)"

section \<open>Access to peers and channels\<close>

lemma peer_at_upd [simp]: "i < length (h_peers h) \<Longrightarrow> peer_at (upd_peer i f h) i = f (peer_at h i)"
  by (simp add: peer_at_def upd_peer_def)

lemma peer_at_upd_other [simp]: "i \<noteq> j \<Longrightarrow> peer_at (upd_peer i f h) j = peer_at h j"
  by (simp add: peer_at_def upd_peer_def)

lemma length_peers_upd [simp]: "length (h_peers (upd_peer i f h)) = length (h_peers h)"
  by (simp add: upd_peer_def)

lemma upd_peer_fields [simp]:
  "en_packets (upd_peer i f h) = en_packets h" "en_next (upd_peer i f h) = en_next h"
  "en_malloc (upd_peer i f h) = en_malloc h" "en_fault (upd_peer i f h) = en_fault h"
  "en_callbacks (upd_peer i f h) = en_callbacks h"
  "h_connectedPeers (upd_peer i f h) = h_connectedPeers h"
  "h_bandwidthLimitedPeers (upd_peer i f h) = h_bandwidthLimitedPeers h"
  "h_dispatchQueue (upd_peer i f h) = h_dispatchQueue h"
  "h_totalQueued (upd_peer i f h) = h_totalQueued h"
  "h_serviceTime (upd_peer i f h) = h_serviceTime h"
  "h_maximumPacketSize (upd_peer i f h) = h_maximumPacketSize h"
  "h_maximumWaitingData (upd_peer i f h) = h_maximumWaitingData h"
  "h_incomingBandwidth (upd_peer i f h) = h_incomingBandwidth h"
  "h_outgoingBandwidth (upd_peer i f h) = h_outgoingBandwidth h"
  "h_mtu (upd_peer i f h) = h_mtu h" "h_channelLimit (upd_peer i f h) = h_channelLimit h"
  "h_recalculateBandwidthLimits (upd_peer i f h) = h_recalculateBandwidthLimits h"
  "h_checksum (upd_peer i f h) = h_checksum h"
  by (simp_all add: upd_peer_def)

lemma channel_at_upd [simp]:
  "unat c < length (p_channels p) \<Longrightarrow> channel_at (upd_channel c f p) c = f (channel_at p c)"
  by (simp add: channel_at_def upd_channel_def)

lemma channel_at_upd_other [simp]: "c \<noteq> d \<Longrightarrow> channel_at (upd_channel c f p) d = channel_at p d"
  by (simp add: channel_at_def upd_channel_def word_unat_eq_iff)

text \<open>What only changes the memory leaves the host's own fields.\<close>

lemma more_host_fields:
  assumes "memory.more h' = memory.more (h :: ENetHost)"
  shows "h_peers h' = h_peers h" "h_connectedPeers h' = h_connectedPeers h"
    "h_bandwidthLimitedPeers h' = h_bandwidthLimitedPeers h" "h_channelLimit h' = h_channelLimit h"
    "peer_at h' i = peer_at h i" "h_dispatchQueue h' = h_dispatchQueue h" "h_mtu h' = h_mtu h"
    "h_outgoingBandwidth h' = h_outgoingBandwidth h"
  using assms by (cases h; cases h'; simp add: peer_at_def)+

section \<open>A small state for concrete runs\<close>

text \<open>A connected peer with one channel, an unlinked host, memory in which every allocation succeeds.\<close>

definition sample_channel :: ENetChannel where
  "sample_channel = \<lparr>ch_outgoingReliableSequenceNumber = 0, ch_outgoingUnreliableSequenceNumber = 0,
     ch_usedReliableWindows = 0, ch_reliableWindows = replicate 16 0,
     ch_incomingReliableSequenceNumber = 0, ch_incomingUnreliableSequenceNumber = 0,
     ch_incomingReliableCommands = [], ch_incomingUnreliableCommands = []\<rparr>"

definition sample_peer :: ENetPeer where
  "sample_peer = \<lparr>p_outgoingPeerID = 0, p_incomingPeerID = 0, p_connectID = 77, p_outgoingSessionID = 0,
     p_incomingSessionID = 0, p_address = \<lparr>ad_host = 1, ad_port = 2\<rparr>, p_state = CONNECTED,
     p_channels = [sample_channel], p_channelCount = 1, p_incomingBandwidth = 0, p_outgoingBandwidth = 0,
     p_incomingBandwidthThrottleEpoch = 0, p_outgoingBandwidthThrottleEpoch = 0, p_incomingDataTotal = 0,
     p_outgoingDataTotal = 0, p_lastSendTime = 0, p_lastReceiveTime = 0, p_nextTimeout = 0,
     p_earliestTimeout = 0, p_packetLossEpoch = 0, p_packetsSent = 0, p_packetsLost = 0, p_packetLoss = 0,
     p_packetLossVariance = 0, p_packetThrottle = 32, p_packetThrottleLimit = 32, p_packetThrottleCounter = 0,
     p_packetThrottleEpoch = 0, p_packetThrottleAcceleration = 2, p_packetThrottleDeceleration = 2,
     p_packetThrottleInterval = 5000, p_pingInterval = 500, p_timeoutLimit = 32, p_timeoutMinimum = 5000,
     p_timeoutMaximum = 30000, p_lastRoundTripTime = 500, p_lowestRoundTripTime = 500,
     p_lastRoundTripTimeVariance = 0, p_highestRoundTripTimeVariance = 0, p_roundTripTime = 500,
     p_roundTripTimeVariance = 0, p_mtu = 1392, p_windowSize = 65536, p_reliableDataInTransit = 0,
     p_outgoingReliableSequenceNumber = 0, p_acknowledgements = [], p_sentReliableCommands = [],
     p_outgoingSendReliableCommands = [], p_outgoingCommands = [], p_dispatchedCommands = [], p_flags = 0,
     p_incomingUnsequencedGroup = 0, p_outgoingUnsequencedGroup = 0, p_unsequencedWindow = replicate 32 0,
     p_eventData = 0, p_totalWaitingData = 0\<rparr>"

definition sample_host :: "ENetPeer list \<Rightarrow> ENetHost" where
  "sample_host peers = \<lparr>en_packets = [7 \<mapsto> \<lparr>pk_referenceCount = 0, pk_flags = 1, pk_data = [Some 65, Some 66],
     pk_dataLength = 2, pk_freeCallback = False\<rparr>], en_next = 8, en_malloc = \<lambda>_. True, en_callbacks = [],
     en_fault = False, h_clock = \<lambda>n. of_nat n, h_clockReads = 0, h_inbox = [],
     h_sendmsg = \<lambda>_. Sent 0, h_outbox = [],
     h_poll = \<lambda>_ _. \<lparr>pc_modified = True, pc_result = PollTimeout, pc_arrivals = []\<rparr>,
     h_pollCalls = 0, h_hasEpoll = True,
     h_address = \<lparr>ad_host = 0, ad_port = 0\<rparr>, h_incomingBandwidth = 0, h_outgoingBandwidth = 0,
     h_bandwidthThrottleEpoch = 0, h_mtu = 1392, h_randomSeed = 1, h_recalculateBandwidthLimits = False,
     h_peers = peers, h_channelLimit = 255, h_serviceTime = 0, h_dispatchQueue = [], h_totalQueued = 0,
     h_packetSize = 0, h_headerFlags = 0, h_commands = [], h_buffers = [], h_checksum = None,
     h_compress = None, h_decompress = None, h_packetData = [],
     h_receivedAddress = \<lparr>ad_host = 0, ad_port = 0\<rparr>, h_receivedData = [], h_receivedDataLength = 0,
     h_totalSentData = 0, h_totalSentPackets = 0, h_totalReceivedData = 0, h_totalReceivedPackets = 0,
     h_connectedPeers = of_nat (length peers), h_bandwidthLimitedPeers = 0, h_duplicatePeers = 4095,
     h_maximumPacketSize = 33554432, h_maximumWaitingData = 33554432\<rparr>"

lemmas sample_defs = sample_host_def sample_peer_def sample_channel_def

end
