(* ===== verification/Enet_Peer.thy ===== *)
theory Enet_Peer
  imports Enet_Types
begin

text \<open>
  \<^verbatim>\<open>src/peer.c\<close> up to \<open>enet_peer_queue_outgoing_command\<close>: the packet throttle, sending and
  receiving packets, the queues and their reset, connection bookkeeping and disconnection.
  An operation on \<open>peer\<close> takes the peer's index and the host.  Freeing the structures of
  the queues is their removal from the model's lists.
\<close>

section \<open>The dispatch queue\<close>

text \<open>
  \<open>enet_list_insert (enet_list_end (&host->dispatchQueue), &peer->dispatchList)\<close> under its
  guard.  Inserting a node that is still linked destroys the list (\<open>is_list_reinsert_diverges\<close>
  in Enet_List), which is a fault here; so is removing a node that is not linked.
\<close>

definition dispatch_insert :: "nat \<Rightarrow> ENetHost \<Rightarrow> ENetHost" where
  "dispatch_insert i h =
     (if i \<in> set (h_dispatchQueue h) then raise_fault h
      else h\<lparr>h_dispatchQueue := h_dispatchQueue h @ [i]\<rparr>)"

definition dispatch_remove :: "nat \<Rightarrow> ENetHost \<Rightarrow> ENetHost" where
  "dispatch_remove i h =
     (if i \<notin> set (h_dispatchQueue h) then raise_fault h
      else h\<lparr>h_dispatchQueue := remove1 i (h_dispatchQueue h)\<rparr>)"

definition needs_dispatch :: "nat \<Rightarrow> ENetHost \<Rightarrow> ENetHost" where
  "needs_dispatch i h =
     (if has_flag (p_flags (peer_at h i)) ENET_PEER_FLAG_NEEDS_DISPATCH then h
      else upd_peer i (\<lambda>p. p\<lparr>p_flags := set_flag (p_flags p) ENET_PEER_FLAG_NEEDS_DISPATCH\<rparr>)
             (dispatch_insert i h))"

section \<open>The packet throttle\<close>

definition enet_peer_throttle :: "u32 \<Rightarrow> ENetPeer \<Rightarrow> int \<times> ENetPeer" where
  "enet_peer_throttle rtt peer =
     (if p_lastRoundTripTime peer \<le> p_lastRoundTripTimeVariance peer then
        (0, peer\<lparr>p_packetThrottle := p_packetThrottleLimit peer\<rparr>)
      else if rtt \<le> p_lastRoundTripTime peer then
        (let t = p_packetThrottle peer + p_packetThrottleAcceleration peer
         in (1, peer\<lparr>p_packetThrottle := if t > p_packetThrottleLimit peer then p_packetThrottleLimit peer else t\<rparr>))
      else if rtt > p_lastRoundTripTime peer + 2 * p_lastRoundTripTimeVariance peer then
        (- 1, peer\<lparr>p_packetThrottle :=
                 if p_packetThrottle peer > p_packetThrottleDeceleration peer
                 then p_packetThrottle peer - p_packetThrottleDeceleration peer else 0\<rparr>)
      else (0, peer))"

section \<open>Queueing outgoing commands\<close>

text \<open>The sequence numbers \<open>enet_peer_setup_outgoing_command\<close> gives a command.\<close>

definition number_outgoing_command ::
  "ENetOutgoingCommand \<Rightarrow> ENetPeer \<Rightarrow> ENetOutgoingCommand \<times> ENetPeer" where
  "number_outgoing_command oc p =
     (let c = oc_command oc; chan = hd_channelID c
      in if chan = 0xFF then
           (let n = p_outgoingReliableSequenceNumber p + 1
            in (oc\<lparr>oc_reliableSequenceNumber := n, oc_unreliableSequenceNumber := 0\<rparr>,
                p\<lparr>p_outgoingReliableSequenceNumber := n\<rparr>))
         else if has_flag (hd_command c) ENET_PROTOCOL_COMMAND_FLAG_ACKNOWLEDGE then
           (let n = ch_outgoingReliableSequenceNumber (channel_at p chan) + 1
            in (oc\<lparr>oc_reliableSequenceNumber := n, oc_unreliableSequenceNumber := 0\<rparr>,
                upd_channel chan (\<lambda>ch. ch\<lparr>ch_outgoingReliableSequenceNumber := n,
                                          ch_outgoingUnreliableSequenceNumber := 0\<rparr>) p))
         else if has_flag (hd_command c) ENET_PROTOCOL_COMMAND_FLAG_UNSEQUENCED then
           (oc\<lparr>oc_reliableSequenceNumber := 0, oc_unreliableSequenceNumber := 0\<rparr>,
            p\<lparr>p_outgoingUnsequencedGroup := p_outgoingUnsequencedGroup p + 1\<rparr>)
         else
           (let p = (if oc_fragmentOffset oc = 0
                     then upd_channel chan (\<lambda>ch. ch\<lparr>ch_outgoingUnreliableSequenceNumber :=
                            ch_outgoingUnreliableSequenceNumber ch + 1\<rparr>) p
                     else p);
                ch = channel_at p chan
            in (oc\<lparr>oc_reliableSequenceNumber := ch_outgoingReliableSequenceNumber ch,
                   oc_unreliableSequenceNumber := ch_outgoingUnreliableSequenceNumber ch\<rparr>, p)))"

text \<open>The \<open>switch\<close> that writes a sequence number into the body.\<close>

fun number_body :: "u16 \<Rightarrow> u16 \<Rightarrow> ENetProtocolBody \<Rightarrow> ENetProtocolBody" where
  "number_body unreliable grp (SendUnreliable _ n) = SendUnreliable unreliable n"
| "number_body unreliable grp (SendUnsequenced _ n) = SendUnsequenced grp n"
| "number_body unreliable grp body = body"

text \<open>The part of \<open>enet_peer_setup_outgoing_command\<close> on the peer; \<open>queued\<close> is the new \<open>host->totalQueued\<close>.\<close>

definition setup_outgoing_command :: "u32 \<Rightarrow> ENetOutgoingCommand \<Rightarrow> ENetPeer \<Rightarrow> ENetPeer" where
  "setup_outgoing_command queued oc p =
     (let p = p\<lparr>p_outgoingDataTotal := p_outgoingDataTotal p
                 + (of_nat (enet_protocol_command_size (hd_command (oc_command oc)))
                    + ucast (oc_fragmentLength oc))\<rparr>;
          (oc, p) = number_outgoing_command oc p;
          c = oc_command oc;
          oc = oc\<lparr>oc_sendAttempts := 0, oc_sentTime := 0, oc_roundTripTimeout := 0,
                  oc_queueTime := queued,
                  oc_command := c\<lparr>hd_reliableSequenceNumber := oc_reliableSequenceNumber oc,
                    pr_body := number_body (oc_unreliableSequenceNumber oc)
                                 (p_outgoingUnsequencedGroup p) (pr_body c)\<rparr>\<rparr>
      in if has_flag (hd_command c) ENET_PROTOCOL_COMMAND_FLAG_ACKNOWLEDGE \<and> oc_packet oc \<noteq> None
         then p\<lparr>p_outgoingSendReliableCommands := p_outgoingSendReliableCommands p @ [oc]\<rparr>
         else p\<lparr>p_outgoingCommands := p_outgoingCommands p @ [oc]\<rparr>)"

text \<open>\<open>&peer->channels[channelID]\<close> beyond the array is a fault.\<close>

definition enet_peer_setup_outgoing_command :: "nat \<Rightarrow> ENetOutgoingCommand \<Rightarrow> ENetHost \<Rightarrow> ENetHost" where
  "enet_peer_setup_outgoing_command i oc h =
     (let chan = hd_channelID (oc_command oc)
      in if chan \<noteq> 0xFF \<and> unat chan \<ge> length (p_channels (peer_at h i)) then raise_fault h
         else (let queued = h_totalQueued h + 1
               in upd_peer i (setup_outgoing_command queued oc) (h\<lparr>h_totalQueued := queued\<rparr>)))"

text \<open>A structure as \<open>enet_malloc\<close> returns it, before its fields are set.\<close>

definition new_outgoing_command :: "ENetProtocol \<Rightarrow> nat option \<Rightarrow> u32 \<Rightarrow> u16 \<Rightarrow> ENetOutgoingCommand" where
  "new_outgoing_command command packet offset len =
     \<lparr>oc_reliableSequenceNumber = 0, oc_unreliableSequenceNumber = 0, oc_sentTime = 0,
      oc_roundTripTimeout = 0, oc_queueTime = 0, oc_fragmentOffset = offset,
      oc_fragmentLength = len, oc_sendAttempts = 0, oc_command = command, oc_packet = packet\<rparr>"

text \<open>The result is the address of the new command, \<open>None\<close> for the null pointer.\<close>

definition enet_peer_queue_outgoing_command ::
  "nat \<Rightarrow> ENetProtocol \<Rightarrow> nat option \<Rightarrow> u32 \<Rightarrow> u16 \<Rightarrow> ENetHost \<Rightarrow> nat option \<times> ENetHost" where
  "enet_peer_queue_outgoing_command i command packet offset len h =
     (case enet_malloc h of
        (None, h) \<Rightarrow> (None, h)
      | (Some a, h) \<Rightarrow>
          (let h = (case packet of None \<Rightarrow> h | Some pk \<Rightarrow> packet_addref 1 pk h)
           in (Some a, enet_peer_setup_outgoing_command i (new_outgoing_command command packet offset len) h)))"

text \<open>A command of the host: channel \<open>0xFF\<close>, no packet.\<close>

definition host_command :: "u8 \<Rightarrow> ENetProtocolBody \<Rightarrow> ENetProtocol" where
  "host_command flags body =
     \<lparr>hd_command = body_number body OR flags, hd_channelID = 0xFF, hd_reliableSequenceNumber = 0,
      pr_body = body\<rparr>"

definition enet_peer_throttle_configure :: "nat \<Rightarrow> u32 \<Rightarrow> u32 \<Rightarrow> u32 \<Rightarrow> ENetHost \<Rightarrow> ENetHost" where
  "enet_peer_throttle_configure i interval acceleration deceleration h =
     (let h = upd_peer i (\<lambda>p. p\<lparr>p_packetThrottleInterval := interval,
                                p_packetThrottleAcceleration := acceleration,
                                p_packetThrottleDeceleration := deceleration\<rparr>) h
      in snd (enet_peer_queue_outgoing_command i
           (host_command ENET_PROTOCOL_COMMAND_FLAG_ACKNOWLEDGE
              (ThrottleConfigure interval acceleration deceleration)) None 0 0 h))"

section \<open>Sending\<close>

text \<open>
  The loop of \<open>enet_peer_send\<close> that cuts a packet into fragments.  \<open>packetLength\<close> is
  \<open>packet->dataLength\<close>, \<open>command\<close> gives the fragment command for a number, an offset and a
  length.  The sum is \<open>Inl ()\<close> where an allocation fails (the fragments made so far are
  freed); \<open>None\<close> stands for a loop that does not end.  The offset is a 32-bit integer,
  while the length of the packet is a \<open>size_t\<close>.
\<close>

partial_function (option) fragment_loop ::
  "u64 \<Rightarrow> nat \<Rightarrow> (u32 \<Rightarrow> u32 \<Rightarrow> u64 \<Rightarrow> ENetProtocol) \<Rightarrow> u64 \<Rightarrow> u32 \<Rightarrow> u32
    \<Rightarrow> ENetOutgoingCommand list \<Rightarrow> ENetHost
    \<Rightarrow> ((unit + u32 \<times> ENetOutgoingCommand list) \<times> ENetHost) option" where
  "fragment_loop packetLength packet command fragmentLength fragmentNumber fragmentOffset fragments h =
     (if \<not> (ucast fragmentOffset < packetLength) then Some (Inr (fragmentNumber, fragments), h)
      else
        (let fragmentLength = (if packetLength - ucast fragmentOffset < fragmentLength
                               then packetLength - ucast fragmentOffset else fragmentLength)
         in case fst (enet_malloc h) of
              None \<Rightarrow> Some (Inl (), snd (enet_malloc h))
            | Some _ \<Rightarrow>
                fragment_loop packetLength packet command fragmentLength (fragmentNumber + 1)
                  (ucast (ucast fragmentOffset + fragmentLength))
                  (fragments @ [new_outgoing_command (command fragmentNumber fragmentOffset fragmentLength)
                                  (Some packet) fragmentOffset (ucast fragmentLength)])
                  (snd (enet_malloc h))))"

definition fragment_command ::
  "u8 \<Rightarrow> u8 \<Rightarrow> u16 \<Rightarrow> u32 \<Rightarrow> u64 \<Rightarrow> u32 \<Rightarrow> u32 \<Rightarrow> u64 \<Rightarrow> ENetProtocol" where
  "fragment_command commandNumber channelID startSequenceNumber fragmentCount packetLength
      fragmentNumber fragmentOffset fragmentLength =
     (let f = \<lparr>fr_startSequenceNumber = startSequenceNumber, fr_dataLength = ucast fragmentLength,
               fr_fragmentCount = fragmentCount, fr_fragmentNumber = fragmentNumber,
               fr_totalLength = ucast packetLength, fr_fragmentOffset = fragmentOffset\<rparr>
      in \<lparr>hd_command = commandNumber, hd_channelID = channelID, hd_reliableSequenceNumber = 0,
          pr_body = if commandNumber AND ENET_PROTOCOL_COMMAND_MASK = ENET_PROTOCOL_COMMAND_SEND_FRAGMENT
                    then SendFragment f else SendUnreliableFragment f\<rparr>)"

text \<open>The size of a fragment: the mtu less the headers, and less the checksum if there is one.\<close>

definition send_fragment_length :: "nat \<Rightarrow> ENetHost \<Rightarrow> u64" where
  "send_fragment_length i h =
     (let n = ucast (p_mtu (peer_at h i)) - of_nat sizeof_ENetProtocolHeader
                - of_nat sizeof_ENetProtocolSendFragment
      in if h_checksum h \<noteq> None then n - 4 else n)"

text \<open>A packet longer than a fragment.\<close>

definition send_fragments ::
  "nat \<Rightarrow> u8 \<Rightarrow> nat \<Rightarrow> ENetPacket \<Rightarrow> u64 \<Rightarrow> ENetHost \<Rightarrow> (int \<times> ENetHost) option" where
  "send_fragments i channelID packet pk fragmentLength h =
     (let packetLength = of_nat (pk_dataLength pk) :: u64;
          channel = channel_at (peer_at h i) channelID;
          fragmentCount = ucast ((packetLength + fragmentLength - 1) div fragmentLength) :: u32
      in if fragmentCount > ENET_PROTOCOL_MAXIMUM_FRAGMENT_COUNT then Some (- 1, h)
         else
           (let (commandNumber, startSequenceNumber) =
              (if pk_flags pk AND (ENET_PACKET_FLAG_RELIABLE OR ENET_PACKET_FLAG_UNRELIABLE_FRAGMENT)
                    = ENET_PACKET_FLAG_UNRELIABLE_FRAGMENT
                  \<and> ch_outgoingUnreliableSequenceNumber channel < 0xFFFF
               then (ENET_PROTOCOL_COMMAND_SEND_UNRELIABLE_FRAGMENT,
                     ch_outgoingUnreliableSequenceNumber channel + 1)
               else (ENET_PROTOCOL_COMMAND_SEND_FRAGMENT OR ENET_PROTOCOL_COMMAND_FLAG_ACKNOWLEDGE,
                     ch_outgoingReliableSequenceNumber channel + 1))
            in case fragment_loop packetLength packet
                      (fragment_command commandNumber channelID startSequenceNumber fragmentCount packetLength)
                      fragmentLength 0 0 [] h of
                 None \<Rightarrow> None
               | Some (Inl _, h) \<Rightarrow> Some (- 1, h)
               | Some (Inr (fragmentNumber, fragments), h) \<Rightarrow>
                   Some (0, fold (enet_peer_setup_outgoing_command i) fragments
                              (packet_addref (ucast fragmentNumber) packet h))))"

definition send_command :: "u8 \<Rightarrow> ENetPacket \<Rightarrow> ENetChannel \<Rightarrow> ENetProtocol" where
  "send_command channelID pk channel =
     (let len = of_nat (pk_dataLength pk) :: u16
      in if pk_flags pk AND (ENET_PACKET_FLAG_RELIABLE OR ENET_PACKET_FLAG_UNSEQUENCED)
              = ENET_PACKET_FLAG_UNSEQUENCED then
           \<lparr>hd_command = ENET_PROTOCOL_COMMAND_SEND_UNSEQUENCED OR ENET_PROTOCOL_COMMAND_FLAG_UNSEQUENCED,
            hd_channelID = channelID, hd_reliableSequenceNumber = 0, pr_body = SendUnsequenced 0 len\<rparr>
         else if has_flag (pk_flags pk) ENET_PACKET_FLAG_RELIABLE
                 \<or> ch_outgoingUnreliableSequenceNumber channel \<ge> 0xFFFF then
           \<lparr>hd_command = ENET_PROTOCOL_COMMAND_SEND_RELIABLE OR ENET_PROTOCOL_COMMAND_FLAG_ACKNOWLEDGE,
            hd_channelID = channelID, hd_reliableSequenceNumber = 0, pr_body = SendReliable len\<rparr>
         else
           \<lparr>hd_command = ENET_PROTOCOL_COMMAND_SEND_UNRELIABLE,
            hd_channelID = channelID, hd_reliableSequenceNumber = 0, pr_body = SendUnreliable 0 len\<rparr>)"

definition enet_peer_send :: "nat \<Rightarrow> u8 \<Rightarrow> nat \<Rightarrow> ENetHost \<Rightarrow> (int \<times> ENetHost) option" where
  "enet_peer_send i channelID packet h =
     (case en_packets h packet of
        None \<Rightarrow> Some (- 1, raise_fault h)
      | Some pk \<Rightarrow>
          if p_state (peer_at h i) \<noteq> CONNECTED \<or> unat channelID \<ge> p_channelCount (peer_at h i)
             \<or> pk_dataLength pk > h_maximumPacketSize h then Some (- 1, h)
          else if of_nat (pk_dataLength pk) > send_fragment_length i h then
            send_fragments i channelID packet pk (send_fragment_length i h) h
          else
            (case enet_peer_queue_outgoing_command i
                    (send_command channelID pk (channel_at (peer_at h i) channelID))
                    (Some packet) 0 (of_nat (pk_dataLength pk)) h of
               (None, h) \<Rightarrow> Some (- 1, h)
             | (Some _, h) \<Rightarrow> Some (0, h)))"

section \<open>Receiving\<close>

text \<open>The packet and the channel written to \<open>*channelID\<close>.\<close>

definition enet_peer_receive :: "nat \<Rightarrow> ENetHost \<Rightarrow> (nat \<times> u8) option \<times> ENetHost" where
  "enet_peer_receive i h =
     (case p_dispatchedCommands (peer_at h i) of
        [] \<Rightarrow> (None, h)
      | ic # rest \<Rightarrow>
          (let packet = ic_packet ic
           in case en_packets h packet of
                None \<Rightarrow> (Some (packet, hd_channelID (ic_command ic)), raise_fault h)
              | Some pk \<Rightarrow>
                  (Some (packet, hd_channelID (ic_command ic)),
                   upd_peer i (\<lambda>p. p\<lparr>p_dispatchedCommands := rest,
                                     p_totalWaitingData := p_totalWaitingData p - of_nat (pk_dataLength pk)\<rparr>)
                     (h\<lparr>en_packets := (en_packets h)(packet \<mapsto>
                          pk\<lparr>pk_referenceCount := pk_referenceCount pk - 1\<rparr>)\<rparr>))))"

section \<open>Resetting the queues\<close>

definition outgoing_unref :: "u32 \<Rightarrow> ENetOutgoingCommand \<Rightarrow> 'a memory_scheme \<Rightarrow> 'a memory_scheme" where
  "outgoing_unref extra oc m = (case oc_packet oc of None \<Rightarrow> m | Some pk \<Rightarrow> packet_unref extra pk m)"

fun enet_peer_reset_outgoing_commands :: "ENetOutgoingCommand list \<Rightarrow> 'a memory_scheme \<Rightarrow> 'a memory_scheme" where
  "enet_peer_reset_outgoing_commands [] m = m"
| "enet_peer_reset_outgoing_commands (oc # queue) m =
     enet_peer_reset_outgoing_commands queue (outgoing_unref 0 oc m)"

text \<open>
  The commands from \<open>startCommand\<close> to before \<open>endCommand\<close>; the result is what is left of
  them, the command at \<open>exclude\<close>.
\<close>

fun enet_peer_remove_incoming_commands ::
  "ENetIncomingCommand list \<Rightarrow> nat option \<Rightarrow> 'a memory_scheme \<Rightarrow> ENetIncomingCommand list \<times> 'a memory_scheme" where
  "enet_peer_remove_incoming_commands [] exclude m = ([], m)"
| "enet_peer_remove_incoming_commands (ic # queue) exclude m =
     (if exclude = Some (ic_addr ic) then
        (let (kept, m) = enet_peer_remove_incoming_commands queue exclude m in (ic # kept, m))
      else enet_peer_remove_incoming_commands queue exclude (packet_unref 0 (ic_packet ic) m))"

definition enet_peer_reset_incoming_commands :: "ENetIncomingCommand list \<Rightarrow> 'a memory_scheme \<Rightarrow> 'a memory_scheme" where
  "enet_peer_reset_incoming_commands queue m = snd (enet_peer_remove_incoming_commands queue None m)"

definition reset_channel :: "ENetChannel \<Rightarrow> 'a memory_scheme \<Rightarrow> 'a memory_scheme" where
  "reset_channel ch m =
     enet_peer_reset_incoming_commands (ch_incomingUnreliableCommands ch)
       (enet_peer_reset_incoming_commands (ch_incomingReliableCommands ch) m)"

definition clear_needs_dispatch :: "nat \<Rightarrow> ENetHost \<Rightarrow> ENetHost" where
  "clear_needs_dispatch i h =
     (if has_flag (p_flags (peer_at h i)) ENET_PEER_FLAG_NEEDS_DISPATCH then
        upd_peer i (\<lambda>p. p\<lparr>p_flags := clear_flag (p_flags p) ENET_PEER_FLAG_NEEDS_DISPATCH\<rparr>)
          (dispatch_remove i h)
      else h)"

definition release_queues :: "ENetPeer \<Rightarrow> 'a memory_scheme \<Rightarrow> 'a memory_scheme" where
  "release_queues p m =
     (let m = enet_peer_reset_outgoing_commands (p_sentReliableCommands p) m;
          m = enet_peer_reset_outgoing_commands (p_outgoingCommands p) m;
          m = enet_peer_reset_outgoing_commands (p_outgoingSendReliableCommands p) m;
          m = enet_peer_reset_incoming_commands (p_dispatchedCommands p) m
      in fold reset_channel (take (p_channelCount p) (p_channels p)) m)"

definition clear_queues :: "ENetPeer \<Rightarrow> ENetPeer" where
  "clear_queues p = p\<lparr>p_acknowledgements := [], p_sentReliableCommands := [], p_outgoingCommands := [],
     p_outgoingSendReliableCommands := [], p_dispatchedCommands := [], p_channels := [],
     p_channelCount := 0\<rparr>"

lemma more_outgoing_unref [mem_frame]: "memory.more (outgoing_unref e oc m) = memory.more m"
  by (simp add: outgoing_unref_def mem_frame split: option.splits)

lemma more_reset_outgoing [mem_frame]:
  "memory.more (enet_peer_reset_outgoing_commands ocs m) = memory.more m"
  by (induction ocs m rule: enet_peer_reset_outgoing_commands.induct) (simp_all add: mem_frame)

lemma more_remove_incoming [mem_frame]:
  "memory.more (snd (enet_peer_remove_incoming_commands ics e m)) = memory.more m"
  by (induction ics e m rule: enet_peer_remove_incoming_commands.induct)
    (auto simp: mem_frame split: prod.splits)

lemma more_reset_channel [mem_frame]: "memory.more (reset_channel ch m) = memory.more m"
  by (simp add: reset_channel_def enet_peer_reset_incoming_commands_def mem_frame)

lemma more_fold_reset_channel [mem_frame]: "memory.more (fold reset_channel chs m) = memory.more m"
  by (induction chs arbitrary: m) (simp_all add: mem_frame)

lemma more_release_queues [mem_frame]: "memory.more (release_queues p m) = memory.more m"
  by (simp add: release_queues_def Let_def mem_frame enet_peer_reset_incoming_commands_def)

definition enet_peer_reset_queues :: "nat \<Rightarrow> ENetHost \<Rightarrow> ENetHost" where
  "enet_peer_reset_queues i h =
     (let h = clear_needs_dispatch i h
      in upd_peer i clear_queues (release_queues (peer_at h i) h))"

section \<open>Connection bookkeeping\<close>

text \<open>The states whose peers are counted as connected.\<close>

definition counted :: "ENetPeerState \<Rightarrow> bool" where
  "counted s \<longleftrightarrow> s = CONNECTED \<or> s = DISCONNECT_LATER"

definition enet_peer_on_connect :: "nat \<Rightarrow> ENetHost \<Rightarrow> ENetHost" where
  "enet_peer_on_connect i h =
     (if p_state (peer_at h i) \<noteq> CONNECTED \<and> p_state (peer_at h i) \<noteq> DISCONNECT_LATER then
        (let h = (if p_incomingBandwidth (peer_at h i) \<noteq> 0
                  then h\<lparr>h_bandwidthLimitedPeers := h_bandwidthLimitedPeers h + 1\<rparr> else h)
         in h\<lparr>h_connectedPeers := h_connectedPeers h + 1\<rparr>)
      else h)"

definition enet_peer_on_disconnect :: "nat \<Rightarrow> ENetHost \<Rightarrow> ENetHost" where
  "enet_peer_on_disconnect i h =
     (if p_state (peer_at h i) = CONNECTED \<or> p_state (peer_at h i) = DISCONNECT_LATER then
        (let h = (if p_incomingBandwidth (peer_at h i) \<noteq> 0
                  then h\<lparr>h_bandwidthLimitedPeers := h_bandwidthLimitedPeers h - 1\<rparr> else h)
         in h\<lparr>h_connectedPeers := h_connectedPeers h - 1\<rparr>)
      else h)"

text \<open>The assignments of \<open>enet_peer_reset\<close>, in their order.\<close>

definition reset_fields :: "u32 \<Rightarrow> ENetPeer \<Rightarrow> ENetPeer" where
  "reset_fields host_mtu p = p\<lparr>
     p_outgoingPeerID := ENET_PROTOCOL_MAXIMUM_PEER_ID, p_connectID := 0, p_state := DISCONNECTED,
     p_incomingBandwidth := 0, p_outgoingBandwidth := 0,
     p_incomingBandwidthThrottleEpoch := 0, p_outgoingBandwidthThrottleEpoch := 0,
     p_incomingDataTotal := 0, p_outgoingDataTotal := 0, p_lastSendTime := 0,
     p_lastReceiveTime := 0, p_nextTimeout := 0, p_earliestTimeout := 0, p_packetLossEpoch := 0,
     p_packetsSent := 0, p_packetsLost := 0, p_packetLoss := 0, p_packetLossVariance := 0,
     p_packetThrottle := ENET_PEER_DEFAULT_PACKET_THROTTLE,
     p_packetThrottleLimit := ENET_PEER_PACKET_THROTTLE_SCALE,
     p_packetThrottleCounter := 0, p_packetThrottleEpoch := 0,
     p_packetThrottleAcceleration := ENET_PEER_PACKET_THROTTLE_ACCELERATION,
     p_packetThrottleDeceleration := ENET_PEER_PACKET_THROTTLE_DECELERATION,
     p_packetThrottleInterval := ENET_PEER_PACKET_THROTTLE_INTERVAL,
     p_pingInterval := ENET_PEER_PING_INTERVAL, p_timeoutLimit := ENET_PEER_TIMEOUT_LIMIT,
     p_timeoutMinimum := ENET_PEER_TIMEOUT_MINIMUM, p_timeoutMaximum := ENET_PEER_TIMEOUT_MAXIMUM,
     p_lastRoundTripTime := ENET_PEER_DEFAULT_ROUND_TRIP_TIME,
     p_lowestRoundTripTime := ENET_PEER_DEFAULT_ROUND_TRIP_TIME,
     p_lastRoundTripTimeVariance := 0, p_highestRoundTripTimeVariance := 0,
     p_roundTripTime := ENET_PEER_DEFAULT_ROUND_TRIP_TIME, p_roundTripTimeVariance := 0,
     p_mtu := host_mtu, p_reliableDataInTransit := 0, p_outgoingReliableSequenceNumber := 0,
     p_windowSize := ENET_PROTOCOL_MAXIMUM_WINDOW_SIZE, p_incomingUnsequencedGroup := 0,
     p_outgoingUnsequencedGroup := 0, p_eventData := 0, p_totalWaitingData := 0, p_flags := 0,
     p_unsequencedWindow := replicate 32 0\<rparr>"

definition enet_peer_reset :: "nat \<Rightarrow> ENetHost \<Rightarrow> ENetHost" where
  "enet_peer_reset i h =
     (let h = enet_peer_on_disconnect i h
      in enet_peer_reset_queues i (upd_peer i (reset_fields (h_mtu h)) h))"

section \<open>Ping, timeouts, disconnection\<close>

definition enet_peer_ping :: "nat \<Rightarrow> ENetHost \<Rightarrow> ENetHost" where
  "enet_peer_ping i h =
     (if p_state (peer_at h i) \<noteq> CONNECTED then h
      else snd (enet_peer_queue_outgoing_command i
             (host_command ENET_PROTOCOL_COMMAND_FLAG_ACKNOWLEDGE Ping) None 0 0 h))"

definition enet_peer_ping_interval :: "u32 \<Rightarrow> ENetPeer \<Rightarrow> ENetPeer" where
  "enet_peer_ping_interval pingInterval p =
     p\<lparr>p_pingInterval := if pingInterval \<noteq> 0 then pingInterval else ENET_PEER_PING_INTERVAL\<rparr>"

definition enet_peer_timeout :: "u32 \<Rightarrow> u32 \<Rightarrow> u32 \<Rightarrow> ENetPeer \<Rightarrow> ENetPeer" where
  "enet_peer_timeout timeoutLimit timeoutMinimum timeoutMaximum p =
     p\<lparr>p_timeoutLimit := if timeoutLimit \<noteq> 0 then timeoutLimit else ENET_PEER_TIMEOUT_LIMIT,
       p_timeoutMinimum := if timeoutMinimum \<noteq> 0 then timeoutMinimum else ENET_PEER_TIMEOUT_MINIMUM,
       p_timeoutMaximum := if timeoutMaximum \<noteq> 0 then timeoutMaximum else ENET_PEER_TIMEOUT_MAXIMUM\<rparr>"

text \<open>\<open>flush\<close> is \<open>enet_host_flush\<close> of \<^verbatim>\<open>src/protocol.c\<close>, \<open>None\<close> where it does not return.\<close>

definition enet_peer_disconnect_now ::
  "(ENetHost \<Rightarrow> ENetHost option) \<Rightarrow> nat \<Rightarrow> u32 \<Rightarrow> ENetHost \<Rightarrow> ENetHost option" where
  "enet_peer_disconnect_now flush i data h =
     (if p_state (peer_at h i) = DISCONNECTED then Some h
      else if p_state (peer_at h i) \<noteq> ZOMBIE \<and> p_state (peer_at h i) \<noteq> DISCONNECTING then
        (let h = enet_peer_reset_queues i h;
             h = snd (enet_peer_queue_outgoing_command i
                   (host_command ENET_PROTOCOL_COMMAND_FLAG_UNSEQUENCED (Disconnect data)) None 0 0 h)
         in map_option (enet_peer_reset i) (flush h))
      else Some (enet_peer_reset i h))"

definition enet_peer_disconnect ::
  "(ENetHost \<Rightarrow> ENetHost option) \<Rightarrow> nat \<Rightarrow> u32 \<Rightarrow> ENetHost \<Rightarrow> ENetHost option" where
  "enet_peer_disconnect flush i data h =
     (let state = p_state (peer_at h i)
      in if state = DISCONNECTING \<or> state = DISCONNECTED \<or> state = ACKNOWLEDGING_DISCONNECT
            \<or> state = ZOMBIE then Some h
         else
           (let h = enet_peer_reset_queues i h;
                h = snd (enet_peer_queue_outgoing_command i
                      (host_command (if state = CONNECTED \<or> state = DISCONNECT_LATER
                                     then ENET_PROTOCOL_COMMAND_FLAG_ACKNOWLEDGE
                                     else ENET_PROTOCOL_COMMAND_FLAG_UNSEQUENCED) (Disconnect data))
                      None 0 0 h)
            in if state = CONNECTED \<or> state = DISCONNECT_LATER then
                 Some (upd_peer i (\<lambda>p. p\<lparr>p_state := DISCONNECTING\<rparr>) (enet_peer_on_disconnect i h))
               else map_option (enet_peer_reset i) (flush h)))"

definition enet_peer_has_outgoing_commands :: "ENetPeer \<Rightarrow> bool" where
  "enet_peer_has_outgoing_commands p \<longleftrightarrow>
     \<not> (p_outgoingCommands p = [] \<and> p_outgoingSendReliableCommands p = [] \<and> p_sentReliableCommands p = [])"

definition enet_peer_disconnect_later ::
  "(ENetHost \<Rightarrow> ENetHost option) \<Rightarrow> nat \<Rightarrow> u32 \<Rightarrow> ENetHost \<Rightarrow> ENetHost option" where
  "enet_peer_disconnect_later flush i data h =
     (if (p_state (peer_at h i) = CONNECTED \<or> p_state (peer_at h i) = DISCONNECT_LATER)
         \<and> enet_peer_has_outgoing_commands (peer_at h i) then
        Some (upd_peer i (\<lambda>p. p\<lparr>p_state := DISCONNECT_LATER, p_eventData := data\<rparr>) h)
      else enet_peer_disconnect flush i data h)"

section \<open>Acknowledgements\<close>

text \<open>
  The window of a sequence number relative to the channel: windows of numbers behind the
  current one count from 16.
\<close>

definition reliable_window :: "u16 \<Rightarrow> ENetChannel \<Rightarrow> u16" where
  "reliable_window n ch =
     (let w = n div ENET_PEER_RELIABLE_WINDOW_SIZE
      in if n < ch_incomingReliableSequenceNumber ch then w + ENET_PEER_RELIABLE_WINDOWS else w)"

definition current_window :: "ENetChannel \<Rightarrow> u16" where
  "current_window ch = ch_incomingReliableSequenceNumber ch div ENET_PEER_RELIABLE_WINDOW_SIZE"

definition enet_peer_queue_acknowledgement :: "nat \<Rightarrow> ENetProtocol \<Rightarrow> u16 \<Rightarrow> ENetHost \<Rightarrow> bool \<times> ENetHost" where
  "enet_peer_queue_acknowledgement i command sentTime h =
     (let p = peer_at h i; chan = hd_channelID command; ch = channel_at p chan
      in if unat chan < p_channelCount p
            \<and> reliable_window (hd_reliableSequenceNumber command) ch
                \<ge> current_window ch + ENET_PEER_FREE_RELIABLE_WINDOWS - 1
            \<and> reliable_window (hd_reliableSequenceNumber command) ch
                \<le> current_window ch + ENET_PEER_FREE_RELIABLE_WINDOWS
         then (False, h)
         else
           (case enet_malloc h of
              (None, h) \<Rightarrow> (False, h)
            | (Some _, h) \<Rightarrow>
                (True, upd_peer i (\<lambda>p. p\<lparr>p_outgoingDataTotal := p_outgoingDataTotal p
                                           + of_nat sizeof_ENetProtocolAcknowledge,
                                         p_acknowledgements := p_acknowledgements p
                                           @ [\<lparr>ack_sentTime = ucast sentTime, ack_command = command\<rparr>]\<rparr>) h)))"

end
