(* ===== verification/Enet_Incoming.thy ===== *)
theory Enet_Incoming
  imports Enet_Peer
begin

text \<open>
  The receive queues of \<^verbatim>\<open>src/peer.c\<close>: \<open>enet_peer_queue_incoming_command\<close> and the two
  dispatch functions that move commands from a channel to the peer's dispatched commands.
\<close>

section \<open>Dispatching unreliable commands\<close>

text \<open>
  The scan of \<open>enet_peer_dispatch_incoming_unreliable_commands\<close>.  The channel's list is
  \<open>pre @ seg @ rest\<close>: \<open>startCommand\<close> is the first element of \<open>seg @ rest\<close>,
  \<open>currentCommand\<close> the first of \<open>rest\<close>, and \<open>d\<close> the number of elements before
  \<open>droppedCommand\<close>, never more than \<open>length pre\<close>.  \<open>enet_list_move\<close> of the commands from
  \<open>startCommand\<close> to before \<open>currentCommand\<close> takes \<open>seg\<close> out of the list and appends it to
  \<open>moved\<close>.  The result is the number of commands to drop, the list without the moved
  commands, the moved commands and \<open>channel->incomingUnreliableSequenceNumber\<close>.
\<close>

definition unreliable_scan_end ::
  "'c list \<Rightarrow> 'c list \<Rightarrow> nat \<Rightarrow> 'c list \<Rightarrow> u16 \<Rightarrow> 'c list \<Rightarrow> nat \<times> 'c list \<times> 'c list \<times> u16" where
  "unreliable_scan_end pre seg d moved u rest =
     (if seg \<noteq> [] then (length pre, pre @ rest, moved @ seg, u) else (d, pre @ rest, moved, u))"

fun unreliable_scan ::
  "ENetChannel \<Rightarrow> ENetIncomingCommand list \<Rightarrow> ENetIncomingCommand list \<Rightarrow> nat \<Rightarrow> ENetIncomingCommand list
    \<Rightarrow> u16 \<Rightarrow> ENetIncomingCommand list
    \<Rightarrow> nat \<times> ENetIncomingCommand list \<times> ENetIncomingCommand list \<times> u16" where
  "unreliable_scan ch pre seg d moved u [] = unreliable_scan_end pre seg d moved u []"
| "unreliable_scan ch pre seg d moved u (ic # rest) =
     (if command_number (ic_command ic) = ENET_PROTOCOL_COMMAND_SEND_UNSEQUENCED then
        unreliable_scan ch pre (seg @ [ic]) d moved u rest
      else if ic_reliableSequenceNumber ic = ch_incomingReliableSequenceNumber ch then
        (if ic_fragmentsRemaining ic \<le> 0 then
           unreliable_scan ch pre (seg @ [ic]) d moved (ic_unreliableSequenceNumber ic) rest
         else
           (let d = (if seg \<noteq> [] then length pre
                     else if d \<noteq> length pre then length pre - 1 else d)
            in unreliable_scan ch (pre @ [ic]) [] d (moved @ seg) u rest))
      else
        (let window = reliable_window (ic_reliableSequenceNumber ic) ch
         in if window \<ge> current_window ch
               \<and> window < current_window ch + ENET_PEER_FREE_RELIABLE_WINDOWS - 1
            then unreliable_scan_end pre seg d moved u (ic # rest)
            else unreliable_scan ch (pre @ [ic]) [] (length pre + 1) (moved @ seg) u rest))"

definition enet_peer_dispatch_incoming_unreliable_commands ::
  "nat \<Rightarrow> u8 \<Rightarrow> nat option \<Rightarrow> ENetHost \<Rightarrow> ENetHost" where
  "enet_peer_dispatch_incoming_unreliable_commands i chan queued h =
     (let ch = channel_at (peer_at h i) chan;
          (d, remaining, moved, u) =
            unreliable_scan ch [] [] 0 [] (ch_incomingUnreliableSequenceNumber ch)
              (ch_incomingUnreliableCommands ch);
          h = (if moved \<noteq> [] then
                 needs_dispatch i
                   (upd_peer i (\<lambda>p. p\<lparr>p_dispatchedCommands := p_dispatchedCommands p @ moved\<rparr>) h)
               else h);
          (kept, h) = enet_peer_remove_incoming_commands (take d remaining) queued h
      in upd_peer i (upd_channel chan (\<lambda>ch. ch\<lparr>
           ch_incomingUnreliableSequenceNumber := u,
           ch_incomingUnreliableCommands := kept @ drop d remaining\<rparr>)) h)"

section \<open>Dispatching reliable commands\<close>

text \<open>The sequence number the channel reaches once \<open>ic\<close> is dispatched.\<close>

definition last_sequence_number :: "ENetIncomingCommand \<Rightarrow> u16" where
  "last_sequence_number ic =
     (if ic_fragmentCount ic > 0
      then ucast (ucast (ic_reliableSequenceNumber ic) + (ic_fragmentCount ic - 1))
      else ic_reliableSequenceNumber ic)"

text \<open>
  The loop over \<open>incomingReliableCommands\<close> from \<open>channel->incomingReliableSequenceNumber\<close>
  \<open>n\<close>: the number reached, the commands passed and the others.
\<close>

fun reliable_scan ::
  "u16 \<Rightarrow> ENetIncomingCommand list \<Rightarrow> u16 \<times> ENetIncomingCommand list \<times> ENetIncomingCommand list" where
  "reliable_scan n [] = (n, [], [])"
| "reliable_scan n (ic # rest) =
     (if ic_fragmentsRemaining ic > 0 \<or> ic_reliableSequenceNumber ic \<noteq> n + 1 then (n, [], ic # rest)
      else (let (m, moved, left) = reliable_scan (last_sequence_number ic) rest
            in (m, ic # moved, left)))"

definition enet_peer_dispatch_incoming_reliable_commands ::
  "nat \<Rightarrow> u8 \<Rightarrow> nat option \<Rightarrow> ENetHost \<Rightarrow> ENetHost" where
  "enet_peer_dispatch_incoming_reliable_commands i chan queued h =
     (let ch = channel_at (peer_at h i) chan;
          (n, moved, left) =
            reliable_scan (ch_incomingReliableSequenceNumber ch) (ch_incomingReliableCommands ch)
      in if moved = [] then h
         else
           (let h = upd_peer i (\<lambda>p. upd_channel chan (\<lambda>ch. ch\<lparr>
                      ch_incomingReliableSequenceNumber := n,
                      ch_incomingUnreliableSequenceNumber := 0,
                      ch_incomingReliableCommands := left\<rparr>)
                      (p\<lparr>p_dispatchedCommands := p_dispatchedCommands p @ moved\<rparr>)) h;
                h = needs_dispatch i h
            in if ch_incomingUnreliableCommands ch \<noteq> [] then
                 enet_peer_dispatch_incoming_unreliable_commands i chan queued h
               else h))"

section \<open>Queueing an incoming command\<close>

text \<open>
  The loops that look for the position of a command walk the list backwards: their argument
  is the reversed list.  \<open>None\<close> is \<open>goto discardCommand\<close>; \<open>Some k\<close> says that \<open>k\<close> commands
  stay in front of the new one.  \<open>R\<close> is \<open>channel->incomingReliableSequenceNumber\<close>.
\<close>

fun reliable_position :: "u16 \<Rightarrow> u16 \<Rightarrow> ENetIncomingCommand list \<Rightarrow> nat option" where
  "reliable_position R n [] = Some 0"
| "reliable_position R n (ic # earlier) =
     (if n \<ge> R \<and> ic_reliableSequenceNumber ic < R then reliable_position R n earlier
      else if \<not> n \<ge> R \<and> ic_reliableSequenceNumber ic \<ge> R then Some (Suc (length earlier))
      else if ic_reliableSequenceNumber ic \<le> n then
        (if ic_reliableSequenceNumber ic < n then Some (Suc (length earlier)) else None)
      else reliable_position R n earlier)"

fun unreliable_position :: "u16 \<Rightarrow> u16 \<Rightarrow> u16 \<Rightarrow> ENetIncomingCommand list \<Rightarrow> nat option" where
  "unreliable_position R n u [] = Some 0"
| "unreliable_position R n u (ic # earlier) =
     (if n \<ge> R \<and> ic_reliableSequenceNumber ic < R then unreliable_position R n u earlier
      else if \<not> n \<ge> R \<and> ic_reliableSequenceNumber ic \<ge> R then Some (Suc (length earlier))
      else if ic_reliableSequenceNumber ic < n then Some (Suc (length earlier))
      else if ic_reliableSequenceNumber ic > n then unreliable_position R n u earlier
      else if ic_unreliableSequenceNumber ic \<le> u then
        (if ic_unreliableSequenceNumber ic < u then Some (Suc (length earlier)) else None)
      else unreliable_position R n u earlier)"

text \<open>The window test; a command outside is discarded.\<close>

definition outside_window :: "u16 \<Rightarrow> ENetChannel \<Rightarrow> bool" where
  "outside_window n ch \<longleftrightarrow>
     reliable_window n ch < current_window ch
     \<or> reliable_window n ch \<ge> current_window ch + ENET_PEER_FREE_RELIABLE_WINDOWS - 1"

definition is_reliable_number :: "u8 \<Rightarrow> bool" where
  "is_reliable_number n \<longleftrightarrow> n = ENET_PROTOCOL_COMMAND_SEND_FRAGMENT \<or> n = ENET_PROTOCOL_COMMAND_SEND_RELIABLE"

definition is_unreliable_number :: "u8 \<Rightarrow> bool" where
  "is_unreliable_number n \<longleftrightarrow>
     n = ENET_PROTOCOL_COMMAND_SEND_UNRELIABLE \<or> n = ENET_PROTOCOL_COMMAND_SEND_UNRELIABLE_FRAGMENT"

text \<open>\<open>unreliableSequenceNumber\<close> as the switch sets it.\<close>

definition command_unreliableSequenceNumber :: "ENetProtocol \<Rightarrow> u16" where
  "command_unreliableSequenceNumber command =
     (if is_unreliable_number (command_number command)
      then union_unreliableSequenceNumber (pr_body command) else 0)"

text \<open>
  The part before the packet is created: \<open>None\<close> is \<open>goto discardCommand\<close>, otherwise the
  position in the queue of the command's kind.  The test of \<open>command\<close> for an unsequenced
  command inside the unreliable loop is never true there.
\<close>

definition incoming_position :: "ENetPeer \<Rightarrow> ENetProtocol \<Rightarrow> nat option" where
  "incoming_position p command =
     (let ch = channel_at p (hd_channelID command);
          number = command_number command;
          n = hd_reliableSequenceNumber command;
          R = ch_incomingReliableSequenceNumber ch
      in if p_state p = DISCONNECT_LATER then None
         else if number \<noteq> ENET_PROTOCOL_COMMAND_SEND_UNSEQUENCED \<and> outside_window n ch then None
         else if is_reliable_number number then
           (if n = R then None
            else reliable_position R n (rev (ch_incomingReliableCommands ch)))
         else if is_unreliable_number number then
           (let u = command_unreliableSequenceNumber command
            in if n = R \<and> u \<le> ch_incomingUnreliableSequenceNumber ch then None
               else unreliable_position R n u (rev (ch_incomingUnreliableCommands ch)))
         else if number = ENET_PROTOCOL_COMMAND_SEND_UNSEQUENCED then Some 0
         else None)"

text \<open>What \<open>enet_peer_queue_incoming_command\<close> returns: null, the dummy command, or a queued one.\<close>

datatype queue_result = NullCommand | DummyCommand | QueuedCommand (queued_addr: nat)

definition discard_incoming :: "u32 \<Rightarrow> queue_result" where
  "discard_incoming fragmentCount = (if fragmentCount > 0 then NullCommand else DummyCommand)"

text \<open>
  The allocations: the packet, the command and the bitmap.  What was allocated before a
  failure is released.  The result is the address of the packet, of the command and the
  cleared bitmap.
\<close>

definition allocate_incoming ::
  "u8 list option \<Rightarrow> nat \<Rightarrow> u32 \<Rightarrow> u32 \<Rightarrow> 'a memory_scheme
    \<Rightarrow> (nat \<times> nat \<times> u32 list) option \<times> 'a memory_scheme" where
  "allocate_incoming data dataLength flags fragmentCount m =
     (case enet_packet_create data dataLength flags m of
        (None, m) \<Rightarrow> (None, m)
      | (Some packet, m) \<Rightarrow>
          (case enet_malloc m of
             (None, m) \<Rightarrow> (None, enet_packet_destroy (Some packet) m)
           | (Some addr, m) \<Rightarrow>
               if fragmentCount > 0 then
                 (if fragmentCount \<le> ENET_PROTOCOL_MAXIMUM_FRAGMENT_COUNT then
                    (case enet_malloc m of
                       (None, m) \<Rightarrow> (None, enet_packet_destroy (Some packet) m)
                     | (Some _, m) \<Rightarrow>
                         (Some (packet, addr, replicate (unat ((fragmentCount + 31) div 32)) 0), m))
                  else (None, enet_packet_destroy (Some packet) m))
               else (Some (packet, addr, []), m)))"

lemma more_allocate_incoming [mem_frame]:
  "memory.more (snd (allocate_incoming d n f c m)) = memory.more m"
  by (auto simp: allocate_incoming_def mem_frame split: prod.splits option.splits)
    (metis more_create more_malloc more_destroy snd_conv)+

definition enet_peer_queue_incoming_command ::
  "nat \<Rightarrow> ENetProtocol \<Rightarrow> u8 list option \<Rightarrow> nat \<Rightarrow> u32 \<Rightarrow> u32 \<Rightarrow> ENetHost \<Rightarrow> queue_result \<times> ENetHost" where
  "enet_peer_queue_incoming_command i command data dataLength flags fragmentCount h =
     (let chan = hd_channelID command; number = command_number command
      in case incoming_position (peer_at h i) command of
           None \<Rightarrow> (discard_incoming fragmentCount, h)
         | Some k \<Rightarrow>
             if p_totalWaitingData (peer_at h i) \<ge> h_maximumWaitingData h then (NullCommand, h)
             else
               (case allocate_incoming data dataLength flags fragmentCount h of
                  (None, h) \<Rightarrow> (NullCommand, h)
                | (Some (packet, addr, fragments), h) \<Rightarrow>
                    (let ic = \<lparr>ic_addr = addr,
                               ic_reliableSequenceNumber = hd_reliableSequenceNumber command,
                               ic_unreliableSequenceNumber = command_unreliableSequenceNumber command,
                               ic_command = command, ic_fragmentCount = fragmentCount,
                               ic_fragmentsRemaining = fragmentCount, ic_fragments = fragments,
                               ic_packet = packet\<rparr>;
                         h = packet_addref 1 packet h;
                         h = upd_peer i (\<lambda>p. p\<lparr>p_totalWaitingData := p_totalWaitingData p + of_nat dataLength\<rparr>) h
                     in if is_reliable_number number then
                          (QueuedCommand addr,
                           enet_peer_dispatch_incoming_reliable_commands i chan (Some addr)
                             (upd_peer i (upd_channel chan (\<lambda>ch. ch\<lparr>ch_incomingReliableCommands :=
                                insert_at k ic (ch_incomingReliableCommands ch)\<rparr>)) h))
                        else
                          (QueuedCommand addr,
                           enet_peer_dispatch_incoming_unreliable_commands i chan (Some addr)
                             (upd_peer i (upd_channel chan (\<lambda>ch. ch\<lparr>ch_incomingUnreliableCommands :=
                                insert_at k ic (ch_incomingUnreliableCommands ch)\<rparr>)) h)))))"

section \<open>What the unreliable dispatch does\<close>

definition ready_unreliable :: "ENetChannel \<Rightarrow> ENetIncomingCommand \<Rightarrow> bool" where
  "ready_unreliable ch ic \<longleftrightarrow> command_number (ic_command ic) = ENET_PROTOCOL_COMMAND_SEND_UNSEQUENCED
     \<or> ic_reliableSequenceNumber ic = ch_incomingReliableSequenceNumber ch \<and> ic_fragmentsRemaining ic = 0"

lemma unreliable_scan_parts:
  assumes "unreliable_scan ch pre seg d moved u q = (d', remaining, moved', u')" "d \<le> length pre"
    "\<forall>ic \<in> set (moved @ seg). ready_unreliable ch ic"
  shows "mset pre + mset moved + mset seg + mset q = mset remaining + mset moved' \<and> d' \<le> length remaining
    \<and> (\<forall>ic \<in> set moved'. ready_unreliable ch ic)"
  using assms
proof (induction ch pre seg d moved u q rule: unreliable_scan.induct)
  case (1 ch pre seg d moved u)
  then show ?case by (auto simp: unreliable_scan_end_def split: if_splits)
next
  case (2 ch pre seg d moved u ic rest)
  let ?unsequenced = "command_number (ic_command ic) = ENET_PROTOCOL_COMMAND_SEND_UNSEQUENCED"
  let ?current = "ic_reliableSequenceNumber ic = ch_incomingReliableSequenceNumber ch"
  consider (unseq) "?unsequenced" | (complete) "\<not> ?unsequenced" "?current" "ic_fragmentsRemaining ic \<le> 0"
    | (partial) "\<not> ?unsequenced" "?current" "\<not> ic_fragmentsRemaining ic \<le> 0"
    | (other) "\<not> ?unsequenced" "\<not> ?current" by blast
  then show ?case
  proof cases
    case unseq
    then show ?thesis
      using 2(1) [OF unseq] 2(5-7) by (simp add: ready_unreliable_def)
  next
    case complete
    then show ?thesis
      using 2(2) [OF complete] 2(5-7) by (simp add: ready_unreliable_def)
  next
    case partial
    show ?thesis
    proof -
      let ?d = "if seg \<noteq> [] then length pre else if d \<noteq> length pre then length pre - 1 else d"
      have "unreliable_scan ch (pre @ [ic]) [] ?d (moved @ seg) u rest = (d', remaining, moved', u')"
        using 2(5) partial by (simp only: unreliable_scan.simps Let_def if_True if_False simp_thms)
      moreover have "?d \<le> length (pre @ [ic])" using 2(6) by auto
      ultimately show ?thesis using 2(3) [OF partial refl] 2(7) by (simp add: ac_simps)
    qed
  next
    case other
    let ?near = "reliable_window (ic_reliableSequenceNumber ic) ch \<ge> current_window ch
      \<and> reliable_window (ic_reliableSequenceNumber ic) ch < current_window ch + ENET_PEER_FREE_RELIABLE_WINDOWS - 1"
    show ?thesis
    proof (cases ?near)
      case True
      then have "unreliable_scan_end pre seg d moved u (ic # rest) = (d', remaining, moved', u')"
        using 2(5) other by (simp add: Let_def)
      then show ?thesis using 2(6,7) by (auto simp: unreliable_scan_end_def split: if_splits)
    next
      case False
      then have "unreliable_scan ch (pre @ [ic]) [] (length pre + 1) (moved @ seg) u rest = (d', remaining, moved', u')"
        using 2(5) other by (simp only: unreliable_scan.simps Let_def if_False simp_thms)
      then show ?thesis using 2(4) [OF other refl False] 2(7) by (simp add: ac_simps)
    qed
  qed
qed

text \<open>C29: The dispatch of unreliable commands splits the channel's queue in two without losing or repeating a command;
  it delivers only unsequenced commands and complete commands of the current reliable number, never a
  packet with missing fragments.\<close>

theorem unreliable_scan_splits_queue:
  assumes "unreliable_scan ch [] [] 0 [] u q = (d, remaining, moved, u')"
  shows "mset q = mset remaining + mset moved \<and> d \<le> length remaining
    \<and> (\<forall>ic \<in> set moved. command_number (ic_command ic) = ENET_PROTOCOL_COMMAND_SEND_UNSEQUENCED
         \<or> ic_reliableSequenceNumber ic = ch_incomingReliableSequenceNumber ch \<and> ic_fragmentsRemaining ic = 0)"
  using unreliable_scan_parts [OF assms] by (simp add: ready_unreliable_def)

definition sample_unreliable :: "u16 \<Rightarrow> u16 \<Rightarrow> u32 \<Rightarrow> ENetIncomingCommand" where
  "sample_unreliable n u remaining = \<lparr>ic_addr = unat u, ic_reliableSequenceNumber = n, ic_unreliableSequenceNumber = u,
     ic_command = \<lparr>hd_command = 7, hd_channelID = 0, hd_reliableSequenceNumber = n, pr_body = SendUnreliable u 0\<rparr>,
     ic_fragmentCount = remaining, ic_fragmentsRemaining = remaining, ic_fragments = [], ic_packet = 7\<rparr>"

theorem unreliable_scan_splits_queue_witness:
  "\<exists>d remaining moved u'. unreliable_scan sample_channel [] [] 0 [] 0
      [sample_unreliable 0 1 0, sample_unreliable 0 2 1, sample_unreliable 0 3 0] = (d, remaining, moved, u')
    \<and> length remaining + length moved = 3"
proof -
  let ?q = "[sample_unreliable 0 1 0, sample_unreliable 0 2 1, sample_unreliable 0 3 0]"
  obtain d remaining moved u' where run: "unreliable_scan sample_channel [] [] 0 [] 0 ?q = (d, remaining, moved, u')"
    by (metis surj_pair)
  have "size (mset ?q) = size (mset remaining + mset moved)"
    using unreliable_scan_splits_queue [OF run] by simp
  then show ?thesis using run by auto
qed

section \<open>Waiting data\<close>

lemma remove_incoming_peers: "h_peers (snd (enet_peer_remove_incoming_commands q e (h :: ENetHost))) = h_peers h"
  by (rule more_host_fields(1)) (simp add: mem_frame)

text \<open>C34: Dropping unreliable commands never lowers \<open>totalWaitingData\<close>: whatever the dispatch drops, the bytes of
  its packets stay counted, although \<open>enet_peer_receive\<close> will not hand them out.\<close>

theorem dropped_data_stays_counted:
  assumes "i < length (h_peers h)"
  shows "p_totalWaitingData (peer_at (enet_peer_dispatch_incoming_unreliable_commands i c queued h) i)
    = p_totalWaitingData (peer_at h i)"
proof -
  have dispatch: "p_totalWaitingData (peer_at (needs_dispatch i g) i) = p_totalWaitingData (peer_at g i)"
    "length (h_peers (needs_dispatch i g)) = length (h_peers g)" if "i < length (h_peers g)" for g
  proof -
    have "peer_at (dispatch_insert i g) i = peer_at g i" "length (h_peers (dispatch_insert i g)) = length (h_peers g)"
      by (simp_all add: dispatch_insert_def peer_at_def raise_fault_def)
    then show "p_totalWaitingData (peer_at (needs_dispatch i g) i) = p_totalWaitingData (peer_at g i)"
      "length (h_peers (needs_dispatch i g)) = length (h_peers g)"
      using that by (simp_all add: needs_dispatch_def)
  qed
  obtain d remaining moved u where scan: "unreliable_scan (channel_at (peer_at h i) c) [] [] 0 []
      (ch_incomingUnreliableSequenceNumber (channel_at (peer_at h i) c))
      (ch_incomingUnreliableCommands (channel_at (peer_at h i) c)) = (d, remaining, moved, u)"
    by (metis surj_pair)
  let ?h = "if moved \<noteq> [] then
      needs_dispatch i (upd_peer i (\<lambda>p. p\<lparr>p_dispatchedCommands := p_dispatchedCommands p @ moved\<rparr>) h) else h"
  have h: "p_totalWaitingData (peer_at ?h i) = p_totalWaitingData (peer_at h i)" "i < length (h_peers ?h)"
    using assms dispatch by simp_all
  let ?g = "snd (enet_peer_remove_incoming_commands (take d remaining) queued ?h)"
  have g: "peer_at ?g i = peer_at ?h i" "length (h_peers ?g) = length (h_peers ?h)"
    using remove_incoming_peers [of "take d remaining" queued ?h] by (simp_all add: peer_at_def)
  have "\<exists>f. enet_peer_dispatch_incoming_unreliable_commands i c queued h = upd_peer i (upd_channel c f) ?g"
    by (simp only: enet_peer_dispatch_incoming_unreliable_commands_def scan Let_def case_prod_beta fst_conv snd_conv)
      (rule exI, rule refl)
  then obtain f where "enet_peer_dispatch_incoming_unreliable_commands i c queued h = upd_peer i (upd_channel c f) ?g"
    by blast
  moreover have "i < length (h_peers ?g)" "p_totalWaitingData (peer_at ?g i) = p_totalWaitingData (peer_at h i)"
    using h g by simp_all
  moreover have "p_totalWaitingData (upd_channel c f p) = p_totalWaitingData p" for p
    by (simp add: upd_channel_def)
  ultimately show ?thesis by simp
qed

theorem dropped_data_stays_counted_witness:
  "let p = sample_peer\<lparr>p_channels := [sample_channel\<lparr>ch_incomingReliableSequenceNumber := 1,
         ch_incomingUnreliableCommands := [sample_unreliable 0 1 0]\<rparr>], p_totalWaitingData := 2\<rparr>;
       h = enet_peer_dispatch_incoming_unreliable_commands 0 0 None (sample_host [p])
   in p_totalWaitingData (peer_at h 0) = 2"
  using dropped_data_stays_counted [of 0 "sample_host [sample_peer\<lparr>p_channels :=
    [sample_channel\<lparr>ch_incomingReliableSequenceNumber := 1,
         ch_incomingUnreliableCommands := [sample_unreliable 0 1 0]\<rparr>], p_totalWaitingData := 2\<rparr>]" 0 None]
  by (simp add: Let_def) (simp add: sample_host_def peer_at_def)

end
