(* ===== verification/Enet_Host.thy ===== *)
theory Enet_Host
  imports Enet_Incoming
begin

text \<open>
  \<^verbatim>\<open>src/host.c\<close>: creating a host, connecting, broadcasting, the limits, and the bandwidth
  throttle that shares the host's bandwidth among its peers.
\<close>

section \<open>Creating a host\<close>

text \<open>
  What the socket and epoll calls of \<open>enet_host_create\<close> return: whether each succeeds, the
  address of the bound socket, the random seed.  \<open>se_hasEpoll\<close> is the build option.  The
  rest is how the socket and the clock behave afterwards.
\<close>

record socket_env =
  se_create :: bool
  se_bind :: bool
  se_hasEpoll :: bool
  se_epollCreate :: bool
  se_epollCtl :: bool
  se_getAddress :: "ENetAddress option"
  se_randomSeed :: u32
  se_clock :: "nat \<Rightarrow> u32"
  se_sendmsg :: "nat \<Rightarrow> sendmsg_result"
  se_poll :: "nat \<Rightarrow> u32 \<Rightarrow> poll_call"

definition zero_address :: ENetAddress where
  "zero_address = \<lparr>ad_host = 0, ad_port = 0\<rparr>"

text \<open>A peer after \<open>memset (host->peers, 0, ...)\<close> and the initialisation loop up to \<open>enet_peer_reset\<close>.\<close>

definition initial_peer :: "nat \<Rightarrow> ENetPeer" where
  "initial_peer i = \<lparr>p_outgoingPeerID = 0, p_incomingPeerID = of_nat i, p_connectID = 0,
     p_outgoingSessionID = 0xFF, p_incomingSessionID = 0xFF, p_address = zero_address,
     p_state = DISCONNECTED, p_channels = [], p_channelCount = 0, p_incomingBandwidth = 0,
     p_outgoingBandwidth = 0, p_incomingBandwidthThrottleEpoch = 0,
     p_outgoingBandwidthThrottleEpoch = 0, p_incomingDataTotal = 0, p_outgoingDataTotal = 0,
     p_lastSendTime = 0, p_lastReceiveTime = 0, p_nextTimeout = 0, p_earliestTimeout = 0,
     p_packetLossEpoch = 0, p_packetsSent = 0, p_packetsLost = 0, p_packetLoss = 0,
     p_packetLossVariance = 0, p_packetThrottle = 0, p_packetThrottleLimit = 0,
     p_packetThrottleCounter = 0, p_packetThrottleEpoch = 0, p_packetThrottleAcceleration = 0,
     p_packetThrottleDeceleration = 0, p_packetThrottleInterval = 0, p_pingInterval = 0,
     p_timeoutLimit = 0, p_timeoutMinimum = 0, p_timeoutMaximum = 0, p_lastRoundTripTime = 0,
     p_lowestRoundTripTime = 0, p_lastRoundTripTimeVariance = 0,
     p_highestRoundTripTimeVariance = 0, p_roundTripTime = 0, p_roundTripTimeVariance = 0,
     p_mtu = 0, p_windowSize = 0, p_reliableDataInTransit = 0,
     p_outgoingReliableSequenceNumber = 0, p_acknowledgements = [], p_sentReliableCommands = [],
     p_outgoingSendReliableCommands = [], p_outgoingCommands = [], p_dispatchedCommands = [],
     p_flags = 0, p_incomingUnsequencedGroup = 0, p_outgoingUnsequencedGroup = 0,
     p_unsequencedWindow = replicate 32 0, p_eventData = 0, p_totalWaitingData = 0\<rparr>"

text \<open>The clamp of the number of channels in \<open>enet_host_create\<close> and \<open>enet_host_channel_limit\<close>.\<close>

definition clamp_channelLimit :: "nat \<Rightarrow> nat" where
  "clamp_channelLimit n =
     (if n = 0 \<or> n > ENET_PROTOCOL_MAXIMUM_CHANNEL_COUNT then ENET_PROTOCOL_MAXIMUM_CHANNEL_COUNT
      else if n < ENET_PROTOCOL_MINIMUM_CHANNEL_COUNT then ENET_PROTOCOL_MINIMUM_CHANNEL_COUNT
      else n)"

definition initial_host ::
  "memory \<Rightarrow> socket_env \<Rightarrow> ENetAddress \<Rightarrow> u32 \<Rightarrow> nat \<Rightarrow> nat \<Rightarrow> u32 \<Rightarrow> u32 \<Rightarrow> ENetHost" where
  "initial_host m env address seed peerCount channelLimit incomingBandwidth outgoingBandwidth =
     \<lparr>en_packets = en_packets m, en_next = en_next m, en_malloc = en_malloc m,
      en_callbacks = en_callbacks m, en_fault = en_fault m,
      h_clock = se_clock env, h_clockReads = 0, h_inbox = [], h_sendmsg = se_sendmsg env,
      h_outbox = [], h_poll = se_poll env, h_pollCalls = 0, h_hasEpoll = se_hasEpoll env,
      h_address = address,
      h_incomingBandwidth = incomingBandwidth, h_outgoingBandwidth = outgoingBandwidth,
      h_bandwidthThrottleEpoch = 0, h_mtu = ENET_HOST_DEFAULT_MTU, h_randomSeed = seed,
      h_recalculateBandwidthLimits = False, h_peers = map initial_peer [0..<peerCount],
      h_channelLimit = clamp_channelLimit channelLimit, h_serviceTime = 0, h_dispatchQueue = [],
      h_totalQueued = 0, h_packetSize = 0, h_headerFlags = 0, h_commands = [], h_buffers = [],
      h_checksum = None, h_compress = None, h_decompress = None, h_packetData = replicate 4096 0,
      h_receivedAddress = \<lparr>ad_host = ENET_HOST_ANY, ad_port = 0\<rparr>, h_receivedData = [],
      h_receivedDataLength = 0, h_totalSentData = 0, h_totalSentPackets = 0,
      h_totalReceivedData = 0, h_totalReceivedPackets = 0, h_connectedPeers = 0,
      h_bandwidthLimitedPeers = 0, h_duplicatePeers = ucast ENET_PROTOCOL_MAXIMUM_PEER_ID,
      h_maximumPacketSize = ENET_HOST_DEFAULT_MAXIMUM_PACKET_SIZE,
      h_maximumWaitingData = ENET_HOST_DEFAULT_MAXIMUM_WAITING_DATA\<rparr>"

text \<open>
  The result is the host (\<open>None\<close> for null) and the number of sockets that were opened and
  not closed.  The seed takes the host's own address into account.
\<close>

definition enet_host_create ::
  "socket_env \<Rightarrow> ENetAddress option \<Rightarrow> nat \<Rightarrow> nat \<Rightarrow> u32 \<Rightarrow> u32 \<Rightarrow> memory
    \<Rightarrow> ENetHost option \<times> nat" where
  "enet_host_create env address peerCount channelLimit incomingBandwidth outgoingBandwidth m =
     (if peerCount > unat ENET_PROTOCOL_MAXIMUM_PEER_ID then (None, 0)
      else
        (case enet_malloc m of
           (None, m) \<Rightarrow> (None, 0)
         | (Some host, m) \<Rightarrow>
             (case enet_malloc m of
                (None, m) \<Rightarrow> (None, 0)
              | (Some _, m) \<Rightarrow>
                  if \<not> se_create env \<or> (address \<noteq> None \<and> \<not> se_bind env) then (None, 0)
                  else if se_hasEpoll env \<and> \<not> se_epollCreate env then (None, 1)
                  else if se_hasEpoll env \<and> \<not> se_epollCtl env then (None, 1)
                  else
                    (let own = (case address of
                                  None \<Rightarrow> zero_address
                                | Some a \<Rightarrow> (case se_getAddress env of None \<Rightarrow> a | Some b \<Rightarrow> b));
                         seed = of_nat host + se_randomSeed env;
                         seed = (push_bit 16 seed) OR (drop_bit 16 seed);
                         h = initial_host m env own seed peerCount channelLimit
                               incomingBandwidth outgoingBandwidth
                     in (Some (fold enet_peer_reset [0..<peerCount] h), 1)))))"

text \<open>
  The part of \<open>enet_host_destroy\<close> that gives back what the peers hold; closing the socket,
  the compressor's callback and freeing the blocks of the host itself are not state.
\<close>

definition enet_host_destroy :: "ENetHost \<Rightarrow> ENetHost" where
  "enet_host_destroy h = fold enet_peer_reset [0..<length (h_peers h)] h"

section \<open>Random numbers\<close>

definition enet_host_random :: "ENetHost \<Rightarrow> u32 \<times> ENetHost" where
  "enet_host_random h =
     (let seed = h_randomSeed h + 0x6D2B79F5;
          n = (seed XOR (drop_bit 15 seed)) * (seed OR 1);
          n = n XOR (n + (n XOR (drop_bit 7 n)) * (n OR 61))
      in (n XOR (drop_bit 14 n), h\<lparr>h_randomSeed := seed\<rparr>))"

section \<open>Connecting\<close>

definition initial_channel :: ENetChannel where
  "initial_channel = \<lparr>ch_outgoingReliableSequenceNumber = 0, ch_outgoingUnreliableSequenceNumber = 0,
     ch_usedReliableWindows = 0, ch_reliableWindows = replicate 16 0,
     ch_incomingReliableSequenceNumber = 0, ch_incomingUnreliableSequenceNumber = 0,
     ch_incomingReliableCommands = [], ch_incomingUnreliableCommands = []\<rparr>"

definition clamp_windowSize :: "u32 \<Rightarrow> u32" where
  "clamp_windowSize w =
     (if w < ENET_PROTOCOL_MINIMUM_WINDOW_SIZE then ENET_PROTOCOL_MINIMUM_WINDOW_SIZE
      else if w > ENET_PROTOCOL_MAXIMUM_WINDOW_SIZE then ENET_PROTOCOL_MAXIMUM_WINDOW_SIZE
      else w)"

definition scaled_windowSize :: "u32 \<Rightarrow> u32" where
  "scaled_windowSize bandwidth =
     (bandwidth div ENET_PEER_WINDOW_SIZE_SCALE) * ENET_PROTOCOL_MINIMUM_WINDOW_SIZE"

definition connect_windowSize :: "ENetHost \<Rightarrow> u32" where
  "connect_windowSize h =
     clamp_windowSize (if h_outgoingBandwidth h = 0 then ENET_PROTOCOL_MAXIMUM_WINDOW_SIZE
                       else scaled_windowSize (h_outgoingBandwidth h))"

text \<open>The first peer in a state.\<close>

fun find_state :: "ENetPeerState \<Rightarrow> nat \<Rightarrow> ENetPeer list \<Rightarrow> nat option" where
  "find_state s i [] = None"
| "find_state s i (p # ps) = (if p_state p = s then Some i else find_state s (Suc i) ps)"

definition enet_host_connect :: "ENetAddress \<Rightarrow> nat \<Rightarrow> u32 \<Rightarrow> ENetHost \<Rightarrow> nat option \<times> ENetHost" where
  "enet_host_connect address channelCount data h =
     (let channelCount =
        (if channelCount < ENET_PROTOCOL_MINIMUM_CHANNEL_COUNT then ENET_PROTOCOL_MINIMUM_CHANNEL_COUNT
         else if channelCount > ENET_PROTOCOL_MAXIMUM_CHANNEL_COUNT then ENET_PROTOCOL_MAXIMUM_CHANNEL_COUNT
         else channelCount)
      in case find_state DISCONNECTED 0 (h_peers h) of
           None \<Rightarrow> (None, h)
         | Some i \<Rightarrow>
             (case enet_malloc h of
                (None, h) \<Rightarrow> (None, h)
              | (Some _, h) \<Rightarrow>
                  (let (connectID, h) = enet_host_random h;
                       windowSize = connect_windowSize h;
                       h = upd_peer i (\<lambda>p. p\<lparr>p_channelCount := channelCount, p_state := CONNECTING,
                             p_address := address, p_connectID := connectID, p_mtu := h_mtu h,
                             p_windowSize := windowSize,
                             p_channels := replicate channelCount initial_channel\<rparr>) h;
                       p = peer_at h i;
                       command = host_command ENET_PROTOCOL_COMMAND_FLAG_ACKNOWLEDGE
                         (Connect \<lparr>cn_outgoingPeerID = p_incomingPeerID p,
                            cn_incomingSessionID = p_incomingSessionID p,
                            cn_outgoingSessionID = p_outgoingSessionID p,
                            cn_mtu = p_mtu p, cn_windowSize = p_windowSize p,
                            cn_channelCount = of_nat channelCount,
                            cn_incomingBandwidth = h_incomingBandwidth h,
                            cn_outgoingBandwidth = h_outgoingBandwidth h,
                            cn_packetThrottleInterval = p_packetThrottleInterval p,
                            cn_packetThrottleAcceleration = p_packetThrottleAcceleration p,
                            cn_packetThrottleDeceleration = p_packetThrottleDeceleration p,
                            cn_connectID = p_connectID p, cn_data = data\<rparr>)
                   in (Some i, snd (enet_peer_queue_outgoing_command i command None 0 0 h)))))"

section \<open>Broadcasting and limits\<close>

text \<open>The loop over the peers \<open>is\<close>; \<open>None\<close> when a send does not return.\<close>

fun broadcast_loop :: "nat list \<Rightarrow> u8 \<Rightarrow> nat \<Rightarrow> ENetHost \<Rightarrow> ENetHost option" where
  "broadcast_loop [] channelID packet h = Some h"
| "broadcast_loop (i # is) channelID packet h =
     (if p_state (peer_at h i) \<noteq> CONNECTED then broadcast_loop is channelID packet h
      else (case enet_peer_send i channelID packet h of
              None \<Rightarrow> None
            | Some (_, h) \<Rightarrow> broadcast_loop is channelID packet h))"

definition enet_host_broadcast :: "u8 \<Rightarrow> nat \<Rightarrow> ENetHost \<Rightarrow> ENetHost option" where
  "enet_host_broadcast channelID packet h =
     (case broadcast_loop [0..<length (h_peers h)] channelID packet h of
        None \<Rightarrow> None
      | Some h \<Rightarrow>
          Some (case en_packets h packet of
                  None \<Rightarrow> raise_fault h
                | Some pk \<Rightarrow>
                    if pk_referenceCount pk = 0 then enet_packet_destroy (Some packet) h else h))"

definition enet_host_channel_limit :: "nat \<Rightarrow> ENetHost \<Rightarrow> ENetHost" where
  "enet_host_channel_limit channelLimit h = h\<lparr>h_channelLimit := clamp_channelLimit channelLimit\<rparr>"

definition enet_host_bandwidth_limit :: "u32 \<Rightarrow> u32 \<Rightarrow> ENetHost \<Rightarrow> ENetHost" where
  "enet_host_bandwidth_limit incomingBandwidth outgoingBandwidth h =
     h\<lparr>h_incomingBandwidth := incomingBandwidth, h_outgoingBandwidth := outgoingBandwidth,
       h_recalculateBandwidthLimits := True\<rparr>"

section \<open>The bandwidth throttle\<close>

text \<open>All arithmetic is on 32-bit unsigned integers, as in the code.\<close>

definition throttle_value :: "u32 \<Rightarrow> u32 \<Rightarrow> u32" where
  "throttle_value dataTotal bandwidth =
     (if dataTotal \<le> bandwidth then ENET_PEER_PACKET_THROTTLE_SCALE
      else (bandwidth * ENET_PEER_PACKET_THROTTLE_SCALE) div dataTotal)"

text \<open>The variables of the first \<open>while\<close> loop.\<close>

record throttle_vars =
  tv_peersRemaining :: u32
  tv_bandwidth :: u32
  tv_dataTotal :: u32
  tv_needsAdjustment :: bool

text \<open>Is the peer limited by what it can receive, and if so, how it is limited?\<close>

definition over_bandwidth :: "u32 \<Rightarrow> u32 \<Rightarrow> u32 \<Rightarrow> ENetPeer \<Rightarrow> bool" where
  "over_bandwidth timeCurrent elapsedTime throttle p \<longleftrightarrow>
     counted (p_state p) \<and> p_incomingBandwidth p \<noteq> 0
     \<and> p_outgoingBandwidthThrottleEpoch p \<noteq> timeCurrent
     \<and> \<not> (throttle * p_outgoingDataTotal p) div ENET_PEER_PACKET_THROTTLE_SCALE
            \<le> (p_incomingBandwidth p * elapsedTime) div 1000"

definition limit_peer :: "u32 \<Rightarrow> u32 \<Rightarrow> ENetPeer \<Rightarrow> ENetPeer" where
  "limit_peer timeCurrent peerBandwidth p =
     (let limit = (peerBandwidth * ENET_PEER_PACKET_THROTTLE_SCALE) div p_outgoingDataTotal p;
          limit = (if limit = 0 then 1 else limit)
      in p\<lparr>p_packetThrottleLimit := limit,
           p_packetThrottle := (if p_packetThrottle p > limit then limit else p_packetThrottle p),
           p_outgoingBandwidthThrottleEpoch := timeCurrent,
           p_incomingDataTotal := 0, p_outgoingDataTotal := 0\<rparr>)"

fun throttle_pass ::
  "u32 \<Rightarrow> u32 \<Rightarrow> u32 \<Rightarrow> ENetPeer list \<Rightarrow> throttle_vars \<Rightarrow> ENetPeer list \<times> throttle_vars" where
  "throttle_pass timeCurrent elapsedTime throttle [] v = ([], v)"
| "throttle_pass timeCurrent elapsedTime throttle (p # ps) v =
     (if over_bandwidth timeCurrent elapsedTime throttle p then
        (let peerBandwidth = (p_incomingBandwidth p * elapsedTime) div 1000;
             (ps', v') = throttle_pass timeCurrent elapsedTime throttle ps
               (v\<lparr>tv_needsAdjustment := True, tv_peersRemaining := tv_peersRemaining v - 1,
                  tv_bandwidth := tv_bandwidth v - peerBandwidth,
                  tv_dataTotal := tv_dataTotal v - peerBandwidth\<rparr>)
         in (limit_peer timeCurrent peerBandwidth p # ps', v'))
      else
        (let (ps', v') = throttle_pass timeCurrent elapsedTime throttle ps v in (p # ps', v')))"

text \<open>The peers a pass may still limit: each pass that asks for another one limits some.\<close>

definition open_peers :: "u32 \<Rightarrow> ENetPeer list \<Rightarrow> nat" where
  "open_peers timeCurrent ps = length (filter (\<lambda>p. p_outgoingBandwidthThrottleEpoch p \<noteq> timeCurrent) ps)"

lemma limit_peer_epoch [simp]: "p_outgoingBandwidthThrottleEpoch (limit_peer now b p) = now"
  by (simp add: limit_peer_def Let_def)

lemma open_peers_simps [simp]:
  "open_peers now [] = 0"
  "open_peers now (p # ps) =
     (if p_outgoingBandwidthThrottleEpoch p \<noteq> now then Suc (open_peers now ps) else open_peers now ps)"
  by (simp_all add: open_peers_def)

lemma throttle_pass_open:
  "open_peers now (fst (throttle_pass now elapsed throttle ps v)) \<le> open_peers now ps
   \<and> (tv_needsAdjustment (snd (throttle_pass now elapsed throttle ps v)) \<longrightarrow>
        tv_needsAdjustment v
        \<or> open_peers now (fst (throttle_pass now elapsed throttle ps v)) < open_peers now ps)"
proof (induction ps arbitrary: v)
  case Nil
  then show ?case by simp
next
  case (Cons p ps)
  show ?case
  proof (cases "over_bandwidth now elapsed throttle p")
    case True
    then have "p_outgoingBandwidthThrottleEpoch p \<noteq> now"
      by (simp add: over_bandwidth_def)
    then show ?thesis
      using True Cons.IH [of "v\<lparr>tv_needsAdjustment := True,
          tv_peersRemaining := tv_peersRemaining v - 1,
          tv_bandwidth := tv_bandwidth v - (p_incomingBandwidth p * elapsed) div 1000,
          tv_dataTotal := tv_dataTotal v - (p_incomingBandwidth p * elapsed) div 1000\<rparr>"]
      by (simp add: Let_def case_prod_beta)
  next
    case False
    then show ?thesis
      using Cons.IH [of v] by (auto simp: Let_def case_prod_beta)
  qed
qed

function throttle_loop ::
  "u32 \<Rightarrow> u32 \<Rightarrow> ENetPeer list \<Rightarrow> throttle_vars \<Rightarrow> ENetPeer list \<times> throttle_vars" where
  "throttle_loop timeCurrent elapsedTime ps v =
     (if tv_peersRemaining v > 0 \<and> tv_needsAdjustment v then
        (case throttle_pass timeCurrent elapsedTime
                (throttle_value (tv_dataTotal v) (tv_bandwidth v)) ps
                (v\<lparr>tv_needsAdjustment := False\<rparr>) of
           (ps', v') \<Rightarrow> throttle_loop timeCurrent elapsedTime ps' v')
      else (ps, v))"
  by pat_completeness auto

termination
proof (relation "measure (\<lambda>(now, elapsed, ps, v). 2 * open_peers now ps
         + (if tv_needsAdjustment v then 1 else 0))", goal_cases)
  case 1
  show ?case by simp
next
  case (2 now elapsed ps v ps' v')
  then show ?case
    using throttle_pass_open [of now elapsed "throttle_value (tv_dataTotal v) (tv_bandwidth v)" ps
      "v\<lparr>tv_needsAdjustment := False\<rparr>"]
    by (auto simp: case_prod_beta)
qed

declare throttle_loop.simps [simp del]

text \<open>The loop for the peers that were not limited.\<close>

definition share_throttle :: "u32 \<Rightarrow> u32 \<Rightarrow> ENetPeer \<Rightarrow> ENetPeer" where
  "share_throttle timeCurrent throttle p =
     (if counted (p_state p) \<and> p_outgoingBandwidthThrottleEpoch p \<noteq> timeCurrent then
        p\<lparr>p_packetThrottleLimit := throttle,
          p_packetThrottle := (if p_packetThrottle p > throttle then throttle else p_packetThrottle p),
          p_incomingDataTotal := 0, p_outgoingDataTotal := 0\<rparr>
      else p)"

definition throttle_outgoing :: "u32 \<Rightarrow> u32 \<Rightarrow> u32 \<Rightarrow> u32 \<Rightarrow> bool \<Rightarrow> ENetPeer list \<Rightarrow> ENetPeer list" where
  "throttle_outgoing timeCurrent elapsedTime outgoingBandwidth connected limited ps =
     (let (dataTotal, bandwidth) =
            (if outgoingBandwidth \<noteq> 0
             then (sum_list (map p_outgoingDataTotal (filter (\<lambda>p. counted (p_state p)) ps)),
                   (outgoingBandwidth * elapsedTime) div 1000)
             else (- 1, - 1));
          (ps, v) = throttle_loop timeCurrent elapsedTime ps
            \<lparr>tv_peersRemaining = connected, tv_bandwidth = bandwidth, tv_dataTotal = dataTotal,
             tv_needsAdjustment = limited\<rparr>
      in if tv_peersRemaining v > 0
         then map (share_throttle timeCurrent (throttle_value (tv_dataTotal v) (tv_bandwidth v))) ps
         else ps)"

text \<open>The second half: the share of the host's incoming bandwidth.\<close>

definition takes_own_share :: "u32 \<Rightarrow> u32 \<Rightarrow> ENetPeer \<Rightarrow> bool" where
  "takes_own_share timeCurrent bandwidthLimit p \<longleftrightarrow>
     counted (p_state p) \<and> p_incomingBandwidthThrottleEpoch p \<noteq> timeCurrent
     \<and> \<not> (p_outgoingBandwidth p > 0 \<and> p_outgoingBandwidth p \<ge> bandwidthLimit)"

fun share_pass ::
  "u32 \<Rightarrow> u32 \<Rightarrow> ENetPeer list \<Rightarrow> u32 \<times> u32 \<times> bool \<Rightarrow> ENetPeer list \<times> u32 \<times> u32 \<times> bool" where
  "share_pass timeCurrent bandwidthLimit [] v = ([], v)"
| "share_pass timeCurrent bandwidthLimit (p # ps) (peersRemaining, bandwidth, needsAdjustment) =
     (if takes_own_share timeCurrent bandwidthLimit p then
        (let (ps', v') = share_pass timeCurrent bandwidthLimit ps
               (peersRemaining - 1, bandwidth - p_outgoingBandwidth p, True)
         in (p\<lparr>p_incomingBandwidthThrottleEpoch := timeCurrent\<rparr> # ps', v'))
      else
        (let (ps', v') = share_pass timeCurrent bandwidthLimit ps (peersRemaining, bandwidth, needsAdjustment)
         in (p # ps', v')))"

definition unshared_peers :: "u32 \<Rightarrow> ENetPeer list \<Rightarrow> nat" where
  "unshared_peers timeCurrent ps = length (filter (\<lambda>p. p_incomingBandwidthThrottleEpoch p \<noteq> timeCurrent) ps)"

lemma unshared_peers_simps [simp]:
  "unshared_peers now [] = 0"
  "unshared_peers now (p # ps) =
     (if p_incomingBandwidthThrottleEpoch p \<noteq> now then Suc (unshared_peers now ps)
      else unshared_peers now ps)"
  by (simp_all add: unshared_peers_def)

lemma share_pass_unshared:
  "unshared_peers now (fst (share_pass now limit ps v)) \<le> unshared_peers now ps
   \<and> (snd (snd (snd (share_pass now limit ps v))) \<longrightarrow>
        snd (snd v) \<or> unshared_peers now (fst (share_pass now limit ps v)) < unshared_peers now ps)"
proof (induction ps arbitrary: v)
  case Nil
  then show ?case by simp
next
  case (Cons p ps)
  obtain r b adj where v: "v = (r, b, adj)"
    by (cases v)
  show ?case
  proof (cases "takes_own_share now limit p")
    case True
    then have "p_incomingBandwidthThrottleEpoch p \<noteq> now"
      by (simp add: takes_own_share_def)
    then show ?thesis
      using True Cons.IH [of "(r - 1, b - p_outgoingBandwidth p, True)"]
      by (simp add: v Let_def case_prod_beta)
  next
    case False
    then show ?thesis
      using Cons.IH [of "(r, b, adj)"] by (auto simp: v Let_def case_prod_beta)
  qed
qed

text \<open>The result is the last \<open>bandwidthLimit\<close>, first \<open>0\<close>.\<close>

function share_loop :: "u32 \<Rightarrow> u32 \<Rightarrow> ENetPeer list \<Rightarrow> u32 \<times> u32 \<times> bool \<Rightarrow> ENetPeer list \<times> u32" where
  "share_loop timeCurrent bandwidthLimit ps (peersRemaining, bandwidth, needsAdjustment) =
     (if peersRemaining > 0 \<and> needsAdjustment then
        (case share_pass timeCurrent (bandwidth div peersRemaining) ps (peersRemaining, bandwidth, False) of
           (ps', v') \<Rightarrow> share_loop timeCurrent (bandwidth div peersRemaining) ps' v')
      else (ps, bandwidthLimit))"
  by pat_completeness auto

termination
proof (relation "measure (\<lambda>(now, limit, ps, v). 2 * unshared_peers now ps
         + (if snd (snd v) then 1 else 0))", goal_cases)
  case 1
  show ?case by simp
next
  case (2 now limit ps r b adj ps' v')
  then show ?case
    using share_pass_unshared [of now "b div r" ps "(r, b, False)"] by (auto simp: case_prod_beta)
qed

declare share_loop.simps [simp del]

definition bandwidth_limit_command :: "u32 \<Rightarrow> u32 \<Rightarrow> u32 \<Rightarrow> ENetPeer \<Rightarrow> ENetProtocol" where
  "bandwidth_limit_command timeCurrent outgoingBandwidth bandwidthLimit p =
     host_command ENET_PROTOCOL_COMMAND_FLAG_ACKNOWLEDGE
       (BandwidthLimit (if p_incomingBandwidthThrottleEpoch p = timeCurrent then p_outgoingBandwidth p
                        else bandwidthLimit) outgoingBandwidth)"

definition announce_bandwidth :: "u32 \<Rightarrow> u32 \<Rightarrow> nat \<Rightarrow> ENetHost \<Rightarrow> ENetHost" where
  "announce_bandwidth timeCurrent bandwidthLimit i h =
     (if counted (p_state (peer_at h i)) then
        snd (enet_peer_queue_outgoing_command i
               (bandwidth_limit_command timeCurrent (h_outgoingBandwidth h) bandwidthLimit (peer_at h i))
               None 0 0 h)
      else h)"

definition recalculate_limits :: "u32 \<Rightarrow> ENetHost \<Rightarrow> ENetHost" where
  "recalculate_limits timeCurrent h =
     (let h = h\<lparr>h_recalculateBandwidthLimits := False\<rparr>;
          (ps, limit) =
            (if h_incomingBandwidth h = 0 then (h_peers h, 0)
             else share_loop timeCurrent 0 (h_peers h)
                    (ucast (h_connectedPeers h), h_incomingBandwidth h, True));
          h = h\<lparr>h_peers := ps\<rparr>
      in fold (announce_bandwidth timeCurrent limit) [0..<length ps] h)"

definition enet_host_bandwidth_throttle :: "ENetHost \<Rightarrow> ENetHost" where
  "enet_host_bandwidth_throttle h =
     (let (timeCurrent, h) = enet_time_get h;
          elapsedTime = timeCurrent - h_bandwidthThrottleEpoch h
      in if elapsedTime < ENET_HOST_BANDWIDTH_THROTTLE_INTERVAL then h
         else
           (let h = h\<lparr>h_bandwidthThrottleEpoch := timeCurrent\<rparr>;
                peersRemaining = ucast (h_connectedPeers h) :: u32
            in if peersRemaining = 0 then h
               else
                 (let h = h\<lparr>h_peers := throttle_outgoing timeCurrent elapsedTime (h_outgoingBandwidth h)
                              peersRemaining (h_bandwidthLimitedPeers h > 0) (h_peers h)\<rparr>
                  in if h_recalculateBandwidthLimits h then recalculate_limits timeCurrent h else h)))"

end
