(* ===== verification/Enet_Handlers.thy ===== *)
theory Enet_Handlers
  imports Enet_Host
begin

text \<open>
  \<^verbatim>\<open>src/protocol.c\<close> from \<open>enet_protocol_change_state\<close> to \<open>enet_protocol_handle_verify_connect\<close>:
  the connection state machine, the events it reports, and one handler per command.  A
  handler returns \<open>0\<close>, or \<open>-1\<close> where the rest of the datagram is dropped; the handlers of
  commands with a payload also return the length by which they advance \<open>currentData\<close>.  The
  event argument is \<open>None\<close> for the null pointer.
\<close>

section \<open>State changes and notifications\<close>

definition enet_protocol_change_state :: "nat \<Rightarrow> ENetPeerState \<Rightarrow> ENetHost \<Rightarrow> ENetHost" where
  "enet_protocol_change_state i state h =
     upd_peer i (\<lambda>p. p\<lparr>p_state := state\<rparr>)
       (if state = CONNECTED \<or> state = DISCONNECT_LATER then enet_peer_on_connect i h
        else enet_peer_on_disconnect i h)"

definition enet_protocol_dispatch_state :: "nat \<Rightarrow> ENetPeerState \<Rightarrow> ENetHost \<Rightarrow> ENetHost" where
  "enet_protocol_dispatch_state i state h = needs_dispatch i (enet_protocol_change_state i state h)"

text \<open>The event fields a notification sets.\<close>

definition connect_event :: "nat \<Rightarrow> u32 \<Rightarrow> ENetEvent \<Rightarrow> ENetEvent" where
  "connect_event i data ev = ev\<lparr>ev_type := ENET_EVENT_TYPE_CONNECT, ev_peer := Some i, ev_data := data\<rparr>"

definition disconnect_event :: "nat \<Rightarrow> u32 \<Rightarrow> ENetEvent \<Rightarrow> ENetEvent" where
  "disconnect_event i data ev = ev\<lparr>ev_type := ENET_EVENT_TYPE_DISCONNECT, ev_peer := Some i, ev_data := data\<rparr>"

text \<open>
  One round of the loop of \<open>enet_protocol_dispatch_incoming_commands\<close> for the peer \<open>i\<close> just
  taken from the queue: \<open>Some ev\<close> is \<open>return 1\<close>, \<open>None\<close> goes on with the queue.
\<close>

definition dispatch_peer :: "nat \<Rightarrow> ENetEvent \<Rightarrow> ENetHost \<Rightarrow> ENetEvent option \<times> ENetHost" where
  "dispatch_peer i ev h =
     (let h = upd_peer i (\<lambda>p. p\<lparr>p_flags := clear_flag (p_flags p) ENET_PEER_FLAG_NEEDS_DISPATCH\<rparr>) h;
          p = peer_at h i
      in case p_state p of
           CONNECTION_PENDING \<Rightarrow>
             (Some (connect_event i (p_eventData p) ev), enet_protocol_change_state i CONNECTED h)
         | CONNECTION_SUCCEEDED \<Rightarrow>
             (Some (connect_event i (p_eventData p) ev), enet_protocol_change_state i CONNECTED h)
         | ZOMBIE \<Rightarrow>
             (Some (disconnect_event i (p_eventData p) ev),
              enet_peer_reset i (h\<lparr>h_recalculateBandwidthLimits := True\<rparr>))
         | CONNECTED \<Rightarrow>
             (case enet_peer_receive i h of
                (None, h) \<Rightarrow> (None, h)
              | (Some (packet, chan), h) \<Rightarrow>
                  (Some (ev\<lparr>ev_type := ENET_EVENT_TYPE_RECEIVE, ev_peer := Some i,
                            ev_channelID := chan, ev_packet := Some packet\<rparr>),
                   if p_dispatchedCommands (peer_at h i) \<noteq> [] then
                     dispatch_insert i
                       (upd_peer i (\<lambda>p. p\<lparr>p_flags := set_flag (p_flags p) ENET_PEER_FLAG_NEEDS_DISPATCH\<rparr>) h)
                   else h))
         | _ \<Rightarrow> (None, h))"

text \<open>
  A round that goes on leaves the queue one shorter.  The recursion follows the queue: its
  argument is the queue at the start of the call.
\<close>

fun dispatch_queue_loop :: "nat list \<Rightarrow> ENetEvent \<Rightarrow> ENetHost \<Rightarrow> int \<times> ENetEvent \<times> ENetHost" where
  "dispatch_queue_loop [] ev h = (0, ev, h)"
| "dispatch_queue_loop (i # queue) ev h =
     (case dispatch_peer i ev (h\<lparr>h_dispatchQueue := queue\<rparr>) of
        (Some ev, h) \<Rightarrow> (1, ev, h)
      | (None, h) \<Rightarrow> dispatch_queue_loop queue ev h)"

definition enet_protocol_dispatch_incoming_commands :: "ENetEvent \<Rightarrow> ENetHost \<Rightarrow> int \<times> ENetEvent \<times> ENetHost" where
  "enet_protocol_dispatch_incoming_commands ev h = dispatch_queue_loop (h_dispatchQueue h) ev h"

definition enet_protocol_notify_connect ::
  "nat \<Rightarrow> ENetEvent option \<Rightarrow> ENetHost \<Rightarrow> ENetEvent option \<times> ENetHost" where
  "enet_protocol_notify_connect i event h =
     (let h = h\<lparr>h_recalculateBandwidthLimits := True\<rparr>
      in case event of
           Some ev \<Rightarrow>
             (let h = enet_protocol_change_state i CONNECTED h
              in (Some (connect_event i (p_eventData (peer_at h i)) ev), h))
         | None \<Rightarrow>
             (None, enet_protocol_dispatch_state i
                (if p_state (peer_at h i) = CONNECTING then CONNECTION_SUCCEEDED else CONNECTION_PENDING) h))"

definition enet_protocol_notify_disconnect ::
  "nat \<Rightarrow> ENetEvent option \<Rightarrow> ENetHost \<Rightarrow> ENetEvent option \<times> ENetHost" where
  "enet_protocol_notify_disconnect i event h =
     (let state = p_state (peer_at h i);
          h = (if state \<ge> CONNECTION_PENDING then h\<lparr>h_recalculateBandwidthLimits := True\<rparr> else h)
      in if state \<noteq> CONNECTING \<and> state < CONNECTION_SUCCEEDED then (event, enet_peer_reset i h)
         else
           (case event of
              Some ev \<Rightarrow> (Some (disconnect_event i 0 ev), enet_peer_reset i h)
            | None \<Rightarrow>
                (None, enet_protocol_dispatch_state i ZOMBIE (upd_peer i (\<lambda>p. p\<lparr>p_eventData := 0\<rparr>) h))))"

section \<open>Sent commands\<close>

text \<open>
  \<open>enet_peer_disconnect\<close> as the protocol calls it: the peer is in state
  \<open>DISCONNECT_LATER\<close>, so the branch that flushes the host is not taken
  (\<open>disconnect_connected_no_flush\<close> below).
\<close>

definition disconnect_delayed :: "nat \<Rightarrow> u32 \<Rightarrow> ENetHost \<Rightarrow> ENetHost" where
  "disconnect_delayed i data h =
     (case enet_peer_disconnect (\<lambda>_. None) i data h of None \<Rightarrow> raise_fault h | Some h \<Rightarrow> h)"

fun release_sent :: "ENetOutgoingCommand list \<Rightarrow> 'a memory_scheme \<Rightarrow> 'a memory_scheme" where
  "release_sent [] m = m"
| "release_sent (oc # sent) m = release_sent sent (outgoing_unref ENET_PACKET_FLAG_SENT oc m)"

lemma more_release_sent [mem_frame]: "memory.more (release_sent ocs m) = memory.more m"
  by (induction ocs m rule: release_sent.induct) (simp_all add: mem_frame)

definition enet_protocol_remove_sent_unreliable_commands ::
  "nat \<Rightarrow> ENetOutgoingCommand list \<Rightarrow> ENetHost \<Rightarrow> ENetHost" where
  "enet_protocol_remove_sent_unreliable_commands i sent h =
     (if sent = [] then h
      else
        (let h = release_sent sent h
         in if p_state (peer_at h i) = DISCONNECT_LATER
               \<and> \<not> enet_peer_has_outgoing_commands (peer_at h i)
            then disconnect_delayed i (p_eventData (peer_at h i)) h
            else h))"

definition is_command :: "u16 \<Rightarrow> u8 \<Rightarrow> ENetOutgoingCommand \<Rightarrow> bool" where
  "is_command n channelID oc \<longleftrightarrow>
     oc_reliableSequenceNumber oc = n \<and> hd_channelID (oc_command oc) = channelID"

text \<open>The first element with a property, and the list without it.\<close>

fun extract_first :: "('c \<Rightarrow> bool) \<Rightarrow> 'c list \<Rightarrow> ('c \<times> 'c list) option" where
  "extract_first P [] = None"
| "extract_first P (x # xs) =
     (if P x then Some (x, xs)
      else (case extract_first P xs of None \<Rightarrow> None | Some (y, ys) \<Rightarrow> Some (y, x # ys)))"

text \<open>The command found, and the list without it.\<close>

fun enet_protocol_find_sent_reliable_command ::
  "u16 \<Rightarrow> u8 \<Rightarrow> ENetOutgoingCommand list \<Rightarrow> (ENetOutgoingCommand \<times> ENetOutgoingCommand list) option" where
  "enet_protocol_find_sent_reliable_command n channelID [] = None"
| "enet_protocol_find_sent_reliable_command n channelID (oc # ocs) =
     (let rest = (case enet_protocol_find_sent_reliable_command n channelID ocs of
                    None \<Rightarrow> None | Some (x, xs) \<Rightarrow> Some (x, oc # xs))
      in if \<not> has_flag (hd_command (oc_command oc)) ENET_PROTOCOL_COMMAND_FLAG_ACKNOWLEDGE then rest
         else if oc_sendAttempts oc < 1 then None
         else if is_command n channelID oc then Some (oc, ocs)
         else rest)"

text \<open>
  Taking the command out of the list that has it: \<open>wasSent\<close>, the command, and the peer
  without it.
\<close>

definition take_sent_reliable_command ::
  "u16 \<Rightarrow> u8 \<Rightarrow> ENetPeer \<Rightarrow> (bool \<times> ENetOutgoingCommand \<times> ENetPeer) option" where
  "take_sent_reliable_command n channelID p =
     (case extract_first (is_command n channelID) (p_sentReliableCommands p) of
        Some (oc, ocs) \<Rightarrow> Some (True, oc, p\<lparr>p_sentReliableCommands := ocs\<rparr>)
      | None \<Rightarrow>
          (case enet_protocol_find_sent_reliable_command n channelID (p_outgoingCommands p) of
             Some (oc, ocs) \<Rightarrow> Some (False, oc, p\<lparr>p_outgoingCommands := ocs\<rparr>)
           | None \<Rightarrow>
               (case enet_protocol_find_sent_reliable_command n channelID (p_outgoingSendReliableCommands p) of
                  Some (oc, ocs) \<Rightarrow> Some (False, oc, p\<lparr>p_outgoingSendReliableCommands := ocs\<rparr>)
                | None \<Rightarrow> None)))"

definition release_window :: "u16 \<Rightarrow> ENetChannel \<Rightarrow> ENetChannel" where
  "release_window n ch =
     (let w = unat (n div ENET_PEER_RELIABLE_WINDOW_SIZE)
      in if ch_reliableWindows ch ! w > 0 then
           (let left = ch_reliableWindows ch ! w - 1;
                ch = ch\<lparr>ch_reliableWindows := (ch_reliableWindows ch)[w := left]\<rparr>
            in if left = 0
               then ch\<lparr>ch_usedReliableWindows := clear_flag (ch_usedReliableWindows ch) (push_bit w 1)\<rparr>
               else ch)
         else ch)"

text \<open>What the removal of the command \<open>oc\<close> does to the peer.\<close>

definition settle_sent_command :: "u16 \<Rightarrow> u8 \<Rightarrow> bool \<Rightarrow> ENetOutgoingCommand \<Rightarrow> ENetPeer \<Rightarrow> ENetPeer" where
  "settle_sent_command n channelID wasSent oc p =
     (let p = (if unat channelID < p_channelCount p
               then upd_channel channelID (release_window n) p else p);
          p = (if oc_packet oc \<noteq> None \<and> wasSent
               then p\<lparr>p_reliableDataInTransit := p_reliableDataInTransit p - ucast (oc_fragmentLength oc)\<rparr>
               else p)
      in case p_sentReliableCommands p of
           [] \<Rightarrow> p
         | first # _ \<Rightarrow> p\<lparr>p_nextTimeout := oc_sentTime first + oc_roundTripTimeout first\<rparr>)"

definition enet_protocol_remove_sent_reliable_command :: "nat \<Rightarrow> u16 \<Rightarrow> u8 \<Rightarrow> ENetHost \<Rightarrow> u8 \<times> ENetHost" where
  "enet_protocol_remove_sent_reliable_command i n channelID h =
     (case take_sent_reliable_command n channelID (peer_at h i) of
        None \<Rightarrow> (ENET_PROTOCOL_COMMAND_NONE, h)
      | Some (wasSent, oc, p) \<Rightarrow>
          (command_number (oc_command oc),
           outgoing_unref ENET_PACKET_FLAG_SENT oc
             (upd_peer i (\<lambda>_. settle_sent_command n channelID wasSent oc p) h)))"

section \<open>Connection requests\<close>

text \<open>
  The loop over the peers of \<open>enet_protocol_handle_connect\<close>: \<open>None\<close> when the request is a
  duplicate of a connection, otherwise the first free peer and the number of peers that
  have the sender's address.
\<close>

fun scan_connect ::
  "ENetAddress \<Rightarrow> u32 \<Rightarrow> nat \<Rightarrow> ENetPeer list \<Rightarrow> nat option \<Rightarrow> u64 \<Rightarrow> (nat option \<times> u64) option" where
  "scan_connect address connectID i [] peer duplicatePeers = Some (peer, duplicatePeers)"
| "scan_connect address connectID i (p # ps) peer duplicatePeers =
     (if p_state p = DISCONNECTED then
        scan_connect address connectID (Suc i) ps (if peer = None then Some i else peer) duplicatePeers
      else if p_state p \<noteq> CONNECTING \<and> ad_host (p_address p) = ad_host address then
        (if ad_port (p_address p) = ad_port address \<and> p_connectID p = connectID then None
         else scan_connect address connectID (Suc i) ps peer (duplicatePeers + 1))
      else scan_connect address connectID (Suc i) ps peer duplicatePeers)"

text \<open>The next session identifier: two bits, different from the current one.\<close>

definition next_session :: "u8 \<Rightarrow> u8 \<Rightarrow> u8" where
  "next_session requested current =
     (let mask = ucast (drop_bit ENET_PROTOCOL_HEADER_SESSION_SHIFT ENET_PROTOCOL_HEADER_SESSION_MASK) :: u8;
          s = (if requested = 0xFF then current else requested);
          s = (s + 1) AND mask
      in if s = current then (s + 1) AND mask else s)"

definition clamp_mtu :: "u32 \<Rightarrow> u32" where
  "clamp_mtu mtu =
     (if mtu < ENET_PROTOCOL_MINIMUM_MTU then ENET_PROTOCOL_MINIMUM_MTU
      else if mtu > ENET_PROTOCOL_MAXIMUM_MTU then ENET_PROTOCOL_MAXIMUM_MTU else mtu)"

text \<open>The window size for the bandwidths of the two sides.\<close>

definition peer_windowSize :: "u32 \<Rightarrow> u32 \<Rightarrow> u32" where
  "peer_windowSize hostBandwidth peerBandwidth =
     clamp_windowSize
       (if hostBandwidth = 0 \<and> peerBandwidth = 0 then ENET_PROTOCOL_MAXIMUM_WINDOW_SIZE
        else if hostBandwidth = 0 \<or> peerBandwidth = 0 then
          scaled_windowSize (ENET_MAX hostBandwidth peerBandwidth)
        else scaled_windowSize (ENET_MIN hostBandwidth peerBandwidth))"

text \<open>The window size the reply announces.\<close>

definition verify_windowSize :: "u32 \<Rightarrow> u32 \<Rightarrow> u32" where
  "verify_windowSize hostBandwidth requested =
     (let w = (if hostBandwidth = 0 then ENET_PROTOCOL_MAXIMUM_WINDOW_SIZE
               else scaled_windowSize hostBandwidth)
      in clamp_windowSize (if w > requested then requested else w))"

text \<open>The peer of an accepted request.\<close>

definition accept_peer :: "ENetHost \<Rightarrow> ENetProtocolConnect \<Rightarrow> nat \<Rightarrow> ENetPeer \<Rightarrow> ENetPeer" where
  "accept_peer h c channelCount p =
     (let p = p\<lparr>p_channelCount := channelCount, p_state := ACKNOWLEDGING_CONNECT,
                p_connectID := cn_connectID c, p_address := h_receivedAddress h, p_mtu := h_mtu h,
                p_outgoingPeerID := cn_outgoingPeerID c,
                p_incomingBandwidth := cn_incomingBandwidth c,
                p_outgoingBandwidth := cn_outgoingBandwidth c,
                p_packetThrottleInterval := cn_packetThrottleInterval c,
                p_packetThrottleAcceleration := cn_packetThrottleAcceleration c,
                p_packetThrottleDeceleration := cn_packetThrottleDeceleration c,
                p_eventData := cn_data c\<rparr>;
          p = p\<lparr>p_outgoingSessionID := next_session (cn_incomingSessionID c) (p_outgoingSessionID p)\<rparr>;
          p = p\<lparr>p_incomingSessionID := next_session (cn_outgoingSessionID c) (p_incomingSessionID p)\<rparr>;
          p = p\<lparr>p_channels := replicate channelCount initial_channel\<rparr>;
          p = (if clamp_mtu (cn_mtu c) < p_mtu p then p\<lparr>p_mtu := clamp_mtu (cn_mtu c)\<rparr> else p)
      in p\<lparr>p_windowSize := peer_windowSize (h_outgoingBandwidth h) (p_incomingBandwidth p)\<rparr>)"

text \<open>The reply; \<open>p\<close> is the accepted peer.\<close>

definition verify_command :: "ENetHost \<Rightarrow> ENetProtocolConnect \<Rightarrow> nat \<Rightarrow> ENetPeer \<Rightarrow> ENetProtocol" where
  "verify_command h c channelCount p =
     host_command ENET_PROTOCOL_COMMAND_FLAG_ACKNOWLEDGE
       (VerifyConnect \<lparr>vc_outgoingPeerID = p_incomingPeerID p,
          vc_incomingSessionID = p_outgoingSessionID p, vc_outgoingSessionID = p_incomingSessionID p,
          vc_mtu = p_mtu p, vc_windowSize = verify_windowSize (h_incomingBandwidth h) (cn_windowSize c),
          vc_channelCount = of_nat channelCount,
          vc_incomingBandwidth = h_incomingBandwidth h, vc_outgoingBandwidth = h_outgoingBandwidth h,
          vc_packetThrottleInterval = p_packetThrottleInterval p,
          vc_packetThrottleAcceleration = p_packetThrottleAcceleration p,
          vc_packetThrottleDeceleration = p_packetThrottleDeceleration p,
          vc_connectID = p_connectID p\<rparr>)"

definition enet_protocol_handle_connect :: "ENetProtocolConnect \<Rightarrow> ENetHost \<Rightarrow> nat option \<times> ENetHost" where
  "enet_protocol_handle_connect c h =
     (let channelCount = unat (cn_channelCount c)
      in if channelCount < ENET_PROTOCOL_MINIMUM_CHANNEL_COUNT
            \<or> channelCount > ENET_PROTOCOL_MAXIMUM_CHANNEL_COUNT then (None, h)
         else
           (case scan_connect (h_receivedAddress h) (cn_connectID c) 0 (h_peers h) None 0 of
              None \<Rightarrow> (None, h)
            | Some (None, _) \<Rightarrow> (None, h)
            | Some (Some i, duplicatePeers) \<Rightarrow>
                if duplicatePeers \<ge> h_duplicatePeers h then (None, h)
                else
                  (let channelCount = (if channelCount > h_channelLimit h then h_channelLimit h else channelCount)
                   in case enet_malloc h of
                        (None, h) \<Rightarrow> (None, h)
                      | (Some _, h) \<Rightarrow>
                          (let h = upd_peer i (accept_peer h c channelCount) h
                           in (Some i, snd (enet_peer_queue_outgoing_command i
                                 (verify_command h c channelCount (peer_at h i)) None 0 0 h))))))"

section \<open>Commands with a payload\<close>

text \<open>
  The first checks of the handlers, and \<open>*currentData += dataLength\<close> with its bounds.
  \<open>pos\<close> is the offset of the payload in the datagram, \<open>payload\<close> its bytes.
\<close>

definition may_receive :: "ENetPeer \<Rightarrow> ENetProtocol \<Rightarrow> bool" where
  "may_receive p command \<longleftrightarrow>
     \<not> (unat (hd_channelID command) \<ge> p_channelCount p
        \<or> (p_state p \<noteq> CONNECTED \<and> p_state p \<noteq> DISCONNECT_LATER))"

definition payload_fits :: "ENetHost \<Rightarrow> nat \<Rightarrow> nat \<Rightarrow> bool" where
  "payload_fits h pos dataLength \<longleftrightarrow>
     \<not> (dataLength > h_maximumPacketSize h \<or> pos + dataLength > h_receivedDataLength h)"

definition payload :: "ENetHost \<Rightarrow> nat \<Rightarrow> nat \<Rightarrow> u8 list" where
  "payload h pos dataLength = take dataLength (drop pos (h_receivedData h))"

definition queue_status :: "queue_result \<Rightarrow> int" where
  "queue_status r = (if r = NullCommand then - 1 else 0)"

definition enet_protocol_handle_send_reliable ::
  "nat \<Rightarrow> ENetProtocol \<Rightarrow> nat \<Rightarrow> nat \<Rightarrow> ENetHost \<Rightarrow> (int \<times> nat) \<times> ENetHost" where
  "enet_protocol_handle_send_reliable i command dataLength pos h =
     (if \<not> may_receive (peer_at h i) command then ((- 1, 0), h)
      else if \<not> payload_fits h pos dataLength then ((- 1, dataLength), h)
      else
        (let (r, h) = enet_peer_queue_incoming_command i command
               (Some (payload h pos dataLength)) dataLength ENET_PACKET_FLAG_RELIABLE 0 h
         in ((queue_status r, dataLength), h)))"

definition enet_protocol_handle_send_unreliable ::
  "nat \<Rightarrow> ENetProtocol \<Rightarrow> nat \<Rightarrow> nat \<Rightarrow> ENetHost \<Rightarrow> (int \<times> nat) \<times> ENetHost" where
  "enet_protocol_handle_send_unreliable i command dataLength pos h =
     (if \<not> may_receive (peer_at h i) command then ((- 1, 0), h)
      else if \<not> payload_fits h pos dataLength then ((- 1, dataLength), h)
      else
        (let (r, h) = enet_peer_queue_incoming_command i command
               (Some (payload h pos dataLength)) dataLength 0 0 h
         in ((queue_status r, dataLength), h)))"

text \<open>Where an unsequenced group falls: outside the window, in a new window, seen, or not seen.\<close>

datatype unsequenced_group = OutsideWindow | NewWindow u16 | SeenGroup | FreshGroup

definition group_index :: "u16 \<Rightarrow> nat" where
  "group_index grp = unat (grp mod 1024)"

definition group_bit :: "u32 list \<Rightarrow> u16 \<Rightarrow> bool" where
  "group_bit window grp = has_flag (window ! (group_index grp div 32)) (push_bit (group_index grp mod 32) 1)"

definition set_group_bit :: "u16 \<Rightarrow> u32 list \<Rightarrow> u32 list" where
  "set_group_bit grp window =
     (let k = group_index grp div 32
      in window[k := set_flag (window ! k) (push_bit (group_index grp mod 32) 1)])"

definition classify_group :: "u16 \<Rightarrow> ENetPeer \<Rightarrow> unsequenced_group" where
  "classify_group received p =
     (let g = ucast received :: u32;
          index = g mod ENET_PEER_UNSEQUENCED_WINDOW_SIZE;
          g = (if g < ucast (p_incomingUnsequencedGroup p) then g + 0x10000 else g)
      in if g \<ge> ucast (p_incomingUnsequencedGroup p)
                 + ENET_PEER_FREE_UNSEQUENCED_WINDOWS * ENET_PEER_UNSEQUENCED_WINDOW_SIZE
         then OutsideWindow
         else
           (let g = g AND 0xFFFF
            in if g - index \<noteq> ucast (p_incomingUnsequencedGroup p) then NewWindow (ucast (g - index))
               else if group_bit (p_unsequencedWindow p) received then SeenGroup
               else FreshGroup))"

definition enet_protocol_handle_send_unsequenced ::
  "nat \<Rightarrow> ENetProtocol \<Rightarrow> u16 \<Rightarrow> nat \<Rightarrow> nat \<Rightarrow> ENetHost \<Rightarrow> (int \<times> nat) \<times> ENetHost" where
  "enet_protocol_handle_send_unsequenced i command grp dataLength pos h =
     (if \<not> may_receive (peer_at h i) command then ((- 1, 0), h)
      else if \<not> payload_fits h pos dataLength then ((- 1, dataLength), h)
      else
        (let c = classify_group grp (peer_at h i)
         in if c = OutsideWindow \<or> c = SeenGroup then ((0, dataLength), h)
            else
              (let h = (case c of
                          NewWindow base \<Rightarrow>
                            upd_peer i (\<lambda>p. p\<lparr>p_incomingUnsequencedGroup := base,
                                              p_unsequencedWindow := replicate 32 0\<rparr>) h
                        | _ \<Rightarrow> h);
                   (r, h) = enet_peer_queue_incoming_command i command
                     (Some (payload h pos dataLength)) dataLength ENET_PACKET_FLAG_UNSEQUENCED 0 h
               in if r = NullCommand then ((- 1, dataLength), h)
                  else ((0, dataLength),
                        upd_peer i (\<lambda>p. p\<lparr>p_unsequencedWindow :=
                          set_group_bit grp (p_unsequencedWindow p)\<rparr>) h))))"

section \<open>Fragments\<close>

text \<open>
  The backward search for the command that collects the fragments: found, in the way (a
  command with the same sequence numbers that does not match, \<open>return -1\<close>), or not queued
  yet.  The argument is the reversed list; \<open>matches\<close> is the test of the command's kind,
  length and number of fragments.
\<close>

datatype fragment_start = StartFound ENetIncomingCommand | StartMismatch | StartMissing

fun find_reliable_start ::
  "(ENetIncomingCommand \<Rightarrow> bool) \<Rightarrow> u16 \<Rightarrow> u16 \<Rightarrow> ENetIncomingCommand list \<Rightarrow> fragment_start" where
  "find_reliable_start matches R n [] = StartMissing"
| "find_reliable_start matches R n (ic # earlier) =
     (if n \<ge> R \<and> ic_reliableSequenceNumber ic < R then find_reliable_start matches R n earlier
      else if \<not> n \<ge> R \<and> ic_reliableSequenceNumber ic \<ge> R then StartMissing
      else if ic_reliableSequenceNumber ic \<le> n then
        (if ic_reliableSequenceNumber ic < n then StartMissing
         else if \<not> matches ic then StartMismatch else StartFound ic)
      else find_reliable_start matches R n earlier)"

fun find_unreliable_start ::
  "(ENetIncomingCommand \<Rightarrow> bool) \<Rightarrow> u16 \<Rightarrow> u16 \<Rightarrow> u16 \<Rightarrow> ENetIncomingCommand list \<Rightarrow> fragment_start" where
  "find_unreliable_start matches R n u [] = StartMissing"
| "find_unreliable_start matches R n u (ic # earlier) =
     (if n \<ge> R \<and> ic_reliableSequenceNumber ic < R then find_unreliable_start matches R n u earlier
      else if \<not> n \<ge> R \<and> ic_reliableSequenceNumber ic \<ge> R then StartMissing
      else if ic_reliableSequenceNumber ic < n then StartMissing
      else if ic_reliableSequenceNumber ic > n then find_unreliable_start matches R n u earlier
      else if ic_unreliableSequenceNumber ic \<le> u then
        (if ic_unreliableSequenceNumber ic < u then StartMissing
         else if \<not> matches ic then StartMismatch else StartFound ic)
      else find_unreliable_start matches R n u earlier)"

definition fragment_matches :: "'a memory_scheme \<Rightarrow> u8 \<Rightarrow> u32 \<Rightarrow> u32 \<Rightarrow> ENetIncomingCommand \<Rightarrow> bool" where
  "fragment_matches m number totalLength fragmentCount ic \<longleftrightarrow>
     \<not> (command_number (ic_command ic) \<noteq> number
        \<or> (case en_packets m (ic_packet ic) of None \<Rightarrow> True | Some pk \<Rightarrow> unat totalLength \<noteq> pk_dataLength pk)
        \<or> fragmentCount \<noteq> ic_fragmentCount ic)"

definition fragment_bit :: "u32 list \<Rightarrow> u32 \<Rightarrow> bool" where
  "fragment_bit fragments n = has_flag (fragments ! unat (n div 32)) (push_bit (unat (n mod 32)) 1)"

definition set_fragment_bit :: "u32 \<Rightarrow> u32 list \<Rightarrow> u32 list" where
  "set_fragment_bit n fragments =
     (let k = unat (n div 32) in fragments[k := set_flag (fragments ! k) (push_bit (unat (n mod 32)) 1)])"

text \<open>\<open>memcpy (data + offset, bytes, length bytes)\<close>\<close>

definition write_bytes :: "nat \<Rightarrow> u8 list \<Rightarrow> u8 option list \<Rightarrow> u8 option list" where
  "write_bytes offset bytes data =
     take offset data @ map Some bytes @ drop (offset + length bytes) data"

text \<open>
  The part after the command is found: what it does to the command and to its packet.  A
  fragment received before changes nothing.
\<close>

definition take_fragment ::
  "ENetProtocolSendFragment \<Rightarrow> u8 list \<Rightarrow> ENetIncomingCommand \<Rightarrow> ENetPacket
    \<Rightarrow> ENetIncomingCommand \<times> ENetPacket" where
  "take_fragment f bytes ic pk =
     (if fragment_bit (ic_fragments ic) (fr_fragmentNumber f) then (ic, pk)
      else
        (let fragmentLength = of_nat (length bytes) :: u32;
             fragmentLength =
               (if unat (fr_fragmentOffset f + fragmentLength) > pk_dataLength pk
                then of_nat (pk_dataLength pk) - fr_fragmentOffset f else fragmentLength)
         in (ic\<lparr>ic_fragmentsRemaining := ic_fragmentsRemaining ic - 1,
                ic_fragments := set_fragment_bit (fr_fragmentNumber f) (ic_fragments ic)\<rparr>,
             pk\<lparr>pk_data := write_bytes (unat (fr_fragmentOffset f))
                             (take (unat fragmentLength) bytes) (pk_data pk)\<rparr>)))"

text \<open>The command with an address, and the list with that command replaced.\<close>

definition find_command :: "nat \<Rightarrow> ENetIncomingCommand list \<Rightarrow> ENetIncomingCommand option" where
  "find_command addr ics = List.find (\<lambda>ic. ic_addr ic = addr) ics"

definition replace_command :: "ENetIncomingCommand \<Rightarrow> ENetIncomingCommand list \<Rightarrow> ENetIncomingCommand list" where
  "replace_command ic ics = map (\<lambda>x. if ic_addr x = ic_addr ic then ic else x) ics"

text \<open>
  The same on the host for the command at \<open>addr\<close> of the channel's reliable (\<open>True\<close>) or
  unreliable list, and the dispatch once the last fragment has arrived.
\<close>

definition receive_fragment ::
  "nat \<Rightarrow> u8 \<Rightarrow> bool \<Rightarrow> nat \<Rightarrow> ENetProtocolSendFragment \<Rightarrow> u8 list \<Rightarrow> ENetHost \<Rightarrow> ENetHost" where
  "receive_fragment i chan reliable addr f bytes h =
     (let ch = channel_at (peer_at h i) chan
      in case find_command addr (if reliable then ch_incomingReliableCommands ch
                                 else ch_incomingUnreliableCommands ch) of
           None \<Rightarrow> raise_fault h
         | Some ic \<Rightarrow>
             (case en_packets h (ic_packet ic) of
                None \<Rightarrow> raise_fault h
              | Some pk \<Rightarrow>
                  if fragment_bit (ic_fragments ic) (fr_fragmentNumber f) then h
                  else
                    (let (ic', pk') = take_fragment f bytes ic pk;
                         h = h\<lparr>en_packets := (en_packets h)(ic_packet ic \<mapsto> pk')\<rparr>;
                         h = upd_peer i (upd_channel chan (\<lambda>ch.
                               if reliable
                               then ch\<lparr>ch_incomingReliableCommands :=
                                      replace_command ic' (ch_incomingReliableCommands ch)\<rparr>
                               else ch\<lparr>ch_incomingUnreliableCommands :=
                                      replace_command ic' (ch_incomingUnreliableCommands ch)\<rparr>)) h
                     in if ic_fragmentsRemaining ic' \<le> 0 then
                          (if reliable then enet_peer_dispatch_incoming_reliable_commands i chan None h
                           else enet_peer_dispatch_incoming_unreliable_commands i chan None h)
                        else h)))"

text \<open>The sanity checks on the numbers of a fragment.\<close>

definition bad_fragment :: "ENetHost \<Rightarrow> ENetProtocolSendFragment \<Rightarrow> bool" where
  "bad_fragment h f \<longleftrightarrow>
     fr_fragmentCount f > ENET_PROTOCOL_MAXIMUM_FRAGMENT_COUNT
     \<or> fr_fragmentNumber f \<ge> fr_fragmentCount f
     \<or> unat (fr_totalLength f) > h_maximumPacketSize h
     \<or> fr_fragmentOffset f \<ge> fr_totalLength f
     \<or> ucast (fr_dataLength f) > fr_totalLength f - fr_fragmentOffset f"

definition enet_protocol_handle_send_fragment ::
  "nat \<Rightarrow> ENetProtocol \<Rightarrow> ENetProtocolSendFragment \<Rightarrow> nat \<Rightarrow> ENetHost \<Rightarrow> (int \<times> nat) \<times> ENetHost" where
  "enet_protocol_handle_send_fragment i command f pos h =
     (let dataLength = unat (fr_dataLength f); chan = hd_channelID command
      in if \<not> may_receive (peer_at h i) command then ((- 1, 0), h)
         else if dataLength \<le> 0 \<or> \<not> payload_fits h pos dataLength then ((- 1, dataLength), h)
         else
           (let ch = channel_at (peer_at h i) chan;
                start = fr_startSequenceNumber f;
                bytes = payload h pos dataLength
            in if outside_window start ch then ((0, dataLength), h)
               else if bad_fragment h f \<or> fr_totalLength f < fr_fragmentCount f then ((- 1, dataLength), h)
               else
                 (case find_reliable_start
                         (fragment_matches h ENET_PROTOCOL_COMMAND_SEND_FRAGMENT (fr_totalLength f) (fr_fragmentCount f))
                         (ch_incomingReliableSequenceNumber ch) start (rev (ch_incomingReliableCommands ch)) of
                    StartMismatch \<Rightarrow> ((- 1, dataLength), h)
                  | StartFound ic \<Rightarrow> ((0, dataLength), receive_fragment i chan True (ic_addr ic) f bytes h)
                  | StartMissing \<Rightarrow>
                      (case enet_peer_queue_incoming_command i (command\<lparr>hd_reliableSequenceNumber := start\<rparr>)
                              None (unat (fr_totalLength f)) ENET_PACKET_FLAG_RELIABLE (fr_fragmentCount f) h of
                         (QueuedCommand addr, h) \<Rightarrow> ((0, dataLength), receive_fragment i chan True addr f bytes h)
                       | (DummyCommand, h) \<Rightarrow> ((0, dataLength), raise_fault h)
                       | (NullCommand, h) \<Rightarrow> ((- 1, dataLength), h)))))"

definition enet_protocol_handle_send_unreliable_fragment ::
  "nat \<Rightarrow> ENetProtocol \<Rightarrow> ENetProtocolSendFragment \<Rightarrow> nat \<Rightarrow> ENetHost \<Rightarrow> (int \<times> nat) \<times> ENetHost" where
  "enet_protocol_handle_send_unreliable_fragment i command f pos h =
     (let dataLength = unat (fr_dataLength f); chan = hd_channelID command
      in if \<not> may_receive (peer_at h i) command then ((- 1, 0), h)
         else if \<not> payload_fits h pos dataLength then ((- 1, dataLength), h)
         else
           (let ch = channel_at (peer_at h i) chan;
                n = hd_reliableSequenceNumber command;
                start = fr_startSequenceNumber f;
                bytes = payload h pos dataLength
            in if outside_window n ch then ((0, dataLength), h)
               else if n = ch_incomingReliableSequenceNumber ch
                       \<and> start \<le> ch_incomingUnreliableSequenceNumber ch then ((0, dataLength), h)
               else if bad_fragment h f then ((- 1, dataLength), h)
               else
                 (case find_unreliable_start
                         (fragment_matches h ENET_PROTOCOL_COMMAND_SEND_UNRELIABLE_FRAGMENT
                            (fr_totalLength f) (fr_fragmentCount f))
                         (ch_incomingReliableSequenceNumber ch) n start
                         (rev (ch_incomingUnreliableCommands ch)) of
                    StartMismatch \<Rightarrow> ((- 1, dataLength), h)
                  | StartFound ic \<Rightarrow> ((0, dataLength), receive_fragment i chan False (ic_addr ic) f bytes h)
                  | StartMissing \<Rightarrow>
                      (case enet_peer_queue_incoming_command i command None (unat (fr_totalLength f))
                              ENET_PACKET_FLAG_UNRELIABLE_FRAGMENT (fr_fragmentCount f) h of
                         (QueuedCommand addr, h) \<Rightarrow> ((0, dataLength), receive_fragment i chan False addr f bytes h)
                       | (DummyCommand, h) \<Rightarrow> ((0, dataLength), raise_fault h)
                       | (NullCommand, h) \<Rightarrow> ((- 1, dataLength), h)))))"

section \<open>Commands about the connection\<close>

definition enet_protocol_handle_ping :: "nat \<Rightarrow> ENetHost \<Rightarrow> int" where
  "enet_protocol_handle_ping i h = (if counted (p_state (peer_at h i)) then 0 else - 1)"

definition enet_protocol_handle_bandwidth_limit :: "nat \<Rightarrow> u32 \<Rightarrow> u32 \<Rightarrow> ENetHost \<Rightarrow> int \<times> ENetHost" where
  "enet_protocol_handle_bandwidth_limit i incomingBandwidth outgoingBandwidth h =
     (if \<not> counted (p_state (peer_at h i)) then (- 1, h)
      else
        (let h = (if p_incomingBandwidth (peer_at h i) \<noteq> 0
                  then h\<lparr>h_bandwidthLimitedPeers := h_bandwidthLimitedPeers h - 1\<rparr> else h);
             h = upd_peer i (\<lambda>p. p\<lparr>p_incomingBandwidth := incomingBandwidth,
                                   p_outgoingBandwidth := outgoingBandwidth\<rparr>) h;
             h = (if p_incomingBandwidth (peer_at h i) \<noteq> 0
                  then h\<lparr>h_bandwidthLimitedPeers := h_bandwidthLimitedPeers h + 1\<rparr> else h)
         in (0, upd_peer i (\<lambda>p. p\<lparr>p_windowSize :=
                  peer_windowSize (p_incomingBandwidth p) (h_outgoingBandwidth h)\<rparr>) h)))"

definition enet_protocol_handle_throttle_configure :: "nat \<Rightarrow> u32 \<Rightarrow> u32 \<Rightarrow> u32 \<Rightarrow> ENetHost \<Rightarrow> int \<times> ENetHost" where
  "enet_protocol_handle_throttle_configure i interval acceleration deceleration h =
     (if \<not> counted (p_state (peer_at h i)) then (- 1, h)
      else (0, upd_peer i (\<lambda>p. p\<lparr>p_packetThrottleInterval := interval,
                                  p_packetThrottleAcceleration := acceleration,
                                  p_packetThrottleDeceleration := deceleration\<rparr>) h))"

definition enet_protocol_handle_disconnect :: "nat \<Rightarrow> ENetProtocol \<Rightarrow> u32 \<Rightarrow> ENetHost \<Rightarrow> int \<times> ENetHost" where
  "enet_protocol_handle_disconnect i command data h =
     (let state = p_state (peer_at h i)
      in if state = DISCONNECTED \<or> state = ZOMBIE \<or> state = ACKNOWLEDGING_DISCONNECT then (0, h)
         else
           (let h = enet_peer_reset_queues i h;
                h = (if state = CONNECTION_SUCCEEDED \<or> state = DISCONNECTING \<or> state = CONNECTING then
                       enet_protocol_dispatch_state i ZOMBIE h
                     else if state \<noteq> CONNECTED \<and> state \<noteq> DISCONNECT_LATER then
                       enet_peer_reset i
                         (if state = CONNECTION_PENDING then h\<lparr>h_recalculateBandwidthLimits := True\<rparr> else h)
                     else if has_flag (hd_command command) ENET_PROTOCOL_COMMAND_FLAG_ACKNOWLEDGE then
                       enet_protocol_change_state i ACKNOWLEDGING_DISCONNECT h
                     else enet_protocol_dispatch_state i ZOMBIE h)
            in (0, if p_state (peer_at h i) \<noteq> DISCONNECTED
                   then upd_peer i (\<lambda>p. p\<lparr>p_eventData := data\<rparr>) h else h)))"

text \<open>
  The sent time of an acknowledged command: the acknowledgement carries its low 16 bits, the
  high bits are those of the current time, one period back where the low bits are ahead.
\<close>

definition received_sent_time :: "u32 \<Rightarrow> u16 \<Rightarrow> u32" where
  "received_sent_time serviceTime t =
     (let r = ucast t OR (serviceTime AND 0xFFFF0000)
      in if r AND 0x8000 > serviceTime AND 0x8000 then r - 0x10000 else r)"

text \<open>The round trip time and its variance after a sample.\<close>

definition sample_round_trip :: "u32 \<Rightarrow> ENetPeer \<Rightarrow> ENetPeer" where
  "sample_round_trip roundTripTime p =
     (if p_lastReceiveTime p > 0 then
        (let p = snd (enet_peer_throttle roundTripTime p);
             variance = p_roundTripTimeVariance p - p_roundTripTimeVariance p div 4
         in if roundTripTime \<ge> p_roundTripTime p then
              (let diff = roundTripTime - p_roundTripTime p
               in p\<lparr>p_roundTripTimeVariance := variance + diff div 4,
                    p_roundTripTime := p_roundTripTime p + diff div 8\<rparr>)
            else
              (let diff = p_roundTripTime p - roundTripTime
               in p\<lparr>p_roundTripTimeVariance := variance + diff div 4,
                    p_roundTripTime := p_roundTripTime p - diff div 8\<rparr>))
      else
        p\<lparr>p_roundTripTime := roundTripTime, p_roundTripTimeVariance := (roundTripTime + 1) div 2\<rparr>)"

definition track_round_trip :: "u32 \<Rightarrow> ENetPeer \<Rightarrow> ENetPeer" where
  "track_round_trip serviceTime p =
     (let p = (if p_roundTripTime p < p_lowestRoundTripTime p
               then p\<lparr>p_lowestRoundTripTime := p_roundTripTime p\<rparr> else p);
          p = (if p_roundTripTimeVariance p > p_highestRoundTripTimeVariance p
               then p\<lparr>p_highestRoundTripTimeVariance := p_roundTripTimeVariance p\<rparr> else p);
          p = (if p_packetThrottleEpoch p = 0
                  \<or> ENET_TIME_DIFFERENCE serviceTime (p_packetThrottleEpoch p) \<ge> p_packetThrottleInterval p
               then p\<lparr>p_lastRoundTripTime := p_lowestRoundTripTime p,
                      p_lastRoundTripTimeVariance := ENET_MAX (p_highestRoundTripTimeVariance p) 1,
                      p_lowestRoundTripTime := p_roundTripTime p,
                      p_highestRoundTripTimeVariance := p_roundTripTimeVariance p,
                      p_packetThrottleEpoch := serviceTime\<rparr>
               else p)
      in p\<lparr>p_lastReceiveTime := ENET_MAX serviceTime 1, p_earliestTimeout := 0\<rparr>)"

definition enet_protocol_handle_acknowledge ::
  "nat \<Rightarrow> ENetEvent option \<Rightarrow> u8 \<Rightarrow> u16 \<Rightarrow> u16 \<Rightarrow> ENetHost \<Rightarrow> int \<times> ENetEvent option \<times> ENetHost" where
  "enet_protocol_handle_acknowledge i event channelID receivedNumber receivedTime h =
     (if p_state (peer_at h i) = DISCONNECTED \<or> p_state (peer_at h i) = ZOMBIE then (0, event, h)
      else
        (let sentTime = received_sent_time (h_serviceTime h) receivedTime
         in if ENET_TIME_LESS (h_serviceTime h) sentTime then (0, event, h)
            else
              (let roundTripTime = ENET_MAX (ENET_TIME_DIFFERENCE (h_serviceTime h) sentTime) 1;
                   h = upd_peer i (\<lambda>p. track_round_trip (h_serviceTime h) (sample_round_trip roundTripTime p)) h;
                   (number, h) = enet_protocol_remove_sent_reliable_command i receivedNumber channelID h
               in case p_state (peer_at h i) of
                    ACKNOWLEDGING_CONNECT \<Rightarrow>
                      (if number \<noteq> ENET_PROTOCOL_COMMAND_VERIFY_CONNECT then (- 1, event, h)
                       else (let (event, h) = enet_protocol_notify_connect i event h in (0, event, h)))
                  | DISCONNECTING \<Rightarrow>
                      (if number \<noteq> ENET_PROTOCOL_COMMAND_DISCONNECT then (- 1, event, h)
                       else (let (event, h) = enet_protocol_notify_disconnect i event h in (0, event, h)))
                  | DISCONNECT_LATER \<Rightarrow>
                      (0, event,
                       if \<not> enet_peer_has_outgoing_commands (peer_at h i)
                       then disconnect_delayed i (p_eventData (peer_at h i)) h else h)
                  | _ \<Rightarrow> (0, event, h))))"

definition adopt_verified :: "ENetProtocolVerifyConnect \<Rightarrow> ENetPeer \<Rightarrow> ENetPeer" where
  "adopt_verified c p =
     (let p = (if unat (vc_channelCount c) < p_channelCount p
               then p\<lparr>p_channelCount := unat (vc_channelCount c)\<rparr> else p);
          p = p\<lparr>p_outgoingPeerID := vc_outgoingPeerID c, p_incomingSessionID := vc_incomingSessionID c,
                p_outgoingSessionID := vc_outgoingSessionID c\<rparr>;
          p = (if clamp_mtu (vc_mtu c) < p_mtu p then p\<lparr>p_mtu := clamp_mtu (vc_mtu c)\<rparr> else p);
          p = (if clamp_windowSize (vc_windowSize c) < p_windowSize p
               then p\<lparr>p_windowSize := clamp_windowSize (vc_windowSize c)\<rparr> else p)
      in p\<lparr>p_incomingBandwidth := vc_incomingBandwidth c, p_outgoingBandwidth := vc_outgoingBandwidth c\<rparr>)"

definition bad_verify :: "ENetPeer \<Rightarrow> ENetProtocolVerifyConnect \<Rightarrow> bool" where
  "bad_verify p c \<longleftrightarrow>
     unat (vc_channelCount c) < ENET_PROTOCOL_MINIMUM_CHANNEL_COUNT
     \<or> unat (vc_channelCount c) > ENET_PROTOCOL_MAXIMUM_CHANNEL_COUNT
     \<or> vc_packetThrottleInterval c \<noteq> p_packetThrottleInterval p
     \<or> vc_packetThrottleAcceleration c \<noteq> p_packetThrottleAcceleration p
     \<or> vc_packetThrottleDeceleration c \<noteq> p_packetThrottleDeceleration p
     \<or> vc_connectID c \<noteq> p_connectID p"

definition enet_protocol_handle_verify_connect ::
  "nat \<Rightarrow> ENetEvent option \<Rightarrow> ENetProtocolVerifyConnect \<Rightarrow> ENetHost \<Rightarrow> int \<times> ENetEvent option \<times> ENetHost" where
  "enet_protocol_handle_verify_connect i event c h =
     (if p_state (peer_at h i) \<noteq> CONNECTING then (0, event, h)
      else if bad_verify (peer_at h i) c then
        (- 1, event, enet_protocol_dispatch_state i ZOMBIE (upd_peer i (\<lambda>p. p\<lparr>p_eventData := 0\<rparr>) h))
      else
        (let h = snd (enet_protocol_remove_sent_reliable_command i 1 0xFF h);
             h = upd_peer i (adopt_verified c) h;
             (event, h) = enet_protocol_notify_connect i event h
         in (0, event, h)))"

end
