(* ===== verification/Enet_Sending.thy ===== *)
theory Enet_Sending
  imports Enet_Peer
begin

text \<open>
  What \<open>enet_peer_send\<close> promises: the fragments of a packet cover it, sending returns and is all
  or nothing, reliable commands are numbered consecutively.  The fragment loop is compared with
  spans on natural numbers.  The packet throttle stays within its limit.
\<close>


section \<open>Fragmentation covers the packet\<close>

text \<open>
  The loop of \<open>enet_peer_send\<close> from the byte \<open>n\<close> of \<open>L\<close> with fragments of \<open>F\<close> bytes, as
  spans on natural numbers.
\<close>

function fragment_spans :: "nat \<Rightarrow> nat \<Rightarrow> nat \<Rightarrow> (nat \<times> nat) list" where
  "fragment_spans F L n =
     (if L \<le> n \<or> F = 0 then []
      else (n, min F (L - n)) # fragment_spans F L (n + min F (L - n)))"
  by auto
termination by (relation "measure (\<lambda>(F, L, n). L - n)") auto

declare fragment_spans.simps [simp del]

lemma fragment_spans_0 [simp]: "L \<le> n \<Longrightarrow> fragment_spans F L n = []"
  by (simp add: fragment_spans.simps)

lemma fragment_spans_short: "n < L \<Longrightarrow> L - n < F \<Longrightarrow> fragment_spans F L n = [(n, L - n)]"
  by (simp add: fragment_spans.simps [of F])

lemma concat_fragment_spans:
  "0 < F \<Longrightarrow> n \<le> length d \<Longrightarrow>
   concat (map (\<lambda>(off, len). take len (drop off d)) (fragment_spans F (length d) n)) = drop n d"
proof (induction F "length d" n rule: fragment_spans.induct)
  case (1 F n)
  show ?case
  proof (cases "length d \<le> n")
    case False
    let ?k = "min F (length d - n)"
    have "concat (map (\<lambda>(off, len). take len (drop off d)) (fragment_spans F (length d) (n + ?k))) = drop (n + ?k) d"
      using 1 False by auto
    moreover have "drop (n + ?k) d = drop ?k (drop n d)"
      by (simp add: add.commute)
    ultimately show ?thesis
      using False 1(2) by (subst fragment_spans.simps) (simp del: drop_drop)
  qed simp
qed

lemma length_fragment_spans:
  "0 < F \<Longrightarrow> length (fragment_spans F L n) = (L - n + F - 1) div F"
proof (induction F L n rule: fragment_spans.induct)
  case (1 F L n)
  show ?case
  proof (cases "L \<le> n")
    case False
    have "L - (n + min F (L - n)) + F - 1 = (L - n + F - 1) - F \<or> L - n \<le> F"
      by (cases "F \<le> L - n") auto
    moreover have "(L - n + F - 1) div F = Suc ((L - n + F - 1 - F) div F)"
      using False 1(2) by (simp add: le_div_geq)
    moreover have "(F - 1) div F = 0" "L - n \<le> F \<Longrightarrow> (L - n + F - 1 - F) div F = 0"
      using 1(2) by auto
    moreover have "L - n \<le> F \<Longrightarrow> L - (n + min F (L - n)) = 0"
      by auto
    ultimately show ?thesis
      using 1 False by (subst fragment_spans.simps) fastforce
  qed (use 1(2) in simp)
qed

lemma length_fragment_spans_le: "length (fragment_spans F L n) \<le> L - n"
proof (induction F L n rule: fragment_spans.induct)
  case (1 F L n)
  then show ?case by (subst fragment_spans.simps) fastforce
qed

lemma fragment_spans_len:
  "(off, len) \<in> set (fragment_spans F L n) \<Longrightarrow> 0 < len \<and> len \<le> F \<and> n \<le> off \<and> off + len \<le> L"
proof (induction F L n rule: fragment_spans.induct)
  case (1 F L n)
  show ?case
  proof (cases "L \<le> n \<or> F = 0")
    case True
    then show ?thesis using 1(2) by (subst (asm) fragment_spans.simps) simp
  next
    case False
    then have "(off, len) = (n, min F (L - n)) \<or> (off, len) \<in> set (fragment_spans F L (n + min F (L - n)))"
      using 1(2) by (subst (asm) fragment_spans.simps) simp
    then show ?thesis using 1(1) [OF False] False by auto
  qed
qed

text \<open>The outgoing commands of a list of spans, numbered from \<open>k\<close>.\<close>

fun span_commands ::
  "nat \<Rightarrow> (u32 \<Rightarrow> u32 \<Rightarrow> u64 \<Rightarrow> ENetProtocol) \<Rightarrow> nat \<Rightarrow> (nat \<times> nat) list \<Rightarrow> ENetOutgoingCommand list" where
  "span_commands packet command k [] = []"
| "span_commands packet command k ((off, len) # spans) =
     new_outgoing_command (command (of_nat k) (of_nat off) (of_nat len)) (Some packet) (of_nat off) (of_nat len)
     # span_commands packet command (Suc k) spans"

lemma length_span_commands [simp]: "length (span_commands p c k spans) = length spans"
  by (induction p c k spans rule: span_commands.induct) auto

lemma fragment_loop_done:
  assumes "L < 2 ^ 32" "L \<le> n" "n < 2 ^ 32"
  shows "fragment_loop (of_nat L) packet c F k (of_nat n) frs h = Some (Inr (k, frs), h)"
  using assms by (subst fragment_loop.simps) (simp add: ucast_of_nat_small of_nat_less_iff)

text \<open>
  With every allocation succeeding the loop makes the commands of the spans: the offset never
  wraps, as the last fragment is shortened to what is left.
\<close>

lemma fragment_loop_step:
  assumes "L < 2 ^ 32" "n < L" "0 < F" "F < 2 ^ 16"
  shows "fragment_loop (of_nat L) packet c (of_nat F) k (of_nat n) frs h =
    (case fst (enet_malloc h) of
       None \<Rightarrow> Some (Inl (), snd (enet_malloc h))
     | Some _ \<Rightarrow> fragment_loop (of_nat L) packet c (of_nat (min F (L - n))) (k + 1) (of_nat (n + min F (L - n)))
         (frs @ [new_outgoing_command (c k (of_nat n) (of_nat (min F (L - n)))) (Some packet)
                   (of_nat n) (of_nat (min F (L - n)))]) (snd (enet_malloc h)))"
proof -
  let ?k = "min F (L - n)"
  have lt: "(ucast (of_nat n :: u32) :: u64) < of_nat L"
    using assms by (simp add: ucast_of_nat_small of_nat_less_iff)
  have sub: "(of_nat L :: u64) - ucast (of_nat n :: u32) = of_nat (L - n)"
    using assms by (simp add: ucast_of_nat_small of_nat_diff)
  have mn: "(if (of_nat (L - n) :: u64) < of_nat F then of_nat (L - n) else of_nat F) = (of_nat ?k :: u64)"
    using assms by (simp add: of_nat_less_iff min_def del: of_nat_diff)
  have off: "ucast (ucast (of_nat n :: u32) + of_nat ?k :: u64) = (of_nat (n + ?k) :: u32)"
    using assms by (simp add: ucast_of_nat_small del: of_nat_add flip: of_nat_add)
  have frag: "ucast (of_nat ?k :: u64) = (of_nat ?k :: u16)"
    using assms by (simp add: ucast_of_nat_small)
  show ?thesis
    by (subst fragment_loop.simps) (simp only: lt sub mn off frag Let_def not_True_eq_False if_False simp_thms)
qed

abbreviation (input) span_command ::
  "nat \<Rightarrow> (u32 \<Rightarrow> u32 \<Rightarrow> u64 \<Rightarrow> ENetProtocol) \<Rightarrow> u32 \<Rightarrow> nat \<Rightarrow> nat \<Rightarrow> ENetOutgoingCommand" where
  "span_command packet c k off len \<equiv>
     new_outgoing_command (c k (of_nat off) (of_nat len)) (Some packet) (of_nat off) (of_nat len)"

lemma fragment_loop_full:
  assumes "L < 2 ^ 32" "n + F \<le> L" "0 < F" "F < 2 ^ 16" "en_malloc h (en_next h)"
  shows "fragment_loop (of_nat L) packet c (of_nat F) k (of_nat n) frs h =
    fragment_loop (of_nat L) packet c (of_nat F) (k + 1) (of_nat (n + F))
      (frs @ [span_command packet c k n F]) (h\<lparr>en_next := Suc (en_next h)\<rparr>)"
proof -
  have k: "min F (L - n) = F" and n: "n < L" using assms by auto
  show ?thesis
    using fragment_loop_step [OF assms(1) n assms(3,4), of packet c k frs h, unfolded k] assms(5)
    by (simp add: enet_malloc_def Let_def)
qed

lemma fragment_loop_last:
  assumes "L < 2 ^ 32" "n < L" "L < n + F" "F < 2 ^ 16" "en_malloc h (en_next h)"
  shows "fragment_loop (of_nat L) packet c (of_nat F) k (of_nat n) frs h =
    Some (Inr (k + 1, frs @ [span_command packet c k n (L - n)]), h\<lparr>en_next := Suc (en_next h)\<rparr>)"
proof -
  have k: "min F (L - n) = L - n" and F: "0 < F" and L: "n + (L - n) = L" using assms by auto
  have "fragment_loop (of_nat L) packet c (of_nat F) k (of_nat n) frs h =
      fragment_loop (of_nat L) packet c (of_nat (L - n)) (k + 1) (of_nat L)
        (frs @ [span_command packet c k n (L - n)]) (h\<lparr>en_next := Suc (en_next h)\<rparr>)"
    using fragment_loop_step [OF assms(1,2) F assms(4), of packet c k frs h, unfolded k L] assms(5)
    by (simp add: enet_malloc_def Let_def)
  then show ?thesis
    using assms(1) by (simp only: fragment_loop_done order_refl)
qed

lemma fragment_loop_fail:
  assumes "L < 2 ^ 32" "n < L" "0 < F" "F < 2 ^ 16" "\<not> en_malloc h (en_next h)"
  shows "fragment_loop (of_nat L) packet c (of_nat F) k (of_nat n) frs h =
    Some (Inl (), h\<lparr>en_next := Suc (en_next h)\<rparr>)"
  using fragment_loop_step [OF assms(1-4), of packet c k frs h] assms(5)
  by (simp add: enet_malloc_def Let_def)

text \<open>
  Whatever the allocator does, the loop ends.  With every allocation succeeding it makes the
  commands of the spans: the offset never wraps, as the last fragment is shortened to what is
  left.  Where it gives up, only allocations were made.
\<close>

lemma fragment_spans_full: "0 < F \<Longrightarrow> n + F \<le> L \<Longrightarrow> fragment_spans F L n = (n, F) # fragment_spans F L (n + F)"
  by (subst fragment_spans.simps) (auto simp: min_def)

lemma fragment_loop_spans:
  assumes "L < 2 ^ 32" "n \<le> L" "0 < F" "F < 2 ^ 16"
  shows "\<exists>r j. fragment_loop (of_nat L) packet c (of_nat F) (of_nat k) (of_nat n) frs h
      = Some (r, h\<lparr>en_next := en_next h + j\<rparr>)
    \<and> (r = Inl () \<and> (\<exists>m. \<not> en_malloc h m)
       \<or> r = Inr (of_nat (k + length (fragment_spans F L n)),
                   frs @ span_commands packet c k (fragment_spans F L n)))"
  using assms
proof (induction F L n arbitrary: k frs h rule: fragment_spans.induct)
  case (1 F L n)
  let ?h = "h\<lparr>en_next := Suc (en_next h)\<rparr>"
  consider (stop) "n = L" | (fail) "n < L" "\<not> en_malloc h (en_next h)"
    | (full) "n + F \<le> L" "en_malloc h (en_next h)" | (last) "n < L" "L < n + F" "en_malloc h (en_next h)"
    using 1(3) by linarith
  then show ?case
  proof cases
    case stop
    then show ?thesis using 1(2) by (auto simp: fragment_loop_done intro: exI [of _ 0])
  next
    case fail
    then show ?thesis
      using 1(4,5) by (intro exI [of _ "Inl ()"] exI [of _ 1]) (auto simp: fragment_loop_fail [OF 1(2)])
  next
    case last
    then show ?thesis
      using 1(5) by (intro exI [of _ "Inr (of_nat (Suc k), frs @ [span_command packet c (of_nat k) n (L - n)])"] exI [of _ 1])
        (auto simp: fragment_loop_last [OF 1(2)] fragment_spans_short add.commute [of 1] simp del: of_nat_diff)
  next
    case full
    then have k: "min F (L - n) = F" and notdone: "\<not> (L \<le> n \<or> F = 0)" using 1(4) by auto
    obtain r j where
      "fragment_loop (of_nat L) packet c (of_nat F) (of_nat (Suc k)) (of_nat (n + F))
         (frs @ [span_command packet c (of_nat k) n F]) ?h = Some (r, ?h\<lparr>en_next := en_next ?h + j\<rparr>)"
      "r = Inl () \<and> (\<exists>m. \<not> en_malloc ?h m)
       \<or> r = Inr (of_nat (Suc k + length (fragment_spans F L (n + F))),
          (frs @ [span_command packet c (of_nat k) n F]) @ span_commands packet c (Suc k) (fragment_spans F L (n + F)))"
      using 1(1) [OF notdone 1(2), unfolded k, OF full(1) 1(4,5)] by blast
    then show ?thesis
      using 1(4,5) full fragment_loop_full [OF 1(2) full(1) 1(4,5) full(2), of packet c "of_nat k" frs]
      by (intro exI [of _ r] exI [of _ "Suc j"]) (auto simp: fragment_spans_full add.commute [of 1])
  qed
qed

lemma span_commands_nth:
  "j < length spans \<Longrightarrow> span_commands packet c k spans ! j
     = span_command packet c (of_nat (k + j)) (fst (spans ! j)) (snd (spans ! j))"
proof (induction packet c k spans arbitrary: j rule: span_commands.induct)
  case (2 packet c k off len spans)
  then show ?case by (cases j) simp_all
qed simp

lemma concat_span_commands:
  assumes "\<forall>(off, len) \<in> set spans. off < 2 ^ 32 \<and> len < 2 ^ 16"
  shows "concat (map (\<lambda>oc. take (unat (oc_fragmentLength oc)) (drop (unat (oc_fragmentOffset oc)) d))
      (span_commands packet c k spans)) = concat (map (\<lambda>(off, len). take len (drop off d)) spans)"
  using assms
  by (induction packet c k spans rule: span_commands.induct)
     (auto simp: new_outgoing_command_def unat_of_nat_small)

text \<open>C12: The fragments \<open>enet_peer_send\<close> cuts a packet into are numbered consecutively from 0, their
  number is the announced fragment count, none is longer than the fragment length, and their bytes
  laid end to end are exactly the bytes of the packet.\<close>

theorem fragments_cover_packet:
  assumes "\<forall>m. en_malloc h m" "length d < 2 ^ 32" "0 < F" "F < 2 ^ 16"
  shows "\<exists>frs h'. fragment_loop (of_nat (length d)) packet c (of_nat F) 0 0 [] h
        = Some (Inr (of_nat (length frs), frs), h')
    \<and> length frs = (length d + F - 1) div F
    \<and> concat (map (\<lambda>oc. take (unat (oc_fragmentLength oc)) (drop (unat (oc_fragmentOffset oc)) d)) frs) = d
    \<and> (\<forall>k < length frs. unat (oc_fragmentLength (frs ! k)) \<le> F \<and> oc_packet (frs ! k) = Some packet
         \<and> oc_command (frs ! k) = c (of_nat k) (oc_fragmentOffset (frs ! k)) (ucast (oc_fragmentLength (frs ! k))))"
proof -
  let ?spans = "fragment_spans F (length d) 0"
  let ?frs = "span_commands packet c 0 ?spans"
  obtain h' where run: "fragment_loop (of_nat (length d)) packet c (of_nat F) 0 0 [] h
      = Some (Inr (of_nat (length ?frs), ?frs), h')"
    using fragment_loop_spans [OF assms(2) _ assms(3,4), of 0 packet c 0 "[]" h] assms(1) by auto
  have small: "off < 2 ^ 32 \<and> len < 2 ^ 16 \<and> len \<le> F" if "(off, len) \<in> set ?spans" for off len
    using fragment_spans_len [OF that] assms by auto
  have "concat (map (\<lambda>oc. take (unat (oc_fragmentLength oc)) (drop (unat (oc_fragmentOffset oc)) d)) ?frs) = d"
    using concat_fragment_spans [OF assms(3), of 0 d] small by (subst concat_span_commands) auto
  moreover have "unat (oc_fragmentLength (?frs ! k)) \<le> F \<and> oc_packet (?frs ! k) = Some packet
      \<and> oc_command (?frs ! k) = c (of_nat k) (oc_fragmentOffset (?frs ! k)) (ucast (oc_fragmentLength (?frs ! k)))"
    if "k < length ?frs" for k
  proof -
    have "?spans ! k \<in> set ?spans" using that by simp
    then have "snd (?spans ! k) < 2 ^ 16" "snd (?spans ! k) \<le> F"
      using small [of "fst (?spans ! k)" "snd (?spans ! k)"] by auto
    then show ?thesis
      using that by (simp add: span_commands_nth new_outgoing_command_def unat_of_nat_small ucast_of_nat_small)
  qed
  moreover have "length ?frs = (length d + F - 1) div F"
    by (simp add: length_fragment_spans [OF assms(3)])
  ultimately show ?thesis using run by blast
qed

theorem fragments_cover_packet_witness:
  "\<exists>frs h'. fragment_loop 5 7 (\<lambda>n off len. fragment_command 8 0 1 3 5 n off len) 2 0 0 [] (sample_host [])
      = Some (Inr (of_nat (length frs), frs), h') \<and> length frs = 3"
proof -
  have "\<forall>m. en_malloc (sample_host []) m" by (simp add: sample_host_def)
  from fragments_cover_packet [OF this, of "[1, 2, 3, 4, 5 :: u8]" 2 7 "\<lambda>n off len. fragment_command 8 0 1 3 5 n off len"]
  show ?thesis
    by (simp add: numeral_3_eq_3, elim exE conjE) (intro exI conjI, assumption+)
qed

section \<open>Sending is all or nothing\<close>

text \<open>The two ways to send a fragment: the command and its start sequence number.\<close>

definition fragment_start :: "nat \<Rightarrow> u8 \<Rightarrow> ENetHost \<Rightarrow> u8 \<Rightarrow> u16 \<Rightarrow> bool" where
  "fragment_start i channelID h command start \<longleftrightarrow>
     command = ENET_PROTOCOL_COMMAND_SEND_FRAGMENT OR ENET_PROTOCOL_COMMAND_FLAG_ACKNOWLEDGE
       \<and> start = ch_outgoingReliableSequenceNumber (channel_at (peer_at h i) channelID) + 1
     \<or> command = ENET_PROTOCOL_COMMAND_SEND_UNRELIABLE_FRAGMENT
       \<and> start = ch_outgoingUnreliableSequenceNumber (channel_at (peer_at h i) channelID) + 1"

definition fragments_of :: "u8 \<Rightarrow> u8 \<Rightarrow> u16 \<Rightarrow> nat \<Rightarrow> nat \<Rightarrow> nat \<Rightarrow> ENetOutgoingCommand list" where
  "fragments_of command channelID start F L packet =
     span_commands packet (fragment_command command channelID start
       (ucast ((of_nat L + of_nat F - 1) div of_nat F :: u64)) (of_nat L)) 0 (fragment_spans F L 0)"

lemma send_fragments_returns:
  assumes "pk_dataLength pk < 2 ^ 32" "0 < F" "F < 2 ^ 16"
  shows "(\<exists>j. send_fragments i channelID packet pk (of_nat F) h = Some (- 1, h\<lparr>en_next := en_next h + j\<rparr>))
    \<or> (\<exists>command start j. fragment_start i channelID h command start \<and>
          send_fragments i channelID packet pk (of_nat F) h
            = Some (0, fold (enet_peer_setup_outgoing_command i)
                (fragments_of command channelID start F (pk_dataLength pk) packet)
                (packet_addref (of_nat (length (fragment_spans F (pk_dataLength pk) 0))) packet
                  (h\<lparr>en_next := en_next h + j\<rparr>))))"
    (is "?fail \<or> ?sent")
proof -
  let ?L = "of_nat (pk_dataLength pk) :: u64"
  let ?count = "ucast ((?L + of_nat F - 1) div of_nat F) :: u32"
  have len: "length (fragment_spans F (pk_dataLength pk) 0) < 2 ^ 32"
    using length_fragment_spans_le [of F "pk_dataLength pk" 0] assms by simp
  obtain command start where run: "fragment_start i channelID h command start"
    "?count \<le> ENET_PROTOCOL_MAXIMUM_FRAGMENT_COUNT \<Longrightarrow>
      send_fragments i channelID packet pk (of_nat F) h =
       (case fragment_loop ?L packet (fragment_command command channelID start ?count ?L) (of_nat F) 0 0 [] h of
                 None \<Rightarrow> None
               | Some (Inl _, h) \<Rightarrow> Some (- 1, h)
               | Some (Inr (fragmentNumber, fragments), h) \<Rightarrow>
                   Some (0, fold (enet_peer_setup_outgoing_command i) fragments
                              (packet_addref (ucast fragmentNumber) packet h)))"
  proof (cases "pk_flags pk AND (ENET_PACKET_FLAG_RELIABLE OR ENET_PACKET_FLAG_UNRELIABLE_FRAGMENT)
                    = ENET_PACKET_FLAG_UNRELIABLE_FRAGMENT
                  \<and> ch_outgoingUnreliableSequenceNumber (channel_at (peer_at h i) channelID) < 0xFFFF")
    case True
    then show thesis
      by (intro that [of ENET_PROTOCOL_COMMAND_SEND_UNRELIABLE_FRAGMENT
            "ch_outgoingUnreliableSequenceNumber (channel_at (peer_at h i) channelID) + 1"])
         (simp add: fragment_start_def, simp only: send_fragments_def Let_def if_False if_True prod.case simp_thms,
          rule if_not_P, simp only: not_less)
  next
    case False
    then show thesis
      by (intro that [of "ENET_PROTOCOL_COMMAND_SEND_FRAGMENT OR ENET_PROTOCOL_COMMAND_FLAG_ACKNOWLEDGE"
            "ch_outgoingReliableSequenceNumber (channel_at (peer_at h i) channelID) + 1"])
         (simp add: fragment_start_def, simp only: send_fragments_def Let_def if_False if_True prod.case simp_thms,
          rule if_not_P, simp only: not_less)
  qed
  show ?thesis
  proof (cases "?count \<le> ENET_PROTOCOL_MAXIMUM_FRAGMENT_COUNT")
    case True
    obtain r j where
      loop: "fragment_loop ?L packet (fragment_command command channelID start ?count ?L) (of_nat F) 0 0 [] h
        = Some (r, h\<lparr>en_next := en_next h + j\<rparr>)"
      "r = Inl () \<or> r = Inr (of_nat (length (fragment_spans F (pk_dataLength pk) 0)),
        fragments_of command channelID start F (pk_dataLength pk) packet)"
      using fragment_loop_spans [OF assms(1) _ assms(2,3), of 0 packet _ 0 "[]" h]
      unfolding fragments_of_def by fastforce
    from loop(2) show ?thesis
    proof
      assume "r = Inl ()"
      then have ?fail using run(2) [OF True] loop(1) by auto
      then show ?thesis ..
    next
      assume "r = Inr (of_nat (length (fragment_spans F (pk_dataLength pk) 0)),
        fragments_of command channelID start F (pk_dataLength pk) packet)"
      then have ?sent using run(1) run(2) [OF True] loop(1) len
        by (intro exI [of _ command] exI [of _ start] exI [of _ j]) (simp add: ucast_of_nat_small)
      then show ?thesis ..
    qed
  next
    case False
    then have ?fail by (intro exI [of _ 0]) (simp add: send_fragments_def not_le)
    then show ?thesis ..
  qed
qed

lemma send_fragment_length_range:
  assumes "ENET_PROTOCOL_MINIMUM_MTU \<le> p_mtu (peer_at h i)" "p_mtu (peer_at h i) \<le> ENET_PROTOCOL_MAXIMUM_MTU"
  obtains F where "send_fragment_length i h = of_nat F" "0 < F" "F < 2 ^ 16"
proof -
  have m: "576 \<le> unat (p_mtu (peer_at h i))" "unat (p_mtu (peer_at h i)) \<le> 4096"
    using assms by (simp_all add: word_le_nat_alt)
  have u: "(ucast (p_mtu (peer_at h i)) :: u64) = of_nat (unat (p_mtu (peer_at h i)))"
    by (simp only: of_nat_unat)
  have d: "send_fragment_length i h = of_nat (unat (p_mtu (peer_at h i)) - (if h_checksum h = None then 28 else 32))"
    using m unfolding send_fragment_length_def u Let_def by (simp add: of_nat_diff del: of_nat_unat)
  show thesis
    by (rule that [OF d]) (use m in auto)
qed

lemma malloc_cases:
  "enet_malloc m = (if en_malloc m (en_next m) then (Some (en_next m), m\<lparr>en_next := Suc (en_next m)\<rparr>)
     else (None, m\<lparr>en_next := Suc (en_next m)\<rparr>))"
  by (simp add: enet_malloc_def Let_def)

text \<open>What a successful send queues: one command, or the fragments.\<close>

lemma enet_peer_send_cases:
  assumes "ENET_PROTOCOL_MINIMUM_MTU \<le> p_mtu (peer_at h i)" "p_mtu (peer_at h i) \<le> ENET_PROTOCOL_MAXIMUM_MTU"
    "en_packets h packet = Some pk" "pk_dataLength pk < 2 ^ 32"
  shows "(\<exists>j. enet_peer_send i channelID packet h = Some (- 1, h\<lparr>en_next := en_next h + j\<rparr>))
    \<or> p_state (peer_at h i) = CONNECTED \<and> unat channelID < p_channelCount (peer_at h i) \<and>
      (\<exists>n j ocs. 0 < n \<and> n < 2 ^ 32 \<and> length ocs = n
         \<and> (\<forall>oc \<in> set ocs. oc_packet oc = Some packet \<and> hd_channelID (oc_command oc) = channelID)
         \<and> ((\<exists>command start F. fragment_start i channelID h command start
               \<and> ocs = fragments_of command channelID start F (pk_dataLength pk) packet)
            \<or> ocs = [new_outgoing_command (send_command channelID pk (channel_at (peer_at h i) channelID))
                       (Some packet) 0 (of_nat (pk_dataLength pk))])
         \<and> enet_peer_send i channelID packet h
           = Some (0, fold (enet_peer_setup_outgoing_command i) ocs
               (packet_addref (of_nat n) packet (h\<lparr>en_next := en_next h + j\<rparr>))))"
    (is "?fail \<or> _ \<and> _ \<and> ?sent")
proof -
  obtain F where F: "send_fragment_length i h = of_nat F" "0 < F" "F < 2 ^ 16"
    using send_fragment_length_range [OF assms(1,2)] by blast
  show ?thesis
  proof (cases "p_state (peer_at h i) \<noteq> CONNECTED \<or> unat channelID \<ge> p_channelCount (peer_at h i)
             \<or> pk_dataLength pk > h_maximumPacketSize h")
    case True
    then have ?fail using assms(3) by (intro exI [of _ 0]) (auto simp: enet_peer_send_def)
    then show ?thesis ..
  next
    case ready: False
    show ?thesis
    proof (cases "(of_nat (pk_dataLength pk) :: u64) > of_nat F")
      case True
      then have eq: "enet_peer_send i channelID packet h = send_fragments i channelID packet pk (of_nat F) h"
        using ready assms(3) F(1) by (simp add: enet_peer_send_def)
      have "F < pk_dataLength pk"
        using True F(3) assms(4) by (simp add: of_nat_less_iff)
      then have "0 < length (fragment_spans F (pk_dataLength pk) 0)"
        using F(2) by (subst fragment_spans.simps) simp
      moreover have "length (fragment_spans F (pk_dataLength pk) 0) < 2 ^ 32"
        using length_fragment_spans_le [of F "pk_dataLength pk" 0] assms(4) by simp
      moreover have "\<forall>oc \<in> set (fragments_of command channelID start F (pk_dataLength pk) packet).
          oc_packet oc = Some packet \<and> hd_channelID (oc_command oc) = channelID" for command start
        by (auto simp: fragments_of_def in_set_conv_nth span_commands_nth new_outgoing_command_def
            fragment_command_def Let_def)
      moreover have "length (fragments_of command channelID start F (pk_dataLength pk) packet)
          = length (fragment_spans F (pk_dataLength pk) 0)" for command start
        by (simp add: fragments_of_def)
      ultimately show ?thesis
        using send_fragments_returns [OF assms(4) F(2,3), of i channelID packet h] ready
        unfolding eq by (metis (no_types, lifting) not_le)
    next
      case False
      then have eq: "enet_peer_send i channelID packet h =
        (case enet_peer_queue_outgoing_command i
                    (send_command channelID pk (channel_at (peer_at h i) channelID))
                    (Some packet) 0 (of_nat (pk_dataLength pk)) h of
               (None, h) \<Rightarrow> Some (- 1, h)
             | (Some _, h) \<Rightarrow> Some (0, h))"
        using ready assms(3) F(1) by (simp add: enet_peer_send_def)
      have chan: "hd_channelID (send_command channelID pk ch) = channelID" for ch
        by (simp add: send_command_def Let_def)
      show ?thesis
      proof (cases "en_malloc h (en_next h)")
        case True
        let ?oc = "new_outgoing_command (send_command channelID pk (channel_at (peer_at h i) channelID))
                     (Some packet) 0 (of_nat (pk_dataLength pk))"
        have "?sent"
          using True chan unfolding eq
          by (intro exI [of _ "1"] exI [of _ 1] exI [of _ "[?oc]"])
             (simp add: enet_peer_queue_outgoing_command_def malloc_cases Let_def, simp add: new_outgoing_command_def)
        then show ?thesis using ready by simp
      next
        case False
        then have ?fail unfolding eq
          by (intro exI [of _ 1]) (simp add: enet_peer_queue_outgoing_command_def malloc_cases)
        then show ?thesis ..
      qed
    qed
  qed
qed

text \<open>C17: \<open>enet_peer_send\<close> always returns, and it is all or nothing: it returns 0, or it returns -1 and
  apart from allocations that were freed again the host, its peers and the packet are as before.\<close>

theorem send_returns_all_or_nothing:
  assumes "ENET_PROTOCOL_MINIMUM_MTU \<le> p_mtu (peer_at h i)" "p_mtu (peer_at h i) \<le> ENET_PROTOCOL_MAXIMUM_MTU"
    "en_packets h packet = Some pk" "pk_dataLength pk < 2 ^ 32"
  shows "\<exists>r h'. enet_peer_send i channelID packet h = Some (r, h')
    \<and> (r = 0 \<or> r = - 1 \<and> (\<exists>j. h' = h\<lparr>en_next := en_next h + j\<rparr>))"
  using enet_peer_send_cases [OF assms, of channelID] by blast

theorem send_returns_all_or_nothing_witness:
  "\<exists>r h'. enet_peer_send 0 0 7 (sample_host [sample_peer]) = Some (r, h') \<and> (r = 0 \<or> r = - 1)"
  using send_returns_all_or_nothing [of "sample_host [sample_peer]" 0 7 _ 0]
  by (fastforce simp: sample_host_def sample_peer_def peer_at_def)

lemma channels_setup [simp]:
  "length (p_channels (setup_outgoing_command queued oc p)) = length (p_channels p)"
  "p_channelCount (setup_outgoing_command queued oc p) = p_channelCount p"
  by (simp_all add: setup_outgoing_command_def number_outgoing_command_def Let_def upd_channel_def case_prod_beta)

lemma setup_frame:
  assumes "i < length (h_peers h)"
    "hd_channelID (oc_command oc) \<noteq> 0xFF \<longrightarrow> unat (hd_channelID (oc_command oc)) < length (p_channels (peer_at h i))"
  shows "\<exists>q. peer_at (enet_peer_setup_outgoing_command i oc h) i = setup_outgoing_command q oc (peer_at h i)"
    "j \<noteq> i \<Longrightarrow> peer_at (enet_peer_setup_outgoing_command i oc h) j = peer_at h j"
    "length (h_peers (enet_peer_setup_outgoing_command i oc h)) = length (h_peers h)"
    "en_packets (enet_peer_setup_outgoing_command i oc h) = en_packets h"
    "en_fault (enet_peer_setup_outgoing_command i oc h) = en_fault h"
  using assms by (auto simp: enet_peer_setup_outgoing_command_def Let_def peer_at_def upd_peer_def)

section \<open>The sequence numbers of reliable commands\<close>

lemma setup_reliable:
  assumes "hd_channelID (oc_command oc) = c" "c \<noteq> 0xFF" "unat c < length (p_channels p)"
    "has_flag (hd_command (oc_command oc)) ENET_PROTOCOL_COMMAND_FLAG_ACKNOWLEDGE" "oc_packet oc \<noteq> None"
  shows "\<exists>oc'. p_outgoingSendReliableCommands (setup_outgoing_command q oc p) = p_outgoingSendReliableCommands p @ [oc']
    \<and> oc_reliableSequenceNumber oc' = ch_outgoingReliableSequenceNumber (channel_at p c) + 1
    \<and> hd_reliableSequenceNumber (oc_command oc') = oc_reliableSequenceNumber oc'
    \<and> oc_packet oc' = oc_packet oc \<and> oc_fragmentOffset oc' = oc_fragmentOffset oc \<and> oc_fragmentLength oc' = oc_fragmentLength oc
    \<and> (\<exists>u g. pr_body (oc_command oc') = number_body u g (pr_body (oc_command oc)))"
    and "ch_outgoingReliableSequenceNumber (channel_at (setup_outgoing_command q oc p) c)
      = ch_outgoingReliableSequenceNumber (channel_at p c) + 1"
  using assms
  by (auto simp: setup_outgoing_command_def number_outgoing_command_def Let_def upd_channel_def channel_at_def)

lemma fold_setup_reliable:
  assumes "i < length (h_peers h)" "c \<noteq> 0xFF" "unat c < length (p_channels (peer_at h i))"
    "\<forall>oc \<in> set ocs. hd_channelID (oc_command oc) = c \<and> oc_packet oc \<noteq> None
       \<and> has_flag (hd_command (oc_command oc)) ENET_PROTOCOL_COMMAND_FLAG_ACKNOWLEDGE"
  shows "\<exists>new. p_outgoingSendReliableCommands (peer_at (fold (enet_peer_setup_outgoing_command i) ocs h) i)
        = p_outgoingSendReliableCommands (peer_at h i) @ new \<and> length new = length ocs
    \<and> (\<forall>k < length ocs.
        oc_reliableSequenceNumber (new ! k)
          = ch_outgoingReliableSequenceNumber (channel_at (peer_at h i) c) + 1 + of_nat k
        \<and> hd_reliableSequenceNumber (oc_command (new ! k)) = oc_reliableSequenceNumber (new ! k)
        \<and> oc_packet (new ! k) = oc_packet (ocs ! k) \<and> oc_fragmentOffset (new ! k) = oc_fragmentOffset (ocs ! k)
        \<and> oc_fragmentLength (new ! k) = oc_fragmentLength (ocs ! k)
        \<and> (\<exists>u g. pr_body (oc_command (new ! k)) = number_body u g (pr_body (oc_command (ocs ! k)))))"
  using assms
proof (induction ocs arbitrary: h)
  case (Cons oc ocs)
  let ?h = "enet_peer_setup_outgoing_command i oc h"
  have chan: "hd_channelID (oc_command oc) \<noteq> 0xFF \<longrightarrow> unat (hd_channelID (oc_command oc)) < length (p_channels (peer_at h i))"
    using Cons.prems by simp
  note f = setup_frame [OF Cons.prems(1) chan]
  obtain q where q: "peer_at ?h i = setup_outgoing_command q oc (peer_at h i)" using f(1) by blast
  have oc: "hd_channelID (oc_command oc) = c" "oc_packet oc \<noteq> None"
    "has_flag (hd_command (oc_command oc)) ENET_PROTOCOL_COMMAND_FLAG_ACKNOWLEDGE"
    using Cons.prems(4) by simp_all
  note one = setup_reliable [OF oc(1) Cons.prems(2,3) oc(3,2), of q]
  obtain oc' where oc': "p_outgoingSendReliableCommands (peer_at ?h i) = p_outgoingSendReliableCommands (peer_at h i) @ [oc']"
    "oc_reliableSequenceNumber oc' = ch_outgoingReliableSequenceNumber (channel_at (peer_at h i) c) + 1"
    "hd_reliableSequenceNumber (oc_command oc') = oc_reliableSequenceNumber oc'"
    "oc_packet oc' = oc_packet oc" "oc_fragmentOffset oc' = oc_fragmentOffset oc" "oc_fragmentLength oc' = oc_fragmentLength oc"
    "\<exists>u g. pr_body (oc_command oc') = number_body u g (pr_body (oc_command oc))"
    using one(1) unfolding q by blast
  obtain new where new: "p_outgoingSendReliableCommands (peer_at (fold (enet_peer_setup_outgoing_command i) ocs ?h) i)
        = p_outgoingSendReliableCommands (peer_at ?h i) @ new" "length new = length ocs"
    "\<forall>k < length ocs.
        oc_reliableSequenceNumber (new ! k)
          = ch_outgoingReliableSequenceNumber (channel_at (peer_at ?h i) c) + 1 + of_nat k
        \<and> hd_reliableSequenceNumber (oc_command (new ! k)) = oc_reliableSequenceNumber (new ! k)
        \<and> oc_packet (new ! k) = oc_packet (ocs ! k) \<and> oc_fragmentOffset (new ! k) = oc_fragmentOffset (ocs ! k)
        \<and> oc_fragmentLength (new ! k) = oc_fragmentLength (ocs ! k)
        \<and> (\<exists>u g. pr_body (oc_command (new ! k)) = number_body u g (pr_body (oc_command (ocs ! k))))"
    using Cons.IH [of ?h] Cons.prems f(3) q by auto
  have "ch_outgoingReliableSequenceNumber (channel_at (peer_at ?h i) c)
      = ch_outgoingReliableSequenceNumber (channel_at (peer_at h i) c) + 1"
    using one(2) by (simp add: q)
  then show ?case
    using oc' new by (intro exI [of _ "oc' # new"]) (auto simp: nth_Cons split: nat.splits)
qed simp

lemma fragment_spans_nth:
  "k < length (fragment_spans F L n) \<Longrightarrow> fst (fragment_spans F L n ! k) = n + k * F"
proof (induction F L n arbitrary: k rule: fragment_spans.induct)
  case (1 F L n)
  show ?case
  proof (cases "L \<le> n \<or> F = 0")
    case True
    then show ?thesis using 1(2) by (subst (asm) fragment_spans.simps) simp
  next
    case False
    let ?rest = "fragment_spans F L (n + min F (L - n))"
    have spans: "fragment_spans F L n = (n, min F (L - n)) # ?rest"
      using False by (subst fragment_spans.simps) simp
    show ?thesis
    proof (cases k)
      case (Suc j)
      then have j: "j < length ?rest" using 1(2) spans by simp
      have "F \<le> L - n"
      proof (rule ccontr)
        assume "\<not> F \<le> L - n"
        then have "L \<le> n + min F (L - n)" by simp
        then have "?rest = []" by simp
        then show False using j by simp
      qed
      then show ?thesis using 1(1) [OF False j] Suc spans by simp
    qed (simp add: spans)
  qed
qed

text \<open>A packet whose flags do not ask for unreliable fragments alone, or whose channel has no unreliable
  sequence number left, is sent in reliable fragments.\<close>

definition fragments_reliably :: "ENetPacket \<Rightarrow> ENetChannel \<Rightarrow> bool" where
  "fragments_reliably pk ch \<longleftrightarrow>
     pk_flags pk AND (ENET_PACKET_FLAG_RELIABLE OR ENET_PACKET_FLAG_UNRELIABLE_FRAGMENT) \<noteq> ENET_PACKET_FLAG_UNRELIABLE_FRAGMENT
     \<or> ch_outgoingUnreliableSequenceNumber ch = 0xFFFF"

lemma send_fragments_reliable:
  assumes "pk_dataLength pk < 2 ^ 32" "0 < F" "F < 2 ^ 16" "fragments_reliably pk (channel_at (peer_at h i) c)"
    and "send_fragments i c packet pk (of_nat F) h = Some (0, h')"
  shows "\<exists>n j. h' = fold (enet_peer_setup_outgoing_command i)
      (fragments_of (ENET_PROTOCOL_COMMAND_SEND_FRAGMENT OR ENET_PROTOCOL_COMMAND_FLAG_ACKNOWLEDGE) c
         (ch_outgoingReliableSequenceNumber (channel_at (peer_at h i) c) + 1) F (pk_dataLength pk) packet)
      (packet_addref n packet (h\<lparr>en_next := en_next h + j\<rparr>))"
proof -
  let ?command = "ENET_PROTOCOL_COMMAND_SEND_FRAGMENT OR ENET_PROTOCOL_COMMAND_FLAG_ACKNOWLEDGE"
  let ?start = "ch_outgoingReliableSequenceNumber (channel_at (peer_at h i) c) + 1"
  let ?L = "of_nat (pk_dataLength pk) :: u64"
  let ?count = "ucast ((?L + of_nat F - 1) div of_nat F) :: u32"
  have "\<not> (pk_flags pk AND (ENET_PACKET_FLAG_RELIABLE OR ENET_PACKET_FLAG_UNRELIABLE_FRAGMENT)
        = ENET_PACKET_FLAG_UNRELIABLE_FRAGMENT
      \<and> ch_outgoingUnreliableSequenceNumber (channel_at (peer_at h i) c) < 0xFFFF)"
    using assms(4) by (auto simp: fragments_reliably_def)
  then have run: "send_fragments i c packet pk (of_nat F) h =
      (if ?count > ENET_PROTOCOL_MAXIMUM_FRAGMENT_COUNT then Some (- 1, h)
       else (case fragment_loop ?L packet (fragment_command ?command c ?start ?count ?L) (of_nat F) 0 0 [] h of
               None \<Rightarrow> None
             | Some (Inl _, h) \<Rightarrow> Some (- 1, h)
             | Some (Inr (fragmentNumber, fragments), h) \<Rightarrow>
                 Some (0, fold (enet_peer_setup_outgoing_command i) fragments
                            (packet_addref (ucast fragmentNumber) packet h))))"
    by (simp only: send_fragments_def Let_def if_False prod.case)
  obtain r j where
    loop: "fragment_loop ?L packet (fragment_command ?command c ?start ?count ?L) (of_nat F) 0 0 [] h
      = Some (r, h\<lparr>en_next := en_next h + j\<rparr>)"
    "r = Inl () \<or> r = Inr (of_nat (length (fragment_spans F (pk_dataLength pk) 0)),
      fragments_of ?command c ?start F (pk_dataLength pk) packet)"
    using fragment_loop_spans [OF assms(1) _ assms(2,3), of 0 packet _ 0 "[]" h]
    unfolding fragments_of_def by fastforce
  show ?thesis
    using assms(5) loop(2) unfolding run loop(1) by (auto split: if_splits) (intro exI, rule refl)
qed

lemma fragment_count:
  assumes "L < 2 ^ 32" "0 < F" "F < 2 ^ 16"
  shows "ucast ((of_nat L + of_nat F - 1) div of_nat F :: u64) = (of_nat (length (fragment_spans F L 0)) :: u32)"
proof -
  have "(of_nat L + of_nat F - 1 :: u64) = of_nat (L + F - 1)"
    using assms(2) by (simp add: of_nat_diff)
  then have "(of_nat L + of_nat F - 1) div of_nat F = (of_nat ((L + F - 1) div F) :: u64)"
    using assms by (simp add: word_arith_nat_div unat_of_nat_small del: of_nat_diff)
  moreover have "(L + F - 1) div F < 2 ^ 32"
    using length_fragment_spans_le [of F L 0] assms by (simp add: length_fragment_spans)
  ultimately show ?thesis
    using assms(2) by (simp add: length_fragment_spans ucast_of_nat_small)
qed

text \<open>The fragments as they are made, before they are numbered.\<close>

lemma fragments_of_nth:
  assumes "L < 2 ^ 32" "0 < F" "F < 2 ^ 16" "k < length (fragments_of command c start F L packet)"
    and "command AND ENET_PROTOCOL_COMMAND_MASK = ENET_PROTOCOL_COMMAND_SEND_FRAGMENT"
  shows "\<exists>f. pr_body (oc_command (fragments_of command c start F L packet ! k)) = SendFragment f
    \<and> fr_startSequenceNumber f = start \<and> fr_fragmentNumber f = of_nat k \<and> fr_fragmentOffset f = of_nat (k * F)
    \<and> fr_fragmentCount f = of_nat (length (fragments_of command c start F L packet)) \<and> fr_totalLength f = of_nat L
    \<and> oc_fragmentOffset (fragments_of command c start F L packet ! k) = fr_fragmentOffset f"
proof -
  have L: "(ucast (of_nat L :: u64) :: u32) = of_nat L"
    using assms(1) by (simp add: ucast_of_nat_small)
  have "k < length (fragment_spans F L 0)" using assms(4) by (simp add: fragments_of_def)
  then show ?thesis
    using assms(5) fragment_spans_nth [of k F L 0]
    by (simp add: fragments_of_def span_commands_nth new_outgoing_command_def fragment_command_def Let_def
        fragment_count [OF assms(1-3)] L)
qed

text \<open>C30: A successful \<open>enet_peer_send\<close> of a packet longer than the fragment length, where it is sent in reliable
  fragments, appends one command per fragment to the queue of reliable commands: every one announces the
  sequence number after the channel's last one as start, the number of fragments as count and the
  packet's length, the k-th has fragment number k and offset k times the fragment length, and its own
  reliable sequence number is the announced start plus its fragment number (modulo \<open>2\<^sup>1\<^sup>6\<close>),
  as the receiver assumes.\<close>

theorem reliable_fragments_numbered:
  assumes "i < length (h_peers h)" "p_channelCount (peer_at h i) \<le> length (p_channels (peer_at h i))" "c \<noteq> 0xFF"
    and mtu: "ENET_PROTOCOL_MINIMUM_MTU \<le> p_mtu (peer_at h i)" "p_mtu (peer_at h i) \<le> ENET_PROTOCOL_MAXIMUM_MTU"
    and pk: "en_packets h packet = Some pk" "pk_dataLength pk < 2 ^ 32" "fragments_reliably pk (channel_at (peer_at h i) c)"
    and F: "F = unat (send_fragment_length i h)" "F < pk_dataLength pk"
    and sent: "enet_peer_send i c packet h = Some (0, h')"
  shows "\<exists>new. p_outgoingSendReliableCommands (peer_at h' i) = p_outgoingSendReliableCommands (peer_at h i) @ new
    \<and> length new = (pk_dataLength pk + F - 1) div F
    \<and> (\<forall>k < length new. oc_packet (new ! k) = Some packet \<and> oc_fragmentOffset (new ! k) = of_nat (k * F)
        \<and> (\<exists>f. pr_body (oc_command (new ! k)) = SendFragment f
            \<and> fr_startSequenceNumber f = ch_outgoingReliableSequenceNumber (channel_at (peer_at h i) c) + 1
            \<and> fr_fragmentNumber f = of_nat k \<and> fr_fragmentOffset f = of_nat (k * F)
            \<and> fr_fragmentCount f = of_nat (length new) \<and> fr_totalLength f = of_nat (pk_dataLength pk)
            \<and> hd_reliableSequenceNumber (oc_command (new ! k)) = fr_startSequenceNumber f + of_nat k))"
proof -
  let ?s = "ch_outgoingReliableSequenceNumber (channel_at (peer_at h i) c)"
  let ?frs = "fragments_of (ENET_PROTOCOL_COMMAND_SEND_FRAGMENT OR ENET_PROTOCOL_COMMAND_FLAG_ACKNOWLEDGE) c (?s + 1) F
    (pk_dataLength pk) packet"
  obtain F0 where F0: "send_fragment_length i h = of_nat F0" "0 < F0" "F0 < 2 ^ 16"
    using send_fragment_length_range [OF mtu] by blast
  then have "F = F0" using F(1) by (simp add: unat_of_nat_small)
  then have F': "send_fragment_length i h = of_nat F" "0 < F" "F < 2 ^ 16"
    using F0 by blast+
  have "(of_nat (pk_dataLength pk) :: u64) > of_nat F"
    using F(2) pk(2) by (simp add: of_nat_less_iff)
  then have c: "unat c < p_channelCount (peer_at h i)" and "send_fragments i c packet pk (of_nat F) h = Some (0, h')"
    using sent pk(1) F'(1) by (auto simp: enet_peer_send_def split: if_splits)
  then obtain n j where h': "h' = fold (enet_peer_setup_outgoing_command i) ?frs (packet_addref n packet (h\<lparr>en_next := en_next h + j\<rparr>))"
    using send_fragments_reliable [OF pk(2) F'(2,3) pk(3)] by blast
  let ?h = "packet_addref n packet (h\<lparr>en_next := en_next h + j\<rparr>)"
  have same: "peer_at ?h = peer_at h" "h_peers ?h = h_peers h"
    using pk(1) by (auto simp: packet_addref_def peer_at_def fun_eq_iff)
  have frs: "\<forall>oc \<in> set ?frs. hd_channelID (oc_command oc) = c \<and> oc_packet oc = Some packet
       \<and> has_flag (hd_command (oc_command oc)) ENET_PROTOCOL_COMMAND_FLAG_ACKNOWLEDGE"
    by (auto simp: fragments_of_def in_set_conv_nth span_commands_nth new_outgoing_command_def
        fragment_command_def Let_def has_flag_def)
  then obtain new where new: "p_outgoingSendReliableCommands (peer_at h' i) = p_outgoingSendReliableCommands (peer_at h i) @ new"
    "length new = length ?frs"
    "\<And>k. k < length ?frs \<Longrightarrow> oc_reliableSequenceNumber (new ! k) = ?s + 1 + of_nat k
        \<and> hd_reliableSequenceNumber (oc_command (new ! k)) = oc_reliableSequenceNumber (new ! k)
        \<and> oc_packet (new ! k) = oc_packet (?frs ! k) \<and> oc_fragmentOffset (new ! k) = oc_fragmentOffset (?frs ! k)
        \<and> (\<exists>u g. pr_body (oc_command (new ! k)) = number_body u g (pr_body (oc_command (?frs ! k))))"
    using fold_setup_reliable [of i ?h c ?frs] assms(1-3) c unfolding h' same by fastforce
  have len: "length ?frs = (pk_dataLength pk + F - 1) div F"
    using F'(2) by (simp add: fragments_of_def length_fragment_spans)
  have "oc_packet (new ! k) = Some packet \<and> oc_fragmentOffset (new ! k) = of_nat (k * F)
        \<and> (\<exists>f. pr_body (oc_command (new ! k)) = SendFragment f \<and> fr_startSequenceNumber f = ?s + 1
            \<and> fr_fragmentNumber f = of_nat k \<and> fr_fragmentOffset f = of_nat (k * F)
            \<and> fr_fragmentCount f = of_nat (length new) \<and> fr_totalLength f = of_nat (pk_dataLength pk)
            \<and> hd_reliableSequenceNumber (oc_command (new ! k)) = fr_startSequenceNumber f + of_nat k)"
    if k: "k < length ?frs" for k
  proof -
    have "?frs ! k \<in> set ?frs" using k by (rule nth_mem)
    then have "oc_packet (?frs ! k) = Some packet" using frs by blast
    moreover obtain f where f: "pr_body (oc_command (?frs ! k)) = SendFragment f" "fr_startSequenceNumber f = ?s + 1"
      "fr_fragmentNumber f = of_nat k" "fr_fragmentOffset f = of_nat (k * F)" "fr_fragmentCount f = of_nat (length ?frs)"
      "fr_totalLength f = of_nat (pk_dataLength pk)" "oc_fragmentOffset (?frs ! k) = fr_fragmentOffset f"
      using fragments_of_nth [OF pk(2) F'(2,3) k] by auto
    ultimately show ?thesis
      using new(3) [OF k] new(2) by auto
  qed
  then show ?thesis using new(1,2) len by metis
qed

text \<open>A host with a reliable packet of 3000 bytes, which are sent in fragments of 1364.\<close>

definition long_packet :: ENetPacket where
  "long_packet = \<lparr>pk_referenceCount = 0, pk_flags = 1, pk_data = replicate 3000 (Some 65), pk_dataLength = 3000,
     pk_freeCallback = False\<rparr>"

definition long_packet_host :: ENetHost where
  "long_packet_host = (sample_host [sample_peer])\<lparr>en_packets := [7 \<mapsto> long_packet]\<rparr>"

lemma long_packet_fields:
  "en_packets long_packet_host 7 = Some long_packet" "pk_dataLength long_packet = 3000"
  "p_state (peer_at long_packet_host 0) = CONNECTED" "p_channelCount (peer_at long_packet_host 0) = 1"
  "h_maximumPacketSize long_packet_host = 33554432" "send_fragment_length 0 long_packet_host = 1364"
  "p_mtu (peer_at long_packet_host 0) = 1392" "length (p_channels (peer_at long_packet_host 0)) = 1"
  "length (h_peers long_packet_host) = 1" "fragments_reliably long_packet ch" "en_malloc long_packet_host m"
  "p_outgoingSendReliableCommands (peer_at long_packet_host 0) = []"
  by (simp_all add: long_packet_host_def long_packet_def sample_defs peer_at_def send_fragment_length_def fragments_reliably_def)

lemma long_packet_sent: "\<exists>h'. enet_peer_send 0 0 7 long_packet_host = Some (0, h')"
proof -
  have start: "ch_outgoingReliableSequenceNumber (channel_at (peer_at long_packet_host 0) 0) = 0" "pk_flags long_packet = 1"
    by (simp_all add: long_packet_host_def long_packet_def sample_defs peer_at_def channel_at_def)
  obtain fragments n h' where "fragment_loop 3000 7 (fragment_command 0x88 0 1 3 3000) 1364 0 0 [] long_packet_host = Some (Inr (n, fragments), h')"
    using fragment_loop_spans [of 3000 0 1364 7 "fragment_command 0x88 0 1 3 3000" 0 "[]" long_packet_host]
    by (auto simp: long_packet_fields)
  then show ?thesis
    by (simp add: enet_peer_send_def long_packet_fields send_fragments_def start Let_def)
qed

theorem reliable_fragments_numbered_witness:
  "\<exists>h' new. enet_peer_send 0 0 7 long_packet_host = Some (0, h') \<and> p_outgoingSendReliableCommands (peer_at h' 0) = new
    \<and> length new = 3 \<and> (\<forall>k < length new. hd_reliableSequenceNumber (oc_command (new ! k)) = 1 + of_nat k)"
proof -
  obtain h' where sent: "enet_peer_send 0 0 7 long_packet_host = Some (0, h')"
    using long_packet_sent by blast
  have "ch_outgoingReliableSequenceNumber (channel_at (peer_at long_packet_host 0) 0) = 0"
    by (simp add: long_packet_host_def sample_defs peer_at_def channel_at_def)
  then have "length (p_outgoingSendReliableCommands (peer_at h' 0)) = 3
    \<and> (\<forall>k < 3. hd_reliableSequenceNumber (oc_command (p_outgoingSendReliableCommands (peer_at h' 0) ! k)) = 1 + of_nat k)"
    using reliable_fragments_numbered [of 0 long_packet_host 0 7 long_packet 1364 h', OF _ _ _ _ _ _ _ _ _ _ sent]
    by (simp add: long_packet_fields) fastforce
  then show ?thesis
    using sent by simp
qed

section \<open>The packet throttle\<close>

text \<open>The throttle after a list of measured round trip times.\<close>

abbreviation (input) throttled :: "u32 list \<Rightarrow> ENetPeer \<Rightarrow> ENetPeer" where
  "throttled rtts p \<equiv> fold (\<lambda>rtt p. snd (enet_peer_throttle rtt p)) rtts p"

lemma throttle_frame:
  "p_packetThrottleLimit (snd (enet_peer_throttle rtt p)) = p_packetThrottleLimit p"
  "p_packetThrottleAcceleration (snd (enet_peer_throttle rtt p)) = p_packetThrottleAcceleration p"
  "p_packetThrottleDeceleration (snd (enet_peer_throttle rtt p)) = p_packetThrottleDeceleration p"
  "p_lastRoundTripTime (snd (enet_peer_throttle rtt p)) = p_lastRoundTripTime p"
  "p_lastRoundTripTimeVariance (snd (enet_peer_throttle rtt p)) = p_lastRoundTripTimeVariance p"
  by (simp_all add: enet_peer_throttle_def Let_def)

lemma throttle_step:
  "p_lastRoundTripTime p \<le> p_lastRoundTripTimeVariance p \<Longrightarrow>
     p_packetThrottle (snd (enet_peer_throttle rtt p)) = p_packetThrottleLimit p"
  "p_lastRoundTripTimeVariance p < p_lastRoundTripTime p \<Longrightarrow> rtt \<le> p_lastRoundTripTime p \<Longrightarrow>
     unat (p_packetThrottle (snd (enet_peer_throttle rtt p)))
       = min (unat (p_packetThrottleLimit p)) (unat (p_packetThrottle p + p_packetThrottleAcceleration p))"
  "p_lastRoundTripTimeVariance p < p_lastRoundTripTime p \<Longrightarrow> p_lastRoundTripTime p < rtt \<Longrightarrow>
   p_lastRoundTripTime p + 2 * p_lastRoundTripTimeVariance p < rtt \<Longrightarrow>
     unat (p_packetThrottle (snd (enet_peer_throttle rtt p)))
       = unat (p_packetThrottle p) - unat (p_packetThrottleDeceleration p)"
  by (auto simp: enet_peer_throttle_def Let_def word_less_nat_alt word_le_nat_alt unat_minus_cases)

lemma throttle_limited:
  "p_packetThrottle p \<le> p_packetThrottleLimit p \<Longrightarrow>
   p_packetThrottle (snd (enet_peer_throttle rtt p)) \<le> p_packetThrottleLimit p"
  by (auto simp: enet_peer_throttle_def Let_def word_le_nat_alt word_less_nat_alt unat_minus_cases)

lemma throttled_limited:
  "p_packetThrottle p \<le> p_packetThrottleLimit p \<Longrightarrow> p_packetThrottle (throttled rtts p) \<le> p_packetThrottleLimit p"
proof (induction rtts arbitrary: p)
  case (Cons rtt rtts)
  show ?case
    using Cons.IH [of "snd (enet_peer_throttle rtt p)"] throttle_limited [OF Cons.prems, of rtt]
    by (simp add: throttle_frame)
qed simp

lemma throttled_fast:
  assumes "p_packetThrottle p \<le> p_packetThrottleLimit p" "p_lastRoundTripTimeVariance p < p_lastRoundTripTime p"
    "\<forall>rtt\<in>set rtts. rtt \<le> p_lastRoundTripTime p"
    "unat (p_packetThrottleLimit p) + unat (p_packetThrottleAcceleration p) < 2 ^ 32"
  shows "unat (p_packetThrottle (throttled rtts p)) = min (unat (p_packetThrottleLimit p))
      (unat (p_packetThrottle p) + length rtts * unat (p_packetThrottleAcceleration p))"
  using assms
proof (induction rtts arbitrary: p)
  case (Cons rtt rtts)
  have "unat (p_packetThrottle p + p_packetThrottleAcceleration p) = unat (p_packetThrottle p) + unat (p_packetThrottleAcceleration p)"
    using Cons.prems(1,4) by (simp add: word_le_nat_alt unat_word_ariths)
  then show ?case
    using Cons.prems Cons.IH [of "snd (enet_peer_throttle rtt p)"] throttle_limited [OF Cons.prems(1), of rtt]
    by (simp add: throttle_frame throttle_step(2))
qed (simp add: word_le_nat_alt)

lemma throttled_slow:
  assumes "p_lastRoundTripTimeVariance p < p_lastRoundTripTime p"
    "\<forall>rtt\<in>set rtts. p_lastRoundTripTime p < rtt \<and> p_lastRoundTripTime p + 2 * p_lastRoundTripTimeVariance p < rtt"
  shows "unat (p_packetThrottle (throttled rtts p)) =
      unat (p_packetThrottle p) - length rtts * unat (p_packetThrottleDeceleration p)"
  using assms by (induction rtts arbitrary: p) (simp_all add: throttle_frame throttle_step(3))

lemma sum_wraps_below:
  fixes a b :: u32
  assumes "2 ^ 32 \<le> unat a + unat b"
  shows "unat (a + b) < unat a"
proof -
  have "unat b < 2 ^ LENGTH(32)" by (rule unsigned_less)
  moreover have "unat a < 2 ^ LENGTH(32)" by (rule unsigned_less)
  ultimately have "(unat a + unat b) mod 2 ^ 32 = unat a + unat b - 2 ^ 32" "unat a + unat b - 2 ^ 32 < unat a"
    using assms by (simp_all add: le_mod_geq)
  then show ?thesis by (simp add: unat_word_ariths)
qed

text \<open>C31: However many round trip times are measured, a packet throttle within its limit stays within it.  Where
  the variance is not below the last round trip time it is set to the limit; otherwise every round trip as
  fast as the last one raises it by the acceleration up to the limit (where the two do not add up
  to \<open>2\<^sup>3\<^sup>2\<close>), every one slower by more than twice the variance lowers it by the deceleration down
  to 0, and the others leave the peer as it is; 1 and -1 are returned exactly when it is asked to rise or fall.
  Where throttle and acceleration add up to \<open>2\<^sup>3\<^sup>2\<close> a fast round trip lowers the
  throttle, and 1 is returned all the same.\<close>

theorem throttle_within_limit:
  assumes "p_packetThrottle p \<le> p_packetThrottleLimit p" "q = fold (\<lambda>rtt p. snd (enet_peer_throttle rtt p)) rtts p"
  shows "p_packetThrottle q \<le> p_packetThrottleLimit p
    \<and> (p_lastRoundTripTime p \<le> p_lastRoundTripTimeVariance p \<and> rtts \<noteq> [] \<longrightarrow> p_packetThrottle q = p_packetThrottleLimit p)
    \<and> (p_lastRoundTripTimeVariance p < p_lastRoundTripTime p \<and> (\<forall>rtt\<in>set rtts. rtt \<le> p_lastRoundTripTime p)
         \<and> unat (p_packetThrottleLimit p) + unat (p_packetThrottleAcceleration p) < 2 ^ 32 \<longrightarrow>
       unat (p_packetThrottle q) = min (unat (p_packetThrottleLimit p))
         (unat (p_packetThrottle p) + length rtts * unat (p_packetThrottleAcceleration p)))
    \<and> (p_lastRoundTripTimeVariance p < p_lastRoundTripTime p
         \<and> (\<forall>rtt\<in>set rtts. p_lastRoundTripTime p < rtt \<and> p_lastRoundTripTime p + 2 * p_lastRoundTripTimeVariance p < rtt) \<longrightarrow>
       unat (p_packetThrottle q) = unat (p_packetThrottle p) - length rtts * unat (p_packetThrottleDeceleration p))
    \<and> (p_lastRoundTripTimeVariance p < p_lastRoundTripTime p
         \<and> (\<forall>rtt\<in>set rtts. p_lastRoundTripTime p < rtt \<and> rtt \<le> p_lastRoundTripTime p + 2 * p_lastRoundTripTimeVariance p) \<longrightarrow>
       q = p)
    \<and> fst (enet_peer_throttle rtt p) =
        (if p_lastRoundTripTime p \<le> p_lastRoundTripTimeVariance p then 0
         else if rtt \<le> p_lastRoundTripTime p then 1
         else if rtt > p_lastRoundTripTime p + 2 * p_lastRoundTripTimeVariance p then - 1 else 0)
    \<and> (p_lastRoundTripTimeVariance p < p_lastRoundTripTime p \<and> rtt \<le> p_lastRoundTripTime p
         \<and> unat (p_packetThrottle p) + unat (p_packetThrottleAcceleration p) \<ge> 2 ^ 32 \<longrightarrow>
       p_packetThrottle (snd (enet_peer_throttle rtt p)) < p_packetThrottle p)"
proof (intro conjI impI, goal_cases)
  case 1
  show ?case using throttled_limited [OF assms(1)] by (simp add: assms(2))
next
  case 2
  have "p_packetThrottle (throttled rs p) = p_packetThrottleLimit p" if "rs \<noteq> []" for rs
    using that 2
  proof (induction rs arbitrary: p)
    case (Cons r rs)
    then show ?case by (cases rs) (simp_all add: throttle_frame throttle_step(1))
  qed simp
  then show ?case using 2 by (simp add: assms(2))
next
  case 3
  then show ?case using throttled_fast [OF assms(1)] by (simp add: assms(2))
next
  case 4
  then show ?case using throttled_slow by (simp add: assms(2))
next
  case 5
  have "snd (enet_peer_throttle r p) = p"
    if "p_lastRoundTripTime p < r" "r \<le> p_lastRoundTripTime p + 2 * p_lastRoundTripTimeVariance p" for r
    using that 5 by (auto simp: enet_peer_throttle_def)
  then have "throttled rtts p = p"
    using 5 by (induction rtts) auto
  then show ?case by (simp add: assms(2))
next
  case 6
  show ?case by (simp add: enet_peer_throttle_def Let_def)
next
  case 7
  then have "unat (p_packetThrottle p + p_packetThrottleAcceleration p) < unat (p_packetThrottle p)"
    using sum_wraps_below by blast
  then show ?case
    using 7 throttle_step(2) [of p rtt] by (simp add: word_less_nat_alt [of "p_packetThrottle (snd (enet_peer_throttle rtt p))"])
qed

text \<open>Three round trips as fast as the last one raise the throttle from 10 to 16; one slow one lowers it by 2.\<close>

theorem throttle_within_limit_witness:
  "let p = sample_peer\<lparr>p_packetThrottle := 10, p_lastRoundTripTimeVariance := 50\<rparr> in
     unat (p_packetThrottle (fold (\<lambda>rtt p. snd (enet_peer_throttle rtt p)) [400, 500, 400] p)) = 16
   \<and> unat (p_packetThrottle (fold (\<lambda>rtt p. snd (enet_peer_throttle rtt p)) [700] p)) = 8"
proof -
  let ?p = "sample_peer\<lparr>p_packetThrottle := 10, p_lastRoundTripTimeVariance := 50\<rparr>"
  have p: "p_packetThrottle ?p = 10" "p_packetThrottleLimit ?p = 32" "p_packetThrottleAcceleration ?p = 2"
    "p_packetThrottleDeceleration ?p = 2" "p_lastRoundTripTime ?p = 500" "p_lastRoundTripTimeVariance ?p = 50"
    by (simp_all add: sample_peer_def)
  have le: "p_packetThrottle ?p \<le> p_packetThrottleLimit ?p" by (simp add: p)
  show ?thesis
    using throttle_within_limit [OF le refl, of "[400, 500, 400]"] throttle_within_limit [OF le refl, of "[700]"]
    by (simp only: p Let_def) simp
qed

end
