(* ===== verification/Enet_Fragments.thy ===== *)
theory Enet_Fragments
  imports Enet_Handlers Enet_Sending
begin

text \<open>
  Reassembly of a fragmented packet.  The bitmap of received fragments is read as a set of fragment
  numbers; whatever the order in which the fragments arrive, and however often, the buffer holds
  exactly the bytes received, and the packet is complete when each fragment has arrived.
\<close>

section \<open>The bitmap of received fragments\<close>

lemma has_flag_bit: "b < LENGTH('a) \<Longrightarrow> has_flag (w :: 'a::len word) (2 ^ b) \<longleftrightarrow> bit w b"
  by (auto simp: has_flag_def bit_eq_iff [of "w AND 2 ^ b" 0] bit_simps)

lemma fragment_bit_iff: "fragment_bit fragments n \<longleftrightarrow> bit (fragments ! (unat n div 32)) (unat n mod 32)"
  by (simp add: fragment_bit_def has_flag_bit unat_div unat_mod)

lemma fragment_bit_set:
  assumes "unat n div 32 < length fragments"
  shows "fragment_bit (set_fragment_bit n fragments) m \<longleftrightarrow> m = n \<or> fragment_bit fragments m"
proof -
  have d: "unat (n div 32) = unat n div 32" "unat (n mod 32) = unat n mod 32"
    by (simp_all add: unat_div unat_mod)
  have eq: "m = n \<longleftrightarrow> unat m div 32 = unat n div 32 \<and> unat m mod 32 = unat n mod 32"
    by (metis div_mult_mod_eq word_unat_eq_iff)
  have b: "bit (set_flag w (push_bit k 1)) j \<longleftrightarrow> j = k \<or> bit w j" if "j < 32" "k < 32" for w :: u32 and j k
    using that by (auto simp: set_flag_def bit_simps)
  show ?thesis
    using assms b [of "unat m mod 32" "unat n mod 32"]
    by (auto simp: fragment_bit_iff set_fragment_bit_def Let_def d nth_list_update eq)
qed

lemma length_set_fragment_bit [simp]: "length (set_fragment_bit n fragments) = length fragments"
  by (simp add: set_fragment_bit_def Let_def)

lemma of_nat_u32_inject:
  assumes "m < 2 ^ 32" "n < 2 ^ 32"
  shows "(of_nat m :: u32) = of_nat n \<longleftrightarrow> m = n"
proof
  assume "(of_nat m :: u32) = of_nat n"
  then have "unat (of_nat m :: u32) = unat (of_nat n :: u32)" by (rule arg_cong)
  then show "m = n" using assms by (simp add: unat_of_nat_small)
qed simp

section \<open>Fragments in any order\<close>

text \<open>The \<open>k\<close>-th fragment of the bytes \<open>d\<close>, \<open>F\<close> bytes to a fragment, and the state once the fragments \<open>S\<close> have arrived.\<close>

definition fragment_count :: "nat \<Rightarrow> nat \<Rightarrow> nat" where
  "fragment_count F L = (L + F - 1) div F"

definition fragment_bytes :: "nat \<Rightarrow> u8 list \<Rightarrow> nat \<Rightarrow> u8 list" where
  "fragment_bytes F d k = take F (drop (k * F) d)"

definition fragment_of :: "nat \<Rightarrow> u8 list \<Rightarrow> nat \<Rightarrow> ENetProtocolSendFragment" where
  "fragment_of F d k =
     \<lparr>fr_startSequenceNumber = 0, fr_dataLength = of_nat (length (fragment_bytes F d k)),
      fr_fragmentCount = of_nat (fragment_count F (length d)), fr_fragmentNumber = of_nat k,
      fr_totalLength = of_nat (length d), fr_fragmentOffset = of_nat (k * F)\<rparr>"

definition assembled :: "nat \<Rightarrow> u8 list \<Rightarrow> nat set \<Rightarrow> ENetIncomingCommand \<Rightarrow> ENetPacket \<Rightarrow> bool" where
  "assembled F d S ic pk \<longleftrightarrow>
     S \<subseteq> {..<fragment_count F (length d)}
     \<and> ic_fragmentsRemaining ic = of_nat (fragment_count F (length d) - card S)
     \<and> length (ic_fragments ic) = (fragment_count F (length d) + 31) div 32
     \<and> (\<forall>k < fragment_count F (length d). fragment_bit (ic_fragments ic) (of_nat k) \<longleftrightarrow> k \<in> S)
     \<and> pk_dataLength pk = length d
     \<and> pk_data pk = map (\<lambda>j. if j div F \<in> S then Some (d ! j) else None) [0..<length d]"

lemma fragment_count_bound:
  assumes "0 < F" "k < fragment_count F L"
  shows "k * F < L"
proof -
  have "Suc k * F \<le> L + F - 1"
    using assms by (simp add: fragment_count_def Suc_le_eq [symmetric] less_eq_div_iff_mult_less_eq)
  then show ?thesis using assms(1) by simp
qed

lemma fragment_count_le:
  assumes "0 < F"
  shows "fragment_count F L \<le> L"
proof (cases "fragment_count F L")
  case (Suc k)
  then have "k * F < L" using fragment_count_bound [OF assms, of k L] by simp
  moreover have "k \<le> k * F" using assms by simp
  ultimately show ?thesis using Suc by linarith
qed simp

lemma write_bytes_assembled:
  assumes "0 < F" "k * F < length d"
  shows "write_bytes (k * F) (fragment_bytes F d k) (map (\<lambda>j. if j div F \<in> S then Some (d ! j) else None) [0..<length d])
    = map (\<lambda>j. if j div F \<in> insert k S then Some (d ! j) else None) [0..<length d]"
proof (rule nth_equalityI)
  let ?data = "map (\<lambda>j. if j div F \<in> S then Some (d ! j) else None) [0..<length d]"
  have len: "length (fragment_bytes F d k) = min F (length d - k * F)"
    by (simp add: fragment_bytes_def)
  show l: "length (write_bytes (k * F) (fragment_bytes F d k) ?data)
    = length (map (\<lambda>j. if j div F \<in> insert k S then Some (d ! j) else None) [0..<length d])"
    using assms(2) by (simp add: write_bytes_def len)
  fix j
  assume "j < length (write_bytes (k * F) (fragment_bytes F d k) ?data)"
  then have j: "j < length d" using l by simp
  have div: "j div F = k \<longleftrightarrow> k * F \<le> j \<and> j < k * F + F"
    using assms(1) dividend_less_times_div [OF assms(1), of j]
    by (auto simp: div_nat_eqI mult.commute add.commute)
  consider "j < k * F" | "k * F \<le> j" "j < k * F + length (fragment_bytes F d k)"
    | "k * F + length (fragment_bytes F d k) \<le> j" by linarith
  then show "write_bytes (k * F) (fragment_bytes F d k) ?data ! j
    = map (\<lambda>j. if j div F \<in> insert k S then Some (d ! j) else None) [0..<length d] ! j"
    using j assms(2) len div
    by cases (auto simp: write_bytes_def nth_append fragment_bytes_def)
qed

lemma take_fragment_assembled:
  assumes "0 < F" "length d < 2 ^ 32" "assembled F d S ic pk" "k < fragment_count F (length d)"
    "take_fragment (fragment_of F d k) (fragment_bytes F d k) ic pk = (ic', pk')"
  shows "assembled F d (insert k S) ic' pk'"
proof -
  let ?n = "fragment_count F (length d)" and ?bytes = "fragment_bytes F d k"
  have kF: "k * F < length d" using fragment_count_bound assms(1,4) by blast
  have n32: "?n < 2 ^ 32" using fragment_count_le [OF assms(1), of "length d"] assms(2) by linarith
  have S: "S \<subseteq> {..<?n}" "finite S" using assms(3) finite_subset unfolding assembled_def by auto
  have bit: "fragment_bit (ic_fragments ic) (fr_fragmentNumber (fragment_of F d k)) \<longleftrightarrow> k \<in> S"
    using assms(3,4) by (simp add: assembled_def fragment_of_def)
  show ?thesis
  proof (cases "k \<in> S")
    case True
    then have "ic' = ic" "pk' = pk" using assms(5) bit by (simp_all add: take_fragment_def)
    then show ?thesis using assms(3) True by (simp add: insert_absorb)
  next
    case False
    have len: "k * F + length ?bytes \<le> length d"
      using kF by (simp add: fragment_bytes_def)
    have sum: "unat ((of_nat (k * F) :: u32) + of_nat (length ?bytes)) = k * F + length ?bytes"
      using len assms(2) by (simp add: unat_of_nat_small del: of_nat_add of_nat_mult flip: of_nat_add)
    have "unat (of_nat (length ?bytes) :: u32) = length ?bytes" "unat (of_nat (k * F) :: u32) = k * F"
      using len assms(2) by (simp_all add: unat_of_nat_small del: of_nat_mult)
    then have res: "ic' = ic\<lparr>ic_fragmentsRemaining := ic_fragmentsRemaining ic - 1,
          ic_fragments := set_fragment_bit (of_nat k) (ic_fragments ic)\<rparr>"
        "pk' = pk\<lparr>pk_data := write_bytes (k * F) ?bytes (pk_data pk)\<rparr>"
      using assms(3,5) bit False sum len
      by (simp_all add: take_fragment_def assembled_def fragment_of_def Let_def del: of_nat_mult)
    have card: "card (insert k S) = Suc (card S)" "card (insert k S) \<le> ?n"
      using S False assms(4) card_mono [of "{..<?n}" "insert k S"] by simp_all
    have "ic_fragmentsRemaining ic' = of_nat (?n - card (insert k S))"
      using assms(3) card by (simp add: res assembled_def of_nat_diff)
    moreover have "fragment_bit (ic_fragments ic') (of_nat j) \<longleftrightarrow> j \<in> insert k S" if "j < ?n" for j
    proof -
      have "unat (of_nat k :: u32) div 32 < length (ic_fragments ic)"
        using assms(3,4) n32 by (simp add: assembled_def unat_of_nat_small)
      moreover have "(of_nat j :: u32) = of_nat k \<longleftrightarrow> j = k"
        using that assms(4) n32 by (intro of_nat_u32_inject) linarith+
      ultimately show ?thesis
        using assms(3) that by (simp add: res fragment_bit_set assembled_def)
    qed
    ultimately show ?thesis
      using assms(3,4) S(1) write_bytes_assembled [OF assms(1) kF, of S] unfolding assembled_def res by simp
  qed
qed

lemma fold_fragments_assembled:
  assumes "0 < F" "length d < 2 ^ 32" "assembled F d S ic pk" "\<forall>k \<in> set ks. k < fragment_count F (length d)"
  shows "\<exists>ic' pk'. fold (\<lambda>k (ic, pk). take_fragment (fragment_of F d k) (fragment_bytes F d k) ic pk) ks (ic, pk) = (ic', pk')
    \<and> assembled F d (S \<union> set ks) ic' pk'"
  using assms(3,4)
proof (induction ks arbitrary: S ic pk)
  case (Cons k ks)
  obtain ic1 pk1 where one: "take_fragment (fragment_of F d k) (fragment_bytes F d k) ic pk = (ic1, pk1)"
    by (cases "take_fragment (fragment_of F d k) (fragment_bytes F d k) ic pk")
  have "assembled F d (insert k S) ic1 pk1"
    using take_fragment_assembled [OF assms(1,2) Cons.prems(1) _ one] Cons.prems(2) by simp
  then show ?case
    using Cons.IH [of "insert k S" ic1 pk1] Cons.prems(2) by (simp add: one)
qed simp

text \<open>The command and the packet as \<open>enet_peer_queue_incoming_command\<close> makes them for a first fragment.\<close>

definition awaiting :: "nat \<Rightarrow> u8 list \<Rightarrow> ENetIncomingCommand \<Rightarrow> ENetPacket \<Rightarrow> bool" where
  "awaiting F d ic pk \<longleftrightarrow>
     ic_fragmentsRemaining ic = of_nat (fragment_count F (length d))
     \<and> ic_fragments ic = replicate (unat ((of_nat (fragment_count F (length d)) + 31) div 32 :: u32)) 0
     \<and> pk_dataLength pk = length d \<and> pk_data pk = replicate (length d) None"

lemma awaiting_assembled:
  assumes "awaiting F d ic pk" "0 < F" "length d < 2 ^ 32 - 31"
  shows "assembled F d {} ic pk"
proof -
  let ?n = "fragment_count F (length d)"
  have n: "?n < 2 ^ 32 - 31" using fragment_count_le [OF assms(2), of "length d"] assms(3) by linarith
  have len: "unat ((of_nat ?n + 31) div 32 :: u32) = (?n + 31) div 32"
  proof -
    have "(of_nat ?n + 31 :: u32) = of_nat (?n + 31)" by simp
    then show ?thesis using n by (simp only: unat_div) (simp add: unat_of_nat_small del: of_nat_add)
  qed
  have "\<not> fragment_bit (replicate ((?n + 31) div 32) 0) (of_nat k)" if "k < ?n" for k
  proof -
    have "unat (of_nat k :: u32) = k" using n that by (simp add: unat_of_nat_small)
    moreover have "k div 32 < (?n + 31) div 32" using that by linarith
    ultimately show ?thesis by (simp add: fragment_bit_iff)
  qed
  moreover have "replicate (length d) None = map (\<lambda>j. None) [0..<length d]"
    by (simp add: map_replicate_const)
  ultimately show ?thesis
    using assms(1) by (simp add: assembled_def awaiting_def len)
qed

text \<open>C3: Whatever the order in which the fragments of a packet arrive, and however often each does, the buffer
  holds exactly the bytes that have arrived; the packet is counted complete exactly when every fragment
  has, and then it is byte for byte the packet that was sent.\<close>

theorem reassembly_in_any_order:
  assumes "awaiting F d ic pk" "0 < F" "length d < 2 ^ 32 - 31" "\<forall>k \<in> set ks. k < fragment_count F (length d)"
  shows "\<exists>ic' pk'. fold (\<lambda>k (ic, pk). take_fragment (fragment_of F d k) (fragment_bytes F d k) ic pk) ks (ic, pk) = (ic', pk')
    \<and> pk_data pk' = map (\<lambda>j. if j div F \<in> set ks then Some (d ! j) else None) [0..<length d]
    \<and> (ic_fragmentsRemaining ic' = 0 \<longleftrightarrow> set ks = {..<fragment_count F (length d)})
    \<and> (ic_fragmentsRemaining ic' = 0 \<longrightarrow> pk_data pk' = map Some d)"
proof -
  let ?n = "fragment_count F (length d)"
  have n: "?n < 2 ^ 32" using fragment_count_le [OF assms(2), of "length d"] assms(3) by linarith
  obtain ic' pk' where run: "fold (\<lambda>k (ic, pk). take_fragment (fragment_of F d k) (fragment_bytes F d k) ic pk) ks (ic, pk) = (ic', pk')"
    "assembled F d (set ks) ic' pk'"
    using fold_fragments_assembled [OF assms(2) _ awaiting_assembled [OF assms(1-3)] assms(4)] assms(3) by auto
  have sub: "set ks \<subseteq> {..<?n}" using assms(4) by auto
  have "ic_fragmentsRemaining ic' = of_nat (?n - card (set ks))"
    using run(2) by (simp add: assembled_def)
  then have "ic_fragmentsRemaining ic' = 0 \<longleftrightarrow> ?n - card (set ks) = 0"
    using n of_nat_u32_inject [of "?n - card (set ks)" 0] by (simp del: of_nat_diff)
  also have "\<dots> \<longleftrightarrow> set ks = {..<?n}"
    using sub card_mono [OF _ sub] card_subset_eq [OF _ sub] by fastforce
  finally have all: "ic_fragmentsRemaining ic' = 0 \<longleftrightarrow> set ks = {..<?n}" .
  have "pk_data pk' = map Some d" if "set ks = {..<?n}"
  proof -
    have "j div F < ?n" if "j < length d" for j
    proof -
      have "j div F * F \<le> j" by (simp add: div_times_less_eq_dividend)
      then have "Suc (j div F) * F \<le> length d + F - 1"
        using that assms(2) unfolding mult_Suc by linarith
      then show ?thesis using assms(2) by (simp add: fragment_count_def Suc_le_eq [symmetric] less_eq_div_iff_mult_less_eq)
    qed
    then show ?thesis
      using run(2) that by (auto simp: assembled_def intro!: nth_equalityI)
  qed
  then show ?thesis using run all by (auto simp: assembled_def)
qed

theorem reassembly_in_any_order_witness:
  "\<exists>ic pk. awaiting 2 [65, 66, 67] ic pk \<and>
     (\<exists>ic' pk'. fold (\<lambda>k (ic, pk). take_fragment (fragment_of 2 [65, 66, 67] k) (fragment_bytes 2 [65, 66, 67] k) ic pk)
        [1, 0, 1] (ic, pk) = (ic', pk') \<and> ic_fragmentsRemaining ic' = 0 \<and> pk_data pk' = [Some 65, Some 66, Some 67])"
proof -
  let ?d = "[65, 66, 67] :: u8 list"
  let ?ic = "\<lparr>ic_addr = 0, ic_reliableSequenceNumber = 1, ic_unreliableSequenceNumber = 0,
     ic_command = \<lparr>hd_command = 0x88, hd_channelID = 0, hd_reliableSequenceNumber = 1, pr_body = SendFragment (fragment_of 2 ?d 0)\<rparr>,
     ic_fragmentCount = 2, ic_fragmentsRemaining = 2, ic_fragments = [0], ic_packet = 7\<rparr>"
  let ?pk = "\<lparr>pk_referenceCount = 1, pk_flags = 1, pk_data = [None, None, None], pk_dataLength = 3, pk_freeCallback = False\<rparr>"
  have count: "fragment_count 2 (length ?d) = 2" by (simp add: fragment_count_def)
  have one: "(of_nat 2 + 31) div 32 = (1 :: u32)" by simp
  have wait: "awaiting 2 ?d ?ic ?pk"
    unfolding awaiting_def count one by (simp add: numeral_3_eq_3)
  have "set [1, 0, 1] = {..<fragment_count 2 (length ?d)}" unfolding count by auto
  then show ?thesis
    using reassembly_in_any_order [OF wait, of "[1, 0, 1]"] wait count
    by (intro exI [of _ ?ic] exI [of _ ?pk]) force
qed

end
