(* ===== verification/Enet_Reliable.thy ===== *)
theory Enet_Reliable
  imports Enet_Incoming
begin

text \<open>
  Reliable delivery on a channel.  A 16-bit sequence number is measured by its distance ahead of the
  channel's \<open>incomingReliableSequenceNumber\<close>: the receive queue is sorted by this distance, and
  the window test, the search for a position and the dispatch loop of \<^verbatim>\<open>src/peer.c\<close> together
  deliver every command exactly once and in order, however commands are lost, repeated or
  reordered on the way.
\<close>

section \<open>Distances\<close>

definition ahead :: "u16 \<Rightarrow> u16 \<Rightarrow> nat" where
  "ahead R n = unat (n - R)"

lemma ahead_cases: "ahead R n = (if R \<le> n then unat n - unat R else unat n + 65536 - unat R)"
  using unat_minus_cases [of n R] by (simp add: ahead_def)

lemma unat_u16: "unat (n :: u16) < 65536"
  using unsigned_less [of n, where ?'a = nat] by simp

lemma ahead_less: "ahead R n < 65536"
  by (simp add: ahead_def unat_u16)

lemma ahead_eq_0 [simp]: "ahead R n = 0 \<longleftrightarrow> n = R"
  by (simp add: ahead_def unat_eq_0)

lemma ahead_self [simp]: "ahead R R = 0"
  by simp

lemma ahead_inject: "ahead R a = ahead R b \<longleftrightarrow> a = b"
  by (simp add: ahead_def word_unat_eq_iff [symmetric])

lemma ahead_number: "R + of_nat (ahead R n) = n"
  by (simp add: ahead_def)

lemma ahead_of_nat: "k < 65536 \<Longrightarrow> ahead R (R + of_nat k) = k"
  by (simp add: ahead_def unat_of_nat)

lemma ahead_shift: "k \<le> ahead R n \<Longrightarrow> ahead (R + of_nat k) n = ahead R n - k"
proof -
  assume k: "k \<le> ahead R n"
  have "n - (R + of_nat k) = of_nat (ahead R n) - (of_nat k :: u16)"
    by (simp add: ahead_def)
  also have "\<dots> = of_nat (ahead R n - k)"
    using k by (simp add: of_nat_diff)
  finally show ?thesis
    using ahead_less [of R n] by (simp add: ahead_def [of "R + of_nat k"] unat_of_nat)
qed

lemma window_arith: "b div 4096 + 7 \<le> a div 4096 \<longleftrightarrow> 28672 + b \<le> a + b mod (4096 :: nat)"
proof -
  have dist: "(q + 7) * 4096 \<le> a \<longleftrightarrow> q * 4096 + r + 28672 \<le> a + r" for q r :: nat
    by auto
  have "b div 4096 + 7 \<le> a div 4096 \<longleftrightarrow> (b div 4096 + 7) * 4096 \<le> a"
    by (rule less_eq_div_iff_mult_less_eq) simp
  also have "\<dots> \<longleftrightarrow> (b div 4096) * 4096 + b mod 4096 + 28672 \<le> a + b mod 4096"
    by (rule dist)
  finally show ?thesis by (simp only: div_mult_mod_eq add.commute [of 28672])
qed

text \<open>The window test of \<open>enet_peer_queue_incoming_command\<close> is a bound on the distance.\<close>

lemma outside_window_ahead:
  "outside_window n ch \<longleftrightarrow>
     28672 \<le> ahead (ch_incomingReliableSequenceNumber ch) n + unat (ch_incomingReliableSequenceNumber ch) mod 4096"
proof -
  let ?R = "ch_incomingReliableSequenceNumber ch"
  have d: "unat (x div 0x1000) = unat x div 4096" for x :: u16
    by (simp add: unat_div)
  have lt: "unat x div 4096 < 16" for x :: u16
    using unat_u16 [of x] by (simp add: div_less_iff_less_mult)
  have cur: "unat (current_window ch) = unat ?R div 4096"
    by (simp add: current_window_def d)
  have cur7: "unat (current_window ch + 8 - 1) = unat ?R div 4096 + 7"
  proof -
    have "current_window ch + 8 - 1 = current_window ch + 7" by (simp add: algebra_simps)
    moreover have "unat (current_window ch + 7) = unat ?R div 4096 + 7"
      using lt [of ?R] by (subst unat_word_ariths(1)) (simp add: cur)
    ultimately show ?thesis by (simp only:)
  qed
  have win: "unat (reliable_window n ch) = (if n < ?R then unat n div 4096 + 16 else unat n div 4096)"
  proof -
    have "unat (n div 0x1000 + 16) = unat n div 4096 + 16"
      using lt [of n] by (subst unat_word_ariths(1)) (simp add: d)
    then show ?thesis by (simp add: reliable_window_def d)
  qed
  have R: "unat ?R = 4096 * (unat ?R div 4096) + unat ?R mod 4096" by simp
  show ?thesis
  proof (cases "n < ?R")
    case True
    have "\<not> unat n div 4096 + 16 < unat ?R div 4096"
      using lt [of ?R] by simp
    moreover have "unat ?R div 4096 + 7 \<le> unat n div 4096 + 16
        \<longleftrightarrow> 28672 \<le> unat n + 65536 - unat ?R + unat ?R mod 4096"
      using unat_u16 [of ?R] window_arith [of "unat ?R" "unat n + 65536"] by auto
    ultimately show ?thesis
      using True unfolding outside_window_def word_less_nat_alt word_le_nat_alt cur cur7 win ahead_cases by simp
  next
    case False
    then have le: "unat ?R \<le> unat n" by (simp add: not_less word_le_nat_alt)
    then have "\<not> unat n div 4096 < unat ?R div 4096"
      by (simp add: div_le_mono not_less)
    moreover have "unat ?R div 4096 + 7 \<le> unat n div 4096 \<longleftrightarrow> 28672 \<le> unat n - unat ?R + unat ?R mod 4096"
      using le window_arith [of "unat ?R" "unat n"] by auto
    ultimately show ?thesis
      using False le unfolding outside_window_def word_less_nat_alt word_le_nat_alt cur cur7 win ahead_cases by simp
  qed
qed

lemma near_inside_window: "ahead (ch_incomingReliableSequenceNumber ch) n \<le> 0x6000 \<Longrightarrow> \<not> outside_window n ch"
  by (simp add: outside_window_ahead not_le)

section \<open>The position of a reliable command\<close>

lemma reliable_position_step:
  "n \<noteq> R \<Longrightarrow> reliable_position R n (ic # earlier) =
     (if ahead R n < ahead R (ic_reliableSequenceNumber ic) then reliable_position R n earlier
      else if ahead R (ic_reliableSequenceNumber ic) < ahead R n then Some (Suc (length earlier))
      else None)"
  using unat_u16 [of n] unat_u16 [of R] unat_u16 [of "ic_reliableSequenceNumber ic"]
  by (auto simp: ahead_cases word_less_nat_alt word_le_nat_alt)

abbreviation (input) queue_sorted :: "u16 \<Rightarrow> ENetIncomingCommand list \<Rightarrow> bool" where
  "queue_sorted R q \<equiv> sorted_wrt (\<lambda>x y. ahead R (ic_reliableSequenceNumber x) < ahead R (ic_reliableSequenceNumber y)) q"

lemma reliable_position_Some:
  "reliable_position R n (rev q) = Some k \<Longrightarrow> n \<noteq> R \<Longrightarrow> queue_sorted R q \<Longrightarrow>
   k \<le> length q \<and> (\<forall>x \<in> set (take k q). ahead R (ic_reliableSequenceNumber x) < ahead R n)
     \<and> (\<forall>x \<in> set (drop k q). ahead R n < ahead R (ic_reliableSequenceNumber x))"
proof (induction q rule: rev_induct)
  case (snoc ic q)
  have sorted: "queue_sorted R q" "\<forall>x \<in> set q. ahead R (ic_reliableSequenceNumber x) < ahead R (ic_reliableSequenceNumber ic)"
    using snoc.prems(3) by (auto simp: sorted_wrt_append)
  consider (before) "ahead R n < ahead R (ic_reliableSequenceNumber ic)" "reliable_position R n (rev q) = Some k"
    | (here) "ahead R (ic_reliableSequenceNumber ic) < ahead R n" "k = Suc (length q)"
    using snoc.prems(1,2) by (auto simp: reliable_position_step simp del: reliable_position.simps split: if_splits)
  then show ?case
  proof cases
    case before
    then show ?thesis using snoc.IH [OF before(2) snoc.prems(2) sorted(1)] by auto
  next
    case here
    then show ?thesis using sorted(2) by fastforce
  qed
qed simp

lemma reliable_position_None:
  "reliable_position R n (rev q) = None \<Longrightarrow> n \<noteq> R \<Longrightarrow> n \<in> ic_reliableSequenceNumber ` set q"
proof (induction q rule: rev_induct)
  case (snoc ic q)
  then show ?case
    by (auto simp: reliable_position_step ahead_inject linorder_neq_iff simp del: reliable_position.simps split: if_splits)
qed simp

lemma sorted_insert_at:
  assumes "queue_sorted R q" "k \<le> length q"
    "\<forall>x \<in> set (take k q). ahead R (ic_reliableSequenceNumber x) < ahead R (ic_reliableSequenceNumber ic)"
    "\<forall>x \<in> set (drop k q). ahead R (ic_reliableSequenceNumber ic) < ahead R (ic_reliableSequenceNumber x)"
  shows "queue_sorted R (insert_at k ic q)"
proof -
  have "queue_sorted R (take k q @ drop k q)" using assms(1) by simp
  then show ?thesis
    using assms(3,4) unfolding sorted_wrt_append insert_at_def by (auto intro: less_trans)
qed

section \<open>Dispatching in sequence\<close>

text \<open>\<open>ics\<close> are complete and each follows its predecessor, from after \<open>n\<close> up to \<open>m\<close>.\<close>

fun in_sequence :: "u16 \<Rightarrow> ENetIncomingCommand list \<Rightarrow> u16 \<Rightarrow> bool" where
  "in_sequence n [] m \<longleftrightarrow> m = n"
| "in_sequence n (ic # ics) m \<longleftrightarrow>
     ic_fragmentsRemaining ic = 0 \<and> ic_reliableSequenceNumber ic = n + 1
     \<and> in_sequence (last_sequence_number ic) ics m"

lemma reliable_scan_run:
  "\<exists>m moved left. reliable_scan n q = (m, moved, left) \<and> q = moved @ left \<and> in_sequence n moved m
     \<and> (left = [] \<or> ic_fragmentsRemaining (hd left) \<noteq> 0 \<or> ic_reliableSequenceNumber (hd left) \<noteq> m + 1)"
proof (induction n q rule: reliable_scan.induct)
  case (2 n ic rest)
  then show ?case by (auto simp: word_gt_0)
qed simp

text \<open>C28: The dispatch loop of reliable commands moves exactly the longest run of complete commands that follow
  one another from the channel's current sequence number, keeps the others in their order, and leaves
  the channel at the last sequence number of the run, whole fragmented packets included.\<close>

theorem reliable_scan_longest_run:
  "\<exists>m moved left. reliable_scan n q = (m, moved, left) \<and> q = moved @ left \<and> in_sequence n moved m
     \<and> (left = [] \<or> ic_fragmentsRemaining (hd left) \<noteq> 0 \<or> ic_reliableSequenceNumber (hd left) \<noteq> m + 1)"
  by (rule reliable_scan_run)

lemma scan_numbers:
  assumes "\<forall>x \<in> set q. ic_fragmentCount x = 0 \<and> ic_fragmentsRemaining x = 0"
    "queue_sorted R q" "\<forall>x \<in> set q. ic_reliableSequenceNumber x \<noteq> R" "reliable_scan R q = (m, moved, left)"
  shows "q = moved @ left \<and> m = R + of_nat (length moved)
    \<and> map ic_reliableSequenceNumber moved = map (\<lambda>k. R + of_nat k) [1..<Suc (length moved)]
    \<and> queue_sorted m left \<and> (\<forall>x \<in> set left. 1 < ahead m (ic_reliableSequenceNumber x))"
  using assms
proof (induction q arbitrary: R m moved left)
  case (Cons ic q)
  have pos: "1 \<le> ahead R (ic_reliableSequenceNumber x)" if "x \<in> set (ic # q)" for x
    using that Cons.prems(3) ahead_eq_0 [of R "ic_reliableSequenceNumber x"] by (auto simp: Suc_le_eq simp del: ahead_eq_0)
  show ?case
  proof (cases "ic_reliableSequenceNumber ic = R + 1")
    case True
    have one: "ahead R (R + 1) = 1" using ahead_of_nat [of 1 R] by simp
    have later: "1 < ahead R (ic_reliableSequenceNumber x)" if "x \<in> set q" for x
      using that Cons.prems(2) True one by auto
    have shift: "ahead (R + 1) (ic_reliableSequenceNumber x) = ahead R (ic_reliableSequenceNumber x) - 1" if "x \<in> set q" for x
      using ahead_shift [of 1 R] later [OF that] by simp
    obtain moved' where scan: "reliable_scan (R + 1) q = (m, moved', left)" "moved = ic # moved'"
      using Cons.prems(1,4) True by (auto simp: last_sequence_number_def split: prod.splits)
    have sorted: "queue_sorted R q" using Cons.prems(2) by simp
    have "queue_sorted (R + 1) q"
    proof (rule sorted_wrt_mono_rel [OF _ sorted])
      fix x y
      assume "x \<in> set q" "y \<in> set q"
        "ahead R (ic_reliableSequenceNumber x) < ahead R (ic_reliableSequenceNumber y)"
      then show "ahead (R + 1) (ic_reliableSequenceNumber x) < ahead (R + 1) (ic_reliableSequenceNumber y)"
        using shift [of x] shift [of y] later [of x] by linarith
    qed
    moreover have "\<forall>x \<in> set q. ic_reliableSequenceNumber x \<noteq> R + 1"
      using later one by fastforce
    ultimately have IH: "q = moved' @ left \<and> m = R + 1 + of_nat (length moved')
      \<and> map ic_reliableSequenceNumber moved' = map (\<lambda>k. R + 1 + of_nat k) [1..<Suc (length moved')]
      \<and> queue_sorted m left \<and> (\<forall>x \<in> set left. 1 < ahead m (ic_reliableSequenceNumber x))"
      using Cons.prems(1) by (intro Cons.IH [OF _ _ _ scan(1)]) simp_all
    have "map (\<lambda>k. R + of_nat k) [1..<Suc (Suc (length moved'))]
        = (R + 1) # map (\<lambda>k. R + 1 + of_nat k) [1..<Suc (length moved')]"
      by (simp add: upt_conv_Cons map_Suc_upt [symmetric] del: upt_Suc)
    moreover have "R + of_nat (length moved) = R + 1 + of_nat (length moved')"
      using scan(2) by simp
    ultimately show ?thesis using IH scan(2) True by (elim conjE, intro conjI) (simp_all del: upt_Suc)
  next
    case False
    then have res: "m = R" "moved = []" "left = ic # q"
      using Cons.prems(4) by auto
    have "1 < ahead R (ic_reliableSequenceNumber ic)"
      using pos [of ic] False ahead_number [of R "ic_reliableSequenceNumber ic"] by (cases "ahead R (ic_reliableSequenceNumber ic) = 1") auto
    then show ?thesis
      using Cons.prems(2) res by fastforce
  qed
qed simp

section \<open>The reliable receiver of a channel\<close>

text \<open>
  What \<open>enet_peer_queue_incoming_command\<close> does with a reliable command, as a function of the channel:
  the window test, the position in the queue and the dispatch loop.  The result is the commands
  moved to the peer's dispatched commands and the new channel.
\<close>

definition reliable_receive ::
  "ENetIncomingCommand \<Rightarrow> ENetChannel \<Rightarrow> ENetIncomingCommand list \<times> ENetChannel" where
  "reliable_receive ic ch =
     (let n = ic_reliableSequenceNumber ic; R = ch_incomingReliableSequenceNumber ch
      in if outside_window n ch \<or> n = R then ([], ch)
         else case reliable_position R n (rev (ch_incomingReliableCommands ch)) of
                None \<Rightarrow> ([], ch)
              | Some k \<Rightarrow>
                  (let (m, moved, left) = reliable_scan R (insert_at k ic (ch_incomingReliableCommands ch))
                   in (moved, ch\<lparr>ch_incomingReliableSequenceNumber := m,
                                ch_incomingUnreliableSequenceNumber :=
                                  (if moved = [] then ch_incomingUnreliableSequenceNumber ch else 0),
                                ch_incomingReliableCommands := left\<rparr>)))"

fun reliable_run :: "ENetIncomingCommand list \<Rightarrow> ENetChannel \<Rightarrow> ENetIncomingCommand list \<times> ENetChannel" where
  "reliable_run [] ch = ([], ch)"
| "reliable_run (ic # ics) ch =
     (let (out, ch) = reliable_receive ic ch; (outs, ch) = reliable_run ics ch in (out @ outs, ch))"

text \<open>
  The abstract state after \<open>r\<close> deliveries from the number \<open>R0\<close> on, when the numbers \<open>A\<close> have
  arrived: the queue is sorted, its first command is not the next one, and a number near \<open>R0\<close>
  that has arrived is delivered or waits in the queue.
\<close>

definition plain :: "ENetIncomingCommand \<Rightarrow> bool" where
  "plain ic \<longleftrightarrow> ic_fragmentCount ic = 0 \<and> ic_fragmentsRemaining ic = 0"

definition receiver_ok :: "u16 \<Rightarrow> nat \<Rightarrow> u16 set \<Rightarrow> ENetChannel \<Rightarrow> bool" where
  "receiver_ok R0 r A ch \<longleftrightarrow>
     (let R = ch_incomingReliableSequenceNumber ch; q = ch_incomingReliableCommands ch
      in R = R0 + of_nat r \<and> queue_sorted R q \<and> (\<forall>x \<in> set q. plain x \<and> 1 < ahead R (ic_reliableSequenceNumber x))
         \<and> (\<forall>j \<le> 0x6000. R0 + of_nat j \<in> A \<longrightarrow> r < j \<longrightarrow> R0 + of_nat j \<in> ic_reliableSequenceNumber ` set q))"

lemma ahead_between:
  assumes "r < j" "j \<le> 0x6000"
  shows "ahead (R0 + of_nat r) (R0 + of_nat j) = j - r"
proof -
  have "R0 + of_nat j = (R0 + of_nat r) + of_nat (j - r)"
    using assms by (simp add: of_nat_diff)
  then show ?thesis using assms by (simp only: ahead_of_nat)
qed

lemma receiver_discards:
  assumes "receiver_ok R0 r A ch" "reliable_receive ic ch = ([], ch)"
    "\<And>j. j \<le> 0x6000 \<Longrightarrow> r < j \<Longrightarrow> ic_reliableSequenceNumber ic = R0 + of_nat j
      \<Longrightarrow> ic_reliableSequenceNumber ic \<in> ic_reliableSequenceNumber ` set (ch_incomingReliableCommands ch)"
  shows "receiver_ok R0 r (insert (ic_reliableSequenceNumber ic) A) ch"
  using assms(1,3) unfolding receiver_ok_def Let_def by (metis insert_iff)

lemma receiver_step:
  assumes ok: "receiver_ok R0 r A ch" and plain: "plain ic" and step: "reliable_receive ic ch = (out, ch')"
  shows "receiver_ok R0 (r + length out) (insert (ic_reliableSequenceNumber ic) A) ch'
    \<and> map ic_reliableSequenceNumber out = map (\<lambda>k. R0 + of_nat (r + k)) [1..<Suc (length out)]
    \<and> set out \<subseteq> insert ic (set (ch_incomingReliableCommands ch))
    \<and> set (ch_incomingReliableCommands ch') \<subseteq> insert ic (set (ch_incomingReliableCommands ch))"
proof -
  let ?n = "ic_reliableSequenceNumber ic" and ?R = "ch_incomingReliableSequenceNumber ch"
    and ?q = "ch_incomingReliableCommands ch"
  have R: "?R = R0 + of_nat r" and sorted: "queue_sorted ?R ?q"
    and ahead1: "\<forall>x \<in> set ?q. plain x \<and> 1 < ahead ?R (ic_reliableSequenceNumber x)"
    and arrived: "\<And>j. j \<le> 0x6000 \<Longrightarrow> R0 + of_nat j \<in> A \<Longrightarrow> r < j \<Longrightarrow> R0 + of_nat j \<in> ic_reliableSequenceNumber ` set ?q"
    using ok unfolding receiver_ok_def Let_def by blast+
  consider (out) "outside_window ?n ch \<or> ?n = ?R"
    | (dup) "?n \<noteq> ?R" "\<not> outside_window ?n ch" "reliable_position ?R ?n (rev ?q) = None"
    | (ins) k where "?n \<noteq> ?R" "\<not> outside_window ?n ch" "reliable_position ?R ?n (rev ?q) = Some k"
    by fastforce
  then show ?thesis
  proof cases
    case out
    then have res: "out = []" "ch' = ch" using step by (auto simp: reliable_receive_def Let_def)
    have "\<not> (j \<le> 0x6000 \<and> r < j \<and> ?n = R0 + of_nat j)" for j
      using out ahead_between [of r j R0] near_inside_window [of ch ?n] ahead_eq_0 [of ?R ?n] R
      by (auto simp del: ahead_eq_0)
    then have "receiver_ok R0 r (insert ?n A) ch"
      using receiver_discards [OF ok] step res by blast
    then show ?thesis using res by auto
  next
    case dup
    then have res: "out = []" "ch' = ch" using step by (auto simp: reliable_receive_def Let_def)
    have "receiver_ok R0 r (insert ?n A) ch"
      using receiver_discards [OF ok] step res reliable_position_None [OF dup(3,1)] by blast
    then show ?thesis using res by auto
  next
    case ins
    let ?q' = "insert_at k ic ?q"
    obtain m left where scan: "reliable_scan ?R ?q' = (m, out, left)"
      and ch': "ch_incomingReliableSequenceNumber ch' = m" "ch_incomingReliableCommands ch' = left"
      using step ins by (auto simp: reliable_receive_def Let_def split: prod.splits)
    note pos = reliable_position_Some [OF ins(3,1) sorted]
    have sorted': "queue_sorted ?R ?q'" using pos sorted by (intro sorted_insert_at) auto
    have "\<forall>x \<in> set ?q'. ic_fragmentCount x = 0 \<and> ic_fragmentsRemaining x = 0"
      using ahead1 plain by (auto simp: plain_def)
    moreover have "\<forall>x \<in> set ?q'. ic_reliableSequenceNumber x \<noteq> ?R"
      using ahead1 ins(1) by fastforce
    ultimately have run: "?q' = out @ left" "m = ?R + of_nat (length out)"
      "map ic_reliableSequenceNumber out = map (\<lambda>k. ?R + of_nat k) [1..<Suc (length out)]"
      "queue_sorted m left" "\<forall>x \<in> set left. 1 < ahead m (ic_reliableSequenceNumber x)"
      using scan_numbers [OF _ sorted' _ scan] by blast+
    have sub: "set out \<union> set left = insert ic (set ?q)"
      using run(1) set_insert_at [of k ic ?q] by (metis set_append)
    have near: "R0 + of_nat j \<in> ic_reliableSequenceNumber ` set left"
      if j: "j \<le> 0x6000" "R0 + of_nat j \<in> insert ?n A" "r + length out < j" for j
    proof -
      have "R0 + of_nat j \<in> ic_reliableSequenceNumber ` (set out \<union> set left)"
        using arrived [OF j(1)] j(2,3) sub by auto
      moreover have "R0 + of_nat j \<notin> ic_reliableSequenceNumber ` set out"
      proof
        assume "R0 + of_nat j \<in> ic_reliableSequenceNumber ` set out"
        then have "R0 + of_nat j \<in> set (map (\<lambda>k. ?R + of_nat k) [1..<Suc (length out)])"
          using run(3) by (metis set_map)
        then obtain t where t: "1 \<le> t" "t \<le> length out" "R0 + of_nat j = ?R + of_nat t" by auto
        have "ahead ?R (R0 + of_nat j) = j - r" using j(1,3) unfolding R by (intro ahead_between) auto
        moreover have "ahead ?R (R0 + of_nat j) = t"
          unfolding t(3) using j(1,3) t(2) by (intro ahead_of_nat) linarith
        ultimately show False using t(2) j(3) by linarith
      qed
      ultimately show ?thesis by blast
    qed
    have "receiver_ok R0 (r + length out) (insert ?n A) ch'"
      unfolding receiver_ok_def Let_def ch'
    proof (intro conjI)
      show "m = R0 + of_nat (r + length out)" using run(2) R by simp
      show "\<forall>x \<in> set left. plain x \<and> 1 < ahead m (ic_reliableSequenceNumber x)"
        using run(5) sub ahead1 plain by (metis Un_iff insert_iff)
    qed (use run(4) near in blast)+
    moreover have "map ic_reliableSequenceNumber out = map (\<lambda>k. R0 + of_nat (r + k)) [1..<Suc (length out)]"
      using run(3) R by (simp add: add.assoc del: upt_Suc)
    ultimately show ?thesis using sub ch'(2) by blast
  qed
qed

lemma receiver_run:
  assumes "receiver_ok R0 r A ch" "\<forall>ic \<in> set ics. plain ic" "reliable_run ics ch = (out, ch')"
  shows "receiver_ok R0 (r + length out) (A \<union> ic_reliableSequenceNumber ` set ics) ch'
    \<and> map ic_reliableSequenceNumber out = map (\<lambda>k. R0 + of_nat (r + k)) [1..<Suc (length out)]
    \<and> set out \<subseteq> set ics \<union> set (ch_incomingReliableCommands ch)"
  using assms
proof (induction ics arbitrary: r A ch out)
  case (Cons ic ics)
  obtain o1 ch1 o2 where step: "reliable_receive ic ch = (o1, ch1)" "reliable_run ics ch1 = (o2, ch')" "out = o1 @ o2"
    using Cons.prems(3) by (auto split: prod.splits)
  note one = receiver_step [OF Cons.prems(1) _ step(1)]
  have one': "receiver_ok R0 (r + length o1) (insert (ic_reliableSequenceNumber ic) A) ch1"
    "map ic_reliableSequenceNumber o1 = map (\<lambda>k. R0 + of_nat (r + k)) [1..<Suc (length o1)]"
    "set o1 \<subseteq> insert ic (set (ch_incomingReliableCommands ch))"
    "set (ch_incomingReliableCommands ch1) \<subseteq> insert ic (set (ch_incomingReliableCommands ch))"
    using one Cons.prems(2) by auto
  have two: "receiver_ok R0 (r + length o1 + length o2) (insert (ic_reliableSequenceNumber ic) A \<union> ic_reliableSequenceNumber ` set ics) ch'"
    "map ic_reliableSequenceNumber o2 = map (\<lambda>k. R0 + of_nat (r + length o1 + k)) [1..<Suc (length o2)]"
    "set o2 \<subseteq> set ics \<union> set (ch_incomingReliableCommands ch1)"
    using Cons.IH [OF one'(1) _ step(2)] Cons.prems(2) by auto
  have "[1..<Suc (length out)] = [1..<Suc (length o1)] @ map (\<lambda>k. length o1 + k) [1..<Suc (length o2)]"
    by (rule nth_equalityI) (auto simp: step(3) nth_append simp del: upt_Suc)
  then have "map ic_reliableSequenceNumber out = map (\<lambda>k. R0 + of_nat (r + k)) [1..<Suc (length out)]"
    using one'(2) two(2) by (simp add: step(3) add.assoc comp_def del: upt_Suc)
  moreover have "receiver_ok R0 (r + length out) (A \<union> ic_reliableSequenceNumber ` set (ic # ics)) ch'"
    using two(1) by (simp add: step(3) add.assoc)
  ultimately show ?case
    using one'(3,4) two(3) step(3) by auto
qed simp

text \<open>C1: Reliable delivery is exactly once and in order: however reliable commands arrive on a channel (late,
  repeatedly, in any order), the delivered ones have consecutive sequence numbers from the channel's
  next one on, and all of a window of numbers are delivered as soon as each has arrived once.\<close>

theorem reliable_delivery_exactly_once_in_order:
  assumes "ch_incomingReliableCommands ch = []" "\<forall>ic \<in> set ics. plain ic" "reliable_run ics ch = (out, ch')"
    and "R0 = ch_incomingReliableSequenceNumber ch"
  shows "map ic_reliableSequenceNumber out = map (\<lambda>k. R0 + of_nat k) [1..<Suc (length out)]
    \<and> set out \<subseteq> set ics \<and> ch_incomingReliableSequenceNumber ch' = R0 + of_nat (length out)
    \<and> (\<forall>k \<le> 0x6000. (\<forall>j \<in> {1..k}. R0 + of_nat j \<in> ic_reliableSequenceNumber ` set ics) \<longrightarrow> k \<le> length out)"
proof -
  have "receiver_ok R0 0 {} ch" using assms(1,4) by (simp add: receiver_ok_def)
  note run = receiver_run [OF this assms(2,3)]
  have "k \<le> length out"
    if k: "k \<le> 0x6000" and all: "\<forall>j \<in> {1..k}. R0 + of_nat j \<in> ic_reliableSequenceNumber ` set ics" for k
  proof (rule ccontr)
    assume less: "\<not> k \<le> length out"
    let ?j = "Suc (length out)" and ?R = "ch_incomingReliableSequenceNumber ch'"
    have inv: "\<forall>j \<le> 0x6000. R0 + of_nat j \<in> ic_reliableSequenceNumber ` set ics \<longrightarrow> length out < j \<longrightarrow>
        R0 + of_nat j \<in> ic_reliableSequenceNumber ` set (ch_incomingReliableCommands ch')"
      using run unfolding receiver_ok_def Let_def by simp
    have R: "?R = R0 + of_nat (length out)" using run by (simp add: receiver_ok_def Let_def)
    have "R0 + of_nat ?j \<in> ic_reliableSequenceNumber ` set (ch_incomingReliableCommands ch')"
      using inv [rule_format, of ?j] all [rule_format, of ?j] less k by simp
    moreover have "ahead ?R (R0 + of_nat ?j) = 1"
      using ahead_between [of "length out" ?j R0] less k by (simp add: R)
    ultimately show False
      using run unfolding receiver_ok_def Let_def by fastforce
  qed
  then show ?thesis
    using run assms(1) by (simp add: receiver_ok_def Let_def del: upt_Suc)
qed

definition sample_reliable :: "u16 \<Rightarrow> ENetIncomingCommand" where
  "sample_reliable n = \<lparr>ic_addr = 0, ic_reliableSequenceNumber = n, ic_unreliableSequenceNumber = 0,
     ic_command = \<lparr>hd_command = 0x86, hd_channelID = 0, hd_reliableSequenceNumber = n, pr_body = SendReliable 0\<rparr>,
     ic_fragmentCount = 0, ic_fragmentsRemaining = 0, ic_fragments = [], ic_packet = 7\<rparr>"

theorem reliable_scan_longest_run_witness:
  "\<exists>m moved left. reliable_scan 0 [sample_reliable 1, sample_reliable 3] = (m, moved, left)
     \<and> in_sequence 0 moved m \<and> left = [sample_reliable 3]"
  using reliable_scan_longest_run [of 0 "[sample_reliable 1, sample_reliable 3]"]
  by (auto simp: sample_reliable_def last_sequence_number_def split: if_splits)

theorem reliable_delivery_exactly_once_in_order_witness:
  "\<exists>out ch'. reliable_run [sample_reliable 2, sample_reliable 1, sample_reliable 1, sample_reliable 3] sample_channel
      = (out, ch') \<and> 3 \<le> length out \<and> map ic_reliableSequenceNumber out = map of_nat [1..<Suc (length out)]"
proof -
  let ?ics = "[sample_reliable 2, sample_reliable 1, sample_reliable 1, sample_reliable 3]"
  obtain out ch' where run: "reliable_run ?ics sample_channel = (out, ch')" by force
  have "\<forall>ic \<in> set ?ics. plain ic" by (simp add: plain_def sample_reliable_def)
  note t = reliable_delivery_exactly_once_in_order [OF _ this run refl]
  have "R0 + of_nat j \<in> ic_reliableSequenceNumber ` set ?ics"
    if "R0 = 0" "j \<in> {1..3}" for j :: nat and R0
  proof -
    have "j = 1 \<or> j = 2 \<or> j = 3" using that by auto
    then show ?thesis using that by (auto simp: sample_reliable_def)
  qed
  then have "3 \<le> length out"
    using t by (simp add: sample_channel_def)
  then show ?thesis using t run by (simp add: sample_channel_def del: upt_Suc)
qed

section \<open>\<open>enet_peer_queue_incoming_command\<close> is the reliable receiver\<close>

lemma needs_dispatch_peer:
  assumes "i < length (h_peers h)"
  shows "p_dispatchedCommands (peer_at (needs_dispatch i h) i) = p_dispatchedCommands (peer_at h i)"
    and "p_channels (peer_at (needs_dispatch i h) i) = p_channels (peer_at h i)"
proof -
  have "peer_at (dispatch_insert i h) i = peer_at h i" "length (h_peers (dispatch_insert i h)) = length (h_peers h)"
    by (simp_all add: dispatch_insert_def peer_at_def raise_fault_def)
  then show "p_dispatchedCommands (peer_at (needs_dispatch i h) i) = p_dispatchedCommands (peer_at h i)"
    "p_channels (peer_at (needs_dispatch i h) i) = p_channels (peer_at h i)"
    using assms by (simp_all add: needs_dispatch_def)
qed

lemma dispatch_reliable_channel:
  assumes "i < length (h_peers h)" "unat c < length (p_channels (peer_at h i))"
    and "ch = channel_at (peer_at h i) c" "ch_incomingUnreliableCommands ch = []"
    and "reliable_scan (ch_incomingReliableSequenceNumber ch) (ch_incomingReliableCommands ch) = (m, moved, left)"
    and "h' = enet_peer_dispatch_incoming_reliable_commands i c queued h"
  shows "p_dispatchedCommands (peer_at h' i) = p_dispatchedCommands (peer_at h i) @ moved
    \<and> channel_at (peer_at h' i) c = (if moved = [] then ch else
        ch\<lparr>ch_incomingReliableSequenceNumber := m, ch_incomingUnreliableSequenceNumber := 0,
           ch_incomingReliableCommands := left\<rparr>)"
  using assms needs_dispatch_peer
  by (auto simp: enet_peer_dispatch_incoming_reliable_commands_def Let_def channel_at_def upd_channel_def)

text \<open>C2: On a channel without unreliable commands waiting, \<open>enet_peer_queue_incoming_command\<close> on a reliable command or
  fragment is the reliable receiver: it leaves the channel the receiver leaves and appends the commands the
  receiver delivers to the peer's dispatched commands.\<close>

theorem queue_incoming_refines_receiver:
  assumes i: "i < length (h_peers h)" and c: "c = hd_channelID command" "unat c < length (p_channels (peer_at h i))"
    and rel: "is_reliable_number (command_number command)"
    and state: "p_state (peer_at h i) \<noteq> DISCONNECT_LATER"
    and waiting: "p_totalWaitingData (peer_at h i) < h_maximumWaitingData h"
    and alloc: "allocate_incoming data dataLength flags fragmentCount h = (Some (packet, addr, bits), h1)"
    and ch: "ch = channel_at (peer_at h i) c" "ch_incomingUnreliableCommands ch = []"
    and ic: "ic = \<lparr>ic_addr = addr, ic_reliableSequenceNumber = hd_reliableSequenceNumber command,
               ic_unreliableSequenceNumber = 0, ic_command = command, ic_fragmentCount = fragmentCount,
               ic_fragmentsRemaining = fragmentCount, ic_fragments = bits, ic_packet = packet\<rparr>"
    and run: "enet_peer_queue_incoming_command i command data dataLength flags fragmentCount h = (r, h')"
      "reliable_receive ic ch = (out, ch')"
  shows "p_dispatchedCommands (peer_at h' i) = p_dispatchedCommands (peer_at h i) @ out
    \<and> channel_at (peer_at h' i) c = ch'"
proof -
  let ?n = "hd_reliableSequenceNumber command" and ?R = "ch_incomingReliableSequenceNumber ch"
    and ?q = "ch_incomingReliableCommands ch"
  have number: "command_number command \<noteq> ENET_PROTOCOL_COMMAND_SEND_UNSEQUENCED"
    "\<not> is_unreliable_number (command_number command)"
    using rel by (auto simp: is_reliable_number_def is_unreliable_number_def)
  have pos: "incoming_position (peer_at h i) command =
      (if outside_window ?n ch \<or> ?n = ?R then None else reliable_position ?R ?n (rev ?q))"
    using rel state number by (simp add: incoming_position_def Let_def ch(1) c(1))
  show ?thesis
  proof (cases "incoming_position (peer_at h i) command")
    case None
    then have "h' = h" using run(1) by (simp add: enet_peer_queue_incoming_command_def)
    moreover have "out = []" "ch' = ch"
      using None run(2) pos by (auto simp: reliable_receive_def Let_def ic split: if_splits)
    ultimately show ?thesis using ch(1) by simp
  next
    case (Some k)
    let ?h = "upd_peer i (\<lambda>p. p\<lparr>p_totalWaitingData := p_totalWaitingData p + of_nat dataLength\<rparr>) (packet_addref 1 packet h1)"
    let ?g = "upd_peer i (upd_channel c (\<lambda>ch. ch\<lparr>ch_incomingReliableCommands :=
                insert_at k ic (ch_incomingReliableCommands ch)\<rparr>)) ?h"
    have same: "memory.more (packet_addref 1 packet h1) = memory.more h"
      using more_allocate_incoming [of data dataLength flags fragmentCount h] alloc by (simp add: more_addref)
    have peers: "length (h_peers (packet_addref 1 packet h1)) = length (h_peers h)"
      "peer_at (packet_addref 1 packet h1) i = peer_at h i"
      using more_host_fields [OF same] by simp_all
    have h': "h' = enet_peer_dispatch_incoming_reliable_commands i c (Some addr) ?g"
      using run(1) Some alloc rel number linorder_not_le [THEN iffD2, OF waiting]
      by (simp add: enet_peer_queue_incoming_command_def Let_def command_unreliableSequenceNumber_def c(1) ic)
    obtain m moved left where scan: "reliable_scan ?R (insert_at k ic ?q) = (m, moved, left)"
      by (cases "reliable_scan ?R (insert_at k ic ?q)")
    have g: "channel_at (peer_at ?g i) c = ch\<lparr>ch_incomingReliableCommands := insert_at k ic ?q\<rparr>"
      "p_dispatchedCommands (peer_at ?g i) = p_dispatchedCommands (peer_at h i)"
      "unat c < length (p_channels (peer_at ?g i))" "i < length (h_peers ?g)"
      using i c(2) peers by (simp_all add: ch(1) channel_at_def upd_channel_def)
    have d: "p_dispatchedCommands (peer_at h' i) = p_dispatchedCommands (peer_at ?g i) @ moved
      \<and> channel_at (peer_at h' i) c = (if moved = [] then ch\<lparr>ch_incomingReliableCommands := insert_at k ic ?q\<rparr> else
        ch\<lparr>ch_incomingReliableSequenceNumber := m, ch_incomingUnreliableSequenceNumber := 0,
           ch_incomingReliableCommands := left\<rparr>)"
      using dispatch_reliable_channel [OF g(4,3) _ _ _ h', of "ch\<lparr>ch_incomingReliableCommands := insert_at k ic ?q\<rparr>" m moved left]
        g(1) ch(2) scan by (simp split: if_splits)
    have rec: "out = moved" "ch' = ch\<lparr>ch_incomingReliableSequenceNumber := m, ch_incomingUnreliableSequenceNumber :=
        (if moved = [] then ch_incomingUnreliableSequenceNumber ch else 0), ch_incomingReliableCommands := left\<rparr>"
      using run(2) Some pos scan by (auto simp: reliable_receive_def Let_def ic split: if_splits)
    have "moved = [] \<Longrightarrow> m = ?R \<and> left = insert_at k ic ?q"
      using reliable_scan_run [of ?R "insert_at k ic ?q"] scan by auto
    then show ?thesis using d rec g(2) by (cases "moved = []") auto
  qed
qed

theorem queue_incoming_refines_receiver_witness:
  "\<exists>ic. let command = \<lparr>hd_command = 0x86, hd_channelID = 0, hd_reliableSequenceNumber = 1, pr_body = SendReliable 1\<rparr>;
       h' = snd (enet_peer_queue_incoming_command 0 command (Some [65]) 1 1 0 (sample_host [sample_peer]))
     in p_dispatchedCommands (peer_at h' 0) = [ic] \<and> ic_packet ic = 8"
proof -
  let ?command = "\<lparr>hd_command = 0x86, hd_channelID = 0, hd_reliableSequenceNumber = 1, pr_body = SendReliable 1\<rparr> :: ENetProtocol"
  let ?h = "sample_host [sample_peer]"
  let ?ic = "\<lparr>ic_addr = 10, ic_reliableSequenceNumber = 1, ic_unreliableSequenceNumber = 0, ic_command = ?command,
     ic_fragmentCount = 0, ic_fragmentsRemaining = 0, ic_fragments = [], ic_packet = 8\<rparr>"
  obtain r h' where run: "enet_peer_queue_incoming_command 0 ?command (Some [65]) 1 1 0 ?h = (r, h')"
    by force
  obtain h1 where alloc: "allocate_incoming (Some [65]) 1 1 0 ?h = (Some (8, 10, []), h1)"
    by (simp add: allocate_incoming_def enet_packet_create_def enet_malloc_def sample_host_def has_flag_def Let_def)
  have peer: "peer_at ?h 0 = sample_peer" by (simp add: sample_host_def peer_at_def)
  have out: "reliable_receive ?ic sample_channel = ([?ic], snd (reliable_receive ?ic sample_channel))"
    by (simp add: reliable_receive_def outside_window_ahead ahead_def sample_channel_def insert_at_def)
  have chan: "channel_at (peer_at ?h 0) 0 = sample_channel"
    by (simp add: peer channel_at_def) (simp add: sample_peer_def)
  have "p_dispatchedCommands (peer_at h' 0) = p_dispatchedCommands (peer_at ?h 0) @ [?ic]
      \<and> channel_at (peer_at h' 0) 0 = snd (reliable_receive ?ic sample_channel)"
    by (rule queue_incoming_refines_receiver [OF _ _ _ _ _ _ alloc _ _ _ run out])
      (simp_all add: peer chan, simp_all add: peer_at_def channel_at_def sample_peer_def sample_channel_def sample_host_def
        is_reliable_number_def command_number_def)
  moreover have "p_dispatchedCommands (peer_at ?h 0) = []"
    by (simp add: peer) (simp add: sample_peer_def)
  ultimately show ?thesis using run by (intro exI [of _ ?ic]) simp
qed

end
