(* ===== verification/Enet_References.thy ===== *)
theory Enet_References
  imports Enet_Sending
begin

text \<open>
  The references a peer's queues hold, and that sending and emptying the queues keep the
  reference counts of packets equal to them.  Also what a reset leaves behind in the dispatch
  queue.
\<close>


section \<open>The references of a peer's queues\<close>

definition outgoing_refs :: "ENetOutgoingCommand list \<Rightarrow> nat multiset" where
  "outgoing_refs ocs = mset (List.map_filter oc_packet ocs)"

definition incoming_refs :: "ENetIncomingCommand list \<Rightarrow> nat multiset" where
  "incoming_refs ics = mset (map ic_packet ics)"

definition channel_refs :: "ENetChannel \<Rightarrow> nat multiset" where
  "channel_refs ch = incoming_refs (ch_incomingReliableCommands ch) + incoming_refs (ch_incomingUnreliableCommands ch)"

definition peer_refs :: "ENetPeer \<Rightarrow> nat multiset" where
  "peer_refs p = outgoing_refs (p_sentReliableCommands p) + outgoing_refs (p_outgoingCommands p)
     + outgoing_refs (p_outgoingSendReliableCommands p) + incoming_refs (p_dispatchedCommands p)
     + (\<Sum>ch \<leftarrow> p_channels p. channel_refs ch)"

lemma outgoing_refs_simps [simp]:
  "outgoing_refs [] = {#}"
  "outgoing_refs (oc # ocs) = (case oc_packet oc of None \<Rightarrow> {#} | Some pk \<Rightarrow> {#pk#}) + outgoing_refs ocs"
  "outgoing_refs (xs @ ys) = outgoing_refs xs + outgoing_refs ys"
  by (simp_all add: outgoing_refs_def map_filter_def split: option.splits)

lemma incoming_refs_simps [simp]:
  "incoming_refs [] = {#}" "incoming_refs (ic # ics) = add_mset (ic_packet ic) (incoming_refs ics)"
  "incoming_refs (xs @ ys) = incoming_refs xs + incoming_refs ys"
  by (simp_all add: incoming_refs_def)

lemma sum_channel_refs_upd:
  assumes "channel_refs (f (chs ! n)) = channel_refs (chs ! n)"
  shows "(\<Sum>ch \<leftarrow> chs[n := f (chs ! n)]. channel_refs ch) = (\<Sum>ch \<leftarrow> chs. channel_refs ch)"
proof -
  have "map channel_refs (chs[n := f (chs ! n)]) = map channel_refs chs"
    using assms by (cases "n < length chs") (auto simp: map_update list_update_beyond intro!: nth_equalityI simp: nth_list_update)
  then show ?thesis by simp
qed

lemma peer_refs_upd_channel:
  assumes "\<And>ch. channel_refs (f ch) = channel_refs ch"
  shows "peer_refs (upd_channel c f p) = peer_refs p"
  using sum_channel_refs_upd [of f "p_channels p" "unat c"] assms
  by (simp add: upd_channel_def peer_refs_def)

lemma number_outgoing_refs:
  "peer_refs (snd (number_outgoing_command oc p)) = peer_refs p"
  "oc_packet (fst (number_outgoing_command oc p)) = oc_packet oc"
proof -
  have fields: "peer_refs (p\<lparr>p_outgoingReliableSequenceNumber := n\<rparr>) = peer_refs p"
    "peer_refs (p\<lparr>p_outgoingUnsequencedGroup := n\<rparr>) = peer_refs p" for n
    by (simp_all add: peer_refs_def)
  show "peer_refs (snd (number_outgoing_command oc p)) = peer_refs p"
    by (simp add: number_outgoing_command_def Let_def fields peer_refs_upd_channel channel_refs_def)
  show "oc_packet (fst (number_outgoing_command oc p)) = oc_packet oc"
    by (simp add: number_outgoing_command_def Let_def)
qed

lemma peer_refs_setup:
  "peer_refs (setup_outgoing_command queued oc p)
     = (case oc_packet oc of None \<Rightarrow> {#} | Some pk \<Rightarrow> {#pk#}) + peer_refs p"
proof -
  have q: "peer_refs (p\<lparr>p_outgoingDataTotal := t\<rparr>) = peer_refs p" for t by (simp add: peer_refs_def)
  have outs: "peer_refs (r\<lparr>p_outgoingSendReliableCommands := p_outgoingSendReliableCommands r @ [c]\<rparr>)
      = (case oc_packet c of None \<Rightarrow> {#} | Some pk \<Rightarrow> {#pk#}) + peer_refs r"
    "peer_refs (r\<lparr>p_outgoingCommands := p_outgoingCommands r @ [c]\<rparr>)
      = (case oc_packet c of None \<Rightarrow> {#} | Some pk \<Rightarrow> {#pk#}) + peer_refs r" for r c
    by (simp_all add: peer_refs_def ac_simps)
  show ?thesis
    by (simp add: setup_outgoing_command_def Let_def case_prod_beta outs number_outgoing_refs q)
qed

lemma fold_setup_frame:
  assumes "i < length (h_peers h)"
    "\<forall>oc \<in> set ocs. hd_channelID (oc_command oc) \<noteq> 0xFF
       \<longrightarrow> unat (hd_channelID (oc_command oc)) < length (p_channels (peer_at h i))"
  shows "peer_refs (peer_at (fold (enet_peer_setup_outgoing_command i) ocs h) i) = outgoing_refs ocs + peer_refs (peer_at h i)
    \<and> (\<forall>j. j \<noteq> i \<longrightarrow> peer_at (fold (enet_peer_setup_outgoing_command i) ocs h) j = peer_at h j)
    \<and> length (h_peers (fold (enet_peer_setup_outgoing_command i) ocs h)) = length (h_peers h)
    \<and> en_packets (fold (enet_peer_setup_outgoing_command i) ocs h) = en_packets h
    \<and> en_fault (fold (enet_peer_setup_outgoing_command i) ocs h) = en_fault h"
  using assms
proof (induction ocs arbitrary: h)
  case (Cons oc ocs)
  let ?h = "enet_peer_setup_outgoing_command i oc h"
  have chan: "hd_channelID (oc_command oc) \<noteq> 0xFF \<longrightarrow> unat (hd_channelID (oc_command oc)) < length (p_channels (peer_at h i))"
    using Cons.prems by simp
  note f = setup_frame [OF Cons.prems(1) chan]
  obtain q where q: "peer_at ?h i = setup_outgoing_command q oc (peer_at h i)" using f(1) by blast
  show ?case
    using Cons.IH [of ?h] Cons.prems f(2-) by (simp add: q peer_refs_setup)
qed simp

lemma outgoing_refs_same: "\<forall>oc \<in> set ocs. oc_packet oc = Some packet \<Longrightarrow> outgoing_refs ocs = replicate_mset (length ocs) packet"
  by (induction ocs) auto

text \<open>C19: A send that succeeds takes exactly as many references to the packet as the commands it queues on
  the peer hold, so reference counts keep agreeing with the queues; no other peer changes and no
  memory error occurs.\<close>

theorem send_takes_references:
  assumes mtu: "ENET_PROTOCOL_MINIMUM_MTU \<le> p_mtu (peer_at h i)" "p_mtu (peer_at h i) \<le> ENET_PROTOCOL_MAXIMUM_MTU"
    and pk: "en_packets h packet = Some pk" "pk_dataLength pk < 2 ^ 32"
    and i: "i < length (h_peers h)" and chans: "length (p_channels (peer_at h i)) = p_channelCount (peer_at h i)"
    and ok: "refs_ok M h" and sent: "enet_peer_send i channelID packet h = Some (0, h')"
  shows "\<exists>n. 0 < n \<and> peer_refs (peer_at h' i) = replicate_mset n packet + peer_refs (peer_at h i)
    \<and> refs_ok (M + replicate_mset n packet) h' \<and> en_fault h' = en_fault h
    \<and> (\<forall>j. j \<noteq> i \<longrightarrow> peer_at h' j = peer_at h j)"
proof -
  obtain n j ocs where ocs: "0 < n" "length ocs = n" "unat channelID < p_channelCount (peer_at h i)"
    "\<forall>oc \<in> set ocs. oc_packet oc = Some packet \<and> hd_channelID (oc_command oc) = channelID"
    "h' = fold (enet_peer_setup_outgoing_command i) ocs (packet_addref (of_nat n) packet (h\<lparr>en_next := en_next h + j\<rparr>))"
    using enet_peer_send_cases [OF mtu pk, of channelID] unfolding sent by (elim disjE exE conjE) (simp, blast+)
  let ?h = "packet_addref (of_nat n) packet (h\<lparr>en_next := en_next h + j\<rparr>)"
  have same: "peer_at ?h = peer_at h" "h_peers ?h = h_peers h"
    using pk(1) by (auto simp: packet_addref_def peer_at_def fun_eq_iff)
  have "refs_ok M (h\<lparr>en_next := en_next h + j\<rparr>)" using ok by (simp add: refs_ok_def)
  then have addref: "refs_ok (M + replicate_mset n packet) ?h" "en_fault ?h = en_fault h"
    using refs_ok_addref [of M "h\<lparr>en_next := en_next h + j\<rparr>" packet pk n] pk(1) by simp_all
  have chan: "\<forall>oc \<in> set ocs. hd_channelID (oc_command oc) \<noteq> 0xFF
      \<longrightarrow> unat (hd_channelID (oc_command oc)) < length (p_channels (peer_at ?h i))"
    using ocs(3,4) chans same by simp
  have i': "i < length (h_peers ?h)" using i same by simp
  note f = fold_setup_frame [OF i' chan]
  have "refs_ok (M + replicate_mset n packet) h'"
    using addref(1) f unfolding ocs(5) by (simp add: refs_ok_def)
  then show ?thesis
    using f ocs(1,2,4) addref(2) same unfolding ocs(5)
    using outgoing_refs_same [of ocs packet] by (intro exI [of _ n]) auto
qed

theorem send_takes_references_witness:
  "\<exists>h' n. enet_peer_send 0 0 7 (sample_host [sample_peer]) = Some (0, h') \<and> 0 < n
     \<and> refs_ok (replicate_mset n 7) h'"
proof -
  let ?h = "sample_host [sample_peer]"
  obtain h' where sent: "enet_peer_send 0 0 7 ?h = Some (0, h')"
    by (simp add: sample_defs enet_peer_send_def send_fragment_length_def Let_def enet_peer_queue_outgoing_command_def
        malloc_cases peer_at_def)
  have "refs_ok {#} ?h" by (simp add: refs_ok_def sample_defs)
  then show ?thesis
    using send_takes_references [of ?h 0 7 _ "{#}" 0 h'] sent
    by (auto simp: sample_defs peer_at_def)
qed

section \<open>Emptying the queues gives every reference back\<close>

lemma outgoing_unref_ok:
  assumes "refs_ok ((case oc_packet oc of None \<Rightarrow> {#} | Some pk \<Rightarrow> {#pk#}) + M) m" "Suc (size M) < 2 ^ 64"
  shows "refs_ok M (outgoing_unref extra oc m) \<and> en_fault (outgoing_unref extra oc m) = en_fault m"
proof (cases "oc_packet oc")
  case None
  then show ?thesis using assms by (simp add: outgoing_unref_def)
next
  case (Some pk)
  have "count M pk \<le> size M" by (rule count_le_size)
  then show ?thesis
    using refs_ok_unref [of pk M m extra] assms Some by (auto simp: outgoing_unref_def)
qed

lemma reset_outgoing_ok:
  "refs_ok (outgoing_refs ocs + M) m \<Longrightarrow> size (outgoing_refs ocs + M) < 2 ^ 64 \<Longrightarrow>
   refs_ok M (enet_peer_reset_outgoing_commands ocs m)
   \<and> en_fault (enet_peer_reset_outgoing_commands ocs m) = en_fault m"
proof (induction ocs arbitrary: m)
  case (Cons oc ocs)
  have "refs_ok (outgoing_refs ocs + M) (outgoing_unref 0 oc m) \<and> en_fault (outgoing_unref 0 oc m) = en_fault m"
    using Cons.prems by (cases "oc_packet oc") (simp add: outgoing_unref_def, intro outgoing_unref_ok, simp_all add: ac_simps)
  moreover have "size (outgoing_refs ocs + M) < 2 ^ 64"
    using Cons.prems(2) by (auto split: option.splits)
  ultimately show ?case using Cons.IH by simp
qed simp

lemma reset_incoming_ok:
  "refs_ok (incoming_refs ics + M) m \<Longrightarrow> size (incoming_refs ics + M) < 2 ^ 64 \<Longrightarrow>
   refs_ok M (enet_peer_reset_incoming_commands ics m)
   \<and> en_fault (enet_peer_reset_incoming_commands ics m) = en_fault m"
  unfolding enet_peer_reset_incoming_commands_def
proof (induction ics arbitrary: m)
  case (Cons ic ics)
  have "count (incoming_refs ics + M) (ic_packet ic) \<le> size (incoming_refs ics + M)" by (rule count_le_size)
  then have "refs_ok (incoming_refs ics + M) (packet_unref 0 (ic_packet ic) m)
      \<and> en_fault (packet_unref 0 (ic_packet ic) m) = en_fault m"
    using refs_ok_unref [of "ic_packet ic" "incoming_refs ics + M" m 0] Cons.prems by simp
  then show ?case using Cons.IH Cons.prems(2) by simp
qed simp

lemma reset_channel_ok:
  assumes "refs_ok (channel_refs ch + M) m" "size (channel_refs ch + M) < 2 ^ 64"
  shows "refs_ok M (reset_channel ch m) \<and> en_fault (reset_channel ch m) = en_fault m"
proof -
  let ?m = "enet_peer_reset_incoming_commands (ch_incomingReliableCommands ch) m"
  have "refs_ok (incoming_refs (ch_incomingUnreliableCommands ch) + M) ?m \<and> en_fault ?m = en_fault m"
    using assms by (intro reset_incoming_ok) (simp_all add: channel_refs_def add.assoc)
  then show ?thesis
    using reset_incoming_ok [of "ch_incomingUnreliableCommands ch" M ?m] assms(2)
    by (simp add: reset_channel_def channel_refs_def)
qed

lemma fold_reset_channel_ok:
  "refs_ok ((\<Sum>ch \<leftarrow> chs. channel_refs ch) + M) m \<Longrightarrow> size ((\<Sum>ch \<leftarrow> chs. channel_refs ch) + M) < 2 ^ 64 \<Longrightarrow>
   refs_ok M (fold reset_channel chs m) \<and> en_fault (fold reset_channel chs m) = en_fault m"
proof (induction chs arbitrary: m)
  case (Cons ch chs)
  have "refs_ok ((\<Sum>ch \<leftarrow> chs. channel_refs ch) + M) (reset_channel ch m) \<and> en_fault (reset_channel ch m) = en_fault m"
    using Cons.prems by (intro reset_channel_ok) (simp_all add: add.assoc)
  then show ?case using Cons.IH Cons.prems(2) by simp
qed simp

lemma release_queues_ok:
  assumes "refs_ok (peer_refs p + M) m" "size (peer_refs p + M) < 2 ^ 64" "p_channelCount p = length (p_channels p)"
  shows "refs_ok M (release_queues p m) \<and> en_fault (release_queues p m) = en_fault m"
proof -
  let ?C = "(\<Sum>ch \<leftarrow> p_channels p. channel_refs ch)" and ?D = "incoming_refs (p_dispatchedCommands p)"
    and ?R = "outgoing_refs (p_outgoingSendReliableCommands p)" and ?O = "outgoing_refs (p_outgoingCommands p)"
  let ?m1 = "enet_peer_reset_outgoing_commands (p_sentReliableCommands p) m"
  let ?m2 = "enet_peer_reset_outgoing_commands (p_outgoingCommands p) ?m1"
  let ?m3 = "enet_peer_reset_outgoing_commands (p_outgoingSendReliableCommands p) ?m2"
  let ?m4 = "enet_peer_reset_incoming_commands (p_dispatchedCommands p) ?m3"
  note sz = assms(2) [unfolded peer_refs_def]
  have 1: "refs_ok (?O + (?R + (?D + (?C + M)))) ?m1 \<and> en_fault ?m1 = en_fault m"
    using assms sz by (intro reset_outgoing_ok) (simp_all add: peer_refs_def add.assoc)
  have 2: "refs_ok (?R + (?D + (?C + M))) ?m2 \<and> en_fault ?m2 = en_fault ?m1"
    using 1 sz by (intro reset_outgoing_ok) simp_all
  have 3: "refs_ok (?D + (?C + M)) ?m3 \<and> en_fault ?m3 = en_fault ?m2"
    using 2 sz by (intro reset_outgoing_ok) simp_all
  have 4: "refs_ok (?C + M) ?m4 \<and> en_fault ?m4 = en_fault ?m3"
    using 3 sz by (intro reset_incoming_ok) simp_all
  have "refs_ok M (fold reset_channel (p_channels p) ?m4) \<and> en_fault (fold reset_channel (p_channels p) ?m4) = en_fault ?m4"
    using 4 sz by (intro fold_reset_channel_ok) simp_all
  then show ?thesis
    using 1 2 3 4 assms(3) by (simp add: release_queues_def)
qed


text \<open>C18: Emptying a peer's queues gives back exactly the references they held: every other reference count
  still agrees with its queue, no freed packet is touched, and the peer is left holding nothing.\<close>

theorem reset_queues_gives_references_back:
  assumes "i < length (h_peers h)" "p_channelCount (peer_at h i) = length (p_channels (peer_at h i))"
    and ok: "refs_ok (peer_refs (peer_at h i) + M) h" and sz: "size (peer_refs (peer_at h i) + M) < 2 ^ 64"
    and linked: "has_flag (p_flags (peer_at h i)) ENET_PEER_FLAG_NEEDS_DISPATCH \<longleftrightarrow> i \<in> set (h_dispatchQueue h)"
  shows "refs_ok M (enet_peer_reset_queues i h) \<and> en_fault (enet_peer_reset_queues i h) = en_fault h
    \<and> peer_refs (peer_at (enet_peer_reset_queues i h) i) = {#}"
proof -
  let ?h = "clear_needs_dispatch i h"
  have h: "en_packets ?h = en_packets h" "en_fault ?h = en_fault h" "length (h_peers ?h) = length (h_peers h)"
    using linked by (auto simp: clear_needs_dispatch_def dispatch_remove_def)
  have same: "peer_at (dispatch_remove i h) = peer_at h" "length (h_peers (dispatch_remove i h)) = length (h_peers h)"
    by (simp_all add: dispatch_remove_def peer_at_def fun_eq_iff raise_fault_def)
  have p: "peer_refs (peer_at ?h i) = peer_refs (peer_at h i)" "p_channels (peer_at ?h i) = p_channels (peer_at h i)"
    "p_channelCount (peer_at ?h i) = p_channelCount (peer_at h i)"
    using assms(1) same by (simp_all add: clear_needs_dispatch_def peer_refs_def)
  have "refs_ok M (release_queues (peer_at ?h i) ?h) \<and> en_fault (release_queues (peer_at ?h i) ?h) = en_fault ?h"
    using assms(2) ok sz refs_ok_same_packets [OF h(1)] by (intro release_queues_ok) (simp_all add: p)
  then have "refs_ok M (enet_peer_reset_queues i h) \<and> en_fault (enet_peer_reset_queues i h) = en_fault h"
    by (simp add: enet_peer_reset_queues_def Let_def h refs_ok_def)
  moreover have "peer_refs (peer_at (enet_peer_reset_queues i h) i) = {#}"
  proof -
    have "peer_refs (clear_queues p) = {#}" for p by (simp add: clear_queues_def peer_refs_def)
    moreover have "length (h_peers (release_queues (peer_at ?h i) ?h)) = length (h_peers h)"
      using more_host_fields(1) [of "release_queues (peer_at ?h i) ?h" ?h] h(3) by (simp add: mem_frame)
    ultimately show ?thesis using assms(1) by (simp add: enet_peer_reset_queues_def Let_def)
  qed
  ultimately show ?thesis by simp
qed

theorem reset_queues_gives_references_back_witness:
  "refs_ok {#} (enet_peer_reset_queues 0 (sample_host [sample_peer\<lparr>p_outgoingCommands :=
     [new_outgoing_command (host_command 0 Ping) (Some 7) 0 2]\<rparr>]\<lparr>en_packets := [7 \<mapsto> \<lparr>pk_referenceCount = 1,
       pk_flags = 0, pk_data = [], pk_dataLength = 0, pk_freeCallback = False\<rparr>]\<rparr>))"
proof -
  let ?h = "sample_host [sample_peer\<lparr>p_outgoingCommands :=
     [new_outgoing_command (host_command 0 Ping) (Some 7) 0 2]\<rparr>]\<lparr>en_packets := [7 \<mapsto> \<lparr>pk_referenceCount = 1,
       pk_flags = 0, pk_data = [], pk_dataLength = 0, pk_freeCallback = False\<rparr>]\<rparr>"
  have refs: "peer_refs (peer_at ?h 0) = {#7#}"
    by (simp add: peer_refs_def sample_defs peer_at_def new_outgoing_command_def channel_refs_def)
  have "refs_ok (peer_refs (peer_at ?h 0) + {#}) ?h"
    by (simp add: refs refs_ok_def)
  moreover have "size (peer_refs (peer_at ?h 0) + {#}) < 2 ^ 64" by (simp add: refs)
  moreover have "0 < length (h_peers ?h)" "p_channelCount (peer_at ?h 0) = length (p_channels (peer_at ?h 0))"
    "has_flag (p_flags (peer_at ?h 0)) ENET_PEER_FLAG_NEEDS_DISPATCH \<longleftrightarrow> 0 \<in> set (h_dispatchQueue ?h)"
    by (simp_all add: sample_defs peer_at_def)
  ultimately show ?thesis
    using reset_queues_gives_references_back by blast
qed

section \<open>A stale node in the dispatch queue\<close>

text \<open>C33: \<open>enet_peer_reset\<close> clears the flag that says the peer is linked in the dispatch queue before
  \<open>enet_peer_reset_queues\<close> looks at it, so a peer that is reset while linked stays linked with its flag
  clear, and the next command queued for it links the same node a second time.\<close>

theorem reset_leaves_dispatch_node:
  assumes "i < length (h_peers h)" "i \<in> set (h_dispatchQueue h)"
  shows "i \<in> set (h_dispatchQueue (enet_peer_reset i h))
    \<and> \<not> has_flag (p_flags (peer_at (enet_peer_reset i h) i)) ENET_PEER_FLAG_NEEDS_DISPATCH
    \<and> en_fault (needs_dispatch i (enet_peer_reset i h))"
proof -
  let ?h = "upd_peer i (reset_fields (h_mtu (enet_peer_on_disconnect i h))) (enet_peer_on_disconnect i h)"
  let ?r = "release_queues (peer_at ?h i) ?h"
  have dis: "h_peers (enet_peer_on_disconnect i h) = h_peers h"
    "h_dispatchQueue (enet_peer_on_disconnect i h) = h_dispatchQueue h"
    by (simp_all add: enet_peer_on_disconnect_def)
  have "clear_needs_dispatch i ?h = ?h"
    using assms(1) dis by (simp add: clear_needs_dispatch_def reset_fields_def)
  then have reset: "enet_peer_reset i h = upd_peer i clear_queues ?r"
    by (simp add: enet_peer_reset_def enet_peer_reset_queues_def Let_def)
  have same: "memory.more ?r = memory.more ?h" by (simp add: mem_frame)
  have queue: "h_dispatchQueue (enet_peer_reset i h) = h_dispatchQueue h"
    using more_host_fields(6) [OF same] dis by (simp add: reset)
  have flags: "p_flags (peer_at (enet_peer_reset i h) i) = 0"
    using more_host_fields(1,5) [OF same] dis assms(1) by (simp add: reset clear_queues_def reset_fields_def)
  show ?thesis
    using assms(2) by (simp add: needs_dispatch_def dispatch_insert_def queue flags raise_fault_def)
qed

theorem reset_leaves_dispatch_node_witness:
  "en_fault (needs_dispatch 0 (enet_peer_reset 0
     (sample_host [sample_peer\<lparr>p_flags := ENET_PEER_FLAG_NEEDS_DISPATCH\<rparr>]\<lparr>h_dispatchQueue := [0]\<rparr>)))"
  using reset_leaves_dispatch_node [of 0
    "sample_host [sample_peer\<lparr>p_flags := ENET_PEER_FLAG_NEEDS_DISPATCH\<rparr>]\<lparr>h_dispatchQueue := [0]\<rparr>"]
  by (simp add: sample_host_def)

end
