(* ===== verification/Enet_Receive.thy ===== *)
theory Enet_Receive
  imports Enet_Handlers
begin

text \<open>
  The receive path of \<^verbatim>\<open>src/protocol.c\<close>: from the socket to the handlers.  A datagram is the
  buffer \<open>h_receivedData\<close>, of which the first \<open>h_receivedDataLength\<close> bytes were received;
  what lies behind them is left from earlier datagrams.
\<close>

section \<open>The datagram header\<close>

abbreviation (input) header_peerID_size :: nat where "header_peerID_size \<equiv> 2"

record datagram_header =
  dg_peerID :: u16
  dg_sessionID :: u8
  dg_flags :: u16
  dg_headerSize :: nat

definition parse_header :: "ENetHost \<Rightarrow> datagram_header" where
  "parse_header h =
     (let peerID = get16 (h_receivedData h) 0;
          flags = peerID AND ENET_PROTOCOL_HEADER_FLAG_MASK
      in \<lparr>dg_peerID = peerID AND NOT (ENET_PROTOCOL_HEADER_FLAG_MASK OR ENET_PROTOCOL_HEADER_SESSION_MASK),
          dg_sessionID = ucast (drop_bit ENET_PROTOCOL_HEADER_SESSION_SHIFT
                                  (peerID AND ENET_PROTOCOL_HEADER_SESSION_MASK)),
          dg_flags = flags,
          dg_headerSize = (if has_flag flags ENET_PROTOCOL_HEADER_FLAG_SENT_TIME
                           then sizeof_ENetProtocolHeader else header_peerID_size)
                          + (if h_checksum h \<noteq> None then 4 else 0)\<rparr>)"

text \<open>May the sender speak for the peer?\<close>

definition wrong_sender :: "ENetHost \<Rightarrow> u8 \<Rightarrow> ENetPeer \<Rightarrow> bool" where
  "wrong_sender h sessionID p \<longleftrightarrow>
     p_state p = DISCONNECTED \<or> p_state p = ZOMBIE
     \<or> ((ad_host (h_receivedAddress h) \<noteq> ad_host (p_address p)
          \<or> ad_port (h_receivedAddress h) \<noteq> ad_port (p_address p))
         \<and> ad_host (p_address p) \<noteq> ENET_HOST_BROADCAST)
     \<or> (p_outgoingPeerID p < ENET_PROTOCOL_MAXIMUM_PEER_ID \<and> sessionID \<noteq> p_incomingSessionID p)"

text \<open>
  The peer the header names: \<open>None\<close> drops the datagram, \<open>Some None\<close> is the null peer of a
  connection request.
\<close>

definition header_peer :: "ENetHost \<Rightarrow> datagram_header \<Rightarrow> nat option option" where
  "header_peer h dg =
     (if dg_peerID dg = ENET_PROTOCOL_MAXIMUM_PEER_ID then Some None
      else if unat (dg_peerID dg) \<ge> length (h_peers h) then None
      else if wrong_sender h (dg_sessionID dg) (peer_at h (unat (dg_peerID dg))) then None
      else Some (Some (unat (dg_peerID dg))))"

text \<open>
  Decompression.  The input limit is \<open>receivedDataLength - headerSize\<close> on \<open>size_t\<close>; the
  output limit is what is left of the second packet buffer.
\<close>

definition decompress_datagram :: "datagram_header \<Rightarrow> ENetHost \<Rightarrow> ENetHost option" where
  "decompress_datagram dg h =
     (if \<not> has_flag (dg_flags dg) ENET_PROTOCOL_HEADER_FLAG_COMPRESSED then Some h
      else
        (case h_decompress h of
           None \<Rightarrow> None
         | Some decompress \<Rightarrow>
             (let hs = dg_headerSize dg;
                  limit = 4096 - of_nat hs :: u64;
                  out = decompress (drop hs (h_receivedData h))
                          (of_nat (h_receivedDataLength h) - of_nat hs) limit
              in if length out \<le> 0 \<or> length out > unat limit then None
                 else Some (h\<lparr>h_receivedData := take hs (h_receivedData h) @ out,
                              h_receivedDataLength := hs + length out\<rparr>))))"

text \<open>
  The checksum is computed over the datagram with the peer's connection identifier (or zero)
  in its place, which stays there.
\<close>

definition verify_checksum :: "datagram_header \<Rightarrow> nat option \<Rightarrow> ENetHost \<Rightarrow> ENetHost option" where
  "verify_checksum dg peer h =
     (case h_checksum h of
        None \<Rightarrow> Some h
      | Some checksum \<Rightarrow>
          (let at = dg_headerSize dg - 4;
               desired = get32_native (h_receivedData h) at;
               connectID = (case peer of None \<Rightarrow> 0 | Some i \<Rightarrow> p_connectID (peer_at h i));
               data = take at (h_receivedData h) @ put32_native connectID @ drop (at + 4) (h_receivedData h)
           in if checksum (take (h_receivedDataLength h) data) \<noteq> desired then None
              else Some (h\<lparr>h_receivedData := data\<rparr>)))"

section \<open>The command loop\<close>

text \<open>
  The \<open>switch\<close> on the command: the status, the peer, the event, the length of the payload and
  the host.  The null peer reaches only the connect handler.
\<close>

definition handle_command ::
  "nat option \<Rightarrow> ENetEvent option \<Rightarrow> ENetProtocol \<Rightarrow> nat \<Rightarrow> ENetHost
    \<Rightarrow> int \<times> nat option \<times> ENetEvent option \<times> nat \<times> ENetHost" where
  "handle_command peer event c pos h =
     (case (peer, pr_body c) of
        (None, Connect cn) \<Rightarrow>
          (case enet_protocol_handle_connect cn h of
             (None, h) \<Rightarrow> (- 1, None, event, 0, h)
           | (Some i, h) \<Rightarrow> (0, Some i, event, 0, h))
      | (None, _) \<Rightarrow> (- 1, None, event, 0, h)
      | (Some i, body) \<Rightarrow>
          (case body of
             Acknowledge n t \<Rightarrow>
               (let (r, event, h) = enet_protocol_handle_acknowledge i event (hd_channelID c) n t h
                in (r, peer, event, 0, h))
           | Connect _ \<Rightarrow> (- 1, peer, event, 0, h)
           | VerifyConnect vc \<Rightarrow>
               (let (r, event, h) = enet_protocol_handle_verify_connect i event vc h
                in (r, peer, event, 0, h))
           | Disconnect d \<Rightarrow>
               (let (r, h) = enet_protocol_handle_disconnect i c d h in (r, peer, event, 0, h))
           | Ping \<Rightarrow> (enet_protocol_handle_ping i h, peer, event, 0, h)
           | SendReliable n \<Rightarrow>
               (let ((r, len), h) = enet_protocol_handle_send_reliable i c (unat n) pos h
                in (r, peer, event, len, h))
           | SendUnreliable _ n \<Rightarrow>
               (let ((r, len), h) = enet_protocol_handle_send_unreliable i c (unat n) pos h
                in (r, peer, event, len, h))
           | SendFragment f \<Rightarrow>
               (let ((r, len), h) = enet_protocol_handle_send_fragment i c f pos h
                in (r, peer, event, len, h))
           | SendUnsequenced g n \<Rightarrow>
               (let ((r, len), h) = enet_protocol_handle_send_unsequenced i c g (unat n) pos h
                in (r, peer, event, len, h))
           | BandwidthLimit ib ob \<Rightarrow>
               (let (r, h) = enet_protocol_handle_bandwidth_limit i ib ob h in (r, peer, event, 0, h))
           | ThrottleConfigure t a d \<Rightarrow>
               (let (r, h) = enet_protocol_handle_throttle_configure i t a d h in (r, peer, event, 0, h))
           | SendUnreliableFragment f \<Rightarrow>
               (let ((r, len), h) = enet_protocol_handle_send_unreliable_fragment i c f pos h
                in (r, peer, event, len, h))))"

text \<open>
  What follows a handler for a command that asks for an acknowledgement.  The Boolean is
  \<open>False\<close> for the \<open>break\<close> out of the loop when the header has no sent time.
\<close>

definition acknowledge_command ::
  "u16 \<Rightarrow> u16 \<Rightarrow> nat option \<Rightarrow> ENetProtocol \<Rightarrow> ENetHost \<Rightarrow> bool \<times> ENetHost" where
  "acknowledge_command flags sentTime peer c h =
     (case peer of
        None \<Rightarrow> (True, h)
      | Some i \<Rightarrow>
          if \<not> has_flag (hd_command c) ENET_PROTOCOL_COMMAND_FLAG_ACKNOWLEDGE then (True, h)
          else if \<not> has_flag flags ENET_PROTOCOL_HEADER_FLAG_SENT_TIME then (False, h)
          else
            (let state = p_state (peer_at h i)
             in if state = DISCONNECTING \<or> state = ACKNOWLEDGING_CONNECT \<or> state = DISCONNECTED
                   \<or> state = ZOMBIE then (True, h)
                else if state = ACKNOWLEDGING_DISCONNECT then
                  (True, if command_number c = ENET_PROTOCOL_COMMAND_DISCONNECT
                         then snd (enet_peer_queue_acknowledgement i c sentTime h) else h)
                else (True, snd (enet_peer_queue_acknowledgement i c sentTime h))))"

text \<open>
  The loop.  \<open>data\<close> is the received part of the datagram and \<open>pos\<close> the offset of
  \<open>currentData\<close>; the handlers change neither.
\<close>

function command_loop ::
  "u8 list \<Rightarrow> u16 \<Rightarrow> u16 \<Rightarrow> nat \<Rightarrow> nat option \<Rightarrow> ENetEvent option \<Rightarrow> ENetHost
    \<Rightarrow> ENetEvent option \<times> ENetHost" where
  "command_loop data flags sentTime pos peer event h =
     (if \<not> pos < length data then (event, h)
      else
        (case decode_command (drop pos data) of
           None \<Rightarrow> (event, h)
         | Some (c, _) \<Rightarrow>
             if peer = None \<and> command_number c \<noteq> ENET_PROTOCOL_COMMAND_CONNECT then (event, h)
             else
               (case handle_command peer event c (pos + enet_protocol_command_size (hd_command c)) h of
                  (r, peer, event, len, h) \<Rightarrow>
                    if r \<noteq> 0 then (event, h)
                    else
                      (case acknowledge_command flags sentTime peer c h of
                         (False, h) \<Rightarrow> (event, h)
                       | (True, h) \<Rightarrow>
                           command_loop data flags sentTime
                             (pos + enet_protocol_command_size (hd_command c) + len) peer event h))))"
  by pat_completeness auto

text \<open>Every command has a header, so the loop advances and ends.\<close>

lemma decode_command_size:
  assumes "decode_command bs = Some (c, rest)"
  shows "0 < enet_protocol_command_size (hd_command c)"
proof -
  have "commandSizes ! unat (bs ! 0 AND ENET_PROTOCOL_COMMAND_MASK) \<noteq> 0" "hd_command c = bs ! 0"
    using assms by (auto simp: decode_command_def Let_def split: if_splits)
  then show ?thesis
    by (simp add: enet_protocol_command_size_def)
qed

termination command_loop
proof (relation "measure (\<lambda>(data, flags, sentTime, pos, peer, event, h). length data - pos)", goal_cases)
  case 1
  show ?case by simp
next
  case 2
  then show ?case
    using decode_command_size by fastforce
qed

declare command_loop.simps [simp del]

definition event_reported :: "ENetEvent option \<Rightarrow> int" where
  "event_reported event =
     (case event of None \<Rightarrow> 0 | Some ev \<Rightarrow> if ev_type ev \<noteq> ENET_EVENT_TYPE_NONE then 1 else 0)"

definition enet_protocol_handle_incoming_commands ::
  "ENetEvent option \<Rightarrow> ENetHost \<Rightarrow> int \<times> ENetEvent option \<times> ENetHost" where
  "enet_protocol_handle_incoming_commands event h =
     (if h_receivedDataLength h < header_peerID_size then (0, event, h)
      else
        (let dg = parse_header h
         in case header_peer h dg of
              None \<Rightarrow> (0, event, h)
            | Some peer \<Rightarrow>
                (case decompress_datagram dg h of
                   None \<Rightarrow> (0, event, h)
                 | Some h \<Rightarrow>
                     (case verify_checksum dg peer h of
                        None \<Rightarrow> (0, event, h)
                      | Some h \<Rightarrow>
                          (let h = (case peer of
                                      None \<Rightarrow> h
                                    | Some i \<Rightarrow>
                                        upd_peer i (\<lambda>p. p\<lparr>p_address := h_receivedAddress h,
                                            p_incomingDataTotal := p_incomingDataTotal p
                                              + of_nat (h_receivedDataLength h)\<rparr>) h);
                               (event, h) =
                                 command_loop (take (h_receivedDataLength h) (h_receivedData h)) (dg_flags dg)
                                   (get16 (h_receivedData h) 2) (dg_headerSize dg) peer event h
                           in (event_reported event, event, h))))))"

section \<open>Reading the socket\<close>

text \<open>
  \<open>enet_socket_receive\<close> of \<^verbatim>\<open>src/unix.c\<close> into a buffer of 4096 bytes: the number it returns,
  the sender and the bytes.  A longer datagram is truncated, which is an error.
\<close>

definition enet_socket_receive :: "recvmsg_result \<Rightarrow> int \<times> ENetAddress option \<times> u8 list" where
  "enet_socket_receive r =
     (case r of
        WouldBlock \<Rightarrow> (0, None, [])
      | ReceiveError \<Rightarrow> (- 1, None, [])
      | Datagram address bytes \<Rightarrow>
          if length bytes > 4096 then (- 1, None, take 4096 bytes)
          else (int (length bytes), Some address, bytes))"

text \<open>The next outcome of the socket; an exhausted input has nothing to read.\<close>

definition next_input :: "ENetHost \<Rightarrow> recvmsg_result \<times> ENetHost" where
  "next_input h =
     (case h_inbox h of [] \<Rightarrow> (WouldBlock, h) | r # rs \<Rightarrow> (r, h\<lparr>h_inbox := rs\<rparr>))"

text \<open>\<open>intercept\<close> is the intercept callback, which may change the event and the host.\<close>

type_synonym intercept_callback =
  "(ENetHost \<Rightarrow> ENetEvent option \<Rightarrow> int \<times> ENetEvent option \<times> ENetHost) option"

definition accept_datagram :: "ENetAddress option \<Rightarrow> u8 list \<Rightarrow> ENetHost \<Rightarrow> ENetHost" where
  "accept_datagram address bytes h =
     (let buffer = bytes @ drop (length bytes) (h_packetData h)
      in h\<lparr>h_packetData := buffer, h_receivedData := buffer, h_receivedDataLength := length bytes,
           h_receivedAddress := (case address of None \<Rightarrow> h_receivedAddress h | Some a \<Rightarrow> a),
           h_totalReceivedData := h_totalReceivedData h + of_nat (length bytes),
           h_totalReceivedPackets := h_totalReceivedPackets h + 1\<rparr>)"

text \<open>The \<open>for\<close> loop of \<open>enet_protocol_receive_incoming_commands\<close>, with the rounds left.\<close>

fun receive_loop ::
  "nat \<Rightarrow> intercept_callback \<Rightarrow> ENetEvent option \<Rightarrow> ENetHost \<Rightarrow> int \<times> ENetEvent option \<times> ENetHost" where
  "receive_loop 0 intercept event h = (0, event, h)"
| "receive_loop (Suc rounds) intercept event h =
     (let (input, h) = next_input h;
          (receivedLength, address, bytes) = enet_socket_receive input
      in if receivedLength < 0 then (- 1, event, h)
         else if receivedLength = 0 then (0, event, h)
         else
           (let h = accept_datagram address bytes h;
                (verdict, event, h) = (case intercept of None \<Rightarrow> (0, event, h) | Some f \<Rightarrow> f h event)
            in if verdict = 1 then
                 (if event_reported event = 1 then (1, event, h)
                  else receive_loop rounds intercept event h)
               else if verdict = - 1 then (- 1, event, h)
               else
                 (case enet_protocol_handle_incoming_commands event h of
                    (r, event, h) \<Rightarrow>
                      if r = 1 then (1, event, h)
                      else if r = - 1 then (- 1, event, h)
                      else receive_loop rounds intercept event h)))"

definition enet_protocol_receive_incoming_commands ::
  "intercept_callback \<Rightarrow> ENetEvent option \<Rightarrow> ENetHost \<Rightarrow> int \<times> ENetEvent option \<times> ENetHost" where
  "enet_protocol_receive_incoming_commands intercept event h = receive_loop 256 intercept event h"

end
