(* ===== verification/Enet_Invariants.thy ===== *)
theory Enet_Invariants
  imports Enet_Receive
begin

text \<open>
  The invariant of a host: the counters of connected and of bandwidth-limited peers agree
  with the peers, and every peer is well formed (window size in range, throttle within its
  limit, arrays of their fixed length, channels allocated, queued commands that fit a datagram,
  no packet with a reliable command outside its own queue).  Every operation keeps it; the
  locales \<open>handler_invariant\<close> and \<open>host_invariant\<close> carry an invariant of the handlers through the
  command loop and the receive path.
\<close>

section \<open>The invariant\<close>

definition channel_ok :: "ENetChannel \<Rightarrow> bool" where
  "channel_ok ch \<longleftrightarrow> length (ch_reliableWindows ch) = 16"

text \<open>
  An outgoing command announces as many bytes of payload as it takes from its packet, no more
  than a datagram holds.
\<close>

definition oc_ok :: "ENetOutgoingCommand \<Rightarrow> bool" where
  "oc_ok oc \<longleftrightarrow>
     wf_command (oc_command oc) \<and> payload_length (pr_body (oc_command oc)) = unat (oc_fragmentLength oc)
     \<and> unat (oc_fragmentLength oc) \<le> 4096 \<and> (oc_packet oc = None \<longrightarrow> oc_fragmentLength oc = 0)"

text \<open>A reliable command with a packet waits in the other queue, \<open>outgoingSendReliableCommands\<close>.\<close>

definition unpacked :: "ENetOutgoingCommand \<Rightarrow> bool" where
  "unpacked oc \<longleftrightarrow> has_flag (hd_command (oc_command oc)) ENET_PROTOCOL_COMMAND_FLAG_ACKNOWLEDGE \<longrightarrow> oc_packet oc = None"

definition mtu_ok :: "u32 \<Rightarrow> bool" where
  "mtu_ok mtu \<longleftrightarrow> ENET_PROTOCOL_MINIMUM_MTU \<le> mtu \<and> mtu \<le> ENET_PROTOCOL_MAXIMUM_MTU"

definition peer_ok :: "ENetPeer \<Rightarrow> bool" where
  "peer_ok p \<longleftrightarrow>
     ENET_PROTOCOL_MINIMUM_WINDOW_SIZE \<le> p_windowSize p
     \<and> p_windowSize p \<le> ENET_PROTOCOL_MAXIMUM_WINDOW_SIZE
     \<and> p_packetThrottle p \<le> p_packetThrottleLimit p
     \<and> length (p_unsequencedWindow p) = 32
     \<and> p_channelCount p \<le> length (p_channels p)
     \<and> length (p_channels p) \<le> ENET_PROTOCOL_MAXIMUM_CHANNEL_COUNT
     \<and> (\<forall>ch\<in>set (p_channels p). channel_ok ch)
     \<and> mtu_ok (p_mtu p)
     \<and> (\<forall>oc\<in>set (p_sentReliableCommands p). oc_ok oc)
     \<and> (\<forall>oc\<in>set (p_outgoingCommands p). oc_ok oc \<and> unpacked oc)
     \<and> (\<forall>oc\<in>set (p_outgoingSendReliableCommands p). oc_ok oc)"

definition limited :: "ENetPeer \<Rightarrow> bool" where
  "limited p \<longleftrightarrow> counted (p_state p) \<and> p_incomingBandwidth p \<noteq> 0"

definition counters_ok :: "ENetHost \<Rightarrow> bool" where
  "counters_ok h \<longleftrightarrow>
     h_connectedPeers h = of_nat (length (filter (\<lambda>p. counted (p_state p)) (h_peers h)))
     \<and> h_bandwidthLimitedPeers h = of_nat (length (filter limited (h_peers h)))"

text \<open>\<open>n\<close> is the number of peers, which never changes.\<close>

definition host_ok :: "nat \<Rightarrow> ENetHost \<Rightarrow> bool" where
  "host_ok n h \<longleftrightarrow>
     length (h_peers h) = n \<and> counters_ok h \<and> (\<forall>p\<in>set (h_peers h). peer_ok p)
     \<and> 0 < h_channelLimit h \<and> h_channelLimit h \<le> ENET_PROTOCOL_MAXIMUM_CHANNEL_COUNT
     \<and> mtu_ok (h_mtu h) \<and> set (h_dispatchQueue h) \<subseteq> {..<n}"

text \<open>What the counters depend on.\<close>

definition peer_key :: "ENetPeer \<Rightarrow> bool \<times> bool" where
  "peer_key p = (counted (p_state p), limited p)"

lemma counted_simps [simp]:
  "counted CONNECTED" "counted DISCONNECT_LATER" "\<not> counted DISCONNECTED" "\<not> counted CONNECTING"
  "\<not> counted ACKNOWLEDGING_CONNECT" "\<not> counted CONNECTION_PENDING" "\<not> counted CONNECTION_SUCCEEDED"
  "\<not> counted DISCONNECTING" "\<not> counted ACKNOWLEDGING_DISCONNECT" "\<not> counted ZOMBIE"
  by (simp_all add: counted_def)

section \<open>Preservation by updates\<close>

lemma filter_count_update:
  assumes "i < length xs"
  shows "(of_nat (length (filter P (xs[i := y]))) :: 'a::comm_ring_1)
    = of_nat (length (filter P xs)) + (if P y then 1 else 0) - (if P (xs ! i) then 1 else 0)"
proof -
  have xs: "xs = take i xs @ xs ! i # drop (Suc i) xs"
    using assms by (rule id_take_nth_drop)
  have "length (filter P xs) = length (filter P (take i xs)) + (if P (xs ! i) then 1 else 0)
      + length (filter P (drop (Suc i) xs))"
    by (subst xs) simp
  moreover have "length (filter P (xs[i := y])) = length (filter P (take i xs)) + (if P y then 1 else 0)
      + length (filter P (drop (Suc i) xs))"
    using assms by (simp add: upd_conv_take_nth_drop)
  ultimately show ?thesis by simp
qed

lemma host_ok_upd_counters:
  assumes "host_ok n h" "i < n" "peer_ok p"
    and "c = h_connectedPeers h + (if counted (p_state p) then 1 else 0)
               - (if counted (p_state (peer_at h i)) then 1 else 0)"
    and "b = h_bandwidthLimitedPeers h + (if limited p then 1 else 0)
               - (if limited (peer_at h i) then 1 else 0)"
  shows "host_ok n (upd_peer i (\<lambda>_. p) h\<lparr>h_connectedPeers := c, h_bandwidthLimitedPeers := b\<rparr>)"
  using assms set_update_subset_insert [of "h_peers h" i p]
  by (auto simp: host_ok_def counters_ok_def upd_peer_def filter_count_update peer_at_def)

lemma host_ok_upd_peer:
  assumes "host_ok n h" "i < n" "peer_ok (peer_at h i) \<Longrightarrow> peer_ok (f (peer_at h i))"
    and "peer_key (f (peer_at h i)) = peer_key (peer_at h i)"
  shows "host_ok n (upd_peer i f h)"
proof -
  have "peer_ok (f (peer_at h i))"
    using assms by (simp add: host_ok_def peer_at_def)
  then have "host_ok n (upd_peer i (\<lambda>_. f (peer_at h i)) h
      \<lparr>h_connectedPeers := h_connectedPeers h, h_bandwidthLimitedPeers := h_bandwidthLimitedPeers h\<rparr>)"
    using assms by (intro host_ok_upd_counters) (auto simp: peer_key_def)
  then show ?thesis
    by (simp add: upd_peer_def peer_at_def)
qed

lemma peer_ok_at: "host_ok n h \<Longrightarrow> i < n \<Longrightarrow> peer_ok (peer_at h i)"
  by (simp add: host_ok_def peer_at_def)

lemma host_ok_mtu: "host_ok n h \<Longrightarrow> mtu_ok (h_mtu h)"
  by (simp add: host_ok_def)

lemma host_ok_length: "host_ok n h \<Longrightarrow> length (h_peers h) = n"
  by (simp add: host_ok_def)

text \<open>Fields the invariant does not look at.\<close>

lemma host_ok_fields [simp]:
  "host_ok n (h\<lparr>h_totalQueued := a1\<rparr>) = host_ok n h"
  "host_ok n (h\<lparr>h_recalculateBandwidthLimits := a2\<rparr>) = host_ok n h"
  "host_ok n (h\<lparr>h_bandwidthThrottleEpoch := a4\<rparr>) = host_ok n h"
  "host_ok n (h\<lparr>h_randomSeed := a5\<rparr>) = host_ok n h"
  "host_ok n (h\<lparr>h_serviceTime := c2\<rparr>) = host_ok n h"
  "host_ok n (h\<lparr>h_inbox := a6\<rparr>) = host_ok n h"
  "host_ok n (h\<lparr>h_clockReads := a7\<rparr>) = host_ok n h"
  "host_ok n (h\<lparr>h_receivedData := a8\<rparr>) = host_ok n h"
  "host_ok n (h\<lparr>h_receivedDataLength := a9\<rparr>) = host_ok n h"
  "host_ok n (h\<lparr>h_packetData := b1\<rparr>) = host_ok n h"
  "host_ok n (h\<lparr>h_receivedAddress := b2\<rparr>) = host_ok n h"
  "host_ok n (h\<lparr>h_totalReceivedData := b3\<rparr>) = host_ok n h"
  "host_ok n (h\<lparr>h_totalReceivedPackets := b4\<rparr>) = host_ok n h"
  "host_ok n (h\<lparr>h_incomingBandwidth := b5\<rparr>) = host_ok n h"
  "host_ok n (h\<lparr>h_outgoingBandwidth := b6\<rparr>) = host_ok n h"
  "host_ok n (h\<lparr>en_packets := b7\<rparr>) = host_ok n h"
  "host_ok n (h\<lparr>en_next := b8\<rparr>) = host_ok n h"
  "host_ok n (h\<lparr>en_fault := b9\<rparr>) = host_ok n h"
  "host_ok n (h\<lparr>en_callbacks := c1\<rparr>) = host_ok n h"
  "host_ok n (raise_fault h) = host_ok n h"
  by (simp_all add: host_ok_def counters_ok_def raise_fault_def)

section \<open>Memory operations leave the host alone\<close>

lemma host_ok_more:
  assumes "memory.more h' = memory.more h"
  shows "host_ok n h' = host_ok n h"
  using more_host_fields [OF assms] by (simp add: host_ok_def counters_ok_def)

lemma host_ok_mem [simp]:
  "host_ok n (snd (enet_malloc h)) = host_ok n h"
  "host_ok n (enet_packet_destroy p h) = host_ok n h"
  "host_ok n (snd (enet_packet_create d l f h)) = host_ok n h"
  "host_ok n (packet_addref k q h) = host_ok n h"
  "host_ok n (packet_unref e q h) = host_ok n h"
  "host_ok n (outgoing_unref e oc h) = host_ok n h"
  "host_ok n (snd (enet_peer_remove_incoming_commands ics ex h)) = host_ok n h"
  "host_ok n (release_queues r h) = host_ok n h"
  "host_ok n (release_sent ocs h) = host_ok n h"
  "host_ok n (snd (allocate_incoming d l f c h)) = host_ok n h"
  by (rule host_ok_more, simp add: mem_frame)+

lemma peer_at_mem [simp]:
  "peer_at (snd (enet_malloc h)) i = peer_at h i"
  "peer_at (enet_packet_destroy p h) i = peer_at h i"
  "peer_at (packet_addref k q h) i = peer_at h i"
  "peer_at (outgoing_unref e oc h) i = peer_at h i"
  "peer_at (snd (enet_peer_remove_incoming_commands ics ex h)) i = peer_at h i"
  "peer_at (release_queues r h) i = peer_at h i"
  "peer_at (release_sent ocs h) i = peer_at h i"
  "peer_at (snd (allocate_incoming d l f c h)) i = peer_at h i"
  "peer_at (raise_fault h) i = peer_at h i"
  by (rule more_host_fields, simp add: mem_frame)+

lemma peer_at_fields [simp]:
  "peer_at (h\<lparr>h_totalQueued := a1\<rparr>) i = peer_at h i"
  "peer_at (h\<lparr>h_recalculateBandwidthLimits := a2\<rparr>) i = peer_at h i"
  "peer_at (h\<lparr>h_dispatchQueue := a3\<rparr>) i = peer_at h i"
  "peer_at (h\<lparr>h_connectedPeers := a4\<rparr>) i = peer_at h i"
  "peer_at (h\<lparr>h_bandwidthLimitedPeers := a5\<rparr>) i = peer_at h i"
  "peer_at (h\<lparr>en_packets := a6\<rparr>) i = peer_at h i"
  "peer_at (h\<lparr>h_randomSeed := a7\<rparr>) i = peer_at h i"
  by (simp_all add: peer_at_def)

section \<open>Operations of a peer\<close>

text \<open>Updates that keep a peer well formed and keep what the counters depend on.\<close>

definition tame :: "(ENetPeer \<Rightarrow> ENetPeer) \<Rightarrow> bool" where
  "tame f \<longleftrightarrow> (\<forall>p. (peer_ok p \<longrightarrow> peer_ok (f p)) \<and> peer_key (f p) = peer_key p)"

lemma host_ok_tame: "host_ok n h \<Longrightarrow> i < n \<Longrightarrow> tame f \<Longrightarrow> host_ok n (upd_peer i f h)"
  by (rule host_ok_upd_peer) (simp_all add: tame_def)

lemma tame_channel:
  assumes "\<And>ch. channel_ok ch \<Longrightarrow> channel_ok (f ch)"
  shows "tame (upd_channel c f)"
proof -
  have "peer_ok (upd_channel c f p)" if "peer_ok p" for p
  proof (cases "unat c < length (p_channels p)")
    case True
    then have "channel_ok (f (p_channels p ! unat c))"
      using that assms by (simp add: peer_ok_def)
    then show ?thesis
      using that set_update_subset_insert [of "p_channels p" "unat c" "f (p_channels p ! unat c)"]
      by (auto simp: peer_ok_def upd_channel_def)
  next
    case False
    then show ?thesis
      using that by (simp add: upd_channel_def peer_ok_def not_less list_update_beyond)
  qed
  then show ?thesis
    by (simp add: tame_def peer_key_def limited_def upd_channel_def)
qed

lemma tame_comp: "tame f \<Longrightarrow> tame g \<Longrightarrow> tame (\<lambda>p. f (g p))"
  by (simp add: tame_def)

lemmas tame_simps = tame_def peer_ok_def peer_key_def limited_def

lemma tame_number: "tame (\<lambda>p. snd (number_outgoing_command oc p))"
proof -
  define chan where "chan = hd_channelID (oc_command oc)"
  have chan: "tame (upd_channel chan (\<lambda>ch. ch\<lparr>ch_outgoingReliableSequenceNumber := k,
      ch_outgoingUnreliableSequenceNumber := l\<rparr>))"
    "tame (upd_channel chan (\<lambda>ch. ch\<lparr>ch_outgoingUnreliableSequenceNumber :=
      ch_outgoingUnreliableSequenceNumber ch + 1\<rparr>))" for k l
    by (rule tame_channel, simp add: channel_ok_def)+
  have plain: "peer_ok (p\<lparr>p_outgoingReliableSequenceNumber := k\<rparr>) = peer_ok p"
    "peer_key (p\<lparr>p_outgoingReliableSequenceNumber := k\<rparr>) = peer_key p"
    "peer_ok (p\<lparr>p_outgoingUnsequencedGroup := k\<rparr>) = peer_ok p"
    "peer_key (p\<lparr>p_outgoingUnsequencedGroup := k\<rparr>) = peer_key p" for k p
    by (simp_all add: tame_simps)
  show ?thesis
    using chan unfolding number_outgoing_command_def Let_def chan_def [symmetric]
    by (simp add: tame_def plain)
qed

text \<open>Numbering a command leaves what makes it well formed.\<close>

lemma number_body_simps [simp]:
  "body_number (number_body u g b) = body_number b" "payload_length (number_body u g b) = payload_length b"
  by (cases b; simp)+

lemma number_outgoing_fields:
  "oc_command (fst (number_outgoing_command oc p)) = oc_command oc"
  "oc_fragmentLength (fst (number_outgoing_command oc p)) = oc_fragmentLength oc"
  "oc_packet (fst (number_outgoing_command oc p)) = oc_packet oc"
  by (simp_all add: number_outgoing_command_def Let_def)

lemma wf_host_command: "f = 0x80 \<or> f = 0x40 \<or> f = 0 \<Longrightarrow> wf_command (host_command f body)"
  by (cases body) (auto simp: wf_command_def host_command_def command_number_def)

lemma oc_ok_host_command [simp]:
  "oc_ok (new_outgoing_command (host_command 0x80 body) None 0 0) = (payload_length body = 0)"
  "oc_ok (new_outgoing_command (host_command 0x40 body) None 0 0) = (payload_length body = 0)"
  using wf_host_command [of "0x80" body] wf_host_command [of "0x40" body]
  by (simp_all add: oc_ok_def new_outgoing_command_def host_command_def)

lemma tame_setup:
  assumes "oc_ok oc"
  shows "tame (setup_outgoing_command queued oc)"
proof -
  have plain: "peer_ok (p\<lparr>p_outgoingDataTotal := k\<rparr>) = peer_ok p"
    "peer_key (p\<lparr>p_outgoingDataTotal := k\<rparr>) = peer_key p"
    "peer_key (p\<lparr>p_outgoingSendReliableCommands := l\<rparr>) = peer_key p"
    "peer_key (p\<lparr>p_outgoingCommands := l\<rparr>) = peer_key p" for k l p
    by (simp_all add: tame_simps)
  have queued: "peer_ok (p\<lparr>p_outgoingSendReliableCommands := p_outgoingSendReliableCommands p @ [c]\<rparr>)"
    "unpacked c \<Longrightarrow> peer_ok (p\<lparr>p_outgoingCommands := p_outgoingCommands p @ [c]\<rparr>)" if "peer_ok p" "oc_ok c" for p c
    using that by (auto simp: peer_ok_def)
  have numbered: "oc_ok (fst (number_outgoing_command oc p)\<lparr>oc_sendAttempts := 0, oc_sentTime := 0,
      oc_roundTripTimeout := 0, oc_queueTime := queued, oc_command := oc_command oc
        \<lparr>hd_reliableSequenceNumber := k, pr_body := number_body u g (pr_body (oc_command oc))\<rparr>\<rparr>)" for p k u g
    using assms by (simp add: oc_ok_def wf_command_def command_number_def number_outgoing_fields)
  show ?thesis
    using tame_number [of oc]
    by (auto simp: tame_def setup_outgoing_command_def Let_def case_prod_beta plain numbered number_outgoing_fields unpacked_def
        intro!: queued)
qed

lemma upd_peer_const: "upd_peer i f h = upd_peer i (\<lambda>_. f (peer_at h i)) h"
  by (simp add: upd_peer_def peer_at_def)

lemma on_disconnect_peers [simp]:
  "peer_at (enet_peer_on_disconnect i h) j = peer_at h j" "h_mtu (enet_peer_on_disconnect i h) = h_mtu h"
  by (simp_all add: enet_peer_on_disconnect_def Let_def)

lemma on_connect_peers [simp]:
  "peer_at (enet_peer_on_connect i h) j = peer_at h j"
  by (simp_all add: enet_peer_on_connect_def Let_def)

lemma host_ok_disconnected:
  assumes "host_ok n h" "i < n" "peer_ok (f (peer_at h i))" "\<not> counted (p_state (f (peer_at h i)))"
  shows "host_ok n (upd_peer i f (enet_peer_on_disconnect i h))"
proof -
  let ?c = "h_connectedPeers h - (if counted (p_state (peer_at h i)) then 1 else 0)"
  let ?b = "h_bandwidthLimitedPeers h - (if limited (peer_at h i) then 1 else 0)"
  have "host_ok n (upd_peer i (\<lambda>_. f (peer_at h i)) h\<lparr>h_connectedPeers := ?c, h_bandwidthLimitedPeers := ?b\<rparr>)"
    using assms by (intro host_ok_upd_counters) (auto simp: limited_def)
  moreover have "upd_peer i f (enet_peer_on_disconnect i h)
      = upd_peer i (\<lambda>_. f (peer_at h i)) h\<lparr>h_connectedPeers := ?c, h_bandwidthLimitedPeers := ?b\<rparr>"
    by (subst upd_peer_const) (auto simp: enet_peer_on_disconnect_def upd_peer_def limited_def counted_def)
  ultimately show ?thesis by simp
qed

lemma host_ok_connected:
  assumes "host_ok n h" "i < n" "peer_ok (f (peer_at h i))" "counted (p_state (f (peer_at h i)))"
    and "p_incomingBandwidth (f (peer_at h i)) = p_incomingBandwidth (peer_at h i)"
  shows "host_ok n (upd_peer i f (enet_peer_on_connect i h))"
proof -
  let ?c = "h_connectedPeers h + 1 - (if counted (p_state (peer_at h i)) then 1 else 0)"
  let ?b = "h_bandwidthLimitedPeers h + (if limited (f (peer_at h i)) then 1 else 0)
      - (if limited (peer_at h i) then 1 else 0)"
  have "host_ok n (upd_peer i (\<lambda>_. f (peer_at h i)) h\<lparr>h_connectedPeers := ?c, h_bandwidthLimitedPeers := ?b\<rparr>)"
    using assms by (intro host_ok_upd_counters) auto
  moreover have "upd_peer i f (enet_peer_on_connect i h)
      = upd_peer i (\<lambda>_. f (peer_at h i)) h\<lparr>h_connectedPeers := ?c, h_bandwidthLimitedPeers := ?b\<rparr>"
    using assms(4,5)
    by (subst upd_peer_const) (auto simp: enet_peer_on_connect_def upd_peer_def limited_def counted_def)
  ultimately show ?thesis by simp
qed

lemma host_ok_dispatchQueue:
  "host_ok n h \<Longrightarrow> set q \<subseteq> {..<n} \<Longrightarrow> host_ok n (h\<lparr>h_dispatchQueue := q\<rparr>)"
  by (simp add: host_ok_def counters_ok_def)

lemma host_ok_queue: "host_ok n h \<Longrightarrow> set (h_dispatchQueue h) \<subseteq> {..<n}"
  by (simp add: host_ok_def)

lemma host_ok_dispatch_insert [simp]: "host_ok n h \<Longrightarrow> i < n \<Longrightarrow> host_ok n (dispatch_insert i h)"
  using host_ok_queue [of n h] by (simp add: dispatch_insert_def host_ok_dispatchQueue)

lemma host_ok_dispatch_remove [simp]: "host_ok n h \<Longrightarrow> host_ok n (dispatch_remove i h)"
  using host_ok_queue [of n h] set_remove1_subset [of i "h_dispatchQueue h"]
  by (auto simp: dispatch_remove_def intro!: host_ok_dispatchQueue)

lemma peer_at_dispatch [simp]:
  "peer_at (dispatch_insert i h) j = peer_at h j" "peer_at (dispatch_remove i h) j = peer_at h j"
  by (simp_all add: dispatch_insert_def dispatch_remove_def)

text \<open>The operations; each is preservation by every step it takes.\<close>

named_theorems keeps

lemma host_ok_needs_dispatch [keeps]: "host_ok n h \<Longrightarrow> i < n \<Longrightarrow> host_ok n (needs_dispatch i h)"
  by (simp add: needs_dispatch_def host_ok_tame tame_simps)

lemma host_ok_setup [keeps]:
  "host_ok n h \<Longrightarrow> i < n \<Longrightarrow> oc_ok oc \<Longrightarrow> host_ok n (enet_peer_setup_outgoing_command i oc h)"
  by (simp add: enet_peer_setup_outgoing_command_def Let_def host_ok_tame tame_setup)

lemma host_ok_queue_outgoing [keeps]:
  "host_ok n h \<Longrightarrow> i < n \<Longrightarrow> oc_ok (new_outgoing_command c pk off len)
    \<Longrightarrow> host_ok n (snd (enet_peer_queue_outgoing_command i c pk off len h))"
  by (auto simp: enet_peer_queue_outgoing_command_def Let_def keeps case_prod_beta split: option.splits)

lemma host_ok_throttle_configure [keeps]:
  "host_ok n h \<Longrightarrow> i < n \<Longrightarrow> host_ok n (enet_peer_throttle_configure i t a d h)"
  unfolding enet_peer_throttle_configure_def Let_def
  by (intro keeps host_ok_tame) (simp_all add: tame_simps)

lemma host_ok_reset_queues [keeps]:
  assumes "host_ok n h" "i < n"
  shows "host_ok n (enet_peer_reset_queues i h)"
proof -
  have "host_ok n (clear_needs_dispatch i h)"
    using assms by (simp add: clear_needs_dispatch_def host_ok_tame tame_simps)
  then show ?thesis
    using assms unfolding enet_peer_reset_queues_def Let_def
    by (intro host_ok_tame) (simp_all add: tame_simps clear_queues_def)
qed

lemma host_ok_reset [keeps]:
  assumes "host_ok n h" "i < n"
  shows "host_ok n (enet_peer_reset i h)"
proof -
  have "peer_ok (reset_fields (h_mtu h) (peer_at h i))"
    using peer_ok_at [OF assms] host_ok_mtu [OF assms(1)] by (simp add: peer_ok_def reset_fields_def)
  then have "host_ok n (upd_peer i (reset_fields (h_mtu h)) (enet_peer_on_disconnect i h))"
    using assms by (intro host_ok_disconnected) (simp_all add: reset_fields_def)
  then show ?thesis
    using assms by (simp add: enet_peer_reset_def Let_def keeps)
qed

lemma host_ok_change_state [keeps]:
  assumes "host_ok n h" "i < n"
  shows "host_ok n (enet_protocol_change_state i s h)"
proof -
  have "peer_ok (peer_at h i\<lparr>p_state := s\<rparr>)"
    using peer_ok_at [OF assms] by (simp add: peer_ok_def)
  then show ?thesis
    using assms unfolding enet_protocol_change_state_def
    by (cases "counted s") (auto simp: counted_def intro!: host_ok_connected host_ok_disconnected)
qed

lemma host_ok_dispatch_state [keeps]:
  "host_ok n h \<Longrightarrow> i < n \<Longrightarrow> host_ok n (enet_protocol_dispatch_state i s h)"
  by (simp add: enet_protocol_dispatch_state_def keeps)

lemma host_ok_ping [keeps]: "host_ok n h \<Longrightarrow> i < n \<Longrightarrow> host_ok n (enet_peer_ping i h)"
  by (simp add: enet_peer_ping_def keeps)

lemma host_ok_eventData [keeps]:
  "host_ok n h \<Longrightarrow> i < n \<Longrightarrow> host_ok n (upd_peer i (\<lambda>p. p\<lparr>p_eventData := d\<rparr>) h)"
  by (simp add: host_ok_tame tame_simps)

lemma host_ok_queue_acknowledgement [keeps]:
  "host_ok n h \<Longrightarrow> i < n \<Longrightarrow> host_ok n (snd (enet_peer_queue_acknowledgement i c t h))"
  by (auto simp: enet_peer_queue_acknowledgement_def Let_def host_ok_tame tame_simps case_prod_beta
    split: option.splits)

lemma host_ok_receive [keeps]:
  "host_ok n h \<Longrightarrow> i < n \<Longrightarrow> host_ok n (snd (enet_peer_receive i h))"
  by (auto simp: enet_peer_receive_def Let_def host_ok_tame tame_simps split: list.splits option.splits)


section \<open>Incoming commands\<close>

lemma tame_dispatched: "tame (\<lambda>p. p\<lparr>p_dispatchedCommands := g p\<rparr>)"
  by (simp add: tame_simps)

lemma host_ok_dispatch_unreliable [keeps]:
  assumes "host_ok n h" "i < n"
  shows "host_ok n (enet_peer_dispatch_incoming_unreliable_commands i chan q h)"
proof -
  have ch: "tame (upd_channel chan (\<lambda>ch. ch\<lparr>ch_incomingUnreliableSequenceNumber := u,
      ch_incomingUnreliableCommands := l\<rparr>))" for u l
    by (rule tame_channel) (simp add: channel_ok_def)
  show ?thesis
    using assms unfolding enet_peer_dispatch_incoming_unreliable_commands_def Let_def case_prod_beta
    by (intro host_ok_tame ch) (simp_all add: keeps host_ok_tame tame_dispatched)
qed

lemma host_ok_dispatch_reliable [keeps]:
  assumes "host_ok n h" "i < n"
  shows "host_ok n (enet_peer_dispatch_incoming_reliable_commands i chan q h)"
proof -
  have ch: "tame (upd_channel chan (\<lambda>ch. ch\<lparr>ch_incomingReliableSequenceNumber := k,
      ch_incomingUnreliableSequenceNumber := 0, ch_incomingReliableCommands := l\<rparr>))" for k l
    by (rule tame_channel) (simp add: channel_ok_def)
  show ?thesis
    using assms tame_comp [OF ch tame_dispatched]
    unfolding enet_peer_dispatch_incoming_reliable_commands_def Let_def case_prod_beta
    by (simp add: keeps host_ok_tame)
qed

lemma host_ok_queue_incoming [keeps]:
  assumes "host_ok n h" "i < n"
  shows "host_ok n (snd (enet_peer_queue_incoming_command i c d l f k h))"
proof -
  have r: "tame (upd_channel chan (\<lambda>ch. ch\<lparr>ch_incomingReliableCommands := g ch\<rparr>))"
    "tame (upd_channel chan (\<lambda>ch. ch\<lparr>ch_incomingUnreliableCommands := g ch\<rparr>))" for chan g
    by (rule tame_channel, simp add: channel_ok_def)+
  have w: "tame (\<lambda>p. p\<lparr>p_totalWaitingData := g p\<rparr>)" for g
    by (simp add: tame_simps)
  show ?thesis
    using assms unfolding enet_peer_queue_incoming_command_def Let_def case_prod_beta
    by (auto intro!: keeps host_ok_tame r w split: option.splits prod.splits
      simp: option.case_eq_if)
qed

section \<open>Handlers\<close>

lemma host_ok_notify_connect [keeps]:
  "host_ok n h \<Longrightarrow> i < n \<Longrightarrow> host_ok n (snd (enet_protocol_notify_connect i ev h))"
  by (auto simp: enet_protocol_notify_connect_def Let_def intro!: keeps split: option.splits)

lemma host_ok_notify_disconnect [keeps]:
  "host_ok n h \<Longrightarrow> i < n \<Longrightarrow> host_ok n (snd (enet_protocol_notify_disconnect i ev h))"
  by (auto simp: enet_protocol_notify_disconnect_def Let_def intro!: keeps split: option.splits)

text \<open>A connected peer is disconnected without flushing the host.\<close>

lemma disconnect_connected_no_flush:
  "counted (p_state (peer_at h i)) \<Longrightarrow> enet_peer_disconnect f i d h = enet_peer_disconnect g i d h"
  by (auto simp: enet_peer_disconnect_def Let_def counted_def)

lemma host_ok_disconnect:
  assumes "host_ok n h" "i < n" "\<And>h h'. host_ok n h \<Longrightarrow> flush h = Some h' \<Longrightarrow> host_ok n h'"
    and "enet_peer_disconnect flush i d h = Some h'"
  shows "host_ok n h'"
proof -
  have *: "host_ok n (upd_peer i (\<lambda>p. p\<lparr>p_state := DISCONNECTING\<rparr>) (enet_peer_on_disconnect i k))"
    if "host_ok n k" for k
    using peer_ok_at [OF that assms(2)] that assms(2)
    by (intro host_ok_disconnected) (simp_all add: peer_ok_def)
  show ?thesis
    using assms(1,2,4) unfolding enet_peer_disconnect_def Let_def
    by (auto intro!: * keeps elim!: assms(3) [rotated] split: if_splits)
qed

lemma host_ok_disconnect_delayed [keeps]:
  "host_ok n h \<Longrightarrow> i < n \<Longrightarrow> host_ok n (disconnect_delayed i d h)"
  unfolding disconnect_delayed_def
  by (auto split: option.split intro: host_ok_disconnect [where flush = "\<lambda>_. None"])

lemma tame_release_window: "tame (upd_channel c (release_window n))"
  by (rule tame_channel) (simp add: channel_ok_def release_window_def Let_def)

lemma find_sent_subset:
  "extract_first P ocs = Some (oc, xs) \<Longrightarrow> set xs \<subseteq> set ocs"
  "enet_protocol_find_sent_reliable_command n c ocs = Some (oc, xs) \<Longrightarrow> set xs \<subseteq> set ocs"
proof -
  show "extract_first P ocs = Some (oc, xs) \<Longrightarrow> set xs \<subseteq> set ocs"
    by (induction P ocs arbitrary: xs rule: extract_first.induct) (fastforce split: if_splits option.splits)+
  show "enet_protocol_find_sent_reliable_command n c ocs = Some (oc, xs) \<Longrightarrow> set xs \<subseteq> set ocs"
    by (induction n c ocs arbitrary: xs rule: enet_protocol_find_sent_reliable_command.induct)
       (fastforce simp: Let_def split: if_splits option.splits)+
qed

lemma take_sent_peer:
  assumes "take_sent_reliable_command n c p = Some (w, oc, p')"
  shows "peer_key p' = peer_key p" "peer_ok p \<Longrightarrow> peer_ok p'"
  using assms by (auto simp: take_sent_reliable_command_def peer_key_def limited_def peer_ok_def
    split: option.splits prod.splits dest!: find_sent_subset)

lemma tame_settle: "tame (settle_sent_command n c w oc)"
proof -
  have plain: "peer_ok (q\<lparr>p_reliableDataInTransit := a\<rparr>) = peer_ok q"
    "peer_key (q\<lparr>p_reliableDataInTransit := a\<rparr>) = peer_key q"
    "peer_ok (q\<lparr>p_nextTimeout := a\<rparr>) = peer_ok q"
    "peer_key (q\<lparr>p_nextTimeout := a\<rparr>) = peer_key q" for q a
    by (simp_all add: peer_ok_def peer_key_def limited_def)
  show ?thesis
    using tame_release_window [of c n]
    by (auto simp: tame_def settle_sent_command_def Let_def plain split: list.split)
qed

lemma host_ok_remove_sent_reliable [keeps]:
  assumes "host_ok n h" "i < n"
  shows "host_ok n (snd (enet_protocol_remove_sent_reliable_command i k c h))"
proof (cases "take_sent_reliable_command k c (peer_at h i)")
  case None
  then show ?thesis
    using assms by (simp add: enet_protocol_remove_sent_reliable_command_def)
next
  case (Some r)
  then obtain w oc p where r: "take_sent_reliable_command k c (peer_at h i) = Some (w, oc, p)"
    by (cases r) auto
  have "host_ok n (upd_peer i (\<lambda>_. settle_sent_command k c w oc p) h)"
    using assms take_sent_peer [OF r] peer_ok_at [OF assms] tame_settle [of k c w oc]
    by (intro host_ok_upd_peer) (simp_all add: tame_def)
  then show ?thesis
    by (simp add: enet_protocol_remove_sent_reliable_command_def r)
qed

lemma tame_throttle: "tame (\<lambda>p. snd (enet_peer_throttle rtt p))"
proof -
  have "p_packetThrottle p - p_packetThrottleDeceleration p \<le> p_packetThrottleLimit p"
    if "p_packetThrottle p \<le> p_packetThrottleLimit p"
      "p_packetThrottleDeceleration p < p_packetThrottle p" for p
    using that by (simp add: word_le_nat_alt word_less_nat_alt unat_sub_if')
  then show ?thesis
    by (auto simp: tame_simps enet_peer_throttle_def Let_def)
qed

lemma tame_sample: "tame (sample_round_trip rtt)"
proof -
  have plain: "peer_ok (p\<lparr>p_roundTripTimeVariance := f, p_roundTripTime := g\<rparr>) = peer_ok p"
    "peer_key (p\<lparr>p_roundTripTimeVariance := f, p_roundTripTime := g\<rparr>) = peer_key p"
    "peer_ok (p\<lparr>p_roundTripTime := g, p_roundTripTimeVariance := f\<rparr>) = peer_ok p"
    "peer_key (p\<lparr>p_roundTripTime := g, p_roundTripTimeVariance := f\<rparr>) = peer_key p" for f g p
    by (simp_all add: tame_simps)
  show ?thesis
    using tame_throttle [of rtt] unfolding tame_def sample_round_trip_def Let_def
    by (simp add: plain)
qed

lemma tame_track: "tame (track_round_trip now)"
  by (auto simp: tame_simps track_round_trip_def Let_def)

lemma host_ok_acknowledge [keeps]:
  assumes "host_ok n h" "i < n"
  shows "host_ok n (snd (snd (enet_protocol_handle_acknowledge i ev c k t h)))"
proof -
  have "tame (\<lambda>p. track_round_trip now (sample_round_trip rtt p))" for now rtt
    by (rule tame_comp [OF tame_track tame_sample])
  then have 1: "host_ok n (snd (enet_protocol_remove_sent_reliable_command i k c
      (upd_peer i (\<lambda>p. track_round_trip now (sample_round_trip rtt p)) h)))" for now rtt
    using assms by (intro keeps host_ok_tame)
  show ?thesis
    using assms unfolding enet_protocol_handle_acknowledge_def Let_def case_prod_beta
    by (auto intro!: 1 keeps split: ENetPeerState.split)
qed


lemma clamp_windowSize_range:
  "ENET_PROTOCOL_MINIMUM_WINDOW_SIZE \<le> clamp_windowSize w"
  "clamp_windowSize w \<le> ENET_PROTOCOL_MAXIMUM_WINDOW_SIZE"
  by (auto simp: clamp_windowSize_def not_less)

lemma clamp_mtu_ok: "mtu_ok (clamp_mtu m)"
  by (auto simp: clamp_mtu_def mtu_ok_def not_less)

lemma host_ok_verify_connect [keeps]:
  assumes "host_ok n h" "i < n"
  shows "host_ok n (snd (snd (enet_protocol_handle_verify_connect i ev c h)))"
proof (cases "p_state (peer_at h i) \<noteq> CONNECTING \<or> bad_verify (peer_at h i) c")
  case True
  then show ?thesis
    using assms by (auto simp: enet_protocol_handle_verify_connect_def intro!: keeps)
next
  case False
  define h1 where "h1 = snd (enet_protocol_remove_sent_reliable_command i 1 0xFF h)"
  have h1: "host_ok n h1"
    using assms unfolding h1_def by (rule keeps)
  have state: "p_state (peer_at h1 i) = CONNECTING"
    using False assms host_ok_length [OF assms(1)]
    by (auto simp: h1_def enet_protocol_remove_sent_reliable_command_def take_sent_reliable_command_def
      settle_sent_command_def Let_def upd_channel_def split: option.splits prod.splits list.splits)
  have "peer_ok (adopt_verified c (peer_at h1 i))"
    using peer_ok_at [OF h1 assms(2)] clamp_windowSize_range clamp_mtu_ok
    by (auto simp: adopt_verified_def peer_ok_def Let_def)
  moreover have "peer_key (adopt_verified c (peer_at h1 i)) = peer_key (peer_at h1 i)"
    by (simp add: adopt_verified_def peer_key_def limited_def Let_def state)
  ultimately have "host_ok n (upd_peer i (adopt_verified c) h1)"
    using h1 assms by (intro host_ok_upd_peer) simp_all
  then show ?thesis
    using False assms by (auto simp: enet_protocol_handle_verify_connect_def Let_def h1_def [symmetric]
      case_prod_beta intro!: keeps)
qed

lemma host_ok_bandwidth_limit [keeps]:
  assumes "host_ok n h" "i < n"
  shows "host_ok n (snd (enet_protocol_handle_bandwidth_limit i ib ob h))"
proof (cases "counted (p_state (peer_at h i))")
  case False
  then show ?thesis
    using assms by (simp add: enet_protocol_handle_bandwidth_limit_def)
next
  case True
  let ?p = "peer_at h i\<lparr>p_incomingBandwidth := ib, p_outgoingBandwidth := ob,
    p_windowSize := peer_windowSize ib (h_outgoingBandwidth h)\<rparr>"
  let ?b = "h_bandwidthLimitedPeers h + (if ib \<noteq> 0 then 1 else 0)
    - (if p_incomingBandwidth (peer_at h i) \<noteq> 0 then 1 else 0)"
  have "peer_ok ?p"
    using peer_ok_at [OF assms] clamp_windowSize_range by (simp add: peer_ok_def peer_windowSize_def)
  then have "host_ok n (upd_peer i (\<lambda>_. ?p) h
      \<lparr>h_connectedPeers := h_connectedPeers h, h_bandwidthLimitedPeers := ?b\<rparr>)"
    using assms True by (intro host_ok_upd_counters) (auto simp: limited_def)
  moreover have "snd (enet_protocol_handle_bandwidth_limit i ib ob h) = upd_peer i (\<lambda>_. ?p) h
      \<lparr>h_connectedPeers := h_connectedPeers h, h_bandwidthLimitedPeers := ?b\<rparr>"
    using True assms host_ok_length [OF assms(1)]
    by (simp add: enet_protocol_handle_bandwidth_limit_def Let_def upd_peer_def peer_at_def)
  ultimately show ?thesis by simp
qed

lemma host_ok_configure [keeps]:
  "host_ok n h \<Longrightarrow> i < n \<Longrightarrow> host_ok n (snd (enet_protocol_handle_throttle_configure i t a d h))"
  by (simp add: enet_protocol_handle_throttle_configure_def host_ok_tame tame_simps)

lemma host_ok_handle_disconnect [keeps]:
  "host_ok n h \<Longrightarrow> i < n \<Longrightarrow> host_ok n (snd (enet_protocol_handle_disconnect i c d h))"
  by (auto simp: enet_protocol_handle_disconnect_def Let_def intro!: keeps)

lemma host_ok_send_reliable [keeps]:
  "host_ok n h \<Longrightarrow> i < n \<Longrightarrow> host_ok n (snd (enet_protocol_handle_send_reliable i c l pos h))"
  by (auto simp: enet_protocol_handle_send_reliable_def case_prod_beta intro!: keeps)

lemma host_ok_send_unreliable [keeps]:
  "host_ok n h \<Longrightarrow> i < n \<Longrightarrow> host_ok n (snd (enet_protocol_handle_send_unreliable i c l pos h))"
  by (auto simp: enet_protocol_handle_send_unreliable_def case_prod_beta intro!: keeps)

lemma host_ok_send_unsequenced [keeps]:
  assumes "host_ok n h" "i < n"
  shows "host_ok n (snd (enet_protocol_handle_send_unsequenced i c g l pos h))"
proof -
  have 1: "tame (\<lambda>p. p\<lparr>p_incomingUnsequencedGroup := b, p_unsequencedWindow := replicate 32 0\<rparr>)" for b
    by (simp add: tame_simps)
  have 2: "tame (\<lambda>p. p\<lparr>p_unsequencedWindow := set_group_bit g (p_unsequencedWindow p)\<rparr>)"
    by (simp add: tame_simps set_group_bit_def Let_def)
  show ?thesis
    using assms unfolding enet_protocol_handle_send_unsequenced_def Let_def case_prod_beta
    by (auto intro!: keeps host_ok_tame 1 2 split: unsequenced_group.split)
qed

lemma host_ok_receive_fragment [keeps]:
  assumes "host_ok n h" "i < n"
  shows "host_ok n (receive_fragment i chan rel a f bytes h)"
proof -
  have 1: "tame (upd_channel chan (\<lambda>ch. ch\<lparr>ch_incomingReliableCommands := g ch\<rparr>))"
    "tame (upd_channel chan (\<lambda>ch. ch\<lparr>ch_incomingUnreliableCommands := g ch\<rparr>))" for g
    by (rule tame_channel, simp add: channel_ok_def)+
  show ?thesis
    using assms unfolding receive_fragment_def Let_def case_prod_beta
    by (auto intro!: keeps host_ok_tame 1 split: option.split)
qed

lemma host_ok_send_fragment [keeps]:
  assumes "host_ok n h" "i < n"
  shows "host_ok n (snd (enet_protocol_handle_send_fragment i c f pos h))"
  using assms unfolding enet_protocol_handle_send_fragment_def Let_def case_prod_beta
  by (auto intro!: keeps split: fragment_start.split queue_result.split)

lemma host_ok_send_unreliable_fragment [keeps]:
  assumes "host_ok n h" "i < n"
  shows "host_ok n (snd (enet_protocol_handle_send_unreliable_fragment i c f pos h))"
  using assms unfolding enet_protocol_handle_send_unreliable_fragment_def Let_def case_prod_beta
  by (auto intro!: keeps split: fragment_start.split queue_result.split)

lemma scan_connect_free:
  assumes "scan_connect a c k ps peer d = Some (Some i, e)"
  shows "peer = Some i \<or> (k \<le> i \<and> i < k + length ps \<and> p_state (ps ! (i - k)) = DISCONNECTED)"
  using assms
proof (induction a c k ps peer d rule: scan_connect.induct)
  case (2 a c k p ps peer d)
  show ?case
  proof (cases "p_state p = DISCONNECTED")
    case True
    then have "(if peer = None then Some k else peer) = Some i \<or>
        (Suc k \<le> i \<and> i < Suc k + length ps \<and> p_state (ps ! (i - Suc k)) = DISCONNECTED)"
      using 2 by simp
    then show ?thesis
      using True by (auto split: if_splits simp: nth_Cons')
  next
    case False
    then have "peer = Some i \<or>
        (Suc k \<le> i \<and> i < Suc k + length ps \<and> p_state (ps ! (i - Suc k)) = DISCONNECTED)"
      using 2 by (simp split: if_splits)
    then show ?thesis
      by (auto simp: nth_Cons')
  qed
qed simp

text \<open>A connection request is given a peer that was disconnected.\<close>

lemma handle_connect_free:
  assumes "enet_protocol_handle_connect c h = (Some i, h')"
  shows "i < length (h_peers h) \<and> p_state (peer_at h i) = DISCONNECTED"
proof -
  obtain e where "scan_connect (h_receivedAddress h) (cn_connectID c) 0 (h_peers h) None 0 = Some (Some i, e)"
    using assms unfolding enet_protocol_handle_connect_def Let_def case_prod_beta
    by (auto split: if_splits option.splits prod.splits)
  from scan_connect_free [OF this] show ?thesis
    by (simp add: peer_at_def)
qed

lemma accept_peer_ok:
  assumes "peer_ok p" "m \<le> ENET_PROTOCOL_MAXIMUM_CHANNEL_COUNT" "mtu_ok (h_mtu h)"
  shows "peer_ok (accept_peer h c m p)"
  using assms clamp_windowSize_range clamp_mtu_ok
  by (auto simp: accept_peer_def peer_ok_def Let_def peer_windowSize_def channel_ok_def initial_channel_def)

lemma host_ok_connect_peer:
  assumes "host_ok n h" "i < n" "p_state (peer_at h i) = DISCONNECTED" "\<not> counted (p_state (f (peer_at h i)))"
    and "peer_ok (peer_at h i) \<Longrightarrow> peer_ok (f (peer_at h i))"
  shows "host_ok n (upd_peer i f h)"
  using assms by (intro host_ok_upd_peer) (auto simp: peer_key_def limited_def)

lemma host_ok_handle_connect [keeps]:
  assumes "host_ok n h"
  shows "host_ok n (snd (enet_protocol_handle_connect c h))"
proof (cases "enet_protocol_handle_connect c h")
  case (Pair r h')
  show ?thesis
  proof (cases r)
    case None
    then show ?thesis
      using assms Pair host_ok_mem(1) [of n h]
      unfolding enet_protocol_handle_connect_def Let_def case_prod_beta
      by (auto split: if_splits option.splits prod.splits)
  next
    case (Some i)
    then have free: "i < n" "p_state (peer_at h i) = DISCONNECTED"
      using handle_connect_free [of c h i h'] Pair host_ok_length [OF assms] by simp_all
    define m where "m = (if unat (cn_channelCount c) > h_channelLimit h then h_channelLimit h
      else unat (cn_channelCount c))"
    define h1 where "h1 = snd (enet_malloc h)"
    have h1: "host_ok n h1" "peer_at h1 i = peer_at h i"
      using assms by (simp_all add: h1_def)
    have "m \<le> ENET_PROTOCOL_MAXIMUM_CHANNEL_COUNT"
      using assms by (simp add: m_def host_ok_def)
    then have "host_ok n (upd_peer i (accept_peer h1 c m) h1)"
      using h1 free host_ok_mtu [OF h1(1)] by (intro host_ok_connect_peer)
        (simp_all add: accept_peer_ok, simp add: accept_peer_def Let_def)
    then have "host_ok n (snd (enet_peer_queue_outgoing_command i (verify_command k c m p) None 0 0
        (upd_peer i (accept_peer h1 c m) h1)))" for k p
      using free(1) by (rule keeps) (simp add: verify_command_def)
    moreover have "\<exists>k p. h' = snd (enet_peer_queue_outgoing_command i (verify_command k c m p) None 0 0
        (upd_peer i (accept_peer h1 c m) h1))"
      using Pair Some unfolding enet_protocol_handle_connect_def Let_def case_prod_beta m_def h1_def
      by (auto split: if_splits option.splits prod.splits)
    ultimately show ?thesis
      using Pair by auto
  qed
qed

section \<open>The receive path\<close>

text \<open>
  The contract of the command loop with an invariant: every handler keeps it.  Then the loop
  keeps it.
\<close>

locale handler_invariant =
  fixes I :: "nat \<Rightarrow> ENetHost \<Rightarrow> bool"
  assumes peers: "I n h \<Longrightarrow> length (h_peers h) = n"
    and connect: "I n h \<Longrightarrow> I n (snd (enet_protocol_handle_connect cn h))"
    and acknowledge: "I n h \<Longrightarrow> i < n \<Longrightarrow> I n (snd (snd (enet_protocol_handle_acknowledge i ev chan k t h)))"
    and verify: "I n h \<Longrightarrow> i < n \<Longrightarrow> I n (snd (snd (enet_protocol_handle_verify_connect i ev vc h)))"
    and disconnect: "I n h \<Longrightarrow> i < n \<Longrightarrow> I n (snd (enet_protocol_handle_disconnect i c d h))"
    and bandwidth: "I n h \<Longrightarrow> i < n \<Longrightarrow> I n (snd (enet_protocol_handle_bandwidth_limit i ib ob h))"
    and configure: "I n h \<Longrightarrow> i < n \<Longrightarrow> I n (snd (enet_protocol_handle_throttle_configure i t1 a1 d1 h))"
    and reliable: "I n h \<Longrightarrow> i < n \<Longrightarrow> I n (snd (enet_protocol_handle_send_reliable i c l pos h))"
    and unreliable: "I n h \<Longrightarrow> i < n \<Longrightarrow> I n (snd (enet_protocol_handle_send_unreliable i c l pos h))"
    and unsequenced: "I n h \<Longrightarrow> i < n \<Longrightarrow> I n (snd (enet_protocol_handle_send_unsequenced i c g l pos h))"
    and fragment: "I n h \<Longrightarrow> i < n \<Longrightarrow> I n (snd (enet_protocol_handle_send_fragment i c f pos h))"
    and unreliable_fragment:
      "I n h \<Longrightarrow> i < n \<Longrightarrow> I n (snd (enet_protocol_handle_send_unreliable_fragment i c f pos h))"
    and queue_acknowledgement: "I n h \<Longrightarrow> i < n \<Longrightarrow> I n (snd (enet_peer_queue_acknowledgement i c t h))"
begin

lemma handle_command_keeps:
  assumes "I n h" "\<And>i. peer = Some i \<Longrightarrow> i < n" "handle_command peer ev c pos h = (r, peer', ev', l, h')"
  shows "I n h' \<and> (\<forall>i. peer' = Some i \<longrightarrow> i < n)"
proof (cases peer)
  case None
  show ?thesis
  proof (cases "pr_body c")
    case (Connect cn)
    obtain q h1 where q: "enet_protocol_handle_connect cn h = (q, h1)"
      by (cases "enet_protocol_handle_connect cn h")
    have "I n h1" "\<And>i. q = Some i \<Longrightarrow> i < n"
      using connect [OF assms(1), of cn] q handle_connect_free [of cn h _ h1] peers [OF assms(1)]
      by auto
    then show ?thesis
      using assms(3) None Connect q by (cases q) (auto simp: handle_command_def)
  qed (use assms None in \<open>simp_all add: handle_command_def\<close>)
next
  case (Some i)
  note i = assms(2) [OF Some]
  have "h' = snd (snd (snd (snd (handle_command (Some i) ev c pos h))))"
    "peer' = fst (snd (handle_command (Some i) ev c pos h))"
    using assms(3) Some by simp_all
  moreover have "I n (snd (snd (snd (snd (handle_command (Some i) ev c pos h)))))"
    using assms(1) i unfolding handle_command_def
    by (cases "pr_body c") (simp_all add: case_prod_beta acknowledge verify disconnect bandwidth
      configure reliable unreliable unsequenced fragment unreliable_fragment)
  moreover have "fst (snd (handle_command (Some i) ev c pos h)) = Some i"
    unfolding handle_command_def by (cases "pr_body c") (simp_all add: case_prod_beta)
  ultimately show ?thesis
    using i by simp
qed

lemma acknowledge_keeps:
  assumes "I n h" "\<And>i. peer = Some i \<Longrightarrow> i < n"
  shows "I n (snd (acknowledge_command flags t peer c h))"
  using assms by (auto simp: acknowledge_command_def Let_def queue_acknowledgement split: option.split)

lemma command_loop_keeps:
  assumes "I n h" "\<And>i. peer = Some i \<Longrightarrow> i < n"
  shows "I n (snd (command_loop data flags t pos peer ev h))"
  using assms
proof (induction data flags t pos peer ev h rule: command_loop.induct)
  case (1 data flags t pos peer ev h)
  show ?case
  proof (cases "pos < length data")
    case False
    then show ?thesis
      using 1(2) by (subst command_loop.simps) simp
  next
    case pos: True
    show ?thesis
    proof (cases "decode_command (drop pos data)")
      case None
      then show ?thesis
        using 1(2) pos by (subst command_loop.simps) simp
    next
      case (Some cr)
      then obtain c rest where c: "decode_command (drop pos data) = Some (c, rest)"
        by (cases cr) auto
      obtain r peer' ev' l h1 where hc:
        "handle_command peer ev c (pos + enet_protocol_command_size (hd_command c)) h = (r, peer', ev', l, h1)"
        by (metis prod_cases5)
      obtain more h2 where ack: "acknowledge_command flags t peer' c h1 = (more, h2)"
        by fastforce
      have h1: "I n h1" "\<And>i. peer' = Some i \<Longrightarrow> i < n"
        using handle_command_keeps [OF 1(2,3) hc] by blast+
      have h2: "I n h2"
        using acknowledge_keeps [where peer = peer', OF h1, where flags = flags and t = t and c = c] ack by simp
      show ?thesis
      proof (cases "peer = None \<and> command_number c \<noteq> ENET_PROTOCOL_COMMAND_CONNECT")
        case True
        then show ?thesis
          using 1(2) pos c by (subst command_loop.simps) simp
      next
        case False
        have "I n (snd (command_loop data flags t (pos + enet_protocol_command_size (hd_command c) + l)
            peer' ev' h2))" if "r = 0" "more"
          using 1(1) [OF _ c refl False hc [symmetric] refl refl refl _ ack [symmetric]] that pos h1 h2
          by simp
        then show ?thesis
          using False pos c hc ack h1 h2 by (subst command_loop.simps) (auto split: bool.split)
      qed
    qed
  qed
qed

end

text \<open>An intercept callback that leaves the host alone: it may judge the datagram and report an event.\<close>

definition observing :: "intercept_callback \<Rightarrow> bool" where
  "observing icb \<longleftrightarrow> (\<forall>f h event. icb = Some f \<longrightarrow> snd (snd (f h event)) = h)"

text \<open>
  The contract of the receive path: besides, what the path itself writes keeps the invariant.
  Then every datagram keeps it, and so does draining the socket.
\<close>

locale host_invariant = handler_invariant +
  assumes sender: "I n h \<Longrightarrow> i < n \<Longrightarrow> I n (upd_peer i (\<lambda>p. p\<lparr>p_address := a, p_incomingDataTotal := k2 p\<rparr>) h)"
    and received: "I n h \<Longrightarrow> I n (h\<lparr>h_receivedData := bs, h_receivedDataLength := l\<rparr>)"
    and input: "I n h \<Longrightarrow> I n (h\<lparr>h_inbox := rs\<rparr>)"
    and datagram: "I n h \<Longrightarrow> I n (accept_datagram ad bs h)"
begin

lemma handle_incoming_keeps:
  assumes "I n h"
  shows "I n (snd (snd (enet_protocol_handle_incoming_commands ev h)))"
proof -
  have dec: "I n h'" if "decompress_datagram dg h = Some h'" for dg h'
    using that assms by (auto simp: decompress_datagram_def Let_def received split: if_splits option.splits)
  have received': "I n (k\<lparr>h_receivedData := bs\<rparr>)" if "I n k" for k bs
    using received [OF that, where bs = bs and l = "h_receivedDataLength k"] by simp
  have check: "I n h'" if "verify_checksum dg peer k = Some h'" "I n k" for dg peer k h'
    using that by (auto simp: verify_checksum_def Let_def received' split: if_splits option.splits)
  have named: "i < n" if "header_peer h dg = Some (Some i)" for dg i
    using that peers [OF assms] by (auto simp: header_peer_def split: if_splits)
  show ?thesis
    using assms unfolding enet_protocol_handle_incoming_commands_def Let_def case_prod_beta
    by (auto split: option.split intro!: command_loop_keeps sender dest: dec check named)
qed

lemma receive_loop_keeps: "I n h \<Longrightarrow> observing icb \<Longrightarrow> I n (snd (snd (receive_loop k icb ev h)))"
proof (induction k arbitrary: ev h)
  case 0
  then show ?case by simp
next
  case (Suc k)
  have nxt: "I n (snd (next_input h))"
    using Suc.prems(1) by (auto simp: next_input_def input split: list.split)
  have seen: "snd (snd (case icb of None \<Rightarrow> (0, ev, h) | Some f \<Rightarrow> f h ev)) = h" for ev h
    using Suc.prems(2) by (simp add: observing_def split: option.splits)
  show ?case
    using nxt Suc.prems(2)
    by (auto simp: Let_def case_prod_beta seen intro!: Suc.IH handle_incoming_keeps datagram)
qed

lemma receive_keeps:
  "I n h \<Longrightarrow> observing icb \<Longrightarrow> I n (snd (snd (enet_protocol_receive_incoming_commands icb ev h)))"
  unfolding enet_protocol_receive_incoming_commands_def by (rule receive_loop_keeps)

end

text \<open>The host's invariant is one of the receive path.\<close>

interpretation host: host_invariant host_ok
proof
  show "host_ok n (upd_peer i (\<lambda>p. p\<lparr>p_address := a, p_incomingDataTotal := k2 p\<rparr>) h)"
    if "host_ok n h" "i < n" for n i a k2 h
    using that by (simp add: host_ok_tame tame_simps)
  show "host_ok n (accept_datagram ad bs h)" if "host_ok n h" for n ad bs h
    using that by (simp add: accept_datagram_def Let_def)
qed (simp_all add: host_ok_length keeps)


section \<open>Operations of the application\<close>

lemma fragment_loop_more:
  assumes "fragment_loop pl pk c fl num off frs h = Some rh"
  shows "memory.more (snd rh) = memory.more h"
proof (rule fragment_loop.raw_induct
    [where P = "\<lambda>pl pk c fl num off frs h rh. memory.more (snd rh) = memory.more h", OF _ assms])
  fix loop pl pk c fl num off frs h rh
  assume IH: "\<And>pl pk c fl num off frs h rh. loop pl pk c fl num off frs h = Some rh
      \<Longrightarrow> memory.more (snd rh) = memory.more (h :: ENetHost)"
    and body: "(if \<not> ucast off < pl then Some (Inr (num, frs), h)
      else let fl = if pl - ucast off < fl then pl - ucast off else fl
           in case fst (enet_malloc h) of None \<Rightarrow> Some (Inl (), snd (enet_malloc h))
              | Some x \<Rightarrow> loop pl pk c fl (num + 1) (ucast (ucast off + fl))
                  (frs @ [new_outgoing_command (c num off fl) (Some pk) off (ucast fl)])
                  (snd (enet_malloc h))) = Some rh"
  from body show "memory.more (snd rh) = memory.more h"
    by (auto simp: Let_def mem_frame split: if_splits option.splits dest!: IH)
qed

text \<open>The fragments and the single command of a send are well formed.\<close>

lemma fragment_command_ok:
  assumes "command = ENET_PROTOCOL_COMMAND_SEND_FRAGMENT OR ENET_PROTOCOL_COMMAND_FLAG_ACKNOWLEDGE
      \<or> command = ENET_PROTOCOL_COMMAND_SEND_UNRELIABLE_FRAGMENT" "fl \<le> 4096"
  shows "oc_ok (new_outgoing_command (fragment_command command c start cnt pl num off fl) (Some pk) off (ucast fl))"
proof -
  have "unat (ucast fl :: u16) \<le> 4096"
    using assms(2) order_trans [OF take_bit_nat_less_eq_self [of 16 "unat fl"]]
    by (simp add: word_le_nat_alt unsigned_ucast_eq)
  then show ?thesis
    using assms(1) by (auto simp: oc_ok_def new_outgoing_command_def fragment_command_def wf_command_def command_number_def)
qed

lemma fragment_loop_ok:
  assumes "fragment_loop pl pk c fl num off frs h = Some rh" "fl \<le> 4096" "\<forall>oc \<in> set frs. oc_ok oc"
    and "\<And>num off fl. fl \<le> 4096 \<Longrightarrow> oc_ok (new_outgoing_command (c num off fl) (Some pk) off (ucast fl))"
    and "fst rh = Inr (m, frs')"
  shows "\<forall>oc \<in> set frs'. oc_ok oc"
proof -
  define P where "P pk c fl frs rh \<longleftrightarrow>
      fl \<le> 4096 \<longrightarrow> (\<forall>oc \<in> set frs. oc_ok oc)
      \<longrightarrow> (\<forall>num off fl. fl \<le> 4096 \<longrightarrow> oc_ok (new_outgoing_command (c num off fl) (Some pk) off (ucast fl)))
      \<longrightarrow> (\<forall>m frs'. fst rh = Inr (m, frs') \<longrightarrow> (\<forall>oc \<in> set frs'. oc_ok oc))"
    for pk and c :: "u32 \<Rightarrow> u32 \<Rightarrow> u64 \<Rightarrow> ENetProtocol" and fl :: u64 and frs
      and rh :: "(unit + u32 \<times> ENetOutgoingCommand list) \<times> ENetHost"
  have "P pk c fl frs rh"
  proof (rule fragment_loop.raw_induct [where P = "\<lambda>pl pk c fl num off frs h rh. P pk c fl frs rh", OF _ assms(1)])
    fix loop and pl :: u64 and pk c fl and num off :: u32 and frs and h :: ENetHost and rh
    assume IH: "\<And>(pl :: u64) pk c fl (num :: u32) (off :: u32) frs (h :: ENetHost) rh.
      loop pl pk c fl num off frs h = Some rh \<Longrightarrow> P pk c fl frs rh"
    let ?fl = "if pl - ucast off < fl then pl - ucast off else fl"
    assume body: "(if \<not> ucast off < pl then Some (Inr (num, frs), h)
        else let fl = ?fl
             in case fst (enet_malloc h) of None \<Rightarrow> Some (Inl (), snd (enet_malloc h))
                | Some x \<Rightarrow> loop pl pk c fl (num + 1) (ucast (ucast off + fl))
                    (frs @ [new_outgoing_command (c num off fl) (Some pk) off (ucast fl)])
                    (snd (enet_malloc h))) = Some rh"
    show "P pk c fl frs rh"
    proof (cases "ucast off < pl \<and> fst (enet_malloc h) \<noteq> None")
      case True
      then obtain k where k: "k \<le> fl" "loop pl pk c k (num + 1) (ucast (ucast off + k))
          (frs @ [new_outgoing_command (c num off k) (Some pk) off (ucast k)]) (snd (enet_malloc h)) = Some rh"
        using body by (intro that [of ?fl]) (auto simp: Let_def)
      have "P pk c k (frs @ [new_outgoing_command (c num off k) (Some pk) off (ucast k)]) rh"
        by (rule IH [OF k(2)])
      note IH = this [unfolded P_def, rule_format]
      show ?thesis
        unfolding P_def
      proof (intro impI allI ballI)
        fix m frs' oc
        assume fl: "fl \<le> 4096" and frs: "\<forall>oc \<in> set frs. oc_ok oc"
          and new: "\<forall>num off fl. fl \<le> 4096 \<longrightarrow> oc_ok (new_outgoing_command (c num off fl) (Some pk) off (ucast fl))"
          and result: "fst rh = Inr (m, frs')" "oc \<in> set frs'"
        have "k \<le> 4096" using k(1) fl by (rule order_trans)
        moreover have "oc_ok x" if "x \<in> set (frs @ [new_outgoing_command (c num off k) (Some pk) off (ucast k)])" for x
          using that frs new \<open>k \<le> 4096\<close> by (cases "x \<in> set frs") simp_all
        ultimately show "oc_ok oc"
          using new by (intro IH [OF _ _ _ result]) blast+
      qed
    next
      case False
      then show ?thesis using body by (auto simp: P_def split: if_splits option.splits)
    qed
  qed
  then show ?thesis using assms(2-) unfolding P_def by blast
qed

lemma send_command_ok:
  assumes "(of_nat (pk_dataLength pk) :: u64) \<le> 4096"
  shows "oc_ok (new_outgoing_command (send_command c pk ch) (Some packet) 0 (of_nat (pk_dataLength pk)))"
proof -
  have "pk_dataLength pk mod 2 ^ 64 \<le> 4096"
    using assms by (simp add: word_le_nat_alt unat_of_nat)
  moreover have "pk_dataLength pk mod 2 ^ 16 = pk_dataLength pk mod 2 ^ 64 mod 2 ^ 16"
    by (rule mod_mod_cancel [symmetric]) simp
  ultimately have "unat (of_nat (pk_dataLength pk) :: u16) \<le> 4096"
    using mod_less_eq_dividend [of "pk_dataLength pk mod 2 ^ 64" "2 ^ 16"] by (simp add: unat_of_nat)
  then show ?thesis
    by (auto simp: oc_ok_def new_outgoing_command_def send_command_def Let_def wf_command_def command_number_def)
qed

lemma unat_ucast_up: "unat (ucast (w :: u32) :: u64) = unat w"
proof -
  have "unat w < 2 ^ 32"
    using unsigned_less [of w] by simp
  then show ?thesis
    by (simp add: unsigned_ucast_eq take_bit_nat_eq_self)
qed

lemma send_fragment_length_le:
  assumes "mtu_ok (p_mtu (peer_at h i))"
  shows "send_fragment_length i h \<le> 4096"
proof -
  have "unat (ucast (p_mtu (peer_at h i)) :: u64) = unat (p_mtu (peer_at h i))"
    by (rule unat_ucast_up)
  moreover have "576 \<le> unat (p_mtu (peer_at h i))" "unat (p_mtu (peer_at h i)) \<le> 4096"
    using assms by (simp_all add: mtu_ok_def word_le_nat_alt)
  ultimately show ?thesis
    by (auto simp: send_fragment_length_def Let_def word_le_nat_alt unat_sub_if')
qed

lemma host_ok_fold:
  assumes "\<And>x h. x \<in> set xs \<Longrightarrow> host_ok n h \<Longrightarrow> host_ok n (f x h)" "host_ok n h"
  shows "host_ok n (fold f xs h)"
  using assms by (induction xs arbitrary: h) auto

lemma host_ok_send:
  assumes "host_ok n h" "i < n" "enet_peer_send i c pk h = Some (r, h')"
  shows "host_ok n h'"
proof (cases "en_packets h pk")
  case None
  then show ?thesis
    using assms by (auto simp: enet_peer_send_def)
next
  case (Some packet)
  have len: "send_fragment_length i h \<le> 4096"
    using peer_ok_at [OF assms(1,2)] by (simp add: send_fragment_length_le peer_ok_def)
  have frs: "host_ok n h'" if sf: "send_fragments i c pk packet (send_fragment_length i h) h = Some (r, h')"
  proof -
    have fl: "host_ok n k" if "fragment_loop a1 a2 a3 a4 a5 a6 a7 h = Some (x, k)" for a1 a2 a3 a4 a5 a6 a7 x k
      using fragment_loop_more [OF that] assms(1) host_ok_more [of k h n] by simp
    have "host_ok n (fold (enet_peer_setup_outgoing_command i) frs (packet_addref q pk k))"
      if "fragment_loop pl pk (fragment_command command c start cnt tl1) (send_fragment_length i h) 0 0 [] h
            = Some (Inr (m, frs), k)"
        "command = ENET_PROTOCOL_COMMAND_SEND_FRAGMENT OR ENET_PROTOCOL_COMMAND_FLAG_ACKNOWLEDGE
          \<or> command = ENET_PROTOCOL_COMMAND_SEND_UNRELIABLE_FRAGMENT" for command start cnt pl tl1 m frs k q
    proof -
      have "\<forall>oc \<in> set frs. oc_ok oc"
        using fragment_loop_ok [OF that(1) len] fragment_command_ok [OF that(2)] by simp
      then show ?thesis
        using fl [OF that(1)] assms(2) by (intro host_ok_fold) (auto intro: keeps)
    qed
    then show ?thesis
      using sf assms(1,2) unfolding send_fragments_def Let_def
      by (auto split: if_splits option.splits sum.splits prod.splits dest: fl)
  qed
  show ?thesis
    using assms(3) Some frs send_command_ok [of packet] len keeps(3) [OF assms(1,2)] assms(1) unfolding enet_peer_send_def
    by (auto split: if_splits option.splits prod.splits dest!: arg_cong [where f = snd])
qed

lemma find_state_Some:
  "find_state s k ps = Some i \<Longrightarrow> k \<le> i \<and> i < k + length ps \<and> p_state (ps ! (i - k)) = s"
  by (induction s k ps rule: find_state.induct) (auto split: if_splits simp: nth_Cons')

lemma host_ok_host_connect:
  assumes "host_ok n h"
  shows "host_ok n (snd (enet_host_connect a m d h))"
proof (cases "find_state DISCONNECTED 0 (h_peers h)")
  case None
  then show ?thesis
    using assms by (simp add: enet_host_connect_def)
next
  case (Some i)
  then have i: "i < n" "p_state (peer_at h i) = DISCONNECTED"
    using find_state_Some [OF Some] host_ok_length [OF assms] by (simp_all add: peer_at_def)
  have ok: "host_ok n (upd_peer i (\<lambda>p. p\<lparr>p_channelCount := m', p_state := CONNECTING, p_address := a,
      p_connectID := cid, p_mtu := mtu, p_windowSize := connect_windowSize k', p_channels := cs\<rparr>) k)"
    if "host_ok n k" "p_state (peer_at k i) = DISCONNECTED" "m' = length cs" "mtu_ok mtu"
      "length cs \<le> ENET_PROTOCOL_MAXIMUM_CHANNEL_COUNT" "set cs \<subseteq> {initial_channel}" for cid mtu k k' m' cs
    using that i clamp_windowSize_range unfolding connect_windowSize_def
    by (intro host_ok_connect_peer) (auto simp: peer_ok_def channel_ok_def initial_channel_def)
  have k: "host_ok n (snd (enet_host_random (snd (enet_malloc h))))"
    "peer_at (snd (enet_host_random (snd (enet_malloc h)))) i = peer_at h i"
    using assms by (simp_all add: enet_host_random_def Let_def)
  show ?thesis
    using assms i k host_ok_mtu [OF k(1)] unfolding enet_host_connect_def Some Let_def case_prod_beta
    by (auto split: option.split intro!: keeps ok)
qed

lemma host_ok_broadcast_loop:
  assumes "host_ok n h" "set is \<subseteq> {..<n}" "broadcast_loop is c pk h = Some h'"
  shows "host_ok n h'"
  using assms
proof (induction "is" c pk h rule: broadcast_loop.induct)
  case (2 i "is" c pk h)
  then show ?case
    by (auto split: if_splits option.splits prod.splits dest: host_ok_send)
qed simp

lemma host_ok_broadcast:
  assumes "host_ok n h" "enet_host_broadcast c pk h = Some h'"
  shows "host_ok n h'"
  using assms host_ok_broadcast_loop [of n h "[0..<length (h_peers h)]" c pk] host_ok_length [OF assms(1)]
  by (auto simp: enet_host_broadcast_def lessThan_atLeast0 split: option.splits if_splits)

text \<open>The bandwidth throttle rewrites the peers one by one.\<close>

definition similar_peer :: "ENetPeer \<Rightarrow> ENetPeer \<Rightarrow> bool" where
  "similar_peer p q \<longleftrightarrow> (peer_ok p \<longrightarrow> peer_ok q) \<and> peer_key q = peer_key p"

definition similar_peers :: "ENetPeer list \<Rightarrow> ENetPeer list \<Rightarrow> bool" where
  "similar_peers = list_all2 similar_peer"

lemma similar_refl: "similar_peers ps ps"
  by (simp add: similar_peers_def list_all2_refl similar_peer_def)

lemma similar_trans: "similar_peers ps qs \<Longrightarrow> similar_peers qs rs \<Longrightarrow> similar_peers ps rs"
  unfolding similar_peers_def
  by (rule list_all2_trans [of similar_peer similar_peer similar_peer]) (simp_all add: similar_peer_def)

lemma similar_counts:
  assumes "similar_peers ps qs"
  shows "length qs = length ps"
    "length (filter (\<lambda>p. counted (p_state p)) qs) = length (filter (\<lambda>p. counted (p_state p)) ps)"
    "length (filter limited qs) = length (filter limited ps)"
    "(\<forall>p\<in>set ps. peer_ok p) \<Longrightarrow> \<forall>q\<in>set qs. peer_ok q"
  using assms unfolding similar_peers_def
  by (induction rule: list_all2_induct) (auto simp: peer_key_def similar_peer_def)

lemma host_ok_similar:
  assumes "host_ok n h" "similar_peers (h_peers h) ps"
  shows "host_ok n (h\<lparr>h_peers := ps\<rparr>)"
  using assms(1) similar_counts [OF assms(2)] by (simp add: host_ok_def counters_ok_def)

lemma similar_throttle_pass: "similar_peers ps (fst (throttle_pass now el thr ps v))"
proof (induction ps arbitrary: v)
  case Nil
  then show ?case by (simp add: similar_refl)
next
  case (Cons p ps)
  have "similar_peer p (limit_peer now b p)" for b
    by (auto simp: limit_peer_def Let_def peer_ok_def peer_key_def limited_def similar_peer_def)
  moreover have "similar_peer p p"
    by (simp add: similar_peer_def)
  ultimately show ?case
    using Cons.IH by (simp add: similar_peers_def Let_def case_prod_beta)
qed

lemma similar_throttle_loop: "similar_peers ps (fst (throttle_loop now el ps v))"
proof (induction now el ps v rule: throttle_loop.induct)
  case (1 now el ps v)
  define r where "r = throttle_pass now el (throttle_value (tv_dataTotal v) (tv_bandwidth v)) ps
    (v\<lparr>tv_needsAdjustment := False\<rparr>)"
  have "similar_peers ps (fst r)"
    unfolding r_def by (rule similar_throttle_pass)
  then show ?case
    using 1 [of "fst r" "snd r"] similar_trans
    by (subst throttle_loop.simps) (auto simp: r_def [symmetric] similar_refl case_prod_beta)
qed

lemma similar_map:
  assumes "\<And>p. similar_peer p (f p)"
  shows "similar_peers ps (map f ps)"
  using assms by (simp add: similar_peers_def list_all2_conv_all_nth)

lemma similar_throttle_outgoing: "similar_peers ps (throttle_outgoing now el ob k lim ps)"
proof -
  have "similar_peers ps (map (share_throttle now t) ps)" for t ps
    by (rule similar_map) (auto simp: share_throttle_def peer_ok_def peer_key_def limited_def similar_peer_def)
  then have "similar_peers ps (map (share_throttle now t) (fst (throttle_loop now el ps v)))" for t v
    using similar_trans similar_throttle_loop by blast
  then show ?thesis
    unfolding throttle_outgoing_def Let_def case_prod_beta
    by (auto intro: similar_throttle_loop)
qed

lemma similar_share_pass: "similar_peers ps (fst (share_pass now lim ps v))"
proof (induction ps arbitrary: v)
  case Nil
  then show ?case by (simp add: similar_refl)
next
  case (Cons p ps)
  obtain r b adj where v: "v = (r, b, adj)"
    by (cases v)
  have "similar_peer p (p\<lparr>p_incomingBandwidthThrottleEpoch := now\<rparr>)" "similar_peer p p"
    by (simp_all add: peer_ok_def peer_key_def limited_def similar_peer_def)
  then show ?case
    using Cons.IH by (auto simp: v similar_peers_def Let_def case_prod_beta)
qed

lemma similar_share_loop: "similar_peers ps (fst (share_loop now lim ps v))"
proof (induction now lim ps v rule: share_loop.induct)
  case (1 now lim ps k b adj)
  define r where "r = share_pass now (b div k) ps (k, b, False)"
  have "similar_peers ps (fst r)"
    unfolding r_def by (rule similar_share_pass)
  then show ?case
    using 1 [of "fst r" "snd r"] similar_trans
    by (subst share_loop.simps) (auto simp: r_def [symmetric] similar_refl case_prod_beta)
qed

lemma host_ok_announce: "host_ok n h \<Longrightarrow> i < n \<Longrightarrow> host_ok n (announce_bandwidth now lim i h)"
  by (simp add: announce_bandwidth_def keeps bandwidth_limit_command_def)

lemma host_ok_recalculate:
  assumes "host_ok n h"
  shows "host_ok n (recalculate_limits now h)"
proof -
  define r where "r = (if h_incomingBandwidth h = 0 then (h_peers h, 0)
    else share_loop now 0 (h_peers h) (ucast (h_connectedPeers h), h_incomingBandwidth h, True))"
  have s: "similar_peers (h_peers h) (fst r)"
    by (simp add: r_def similar_refl similar_share_loop)
  have "host_ok n (h\<lparr>h_recalculateBandwidthLimits := False, h_peers := fst r\<rparr>)"
    using assms s by (intro host_ok_similar) simp_all
  moreover have "length (fst r) = n"
    using similar_counts(1) [OF s] host_ok_length [OF assms] by simp
  ultimately have "host_ok n (fold (announce_bandwidth now (snd r)) [0..<length (fst r)]
      (h\<lparr>h_recalculateBandwidthLimits := False, h_peers := fst r\<rparr>))"
    by (intro host_ok_fold) (auto simp: host_ok_announce)
  then show ?thesis
    unfolding recalculate_limits_def Let_def case_prod_beta r_def
    by (cases "h_incomingBandwidth h = 0") simp_all
qed

lemma host_ok_bandwidth_throttle:
  assumes "host_ok n h"
  shows "host_ok n (enet_host_bandwidth_throttle h)"
proof -
  have s: "host_ok n (h\<lparr>h_clockReads := t, h_bandwidthThrottleEpoch := e,
      h_peers := throttle_outgoing now el ob c lim (h_peers h)\<rparr>)" for t e now el ob c lim
    using assms similar_throttle_outgoing by (intro host_ok_similar) simp_all
  show ?thesis
    using assms unfolding enet_host_bandwidth_throttle_def enet_time_get_def Let_def
    by (auto intro!: host_ok_recalculate s)
qed

text \<open>Dispatching events.\<close>

lemma host_ok_dispatch_peer:
  assumes "host_ok n h" "i < n"
  shows "host_ok n (snd (dispatch_peer i ev h))"
proof -
  have f: "tame (\<lambda>p. p\<lparr>p_flags := g p\<rparr>)" for g
    by (simp add: tame_simps)
  have r: "host_ok n (snd (enet_peer_receive i k))" if "host_ok n k" for k
    using that assms(2) by (rule keeps)
  show ?thesis
    using assms unfolding dispatch_peer_def Let_def case_prod_beta
    by (auto intro!: keeps host_ok_tame f r host_ok_dispatch_insert split: ENetPeerState.split option.split)
qed

lemma host_ok_dispatch_loop:
  assumes "host_ok n h" "set q \<subseteq> {..<n}"
  shows "host_ok n (snd (snd (dispatch_queue_loop q ev h)))"
  using assms
proof (induction q ev h rule: dispatch_queue_loop.induct)
  case (2 i q ev h)
  have "host_ok n (snd (dispatch_peer i ev (h\<lparr>h_dispatchQueue := q\<rparr>)))"
    using 2(2,3) by (intro host_ok_dispatch_peer host_ok_dispatchQueue) auto
  then show ?case
    using 2 by (auto split: prod.split option.split)
qed simp

lemma host_ok_dispatch_incoming:
  "host_ok n h \<Longrightarrow> host_ok n (snd (snd (enet_protocol_dispatch_incoming_commands ev h)))"
  unfolding enet_protocol_dispatch_incoming_commands_def
  by (rule host_ok_dispatch_loop) (simp_all add: host_ok_queue)

text \<open>Disconnecting, with the flush of the host as a parameter.\<close>

lemma host_ok_disconnect_now:
  assumes "host_ok n h" "i < n" "\<And>h h'. host_ok n h \<Longrightarrow> flush h = Some h' \<Longrightarrow> host_ok n h'"
    and "enet_peer_disconnect_now flush i d h = Some h'"
  shows "host_ok n h'"
  using assms(1,2,4) unfolding enet_peer_disconnect_now_def Let_def
  by (auto intro!: keeps elim!: assms(3) [rotated] split: if_splits)

lemma host_ok_disconnect_later:
  assumes "host_ok n h" "i < n" "\<And>h h'. host_ok n h \<Longrightarrow> flush h = Some h' \<Longrightarrow> host_ok n h'"
    and "enet_peer_disconnect_later flush i d h = Some h'"
  shows "host_ok n h'"
proof -
  have "host_ok n (upd_peer i (\<lambda>p. p\<lparr>p_state := DISCONNECT_LATER, p_eventData := d\<rparr>) h)"
    if "p_state (peer_at h i) = CONNECTED \<or> p_state (peer_at h i) = DISCONNECT_LATER"
    using assms(1,2) that by (intro host_ok_upd_peer) (auto simp: peer_ok_def peer_key_def limited_def)
  then show ?thesis
    using assms(4) host_ok_disconnect [OF assms(1-3)] by (auto simp: enet_peer_disconnect_later_def split: if_splits)
qed

end
