(* ===== verification/Enet_Outgoing.thy ===== *)
theory Enet_Outgoing
  imports Enet_Receive
begin

text \<open>
  The send path of \<^verbatim>\<open>src/protocol.c\<close>: acknowledgements, timeouts, the choice of the commands a
  datagram carries, and the datagram.  A cursor into a queue that the code walks while it
  removes commands is the pair of what it has passed and left in the queue, and what is ahead
  of it.
\<close>

section \<open>Acknowledgements\<close>

abbreviation (input) ENET_PROTOCOL_MAXIMUM_PACKET_COMMANDS :: nat where
  "ENET_PROTOCOL_MAXIMUM_PACKET_COMMANDS \<equiv> 32"

abbreviation (input) ENET_BUFFER_MAXIMUM :: nat where "ENET_BUFFER_MAXIMUM \<equiv> 65"

text \<open>\<open>peer->mtu - host->packetSize\<close> on \<open>size_t\<close>.\<close>

definition datagram_room :: "nat \<Rightarrow> ENetHost \<Rightarrow> u64" where
  "datagram_room i h = ucast (p_mtu (peer_at h i)) - h_packetSize h"

definition no_room_for_acknowledgement :: "nat \<Rightarrow> ENetHost \<Rightarrow> bool" where
  "no_room_for_acknowledgement i h \<longleftrightarrow>
     length (h_commands h) \<ge> ENET_PROTOCOL_MAXIMUM_PACKET_COMMANDS
     \<or> 1 + length (h_buffers h) \<ge> ENET_BUFFER_MAXIMUM
     \<or> datagram_room i h < of_nat sizeof_ENetProtocolAcknowledge"

definition acknowledge_reply :: "ENetAcknowledgement \<Rightarrow> ENetProtocol" where
  "acknowledge_reply a =
     (let n = hd_reliableSequenceNumber (ack_command a)
      in \<lparr>hd_command = ENET_PROTOCOL_COMMAND_ACKNOWLEDGE, hd_channelID = hd_channelID (ack_command a),
          hd_reliableSequenceNumber = n, pr_body = Acknowledge n (ucast (ack_sentTime a))\<rparr>)"

text \<open>\<open>*command++ = c\<close> with its buffer.\<close>

definition put_command :: "nat \<Rightarrow> ENetProtocol \<Rightarrow> ENetHost \<Rightarrow> ENetHost" where
  "put_command commandSize c h =
     h\<lparr>h_buffers := h_buffers h @ [CommandBuffer (length (h_commands h)) commandSize],
       h_packetSize := h_packetSize h + of_nat commandSize, h_commands := h_commands h @ [c]\<rparr>"

fun acknowledgements_loop :: "nat \<Rightarrow> ENetAcknowledgement list \<Rightarrow> ENetHost \<Rightarrow> ENetHost" where
  "acknowledgements_loop i [] h = h"
| "acknowledgements_loop i (a # as) h =
     (if no_room_for_acknowledgement i h then
        upd_peer i (\<lambda>p. p\<lparr>p_flags := set_flag (p_flags p) ENET_PEER_FLAG_CONTINUE_SENDING\<rparr>) h
      else
        (let h = put_command sizeof_ENetProtocolAcknowledge (acknowledge_reply a) h;
             h = (if command_number (ack_command a) = ENET_PROTOCOL_COMMAND_DISCONNECT
                  then enet_protocol_dispatch_state i ZOMBIE h else h)
         in acknowledgements_loop i as (upd_peer i (\<lambda>p. p\<lparr>p_acknowledgements := as\<rparr>) h)))"

definition enet_protocol_send_acknowledgements :: "nat \<Rightarrow> ENetHost \<Rightarrow> ENetHost" where
  "enet_protocol_send_acknowledgements i h = acknowledgements_loop i (p_acknowledgements (peer_at h i)) h"

section \<open>Timeouts\<close>

text \<open>
  The test that gives up on a peer.  \<open>1 << (sendAttempts - 1)\<close> is defined for up to 32
  attempts, the last as compilers define it; \<open>None\<close> where it is not.
\<close>

definition gives_up :: "u32 \<Rightarrow> ENetOutgoingCommand \<Rightarrow> ENetPeer \<Rightarrow> bool option" where
  "gives_up now oc p =
     (let elapsed = ENET_TIME_DIFFERENCE now (p_earliestTimeout p)
      in if p_earliestTimeout p = 0 then Some False
         else if elapsed \<ge> p_timeoutMaximum p then Some True
         else if oc_sendAttempts oc = 0 \<or> oc_sendAttempts oc > 32 then None
         else Some (push_bit (unat (oc_sendAttempts oc) - 1) 1 \<ge> p_timeoutLimit p
                    \<and> elapsed \<ge> p_timeoutMinimum p))"

datatype timeouts = TimeoutsChecked | PeerTimedOut | UndefinedShift

text \<open>What a timeout does to the command and to the counters of the peer.\<close>

definition note_timeout :: "ENetOutgoingCommand \<Rightarrow> ENetPeer \<Rightarrow> ENetPeer" where
  "note_timeout oc p =
     (if p_earliestTimeout p = 0 \<or> ENET_TIME_LESS (oc_sentTime oc) (p_earliestTimeout p)
      then p\<lparr>p_earliestTimeout := oc_sentTime oc\<rparr> else p)"

definition count_lost :: "ENetOutgoingCommand \<Rightarrow> ENetPeer \<Rightarrow> ENetPeer" where
  "count_lost oc p =
     p\<lparr>p_packetsLost := p_packetsLost p + 1,
       p_reliableDataInTransit := (if oc_packet oc \<noteq> None
         then p_reliableDataInTransit p - ucast (oc_fragmentLength oc) else p_reliableDataInTransit p)\<rparr>"

text \<open>The first command still in flight sets the next deadline, once those before it are gone.\<close>

definition next_deadline ::
  "ENetOutgoingCommand list \<Rightarrow> ENetOutgoingCommand list \<Rightarrow> ENetPeer \<Rightarrow> ENetPeer" where
  "next_deadline kept rest p =
     (case (kept, rest) of
        ([], first # _) \<Rightarrow> p\<lparr>p_nextTimeout := oc_sentTime first + oc_roundTripTimeout first\<rparr>
      | _ \<Rightarrow> p)"

text \<open>
  The loop over \<open>sentReliableCommands\<close>: \<open>kept\<close> is what it leaves there, \<open>again\<close> and
  \<open>againReliable\<close> what it has inserted in front of the two queues.
\<close>

definition requeue ::
  "ENetOutgoingCommand list \<Rightarrow> ENetOutgoingCommand list \<Rightarrow> ENetOutgoingCommand list \<Rightarrow> ENetPeer \<Rightarrow> ENetPeer" where
  "requeue sent again againReliable p =
     p\<lparr>p_sentReliableCommands := sent, p_outgoingCommands := again @ p_outgoingCommands p,
       p_outgoingSendReliableCommands := againReliable @ p_outgoingSendReliableCommands p\<rparr>"

fun timeout_loop ::
  "u32 \<Rightarrow> ENetOutgoingCommand list \<Rightarrow> ENetOutgoingCommand list \<Rightarrow> ENetOutgoingCommand list
    \<Rightarrow> ENetOutgoingCommand list \<Rightarrow> ENetPeer \<Rightarrow> timeouts \<times> ENetPeer" where
  "timeout_loop now [] kept again againReliable p = (TimeoutsChecked, requeue kept again againReliable p)"
| "timeout_loop now (oc # rest) kept again againReliable p =
     (if ENET_TIME_DIFFERENCE now (oc_sentTime oc) < oc_roundTripTimeout oc then
        timeout_loop now rest (kept @ [oc]) again againReliable p
      else
        (let p = note_timeout oc p
         in case gives_up now oc p of
              None \<Rightarrow> (UndefinedShift, requeue (kept @ oc # rest) again againReliable p)
            | Some True \<Rightarrow> (PeerTimedOut, requeue (kept @ oc # rest) again againReliable p)
            | Some False \<Rightarrow>
                (let p = next_deadline kept rest (count_lost oc p);
                     oc' = oc\<lparr>oc_roundTripTimeout := oc_roundTripTimeout oc * 2\<rparr>
                 in if oc_packet oc \<noteq> None then timeout_loop now rest kept again (againReliable @ [oc']) p
                    else timeout_loop now rest kept (again @ [oc']) againReliable p)))"

text \<open>The result says whether the peer is given up, \<open>return 1\<close>.\<close>

definition enet_protocol_check_timeouts ::
  "nat \<Rightarrow> ENetEvent option \<Rightarrow> ENetHost \<Rightarrow> bool \<times> ENetEvent option \<times> ENetHost" where
  "enet_protocol_check_timeouts i event h =
     (let (outcome, p) = timeout_loop (h_serviceTime h) (p_sentReliableCommands (peer_at h i)) [] [] [] (peer_at h i);
          h = upd_peer i (\<lambda>_. p) h
      in case outcome of
           TimeoutsChecked \<Rightarrow> (False, event, h)
         | UndefinedShift \<Rightarrow> (False, event, raise_fault h)
         | PeerTimedOut \<Rightarrow> (let (event, h) = enet_protocol_notify_disconnect i event h in (True, event, h)))"

section \<open>Choosing the commands of a datagram\<close>

text \<open>
  The variables of \<open>enet_protocol_check_outgoing_commands\<close>.  The queues of \<open>os_peer\<close> that the
  cursors walk are those of the last four lists until the end.
\<close>

record outgoing_state =
  os_host :: ENetHost
  os_peer :: ENetPeer
  os_sentUnreliable :: "ENetOutgoingCommand list"
  os_windowWrap :: bool
  os_canPing :: bool
  os_passed :: "ENetOutgoingCommand list"
  os_ahead :: "ENetOutgoingCommand list"
  os_passedReliable :: "ENetOutgoingCommand list"
  os_aheadReliable :: "ENetOutgoingCommand list"

text \<open>
  The next command: from the queue of packets to send reliably where that one was queued
  first.  The Boolean says whether it was taken from there.
\<close>

fun next_outgoing ::
  "ENetOutgoingCommand list \<Rightarrow> ENetOutgoingCommand list
    \<Rightarrow> (bool \<times> ENetOutgoingCommand \<times> ENetOutgoingCommand list \<times> ENetOutgoingCommand list) option" where
  "next_outgoing [] [] = None"
| "next_outgoing [] (r # rs) = Some (True, r, [], rs)"
| "next_outgoing (c # cs) [] = Some (False, c, cs, [])"
| "next_outgoing (c # cs) (r # rs) =
     (if ENET_TIME_LESS (oc_queueTime r) (oc_queueTime c) then Some (True, r, c # cs, rs)
      else Some (False, c, cs, r # rs))"

text \<open>\<open>continue\<close> and \<open>break\<close> leave the command where it is.\<close>

definition keep_command :: "bool \<Rightarrow> ENetOutgoingCommand \<Rightarrow> outgoing_state \<Rightarrow> outgoing_state" where
  "keep_command reliable oc s =
     (if reliable then s\<lparr>os_passedReliable := os_passedReliable s @ [oc]\<rparr>
      else s\<lparr>os_passed := os_passed s @ [oc]\<rparr>)"

text \<open>\<open>currentSendReliableCommand = enet_list_end (...)\<close>.\<close>

definition skip_reliable :: "outgoing_state \<Rightarrow> outgoing_state" where
  "skip_reliable s =
     s\<lparr>os_passedReliable := os_passedReliable s @ os_aheadReliable s, os_aheadReliable := []\<rparr>"

definition acknowledged :: "ENetOutgoingCommand \<Rightarrow> bool" where
  "acknowledged oc \<longleftrightarrow> has_flag (hd_command (oc_command oc)) ENET_PROTOCOL_COMMAND_FLAG_ACKNOWLEDGE"

definition sequence_window :: "ENetOutgoingCommand \<Rightarrow> nat" where
  "sequence_window oc = unat (oc_reliableSequenceNumber oc div ENET_PEER_RELIABLE_WINDOW_SIZE)"

text \<open>
  A command that opens a new window of sequence numbers waits while the window before it is
  full or the ones from it on are in use.
\<close>

definition windows_in_use :: "nat \<Rightarrow> ENetChannel \<Rightarrow> bool" where
  "windows_in_use w ch \<longleftrightarrow>
     ch_reliableWindows ch ! ((w + 16 - 1) mod 16) \<ge> ENET_PEER_RELIABLE_WINDOW_SIZE
     \<or> has_flag (ucast (ch_usedReliableWindows ch) :: u32)
          (push_bit w (push_bit 10 1 - 1) OR drop_bit (16 - w) (push_bit 10 1 - 1))"

definition opens_used_window :: "ENetOutgoingCommand \<Rightarrow> ENetChannel \<Rightarrow> bool" where
  "opens_used_window oc ch \<longleftrightarrow>
     oc_sendAttempts oc < 1
     \<and> oc_reliableSequenceNumber oc mod ENET_PEER_RELIABLE_WINDOW_SIZE = 0
     \<and> windows_in_use (sequence_window oc) ch"

definition exceeds_transit :: "ENetOutgoingCommand \<Rightarrow> ENetPeer \<Rightarrow> bool" where
  "exceeds_transit oc p \<longleftrightarrow>
     oc_packet oc \<noteq> None
     \<and> p_reliableDataInTransit p + ucast (oc_fragmentLength oc)
         > ENET_MAX ((p_packetThrottle p * p_windowSize p) div ENET_PEER_PACKET_THROTTLE_SCALE) (p_mtu p)"

text \<open>\<open>channelID < channelCount ? &channels[channelID] : NULL\<close>.\<close>

definition command_channel :: "ENetOutgoingCommand \<Rightarrow> ENetPeer \<Rightarrow> u8 option" where
  "command_channel oc p =
     (let c = hd_channelID (oc_command oc) in if unat c < p_channelCount p then Some c else None)"

text \<open>What the tests on a command that asks for an acknowledgement decide.\<close>

datatype reliable_gate = Wait | WaitWindow | WaitTransit | Ready

definition reliable_gate :: "bool \<Rightarrow> ENetOutgoingCommand \<Rightarrow> ENetPeer \<Rightarrow> reliable_gate" where
  "reliable_gate windowWrap oc p =
     (case command_channel oc p of
        Some c \<Rightarrow>
          if windowWrap then Wait
          else if opens_used_window oc (channel_at p c) then WaitWindow
          else if exceeds_transit oc p then WaitTransit else Ready
      | None \<Rightarrow> if exceeds_transit oc p then WaitTransit else Ready)"

text \<open>The comparison of the packet's size is on 16 bits.\<close>

definition no_room_for_command :: "ENetOutgoingCommand \<Rightarrow> outgoing_state \<Rightarrow> bool" where
  "no_room_for_command oc s \<longleftrightarrow>
     (let h = os_host s;
          room = ucast (p_mtu (os_peer s)) - h_packetSize h :: u64;
          commandSize = of_nat (enet_protocol_command_size (hd_command (oc_command oc))) :: u64
      in length (h_commands h) \<ge> ENET_PROTOCOL_MAXIMUM_PACKET_COMMANDS
         \<or> 1 + length (h_buffers h) + 1 \<ge> ENET_BUFFER_MAXIMUM
         \<or> room < commandSize
         \<or> (oc_packet oc \<noteq> None
             \<and> (ucast room :: u16) < ucast (commandSize + ucast (oc_fragmentLength oc))))"

definition use_window :: "nat \<Rightarrow> ENetChannel \<Rightarrow> ENetChannel" where
  "use_window w ch =
     ch\<lparr>ch_usedReliableWindows := ch_usedReliableWindows ch OR push_bit w 1,
        ch_reliableWindows := (ch_reliableWindows ch)[w := ch_reliableWindows ch ! w + 1]\<rparr>"

text \<open>Moving the command to \<open>sentReliableCommands\<close>; \<open>now\<close> is \<open>host->serviceTime\<close>.\<close>

definition record_sent_reliable :: "u32 \<Rightarrow> ENetOutgoingCommand \<Rightarrow> ENetPeer \<Rightarrow> ENetPeer" where
  "record_sent_reliable now oc p =
     (let p = (case command_channel oc p of
                 Some c \<Rightarrow> if oc_sendAttempts oc < 1 then upd_channel c (use_window (sequence_window oc)) p else p
               | None \<Rightarrow> p);
          oc = oc\<lparr>oc_sendAttempts := oc_sendAttempts oc + 1\<rparr>;
          oc = (if oc_roundTripTimeout oc = 0
                then oc\<lparr>oc_roundTripTimeout := p_roundTripTime p + 4 * p_roundTripTimeVariance p\<rparr> else oc);
          p = (if p_sentReliableCommands p = []
               then p\<lparr>p_nextTimeout := now + oc_roundTripTimeout oc\<rparr> else p)
      in p\<lparr>p_sentReliableCommands := p_sentReliableCommands p @ [oc\<lparr>oc_sentTime := now\<rparr>],
           p_reliableDataInTransit := p_reliableDataInTransit p + ucast (oc_fragmentLength oc)\<rparr>)"

text \<open>
  The packet throttle drops an unreliable packet: its first fragment, and the commands ahead
  that have the same sequence numbers.  A dropped command without a packet is a null pointer.
\<close>

definition count_throttle :: "ENetPeer \<Rightarrow> ENetPeer" where
  "count_throttle p =
     p\<lparr>p_packetThrottleCounter :=
         (p_packetThrottleCounter p + ENET_PEER_PACKET_THROTTLE_COUNTER) mod ENET_PEER_PACKET_THROTTLE_SCALE\<rparr>"

definition drop_packet :: "ENetOutgoingCommand \<Rightarrow> 'a memory_scheme \<Rightarrow> 'a memory_scheme" where
  "drop_packet oc m = (case oc_packet oc of None \<Rightarrow> raise_fault m | Some packet \<Rightarrow> packet_unref 0 packet m)"

fun drop_same_numbers ::
  "u16 \<Rightarrow> u16 \<Rightarrow> ENetOutgoingCommand list \<Rightarrow> 'a memory_scheme \<Rightarrow> ENetOutgoingCommand list \<times> 'a memory_scheme" where
  "drop_same_numbers n u [] m = ([], m)"
| "drop_same_numbers n u (oc # rest) m =
     (if oc_reliableSequenceNumber oc \<noteq> n \<or> oc_unreliableSequenceNumber oc \<noteq> u then (oc # rest, m)
      else drop_same_numbers n u rest (drop_packet oc m))"

text \<open>The command's place in the datagram.\<close>

definition put_outgoing :: "ENetOutgoingCommand \<Rightarrow> outgoing_state \<Rightarrow> outgoing_state" where
  "put_outgoing oc s =
     (let h = put_command (enet_protocol_command_size (hd_command (oc_command oc))) (oc_command oc) (os_host s);
          h = (case oc_packet oc of
                 None \<Rightarrow> h
               | Some packet \<Rightarrow>
                   h\<lparr>h_buffers := h_buffers h
                       @ [PacketBuffer packet (oc_fragmentOffset oc) (unat (oc_fragmentLength oc))],
                     h_packetSize := h_packetSize h + ucast (oc_fragmentLength oc)\<rparr>)
      in s\<lparr>os_host := h, os_peer := (os_peer s)\<lparr>p_packetsSent := p_packetsSent (os_peer s) + 1\<rparr>\<rparr>)"

text \<open>The rest of the loop's body for a command that passed its gate: \<open>False\<close> is \<open>break\<close>.\<close>

definition send_command_now :: "bool \<Rightarrow> ENetOutgoingCommand \<Rightarrow> outgoing_state \<Rightarrow> bool \<times> outgoing_state" where
  "send_command_now reliable oc s =
     (if no_room_for_command oc s then
        (False, keep_command reliable oc
           (s\<lparr>os_peer := (os_peer s)\<lparr>p_flags := set_flag (p_flags (os_peer s)) ENET_PEER_FLAG_CONTINUE_SENDING\<rparr>\<rparr>))
      else if acknowledged oc then
        (let h = os_host s
         in (True, put_outgoing oc
               (s\<lparr>os_peer := record_sent_reliable (h_serviceTime h) oc (os_peer s),
                  os_host := h\<lparr>h_headerFlags := set_flag (h_headerFlags h) ENET_PROTOCOL_HEADER_FLAG_SENT_TIME\<rparr>\<rparr>)))
      else
        (let first = (oc_packet oc \<noteq> None \<and> oc_fragmentOffset oc = 0);
             s = (if first then s\<lparr>os_peer := count_throttle (os_peer s)\<rparr> else s)
         in if first \<and> p_packetThrottleCounter (os_peer s) > p_packetThrottle (os_peer s) then
              (let (rest, h) = drop_same_numbers (oc_reliableSequenceNumber oc) (oc_unreliableSequenceNumber oc)
                                 (os_ahead s) (drop_packet oc (os_host s))
               in (True, s\<lparr>os_ahead := rest, os_host := h\<rparr>))
            else
              (True, put_outgoing oc
                 (if oc_packet oc \<noteq> None then s\<lparr>os_sentUnreliable := os_sentUnreliable s @ [oc]\<rparr> else s))))"

definition outgoing_step :: "bool \<Rightarrow> ENetOutgoingCommand \<Rightarrow> outgoing_state \<Rightarrow> bool \<times> outgoing_state" where
  "outgoing_step reliable oc s =
     (if \<not> acknowledged oc then send_command_now reliable oc s
      else
        (case reliable_gate (os_windowWrap s) oc (os_peer s) of
           Wait \<Rightarrow> (True, keep_command reliable oc s)
         | WaitWindow \<Rightarrow> (True, skip_reliable (keep_command reliable oc (s\<lparr>os_windowWrap := True\<rparr>)))
         | WaitTransit \<Rightarrow> (True, skip_reliable (keep_command reliable oc s))
         | Ready \<Rightarrow> send_command_now reliable oc (s\<lparr>os_canPing := False\<rparr>)))"

lemma drop_same_numbers_length: "length (fst (drop_same_numbers n u ocs m)) \<le> length ocs"
  by (induction n u ocs m rule: drop_same_numbers.induct) auto

lemma next_outgoing_length:
  "next_outgoing cs rs = Some (reliable, oc, cs', rs') \<Longrightarrow> length cs + length rs = Suc (length cs' + length rs')"
  by (induction cs rs rule: next_outgoing.induct) (auto split: if_splits)

lemma outgoing_step_ahead:
  assumes "outgoing_step reliable oc s = (b, s')"
  shows "length (os_ahead s') + length (os_aheadReliable s') \<le> length (os_ahead s) + length (os_aheadReliable s)"
  using assms
  by (auto simp: outgoing_step_def send_command_now_def put_outgoing_def keep_command_def skip_reliable_def
      Let_def case_prod_beta drop_same_numbers_length split: reliable_gate.splits if_splits)

function outgoing_loop :: "outgoing_state \<Rightarrow> outgoing_state" where
  "outgoing_loop s =
     (case next_outgoing (os_ahead s) (os_aheadReliable s) of
        None \<Rightarrow> s
      | Some (reliable, oc, cs, rs) \<Rightarrow>
          (case outgoing_step reliable oc (s\<lparr>os_ahead := cs, os_aheadReliable := rs\<rparr>) of
             (False, s) \<Rightarrow> s
           | (True, s) \<Rightarrow> outgoing_loop s))"
  by pat_completeness auto

termination outgoing_loop
proof (relation "measure (\<lambda>s. length (os_ahead s) + length (os_aheadReliable s))", goal_cases)
  case 1
  show ?case by simp
next
  case 2
  then show ?case
    by (auto dest!: next_outgoing_length outgoing_step_ahead [OF sym])
qed

declare outgoing_loop.simps [simp del]

text \<open>What every round keeps, the loop keeps.\<close>

lemma outgoing_loop_invariant:
  assumes "P s"
    and "\<And>s reliable oc cs rs goes s'. P s \<Longrightarrow>
      next_outgoing (os_ahead s) (os_aheadReliable s) = Some (reliable, oc, cs, rs) \<Longrightarrow>
      outgoing_step reliable oc (s\<lparr>os_ahead := cs, os_aheadReliable := rs\<rparr>) = (goes, s') \<Longrightarrow> P s'"
  shows "P (outgoing_loop s)"
  using assms(1)
proof (induction s rule: outgoing_loop.induct)
  case (1 s)
  show ?case
  proof (cases "next_outgoing (os_ahead s) (os_aheadReliable s)")
    case None
    then show ?thesis using 1(2) by (simp add: outgoing_loop.simps)
  next
    case (Some r)
    then obtain reliable oc cs rs where r:
      "next_outgoing (os_ahead s) (os_aheadReliable s) = Some (reliable, oc, cs, rs)"
      by (cases r) auto
    obtain goes s' where step: "outgoing_step reliable oc (s\<lparr>os_ahead := cs, os_aheadReliable := rs\<rparr>) = (goes, s')"
      by fastforce
    have "P s'" using assms(2) [OF 1(2) r step] .
    then show ?thesis
      using 1(1) [OF r refl refl refl step [symmetric]] r step
      by (subst outgoing_loop.simps) (auto split: bool.split)
  qed
qed

text \<open>The ways a round can go.\<close>

lemma outgoing_step_cases:
  assumes "outgoing_step reliable oc s = (goes, s')"
  obtains
    (kept) w where "goes" "s' = keep_command reliable oc (s\<lparr>os_windowWrap := w\<rparr>)"
  | (skipped) w where "goes" "s' = skip_reliable (keep_command reliable oc (s\<lparr>os_windowWrap := w\<rparr>))"
  | (full) c where "\<not> goes" "no_room_for_command oc s" "acknowledged oc \<Longrightarrow> reliable_gate (os_windowWrap s) oc (os_peer s) = Ready"
      "s' = keep_command reliable oc (s\<lparr>os_canPing := c, os_peer :=
         (os_peer s)\<lparr>p_flags := set_flag (p_flags (os_peer s)) ENET_PEER_FLAG_CONTINUE_SENDING\<rparr>\<rparr>)"
  | (reliable) "goes" "acknowledged oc" "reliable_gate (os_windowWrap s) oc (os_peer s) = Ready" "\<not> no_room_for_command oc s"
      "s' = put_outgoing oc (s\<lparr>os_canPing := False,
         os_peer := record_sent_reliable (h_serviceTime (os_host s)) oc (os_peer s),
         os_host := (os_host s)\<lparr>h_headerFlags := set_flag (h_headerFlags (os_host s)) ENET_PROTOCOL_HEADER_FLAG_SENT_TIME\<rparr>\<rparr>)"
  | (dropped) rest h where "goes" "\<not> acknowledged oc" "oc_packet oc \<noteq> None" "oc_fragmentOffset oc = 0"
      "drop_same_numbers (oc_reliableSequenceNumber oc) (oc_unreliableSequenceNumber oc) (os_ahead s)
         (drop_packet oc (os_host s)) = (rest, h)"
      "s' = s\<lparr>os_peer := count_throttle (os_peer s), os_ahead := rest, os_host := h\<rparr>"
  | (unreliable) p where "goes" "\<not> acknowledged oc" "\<not> no_room_for_command oc s"
      "p = os_peer s \<or> p = count_throttle (os_peer s)"
      "s' = put_outgoing oc (s\<lparr>os_peer := p, os_sentUnreliable := os_sentUnreliable s
         @ (if oc_packet oc = None then [] else [oc])\<rparr>)"
proof -
  have room: "no_room_for_command oc (s\<lparr>os_canPing := c\<rparr>) = no_room_for_command oc s" for c
    by (simp add: no_room_for_command_def)
  show ?thesis
  proof (cases "acknowledged oc")
    case True
    show ?thesis
    proof (cases "reliable_gate (os_windowWrap s) oc (os_peer s)")
      case Wait
      then show ?thesis using assms True kept [of "os_windowWrap s"] by (simp add: outgoing_step_def)
    next
      case WaitWindow
      then show ?thesis using assms True skipped [of True] by (simp add: outgoing_step_def)
    next
      case WaitTransit
      then show ?thesis using assms True skipped [of "os_windowWrap s"] by (simp add: outgoing_step_def)
    next
      case Ready
      then show ?thesis
        using assms True full [of False] reliable
        by (cases "no_room_for_command oc s") (auto simp: outgoing_step_def send_command_now_def room Let_def)
    qed
  next
    case False
    let ?first = "oc_packet oc \<noteq> None \<and> oc_fragmentOffset oc = 0"
    let ?p = "if ?first then count_throttle (os_peer s) else os_peer s"
    consider "no_room_for_command oc s"
      | "\<not> no_room_for_command oc s" "?first" "p_packetThrottleCounter ?p > p_packetThrottle ?p"
      | "\<not> no_room_for_command oc s" "\<not> (?first \<and> p_packetThrottleCounter ?p > p_packetThrottle ?p)"
      by blast
    then show ?thesis
    proof cases
      case 1
      then show ?thesis
        using assms False full [of "os_canPing s"] by (auto simp: outgoing_step_def send_command_now_def)
    next
      case 2
      then show ?thesis
        using assms False dropped [OF _ _ _ _ surjective_pairing]
        by (auto simp: outgoing_step_def send_command_now_def Let_def case_prod_beta)
    next
      case 3
      then have "s' = put_outgoing oc (s\<lparr>os_peer := ?p, os_sentUnreliable := os_sentUnreliable s
           @ (if oc_packet oc = None then [] else [oc])\<rparr>)" "goes"
        using assms False
        by (cases "oc_packet oc"; auto simp: outgoing_step_def send_command_now_def Let_def split: if_splits)+
      then show ?thesis
        using 3 False unreliable [of ?p] by auto
    qed
  qed
qed

text \<open>
  The result: may a ping be sent, the sent unreliable commands, the host.
\<close>

definition enet_protocol_check_outgoing_commands ::
  "nat \<Rightarrow> ENetOutgoingCommand list \<Rightarrow> ENetHost \<Rightarrow> bool \<times> ENetOutgoingCommand list \<times> ENetHost" where
  "enet_protocol_check_outgoing_commands i sentUnreliable h =
     (let p = peer_at h i;
          s = outgoing_loop \<lparr>os_host = h, os_peer = p, os_sentUnreliable = sentUnreliable, os_windowWrap = False,
                os_canPing = True, os_passed = [], os_ahead = p_outgoingCommands p,
                os_passedReliable = [], os_aheadReliable = p_outgoingSendReliableCommands p\<rparr>;
          h = upd_peer i (\<lambda>_. (os_peer s)\<lparr>p_outgoingCommands := os_passed s @ os_ahead s,
                 p_outgoingSendReliableCommands := os_passedReliable s @ os_aheadReliable s\<rparr>) (os_host s);
          p = peer_at h i;
          h = (if p_state p = DISCONNECT_LATER \<and> \<not> enet_peer_has_outgoing_commands p
                  \<and> os_sentUnreliable s = []
               then disconnect_delayed i (p_eventData p) h else h)
      in (os_canPing s, os_sentUnreliable s, h))"

section \<open>The datagram\<close>

text \<open>
  The bytes a buffer points to; \<open>None\<close> where they are not all there: the packet is not live,
  or the bytes are outside its data or were never written.
\<close>

fun all_written :: "u8 option list \<Rightarrow> u8 list option" where
  "all_written [] = Some []"
| "all_written (None # bs) = None"
| "all_written (Some b # bs) = map_option ((#) b) (all_written bs)"

fun buffer_bytes :: "ENetHost \<Rightarrow> ENetBuffer \<Rightarrow> u8 list option" where
  "buffer_bytes h (CommandBuffer k len) =
     (if k < length (h_commands h) \<and> len \<le> length (encode_command (h_commands h ! k))
      then Some (take len (encode_command (h_commands h ! k))) else None)"
| "buffer_bytes h (PacketBuffer packet offset len) =
     (case en_packets h packet of
        None \<Rightarrow> None
      | Some pk \<Rightarrow>
          if unat offset + len \<le> length (pk_data pk)
          then all_written (take len (drop (unat offset) (pk_data pk))) else None)"
| "buffer_bytes h (CompressedBuffer bs) = Some bs"

fun buffers_bytes :: "ENetHost \<Rightarrow> ENetBuffer list \<Rightarrow> u8 list option" where
  "buffers_bytes h [] = Some []"
| "buffers_bytes h (b # bs) =
     (case buffer_bytes h b of
        None \<Rightarrow> None
      | Some xs \<Rightarrow> map_option ((@) xs) (buffers_bytes h bs))"

text \<open>The statistics of lost packets.\<close>

definition update_packet_loss :: "u32 \<Rightarrow> ENetPeer \<Rightarrow> ENetPeer" where
  "update_packet_loss now p =
     (if p_packetLossEpoch p = 0 then p\<lparr>p_packetLossEpoch := now\<rparr>
      else if ENET_TIME_DIFFERENCE now (p_packetLossEpoch p) \<ge> ENET_PEER_PACKET_LOSS_INTERVAL
              \<and> p_packetsSent p > 0 then
        (let packetLoss = (p_packetsLost p * ENET_PEER_PACKET_LOSS_SCALE) div p_packetsSent p
         in p\<lparr>p_packetLossVariance :=
                (p_packetLossVariance p * 3 + ENET_DIFFERENCE packetLoss (p_packetLoss p)) div 4,
              p_packetLoss := (p_packetLoss p * 7 + packetLoss) div 8,
              p_packetLossEpoch := now, p_packetsSent := 0, p_packetsLost := 0\<rparr>)
      else p)"

text \<open>
  Compression, of the buffers behind the header's one by one, into \<open>buffers[1]\<close>.  A compressor that
  reads what is not there is a fault.
\<close>

definition buffer_list :: "ENetHost \<Rightarrow> u8 list list" where
  "buffer_list h = map (\<lambda>b. case buffer_bytes h b of None \<Rightarrow> [] | Some bs \<Rightarrow> bs) (h_buffers h)"

definition compress_buffers :: "ENetHost \<Rightarrow> ENetHost" where
  "compress_buffers h =
     (case h_compress h of
        None \<Rightarrow> h
      | Some compress \<Rightarrow>
          (let originalSize = h_packetSize h - of_nat sizeof_ENetProtocolHeader
           in case compress (buffer_list h) originalSize originalSize of
                None \<Rightarrow> raise_fault h
              | Some out \<Rightarrow>
                  if length out > 0 \<and> length out < unat originalSize then
                    h\<lparr>h_headerFlags := set_flag (h_headerFlags h) ENET_PROTOCOL_HEADER_FLAG_COMPRESSED,
                      h_buffers := [CompressedBuffer out]\<rparr>
                  else h))"

text \<open>
  The header: peer identifier with flags and session, the time where a command asks for an
  acknowledgement, the checksum of the uncompressed datagram.
\<close>

definition header_flags :: "u16 \<Rightarrow> ENetPeer \<Rightarrow> u16" where
  "header_flags flags p =
     (if p_outgoingPeerID p < ENET_PROTOCOL_MAXIMUM_PEER_ID
      then flags OR push_bit ENET_PROTOCOL_HEADER_SESSION_SHIFT (ucast (p_outgoingSessionID p)) else flags)"

definition plain_header :: "u32 \<Rightarrow> u16 \<Rightarrow> ENetPeer \<Rightarrow> u8 list" where
  "plain_header now flags p =
     put16 (p_outgoingPeerID p OR header_flags flags p)
     @ (if has_flag flags ENET_PROTOCOL_HEADER_FLAG_SENT_TIME then put16 (ucast (now AND 0xFFFF)) else [])"

definition checksum_connectID :: "ENetPeer \<Rightarrow> u32" where
  "checksum_connectID p =
     (if p_outgoingPeerID p < ENET_PROTOCOL_MAXIMUM_PEER_ID then p_connectID p else 0)"

definition datagram_header_bytes :: "(u8 list \<Rightarrow> u32) option \<Rightarrow> u32 \<Rightarrow> u16 \<Rightarrow> ENetPeer \<Rightarrow> u8 list \<Rightarrow> u8 list" where
  "datagram_header_bytes checksum now flags p body =
     (let header = plain_header now flags p
      in case checksum of
           None \<Rightarrow> header
         | Some f \<Rightarrow> header @ put32_native (f (header @ put32_native (checksum_connectID p) @ body)))"

text \<open>\<open>enet_socket_send\<close> of \<^verbatim>\<open>src/unix.c\<close>.\<close>

definition enet_socket_send :: "ENetAddress \<Rightarrow> u8 list \<Rightarrow> ENetHost \<Rightarrow> int \<times> ENetHost" where
  "enet_socket_send address bytes h =
     ((case h_sendmsg h (length (h_outbox h)) of
         SendWouldBlock \<Rightarrow> 0 | SendError \<Rightarrow> - 1 | Sent n \<Rightarrow> int n),
      h\<lparr>h_outbox := h_outbox h @ [(address, bytes)]\<rparr>)"

section \<open>Sending to the peers\<close>

definition begin_datagram :: "nat \<Rightarrow> ENetHost \<Rightarrow> ENetHost" where
  "begin_datagram i h =
     (upd_peer i (\<lambda>p. p\<lparr>p_flags := clear_flag (p_flags p) ENET_PEER_FLAG_CONTINUE_SENDING\<rparr>) h)
       \<lparr>h_headerFlags := 0, h_commands := [], h_buffers := [],
        h_packetSize := of_nat sizeof_ENetProtocolHeader\<rparr>"

text \<open>Commands for the datagram, and a ping when there is nothing else to say.\<close>

definition fill_datagram ::
  "nat \<Rightarrow> ENetOutgoingCommand list \<Rightarrow> ENetHost \<Rightarrow> ENetOutgoingCommand list \<times> ENetHost" where
  "fill_datagram i sentUnreliable h =
     (let (mayPing, sentUnreliable, h) =
            (if p_outgoingCommands (peer_at h i) = [] \<and> p_outgoingSendReliableCommands (peer_at h i) = []
             then (True, sentUnreliable, h)
             else enet_protocol_check_outgoing_commands i sentUnreliable h);
          p = peer_at h i
      in if mayPing \<and> p_sentReliableCommands p = []
            \<and> ENET_TIME_DIFFERENCE (h_serviceTime h) (p_lastReceiveTime p) \<ge> p_pingInterval p
            \<and> datagram_room i h \<ge> of_nat sizeof_ENetProtocolPing
         then snd (enet_protocol_check_outgoing_commands i sentUnreliable (enet_peer_ping i h))
         else (sentUnreliable, h))"

text \<open>
  From the statistics to the counters: \<open>None\<close> reaches \<open>nextPeer\<close>, \<open>Some r\<close> is \<open>return r\<close>.
  Sending bytes that are not there is a fault.
\<close>

definition transmit ::
  "nat \<Rightarrow> ENetOutgoingCommand list \<Rightarrow> ENetHost \<Rightarrow> int option \<times> ENetOutgoingCommand list \<times> ENetHost" where
  "transmit i sentUnreliable h =
     (let h = upd_peer i (update_packet_loss (h_serviceTime h)) h
      in case buffers_bytes h (h_buffers h) of
           None \<Rightarrow> (Some (- 1), sentUnreliable, raise_fault h)
         | Some body \<Rightarrow>
             (let h = compress_buffers h;
                  p = peer_at h i;
                  header = datagram_header_bytes (h_checksum h) (h_serviceTime h) (h_headerFlags h) p body;
                  content = (case buffers_bytes h (h_buffers h) of None \<Rightarrow> [] | Some bs \<Rightarrow> bs);
                  h = upd_peer i (\<lambda>p. p\<lparr>p_lastSendTime := h_serviceTime h\<rparr>)
                        (h\<lparr>h_headerFlags := header_flags (h_headerFlags h) p\<rparr>);
                  (sentLength, h) = enet_socket_send (p_address p) (header @ content) h;
                  h = enet_protocol_remove_sent_unreliable_commands i sentUnreliable h
              in if sentLength < 0 then (Some (- 1), [], h)
                 else (None, [], h\<lparr>h_totalSentData := h_totalSentData h + of_int sentLength,
                                   h_totalSentPackets := h_totalSentPackets h + 1\<rparr>)))"

definition send_to_peer ::
  "bool \<Rightarrow> nat \<Rightarrow> ENetEvent option \<Rightarrow> ENetOutgoingCommand list \<Rightarrow> ENetHost
    \<Rightarrow> int option \<times> ENetEvent option \<times> ENetOutgoingCommand list \<times> ENetHost" where
  "send_to_peer checkForTimeouts i event sentUnreliable h =
     (let h = begin_datagram i h;
          h = (if p_acknowledgements (peer_at h i) \<noteq> [] then enet_protocol_send_acknowledgements i h else h);
          p = peer_at h i;
          (timedOut, event, h) =
            (if checkForTimeouts \<and> p_sentReliableCommands p \<noteq> []
                \<and> ENET_TIME_GREATER_EQUAL (h_serviceTime h) (p_nextTimeout p)
             then enet_protocol_check_timeouts i event h else (False, event, h))
      in if timedOut then (if event_reported event = 1 then Some 1 else None, event, sentUnreliable, h)
         else
           (let (sentUnreliable, h) = fill_datagram i sentUnreliable h
            in if h_commands h = [] then (None, event, sentUnreliable, h)
               else
                 (let (r, sentUnreliable, h) = transmit i sentUnreliable h
                  in (r, event, sentUnreliable, h))))"

definition skips_peer :: "bool \<Rightarrow> ENetPeer \<Rightarrow> bool" where
  "skips_peer firstPass p \<longleftrightarrow>
     p_state p = DISCONNECTED \<or> p_state p = ZOMBIE
     \<or> (\<not> firstPass \<and> \<not> has_flag (p_flags p) ENET_PEER_FLAG_CONTINUE_SENDING)"

text \<open>The inner loop; the second result is whether \<open>continueSending\<close> asks for another pass.\<close>

fun send_pass ::
  "bool \<Rightarrow> bool \<Rightarrow> nat list \<Rightarrow> bool \<Rightarrow> ENetEvent option \<Rightarrow> ENetOutgoingCommand list \<Rightarrow> ENetHost
    \<Rightarrow> int option \<times> bool \<times> ENetEvent option \<times> ENetOutgoingCommand list \<times> ENetHost" where
  "send_pass checkForTimeouts firstPass [] continueSending event sentUnreliable h =
     (None, continueSending, event, sentUnreliable, h)"
| "send_pass checkForTimeouts firstPass (i # is) continueSending event sentUnreliable h =
     (if skips_peer firstPass (peer_at h i)
      then send_pass checkForTimeouts firstPass is continueSending event sentUnreliable h
      else
        (case send_to_peer checkForTimeouts i event sentUnreliable h of
           (Some r, event, sentUnreliable, h) \<Rightarrow> (Some r, continueSending, event, sentUnreliable, h)
         | (None, event, sentUnreliable, h) \<Rightarrow>
             send_pass checkForTimeouts firstPass is
               (continueSending \<or> has_flag (p_flags (peer_at h i)) ENET_PEER_FLAG_CONTINUE_SENDING)
               event sentUnreliable h))"

text \<open>The outer loop; \<open>None\<close> where it does not end.\<close>

partial_function (option) send_passes ::
  "bool \<Rightarrow> bool \<Rightarrow> ENetEvent option \<Rightarrow> ENetOutgoingCommand list \<Rightarrow> ENetHost
    \<Rightarrow> (int \<times> ENetEvent option \<times> ENetHost) option" where
  "send_passes checkForTimeouts firstPass event sentUnreliable h =
     (case send_pass checkForTimeouts firstPass [0..<length (h_peers h)] False event sentUnreliable h of
        (Some r, _, event, _, h) \<Rightarrow> Some (r, event, h)
      | (None, continueSending, event, sentUnreliable, h) \<Rightarrow>
          if continueSending then send_passes checkForTimeouts False event sentUnreliable h
          else Some (0, event, h))"

definition enet_protocol_send_outgoing_commands ::
  "ENetEvent option \<Rightarrow> bool \<Rightarrow> ENetHost \<Rightarrow> (int \<times> ENetEvent option \<times> ENetHost) option" where
  "enet_protocol_send_outgoing_commands event checkForTimeouts h =
     send_passes checkForTimeouts True event [] h"

end
