(* ===== verification/Enet_Service.thy ===== *)
theory Enet_Service
  imports Enet_Outgoing
begin

text \<open>
  \<open>enet_host_flush\<close>, \<open>enet_host_check_events\<close> and \<open>enet_host_service\<close> of
  \<^verbatim>\<open>src/protocol.c\<close>, the waits of \<^verbatim>\<open>src/unix.c\<close> they use, and the disconnections of
  \<^verbatim>\<open>src/peer.c\<close> that flush the host.
\<close>

section \<open>Waiting for the socket\<close>

abbreviation (input) ENET_SOCKET_WAIT_NONE :: u32 where "ENET_SOCKET_WAIT_NONE \<equiv> 0"
abbreviation (input) ENET_SOCKET_WAIT_SEND :: u32 where "ENET_SOCKET_WAIT_SEND \<equiv> 1"
abbreviation (input) ENET_SOCKET_WAIT_RECEIVE :: u32 where "ENET_SOCKET_WAIT_RECEIVE \<equiv> 2"
abbreviation (input) ENET_SOCKET_WAIT_INTERRUPT :: u32 where "ENET_SOCKET_WAIT_INTERRUPT \<equiv> 4"

text \<open>
  What both waits make of the result: the value returned and \<open>*condition\<close>.  Whether the
  socket can be written is reported only where it was asked for, and so is whether it can be read.
\<close>

definition poll_condition :: "u32 \<Rightarrow> poll_result \<Rightarrow> int \<times> u32" where
  "poll_condition condition r =
     (case r of
        PollError interrupted \<Rightarrow>
          if interrupted \<and> has_flag condition ENET_SOCKET_WAIT_INTERRUPT
          then (0, ENET_SOCKET_WAIT_INTERRUPT) else (- 1, condition)
      | PollTimeout \<Rightarrow> (0, ENET_SOCKET_WAIT_NONE)
      | PollReady writable readable \<Rightarrow>
          (0, set_flag
                (set_flag ENET_SOCKET_WAIT_NONE
                   (if writable \<and> has_flag condition ENET_SOCKET_WAIT_SEND then ENET_SOCKET_WAIT_SEND else 0))
                (if readable \<and> has_flag condition ENET_SOCKET_WAIT_RECEIVE then ENET_SOCKET_WAIT_RECEIVE else 0)))"

definition next_poll :: "u32 \<Rightarrow> ENetHost \<Rightarrow> poll_call \<times> ENetHost" where
  "next_poll timeout h =
     (let c = h_poll h (h_pollCalls h) timeout
      in (c, h\<lparr>h_pollCalls := h_pollCalls h + 1, h_inbox := h_inbox h @ pc_arrivals c\<rparr>))"

definition enet_socket_wait :: "u32 \<Rightarrow> u32 \<Rightarrow> ENetHost \<Rightarrow> (int \<times> u32) \<times> ENetHost" where
  "enet_socket_wait condition timeout h =
     (let (c, h) = next_poll timeout h in (poll_condition condition (pc_result c), h))"

text \<open>Without \<open>HAS_EPOLL\<close> the function returns \<open>-2\<close>.\<close>

definition enet_socket_wait_epoll :: "u32 \<Rightarrow> u32 \<Rightarrow> ENetHost \<Rightarrow> (int \<times> u32) \<times> ENetHost" where
  "enet_socket_wait_epoll condition timeout h =
     (if \<not> h_hasEpoll h then ((- 2, condition), h)
      else
        (let (c, h) = next_poll timeout h
         in if \<not> pc_modified c then ((- 1, condition), h)
            else (poll_condition condition (pc_result c), h)))"

text \<open>The wait \<open>enet_host_service\<close> is compiled with.\<close>

definition host_wait :: "u32 \<Rightarrow> u32 \<Rightarrow> ENetHost \<Rightarrow> (int \<times> u32) \<times> ENetHost" where
  "host_wait condition timeout h =
     (if h_hasEpoll h then enet_socket_wait_epoll condition timeout h
      else enet_socket_wait condition timeout h)"

section \<open>Flushing and checking for events\<close>

definition read_clock :: "ENetHost \<Rightarrow> ENetHost" where
  "read_clock h = (let (t, h) = enet_time_get h in h\<lparr>h_serviceTime := t\<rparr>)"

definition enet_host_flush :: "ENetHost \<Rightarrow> ENetHost option" where
  "enet_host_flush h =
     map_option (\<lambda>(r, event, h). h) (enet_protocol_send_outgoing_commands None False (read_clock h))"

definition clear_event :: "ENetEvent \<Rightarrow> ENetEvent" where
  "clear_event ev = ev\<lparr>ev_type := ENET_EVENT_TYPE_NONE, ev_peer := None, ev_packet := None\<rparr>"

definition enet_host_check_events :: "ENetEvent option \<Rightarrow> ENetHost \<Rightarrow> int \<times> ENetEvent option \<times> ENetHost" where
  "enet_host_check_events event h =
     (case event of
        None \<Rightarrow> (- 1, None, h)
      | Some ev \<Rightarrow>
          (let (r, ev, h) = enet_protocol_dispatch_incoming_commands (clear_event ev) h
           in (r, Some ev, h)))"

section \<open>The service\<close>

text \<open>
  A phase of the loop: its result is \<open>1\<close> or \<open>-1\<close> to return, anything else to go on.  The
  outer option is \<open>None\<close> where the phase does not return.
\<close>

type_synonym phase = "ENetEvent option \<Rightarrow> ENetHost \<Rightarrow> (int \<times> ENetEvent option \<times> ENetHost) option"

fun run_phases :: "phase list \<Rightarrow> phase" where
  "run_phases [] event h = Some (0, event, h)"
| "run_phases (f # fs) event h =
     (case f event h of
        None \<Rightarrow> None
      | Some (r, event, h) \<Rightarrow> if r = 1 \<or> r = - 1 then Some (r, event, h) else run_phases fs event h)"

definition throttle_phase :: phase where
  "throttle_phase event h =
     Some (0, event,
       if ENET_TIME_DIFFERENCE (h_serviceTime h) (h_bandwidthThrottleEpoch h) \<ge> ENET_HOST_BANDWIDTH_THROTTLE_INTERVAL
       then enet_host_bandwidth_throttle h else h)"

definition send_phase :: phase where
  "send_phase event h = enet_protocol_send_outgoing_commands event True h"

definition receive_phase :: "intercept_callback \<Rightarrow> phase" where
  "receive_phase intercept event h = Some (enet_protocol_receive_incoming_commands intercept event h)"

definition dispatch_phase :: phase where
  "dispatch_phase event h =
     Some (case event of
             None \<Rightarrow> (0, None, h)
           | Some ev \<Rightarrow> (let (r, ev, h) = enet_protocol_dispatch_incoming_commands ev h in (r, Some ev, h)))"

definition service_round :: "intercept_callback \<Rightarrow> phase" where
  "service_round intercept =
     run_phases [throttle_phase, send_phase, receive_phase intercept, send_phase, dispatch_phase]"

text \<open>
  The inner loop: \<open>Inl r\<close> is \<open>return r\<close>, \<open>Inr condition\<close> leaves the loop with the wait's
  result.  \<open>None\<close> where the wait is interrupted for ever.
\<close>

partial_function (option) wait_loop :: "u32 \<Rightarrow> ENetHost \<Rightarrow> ((int + u32) \<times> ENetHost) option" where
  "wait_loop timeout h =
     (let h = read_clock h
      in if ENET_TIME_GREATER_EQUAL (h_serviceTime h) timeout then Some (Inl 0, h)
         else
           (case host_wait (set_flag ENET_SOCKET_WAIT_RECEIVE ENET_SOCKET_WAIT_INTERRUPT)
                   (ENET_TIME_DIFFERENCE timeout (h_serviceTime h)) h of
              ((r, condition), h) \<Rightarrow>
                if r \<noteq> 0 then Some (Inl (- 1), h)
                else if has_flag condition ENET_SOCKET_WAIT_INTERRUPT then wait_loop timeout h
                else Some (Inr condition, h)))"

partial_function (option) service_loop ::
  "intercept_callback \<Rightarrow> u32 \<Rightarrow> ENetEvent option \<Rightarrow> ENetHost \<Rightarrow> (int \<times> ENetEvent option \<times> ENetHost) option" where
  "service_loop intercept timeout event h =
     (case service_round intercept event h of
        None \<Rightarrow> None
      | Some (r, event, h) \<Rightarrow>
          if r = 1 \<or> r = - 1 then Some (r, event, h)
          else if ENET_TIME_GREATER_EQUAL (h_serviceTime h) timeout then Some (0, event, h)
          else
            (case wait_loop timeout h of
               None \<Rightarrow> None
             | Some (Inl r, h) \<Rightarrow> Some (r, event, h)
             | Some (Inr condition, h) \<Rightarrow>
                 (let h = read_clock h
                  in if has_flag condition ENET_SOCKET_WAIT_RECEIVE then service_loop intercept timeout event h
                     else Some (0, event, h))))"

definition enet_host_service ::
  "intercept_callback \<Rightarrow> ENetEvent option \<Rightarrow> u32 \<Rightarrow> ENetHost \<Rightarrow> (int \<times> ENetEvent option \<times> ENetHost) option" where
  "enet_host_service intercept event timeout h =
     (case dispatch_phase (map_option clear_event event) h of
        None \<Rightarrow> None
      | Some (r, event, h) \<Rightarrow>
          if r = 1 \<or> r = - 1 then Some (r, event, h)
          else
            (let h = read_clock h
             in service_loop intercept (timeout + h_serviceTime h) event h))"

section \<open>Disconnecting\<close>

text \<open>The disconnections of \<^verbatim>\<open>src/peer.c\<close> with the flush of the host.\<close>

definition disconnect_now :: "nat \<Rightarrow> u32 \<Rightarrow> ENetHost \<Rightarrow> ENetHost option" where
  "disconnect_now = enet_peer_disconnect_now enet_host_flush"

definition disconnect :: "nat \<Rightarrow> u32 \<Rightarrow> ENetHost \<Rightarrow> ENetHost option" where
  "disconnect = enet_peer_disconnect enet_host_flush"

definition disconnect_later :: "nat \<Rightarrow> u32 \<Rightarrow> ENetHost \<Rightarrow> ENetHost option" where
  "disconnect_later = enet_peer_disconnect_later enet_host_flush"

end
