(* ===== verification/Enet_Compress.thy ===== *)
theory Enet_Compress
  imports Enet_Prelude
begin

text \<open>
  The compressor of \<^verbatim>\<open>src/compress.c\<close>, an adaptive order-2 PPM range coder, with context exclusion
  disabled as in the file.  The array of symbols is a map from indices, as malloc returns it at the
  start; a pointer to a symbol is its index, the offsets between symbols are 16-bit words, and using
  an index outside the array raises \<open>rc_fault\<close>.  A macro is the function of the variables it
  reads and sets.
\<close>

section \<open>Symbols\<close>

abbreviation (input) ENET_RANGE_CODER_TOP :: u32 where "ENET_RANGE_CODER_TOP \<equiv> 0x1000000"
abbreviation (input) ENET_RANGE_CODER_BOTTOM :: u32 where "ENET_RANGE_CODER_BOTTOM \<equiv> 0x10000"
abbreviation (input) ENET_CONTEXT_SYMBOL_DELTA :: u8 where "ENET_CONTEXT_SYMBOL_DELTA \<equiv> 3"
abbreviation (input) ENET_CONTEXT_SYMBOL_MINIMUM :: u16 where "ENET_CONTEXT_SYMBOL_MINIMUM \<equiv> 1"
abbreviation (input) ENET_CONTEXT_ESCAPE_MINIMUM :: u16 where "ENET_CONTEXT_ESCAPE_MINIMUM \<equiv> 1"
abbreviation (input) ENET_SUBCONTEXT_ORDER :: nat where "ENET_SUBCONTEXT_ORDER \<equiv> 2"
abbreviation (input) ENET_SUBCONTEXT_SYMBOL_DELTA :: u8 where "ENET_SUBCONTEXT_SYMBOL_DELTA \<equiv> 2"
abbreviation (input) ENET_SUBCONTEXT_ESCAPE_DELTA :: u16 where "ENET_SUBCONTEXT_ESCAPE_DELTA \<equiv> 5"

text \<open>The number of symbols, \<open>sizeof(rangeCoder->symbols) / sizeof(ENetSymbol)\<close>.\<close>

abbreviation (input) symbolCount :: nat where "symbolCount \<equiv> 4096"

record ENetSymbol =
  sy_value :: u8
  sy_count :: u8
  sy_under :: u16
  sy_left :: u16
  sy_right :: u16
  sy_symbols :: u16
  sy_escapes :: u16
  sy_total :: u16
  sy_parent :: u16

text \<open>
  The variables both directions share: the array, the interval (\<open>encodeLow\<close> and \<open>encodeRange\<close>,
  or \<open>decodeLow\<close> and \<open>decodeRange\<close>), \<open>predicted\<close>, \<open>order\<close> and what is between \<open>outStart\<close>
  and \<open>outData\<close>.
\<close>

record ENetRangeCoder =
  rc_symbols :: "nat \<Rightarrow> ENetSymbol"
  rc_fault :: bool
  rc_nextSymbol :: nat
  rc_low :: u32
  rc_range :: u32
  rc_predicted :: u16
  rc_order :: nat
  rc_out :: "u8 list"

definition upd_symbol :: "nat \<Rightarrow> (ENetSymbol \<Rightarrow> ENetSymbol) \<Rightarrow> 'a ENetRangeCoder_scheme \<Rightarrow> 'a ENetRangeCoder_scheme" where
  "upd_symbol i f c = c\<lparr>rc_symbols := (rc_symbols c)(i := f (rc_symbols c i)),
     rc_fault := rc_fault c \<or> i \<ge> symbolCount\<rparr>"

definition new_symbol :: "u8 \<Rightarrow> u8 \<Rightarrow> ENetSymbol" where
  "new_symbol value cnt = \<lparr>sy_value = value, sy_count = cnt, sy_under = ucast cnt, sy_left = 0, sy_right = 0,
     sy_symbols = 0, sy_escapes = 0, sy_total = 0, sy_parent = 0\<rparr>"

definition ENET_SYMBOL_CREATE :: "u8 \<Rightarrow> u8 \<Rightarrow> 'a ENetRangeCoder_scheme \<Rightarrow> nat \<times> 'a ENetRangeCoder_scheme" where
  "ENET_SYMBOL_CREATE value cnt c =
     (rc_nextSymbol c,
      upd_symbol (rc_nextSymbol c) (\<lambda>_. new_symbol value cnt) (c\<lparr>rc_nextSymbol := rc_nextSymbol c + 1\<rparr>))"

definition ENET_CONTEXT_CREATE :: "u16 \<Rightarrow> u16 \<Rightarrow> 'a ENetRangeCoder_scheme \<Rightarrow> nat \<times> 'a ENetRangeCoder_scheme" where
  "ENET_CONTEXT_CREATE escapes minimum c =
     (let (context, c) = ENET_SYMBOL_CREATE 0 0 c
      in (context, upd_symbol context (\<lambda>s. s\<lparr>sy_escapes := escapes, sy_total := escapes + 256 * minimum,
                                         sy_symbols := 0\<rparr>) c))"

text \<open>\<open>symbol - node\<close> in 16 bits.\<close>

definition symbol_offset :: "nat \<Rightarrow> nat \<Rightarrow> u16" where
  "symbol_offset symbol node = of_nat symbol - of_nat node"

lemma offset_decreases:
  "\<not> symbolCount \<le> symbol \<Longrightarrow> (x :: u16) \<noteq> 0 \<Longrightarrow> symbolCount - (symbol + unat x) < symbolCount - symbol"
  using unat_gt_0 [of x] by linarith

text \<open>The loop follows \<open>right\<close>; it stops outside the array, which is a fault.\<close>

function enet_symbol_rescale :: "nat \<Rightarrow> 'a ENetRangeCoder_scheme \<Rightarrow> u16 \<times> 'a ENetRangeCoder_scheme" where
  "enet_symbol_rescale symbol c =
     (if symbol \<ge> symbolCount then (0, c\<lparr>rc_fault := True\<rparr>)
      else
        (let c = upd_symbol symbol (\<lambda>s. s\<lparr>sy_count := sy_count s - drop_bit 1 (sy_count s)\<rparr>) c;
             c = upd_symbol symbol (\<lambda>s. s\<lparr>sy_under := ucast (sy_count s)\<rparr>) c;
             left = sy_left (rc_symbols c symbol);
             c = (if left \<noteq> 0
                  then (let (tot, c) = enet_symbol_rescale (symbol + unat left) c
                        in upd_symbol symbol (\<lambda>s. s\<lparr>sy_under := sy_under s + tot\<rparr>) c)
                  else c);
             below = sy_under (rc_symbols c symbol);
             right = sy_right (rc_symbols c symbol)
         in if right = 0 then (below, c)
            else (let (tot, c) = enet_symbol_rescale (symbol + unat right) c in (below + tot, c))))"
  by pat_completeness auto

termination enet_symbol_rescale
  by (relation "measure (\<lambda>(symbol, c). symbolCount - symbol)") (auto intro!: offset_decreases [simplified])

declare enet_symbol_rescale.simps [simp del]

definition ENET_CONTEXT_RESCALE :: "nat \<Rightarrow> u16 \<Rightarrow> 'a ENetRangeCoder_scheme \<Rightarrow> 'a ENetRangeCoder_scheme" where
  "ENET_CONTEXT_RESCALE context minimum c =
     (let symbols = sy_symbols (rc_symbols c context);
          (tot, c) = (if symbols \<noteq> 0 then enet_symbol_rescale (context + unat symbols) c else (0, c));
          c = upd_symbol context (\<lambda>s. s\<lparr>sy_total := tot\<rparr>) c;
          c = upd_symbol context (\<lambda>s. s\<lparr>sy_escapes := sy_escapes s - drop_bit 1 (sy_escapes s)\<rparr>) c
      in upd_symbol context (\<lambda>s. s\<lparr>sy_total := sy_total s + (sy_escapes s + 256 * minimum)\<rparr>) c)"

section \<open>The range coder\<close>

text \<open>\<open>None\<close> is \<open>return 0\<close>: the output is full.\<close>

definition ENET_RANGE_CODER_OUTPUT :: "nat \<Rightarrow> u8 \<Rightarrow> 'a ENetRangeCoder_scheme \<Rightarrow> 'a ENetRangeCoder_scheme option" where
  "ENET_RANGE_CODER_OUTPUT outLimit value c =
     (if length (rc_out c) \<ge> outLimit then None else Some (c\<lparr>rc_out := rc_out c @ [value]\<rparr>))"

text \<open>The condition of the \<open>break\<close>, and the range it leaves for the next round.\<close>

definition interval_done :: "u32 \<Rightarrow> u32 \<Rightarrow> bool" where
  "interval_done low rng \<longleftrightarrow>
     (low XOR (low + rng)) \<ge> ENET_RANGE_CODER_TOP \<and> rng \<ge> ENET_RANGE_CODER_BOTTOM"

definition next_range :: "u32 \<Rightarrow> u32 \<Rightarrow> u32" where
  "next_range low rng =
     (if (low XOR (low + rng)) \<ge> ENET_RANGE_CODER_TOP
      then - low AND (ENET_RANGE_CODER_BOTTOM - 1) else rng)"

function encode_loop :: "nat \<Rightarrow> 'a ENetRangeCoder_scheme \<Rightarrow> 'a ENetRangeCoder_scheme option" where
  "encode_loop outLimit c =
     (if interval_done (rc_low c) (rc_range c) then Some c
      else if length (rc_out c) \<ge> outLimit then None
      else encode_loop outLimit
             (c\<lparr>rc_out := rc_out c @ [ucast (drop_bit 24 (rc_low c))],
                rc_range := push_bit 8 (next_range (rc_low c) (rc_range c)), rc_low := push_bit 8 (rc_low c)\<rparr>))"
  by pat_completeness auto

termination encode_loop
  by (relation "measure (\<lambda>(outLimit, c). outLimit - length (rc_out c))") auto

declare encode_loop.simps [simp del]

text \<open>Dividing by 0 is a fault.\<close>

definition narrow :: "u32 \<Rightarrow> u32 \<Rightarrow> u32 \<Rightarrow> 'a ENetRangeCoder_scheme \<Rightarrow> 'a ENetRangeCoder_scheme" where
  "narrow below cnt tot c =
     (let rng = rc_range c div tot
      in c\<lparr>rc_low := rc_low c + below * rng, rc_range := rng * cnt, rc_fault := rc_fault c \<or> tot = 0\<rparr>)"

definition ENET_RANGE_CODER_ENCODE ::
  "nat \<Rightarrow> u32 \<Rightarrow> u32 \<Rightarrow> u32 \<Rightarrow> 'a ENetRangeCoder_scheme \<Rightarrow> 'a ENetRangeCoder_scheme option" where
  "ENET_RANGE_CODER_ENCODE outLimit below cnt tot c = encode_loop outLimit (narrow below cnt tot c)"

function ENET_RANGE_CODER_FLUSH :: "nat \<Rightarrow> 'a ENetRangeCoder_scheme \<Rightarrow> 'a ENetRangeCoder_scheme option" where
  "ENET_RANGE_CODER_FLUSH outLimit c =
     (if rc_low c = 0 then Some c
      else if length (rc_out c) \<ge> outLimit then None
      else ENET_RANGE_CODER_FLUSH outLimit
             (c\<lparr>rc_out := rc_out c @ [ucast (drop_bit 24 (rc_low c))], rc_low := push_bit 8 (rc_low c)\<rparr>))"
  by pat_completeness auto

termination ENET_RANGE_CODER_FLUSH
  by (relation "measure (\<lambda>(outLimit, c). outLimit - length (rc_out c))") auto

declare ENET_RANGE_CODER_FLUSH.simps [simp del]

definition ENET_RANGE_CODER_FREE_SYMBOLS :: "'a ENetRangeCoder_scheme \<Rightarrow> 'a ENetRangeCoder_scheme" where
  "ENET_RANGE_CODER_FREE_SYMBOLS c =
     (if rc_nextSymbol c \<ge> symbolCount - ENET_SUBCONTEXT_ORDER then
        (let (root, c) = ENET_CONTEXT_CREATE ENET_CONTEXT_ESCAPE_MINIMUM ENET_CONTEXT_SYMBOL_MINIMUM
                           (c\<lparr>rc_nextSymbol := 0\<rparr>)
         in c\<lparr>rc_predicted := 0, rc_order := 0\<rparr>)
      else c)"

section \<open>Encoding in a context\<close>

text \<open>
  The walk down the tree of a context: the symbol of the value, \<open>below\<close>, \<open>cnt\<close>, with the
  counts on the way updated.
\<close>

function context_walk ::
  "u8 \<Rightarrow> u8 \<Rightarrow> u16 \<Rightarrow> u16 \<Rightarrow> nat \<Rightarrow> 'a ENetRangeCoder_scheme \<Rightarrow> nat \<times> u16 \<times> u16 \<times> 'a ENetRangeCoder_scheme" where
  "context_walk value update below cnt node c =
     (let s = rc_symbols c node
      in if node \<ge> symbolCount then (node, below, cnt, c\<lparr>rc_fault := True\<rparr>)
         else if value < sy_value s then
           (let c = upd_symbol node (\<lambda>s. s\<lparr>sy_under := sy_under s + ucast update\<rparr>) c
            in if sy_left s \<noteq> 0 then context_walk value update below cnt (node + unat (sy_left s)) c
               else (let (symbol, c) = ENET_SYMBOL_CREATE value update c
                     in (symbol, below, cnt, upd_symbol node (\<lambda>s. s\<lparr>sy_left := symbol_offset symbol node\<rparr>) c)))
         else if value > sy_value s then
           (let below = below + sy_under s
            in if sy_right s \<noteq> 0 then context_walk value update below cnt (node + unat (sy_right s)) c
               else (let (symbol, c) = ENET_SYMBOL_CREATE value update c
                     in (symbol, below, cnt, upd_symbol node (\<lambda>s. s\<lparr>sy_right := symbol_offset symbol node\<rparr>) c)))
         else
           (node, below + (sy_under s - ucast (sy_count s)), cnt + ucast (sy_count s),
            upd_symbol node (\<lambda>s. s\<lparr>sy_under := sy_under s + ucast update, sy_count := sy_count s + update\<rparr>) c))"
  by pat_completeness auto

termination context_walk
  by (relation "measure (\<lambda>(value, update, below, cnt, node, c). symbolCount - node)") (auto intro!: offset_decreases [simplified])

declare context_walk.simps [simp del]

definition ENET_CONTEXT_ENCODE ::
  "nat \<Rightarrow> u8 \<Rightarrow> u8 \<Rightarrow> u16 \<Rightarrow> 'a ENetRangeCoder_scheme \<Rightarrow> nat \<times> u16 \<times> u16 \<times> 'a ENetRangeCoder_scheme" where
  "ENET_CONTEXT_ENCODE context value update minimum c =
     (let below = ucast value * minimum; cnt = minimum; symbols = sy_symbols (rc_symbols c context)
      in if symbols = 0 then
           (let (symbol, c) = ENET_SYMBOL_CREATE value update c
            in (symbol, below, cnt, upd_symbol context (\<lambda>s. s\<lparr>sy_symbols := symbol_offset symbol context\<rparr>) c))
         else context_walk value update below cnt (context + unat symbols) c)"

text \<open>\<open>*parent = symbol\<close>: \<open>parent\<close> points to \<open>predicted\<close> or to the parent of a symbol.\<close>

datatype parent_slot = Predicted | ParentOf nat

definition set_parent :: "parent_slot \<Rightarrow> nat \<Rightarrow> 'a ENetRangeCoder_scheme \<Rightarrow> 'a ENetRangeCoder_scheme" where
  "set_parent slot symbol c =
     (case slot of
        Predicted \<Rightarrow> c\<lparr>rc_predicted := of_nat symbol\<rparr>
      | ParentOf k \<Rightarrow> upd_symbol k (\<lambda>s. s\<lparr>sy_parent := of_nat symbol\<rparr>) c)"

text \<open>The update of the totals once a symbol with \<open>cnt\<close> before was seen in a context.\<close>

definition count_symbol ::
  "nat \<Rightarrow> u8 \<Rightarrow> u16 \<Rightarrow> u16 \<Rightarrow> u16 \<Rightarrow> 'a ENetRangeCoder_scheme \<Rightarrow> 'a ENetRangeCoder_scheme" where
  "count_symbol context delta minimum limit cnt c =
     (let c = upd_symbol context (\<lambda>s. s\<lparr>sy_total := sy_total s + ucast delta\<rparr>) c
      in if cnt > limit \<or> sy_total (rc_symbols c context) > 0xFF00
         then ENET_CONTEXT_RESCALE context minimum c else c)"

definition count_escape :: "nat \<Rightarrow> 'a ENetRangeCoder_scheme \<Rightarrow> 'a ENetRangeCoder_scheme" where
  "count_escape context c =
     upd_symbol context (\<lambda>s. s\<lparr>sy_escapes := sy_escapes s + ENET_SUBCONTEXT_ESCAPE_DELTA,
       sy_total := sy_total s + ENET_SUBCONTEXT_ESCAPE_DELTA\<rparr>) c"

abbreviation (input) count_subcontext ::
  "nat \<Rightarrow> u16 \<Rightarrow> 'a ENetRangeCoder_scheme \<Rightarrow> 'a ENetRangeCoder_scheme" where
  "count_subcontext context \<equiv> count_symbol context ENET_SUBCONTEXT_SYMBOL_DELTA 0 (0xFF - 2 * 2)"

abbreviation (input) count_root :: "u16 \<Rightarrow> 'a ENetRangeCoder_scheme \<Rightarrow> 'a ENetRangeCoder_scheme" where
  "count_root \<equiv> count_symbol 0 ENET_CONTEXT_SYMBOL_DELTA ENET_CONTEXT_SYMBOL_MINIMUM (0xFF - 2 * 3 + 1)"

section \<open>Compressing\<close>

text \<open>The root context, which is the first symbol.\<close>

definition encode_root ::
  "nat \<Rightarrow> u8 \<Rightarrow> parent_slot \<Rightarrow> 'a ENetRangeCoder_scheme \<Rightarrow> 'a ENetRangeCoder_scheme option" where
  "encode_root outLimit value slot c =
     (let (symbol, below, cnt, c) = ENET_CONTEXT_ENCODE 0 value ENET_CONTEXT_SYMBOL_DELTA ENET_CONTEXT_SYMBOL_MINIMUM c;
          c = set_parent slot symbol c;
          root = rc_symbols c 0
      in map_option (count_root cnt)
           (ENET_RANGE_CODER_ENCODE outLimit (ucast (sy_escapes root) + ucast below) (ucast cnt) (ucast (sy_total root)) c))"

text \<open>
  The loop over the contexts from \<open>predicted\<close> to the root.  The outer option is \<open>None\<close> where the
  parents never lead to the root, the inner one where the output is full.
\<close>

partial_function (option) encode_contexts ::
  "nat \<Rightarrow> u8 \<Rightarrow> nat \<Rightarrow> parent_slot \<Rightarrow> 'a ENetRangeCoder_scheme \<Rightarrow> 'a ENetRangeCoder_scheme option option" where
  "encode_contexts outLimit value subcontext slot c =
     (if subcontext = 0 then Some (encode_root outLimit value slot c)
      else
        (let (symbol, below, cnt, c) = ENET_CONTEXT_ENCODE subcontext value ENET_SUBCONTEXT_SYMBOL_DELTA 0 c;
             c = set_parent slot symbol c;
             s = rc_symbols c subcontext
         in if cnt > 0 then
              Some (map_option (count_subcontext subcontext cnt)
                (ENET_RANGE_CODER_ENCODE outLimit (ucast (sy_escapes s) + ucast below) (ucast cnt)
                   (ucast (sy_total s)) c))
            else
              (case (if sy_escapes s > 0 \<and> sy_escapes s < sy_total s
                     then ENET_RANGE_CODER_ENCODE outLimit 0 (ucast (sy_escapes s)) (ucast (sy_total s)) c
                     else Some c) of
                 None \<Rightarrow> Some None
               | Some c \<Rightarrow>
                   (let c = count_subcontext subcontext cnt (count_escape subcontext c)
                    in encode_contexts outLimit value (unat (sy_parent (rc_symbols c subcontext))) (ParentOf symbol) c))))"

declare encode_contexts.simps [code]

text \<open>The end of a round: the context the next symbol is predicted in.\<close>

definition next_symbol_input :: "'a ENetRangeCoder_scheme \<Rightarrow> 'a ENetRangeCoder_scheme" where
  "next_symbol_input c =
     ENET_RANGE_CODER_FREE_SYMBOLS
       (if rc_order c \<ge> ENET_SUBCONTEXT_ORDER
        then c\<lparr>rc_predicted := sy_parent (rc_symbols c (unat (rc_predicted c))),
               rc_fault := rc_fault c \<or> unat (rc_predicted c) \<ge> symbolCount\<rparr>
        else c\<lparr>rc_order := rc_order c + 1\<rparr>)"

text \<open>
  The loop over the input: what is left of the current buffer, and the buffers behind it.  The
  code reads a byte from a buffer without one, which is not defined.
\<close>

fun compress_loop ::
  "nat \<Rightarrow> u8 list \<Rightarrow> u8 list list \<Rightarrow> 'a ENetRangeCoder_scheme \<Rightarrow> 'a ENetRangeCoder_scheme option option" where
  "compress_loop outLimit [] [] c = Some (ENET_RANGE_CODER_FLUSH outLimit c)"
| "compress_loop outLimit [] ([] # buffers) c = None"
| "compress_loop outLimit [] ((value # data) # buffers) c =
     (case encode_contexts outLimit value (unat (rc_predicted c)) Predicted c of
        None \<Rightarrow> None
      | Some None \<Rightarrow> Some None
      | Some (Some c) \<Rightarrow> compress_loop outLimit data buffers (next_symbol_input c))"
| "compress_loop outLimit (value # data) buffers c =
     (case encode_contexts outLimit value (unat (rc_predicted c)) Predicted c of
        None \<Rightarrow> None
      | Some None \<Rightarrow> Some None
      | Some (Some c) \<Rightarrow> compress_loop outLimit data buffers (next_symbol_input c))"

definition start_coder :: "(nat \<Rightarrow> ENetSymbol) \<Rightarrow> ENetRangeCoder" where
  "start_coder symbols =
     snd (ENET_CONTEXT_CREATE ENET_CONTEXT_ESCAPE_MINIMUM ENET_CONTEXT_SYMBOL_MINIMUM
       \<lparr>rc_symbols = symbols, rc_fault = False, rc_nextSymbol = 0, rc_low = 0, rc_range = - 1, rc_predicted = 0,
         rc_order = 0, rc_out = []\<rparr>)"

text \<open>
  The bytes written to \<open>outData\<close>, as many as the size returned.  \<open>None\<close> where nothing is
  returned or the array is left.
\<close>

definition enet_range_coder_compress :: "(nat \<Rightarrow> ENetSymbol) \<Rightarrow> u8 list list \<Rightarrow> nat \<Rightarrow> nat \<Rightarrow> u8 list option" where
  "enet_range_coder_compress symbols buffers inLimit outLimit =
     (case buffers of
        [] \<Rightarrow> Some []
      | data # rest \<Rightarrow>
          if inLimit = 0 then Some []
          else
            (case compress_loop outLimit data rest (start_coder symbols) of
               None \<Rightarrow> None
             | Some None \<Rightarrow> Some []
             | Some (Some c) \<Rightarrow> if rc_fault c then None else Some (rc_out c)))"

end
