(* ===== verification/Enet_Decompress.thy ===== *)
theory Enet_Decompress
  imports Enet_Compress Enet_Host
begin

text \<open>
  The other direction of \<^verbatim>\<open>src/compress.c\<close>, \<open>enet_range_coder_decompress\<close>, and the functions that
  make it the compressor of a host.  The array of symbols, its macros and the end of a round are
  those of Enet_Compress; \<open>return 0\<close> is \<open>Inl\<close> of the coder as it is then, with the faults
  met on the way.
\<close>

section \<open>Reading the code\<close>

record ENetRangeDecoder = ENetRangeCoder +
  rc_code :: u32
  rc_in :: "u8 list"

text \<open>\<open>if (inData < inEnd) decodeCode |= *inData++ << n\<close>.\<close>

definition seed_byte :: "nat \<Rightarrow> ENetRangeDecoder \<Rightarrow> ENetRangeDecoder" where
  "seed_byte n c =
     (case rc_in c of
        [] \<Rightarrow> c
      | b # bs \<Rightarrow> c\<lparr>rc_code := rc_code c OR push_bit n (ucast b), rc_in := bs\<rparr>)"

definition ENET_RANGE_CODER_SEED :: "ENetRangeDecoder \<Rightarrow> ENetRangeDecoder" where
  "ENET_RANGE_CODER_SEED c = seed_byte 0 (seed_byte 8 (seed_byte 16 (seed_byte 24 c)))"

text \<open>The quotient, in 16 bits, and the coder with its range divided; dividing by 0 is a fault.\<close>

definition ENET_RANGE_CODER_READ :: "u32 \<Rightarrow> ENetRangeDecoder \<Rightarrow> u16 \<times> ENetRangeDecoder" where
  "ENET_RANGE_CODER_READ tot c =
     (let rng = rc_range c div tot
      in (ucast ((rc_code c - rc_low c) div rng),
          c\<lparr>rc_range := rng, rc_fault := rc_fault c \<or> tot = 0 \<or> rng = 0\<rparr>))"

partial_function (option) decode_loop :: "ENetRangeDecoder \<Rightarrow> ENetRangeDecoder option" where
  "decode_loop c =
     (if interval_done (rc_low c) (rc_range c) then Some c
      else decode_loop
             ((seed_byte 0 (c\<lparr>rc_code := push_bit 8 (rc_code c)\<rparr>))
                \<lparr>rc_range := push_bit 8 (next_range (rc_low c) (rc_range c)), rc_low := push_bit 8 (rc_low c)\<rparr>))"

definition ENET_RANGE_CODER_DECODE :: "u32 \<Rightarrow> u32 \<Rightarrow> ENetRangeDecoder \<Rightarrow> ENetRangeDecoder option" where
  "ENET_RANGE_CODER_DECODE below cnt c =
     decode_loop (c\<lparr>rc_low := rc_low c + below * rc_range c, rc_range := rc_range c * cnt\<rparr>)"

section \<open>Decoding in a context\<close>

text \<open>
  How the walk for a code ends: at a symbol with its value, \<open>under\<close> and \<open>count\<close>, or where a
  symbol has no right or no left child, with the \<open>after\<close> and \<open>before\<close> of that symbol.
\<close>

datatype search_end =
    Hit nat u8 u16 u16
  | NoRight nat u16
  | NoLeft nat u16 u16

function decode_walk ::
  "u8 \<Rightarrow> u16 \<Rightarrow> u16 \<Rightarrow> u16 \<Rightarrow> nat \<Rightarrow> ENetRangeDecoder \<Rightarrow> search_end \<times> ENetRangeDecoder" where
  "decode_walk update minimum code below node c =
     (let s = rc_symbols c node;
          after = below + sy_under s + (ucast (sy_value s) + 1) * minimum;
          beforeNode = ucast (sy_count s) + minimum
      in if node \<ge> symbolCount then (NoRight node after, c\<lparr>rc_fault := True\<rparr>)
         else if code \<ge> after then
           (if sy_right s \<noteq> 0
            then decode_walk update minimum code (below + sy_under s) (node + unat (sy_right s)) c
            else (NoRight node after, c))
         else if uint code < uint after - uint beforeNode then
           (let c = upd_symbol node (\<lambda>s. s\<lparr>sy_under := sy_under s + ucast update\<rparr>) c
            in if sy_left s \<noteq> 0
               then decode_walk update minimum code below (node + unat (sy_left s)) c
               else (NoLeft node after beforeNode, c))
         else
           (Hit node (sy_value s) (after - beforeNode) (minimum + ucast (sy_count s)),
            upd_symbol node (\<lambda>s. s\<lparr>sy_under := sy_under s + ucast update, sy_count := sy_count s + update\<rparr>) c))"
  by pat_completeness auto

termination decode_walk
  by (relation "measure (\<lambda>(update, minimum, code, below, node, c). symbolCount - node)")
    (auto intro!: offset_decreases [simplified])

declare decode_walk.simps [simp del]

type_synonym decoded_symbol = "nat \<times> u8 \<times> u16 \<times> u16 \<times> ENetRangeDecoder"

definition ENET_CONTEXT_TRY_DECODE ::
  "nat \<Rightarrow> u16 \<Rightarrow> u8 \<Rightarrow> u16 \<Rightarrow> ENetRangeDecoder \<Rightarrow> ENetRangeDecoder + decoded_symbol" where
  "ENET_CONTEXT_TRY_DECODE context code update minimum c =
     (let symbols = sy_symbols (rc_symbols c context)
      in if symbols = 0 then Inl c
         else
           (case decode_walk update minimum code 0 (context + unat symbols) c of
              (Hit symbol value below cnt, c) \<Rightarrow> Inr (symbol, value, below, cnt, c)
            | (_, c) \<Rightarrow> Inl c))"

text \<open>Where a symbol is missing, the root creates it.\<close>

definition create_missing :: "u16 \<Rightarrow> u8 \<Rightarrow> u16 \<Rightarrow> search_end \<times> ENetRangeDecoder \<Rightarrow> decoded_symbol" where
  "create_missing code update minimum e =
     (case e of
        (Hit symbol value below cnt, c) \<Rightarrow> (symbol, value, below, cnt, c)
      | (NoRight node after, c) \<Rightarrow>
          (let value = sy_value (rc_symbols c node) + 1 + ucast ((code - after) div minimum);
               below = code - (code - after) mod minimum;
               (symbol, c) = ENET_SYMBOL_CREATE value update c
           in (symbol, value, below, minimum, upd_symbol node (\<lambda>s. s\<lparr>sy_right := symbol_offset symbol node\<rparr>) c))
      | (NoLeft node after beforeNode, c) \<Rightarrow>
          (let value = sy_value (rc_symbols c node) - 1 - ucast ((after - beforeNode - code - 1) div minimum);
               below = code - (after - beforeNode - code - 1) mod minimum;
               (symbol, c) = ENET_SYMBOL_CREATE value update c
           in (symbol, value, below, minimum, upd_symbol node (\<lambda>s. s\<lparr>sy_left := symbol_offset symbol node\<rparr>) c)))"

definition ENET_CONTEXT_ROOT_DECODE ::
  "nat \<Rightarrow> u16 \<Rightarrow> u8 \<Rightarrow> u16 \<Rightarrow> ENetRangeDecoder \<Rightarrow> decoded_symbol" where
  "ENET_CONTEXT_ROOT_DECODE context code update minimum c =
     (let symbols = sy_symbols (rc_symbols c context)
      in if symbols = 0 then
           (let value = ucast (code div minimum);
                below = code - code mod minimum;
                (symbol, c) = ENET_SYMBOL_CREATE value update c
            in (symbol, value, below, minimum,
                upd_symbol context (\<lambda>s. s\<lparr>sy_symbols := symbol_offset symbol context\<rparr>) c))
         else create_missing code update minimum (decode_walk update minimum code 0 (context + unat symbols) c))"

section \<open>Decompressing\<close>

text \<open>
  What a round decodes: the escape of the root, which ends the output, or a value with the context
  it was decoded in and its symbol there, \<open>bottom\<close>.
\<close>

datatype decoded = Finished | Decoded nat nat u8

definition decode_root :: "ENetRangeDecoder \<Rightarrow> (decoded \<times> ENetRangeDecoder) option" where
  "decode_root c =
     (let root = rc_symbols c 0;
          escapes = sy_escapes root;
          (code, c) = ENET_RANGE_CODER_READ (ucast (sy_total root)) c
      in if code < escapes
         then map_option (\<lambda>c. (Finished, c)) (ENET_RANGE_CODER_DECODE 0 (ucast escapes) c)
         else
           (let (symbol, value, below, cnt, c) =
                  ENET_CONTEXT_ROOT_DECODE 0 (code - escapes) ENET_CONTEXT_SYMBOL_DELTA ENET_CONTEXT_SYMBOL_MINIMUM c
            in map_option (\<lambda>c. (Decoded 0 symbol value, count_root cnt c))
                 (ENET_RANGE_CODER_DECODE (ucast escapes + ucast below) (ucast cnt) c)))"

text \<open>\<open>None\<close> where a loop does not end.\<close>

partial_function (option) decode_contexts ::
  "nat \<Rightarrow> ENetRangeDecoder \<Rightarrow> (ENetRangeDecoder + decoded \<times> ENetRangeDecoder) option" where
  "decode_contexts subcontext c =
     (if subcontext = 0 then (case decode_root c of None \<Rightarrow> None | Some r \<Rightarrow> Some (Inr r))
      else
        (let s = rc_symbols c subcontext; escapes = sy_escapes s; parent = unat (sy_parent s)
         in if escapes = 0 \<or> escapes \<ge> sy_total s then decode_contexts parent c
            else
              (let (code, c) = ENET_RANGE_CODER_READ (ucast (sy_total s)) c
               in if code < escapes then
                    (case ENET_RANGE_CODER_DECODE 0 (ucast escapes) c of
                       None \<Rightarrow> None
                     | Some c \<Rightarrow> decode_contexts parent c)
                  else
                    (case ENET_CONTEXT_TRY_DECODE subcontext (code - escapes) ENET_SUBCONTEXT_SYMBOL_DELTA 0 c of
                       Inl c \<Rightarrow> Some (Inl c)
                     | Inr (symbol, value, below, cnt, c) \<Rightarrow>
                         (case ENET_RANGE_CODER_DECODE (ucast escapes + ucast below) (ucast cnt) c of
                            None \<Rightarrow> None
                          | Some c \<Rightarrow> Some (Inr (Decoded subcontext symbol value, count_subcontext subcontext cnt c)))))))"

text \<open>\<open>patchContexts\<close>: the value is counted in the contexts that escaped.\<close>

partial_function (option) patch_contexts ::
  "nat \<Rightarrow> nat \<Rightarrow> u8 \<Rightarrow> nat \<Rightarrow> parent_slot \<Rightarrow> ENetRangeDecoder \<Rightarrow> ENetRangeDecoder option" where
  "patch_contexts subcontext bottom value patch slot c =
     (if patch = subcontext then Some (set_parent slot bottom c)
      else
        (let (symbol, below, cnt, c) = ENET_CONTEXT_ENCODE patch value ENET_SUBCONTEXT_SYMBOL_DELTA 0 c;
             c = set_parent slot symbol c;
             c = (if cnt = 0 then count_escape patch c else c);
             c = count_subcontext patch cnt c
         in patch_contexts subcontext bottom value (unat (sy_parent (rc_symbols c patch))) (ParentOf symbol) c))"

partial_function (option) decompress_loop :: "nat \<Rightarrow> ENetRangeDecoder \<Rightarrow> (ENetRangeDecoder + ENetRangeDecoder) option" where
  "decompress_loop outLimit c =
     (let predicted = unat (rc_predicted c)
      in case decode_contexts predicted c of
           None \<Rightarrow> None
         | Some (Inl c) \<Rightarrow> Some (Inl c)
         | Some (Inr (r, c)) \<Rightarrow>
             (case r of
                Finished \<Rightarrow> Some (Inr c)
              | Decoded subcontext bottom value \<Rightarrow>
                  (case patch_contexts subcontext bottom value predicted Predicted c of
                     None \<Rightarrow> None
                   | Some c \<Rightarrow>
                       (case ENET_RANGE_CODER_OUTPUT outLimit value c of
                          None \<Rightarrow> Some (Inl c)
                        | Some c \<Rightarrow> decompress_loop outLimit (next_symbol_input c)))))"

declare decode_loop.simps [code] decode_contexts.simps [code] patch_contexts.simps [code] decompress_loop.simps [code]

definition start_decoder :: "(nat \<Rightarrow> ENetSymbol) \<Rightarrow> u8 list \<Rightarrow> ENetRangeDecoder" where
  "start_decoder symbols inData =
     ENET_RANGE_CODER_SEED
       (snd (ENET_CONTEXT_CREATE ENET_CONTEXT_ESCAPE_MINIMUM ENET_CONTEXT_SYMBOL_MINIMUM
          \<lparr>rc_symbols = symbols, rc_fault = False, rc_nextSymbol = 0, rc_low = 0, rc_range = - 1, rc_predicted = 0,
            rc_order = 0, rc_out = [], rc_code = 0, rc_in = inData\<rparr>))"

text \<open>The bytes handed out; \<open>None\<close> where the code does not return or has met a fault on any way out.\<close>

definition enet_range_coder_decompress :: "(nat \<Rightarrow> ENetSymbol) \<Rightarrow> u8 list \<Rightarrow> nat \<Rightarrow> u8 list option" where
  "enet_range_coder_decompress symbols inData outLimit =
     (if inData = [] then Some []
      else
        (case decompress_loop outLimit (start_decoder symbols inData) of
           None \<Rightarrow> None
         | Some (Inl c) \<Rightarrow> if rc_fault c then None else Some []
         | Some (Inr c) \<Rightarrow> if rc_fault c then None else Some (rc_out c)))"

section \<open>The compressor of a host\<close>

text \<open>
  The callbacks of a compressor, with their context inside; as in the host, \<open>destroy\<close> is not
  state.
\<close>

record ENetCompressor =
  cp_compress :: "(u8 list list \<Rightarrow> u64 \<Rightarrow> u64 \<Rightarrow> u8 list option) option"
  cp_decompress :: "(u8 list \<Rightarrow> u64 \<Rightarrow> u64 \<Rightarrow> u8 list) option"

definition enet_host_compress :: "ENetCompressor option \<Rightarrow> ENetHost \<Rightarrow> ENetHost" where
  "enet_host_compress compressor h =
     (case compressor of
        Some k \<Rightarrow> h\<lparr>h_compress := cp_compress k, h_decompress := cp_decompress k\<rparr>
      | None \<Rightarrow> h\<lparr>h_compress := None, h_decompress := None\<rparr>)"

text \<open>The range coder with \<open>symbols\<close> in its array.  Its decompressor always has a result.\<close>

definition range_coder :: "(nat \<Rightarrow> ENetSymbol) \<Rightarrow> ENetCompressor" where
  "range_coder symbols =
     \<lparr>cp_compress = Some (\<lambda>buffers inLimit outLimit.
        enet_range_coder_compress symbols buffers (unat inLimit) (unat outLimit)),
      cp_decompress = Some (\<lambda>inData inLimit outLimit.
        (case enet_range_coder_decompress symbols (take (unat inLimit) inData) (unat outLimit) of
           None \<Rightarrow> [] | Some out \<Rightarrow> out))\<rparr>"

definition enet_range_coder_create :: "ENetHost \<Rightarrow> nat option \<times> ENetHost" where
  "enet_range_coder_create h = enet_malloc h"

definition enet_host_compress_with_range_coder :: "(nat \<Rightarrow> ENetSymbol) \<Rightarrow> ENetHost \<Rightarrow> int \<times> ENetHost" where
  "enet_host_compress_with_range_coder symbols h =
     (case enet_range_coder_create h of
        (None, h) \<Rightarrow> (- 1, h)
      | (Some _, h) \<Rightarrow> (0, enet_host_compress (Some (range_coder symbols)) h))"

end
