(* ===== verification/Enet_Reachable.thy ===== *)
theory Enet_Reachable
  imports Enet_Invariants Enet_Service Enet_Decompress
begin

text \<open>
  The hosts that can arise.  The locale \<open>service_invariant\<close> carries an invariant of the
  operations through the passes of the send path, the flush and the service loop; a new host
  satisfies the invariant of Enet_Invariants and every call of the library keeps it, so every
  reachable host has it.
\<close>

section \<open>The service keeps an invariant\<close>

text \<open>The contract of the service: the receive path's, and that of each of its other parts.\<close>

locale service_invariant = host_invariant +
  assumes send_one: "I n h \<Longrightarrow> i < n \<Longrightarrow> I n (snd (snd (snd (send_to_peer check i ev sent h))))"
    and dispatch: "I n h \<Longrightarrow> I n (snd (snd (enet_protocol_dispatch_incoming_commands event h)))"
    and throttle: "I n h \<Longrightarrow> I n (enet_host_bandwidth_throttle h)"
    and clock: "I n h \<Longrightarrow> I n (h\<lparr>h_clockReads := c, h_serviceTime := t\<rparr>)"
    and waited: "I n h \<Longrightarrow> I n (h\<lparr>h_pollCalls := c, h_inbox := rs\<rparr>)"
begin

lemma send_pass_keeps:
  assumes "I n h" "set is \<subseteq> {..<n}"
  shows "I n (snd (snd (snd (snd (send_pass check firstPass is continue ev sent h)))))"
  using assms
proof (induction check firstPass "is" continue ev sent h rule: send_pass.induct)
  case (2 check firstPass i "is" continue ev sent h)
  obtain r ev' sent' h' where one: "send_to_peer check i ev sent h = (r, ev', sent', h')"
    by (metis prod_cases4)
  have "I n h'"
    using send_one [OF 2(3), of i check ev sent] 2(4) one by simp
  then show ?case
    using 2 one by (auto split: option.split)
qed simp

lemma send_passes_keeps:
  assumes "send_passes check firstPass ev sent h = Some (r, ev', h')" "I n h"
  shows "I n h'"
proof -
  have "I n h \<longrightarrow> I n (snd (snd y))" if "send_passes check firstPass ev sent h = Some y" for y
  proof (rule send_passes.raw_induct [OF _ that], intro impI)
    fix f check firstPass ev sent h y
    assume IH: "\<And>check firstPass ev sent h y. f check firstPass ev sent h = Some y \<Longrightarrow> I n h \<longrightarrow> I n (snd (snd y))"
      and run: "(case send_pass check firstPass [0..<length (h_peers h)] False ev sent h of
        (Some r, _, ev, _, h) \<Rightarrow> Some (r, ev, h)
      | (None, continueSending, ev, sent, h) \<Rightarrow>
          if continueSending then f check False ev sent h else Some (0, ev, h)) = Some y"
      and h: "I n h"
    obtain r cont ev' sent' h' where pass:
      "send_pass check firstPass [0..<length (h_peers h)] False ev sent h = (r, cont, ev', sent', h')"
      by (metis prod_cases5)
    have h': "I n h'"
      using send_pass_keeps [OF h, of "[0..<length (h_peers h)]" check firstPass False ev sent] pass
      by (simp add: peers [OF h] atLeast0LessThan)
    show "I n (snd (snd y))"
    proof (cases "r = None \<and> cont")
      case True
      then show ?thesis using run pass h' IH [of check False ev' sent' h' y] by simp
    next
      case False
      then show ?thesis using run pass h' by (auto split: option.splits)
    qed
  qed
  then show ?thesis
    using assms by fastforce
qed

lemma send_outgoing_keeps:
  "enet_protocol_send_outgoing_commands ev check h = Some (r, ev', h') \<Longrightarrow> I n h \<Longrightarrow> I n h'"
  unfolding enet_protocol_send_outgoing_commands_def by (rule send_passes_keeps)

lemma read_clock_keeps: "I n h \<Longrightarrow> I n (read_clock h)"
  by (simp add: read_clock_def enet_time_get_def Let_def clock)

lemma flush_keeps: "enet_host_flush h = Some h' \<Longrightarrow> I n h \<Longrightarrow> I n h'"
  by (auto simp: enet_host_flush_def dest!: send_outgoing_keeps intro: read_clock_keeps)

lemma dispatch_phase_keeps: "dispatch_phase ev h = Some (r, ev', h') \<Longrightarrow> I n h \<Longrightarrow> I n h'"
  using dispatch by (auto simp: dispatch_phase_def split: option.splits prod.splits) (metis snd_conv)

lemma round_keeps:
  assumes "service_round icb ev h = Some (r, ev', h')" "I n h" "observing icb"
  shows "I n h'"
proof -
  have "I n h'" if "run_phases fs ev h = Some (r, ev', h')" "I n h"
      "\<And>f ev h r ev' h'. f \<in> set fs \<Longrightarrow> f ev h = Some (r, ev', h') \<Longrightarrow> I n h \<Longrightarrow> I n h'" for fs ev h
    using that
  proof (induction fs ev h rule: run_phases.induct)
    case (2 f fs ev h)
    then show ?case
      by (fastforce split: option.splits prod.splits if_splits)
  qed simp
  moreover have "I n h'" if "f \<in> set [throttle_phase, send_phase, receive_phase icb, send_phase, dispatch_phase]"
      "f ev h = Some (r, ev', h')" "I n h" for f ev h r ev' h'
    using that receive_keeps [OF that(3) assms(3), of ev]
    by (auto simp: throttle_phase_def send_phase_def receive_phase_def throttle
      dest: dispatch_phase_keeps send_outgoing_keeps split: if_splits)
  ultimately show ?thesis
    using assms unfolding service_round_def by blast
qed

lemma host_wait_keeps: "host_wait c t h = (r, h') \<Longrightarrow> I n h \<Longrightarrow> I n h'"
  by (auto simp: host_wait_def enet_socket_wait_def enet_socket_wait_epoll_def next_poll_def Let_def waited
    split: if_splits)

lemma wait_loop_keeps:
  assumes "wait_loop t h = Some (r, h')" "I n h"
  shows "I n h'"
proof -
  have "I n h \<longrightarrow> I n (snd y)" if "wait_loop t h = Some y" for y
  proof (rule wait_loop.raw_induct [OF _ that], intro impI)
    fix f t h y
    assume IH: "\<And>t h y. f t h = Some y \<Longrightarrow> I n h \<longrightarrow> I n (snd y)"
      and run: "(let h = read_clock h
      in if ENET_TIME_GREATER_EQUAL (h_serviceTime h) t then Some (Inl 0, h)
         else (case host_wait (set_flag ENET_SOCKET_WAIT_RECEIVE ENET_SOCKET_WAIT_INTERRUPT)
                 (ENET_TIME_DIFFERENCE t (h_serviceTime h)) h of
              ((r, condition), h) \<Rightarrow>
                if r \<noteq> 0 then Some (Inl (- 1), h)
                else if has_flag condition ENET_SOCKET_WAIT_INTERRUPT then f t h
                else Some (Inr condition, h))) = Some y"
      and h: "I n h"
    note k = read_clock_keeps [OF h]
    show "I n (snd y)"
      using run k host_wait_keeps [OF _ k] IH by (auto simp: Let_def split: if_splits prod.splits)
  qed
  then show ?thesis using assms by fastforce
qed

lemma service_loop_keeps:
  assumes "service_loop icb t ev h = Some (r, ev', h')" "I n h" "observing icb"
  shows "I n h'"
proof -
  have "observing icb \<longrightarrow> I n h \<longrightarrow> I n (snd (snd y))" if "service_loop icb t ev h = Some y" for icb y
  proof (rule service_loop.raw_induct [OF _ that], intro impI)
    fix f icb t ev h y
    assume IH: "\<And>icb t ev h y. f icb t ev h = Some y \<Longrightarrow> observing icb \<longrightarrow> I n h \<longrightarrow> I n (snd (snd y))"
      and run: "(case service_round icb ev h of
        None \<Rightarrow> None
      | Some (r, ev, h) \<Rightarrow>
          if r = 1 \<or> r = - 1 then Some (r, ev, h)
          else if ENET_TIME_GREATER_EQUAL (h_serviceTime h) t then Some (0, ev, h)
          else (case wait_loop t h of
               None \<Rightarrow> None
             | Some (Inl r, h) \<Rightarrow> Some (r, ev, h)
             | Some (Inr condition, h) \<Rightarrow>
                 (let h = read_clock h
                  in if has_flag condition ENET_SOCKET_WAIT_RECEIVE then f icb t ev h
                     else Some (0, ev, h)))) = Some y"
      and h: "observing icb" "I n h"
    obtain r1 ev1 h1 where one: "service_round icb ev h = Some (r1, ev1, h1)"
      using run h by (auto split: option.splits)
    note h1 = round_keeps [OF one h(2,1)]
    show "I n (snd (snd y))"
    proof (cases "r1 = 1 \<or> r1 = - 1 \<or> ENET_TIME_GREATER_EQUAL (h_serviceTime h1) t")
      case True
      then show ?thesis using run one h h1 by (auto split: if_splits)
    next
      case False
      then obtain c h2 where w: "wait_loop t h1 = Some (c, h2)"
        using run one h by (auto split: option.splits)
      note h3 = read_clock_keeps [OF wait_loop_keeps [OF w h1]]
      show ?thesis
        using run one h w False wait_loop_keeps [OF w h1] h3 IH [of icb t ev1 "read_clock h2" y]
        by (cases c) (auto simp: Let_def split: if_splits)
    qed
  qed
  then show ?thesis using assms by fastforce
qed

lemma service_keeps:
  assumes "enet_host_service icb ev t h = Some (r, ev', h')" "I n h" "observing icb"
  shows "I n h'"
  using assms dispatch_phase_keeps [of "map_option clear_event ev" h]
  by (fastforce simp: enet_host_service_def Let_def dest: service_loop_keeps intro: read_clock_keeps
    split: option.splits if_splits)

end

section \<open>The send path keeps the host's invariant\<close>

lemma host_ok_send_fields [simp]:
  "host_ok n (h\<lparr>h_headerFlags := a1\<rparr>) = host_ok n h"
  "host_ok n (h\<lparr>h_commands := a2\<rparr>) = host_ok n h"
  "host_ok n (h\<lparr>h_buffers := a3\<rparr>) = host_ok n h"
  "host_ok n (h\<lparr>h_packetSize := a4\<rparr>) = host_ok n h"
  "host_ok n (h\<lparr>h_outbox := a5\<rparr>) = host_ok n h"
  "host_ok n (h\<lparr>h_pollCalls := a6\<rparr>) = host_ok n h"
  "host_ok n (h\<lparr>h_totalSentData := a7\<rparr>) = host_ok n h"
  "host_ok n (h\<lparr>h_totalSentPackets := a8\<rparr>) = host_ok n h"
  by (simp_all add: host_ok_def counters_ok_def)

lemma host_ok_put_command [simp]: "host_ok n (put_command sz c h) = host_ok n h"
  by (simp add: put_command_def)

lemma host_ok_acknowledgements [keeps]:
  assumes "host_ok n h" "i < n"
  shows "host_ok n (enet_protocol_send_acknowledgements i h)"
proof -
  have "host_ok n (acknowledgements_loop i as h)" for as
    using assms(1)
  proof (induction as arbitrary: h)
    case (Cons a as)
    have "tame (\<lambda>p. p\<lparr>p_flags := g p\<rparr>)" "tame (\<lambda>p. p\<lparr>p_acknowledgements := as\<rparr>)" for g
      by (simp_all add: tame_simps)
    then show ?case
      using Cons assms(2) by (auto simp: Let_def host_ok_tame keeps)
  qed simp
  then show ?thesis by (simp add: enet_protocol_send_acknowledgements_def)
qed

lemma oc_ok_fields [simp]:
  "oc_ok (oc\<lparr>oc_roundTripTimeout := a\<rparr>) = oc_ok oc" "oc_ok (oc\<lparr>oc_sendAttempts := k\<rparr>) = oc_ok oc"
  "oc_ok (oc\<lparr>oc_sentTime := a\<rparr>) = oc_ok oc"
  "unpacked (oc\<lparr>oc_roundTripTimeout := a\<rparr>) = unpacked oc"
  by (simp_all add: oc_ok_def unpacked_def)

lemma peer_ok_queues:
  assumes "peer_ok p" "\<forall>oc \<in> set sent. oc_ok oc" "\<forall>oc \<in> set out. oc_ok oc \<and> unpacked oc" "\<forall>oc \<in> set rel. oc_ok oc"
  shows "peer_ok (p\<lparr>p_sentReliableCommands := sent, p_outgoingCommands := out, p_outgoingSendReliableCommands := rel\<rparr>)"
  using assms by (simp add: peer_ok_def)

lemma peer_key_queues:
  "peer_key (p\<lparr>p_sentReliableCommands := sent, p_outgoingCommands := out, p_outgoingSendReliableCommands := rel\<rparr>) = peer_key p"
  by (simp add: peer_key_def limited_def)

lemma timeout_loop_key:
  "peer_ok p \<Longrightarrow> \<forall>oc \<in> set rest \<union> set kept \<union> set again \<union> set againReliable. oc_ok oc
     \<Longrightarrow> \<forall>oc \<in> set again. unpacked oc
     \<Longrightarrow> peer_ok (snd (timeout_loop now rest kept again againReliable p))
     \<and> peer_key (snd (timeout_loop now rest kept again againReliable p)) = peer_key p"
proof (induction now rest kept again againReliable p rule: timeout_loop.induct)
  case (1 now kept again againReliable p)
  then show ?case by (auto simp: requeue_def peer_key_queues peer_ok_def)
next
  case (2 now oc rest kept again againReliable p)
  have req: "peer_ok p \<Longrightarrow> \<forall>oc \<in> set a \<union> set b \<union> set c. oc_ok oc \<Longrightarrow> \<forall>oc \<in> set b. unpacked oc \<Longrightarrow> peer_ok (requeue a b c p)"
    "peer_key (requeue a b c p) = peer_key p" for a b c p
    by (auto simp: requeue_def peer_ok_def peer_key_def limited_def)
  have note1: "peer_ok (note_timeout oc p) = peer_ok p" "peer_key (note_timeout oc p) = peer_key p" for p
    by (simp_all add: note_timeout_def tame_simps)
  have lost: "peer_ok (count_lost oc p) = peer_ok p" "peer_key (count_lost oc p) = peer_key p"
    "peer_ok (p\<lparr>p_nextTimeout := k\<rparr>) = peer_ok p" "peer_key (p\<lparr>p_nextTimeout := k\<rparr>) = peer_key p" for p k
    by (simp_all add: count_lost_def tame_simps)
  define q where "q = next_deadline kept rest (count_lost oc (note_timeout oc p))"
  have q: "peer_ok q" "peer_key q = peer_key p"
    using 2(4) by (auto simp: q_def next_deadline_def note1 lost split: list.split)
  show ?case
  proof (cases "ENET_TIME_DIFFERENCE now (oc_sentTime oc) < oc_roundTripTimeout oc")
    case True
    then show ?thesis using 2(1) [OF True 2(4)] 2(5,6) by simp
  next
    case False
    show ?thesis
    proof (cases "gives_up now oc (note_timeout oc p) = Some False")
      case True
      let ?oc = "oc\<lparr>oc_roundTripTimeout := oc_roundTripTimeout oc * 2\<rparr>"
      have run: "timeout_loop now (oc # rest) kept again againReliable p =
        (if oc_packet oc \<noteq> None then timeout_loop now rest kept again (againReliable @ [?oc]) q
         else timeout_loop now rest kept (again @ [?oc]) againReliable q)"
        using False True by (simp add: Let_def q_def)
      have "peer_ok (snd (timeout_loop now rest kept again (againReliable @ [?oc]) q))
          \<and> peer_key (snd (timeout_loop now rest kept again (againReliable @ [?oc]) q)) = peer_key q"
        if "oc_packet oc \<noteq> None"
        using 2(2) [OF False refl True refl refl refl that, folded q_def, OF q(1)] 2(5,6) by simp
      moreover have "peer_ok (snd (timeout_loop now rest kept (again @ [?oc]) againReliable q))
          \<and> peer_key (snd (timeout_loop now rest kept (again @ [?oc]) againReliable q)) = peer_key q"
        if "\<not> oc_packet oc \<noteq> None"
        using 2(3) [OF False refl True refl refl refl that, folded q_def, OF q(1)] 2(5,6) that by (auto simp: unpacked_def)
      ultimately show ?thesis unfolding run by (simp add: q(2))
    next
      case notFalse: False
      have eq: "snd (timeout_loop now (oc # rest) kept again againReliable p)
          = requeue (kept @ oc # rest) again againReliable (note_timeout oc p)"
        using False notFalse by (auto simp: Let_def split: option.split bool.split)
      have "peer_ok (requeue (kept @ oc # rest) again againReliable (note_timeout oc p))"
        using 2(4-6) by (intro req(1)) (auto simp: note1)
      then show ?thesis
        by (simp only: eq req(2) note1 simp_thms)
    qed
  qed
qed

lemma host_ok_timeouts:
  assumes "host_ok n h" "i < n"
  shows "host_ok n (snd (snd (enet_protocol_check_timeouts i ev h)))"
proof -
  have "host_ok n (upd_peer i (\<lambda>_. snd (timeout_loop now (p_sentReliableCommands (peer_at h i)) [] [] [] (peer_at h i))) h)" for now
  proof -
    have "peer_ok (peer_at h i)" by (rule peer_ok_at [OF assms])
    moreover from this have "\<forall>oc \<in> set (p_sentReliableCommands (peer_at h i)) \<union> set [] \<union> set [] \<union> set []. oc_ok oc"
      by (simp add: peer_ok_def)
    ultimately show ?thesis
      using assms timeout_loop_key [of _ _ "[]" "[]" "[]"] by (intro host_ok_upd_peer) auto
  qed
  then show ?thesis
    using assms(2) unfolding enet_protocol_check_timeouts_def Let_def case_prod_beta
    by (auto intro!: keeps split: timeouts.split)
qed

lemma peer_ok_sending:
  "peer_ok (p\<lparr>p_flags := a\<rparr>) = peer_ok p" "peer_key (p\<lparr>p_flags := a\<rparr>) = peer_key p"
  "peer_ok (p\<lparr>p_packetsSent := b\<rparr>) = peer_ok p" "peer_key (p\<lparr>p_packetsSent := b\<rparr>) = peer_key p"
  "peer_ok (count_throttle p) = peer_ok p" "peer_key (count_throttle p) = peer_key p"
  "peer_key (p\<lparr>p_outgoingCommands := c, p_outgoingSendReliableCommands := d\<rparr>) = peer_key p"
  by (simp_all add: tame_simps count_throttle_def)

definition sending_ok :: "nat \<Rightarrow> nat \<Rightarrow> outgoing_state \<Rightarrow> bool" where
  "sending_ok n i s \<longleftrightarrow> host_ok n (os_host s) \<and> peer_ok (os_peer s)
     \<and> peer_key (os_peer s) = peer_key (peer_at (os_host s) i)
     \<and> (\<forall>oc \<in> set (os_passed s) \<union> set (os_ahead s) \<union> set (os_passedReliable s) \<union> set (os_aheadReliable s). oc_ok oc)
     \<and> (\<forall>oc \<in> set (os_passed s) \<union> set (os_ahead s). unpacked oc)"

lemma drop_same_numbers_subset: "set (fst (drop_same_numbers k u ocs m)) \<subseteq> set ocs"
  by (induction k u ocs m rule: drop_same_numbers.induct) auto

text \<open>The cursors only pass commands or take them out.\<close>

lemma next_outgoing_parts:
  assumes "next_outgoing cs rs = Some (reliable, oc, cs', rs')"
  shows "if reliable then cs' = cs \<and> rs = oc # rs' else cs = oc # cs' \<and> rs' = rs"
  using assms by (induction cs rs rule: next_outgoing.induct) (auto split: if_splits)

lemma next_outgoing_ok:
  assumes "sending_ok n i s" "next_outgoing (os_ahead s) (os_aheadReliable s) = Some (reliable, oc, cs, rs)"
  shows "sending_ok n i (s\<lparr>os_ahead := cs, os_aheadReliable := rs\<rparr>) \<and> oc_ok oc \<and> (reliable \<or> unpacked oc)"
proof -
  have "if reliable then cs = os_ahead s \<and> os_aheadReliable s = oc # rs else os_ahead s = oc # cs \<and> rs = os_aheadReliable s"
    using assms(2) by (rule next_outgoing_parts)
  then show ?thesis
    using assms(1) by (auto simp: sending_ok_def split: if_splits)
qed

lemma drop_packets_more [mem_frame]:
  "memory.more (drop_packet oc m) = memory.more m"
  "memory.more (snd (drop_same_numbers k u ocs m)) = memory.more m"
proof -
  show d: "memory.more (drop_packet oc m) = memory.more m" for oc and m :: "'a memory_scheme"
    by (simp add: drop_packet_def mem_frame split: option.split)
  show "memory.more (snd (drop_same_numbers k u ocs m)) = memory.more m"
    by (induction k u ocs m rule: drop_same_numbers.induct) (auto simp: d)
qed

lemma record_sent_ok:
  assumes "peer_ok p" "oc_ok oc"
  shows "peer_ok (record_sent_reliable now oc p)" "peer_key (record_sent_reliable now oc p) = peer_key p"
proof -
  have plain: "peer_ok (p\<lparr>p_nextTimeout := g\<rparr>) = peer_ok p" "peer_key (p\<lparr>p_nextTimeout := g\<rparr>) = peer_key p"
    "peer_key (p\<lparr>p_sentReliableCommands := a, p_reliableDataInTransit := b\<rparr>) = peer_key p" for p g a b
    by (simp_all add: tame_simps)
  have sent: "peer_ok (p\<lparr>p_sentReliableCommands := p_sentReliableCommands p @ [c], p_reliableDataInTransit := b\<rparr>)"
    if "peer_ok p" "oc_ok c" for p b c
    using that by (auto simp: peer_ok_def)
  have "tame (upd_channel c (use_window w))" for c w
    by (rule tame_channel) (simp add: channel_ok_def use_window_def)
  then have win: "peer_ok p \<Longrightarrow> peer_ok (upd_channel c (use_window w) p)"
    "peer_key (upd_channel c (use_window w) p) = peer_key p" for c w p
    by (simp_all add: tame_def)
  define p1 where "p1 = (case command_channel oc p of
      Some c \<Rightarrow> if oc_sendAttempts oc < 1 then upd_channel c (use_window (sequence_window oc)) p else p
    | None \<Rightarrow> p)"
  define oc1 where "oc1 = (if oc_roundTripTimeout oc = 0
     then oc\<lparr>oc_sendAttempts := oc_sendAttempts oc + 1,
             oc_roundTripTimeout := p_roundTripTime p1 + 4 * p_roundTripTimeVariance p1\<rparr>
     else oc\<lparr>oc_sendAttempts := oc_sendAttempts oc + 1\<rparr>)"
  define p2 where "p2 = (if p_sentReliableCommands p1 = [] then p1\<lparr>p_nextTimeout := now + oc_roundTripTimeout oc1\<rparr> else p1)"
  have r: "record_sent_reliable now oc p = p2\<lparr>p_sentReliableCommands := p_sentReliableCommands p2 @ [oc1\<lparr>oc_sentTime := now\<rparr>],
      p_reliableDataInTransit := p_reliableDataInTransit p2 + ucast (oc_fragmentLength oc1)\<rparr>"
    by (simp add: record_sent_reliable_def Let_def p1_def [symmetric] p2_def oc1_def)
  have "peer_ok p2" "peer_key p2 = peer_key p"
    using assms(1) by (auto simp: p2_def p1_def plain win split: option.split)
  moreover have "oc_ok (oc1\<lparr>oc_sentTime := now\<rparr>)"
    using assms(2) by (simp add: oc1_def)
  ultimately show "peer_ok (record_sent_reliable now oc p)" "peer_key (record_sent_reliable now oc p) = peer_key p"
    unfolding r by (simp_all add: sent plain)
qed

lemma outgoing_step_ok:
  assumes "sending_ok n i s" "oc_ok oc" "outgoing_step reliable oc s = (goes, s')" "reliable \<or> unpacked oc"
  shows "sending_ok n i s'"
proof -
  have put: "sending_ok n i (put_outgoing oc s) = sending_ok n i s" for oc s
    by (simp add: put_outgoing_def sending_ok_def Let_def put_command_def peer_ok_sending peer_at_def
        split: option.split)
  have rec: "peer_ok (record_sent_reliable now oc (os_peer s))"
    "peer_key (record_sent_reliable now oc (os_peer s)) = peer_key (os_peer s)" for now
    using assms(1,2) record_sent_ok by (simp_all add: sending_ok_def)
  from assms(3) show ?thesis
  proof (cases rule: outgoing_step_cases)
    case (dropped rest h)
    have m: "memory.more h = memory.more (os_host s)"
      using arg_cong [OF dropped(5), of "\<lambda>x. memory.more (snd x)"] by (simp add: mem_frame)
    show ?thesis
      using assms(1) dropped(6) host_ok_more [OF m, of n] more_host_fields(5) [OF m, of i]
        drop_same_numbers_subset [of "oc_reliableSequenceNumber oc" "oc_unreliableSequenceNumber oc" "os_ahead s"
          "drop_packet oc (os_host s)"] dropped(5)
      by (auto simp: sending_ok_def peer_ok_sending)
  next
    case reliable
    then show ?thesis
      using assms(1) rec by (simp add: put) (simp add: sending_ok_def peer_at_def)
  next
    case (unreliable p)
    then show ?thesis
      using assms(1) by (simp add: put) (auto simp: sending_ok_def peer_ok_sending)
  qed (use assms(1,2,4) in \<open>auto simp: sending_ok_def keep_command_def skip_reliable_def peer_ok_sending\<close>)
qed

lemma host_ok_check_outgoing:
  assumes "host_ok n h" "i < n"
  shows "host_ok n (snd (snd (enet_protocol_check_outgoing_commands i sent h)))"
proof -
  define s where "s = outgoing_loop \<lparr>os_host = h, os_peer = peer_at h i, os_sentUnreliable = sent, os_windowWrap = False,
      os_canPing = True, os_passed = [], os_ahead = p_outgoingCommands (peer_at h i),
      os_passedReliable = [], os_aheadReliable = p_outgoingSendReliableCommands (peer_at h i)\<rparr>"
  have "sending_ok n i s"
    unfolding s_def
  proof (rule outgoing_loop_invariant [where P = "sending_ok n i"])
    show "sending_ok n i \<lparr>os_host = h, os_peer = peer_at h i, os_sentUnreliable = sent, os_windowWrap = False,
      os_canPing = True, os_passed = [], os_ahead = p_outgoingCommands (peer_at h i),
      os_passedReliable = [], os_aheadReliable = p_outgoingSendReliableCommands (peer_at h i)\<rparr>"
      using assms peer_ok_at [OF assms] by (auto simp: sending_ok_def peer_ok_def)
    show "sending_ok n i s'" if "sending_ok n i s"
        "next_outgoing (os_ahead s) (os_aheadReliable s) = Some (reliable, oc, cs, rs)"
        "outgoing_step reliable oc (s\<lparr>os_ahead := cs, os_aheadReliable := rs\<rparr>) = (goes, s')" for s reliable oc cs rs goes s'
      using next_outgoing_ok [OF that(1,2)] by (intro outgoing_step_ok [OF _ _ that(3)]) simp_all
  qed
  then have "host_ok n (upd_peer i (\<lambda>_. (os_peer s)\<lparr>p_outgoingCommands := os_passed s @ os_ahead s,
      p_outgoingSendReliableCommands := os_passedReliable s @ os_aheadReliable s\<rparr>) (os_host s))"
    using assms(2) by (intro host_ok_upd_peer) (auto simp: sending_ok_def peer_ok_sending peer_ok_def)
  then show ?thesis
    using assms(2) unfolding enet_protocol_check_outgoing_commands_def Let_def s_def [symmetric]
    by (simp add: keeps)
qed

lemma host_ok_fill:
  assumes "host_ok n h" "i < n"
  shows "host_ok n (snd (fill_datagram i sent h))"
  using assms host_ok_check_outgoing [OF assms, of sent] host_ok_check_outgoing [OF host_ok_ping _]
  by (auto simp: fill_datagram_def Let_def case_prod_beta)

lemma host_ok_remove_sent_unreliable [keeps]:
  "host_ok n h \<Longrightarrow> i < n \<Longrightarrow> host_ok n (enet_protocol_remove_sent_unreliable_commands i sent h)"
  by (simp add: enet_protocol_remove_sent_unreliable_commands_def Let_def keeps)

lemma host_ok_transmit:
  assumes "host_ok n h" "i < n"
  shows "host_ok n (snd (snd (transmit i sent h)))"
proof -
  have t: "tame (update_packet_loss now)" "tame (\<lambda>p. p\<lparr>p_lastSendTime := k\<rparr>)" for now k
    by (simp_all add: tame_simps update_packet_loss_def Let_def)
  have c: "host_ok n (compress_buffers k)" if "host_ok n k" for k
    using that by (auto simp: compress_buffers_def Let_def keeps split: option.split)
  show ?thesis
    using assms unfolding transmit_def Let_def case_prod_beta enet_socket_send_def
    by (auto intro!: c keeps host_ok_tame t split: option.split)
qed

lemma host_ok_send_to_peer:
  assumes "host_ok n h" "i < n"
  shows "host_ok n (snd (snd (snd (send_to_peer check i ev sent h))))"
proof -
  have b: "host_ok n (begin_datagram i h)"
    using assms by (simp add: begin_datagram_def host_ok_tame tame_simps)
  define h1 where "h1 = (if p_acknowledgements (peer_at (begin_datagram i h) i) \<noteq> []
    then enet_protocol_send_acknowledgements i (begin_datagram i h) else begin_datagram i h)"
  have h1: "host_ok n h1"
    using b assms(2) by (simp add: h1_def keeps)
  define r where "r = (if check \<and> p_sentReliableCommands (peer_at h1 i) \<noteq> []
      \<and> ENET_TIME_GREATER_EQUAL (h_serviceTime h1) (p_nextTimeout (peer_at h1 i))
    then enet_protocol_check_timeouts i ev h1 else (False, ev, h1))"
  have r: "host_ok n (snd (snd r))"
    using h1 assms(2) by (simp add: r_def host_ok_timeouts)
  obtain timedOut ev' h2 where r': "r = (timedOut, ev', h2)" by (cases r)
  show ?thesis
    using r host_ok_fill [of n h2 i sent] host_ok_transmit [of n _ i] assms(2)
    unfolding send_to_peer_def Let_def h1_def [symmetric] r_def [symmetric] r' 
    by (simp add: r' case_prod_beta)
qed

interpretation host: service_invariant host_ok
proof
  show "host_ok n (h\<lparr>h_pollCalls := c, h_inbox := rs\<rparr>)" if "host_ok n h" for n h c rs
    using that by simp
qed (simp_all add: host_ok_send_to_peer host_ok_dispatch_incoming host_ok_bandwidth_throttle)

text \<open>A delayed disconnection as the steps it is made of.\<close>

lemma disconnect_delayed_eq:
  assumes "p_state (peer_at h i) = DISCONNECT_LATER"
  shows "disconnect_delayed i d h = upd_peer i (\<lambda>p. p\<lparr>p_state := DISCONNECTING\<rparr>) (enet_peer_on_disconnect i
    (snd (enet_peer_queue_outgoing_command i (host_command ENET_PROTOCOL_COMMAND_FLAG_ACKNOWLEDGE (Disconnect d))
       None 0 0 (enet_peer_reset_queues i h))))"
  using assms by (simp add: disconnect_delayed_def enet_peer_disconnect_def Let_def)

section \<open>A new host\<close>

lemma host_ok_create:
  assumes "enet_host_create env a k cl ib ob m = (Some h, s)"
  shows "host_ok k h"
proof -
  text \<open>Before the peers are reset their fields are zero, which is not yet well formed.\<close>
  define J where "J j h \<longleftrightarrow> length (h_peers h) = k \<and> h_connectedPeers h = 0 \<and> h_bandwidthLimitedPeers h = 0
    \<and> (\<forall>i<k. p_state (peer_at h i) = DISCONNECTED \<and> p_flags (peer_at h i) = 0
          \<and> p_incomingBandwidth (peer_at h i) = 0)
    \<and> (\<forall>i<j. peer_ok (peer_at h i)) \<and> 0 < h_channelLimit h \<and> h_channelLimit h \<le> ENET_PROTOCOL_MAXIMUM_CHANNEL_COUNT
    \<and> h_dispatchQueue h = [] \<and> mtu_ok (h_mtu h)" for j h
  obtain m0 own seed where h: "h = fold enet_peer_reset [0..<k] (initial_host m0 env own seed k cl ib ob)"
    using assms by (auto simp: enet_host_create_def Let_def split: if_splits option.splits prod.splits)
  have step: "J (Suc j) (enet_peer_reset j h)" if J: "J j h" and j: "j < k" for j h
  proof -
    have r: "enet_peer_reset j h = upd_peer j clear_queues (release_queues (reset_fields (h_mtu h) (peer_at h j))
        (upd_peer j (reset_fields (h_mtu h)) h))"
      using J j by (simp add: enet_peer_reset_def enet_peer_on_disconnect_def enet_peer_reset_queues_def
        clear_needs_dispatch_def J_def reset_fields_def)
    have more: "memory.more (release_queues p h) = memory.more h" for p and h :: ENetHost
      by (simp add: mem_frame)
    note f = more_host_fields [OF more]
    have "peer_ok (clear_queues (reset_fields (h_mtu h) p))" for p
      using J by (simp add: clear_queues_def reset_fields_def peer_ok_def J_def)
    then have "peer_ok (peer_at (enet_peer_reset j h) i)" if "i < Suc j" for i
      using J j that by (cases "i = j") (simp_all add: r f J_def)
    moreover have "p_state (peer_at (enet_peer_reset j h) i) = DISCONNECTED
        \<and> p_flags (peer_at (enet_peer_reset j h) i) = 0
        \<and> p_incomingBandwidth (peer_at (enet_peer_reset j h) i) = 0" if "i < k" for i
      using J j that by (cases "i = j") (simp_all add: r f J_def clear_queues_def reset_fields_def)
    moreover have "h_channelLimit (enet_peer_reset j h) = h_channelLimit h" "h_mtu (enet_peer_reset j h) = h_mtu h"
      by (simp_all add: r f)
    ultimately show ?thesis
      using J j by (simp add: J_def r f)
  qed
  have "J j (fold enet_peer_reset [0..<j] (initial_host m0 env own seed k cl ib ob))" if "j \<le> k" for j
    using that
  proof (induction j)
    case 0
    have "0 < clamp_channelLimit cl \<and> clamp_channelLimit cl \<le> ENET_PROTOCOL_MAXIMUM_CHANNEL_COUNT"
      by (simp add: clamp_channelLimit_def)
    then show ?case
      by (simp add: J_def initial_host_def initial_peer_def peer_at_def mtu_ok_def)
  next
    case (Suc j)
    then show ?case
      by (simp add: step)
  qed
  then have "J k h"
    by (simp add: h)
  then have "\<not> counted (p_state p) \<and> peer_ok p" if "p \<in> set (h_peers h)" for p
    using that by (auto simp: J_def peer_at_def in_set_conv_nth)
  then show ?thesis
    using \<open>J k h\<close> by (auto simp: J_def host_ok_def counters_ok_def limited_def filter_False)
qed

section \<open>Reachable hosts\<close>

text \<open>
  What can happen to a host: the calls an application makes on it, its peers and its packets, the
  service with its phases, the fields an application sets, the bytes it writes to packets, and the
  environment (datagrams that arrive, the clock, calls that return as they like).  The calls that
  \<^verbatim>\<open>enet.h\<close> exports for the library itself occur inside these.  A compressor, a checksum and an intercept callback are any functions, the
  last one that leaves the host alone; of the first two so the range coder and the CRC-32.
\<close>

inductive host_step :: "ENetHost \<Rightarrow> ENetHost \<Rightarrow> bool" where
  Send: "i < length (h_peers h) \<Longrightarrow> enet_peer_send i c pk h = Some (r, h') \<Longrightarrow> host_step h h'"
| Broadcast: "enet_host_broadcast c pk h = Some h' \<Longrightarrow> host_step h h'"
| Receive: "i < length (h_peers h) \<Longrightarrow> host_step h (snd (enet_peer_receive i h))"
| Ping: "i < length (h_peers h) \<Longrightarrow> host_step h (enet_peer_ping i h)"
| PingInterval: "i < length (h_peers h) \<Longrightarrow> host_step h (upd_peer i (enet_peer_ping_interval t) h)"
| Timeout: "i < length (h_peers h) \<Longrightarrow> host_step h (upd_peer i (enet_peer_timeout l t u) h)"
| Configure: "i < length (h_peers h) \<Longrightarrow> host_step h (enet_peer_throttle_configure i t a d h)"
| Reset: "i < length (h_peers h) \<Longrightarrow> host_step h (enet_peer_reset i h)"
| Disconnect: "i < length (h_peers h) \<Longrightarrow> disconnect i d h = Some h' \<Longrightarrow> host_step h h'"
| DisconnectNow: "i < length (h_peers h) \<Longrightarrow> disconnect_now i d h = Some h' \<Longrightarrow> host_step h h'"
| DisconnectLater: "i < length (h_peers h) \<Longrightarrow> disconnect_later i d h = Some h' \<Longrightarrow> host_step h h'"
| Connect: "host_step h (snd (enet_host_connect a m d h))"
| ChannelLimit: "host_step h (enet_host_channel_limit m h)"
| BandwidthLimit: "host_step h (enet_host_bandwidth_limit ib ob h)"
| BandwidthThrottle: "host_step h (enet_host_bandwidth_throttle h)"
| CheckEvents: "host_step h (snd (snd (enet_host_check_events ev h)))"
| Flush: "enet_host_flush h = Some h' \<Longrightarrow> host_step h h'"
| Service: "observing icb \<Longrightarrow> enet_host_service icb ev t h = Some (r, ev', h') \<Longrightarrow> host_step h h'"
| Compress: "host_step h (enet_host_compress compressor h)"
| CompressRangeCoder: "host_step h (snd (enet_host_compress_with_range_coder symbols h))"
| Random: "host_step h (snd (enet_host_random h))"
| Checksum: "host_step h (h\<lparr>h_checksum := f\<rparr>)"
| Limits: "host_step h (h\<lparr>h_duplicatePeers := dp, h_maximumPacketSize := mp, h_maximumWaitingData := mw\<rparr>)"
| Totals: "host_step h (h\<lparr>h_totalSentData := sd, h_totalSentPackets := sp, h_totalReceivedData := rd, h_totalReceivedPackets := rp\<rparr>)"
| Arrival: "host_step h (h\<lparr>h_inbox := h_inbox h @ rs\<rparr>)"
| PacketCreate: "host_step h (snd (enet_packet_create d l f h))"
| PacketDestroy: "host_step h (enet_packet_destroy p h)"
| PacketResize: "host_step h (snd (enet_packet_resize p l h))"
| PacketWrite: "en_packets h p = Some pk \<Longrightarrow> host_step h (h\<lparr>en_packets := (en_packets h)(p \<mapsto> pk\<lparr>pk_data := bs\<rparr>)\<rparr>)"

inductive reachable_host :: "nat \<Rightarrow> ENetHost \<Rightarrow> bool" where
  Create: "enet_host_create env a n cl ib ob m = (Some h, s) \<Longrightarrow> reachable_host n h"
| Step: "reachable_host n h \<Longrightarrow> host_step h h' \<Longrightarrow> reachable_host n h'"

lemma host_ok_set_fields [simp]:
  "host_ok n (h\<lparr>h_compress := k, h_decompress := d\<rparr>) = host_ok n h" "host_ok n (h\<lparr>h_checksum := f\<rparr>) = host_ok n h"
  "host_ok n (h\<lparr>h_duplicatePeers := dp, h_maximumPacketSize := mp, h_maximumWaitingData := mw\<rparr>) = host_ok n h"
  "host_ok n (h\<lparr>h_totalSentData := sd, h_totalSentPackets := sp, h_totalReceivedData := rd, h_totalReceivedPackets := rp\<rparr>) = host_ok n h"
  "host_ok n (h\<lparr>en_packets := ps\<rparr>) = host_ok n h" "host_ok n (snd (enet_packet_resize p l h)) = host_ok n h"
  "host_ok n (snd (enet_host_random h)) = host_ok n h"
  by (simp_all add: host_ok_def counters_ok_def enet_packet_resize_def enet_malloc_def raise_fault_def enet_host_random_def Let_def
      split: option.split)

lemma host_ok_step:
  assumes "host_ok n h" "host_step h h'"
  shows "host_ok n h'"
  using assms(2,1)
proof (induction rule: host_step.induct)
  case (Disconnect i h d h')
  then show ?case
    using host_ok_disconnect [of n h i enet_host_flush d h'] host.flush_keeps
    by (auto simp: host_ok_length disconnect_def)
next
  case (DisconnectNow i h d h')
  then show ?case
    using host_ok_disconnect_now [of n h i enet_host_flush d h'] host.flush_keeps
    by (auto simp: host_ok_length disconnect_now_def)
next
  case (DisconnectLater i h d h')
  then show ?case
    using host_ok_disconnect_later [of n h i enet_host_flush d h'] host.flush_keeps
    by (auto simp: host_ok_length disconnect_later_def)
next
  case (CheckEvents h ev)
  then show ?case
    by (auto simp: enet_host_check_events_def host_ok_dispatch_incoming case_prod_beta split: option.split)
next
  case (Flush h h')
  then show ?case using host.flush_keeps by blast
next
  case (Service icb ev t h r ev' h')
  then show ?case using host.service_keeps by blast
next
  case (PingInterval i h t)
  then show ?case
    by (simp add: host_ok_length host_ok_tame tame_simps enet_peer_ping_interval_def)
next
  case (Timeout i h l t u)
  then show ?case
    by (simp add: host_ok_length host_ok_tame tame_simps enet_peer_timeout_def)
next
  case (ChannelLimit h m)
  then show ?case
    by (simp add: host_ok_def counters_ok_def enet_host_channel_limit_def clamp_channelLimit_def)
next
  case (Send i h c pk r h')
  then show ?case
    using host_ok_send [of n h i c pk r h'] by (simp add: host_ok_length)
next
  case (Broadcast c pk h h')
  then show ?case
    using host_ok_broadcast by simp
next
  case (Compress h compressor)
  then show ?case by (simp add: enet_host_compress_def split: option.split)
next
  case (CompressRangeCoder h symbols)
  moreover obtain r k where "enet_malloc h = (r, k)" by force
  moreover from this have "host_ok n k = host_ok n h"
    using host_ok_mem(1) [of n h] by simp
  ultimately show ?case
    by (simp add: enet_host_compress_with_range_coder_def enet_range_coder_create_def enet_host_compress_def split: option.split)
qed (simp_all add: host_ok_length host_ok_host_connect host_ok_bandwidth_throttle
    enet_host_bandwidth_limit_def
    host_ok_receive host_ok_ping host_ok_throttle_configure host_ok_reset)

lemma reachable_host_ok: "reachable_host n h \<Longrightarrow> host_ok n h"
  by (induction rule: reachable_host.induct) (auto intro: host_ok_create host_ok_step)

text \<open>A host to start from, for concrete instances.\<close>

definition plain_memory :: memory where
  "plain_memory = \<lparr>en_packets = \<lambda>_. None, en_next = 0, en_malloc = \<lambda>_. True, en_callbacks = [], en_fault = False\<rparr>"

definition plain_env :: socket_env where
  "plain_env = \<lparr>se_create = True, se_bind = True, se_hasEpoll = False, se_epollCreate = False,
     se_epollCtl = False, se_getAddress = None, se_randomSeed = 0, se_clock = \<lambda>_. 0,
     se_sendmsg = \<lambda>_. Sent 0,
     se_poll = \<lambda>_ _. \<lparr>pc_modified = True, pc_result = PollTimeout, pc_arrivals = []\<rparr>\<rparr>"

definition plain_host :: "nat \<Rightarrow> ENetHost" where
  "plain_host n = the (fst (enet_host_create plain_env None n 0 0 0 plain_memory))"

lemma plain_host_created:
  assumes "n \<le> 4095"
  shows "enet_host_create plain_env None n 0 0 0 plain_memory = (Some (plain_host n), 1)"
  using assms by (simp add: plain_host_def enet_host_create_def plain_env_def plain_memory_def
    enet_malloc_def Let_def)

lemma reachable_plain: "n \<le> 4095 \<Longrightarrow> reachable_host n (plain_host n)"
  by (rule reachable_host.Create [OF plain_host_created])

text \<open>C13: In every reachable host \<open>connectedPeers\<close> is the number of peers in state \<open>CONNECTED\<close> or
  \<open>DISCONNECT_LATER\<close>, and \<open>bandwidthLimitedPeers\<close> the number of those that announced a limited
  incoming bandwidth: no datagram and no call of the application makes them drift.\<close>

theorem counters_agree:
  assumes "reachable_host n h"
  shows "h_connectedPeers h = of_nat (length (filter (\<lambda>p. counted (p_state p)) (h_peers h)))
    \<and> h_bandwidthLimitedPeers h = of_nat (length
        (filter (\<lambda>p. counted (p_state p) \<and> p_incomingBandwidth p \<noteq> 0) (h_peers h)))"
  using reachable_host_ok [OF assms] by (simp add: host_ok_def counters_ok_def limited_def [abs_def])

theorem counters_agree_witness:
  "h_connectedPeers (snd (enet_host_connect zero_address 2 7 (plain_host 3)))
     = of_nat (length (filter (\<lambda>p. counted (p_state p))
         (h_peers (snd (enet_host_connect zero_address 2 7 (plain_host 3))))))"
  using counters_agree [OF reachable_host.Step [OF reachable_plain [of 3] host_step.Connect]] by simp

text \<open>C27: In every reachable host each peer's window size lies between the protocol's minimum and
  maximum, its packet throttle does not exceed its limit, and its channel count stays within the
  channels allocated for it, of which there are at most 255, so that the checks of channel numbers
  against \<open>channelCount\<close> keep every access inside the array.\<close>

theorem reachable_peers_well_formed:
  assumes "reachable_host n h" "p \<in> set (h_peers h)"
  shows "ENET_PROTOCOL_MINIMUM_WINDOW_SIZE \<le> p_windowSize p
    \<and> p_windowSize p \<le> ENET_PROTOCOL_MAXIMUM_WINDOW_SIZE
    \<and> p_packetThrottle p \<le> p_packetThrottleLimit p
    \<and> p_channelCount p \<le> length (p_channels p)
    \<and> length (p_channels p) \<le> ENET_PROTOCOL_MAXIMUM_CHANNEL_COUNT"
  using reachable_host_ok [OF assms(1)] assms(2) by (auto simp: host_ok_def peer_ok_def)

theorem reachable_peers_well_formed_witness:
  "p_windowSize (h_peers (plain_host 2) ! 1) \<le> ENET_PROTOCOL_MAXIMUM_WINDOW_SIZE"
proof -
  have "h_peers (plain_host 2) ! 1 \<in> set (h_peers (plain_host 2))"
    using host_ok_length [OF reachable_host_ok [OF reachable_plain [of 2]]] by simp
  then show ?thesis
    using reachable_peers_well_formed [OF reachable_plain [of 2]] by simp
qed

end
