(* ===== verification/Enet_Datagrams.thy ===== *)
theory Enet_Datagrams
  imports Enet_Reachable
begin

text \<open>
  The datagrams the send path writes: they fit the peer's mtu, and what a receiver reads in
  them is what the sender put in.
\<close>

section \<open>What the other operations leave of a datagram\<close>

text \<open>The fields the send path builds a datagram in, and those it reads besides the peer.\<close>

definition send_view :: "ENetHost \<Rightarrow> ENetProtocol list \<times> ENetBuffer list \<times> u64 \<times> u16
    \<times> (ENetAddress \<times> u8 list) list \<times> u32 \<times> (u8 list \<Rightarrow> u32) option
    \<times> (u8 list list \<Rightarrow> u64 \<Rightarrow> u64 \<Rightarrow> u8 list option) option \<times> (nat \<Rightarrow> sendmsg_result)" where
  "send_view h = (h_commands h, h_buffers h, h_packetSize h, h_headerFlags h, h_outbox h, h_serviceTime h,
     h_checksum h, h_compress h, h_sendmsg h)"

named_theorems view

lemma send_view_upd [view]: "send_view (upd_peer i f h) = send_view h"
  by (simp add: send_view_def upd_peer_def)

lemma send_view_more: "memory.more h' = memory.more (h :: ENetHost) \<Longrightarrow> send_view h' = send_view h"
  by (cases h; cases h') (simp add: send_view_def)

lemma send_view_mem [view]:
  "send_view (snd (enet_malloc h)) = send_view h" "send_view (raise_fault h) = send_view h"
  "send_view (packet_addref k q h) = send_view h" "send_view (release_queues p h) = send_view h"
  "send_view (release_sent ocs h) = send_view h"
  by (rule send_view_more, simp add: mem_frame)+

lemma send_view_fields [view]:
  "send_view (h\<lparr>h_totalQueued := a\<rparr>) = send_view h" "send_view (h\<lparr>h_dispatchQueue := q\<rparr>) = send_view h"
  "send_view (h\<lparr>h_connectedPeers := c\<rparr>) = send_view h" "send_view (h\<lparr>h_bandwidthLimitedPeers := c\<rparr>) = send_view h"
  by (simp_all add: send_view_def)

lemma send_view_dispatch [view]:
  "send_view (dispatch_insert i h) = send_view h" "send_view (dispatch_remove i h) = send_view h"
  "send_view (needs_dispatch i h) = send_view h" "send_view (clear_needs_dispatch i h) = send_view h"
  by (simp_all add: dispatch_insert_def dispatch_remove_def needs_dispatch_def clear_needs_dispatch_def view)

lemma send_view_connection [view]:
  "send_view (enet_peer_on_connect i h) = send_view h" "send_view (enet_peer_on_disconnect i h) = send_view h"
  "send_view (enet_protocol_change_state i s h) = send_view h"
  "send_view (enet_protocol_dispatch_state i s h) = send_view h"
  by (simp_all add: enet_peer_on_connect_def enet_peer_on_disconnect_def enet_protocol_change_state_def
      enet_protocol_dispatch_state_def Let_def view)

lemma send_view_queue [view]:
  "send_view (enet_peer_setup_outgoing_command i oc h) = send_view h"
  "send_view (snd (enet_peer_queue_outgoing_command i c pk off len h)) = send_view h"
  "send_view (enet_peer_ping i h) = send_view h" "send_view (enet_peer_reset_queues i h) = send_view h"
proof -
  show set_up: "send_view (enet_peer_setup_outgoing_command i oc h) = send_view h" for oc h
    by (simp add: enet_peer_setup_outgoing_command_def Let_def view)
  show queue: "send_view (snd (enet_peer_queue_outgoing_command i c pk off len h)) = send_view h" for c pk off len
    using send_view_mem(1) [of h]
    by (auto simp: enet_peer_queue_outgoing_command_def set_up view simp del: send_view_mem(1)
      split: option.split prod.split)
  show "send_view (enet_peer_ping i h) = send_view h"
    by (simp add: enet_peer_ping_def queue)
  show "send_view (enet_peer_reset_queues i h) = send_view h"
    by (simp add: enet_peer_reset_queues_def Let_def view)
qed

text \<open>A delayed disconnection leaves the datagram and the peer's mtu.\<close>

lemma send_view_disconnect_delayed:
  assumes "p_state (peer_at h i) = DISCONNECT_LATER"
  shows "send_view (disconnect_delayed i d h) = send_view h"
  by (simp add: disconnect_delayed_eq [OF assms] view)

text \<open>
  The mtu of a peer and what names it in a datagram are set when it connects and when it is
  reset, nowhere else.
\<close>

definition peer_ids :: "ENetPeer \<Rightarrow> u32 \<times> u16 \<times> u8 \<times> u32 \<times> ENetAddress" where
  "peer_ids p = (p_mtu p, p_outgoingPeerID p, p_outgoingSessionID p, p_connectID p, p_address p)"

named_theorems ids

lemma peer_ids_fields [simp]:
  "peer_ids (p\<lparr>p_channelCount := n\<rparr>) = peer_ids p"
  "peer_ids (p\<lparr>p_state := a0\<rparr>) = peer_ids p"
  "peer_ids (p\<lparr>p_flags := a1\<rparr>) = peer_ids p"
  "peer_ids (p\<lparr>p_eventData := a2\<rparr>) = peer_ids p"
  "peer_ids (p\<lparr>p_channels := a3\<rparr>) = peer_ids p"
  "peer_ids (p\<lparr>p_outgoingReliableSequenceNumber := a4\<rparr>) = peer_ids p"
  "peer_ids (p\<lparr>p_outgoingUnsequencedGroup := a5\<rparr>) = peer_ids p"
  "peer_ids (p\<lparr>p_outgoingDataTotal := a6\<rparr>) = peer_ids p"
  "peer_ids (p\<lparr>p_outgoingCommands := a7\<rparr>) = peer_ids p"
  "peer_ids (p\<lparr>p_outgoingSendReliableCommands := a8\<rparr>) = peer_ids p"
  "peer_ids (p\<lparr>p_sentReliableCommands := a9\<rparr>) = peer_ids p"
  "peer_ids (p\<lparr>p_dispatchedCommands := a10\<rparr>) = peer_ids p"
  "peer_ids (p\<lparr>p_acknowledgements := a11\<rparr>) = peer_ids p"
  "peer_ids (p\<lparr>p_nextTimeout := a12\<rparr>) = peer_ids p"
  "peer_ids (p\<lparr>p_earliestTimeout := a13\<rparr>) = peer_ids p"
  "peer_ids (p\<lparr>p_packetsLost := a14\<rparr>) = peer_ids p"
  "peer_ids (p\<lparr>p_packetsSent := a15\<rparr>) = peer_ids p"
  "peer_ids (p\<lparr>p_reliableDataInTransit := a16\<rparr>) = peer_ids p"
  "peer_ids (p\<lparr>p_packetThrottleCounter := a17\<rparr>) = peer_ids p"
  "peer_ids (p\<lparr>p_lastSendTime := a18\<rparr>) = peer_ids p"
  "peer_ids (p\<lparr>p_packetLoss := a19\<rparr>) = peer_ids p"
  "peer_ids (p\<lparr>p_packetLossVariance := a20\<rparr>) = peer_ids p"
  "peer_ids (p\<lparr>p_packetLossEpoch := a21\<rparr>) = peer_ids p"
  by (simp_all add: peer_ids_def)

lemma peer_ids_mtu: "peer_ids p = e \<Longrightarrow> p_mtu p = fst e"
  by (auto simp: peer_ids_def)

lemma ids_upd:
  "(\<And>p. peer_ids (f p) = peer_ids p) \<Longrightarrow> peer_ids (peer_at (upd_peer i f h) j) = peer_ids (peer_at h j)"
  by (cases "i = j"; cases "i < length (h_peers h)") (simp_all add: peer_at_def upd_peer_def list_update_beyond)

lemma ids_number: "peer_ids (snd (number_outgoing_command oc p)) = peer_ids p"
  by (simp add: number_outgoing_command_def Let_def upd_channel_def peer_ids_def)

lemma ids_setup [ids]: "peer_ids (peer_at (enet_peer_setup_outgoing_command i oc h) j) = peer_ids (peer_at h j)"
proof -
  have "peer_ids (setup_outgoing_command q oc p) = peer_ids p" for q p
    by (simp add: setup_outgoing_command_def Let_def case_prod_beta ids_number)
  then show ?thesis
    by (auto simp: enet_peer_setup_outgoing_command_def Let_def intro!: ids_upd [THEN trans])
qed

lemma ids_queue [ids]:
  "peer_ids (peer_at (snd (enet_peer_queue_outgoing_command i c pk off len h)) j) = peer_ids (peer_at h j)"
  using peer_at_mem(1) [of h j]
  by (auto simp: enet_peer_queue_outgoing_command_def ids simp del: peer_at_mem(1) split: option.split prod.split)

lemma ids_dispatch [ids]:
  "peer_ids (peer_at (needs_dispatch i h) j) = peer_ids (peer_at h j)"
  "peer_ids (peer_at (clear_needs_dispatch i h) j) = peer_ids (peer_at h j)"
  by (auto simp: needs_dispatch_def clear_needs_dispatch_def intro!: ids_upd [THEN trans])

lemma ids_state [ids]:
  "peer_ids (peer_at (enet_protocol_dispatch_state i s h) j) = peer_ids (peer_at h j)"
  by (auto simp: enet_protocol_dispatch_state_def enet_protocol_change_state_def ids intro!: ids_upd [THEN trans])

lemma ids_ping [ids]: "peer_ids (peer_at (enet_peer_ping i h) j) = peer_ids (peer_at h j)"
  by (simp add: enet_peer_ping_def ids)

lemma ids_reset_queues [ids]: "peer_ids (peer_at (enet_peer_reset_queues i h) j) = peer_ids (peer_at h j)"
  by (auto simp: enet_peer_reset_queues_def Let_def clear_queues_def ids intro!: ids_upd [THEN trans])

lemma ids_disconnect_delayed:
  assumes "p_state (peer_at h i) = DISCONNECT_LATER"
  shows "peer_ids (peer_at (disconnect_delayed i d h) j) = peer_ids (peer_at h j)"
  by (auto simp: disconnect_delayed_eq [OF assms] ids intro!: ids_upd [THEN trans])

section \<open>What a datagram under construction holds\<close>

text \<open>
  A part is a command with, where it carries data, the packet, the offset and the length its
  second buffer points to.
\<close>

type_synonym part = "ENetProtocol \<times> (nat \<times> u32 \<times> nat) option"

definition part_length :: "part \<Rightarrow> nat" where
  "part_length part = (case snd part of None \<Rightarrow> 0 | Some (packet, offset, len) \<Rightarrow> len)"

definition part_size :: "part \<Rightarrow> nat" where
  "part_size part = enet_protocol_command_size (hd_command (fst part)) + part_length part"

definition part_ok :: "part \<Rightarrow> bool" where
  "part_ok part \<longleftrightarrow> wf_command (fst part) \<and> part_length part = payload_length (pr_body (fst part))"

definition one_part_buffers :: "nat \<Rightarrow> part \<Rightarrow> ENetBuffer list" where
  "one_part_buffers k part = CommandBuffer k (enet_protocol_command_size (hd_command (fst part)))
     # (case snd part of None \<Rightarrow> [] | Some (packet, offset, len) \<Rightarrow> [PacketBuffer packet offset len])"

fun part_buffers :: "nat \<Rightarrow> part list \<Rightarrow> ENetBuffer list" where
  "part_buffers k [] = []"
| "part_buffers k (part # parts) = one_part_buffers k part @ part_buffers (Suc k) parts"

definition parts_size :: "part list \<Rightarrow> nat" where
  "parts_size parts = sum_list (map part_size parts)"

lemma part_buffers_append:
  "part_buffers k (ps @ qs) = part_buffers k ps @ part_buffers (k + length ps) qs"
  by (induction ps arbitrary: k) simp_all

text \<open>The header says when it was sent where a command asks for an acknowledgement.\<close>

definition sent_flags :: "ENetProtocol list \<Rightarrow> u16" where
  "sent_flags cs = (if list_ex (\<lambda>c. has_flag (hd_command c) ENET_PROTOCOL_COMMAND_FLAG_ACKNOWLEDGE) cs
     then ENET_PROTOCOL_HEADER_FLAG_SENT_TIME else 0)"

lemma sent_flags_add:
  "sent_flags (cs @ [c]) = (if has_flag (hd_command c) ENET_PROTOCOL_COMMAND_FLAG_ACKNOWLEDGE
     then set_flag (sent_flags cs) ENET_PROTOCOL_HEADER_FLAG_SENT_TIME else sent_flags cs)"
  by (simp add: sent_flags_def set_flag_def)

text \<open>
  The commands and buffers are those of the parts, \<open>packetSize\<close> counts them and the full
  header, everything is within the mtu \<open>m\<close> and within the arrays of the host.
\<close>

definition holds_parts :: "u32 \<Rightarrow> part list \<Rightarrow> ENetHost \<Rightarrow> bool" where
  "holds_parts m parts h \<longleftrightarrow>
     list_all part_ok parts \<and> h_commands h = map fst parts \<and> h_buffers h = part_buffers 0 parts
     \<and> h_headerFlags h = sent_flags (h_commands h)
     \<and> unat (h_packetSize h) = sizeof_ENetProtocolHeader + parts_size parts
     \<and> unat (h_packetSize h) \<le> unat m
     \<and> length (h_commands h) \<le> ENET_PROTOCOL_MAXIMUM_PACKET_COMMANDS
     \<and> 1 + length (h_buffers h) \<le> ENET_BUFFER_MAXIMUM"

definition datagram_ok :: "u32 \<Rightarrow> ENetHost \<Rightarrow> bool" where
  "datagram_ok m h \<longleftrightarrow> (\<exists>parts. holds_parts m parts h)"

lemma datagram_ok_view:
  assumes "send_view h' = send_view h"
  shows "datagram_ok m h' = datagram_ok m h"
  using assms by (simp add: datagram_ok_def holds_parts_def send_view_def)

lemma holds_parts_add:
  assumes "holds_parts m parts h" "part_ok part"
    and "h_commands h' = h_commands h @ [fst part]"
    and "h_headerFlags h' = (if has_flag (hd_command (fst part)) ENET_PROTOCOL_COMMAND_FLAG_ACKNOWLEDGE
      then set_flag (h_headerFlags h) ENET_PROTOCOL_HEADER_FLAG_SENT_TIME else h_headerFlags h)"
    and "h_buffers h' = h_buffers h @ one_part_buffers (length (h_commands h)) part"
    and "unat (h_packetSize h') = unat (h_packetSize h) + part_size part"
    and "unat (h_packetSize h') \<le> unat m"
    and "length (h_commands h') \<le> ENET_PROTOCOL_MAXIMUM_PACKET_COMMANDS"
    and "1 + length (h_buffers h') \<le> ENET_BUFFER_MAXIMUM"
  shows "holds_parts m (parts @ [part]) h'"
  using assms unfolding holds_parts_def
  by (simp add: part_buffers_append parts_size_def sent_flags_add)

text \<open>The room left, on \<open>size_t\<close>.\<close>

lemma unat_room:
  assumes "unat s \<le> unat m"
  shows "unat (ucast (m :: u32) - s :: u64) = unat m - unat s"
  using assms by (simp add: unat_minus_cases unat_ucast_up word_le_nat_alt)

lemma unat_grow:
  assumes "unat (s :: u64) + k \<le> 4096"
  shows "unat (s + of_nat k) = unat s + k"
  using assms by (simp add: unat_word_ariths(1) unat_of_nat_small)

lemma unat_ucast_u16: "unat (ucast (w :: u16) :: u64) = unat w"
proof -
  have "unat w < 2 ^ 64"
    using unsigned_less [of w, where ?'a = nat] by simp
  then show ?thesis
    by (simp add: unsigned_ucast_eq take_bit_nat_eq_self)
qed

lemma mtu_ok_unat: "mtu_ok m \<Longrightarrow> unat m \<le> 4096"
  by (simp add: mtu_ok_def word_le_nat_alt)

lemma command_size_le: "wf_command c \<Longrightarrow> enet_protocol_command_size (hd_command c) \<le> 48"
proof -
  assume "wf_command c"
  then have "enet_protocol_command_size (hd_command c) = commandSizes ! unat (body_number (pr_body c))"
    by (simp add: enet_protocol_command_size_def wf_command_def command_number_def)
  then show ?thesis
    by (cases "pr_body c") (simp_all add: commandSizes_def)
qed

lemma datagram_ok_acknowledge:
  assumes "datagram_ok (p_mtu (peer_at h i)) h" "mtu_ok (p_mtu (peer_at h i))" "\<not> no_room_for_acknowledgement i h"
  shows "datagram_ok (p_mtu (peer_at h i)) (put_command sizeof_ENetProtocolAcknowledge (acknowledge_reply a) h)"
proof -
  let ?m = "p_mtu (peer_at h i)" and ?c = "acknowledge_reply a"
  obtain parts where parts: "holds_parts ?m parts h"
    using assms(1) by (auto simp: datagram_ok_def)
  have fits: "unat (h_packetSize h) \<le> unat ?m"
    using parts by (simp add: holds_parts_def)
  have room: "unat (h_packetSize h) + 8 \<le> unat ?m"
    using assms(3) fits
    by (auto simp: no_room_for_acknowledgement_def datagram_room_def not_less word_le_nat_alt unat_room)
  have size: "unat (h_packetSize h + 8) = unat (h_packetSize h) + 8"
    using unat_grow [of "h_packetSize h" 8] room mtu_ok_unat [OF assms(2)] by simp
  have c: "wf_command ?c" "payload_length (pr_body ?c) = 0" "enet_protocol_command_size (hd_command ?c) = 8"
    "\<not> has_flag (hd_command ?c) ENET_PROTOCOL_COMMAND_FLAG_ACKNOWLEDGE"
    by (simp_all add: acknowledge_reply_def Let_def wf_command_def command_number_def has_flag_def
        enet_protocol_command_size_def commandSizes_def)
  have "holds_parts ?m (parts @ [(?c, None)]) (put_command sizeof_ENetProtocolAcknowledge ?c h)"
    by (rule holds_parts_add [OF parts]) (use assms(3) room in
      \<open>auto simp: put_command_def part_ok_def part_length_def part_size_def one_part_buffers_def c size
        no_room_for_acknowledgement_def\<close>)
  then show ?thesis
    by (auto simp: datagram_ok_def)
qed

lemma datagram_ok_put_outgoing:
  assumes "datagram_ok m h"
    and host: "os_host s = h\<lparr>h_headerFlags := (if acknowledged oc
      then set_flag (h_headerFlags h) ENET_PROTOCOL_HEADER_FLAG_SENT_TIME else h_headerFlags h)\<rparr>"
    and "p_mtu (os_peer s) = m" "mtu_ok m" "oc_ok oc" "\<not> no_room_for_command oc s"
  shows "datagram_ok m (os_host (put_outgoing oc s))"
proof -
  let h = "h" and ?c = "oc_command oc"
  let ?k = "enet_protocol_command_size (hd_command ?c)" and ?l = "unat (oc_fragmentLength oc)"
  obtain parts where parts: "holds_parts m parts h"
    using assms(1) by (auto simp: datagram_ok_def)
  have fits: "unat (h_packetSize h) \<le> unat m" and m: "unat m \<le> 4096"
    using parts mtu_ok_unat [OF assms(4)] by (simp_all add: holds_parts_def)
  have c: "wf_command ?c" "payload_length (pr_body ?c) = ?l" "?l \<le> 4096" "?k \<le> 48"
    using assms(5) command_size_le by (auto simp: oc_ok_def)
  have none: "?l = 0" if "oc_packet oc = None"
    using assms(5) that by (simp add: oc_ok_def)
  let ?room = "ucast m - h_packetSize h :: u64"
  have r: "unat ?room = unat m - unat (h_packetSize h)"
    by (rule unat_room [OF fits])
  have k: "?k \<le> unat ?room"
    using assms(3,6) c(4)
    by (simp add: no_room_for_command_def host Let_def not_less word_le_nat_alt unat_of_nat_small)
  have l: "?k + ?l \<le> unat ?room"
  proof (cases "oc_packet oc = None")
    case True
    then show ?thesis using k none by simp
  next
    case False
    have "unat (of_nat ?k + ucast (oc_fragmentLength oc) :: u64) = ?k + ?l"
      using c(3,4) by (simp add: unat_word_ariths(1) unat_of_nat_small unat_ucast_u16)
    then have "unat (ucast (of_nat ?k + ucast (oc_fragmentLength oc) :: u64) :: u16) = ?k + ?l"
      using c(3,4) by (simp add: unsigned_ucast_eq take_bit_nat_eq_self)
    moreover have "unat (ucast ?room :: u16) = unat ?room"
      using r m by (simp add: unsigned_ucast_eq take_bit_nat_eq_self)
    ultimately show ?thesis
      using assms(3,6) False by (simp add: no_room_for_command_def host Let_def not_less word_le_nat_alt)
  qed
  have grow: "unat (h_packetSize h + of_nat ?k) = unat (h_packetSize h) + ?k"
    using l r m fits by (intro unat_grow) simp
  have "unat (h_packetSize h + of_nat ?k + of_nat ?l) = unat (h_packetSize h + of_nat ?k) + ?l"
    using l r m fits by (intro unat_grow) (simp add: grow)
  then have grow_both: "unat (h_packetSize h + of_nat ?k + ucast (oc_fragmentLength oc)) = unat (h_packetSize h) + ?k + ?l"
    by (simp add: grow)
  let ?part = "(?c, map_option (\<lambda>packet. (packet, oc_fragmentOffset oc, ?l)) (oc_packet oc))"
  have "holds_parts m (parts @ [?part]) (os_host (put_outgoing oc s))"
  proof (rule holds_parts_add [OF parts])
    show "part_ok ?part"
      using c none by (cases "oc_packet oc") (simp_all add: part_ok_def part_length_def)
    show "unat (h_packetSize (os_host (put_outgoing oc s))) = unat (h_packetSize h) + part_size ?part"
      "unat (h_packetSize (os_host (put_outgoing oc s))) \<le> unat m"
      using grow grow_both l r fits none
      by (cases "oc_packet oc"; simp add: put_outgoing_def put_command_def host Let_def part_size_def part_length_def)+
  qed (use assms(6) in \<open>auto simp: put_outgoing_def put_command_def host Let_def one_part_buffers_def
      no_room_for_command_def acknowledged_def split: option.split\<close>)
  then show ?thesis
    by (auto simp: datagram_ok_def)
qed

section \<open>Every step of the send path keeps it\<close>

text \<open>The datagram, and what the peer puts in it.\<close>

definition fits_peer :: "u32 \<times> u16 \<times> u8 \<times> u32 \<times> ENetAddress \<Rightarrow> nat \<Rightarrow> ENetHost \<Rightarrow> bool" where
  "fits_peer e i h \<longleftrightarrow> datagram_ok (fst e) h \<and> peer_ids (peer_at h i) = e"

lemma fits_peer_view:
  "send_view h' = send_view h \<Longrightarrow> peer_ids (peer_at h' i) = peer_ids (peer_at h i) \<Longrightarrow> fits_peer e i h' = fits_peer e i h"
  using datagram_ok_view [of h' h "fst e"] by (simp add: fits_peer_def)

lemma fits_peer_upd:
  assumes "\<And>p. peer_ids (f p) = peer_ids p"
  shows "fits_peer e i (upd_peer j f h) = fits_peer e i h"
  using ids_upd [of f j h i] assms
  by (intro fits_peer_view [OF send_view_upd]) blast

lemma fits_peer_acknowledgements:
  assumes "mtu_ok (fst e)" "fits_peer e i h"
  shows "fits_peer e i (enet_protocol_send_acknowledgements i h)"
proof -
  have "fits_peer e i (acknowledgements_loop i as h)" for as
    using assms(2)
  proof (induction as arbitrary: h)
    case (Cons a as)
    define h1 where "h1 = put_command sizeof_ENetProtocolAcknowledge (acknowledge_reply a) h"
    define h2 where "h2 = (if command_number (ack_command a) = ENET_PROTOCOL_COMMAND_DISCONNECT
      then enet_protocol_dispatch_state i ZOMBIE h1 else h1)"
    have "fits_peer e i h1" if "\<not> no_room_for_acknowledgement i h"
    proof -
      have "peer_ids (peer_at h1 i) = peer_ids (peer_at h i)"
        by (simp add: h1_def put_command_def peer_at_def)
      then show ?thesis
        using datagram_ok_acknowledge [of h i a, folded h1_def] that Cons(2) assms(1)
          peer_ids_mtu [of "peer_at h i" e] by (simp add: fits_peer_def)
    qed
    moreover have "fits_peer e i h2 = fits_peer e i h1"
      by (rule fits_peer_view) (simp_all add: h2_def view ids)
    ultimately have h2: "fits_peer e i h2" if "\<not> no_room_for_acknowledgement i h"
      using that by simp
    have upd: "fits_peer e i (upd_peer i (\<lambda>p. p\<lparr>p_acknowledgements := as\<rparr>) h2) = fits_peer e i h2"
      "fits_peer e i (upd_peer i (\<lambda>p. p\<lparr>p_flags := set_flag (p_flags p) ENET_PEER_FLAG_CONTINUE_SENDING\<rparr>) h) = fits_peer e i h"
      by (simp_all add: fits_peer_upd)
    have step: "acknowledgements_loop i (a # as) h = (if no_room_for_acknowledgement i h then
        upd_peer i (\<lambda>p. p\<lparr>p_flags := set_flag (p_flags p) ENET_PEER_FLAG_CONTINUE_SENDING\<rparr>) h
      else acknowledgements_loop i as (upd_peer i (\<lambda>p. p\<lparr>p_acknowledgements := as\<rparr>) h2))"
      by (simp only: acknowledgements_loop.simps Let_def h1_def [symmetric] h2_def [symmetric])
    show ?case
      unfolding step using Cons(1) h2 Cons(2) by (simp add: upd)
  qed simp
  then show ?thesis
    by (simp add: enet_protocol_send_acknowledgements_def)
qed

definition sending_fits :: "u32 \<times> u16 \<times> u8 \<times> u32 \<times> ENetAddress \<Rightarrow> nat \<Rightarrow> nat \<Rightarrow> outgoing_state \<Rightarrow> bool" where
  "sending_fits e n i s \<longleftrightarrow> sending_ok n i s \<and> datagram_ok (fst e) (os_host s) \<and> peer_ids (os_peer s) = e"

lemma outgoing_step_fits:
  assumes "sending_fits e n i s" "mtu_ok (fst e)" "oc_ok oc" "outgoing_step reliable oc s = (goes, s')"
    and "reliable \<or> unpacked oc"
  shows "sending_fits e n i s'"
proof -
  have p: "peer_ids (record_sent_reliable now oc p) = peer_ids p" "peer_ids (count_throttle p) = peer_ids p" for now p
    by (simp_all add: record_sent_reliable_def count_throttle_def Let_def upd_channel_def split: option.split)
  have rec_mtu: "p_mtu (record_sent_reliable now oc p) = p_mtu p" for now p
    using peer_ids_mtu [OF p(1)] by (simp add: peer_ids_def)
  have put: "peer_ids (os_peer (put_outgoing oc s)) = peer_ids (os_peer s)" for s
    by (simp add: put_outgoing_def Let_def)
  have room: "no_room_for_command oc (s\<lparr>os_canPing := c, os_peer := q, os_host := (os_host s)\<lparr>h_headerFlags := k\<rparr>\<rparr>)
      = no_room_for_command oc s"
    "no_room_for_command oc (s\<lparr>os_peer := q, os_sentUnreliable := u\<rparr>) = no_room_for_command oc s"
    if "peer_ids q = peer_ids (os_peer s)" for c q k u
    using peer_ids_mtu [OF that] by (simp_all add: no_room_for_command_def Let_def peer_ids_def)
  have s: "datagram_ok (fst e) (os_host s)" "peer_ids (os_peer s) = e" "p_mtu (os_peer s) = fst e"
    using assms(1) peer_ids_mtu by (auto simp: sending_fits_def)
  have "datagram_ok (fst e) (os_host s') \<and> peer_ids (os_peer s') = e"
    using assms(4)
  proof (cases rule: outgoing_step_cases)
    case (dropped rest h)
    have "memory.more h = memory.more (os_host s)"
      using arg_cong [OF dropped(5), of "\<lambda>x. memory.more (snd x)"] by (simp add: mem_frame)
    then show ?thesis
      using s dropped(6) datagram_ok_view [OF send_view_more, of h "os_host s"] by (simp add: p)
  next
    case reliable
    show ?thesis
      unfolding reliable(5)
      by (intro conjI datagram_ok_put_outgoing [OF s(1)]) (use s assms(2,3) reliable(2,4) in
        \<open>simp_all add: put p rec_mtu room\<close>)
  next
    case (unreliable q)
    have q: "peer_ids q = e"
      using unreliable(4) s by (auto simp: p)
    then show ?thesis
      unfolding unreliable(5)
      by (intro conjI datagram_ok_put_outgoing [OF s(1)]) (use s assms(2,3) unreliable(2,3) q peer_ids_mtu [OF q] in
        \<open>simp_all add: put room\<close>)
  qed (use s in \<open>simp_all add: keep_command_def skip_reliable_def\<close>)
  then show ?thesis
    using assms(1) outgoing_step_ok [OF _ assms(3-5)] by (simp add: sending_fits_def)
qed

lemma fits_peer_check_outgoing:
  assumes "host_ok n h" "i < n" "mtu_ok (fst e)" "fits_peer e i h"
  shows "fits_peer e i (snd (snd (enet_protocol_check_outgoing_commands i sent h)))"
proof -
  let ?s = "\<lparr>os_host = h, os_peer = peer_at h i, os_sentUnreliable = sent, os_windowWrap = False,
      os_canPing = True, os_passed = [], os_ahead = p_outgoingCommands (peer_at h i),
      os_passedReliable = [], os_aheadReliable = p_outgoingSendReliableCommands (peer_at h i)\<rparr>"
  define s where "s = outgoing_loop ?s"
  have "sending_fits e n i s"
    unfolding s_def
  proof (rule outgoing_loop_invariant [where P = "sending_fits e n i"])
    show "sending_fits e n i ?s"
      using assms peer_ok_at [OF assms(1,2)]
      by (auto simp: sending_fits_def sending_ok_def fits_peer_def peer_ok_def)
    show "sending_fits e n i s'" if "sending_fits e n i s"
        "next_outgoing (os_ahead s) (os_aheadReliable s) = Some (reliable, oc, cs, rs)"
        "outgoing_step reliable oc (s\<lparr>os_ahead := cs, os_aheadReliable := rs\<rparr>) = (goes, s')" for s reliable oc cs rs goes s'
      using that(1) next_outgoing_ok [OF _ that(2)] assms(3)
      by (intro outgoing_step_fits [OF _ _ _ that(3)]) (auto simp: sending_fits_def)
  qed
  then have s: "sending_ok n i s" "datagram_ok (fst e) (os_host s)" "peer_ids (os_peer s) = e"
    by (simp_all add: sending_fits_def)
  let ?h = "upd_peer i (\<lambda>_. (os_peer s)\<lparr>p_outgoingCommands := os_passed s @ os_ahead s,
      p_outgoingSendReliableCommands := os_passedReliable s @ os_aheadReliable s\<rparr>) (os_host s)"
  have "i < length (h_peers (os_host s))"
    using s(1) assms(2) host_ok_length [of n "os_host s"] by (simp add: sending_ok_def)
  then have h: "fits_peer e i ?h"
    using s(2,3) datagram_ok_view [OF send_view_upd] by (simp add: fits_peer_def)
  have "fits_peer e i (disconnect_delayed i d ?h) = fits_peer e i ?h" if "p_state (peer_at ?h i) = DISCONNECT_LATER" for d
    by (rule fits_peer_view [OF send_view_disconnect_delayed [OF that] ids_disconnect_delayed [OF that]])
  then show ?thesis
    using h by (simp add: enet_protocol_check_outgoing_commands_def Let_def s_def [symmetric])
qed

lemma fits_peer_fill:
  assumes "host_ok n h" "i < n" "mtu_ok (fst e)" "fits_peer e i h"
  shows "fits_peer e i (snd (fill_datagram i sent h))"
proof -
  have ping: "fits_peer e i (enet_peer_ping i h) = fits_peer e i h" for h
    by (rule fits_peer_view) (simp_all add: view ids)
  show ?thesis
    using assms fits_peer_check_outgoing [OF assms, of sent] host_ok_check_outgoing [OF assms(1,2), of sent]
      fits_peer_check_outgoing [OF host_ok_ping _ assms(3)] 
    by (simp add: fill_datagram_def Let_def case_prod_beta ping)
qed

lemma fits_peer_begin:
  assumes "mtu_ok (p_mtu (peer_at h i))"
  shows "fits_peer (peer_ids (peer_at h i)) i (begin_datagram i h)"
proof -
  have "holds_parts (p_mtu (peer_at h i)) [] (begin_datagram i h)"
    using assms by (simp add: holds_parts_def begin_datagram_def parts_size_def sent_flags_def mtu_ok_def word_le_nat_alt)
  moreover have "peer_ids (peer_at (begin_datagram i h) i) = peer_ids (peer_at h i)"
    using ids_upd [of "\<lambda>p. p\<lparr>p_flags := clear_flag (p_flags p) ENET_PEER_FLAG_CONTINUE_SENDING\<rparr>" i h i]
    by (simp add: begin_datagram_def peer_at_def)
  ultimately show ?thesis
    by (auto simp: fits_peer_def datagram_ok_def peer_ids_def)
qed

section \<open>The socket before a datagram is sent\<close>

text \<open>What has been sent so far and what the header is made with: no step before the last changes it.\<close>

definition net_view :: "ENetHost \<Rightarrow> (ENetAddress \<times> u8 list) list \<times> u32 \<times> (u8 list \<Rightarrow> u32) option
    \<times> (u8 list list \<Rightarrow> u64 \<Rightarrow> u64 \<Rightarrow> u8 list option) option" where
  "net_view h = (h_outbox h, h_serviceTime h, h_checksum h, h_compress h)"

named_theorems net

lemma net_view_send: "send_view h' = send_view h \<Longrightarrow> net_view h' = net_view h"
  by (simp add: send_view_def net_view_def)

lemma net_view_upd [net]: "net_view (upd_peer i f h) = net_view h"
  by (simp add: net_view_def upd_peer_def)

lemma net_view_fields [net]:
  "net_view (h\<lparr>h_commands := cs\<rparr>) = net_view h" "net_view (h\<lparr>h_buffers := bs\<rparr>) = net_view h"
  "net_view (h\<lparr>h_packetSize := k\<rparr>) = net_view h" "net_view (h\<lparr>h_headerFlags := f\<rparr>) = net_view h"
  "net_view (h\<lparr>h_recalculateBandwidthLimits := b\<rparr>) = net_view h"
  by (simp_all add: net_view_def)

lemma net_view_begin [net]: "net_view (begin_datagram i h) = net_view h"
  by (simp add: begin_datagram_def net)

lemma net_view_put [net]: "net_view (put_command k c h) = net_view h"
  by (simp add: put_command_def net)

lemma net_view_acknowledgements [net]: "net_view (enet_protocol_send_acknowledgements i h) = net_view h"
proof -
  have state: "net_view (enet_protocol_dispatch_state j s h) = net_view h" for j s h
    by (rule net_view_send) (simp add: view)
  have "net_view (acknowledgements_loop i as h) = net_view h" for as
    by (induction i as h rule: acknowledgements_loop.induct) (simp_all add: net state Let_def)
  then show ?thesis by (simp add: enet_protocol_send_acknowledgements_def)
qed

lemma net_view_timeouts [net]: "net_view (snd (snd (enet_protocol_check_timeouts i ev h))) = net_view h"
proof -
  have state: "net_view (enet_protocol_dispatch_state i s h) = net_view h" "net_view (raise_fault h) = net_view h"
    "net_view (enet_peer_reset_queues i h) = net_view h" "net_view (enet_peer_on_disconnect i h) = net_view h" for s h
    by (rule net_view_send; simp add: view)+
  have "net_view (snd (enet_protocol_notify_disconnect i ev h)) = net_view h" for h
    by (simp add: enet_protocol_notify_disconnect_def enet_peer_reset_def Let_def state net split: option.split)
  then show ?thesis
    by (simp add: enet_protocol_check_timeouts_def Let_def case_prod_beta state net split: timeouts.split)
qed

lemma net_view_disconnect_delayed:
  "p_state (peer_at h i) = DISCONNECT_LATER \<Longrightarrow> net_view (disconnect_delayed i d h) = net_view h"
  by (rule net_view_send [OF send_view_disconnect_delayed])

lemma net_view_check_outgoing [net]:
  "net_view (snd (snd (enet_protocol_check_outgoing_commands i sent h))) = net_view h"
proof -
  have "net_view (os_host (outgoing_loop s)) = net_view (os_host s)" for s
  proof (rule outgoing_loop_invariant [where P = "\<lambda>t. net_view (os_host t) = net_view (os_host s)"], rule refl)
    fix s1 reliable oc cs rs goes s'
    assume s1: "net_view (os_host s1) = net_view (os_host s)"
      and step: "outgoing_step reliable oc (s1\<lparr>os_ahead := cs, os_aheadReliable := rs\<rparr>) = (goes, s')"
    have put: "net_view (os_host (put_outgoing oc s)) = net_view (os_host s)" for s
      by (simp add: put_outgoing_def Let_def net split: option.split)
    from step show "net_view (os_host s') = net_view (os_host s)"
    proof (cases rule: outgoing_step_cases)
      case (dropped rest h)
      have "memory.more h = memory.more (os_host s1)"
        using arg_cong [OF dropped(5), of "\<lambda>x. memory.more (snd x)"] by (simp add: mem_frame)
      then show ?thesis
        using s1 dropped(6) net_view_send [OF send_view_more, of h "os_host s1"] by simp
    qed (simp_all add: s1 put net keep_command_def skip_reliable_def)
  qed
  then show ?thesis
    by (simp add: enet_protocol_check_outgoing_commands_def Let_def net net_view_disconnect_delayed)
qed

lemma net_view_fill [net]: "net_view (snd (fill_datagram i sent h)) = net_view h"
proof -
  have "net_view (enet_peer_ping i h) = net_view h" for h
    by (rule net_view_send) (simp add: view)
  then show ?thesis
    by (simp add: fill_datagram_def Let_def case_prod_beta net)
qed

text \<open>The check of timeouts leaves the datagram, and the mtu where it does not give up.\<close>

lemma ids_timeout_loop: "peer_ids (snd (timeout_loop now ocs kept again againReliable p)) = peer_ids p"
proof -
  have simps: "peer_ids (requeue a b c p) = peer_ids p" "peer_ids (note_timeout oc p) = peer_ids p"
    "peer_ids (count_lost oc p) = peer_ids p" "peer_ids (next_deadline kept rest p) = peer_ids p" for a b c p oc kept rest
    by (simp_all add: requeue_def note_timeout_def count_lost_def next_deadline_def split: list.split)
  show ?thesis
    by (induction now ocs kept again againReliable p rule: timeout_loop.induct)
      (auto simp: simps Let_def split: option.split bool.split)
qed

lemma fits_peer_timeouts:
  assumes "fits_peer e i h" "enet_protocol_check_timeouts i ev h = (False, ev', h')"
  shows "fits_peer e i h'"
proof -
  define p where "p = snd (timeout_loop (h_serviceTime h) (p_sentReliableCommands (peer_at h i)) [] [] [] (peer_at h i))"
  have "h' = upd_peer i (\<lambda>_. p) h \<or> h' = raise_fault (upd_peer i (\<lambda>_. p) h)"
    using assms(2) unfolding enet_protocol_check_timeouts_def p_def Let_def case_prod_beta
    by (auto split: timeouts.splits)
  moreover have "peer_ids (peer_at (upd_peer i (\<lambda>_. p) h) i) = peer_ids (peer_at h i)"
    using ids_timeout_loop [of "h_serviceTime h" "p_sentReliableCommands (peer_at h i)" "[]" "[]" "[]" "peer_at h i"]
    by (cases "i < length (h_peers h)") (simp_all add: p_def upd_peer_def peer_at_def list_update_beyond)
  ultimately show ?thesis
    using fits_peer_view [of h' h i e] assms(1) by (auto simp: view)
qed

section \<open>The bytes of a datagram\<close>

text \<open>A frame is a command and, where it carries a packet, the bytes of its payload, which may be none.\<close>

type_synonym frame = "ENetProtocol \<times> u8 list option"

definition frame_payload :: "frame \<Rightarrow> u8 list" where
  "frame_payload f = (case snd f of None \<Rightarrow> [] | Some bs \<Rightarrow> bs)"

lemma frame_payload_simps [simp]: "frame_payload (c, None) = []" "frame_payload (c, Some bs) = bs"
  by (simp_all add: frame_payload_def)

definition frame_ok :: "frame \<Rightarrow> bool" where
  "frame_ok f \<longleftrightarrow> wf_command (fst f) \<and> length (frame_payload f) = payload_length (pr_body (fst f))"

definition encode_frames :: "frame list \<Rightarrow> u8 list" where
  "encode_frames fs = concat (map (\<lambda>f. encode_command (fst f) @ frame_payload f) fs)"

lemma encode_frames_simps [simp]:
  "encode_frames [] = []" "encode_frames (f # fs) = encode_command (fst f) @ frame_payload f @ encode_frames fs"
  by (simp_all add: encode_frames_def)

text \<open>The buffers the frames lie in.\<close>

definition frame_buffers :: "frame list \<Rightarrow> u8 list list" where
  "frame_buffers fs = concat (map (\<lambda>f. encode_command (fst f) # (case snd f of None \<Rightarrow> [] | Some bs \<Rightarrow> [bs])) fs)"

lemma frame_buffers_simps [simp]:
  "frame_buffers [] = []"
  "frame_buffers (f # fs) = encode_command (fst f) # (case snd f of None \<Rightarrow> [] | Some bs \<Rightarrow> [bs]) @ frame_buffers fs"
  by (simp_all add: frame_buffers_def)

lemma concat_frame_buffers: "concat (frame_buffers fs) = encode_frames fs"
  by (induction fs) (simp_all add: frame_payload_def split: option.split)

text \<open>The payload of a part, in the packet it points into.\<close>

definition part_payload :: "ENetHost \<Rightarrow> part \<Rightarrow> u8 list option option" where
  "part_payload h part =
     (case snd part of
        None \<Rightarrow> Some None
      | Some (packet, offset, len) \<Rightarrow> map_option Some (buffer_bytes h (PacketBuffer packet offset len)))"

lemma all_written_length: "all_written bs = Some xs \<Longrightarrow> length xs = length bs"
  by (induction bs arbitrary: xs rule: all_written.induct) auto

lemma part_payload_length: "part_payload h part = Some bs \<Longrightarrow> length (frame_payload (c, bs)) = part_length part"
  by (auto simp: part_payload_def part_length_def dest!: all_written_length split: option.splits if_splits)

lemma buffers_bytes_append:
  "buffers_bytes h (xs @ ys) = (case buffers_bytes h xs of None \<Rightarrow> None
     | Some a \<Rightarrow> map_option ((@) a) (buffers_bytes h ys))"
  by (cases "buffers_bytes h ys"; induction xs) (auto split: option.split)

lemma one_part_bytes:
  assumes "part_ok part" "k < length (h_commands h)" "h_commands h ! k = fst part"
  shows "buffers_bytes h (one_part_buffers k part)
      = map_option (\<lambda>bs. encode_command (fst part) @ frame_payload (fst part, bs)) (part_payload h part)"
    and "part_payload h part = Some bs \<Longrightarrow> map (\<lambda>b. case buffer_bytes h b of None \<Rightarrow> [] | Some bs \<Rightarrow> bs) (one_part_buffers k part)
      = frame_buffers [(fst part, bs)]"
  using assms
  by (auto simp: one_part_buffers_def part_payload_def part_ok_def length_encode_command
    split: option.split)

lemma parts_bytes:
  assumes "list_all part_ok parts" "h_commands h = pre @ map fst parts"
    "buffers_bytes h (part_buffers (length pre) parts) = Some body"
  shows "\<exists>fs. list_all frame_ok fs \<and> map fst fs = map fst parts
    \<and> map (part_payload h) parts = map (\<lambda>f. Some (snd f)) fs \<and> body = encode_frames fs \<and> length body = parts_size parts
    \<and> map (\<lambda>b. case buffer_bytes h b of None \<Rightarrow> [] | Some bs \<Rightarrow> bs) (part_buffers (length pre) parts) = frame_buffers fs"
  using assms
proof (induction parts arbitrary: pre body)
  case Nil
  then show ?case by (simp add: parts_size_def)
next
  case (Cons part parts)
  have one: "buffers_bytes h (one_part_buffers (length pre) part)
      = map_option (\<lambda>bs. encode_command (fst part) @ frame_payload (fst part, bs)) (part_payload h part)"
    "\<And>bs. part_payload h part = Some bs \<Longrightarrow>
      map (\<lambda>b. case buffer_bytes h b of None \<Rightarrow> [] | Some bs \<Rightarrow> bs) (one_part_buffers (length pre) part) = frame_buffers [(fst part, bs)]"
    using Cons(2,3) by (intro one_part_bytes; auto)+
  obtain bs rest where bs: "part_payload h part = Some bs"
    and rest: "buffers_bytes h (part_buffers (Suc (length pre)) parts) = Some rest"
    and body: "body = encode_command (fst part) @ frame_payload (fst part, bs) @ rest"
    using Cons(4) one(1) by (auto simp: buffers_bytes_append split: option.splits)
  obtain fs where fs: "list_all frame_ok fs" "map fst fs = map fst parts"
    "map (part_payload h) parts = map (\<lambda>f. Some (snd f)) fs" "rest = encode_frames fs" "length rest = parts_size parts"
    "map (\<lambda>b. case buffer_bytes h b of None \<Rightarrow> [] | Some bs \<Rightarrow> bs) (part_buffers (Suc (length pre)) parts) = frame_buffers fs"
    using Cons(1) [of "pre @ [fst part]" rest] Cons(2,3) rest by auto
  have "part_ok part" using Cons(2) by simp
  then have "frame_ok (fst part, bs)" "length (encode_command (fst part) @ frame_payload (fst part, bs)) = part_size part"
    using part_payload_length [OF bs]
    by (simp_all add: frame_ok_def part_ok_def part_size_def length_encode_command)
  then show ?case
    using fs bs body one(2) [OF bs] by (intro exI [of _ "(fst part, bs) # fs"]) (simp add: parts_size_def)
qed

section \<open>The datagram sent\<close>

text \<open>
  What is sent for some frames: the header, then the frames or, where it is shorter, what the
  compressor makes of their buffers.
\<close>

definition packed_frames :: "ENetHost \<Rightarrow> frame list \<Rightarrow> u8 list option" where
  "packed_frames h fs =
     (case h_compress h of
        None \<Rightarrow> None
      | Some compress \<Rightarrow>
          (let body = encode_frames fs; n = of_nat (length body)
           in case compress (frame_buffers fs) n n of
                None \<Rightarrow> None
              | Some out \<Rightarrow> if 0 < length out \<and> length out < length body then Some out else None))"

definition written_datagram :: "ENetHost \<Rightarrow> ENetPeer \<Rightarrow> frame list \<Rightarrow> u8 list" where
  "written_datagram h p fs =
     (let flags = sent_flags (map fst fs)
      in case packed_frames h fs of
           None \<Rightarrow> datagram_header_bytes (h_checksum h) (h_serviceTime h) flags p (encode_frames fs) @ encode_frames fs
         | Some out \<Rightarrow>
             datagram_header_bytes (h_checksum h) (h_serviceTime h)
               (set_flag flags ENET_PROTOCOL_HEADER_FLAG_COMPRESSED) p (encode_frames fs) @ out)"

lemma written_datagram_same:
  assumes "peer_ids p = peer_ids q" "net_view h = net_view g"
  shows "written_datagram h p fs = written_datagram g q fs"
proof -
  have "datagram_header_bytes c t f p b = datagram_header_bytes c t f q b" for c t f b
  proof -
    have "plain_header t f p = plain_header t f q" "checksum_connectID p = checksum_connectID q"
      using assms(1) by (simp_all add: plain_header_def header_flags_def checksum_connectID_def peer_ids_def)
    then show ?thesis by (simp add: datagram_header_bytes_def Let_def split: option.split)
  qed
  moreover have "packed_frames h fs = packed_frames g fs"
    using assms(2) by (simp add: packed_frames_def net_view_def)
  ultimately show ?thesis
    using assms(2) by (simp add: written_datagram_def net_view_def Let_def split: option.split)
qed

lemma compress_frames:
  assumes "h_packetSize h - 4 = of_nat (length (encode_frames fs))" "length (encode_frames fs) \<le> 4096"
    and "buffer_list h = frame_buffers fs"
  shows "case packed_frames h fs of None \<Rightarrow> compress_buffers h \<in> {h, raise_fault h}
     | Some out \<Rightarrow> compress_buffers h = h\<lparr>h_headerFlags := set_flag (h_headerFlags h) ENET_PROTOCOL_HEADER_FLAG_COMPRESSED,
                   h_buffers := [CompressedBuffer out]\<rparr>"
proof -
  have "unat (of_nat (length (encode_frames fs)) :: u64) = length (encode_frames fs)"
    using assms(2) by (intro unat_of_nat_small) simp
  then show ?thesis
    using assms(1,3)
    by (cases "h_compress h"; cases "the (h_compress h) (frame_buffers fs) (of_nat (length (encode_frames fs))) (of_nat (length (encode_frames fs)))")
      (simp_all add: compress_buffers_def packed_frames_def Let_def)
qed

lemma send_view_remove_sent:
  "send_view (enet_protocol_remove_sent_unreliable_commands i sent h) = send_view h"
  by (auto simp: enet_protocol_remove_sent_unreliable_commands_def Let_def view send_view_disconnect_delayed)

text \<open>The last step: the bytes are sent, or one of them is not there.\<close>

lemma transmit_sends:
  assumes "holds_parts m parts h" "m \<le> 4096" "transmit i sent h = (r, sent', h')"
  shows "(h_outbox h' = h_outbox h \<and> en_fault h') \<or>
    (\<exists>fs. list_all frame_ok fs \<and> map fst fs = map fst parts \<and> map (part_payload h) parts = map (\<lambda>f. Some (snd f)) fs
       \<and> length (encode_frames fs) = parts_size parts \<and> h_commands h' = map fst fs
       \<and> length (h_buffers h') \<le> max 1 (length (h_buffers h))
       \<and> h_outbox h' = h_outbox h @ [(p_address (peer_at h i), written_datagram h (peer_at h i) fs)])"
proof -
  let ?h = "upd_peer i (update_packet_loss (h_serviceTime h)) h"
  have loss: "peer_ids (update_packet_loss now p) = peer_ids p" for now p
    by (simp add: update_packet_loss_def Let_def)
  have p: "peer_ids (peer_at ?h i) = peer_ids (peer_at h i)"
    by (rule ids_upd) (rule loss)
  have bytes: "buffer_bytes ?h b = buffer_bytes h b" "buffers_bytes ?h bs = buffers_bytes h bs" for b bs
  proof -
    show one: "buffer_bytes ?h b = buffer_bytes h b" for b
      by (cases b) (simp_all add: upd_peer_def)
    show "buffers_bytes ?h bs = buffers_bytes h bs"
      by (induction bs) (simp_all only: buffers_bytes.simps one)
  qed
  have parts: "list_all part_ok parts" "h_commands h = [] @ map fst parts" "h_buffers h = part_buffers (length []) parts"
    "h_headerFlags h = sent_flags (map fst parts)"
    "unat (h_packetSize h) = 4 + parts_size parts"
    using assms(1) by (simp_all add: holds_parts_def)
  have fields: "h_buffers ?h = h_buffers h" "h_packetSize ?h = h_packetSize h" "h_headerFlags ?h = h_headerFlags h"
    "h_compress ?h = h_compress h" "h_outbox ?h = h_outbox h" "h_checksum ?h = h_checksum h"
    "h_serviceTime ?h = h_serviceTime h" "h_commands ?h = h_commands h"
    by (simp_all add: upd_peer_def)
  show ?thesis
  proof (cases "buffers_bytes h (h_buffers h)")
    case None
    then have "h' = raise_fault ?h"
      using assms(3) by (simp add: transmit_def Let_def bytes fields)
    then show ?thesis by (simp add: raise_fault_def upd_peer_def)
  next
    case (Some body)
    obtain fs where fs: "list_all frame_ok fs" "map fst fs = map fst parts"
      "map (part_payload h) parts = map (\<lambda>f. Some (snd f)) fs" "body = encode_frames fs" "length body = parts_size parts"
      "buffer_list h = frame_buffers fs"
      using parts_bytes [OF parts(1,2)] Some parts(3) by (auto simp: buffer_list_def)
    have small: "length body \<le> 4096" "unat (h_packetSize h) = 4 + length body"
      using assms(1,2) parts(5) fs(5) by (simp_all add: holds_parts_def word_le_nat_alt)
    have size: "h_packetSize h - 4 = of_nat (length body)"
      using small by (intro word_unat_eq_iff [THEN iffD2])
        (simp add: unat_minus_cases word_le_nat_alt unat_of_nat_small)
    define c where "c = compress_buffers ?h"
    define q where "q = peer_at ?h i"
    have c: "peer_at c i = q" "net_view c = net_view h" "h_commands c = h_commands h"
      "length (h_buffers c) \<le> max 1 (length (h_buffers h))"
      by (simp_all add: c_def q_def compress_buffers_def raise_fault_def Let_def net_view_def peer_at_def fields split: option.split)
    have faulty: "buffers_bytes (raise_fault g) bs = buffers_bytes g bs" for g :: ENetHost and bs
    proof -
      have "buffer_bytes (raise_fault g) b = buffer_bytes g b" for b
        by (cases b) (simp_all add: raise_fault_def)
      then show ?thesis
        by (induction bs) (simp_all split: option.split)
    qed
    have content: "datagram_header_bytes (h_checksum h) (h_serviceTime h) (h_headerFlags c) q body
        @ (case buffers_bytes c (h_buffers c) of None \<Rightarrow> [] | Some bs \<Rightarrow> bs) = written_datagram h q fs"
    proof -
      have "packed_frames ?h fs = packed_frames h fs"
        by (simp add: packed_frames_def fields)
      moreover have "buffer_list ?h = frame_buffers fs"
        using fs(6) by (simp add: buffer_list_def bytes fields)
      ultimately have "case packed_frames h fs of None \<Rightarrow> c \<in> {?h, raise_fault ?h}
          | Some out \<Rightarrow> c = ?h\<lparr>h_headerFlags := set_flag (h_headerFlags h) ENET_PROTOCOL_HEADER_FLAG_COMPRESSED,
                      h_buffers := [CompressedBuffer out]\<rparr>"
        using compress_frames [of ?h fs] small size by (simp add: c_def fs(4) fields cong: option.case_cong)
      moreover have "buffers_bytes (raise_fault ?h) bs = buffers_bytes h bs" "h_headerFlags (raise_fault ?h) = h_headerFlags h"
        "h_buffers (raise_fault ?h) = h_buffers h" for bs
        using faulty bytes by (simp_all add: raise_fault_def upd_peer_def)
      ultimately show ?thesis
        using Some by (auto simp: written_datagram_def fields bytes fs(2,4) parts(4) split: option.splits)
    qed
    let ?sent = "snd (enet_socket_send (p_address q) (written_datagram h q fs) (upd_peer i (\<lambda>p. p\<lparr>p_lastSendTime := h_serviceTime c\<rparr>)
       (c\<lparr>h_headerFlags := header_flags (h_headerFlags c) q\<rparr>)))"
    have "h_outbox h' = h_outbox ?sent \<and> h_commands h' = h_commands ?sent \<and> h_buffers h' = h_buffers ?sent"
      using assms(3) Some send_view_remove_sent [of i sent ?sent] c content
      by (auto simp: transmit_def Let_def bytes fields case_prod_beta c_def [symmetric] q_def [symmetric] net_view_def
          send_view_def split: if_splits)
    then have "h_outbox h' = h_outbox h @ [(p_address q, written_datagram h q fs)]" "h_commands h' = map fst fs"
      "length (h_buffers h') \<le> max 1 (length (h_buffers h))"
      using c(2-4) fs(2) parts(2) by (simp_all add: enet_socket_send_def net_view_def upd_peer_def)
    moreover have "p_address q = p_address (peer_at h i)" "written_datagram h q fs = written_datagram h (peer_at h i) fs"
      using p written_datagram_same [of q "peer_at h i" h h fs] by (simp_all add: q_def peer_ids_def)
    ultimately show ?thesis
      using fs by (intro disjI2 exI [of _ fs]) simp
  qed
qed

lemma send_to_peer_transmits:
  assumes "host_ok n h" "i < n" "send_to_peer check i ev sent h = (r, ev', sent', h')"
  shows "net_view h' = net_view h
    \<or> (\<exists>parts sent2 g. parts \<noteq> [] \<and> holds_parts (p_mtu (peer_at h i)) parts g \<and> transmit i sent2 g = (r, sent', h')
         \<and> net_view g = net_view h \<and> peer_ids (peer_at g i) = peer_ids (peer_at h i))"
proof -
  let ?e = "peer_ids (peer_at h i)"
  have m: "mtu_ok (fst ?e)" "mtu_ok (p_mtu (peer_at h i))"
    using peer_ok_at [OF assms(1,2)] by (simp_all add: peer_ok_def peer_ids_def)
  have b: "host_ok n (begin_datagram i h)"
    using assms by (simp add: begin_datagram_def host_ok_tame tame_simps)
  define h1 where "h1 = (if p_acknowledgements (peer_at (begin_datagram i h) i) \<noteq> []
    then enet_protocol_send_acknowledgements i (begin_datagram i h) else begin_datagram i h)"
  have h1: "host_ok n h1" "fits_peer ?e i h1" "net_view h1 = net_view h"
    using b assms(2) fits_peer_begin [OF m(2)] fits_peer_acknowledgements [OF m(1)] by (simp_all add: h1_def keeps net)
  define t where "t = (if check \<and> p_sentReliableCommands (peer_at h1 i) \<noteq> []
      \<and> ENET_TIME_GREATER_EQUAL (h_serviceTime h1) (p_nextTimeout (peer_at h1 i))
    then enet_protocol_check_timeouts i ev h1 else (False, ev, h1))"
  obtain timedOut ev2 h2 where t': "t = (timedOut, ev2, h2)" by (cases t)
  have h2: "host_ok n h2" "net_view h2 = net_view h" "\<not> timedOut \<Longrightarrow> fits_peer ?e i h2"
    using t' h1 assms(2) host_ok_timeouts [OF h1(1) assms(2), of ev] net_view_timeouts [of i ev h1]
      fits_peer_timeouts [OF h1(2), of ev ev2 h2]
    by (auto simp: t_def split: if_splits)
  obtain sent2 g where g: "fill_datagram i sent h2 = (sent2, g)" by fastforce
  have fill: "net_view g = net_view h" "\<not> timedOut \<Longrightarrow> fits_peer ?e i g"
    using h2 net_view_fill [of i sent h2] fits_peer_fill [OF h2(1) assms(2) m(1), of sent] g by auto
  have run: "(if timedOut then (if event_reported ev2 = 1 then Some 1 else None, ev2, sent, h2)
      else if h_commands g = [] then (None, ev2, sent2, g)
      else case transmit i sent2 g of (r, sent', h') \<Rightarrow> (r, ev2, sent', h')) = (r, ev', sent', h')"
    using assms(3) unfolding send_to_peer_def Let_def h1_def [symmetric] t_def [symmetric] t'
    by (simp only: prod.case g)
  show ?thesis
  proof (cases "timedOut \<or> h_commands g = []")
    case True
    then show ?thesis using run h2(2) fill(1) by (auto split: if_splits)
  next
    case False
    obtain parts where parts: "holds_parts (p_mtu (peer_at h i)) parts g"
      using fill(2) False by (auto simp: fits_peer_def datagram_ok_def peer_ids_def)
    moreover have "parts \<noteq> []"
      using parts False by (auto simp: holds_parts_def)
    moreover have "transmit i sent2 g = (r, sent', h')"
      using run False by (auto split: prod.splits)
    moreover have "peer_ids (peer_at g i) = ?e"
      using fill(2) False by (simp add: fits_peer_def)
    ultimately show ?thesis
      using fill(1) by blast
  qed
qed

lemma written_length:
  "length (written_datagram h p fs) \<le> 4 + length (encode_frames fs) + (if h_checksum h = None then 0 else 4)"
  by (auto simp: written_datagram_def packed_frames_def datagram_header_bytes_def plain_header_def codec_simps Let_def
    split: option.splits if_splits)

text \<open>C11: A datagram never exceeds the mtu agreed with its peer: in every reachable host, sending to a peer
  hands \<open>sendmsg\<close> at most one datagram, and it has at most \<open>mtu\<close> bytes, with a checksum four more.
  The host's arrays are never overrun either: at most 32 commands and, with the header's, 65 buffers
  are used.\<close>

theorem datagram_within_mtu:
  assumes "reachable_host n h" "i < n" "send_to_peer check i ev sent h = (r, ev', sent', h')"
  shows "h_outbox h' = h_outbox h
    \<or> (\<exists>bytes. h_outbox h' = h_outbox h @ [(p_address (peer_at h i), bytes)]
         \<and> length bytes \<le> unat (p_mtu (peer_at h i)) + (if h_checksum h = None then 0 else 4)
         \<and> length (h_commands h') \<le> ENET_PROTOCOL_MAXIMUM_PACKET_COMMANDS
         \<and> 1 + length (h_buffers h') \<le> ENET_BUFFER_MAXIMUM)"
proof -
  note ok = reachable_host_ok [OF assms(1)]
  consider "net_view h' = net_view h" | parts sent2 g where "holds_parts (p_mtu (peer_at h i)) parts g"
    "transmit i sent2 g = (r, sent', h')" "net_view g = net_view h" "peer_ids (peer_at g i) = peer_ids (peer_at h i)"
    using send_to_peer_transmits [OF ok assms(2,3)] by blast
  then show ?thesis
  proof cases
    case 1
    then show ?thesis by (simp add: net_view_def)
  next
    case 2
    have "p_mtu (peer_at h i) \<le> 4096"
      using peer_ok_at [OF ok assms(2)] by (simp add: peer_ok_def mtu_ok_def)
    note sent = transmit_sends [OF 2(1) this 2(2)]
    have g: "h_outbox g = h_outbox h" "h_checksum g = h_checksum h" "p_address (peer_at g i) = p_address (peer_at h i)"
      using 2(3,4) by (simp_all add: net_view_def peer_ids_def)
    have parts: "4 + parts_size parts \<le> unat (p_mtu (peer_at h i))" "length parts \<le> 32" "length (h_buffers g) \<le> 64"
      using 2(1) by (auto simp: holds_parts_def)
    from sent show ?thesis
    proof (elim disjE exE conjE)
      fix fs
      assume fs: "map fst fs = map fst parts" "length (encode_frames fs) = parts_size parts" "h_commands h' = map fst fs"
        "length (h_buffers h') \<le> max 1 (length (h_buffers g))"
        "h_outbox h' = h_outbox g @ [(p_address (peer_at g i), written_datagram g (peer_at g i) fs)]"
      have "length fs = length parts"
        using fs(1) by (rule map_eq_imp_length_eq)
      then show ?thesis
        using fs parts g written_length [of g "peer_at g i" fs]
        by (intro disjI2 exI [of _ "written_datagram g (peer_at g i) fs"]) simp
    qed (simp add: g)
  qed
qed

text \<open>A host with a connection under way, and the same with the library's checksum.\<close>

definition connecting_host :: ENetHost where
  "connecting_host = snd (enet_host_connect zero_address 2 7 (plain_host 1))"

definition checked_host :: ENetHost where
  "checked_host = connecting_host\<lparr>h_checksum := Some (\<lambda>bs. enet_crc32 [bs])\<rparr>"

theorem datagram_within_mtu_witness:
  "\<exists>h'. h' = snd (snd (snd (send_to_peer False 0 None [] checked_host)))
    \<and> (h_outbox h' = h_outbox checked_host \<or> (\<exists>bytes. h_outbox h' = h_outbox checked_host @ [(p_address (peer_at checked_host 0), bytes)]
         \<and> length bytes \<le> unat (p_mtu (peer_at checked_host 0)) + 4))"
proof -
  have "reachable_host 1 connecting_host"
    unfolding connecting_host_def by (rule reachable_host.Step [OF reachable_plain host_step.Connect]) simp
  then have reach: "reachable_host 1 checked_host"
    unfolding checked_host_def by (rule reachable_host.Step [OF _ host_step.Checksum])
  moreover have "h_checksum checked_host \<noteq> None"
    by (simp add: checked_host_def)
  moreover obtain r ev' sent' h' where run: "send_to_peer False 0 None [] checked_host = (r, ev', sent', h')"
    by (cases "send_to_peer False 0 None [] checked_host") auto
  ultimately show ?thesis
    using datagram_within_mtu [OF reach _ run] by auto
qed

text \<open>C10: What a datagram carries: for a host whose commands and buffers are the \<open>parts\<close> the send path laid
  there, \<open>transmit\<close> sends the peer's address the header, then every command in order, encoded, each
  with exactly the bytes its buffer points to in its packet and as many as the command announces, or
  the compressed form of all that; only where a byte is not there is nothing sent.\<close>

theorem datagram_carries_commands:
  assumes "holds_parts m parts h" "m \<le> 4096" "transmit i sent h = (r, sent', h')" "\<not> en_fault h'"
  shows "\<exists>fs. list_all frame_ok fs \<and> map fst fs = h_commands h
    \<and> map (part_payload h) parts = map (\<lambda>f. Some (snd f)) fs
    \<and> h_outbox h' = h_outbox h @ [(p_address (peer_at h i), written_datagram h (peer_at h i) fs)]"
proof -
  have "h_commands h = map fst parts"
    using assms(1) by (simp add: holds_parts_def)
  then show ?thesis
    using transmit_sends [OF assms(1-3)] assms(4) by auto
qed

definition ping_part :: part where
  "ping_part = (\<lparr>hd_command = 0x85, hd_channelID = 0xFF, hd_reliableSequenceNumber = 1, pr_body = Ping\<rparr>, None)"

definition ping_host :: ENetHost where
  "ping_host = (sample_host [sample_peer])\<lparr>h_commands := [fst ping_part], h_buffers := [CommandBuffer 0 4],
     h_packetSize := 8, h_headerFlags := ENET_PROTOCOL_HEADER_FLAG_SENT_TIME\<rparr>"

theorem datagram_carries_commands_witness:
  "\<exists>fs. map fst fs = [fst ping_part]
    \<and> h_outbox (snd (snd (transmit 0 [] ping_host))) = [(p_address sample_peer, written_datagram ping_host sample_peer fs)]"
proof -
  have parts: "holds_parts 1392 [ping_part] ping_host"
    by (simp add: holds_parts_def ping_host_def ping_part_def part_ok_def wf_command_def command_number_def part_length_def
      one_part_buffers_def parts_size_def part_size_def enet_protocol_command_size_def commandSizes_def sent_flags_def has_flag_def)
  have ok: "\<not> en_fault (snd (snd (transmit 0 [] ping_host)))"
    by (simp add: transmit_def ping_host_def ping_part_def sample_defs Let_def update_packet_loss_def upd_peer_def peer_at_def
      encode_command_def put16_def compress_buffers_def enet_socket_send_def
      enet_protocol_remove_sent_unreliable_commands_def)
  obtain r sent' h' where run: "transmit 0 [] ping_host = (r, sent', h')"
    by (cases "transmit 0 [] ping_host") auto
  have "h_commands ping_host = [fst ping_part]" "h_outbox ping_host = []" "peer_at ping_host 0 = sample_peer"
    by (simp_all add: ping_host_def sample_host_def peer_at_def)
  moreover obtain fs where "map fst fs = h_commands ping_host"
    "h_outbox h' = h_outbox ping_host @ [(p_address (peer_at ping_host 0), written_datagram ping_host (peer_at ping_host 0) fs)]"
    using datagram_carries_commands [OF parts _ run] ok run by auto
  ultimately show ?thesis
    using run by (intro exI [of _ fs]) simp
qed

end
