(* ===== verification/Enet_Framing.thy ===== *)
theory Enet_Framing
  imports Enet_Datagrams
begin

text \<open>
  The receiver's side of a datagram: the header it reads is the one the sender wrote, the
  checksum it computes is the sender's, and its command loop hands the sender's commands,
  each with its payload, to the handlers.
\<close>

section \<open>The handlers leave the received data\<close>

definition receive_view :: "ENetHost \<Rightarrow> u8 list \<times> nat \<times> nat" where
  "receive_view h = (h_receivedData h, h_receivedDataLength h, length (h_peers h))"

named_theorems received

lemma receive_view_upd [received]: "receive_view (upd_peer i f h) = receive_view h"
  by (simp add: receive_view_def upd_peer_def)

lemma receive_view_more: "memory.more h' = memory.more (h :: ENetHost) \<Longrightarrow> receive_view h' = receive_view h"
  by (cases h; cases h') (simp add: receive_view_def)

lemma receive_view_mem [received]:
  "receive_view (snd (enet_malloc h)) = receive_view h" "receive_view (raise_fault h) = receive_view h"
  "receive_view (packet_addref k q h) = receive_view h" "receive_view (release_queues p h) = receive_view h"
  "receive_view (release_sent ocs h) = receive_view h" "receive_view (outgoing_unref e oc h) = receive_view h"
  "receive_view (snd (allocate_incoming d l f c h)) = receive_view h"
  "receive_view (snd (enet_peer_remove_incoming_commands ics ex h)) = receive_view h"
  by (rule receive_view_more, simp add: mem_frame)+

lemma receive_view_fields [received]:
  "receive_view (h\<lparr>h_totalQueued := a\<rparr>) = receive_view h" "receive_view (h\<lparr>h_dispatchQueue := q\<rparr>) = receive_view h"
  "receive_view (h\<lparr>h_connectedPeers := c\<rparr>) = receive_view h"
  "receive_view (h\<lparr>h_bandwidthLimitedPeers := c\<rparr>) = receive_view h"
  "receive_view (h\<lparr>h_recalculateBandwidthLimits := b\<rparr>) = receive_view h"
  "receive_view (h\<lparr>en_packets := k\<rparr>) = receive_view h"
  by (simp_all add: receive_view_def)

lemma receive_view_dispatch [received]:
  "receive_view (dispatch_insert i h) = receive_view h" "receive_view (dispatch_remove i h) = receive_view h"
  "receive_view (needs_dispatch i h) = receive_view h" "receive_view (clear_needs_dispatch i h) = receive_view h"
  by (simp_all add: dispatch_insert_def dispatch_remove_def needs_dispatch_def clear_needs_dispatch_def received)

lemma receive_view_connection [received]:
  "receive_view (enet_peer_on_connect i h) = receive_view h" "receive_view (enet_peer_on_disconnect i h) = receive_view h"
  "receive_view (enet_protocol_change_state i s h) = receive_view h"
  "receive_view (enet_protocol_dispatch_state i s h) = receive_view h"
  "receive_view (enet_peer_reset_queues i h) = receive_view h" "receive_view (enet_peer_reset i h) = receive_view h"
  by (simp_all add: enet_peer_on_connect_def enet_peer_on_disconnect_def enet_protocol_change_state_def
      enet_protocol_dispatch_state_def enet_peer_reset_queues_def enet_peer_reset_def Let_def received)

lemma receive_view_setup [received]: "receive_view (enet_peer_setup_outgoing_command i oc h) = receive_view h"
  by (simp add: enet_peer_setup_outgoing_command_def Let_def received)

lemma receive_view_outgoing [received]:
  "receive_view (snd (enet_peer_queue_outgoing_command i c pk off len h)) = receive_view h"
  "receive_view (snd (enet_peer_queue_acknowledgement i c t h)) = receive_view h"
  by (simp_all add: enet_peer_queue_outgoing_command_def enet_peer_queue_acknowledgement_def Let_def case_prod_beta
      received split: option.split)

lemma receive_view_disconnect_delayed:
  "p_state (peer_at h i) = DISCONNECT_LATER \<Longrightarrow> receive_view (disconnect_delayed i d h) = receive_view h"
  by (simp add: disconnect_delayed_eq received)

lemma receive_view_incoming [received]:
  "receive_view (enet_peer_dispatch_incoming_unreliable_commands i c q h) = receive_view h"
  "receive_view (enet_peer_dispatch_incoming_reliable_commands i c q h) = receive_view h"
proof -
  show unreliable: "receive_view (enet_peer_dispatch_incoming_unreliable_commands i c q h) = receive_view h" for h
    by (simp add: enet_peer_dispatch_incoming_unreliable_commands_def Let_def case_prod_beta received)
  show "receive_view (enet_peer_dispatch_incoming_reliable_commands i c q h) = receive_view h"
    by (simp add: enet_peer_dispatch_incoming_reliable_commands_def Let_def case_prod_beta received unreliable)
qed

lemma receive_view_queue_incoming [received]:
  "receive_view (snd (enet_peer_queue_incoming_command i c d l f n h)) = receive_view h"
  by (simp add: enet_peer_queue_incoming_command_def Let_def case_prod_beta received split: option.split)

lemma receive_view_fragment [received]:
  "receive_view (receive_fragment i c rel a f bs h) = receive_view h"
  by (simp add: receive_fragment_def Let_def case_prod_beta received split: option.split)

lemma receive_view_notify [received]:
  "receive_view (snd (enet_protocol_notify_connect i ev h)) = receive_view h"
  "receive_view (snd (enet_protocol_notify_disconnect i ev h)) = receive_view h"
  by (simp_all add: enet_protocol_notify_connect_def enet_protocol_notify_disconnect_def Let_def received
      split: option.split)

lemma receive_view_remove_sent [received]:
  "receive_view (snd (enet_protocol_remove_sent_reliable_command i n c h)) = receive_view h"
  by (simp add: enet_protocol_remove_sent_reliable_command_def case_prod_beta received split: option.split)

text \<open>The received data is \<open>D\<close>, of length \<open>L\<close>: an invariant of the handlers.\<close>

definition buffer_is :: "u8 list \<Rightarrow> nat \<Rightarrow> nat \<Rightarrow> ENetHost \<Rightarrow> bool" where
  "buffer_is D L n h \<longleftrightarrow> receive_view h = (D, L, n)"

lemma buffer_is_view: "receive_view h' = receive_view h \<Longrightarrow> buffer_is D L n h \<Longrightarrow> buffer_is D L n h'"
  by (simp add: buffer_is_def)

interpretation buffer: handler_invariant "buffer_is D L" for D L
proof
  fix n :: nat and h :: ENetHost and i :: nat and ev and chan :: u8 and k t :: u16 and cn vc
    and c :: ENetProtocol and d ib ob t1 a1 d1 :: u32 and l pos :: nat and g :: u16 and f
  assume h: "buffer_is D L n h"
  show "length (h_peers h) = n"
    using h by (simp add: buffer_is_def receive_view_def)
  show "buffer_is D L n (snd (enet_protocol_handle_connect cn h))"
    by (rule buffer_is_view [OF _ h])
      (simp add: enet_protocol_handle_connect_def Let_def case_prod_beta received split: option.split)
  show "buffer_is D L n (snd (snd (enet_protocol_handle_acknowledge i ev chan k t h)))"
    by (rule buffer_is_view [OF _ h])
      (simp add: enet_protocol_handle_acknowledge_def Let_def case_prod_beta received receive_view_disconnect_delayed
        split: ENetPeerState.split)
  show "buffer_is D L n (snd (snd (enet_protocol_handle_verify_connect i ev vc h)))"
    by (rule buffer_is_view [OF _ h])
      (simp add: enet_protocol_handle_verify_connect_def Let_def case_prod_beta received)
  show "buffer_is D L n (snd (enet_protocol_handle_disconnect i c d h))"
    by (rule buffer_is_view [OF _ h]) (simp add: enet_protocol_handle_disconnect_def Let_def received)
  show "buffer_is D L n (snd (enet_protocol_handle_bandwidth_limit i ib ob h))"
    by (rule buffer_is_view [OF _ h]) (simp add: enet_protocol_handle_bandwidth_limit_def Let_def received)
  show "buffer_is D L n (snd (enet_protocol_handle_throttle_configure i t1 a1 d1 h))"
    by (rule buffer_is_view [OF _ h]) (simp add: enet_protocol_handle_throttle_configure_def received)
  show "buffer_is D L n (snd (enet_protocol_handle_send_reliable i c l pos h))"
    by (rule buffer_is_view [OF _ h]) (simp add: enet_protocol_handle_send_reliable_def case_prod_beta received)
  show "buffer_is D L n (snd (enet_protocol_handle_send_unreliable i c l pos h))"
    by (rule buffer_is_view [OF _ h]) (simp add: enet_protocol_handle_send_unreliable_def Let_def case_prod_beta received)
  show "buffer_is D L n (snd (enet_protocol_handle_send_unsequenced i c g l pos h))"
    by (rule buffer_is_view [OF _ h])
      (simp add: enet_protocol_handle_send_unsequenced_def Let_def case_prod_beta received split: unsequenced_group.split)
  show "buffer_is D L n (snd (enet_protocol_handle_send_fragment i c f pos h))"
    by (rule buffer_is_view [OF _ h])
      (simp add: enet_protocol_handle_send_fragment_def Let_def case_prod_beta received
        split: fragment_start.split queue_result.split)
  show "buffer_is D L n (snd (enet_protocol_handle_send_unreliable_fragment i c f pos h))"
    by (rule buffer_is_view [OF _ h])
      (simp add: enet_protocol_handle_send_unreliable_fragment_def Let_def case_prod_beta received
        split: fragment_start.split queue_result.split)
  show "buffer_is D L n (snd (enet_peer_queue_acknowledgement i c t h))"
    by (rule buffer_is_view [OF _ h]) (rule received)
qed

section \<open>The header\<close>

text \<open>Identifier, session and flags share a 16-bit word without overlap.\<close>

lemma header_word:
  fixes peerID session flags :: u16
  assumes "peerID \<le> 0xFFF" "session \<le> 3" "flags AND 0xC000 = flags"
  defines "w \<equiv> peerID OR (flags OR push_bit 12 session)"
  shows "w AND ENET_PROTOCOL_HEADER_FLAG_MASK = flags"
    "w AND NOT (ENET_PROTOCOL_HEADER_FLAG_MASK OR ENET_PROTOCOL_HEADER_SESSION_MASK) = peerID"
    "drop_bit 12 (w AND ENET_PROTOCOL_HEADER_SESSION_MASK) = session"
proof -
  have m: "(0xC000 :: u16) = push_bit 14 (mask 2)" "(0x3000 :: u16) = push_bit 12 (mask 2)"
    by (simp_all add: mask_eq_exp_minus_1)
  have "take_bit 12 peerID = peerID" "take_bit 2 session = session"
    using assms(1,2) by (simp_all add: word_unat_eq_iff word_le_nat_alt unsigned_take_bit_eq take_bit_nat_eq_self)
  then have id: "bit peerID n \<Longrightarrow> n < 12" and s: "bit session n \<Longrightarrow> n < 2" for n
    by (metis bit_take_bit_iff)+
  have "bit flags n = (bit flags n \<and> bit (push_bit 14 (mask 2) :: u16) n)" for n
    using arg_cong [OF assms(3), of "\<lambda>x. bit x n"] by (simp add: m bit_and_iff)
  then have f: "bit flags n \<Longrightarrow> 14 \<le> n" for n
    by (auto simp: bit_simps)
  note bits = w_def m bit_simps
  show "w AND ENET_PROTOCOL_HEADER_FLAG_MASK = flags"
    by (rule bit_word_eqI) (auto simp: bits dest: id s f)
  show "w AND NOT (ENET_PROTOCOL_HEADER_FLAG_MASK OR ENET_PROTOCOL_HEADER_SESSION_MASK) = peerID"
    by (rule bit_word_eqI) (auto simp: bits dest: id s f)
  show "drop_bit 12 (w AND ENET_PROTOCOL_HEADER_SESSION_MASK) = session"
    by (rule bit_word_eqI) (auto simp: bits dest: id s f)
qed

text \<open>The flags a datagram can have, and its header with them.\<close>

definition datagram_flags :: "ENetHost \<Rightarrow> frame list \<Rightarrow> u16" where
  "datagram_flags h fs = (if packed_frames h fs = None then sent_flags (map fst fs)
     else set_flag (sent_flags (map fst fs)) ENET_PROTOCOL_HEADER_FLAG_COMPRESSED)"

definition datagram_header_of :: "ENetHost \<Rightarrow> ENetPeer \<Rightarrow> frame list \<Rightarrow> u8 list" where
  "datagram_header_of h p fs =
     datagram_header_bytes (h_checksum h) (h_serviceTime h) (datagram_flags h fs) p (encode_frames fs)"

lemma written_datagram_eq:
  "written_datagram h p fs = datagram_header_of h p fs
     @ (case packed_frames h fs of None \<Rightarrow> encode_frames fs | Some out \<Rightarrow> out)"
  by (simp add: written_datagram_def datagram_header_of_def datagram_flags_def Let_def split: option.split)

lemma datagram_flags_cases: "datagram_flags h fs \<in> {0, 0x4000, 0x8000, 0xC000}"
  by (simp add: datagram_flags_def sent_flags_def set_flag_def)

lemma datagram_flags_test:
  "has_flag (datagram_flags h fs) ENET_PROTOCOL_HEADER_FLAG_SENT_TIME
     = list_ex (\<lambda>f. has_flag (hd_command (fst f)) ENET_PROTOCOL_COMMAND_FLAG_ACKNOWLEDGE) fs"
  "has_flag (datagram_flags h fs) ENET_PROTOCOL_HEADER_FLAG_COMPRESSED = (packed_frames h fs \<noteq> None)"
  by (simp_all add: datagram_flags_def sent_flags_def set_flag_def has_flag_def list_ex_iff)

lemma first_word:
  assumes "p_outgoingPeerID p \<le> ENET_PROTOCOL_MAXIMUM_PEER_ID" "p_outgoingSessionID p \<le> 3"
  defines "session \<equiv> if p_outgoingPeerID p < ENET_PROTOCOL_MAXIMUM_PEER_ID then ucast (p_outgoingSessionID p) else 0"
  shows "p_outgoingPeerID p OR header_flags (datagram_flags h fs) p
      = p_outgoingPeerID p OR (datagram_flags h fs OR push_bit 12 session)" "session \<le> 3"
    "datagram_flags h fs AND 0xC000 = datagram_flags h fs"
proof -
  show "datagram_flags h fs AND 0xC000 = datagram_flags h fs"
    using datagram_flags_cases [of h fs] by auto
  have "unat (ucast (p_outgoingSessionID p) :: u16) = unat (p_outgoingSessionID p)"
    using unsigned_less [of "p_outgoingSessionID p", where ?'a = nat]
    by (simp add: unsigned_ucast_eq take_bit_nat_eq_self)
  then show "session \<le> 3"
    using assms(2) by (simp add: session_def word_le_nat_alt)
  show "p_outgoingPeerID p OR header_flags (datagram_flags h fs) p
      = p_outgoingPeerID p OR (datagram_flags h fs OR push_bit 12 session)"
    by (simp add: header_flags_def session_def)
qed

lemma header_length:
  "length (datagram_header_of h p fs) = (if list_ex (\<lambda>f. has_flag (hd_command (fst f)) ENET_PROTOCOL_COMMAND_FLAG_ACKNOWLEDGE) fs
     then 4 else 2) + (if h_checksum h = None then 0 else 4)"
  by (simp add: datagram_header_of_def datagram_header_bytes_def plain_header_def datagram_flags_test codec_simps Let_def
      split: option.split)

text \<open>
  A datagram as long as the room for commands allows is four bytes longer than the mtu where there
  is a checksum.
\<close>

lemma checksum_exceeds_mtu:
  assumes "holds_parts (p_mtu (peer_at h i)) parts h" "p_mtu (peer_at h i) \<le> 4096"
    and "4 + parts_size parts = unat (p_mtu (peer_at h i))"
    and "list_ex (\<lambda>c. has_flag (hd_command c) ENET_PROTOCOL_COMMAND_FLAG_ACKNOWLEDGE) (h_commands h)"
    and "h_checksum h = Some f" "h_compress h = None"
    and "transmit i sent h = (r, sent', h')" "\<not> en_fault h'"
  shows "\<exists>bytes. h_outbox h' = h_outbox h @ [(p_address (peer_at h i), bytes)]
    \<and> length bytes = unat (p_mtu (peer_at h i)) + 4"
proof -
  obtain fs where fs: "map fst fs = map fst parts" "length (encode_frames fs) = parts_size parts"
    "h_outbox h' = h_outbox h @ [(p_address (peer_at h i), written_datagram h (peer_at h i) fs)]"
    using transmit_sends [OF assms(1,2,7)] assms(8) by blast
  have "h_commands h = map fst fs"
    using assms(1) fs(1) by (simp add: holds_parts_def)
  then have "list_ex (\<lambda>f. has_flag (hd_command (fst f)) ENET_PROTOCOL_COMMAND_FLAG_ACKNOWLEDGE) fs"
    using assms(4) by (simp add: list_ex_iff)
  then have "length (written_datagram h (peer_at h i) fs) = 8 + parts_size parts"
    using assms(5,6) fs(2) by (simp add: written_datagram_eq header_length packed_frames_def)
  then show ?thesis
    using fs(3) assms(3) by simp
qed

lemma parse_written:
  assumes "p_outgoingPeerID p \<le> ENET_PROTOCOL_MAXIMUM_PEER_ID" "p_outgoingSessionID p \<le> 3"
    and "h_receivedData k = written_datagram h p fs @ rest" "h_checksum k = h_checksum h"
  shows "parse_header k = \<lparr>dg_peerID = p_outgoingPeerID p,
      dg_sessionID = (if p_outgoingPeerID p < ENET_PROTOCOL_MAXIMUM_PEER_ID then p_outgoingSessionID p else 0),
      dg_flags = datagram_flags h fs, dg_headerSize = length (datagram_header_of h p fs)\<rparr>
    \<and> (has_flag (datagram_flags h fs) ENET_PROTOCOL_HEADER_FLAG_SENT_TIME
        \<longrightarrow> get16 (h_receivedData k) 2 = ucast (h_serviceTime h AND 0xFFFF))"
proof -
  let ?w = "p_outgoingPeerID p OR header_flags (datagram_flags h fs) p"
  obtain bs where header: "datagram_header_of h p fs = plain_header (h_serviceTime h) (datagram_flags h fs) p @ bs"
    by (cases "h_checksum h") (auto simp: datagram_header_of_def datagram_header_bytes_def Let_def
      intro: that [of "[]", simplified])
  have word: "get16 (h_receivedData k) 0 = ?w"
    by (simp add: assms(3) written_datagram_eq header plain_header_def codec_simps)
  note w = first_word [OF assms(1,2)]
  note fields = header_word [OF assms(1) w(2,3)]
  have session: "ucast (ucast x :: u16) = x" for x :: u8
    by (rule bit_word_eqI) (auto simp: bit_simps)
  have "parse_header k = \<lparr>dg_peerID = p_outgoingPeerID p,
      dg_sessionID = (if p_outgoingPeerID p < ENET_PROTOCOL_MAXIMUM_PEER_ID then p_outgoingSessionID p else 0),
      dg_flags = datagram_flags h fs, dg_headerSize = length (datagram_header_of h p fs)\<rparr>"
    unfolding parse_header_def Let_def word w(1) fields
    by (simp add: session header_length datagram_flags_test assms(4))
  moreover have "get16 (h_receivedData k) 2 = ucast (h_serviceTime h AND 0xFFFF)"
    if "has_flag (datagram_flags h fs) ENET_PROTOCOL_HEADER_FLAG_SENT_TIME"
    using that by (simp add: assms(3) written_datagram_eq header plain_header_def codec_simps)
  ultimately show ?thesis by blast
qed

text \<open>C40: The receiver reads back the header the sender wrote: the peer identifier, the session, the
  flags and the size of the header, and, where it is sent, the time.\<close>

theorem header_round_trip:
  assumes "p_outgoingPeerID p \<le> ENET_PROTOCOL_MAXIMUM_PEER_ID" "p_outgoingSessionID p \<le> 3"
    and "h_receivedData k = written_datagram h p fs @ rest" "h_checksum k = h_checksum h"
  shows "parse_header k = \<lparr>dg_peerID = p_outgoingPeerID p,
      dg_sessionID = (if p_outgoingPeerID p < ENET_PROTOCOL_MAXIMUM_PEER_ID then p_outgoingSessionID p else 0),
      dg_flags = datagram_flags h fs, dg_headerSize = length (datagram_header_of h p fs)\<rparr>
    \<and> (has_flag (datagram_flags h fs) ENET_PROTOCOL_HEADER_FLAG_SENT_TIME
        \<longrightarrow> get16 (h_receivedData k) 2 = ucast (h_serviceTime h AND 0xFFFF))"
  using assms by (rule parse_written)

text \<open>A ping with its frame, and the host that receives it.\<close>

definition ping_frame :: frame where
  "ping_frame = (\<lparr>hd_command = 0x85, hd_channelID = 0xFF, hd_reliableSequenceNumber = 1, pr_body = Ping\<rparr>, None)"

definition ping_received :: ENetHost where
  "ping_received = (sample_host [sample_peer])\<lparr>h_receivedAddress := \<lparr>ad_host = 1, ad_port = 2\<rparr>,
     h_receivedData := written_datagram (sample_host []) sample_peer [ping_frame],
     h_receivedDataLength := length (written_datagram (sample_host []) sample_peer [ping_frame])\<rparr>"

theorem header_round_trip_witness:
  "dg_peerID (parse_header ping_received) = 0
    \<and> dg_headerSize (parse_header ping_received) = length (datagram_header_of (sample_host []) sample_peer [ping_frame])"
  using header_round_trip [of sample_peer ping_received "sample_host []" "[ping_frame]" "[]"]
  by (simp add: ping_received_def sample_defs)

section \<open>The command loop\<close>

text \<open>A handler that accepts a command consumes the payload the command announces.\<close>

lemma handle_command_length:
  assumes "handle_command peer event c pos h = (0, peer', event', len, h')"
  shows "len = payload_length (pr_body c)"
proof (cases peer)
  case None
  then show ?thesis
    using assms by (cases "pr_body c") (auto simp: handle_command_def split: prod.splits option.splits)
next
  case (Some i)
  show ?thesis
  proof (cases "pr_body c")
    case (SendReliable n)
    then show ?thesis using assms Some
      by (auto simp: handle_command_def enet_protocol_handle_send_reliable_def Let_def split: prod.splits if_splits)
  next
    case (SendUnreliable u n)
    then show ?thesis using assms Some
      by (auto simp: handle_command_def enet_protocol_handle_send_unreliable_def Let_def split: prod.splits if_splits)
  next
    case (SendUnsequenced g n)
    then show ?thesis using assms Some
      by (auto simp: handle_command_def enet_protocol_handle_send_unsequenced_def Let_def
        split: prod.splits if_splits unsequenced_group.splits)
  next
    case (SendFragment f)
    then show ?thesis using assms Some
      by (auto simp: handle_command_def enet_protocol_handle_send_fragment_def Let_def
        split: prod.splits if_splits fragment_start.splits queue_result.splits)
  next
    case (SendUnreliableFragment f)
    then show ?thesis using assms Some
      by (auto simp: handle_command_def enet_protocol_handle_send_unreliable_fragment_def Let_def
        split: prod.splits if_splits fragment_start.splits queue_result.splits)
  qed (use assms Some in \<open>auto simp: handle_command_def split: prod.splits\<close>)
qed

text \<open>
  What the loop is to do with the frames behind the position: each command in turn is handled
  with its payload there and, where accepted, acknowledged.  \<open>None\<close> where the payload is not the
  frame's.
\<close>

fun process_frames ::
  "u16 \<Rightarrow> nat \<Rightarrow> frame list \<Rightarrow> nat option \<Rightarrow> ENetEvent option \<Rightarrow> ENetHost \<Rightarrow> (ENetEvent option \<times> ENetHost) option" where
  "process_frames sentTime pos [] peer event h = Some (event, h)"
| "process_frames sentTime pos (f # fs) peer event h =
     (let at = pos + enet_protocol_command_size (hd_command (fst f))
      in if payload h at (length (frame_payload f)) \<noteq> frame_payload f then None
         else if peer = None \<and> command_number (fst f) \<noteq> ENET_PROTOCOL_COMMAND_CONNECT then Some (event, h)
         else
           (case handle_command peer event (fst f) at h of
              (r, peer, event, _, h) \<Rightarrow>
                if r \<noteq> 0 then Some (event, h)
                else process_frames sentTime (at + length (frame_payload f)) fs peer event
                       (snd (acknowledge_command ENET_PROTOCOL_HEADER_FLAG_SENT_TIME sentTime peer (fst f) h))))"

lemma acknowledge_command_sent:
  assumes "has_flag (hd_command c) ENET_PROTOCOL_COMMAND_FLAG_ACKNOWLEDGE
    \<Longrightarrow> has_flag flags ENET_PROTOCOL_HEADER_FLAG_SENT_TIME \<and> t = t'"
  shows "acknowledge_command flags t peer c h
    = (True, snd (acknowledge_command ENET_PROTOCOL_HEADER_FLAG_SENT_TIME t' peer c h))"
  using assms by (cases peer) (auto simp: acknowledge_command_def Let_def has_flag_def)

lemma command_loop_frames:
  assumes "list_all frame_ok fs" "buffer_is D L n h" "data = take L D" "data = pre @ encode_frames fs"
    and "\<And>i. peer = Some i \<Longrightarrow> i < n"
    and "\<And>f. f \<in> set fs \<Longrightarrow> has_flag (hd_command (fst f)) ENET_PROTOCOL_COMMAND_FLAG_ACKNOWLEDGE
      \<Longrightarrow> has_flag flags ENET_PROTOCOL_HEADER_FLAG_SENT_TIME \<and> t = t'"
  shows "process_frames t' (length pre) fs peer event h = Some (command_loop data flags t (length pre) peer event h)"
  using assms
proof (induction fs arbitrary: pre peer event h)
  case Nil
  then show ?case by (simp add: command_loop.simps)
next
  case (Cons f fs)
  obtain c bs where f: "fst f = c" "frame_payload f = bs" by blast
  let ?at = "length pre + enet_protocol_command_size (hd_command c)"
  have c: "wf_command c" "length bs = payload_length (pr_body c)" "length (encode_command c) = enet_protocol_command_size (hd_command c)"
    using Cons.prems(1) f length_encode_command by (auto simp: frame_ok_def)
  have data: "data = (pre @ encode_command c) @ bs @ encode_frames fs"
    using Cons.prems(4) f by simp
  have pos: "length pre < length data"
    using data c(1,3) by (simp add: encode_command_def)
  have decode: "decode_command (drop (length pre) data) = Some (c, bs @ encode_frames fs)"
    using decode_encode_command [OF c(1)] data by simp
  have "length data \<le> L"
    using Cons.prems(3) by simp
  then have "take (length bs) (drop ?at (take L D)) = bs" "?at + length bs \<le> L"
    using data c(3) Cons.prems(3) by auto
  then have "take (length bs) (drop ?at D) = bs"
    by (simp add: drop_take min_def split: if_splits)
  then have load: "payload h ?at (length bs) = bs"
    using Cons.prems(2) by (simp add: payload_def buffer_is_def receive_view_def)
  obtain r peer' event' len h1 where hc: "handle_command peer event c ?at h = (r, peer', event', len, h1)"
    by (metis prod_cases5)
  note ack = acknowledge_command_sent [of c flags t t' peer' h1]
  have ack: "acknowledge_command flags t peer' c h1
      = (True, snd (acknowledge_command ENET_PROTOCOL_HEADER_FLAG_SENT_TIME t' peer' c h1))"
    using Cons.prems(6) [of f] f by (intro ack) simp
  have h1: "buffer_is D L n h1" "\<And>i. peer' = Some i \<Longrightarrow> i < n"
    using buffer.handle_command_keeps [OF Cons.prems(2,5) hc] by blast+
  define h2 where "h2 = snd (acknowledge_command ENET_PROTOCOL_HEADER_FLAG_SENT_TIME t' peer' c h1)"
  have h2: "buffer_is D L n h2"
    using buffer.acknowledge_keeps [OF h1(1), of peer'] h1(2) by (simp add: h2_def)
  have rest: "process_frames t' (?at + length bs) fs peer' event' h2
      = Some (command_loop data flags t (?at + length bs) peer' event' h2)"
  proof -
    have "process_frames t' (length (pre @ encode_command c @ bs)) fs peer' event' h2
        = Some (command_loop data flags t (length (pre @ encode_command c @ bs)) peer' event' h2)"
      using Cons.prems(1) h2 data h1(2) Cons.prems(6) by (intro Cons.IH Cons.prems(3)) auto
    then show ?thesis by (simp add: c(3) add.assoc)
  qed
  have loop: "command_loop data flags t (length pre) peer event h =
    (if peer = None \<and> command_number c \<noteq> ENET_PROTOCOL_COMMAND_CONNECT then (event, h)
     else if r \<noteq> 0 then (event', h1)
     else command_loop data flags t (?at + len) peer' event' h2)"
    using pos decode hc ack by (subst command_loop.simps) (simp add: h2_def)
  show ?case
    using handle_command_length [of peer event c ?at h peer' event' len h1] hc load rest loop c(2)
    by (simp add: f Let_def h2_def [symmetric])
qed

section \<open>A datagram from end to end\<close>

text \<open>
  The host once the datagram is decompressed and its checksum agreed: \<open>D\<close> is the buffer,
  \<open>L\<close> the length of what is in it.
\<close>

definition opened :: "nat option \<Rightarrow> u8 list \<Rightarrow> nat \<Rightarrow> ENetHost \<Rightarrow> ENetHost" where
  "opened peer D L k =
     (let k = k\<lparr>h_receivedData := D, h_receivedDataLength := L\<rparr>
      in case peer of
           None \<Rightarrow> k
         | Some i \<Rightarrow> upd_peer i (\<lambda>p. p\<lparr>p_address := h_receivedAddress k,
                          p_incomingDataTotal := p_incomingDataTotal p + of_nat L\<rparr>) k)"

lemma plain_header_time:
  "has_flag flags ENET_PROTOCOL_HEADER_FLAG_SENT_TIME
    \<Longrightarrow> get16 (plain_header now flags p @ xs) 2 = ucast (now AND 0xFFFF)"
  by (simp add: plain_header_def codec_simps)

lemma decompress_written:
  assumes "h_receivedData k = written_datagram h p fs @ rest"
    "h_receivedDataLength k = length (written_datagram h p fs)"
    and "dg_flags dg = datagram_flags h fs" "dg_headerSize dg = length (datagram_header_of h p fs)"
    and "length (encode_frames fs) \<le> 4088"
    and "\<And>out. packed_frames h fs = Some out \<Longrightarrow> \<exists>d. h_decompress k = Some d \<and>
      (\<forall>rest limit. length (encode_frames fs) \<le> unat limit \<longrightarrow> d (out @ rest) (of_nat (length out)) limit = encode_frames fs)"
  shows "\<exists>rest. decompress_datagram dg k = Some (k\<lparr>h_receivedData := datagram_header_of h p fs @ encode_frames fs @ rest,
    h_receivedDataLength := length (datagram_header_of h p fs) + length (encode_frames fs)\<rparr>)"
proof (cases "packed_frames h fs")
  case None
  then have "decompress_datagram dg k = Some k"
    using assms(3) datagram_flags_test(2) [of h fs] by (simp add: decompress_datagram_def)
  then show ?thesis
    using None assms(1,2) by (intro exI [of _ rest]) (simp add: written_datagram_eq)
next
  case (Some out)
  let ?n = "length (datagram_header_of h p fs)"
  obtain d where d: "h_decompress k = Some d" "\<And>rest limit. length (encode_frames fs) \<le> unat limit
      \<Longrightarrow> d (out @ rest) (of_nat (length out)) limit = encode_frames fs"
    using assms(6) [OF Some] by blast
  have "?n \<le> 8"
    by (simp add: header_length)
  then have "unat (4096 - of_nat ?n :: u64) = 4096 - ?n"
    by (simp add: unat_minus_cases word_le_nat_alt unat_of_nat_small)
  then have room: "length (encode_frames fs) \<le> unat (4096 - of_nat ?n :: u64)"
    using assms(5) \<open>?n \<le> 8\<close> by simp
  have "0 < length out \<and> length out < length (encode_frames fs)"
    using Some by (auto simp: packed_frames_def Let_def split: option.splits if_splits)
  then show ?thesis
    using assms(1-4) Some d(1) d(2) [OF room] room datagram_flags_test(2) [of h fs]
    by (auto simp: decompress_datagram_def written_datagram_eq Let_def intro!: exI [of _ "[]"])
qed

lemma checksum_written:
  assumes "h_checksum k = h_checksum h" "dg_headerSize dg = length (datagram_header_of h p fs)"
    and "h_receivedData k = datagram_header_of h p fs @ encode_frames fs @ rest"
    and "h_receivedDataLength k = length (datagram_header_of h p fs) + length (encode_frames fs)"
    and "checksum_connectID p = (case peer of None \<Rightarrow> 0 | Some i \<Rightarrow> p_connectID (peer_at k i))"
  shows "\<exists>xs. verify_checksum dg peer k = Some (k\<lparr>h_receivedData :=
      plain_header (h_serviceTime h) (datagram_flags h fs) p @ xs @ encode_frames fs @ rest\<rparr>)
    \<and> length (plain_header (h_serviceTime h) (datagram_flags h fs) p @ xs) = length (datagram_header_of h p fs)"
proof (cases "h_checksum h")
  case None
  then show ?thesis
    using assms(1,3) by (intro exI [of _ "[]"]) (simp add: verify_checksum_def datagram_header_of_def datagram_header_bytes_def)
next
  case (Some f)
  let ?plain = "plain_header (h_serviceTime h) (datagram_flags h fs) p"
  let ?c = "put32_native (checksum_connectID p)"
  have hdr: "datagram_header_of h p fs = ?plain @ put32_native (f (?plain @ ?c @ encode_frames fs))"
    using Some by (simp add: datagram_header_of_def datagram_header_bytes_def Let_def)
  have at: "dg_headerSize dg - 4 = length ?plain"
    by (simp add: assms(2) hdr codec_simps)
  have desired: "get32_native (h_receivedData k) (length ?plain) = f (?plain @ ?c @ encode_frames fs)"
    by (simp add: assms(3) hdr codec_simps)
  have data: "take (length ?plain) (h_receivedData k) @ ?c @ drop (length ?plain + 4) (h_receivedData k)
      = ?plain @ ?c @ encode_frames fs @ rest"
    by (simp add: assms(3) hdr codec_simps)
  have covered: "take (h_receivedDataLength k) (?plain @ ?c @ encode_frames fs @ rest) = ?plain @ ?c @ encode_frames fs"
    by (simp add: assms(4) hdr codec_simps)
  have "verify_checksum dg peer k = Some (k\<lparr>h_receivedData := ?plain @ ?c @ encode_frames fs @ rest\<rparr>)"
    unfolding verify_checksum_def assms(1) Some option.case Let_def at assms(5) [symmetric] data covered desired
    by simp
  then show ?thesis
    by (intro exI [of _ ?c]) (simp add: hdr codec_simps)
qed

lemma datagram_handled:
  assumes "list_all frame_ok fs" "length (encode_frames fs) \<le> 4088"
    and "p_outgoingPeerID p \<le> ENET_PROTOCOL_MAXIMUM_PEER_ID" "p_outgoingSessionID p \<le> 3"
    and "h_receivedData k = written_datagram h p fs @ rest"
      "h_receivedDataLength k = length (written_datagram h p fs)"
    and "header_peer k (parse_header k) = Some peer"
    and "h_checksum k = h_checksum h"
      "checksum_connectID p = (case peer of None \<Rightarrow> 0 | Some i \<Rightarrow> p_connectID (peer_at k i))"
    and "\<And>out. packed_frames h fs = Some out \<Longrightarrow> \<exists>d. h_decompress k = Some d \<and>
      (\<forall>rest limit. length (encode_frames fs) \<le> unat limit \<longrightarrow> d (out @ rest) (of_nat (length out)) limit = encode_frames fs)"
  shows "\<exists>D event' k'. process_frames (ucast (h_serviceTime h AND 0xFFFF)) (length (datagram_header_of h p fs)) fs peer event
      (opened peer D (length (datagram_header_of h p fs) + length (encode_frames fs)) k) = Some (event', k')
    \<and> enet_protocol_handle_incoming_commands event k = (event_reported event', event', k')"
proof -
  let ?dg = "parse_header k"
  let ?n = "length (datagram_header_of h p fs)" and ?m = "length (encode_frames fs)"
  let ?t = "ucast (h_serviceTime h AND 0xFFFF) :: u16"
  have dg: "dg_flags ?dg = datagram_flags h fs" "dg_headerSize ?dg = ?n"
    using parse_written [OF assms(3,4,5,8)] by simp_all
  obtain rest1 where dec: "decompress_datagram ?dg k
      = Some (k\<lparr>h_receivedData := datagram_header_of h p fs @ encode_frames fs @ rest1, h_receivedDataLength := ?n + ?m\<rparr>)"
    using decompress_written [OF assms(5,6) dg assms(2,10)] by blast
  let ?k1 = "k\<lparr>h_receivedData := datagram_header_of h p fs @ encode_frames fs @ rest1, h_receivedDataLength := ?n + ?m\<rparr>"
  obtain xs where chk: "verify_checksum ?dg peer ?k1 = Some (?k1\<lparr>h_receivedData :=
        plain_header (h_serviceTime h) (datagram_flags h fs) p @ xs @ encode_frames fs @ rest1\<rparr>)"
    and xs: "length (plain_header (h_serviceTime h) (datagram_flags h fs) p @ xs) = ?n"
    using checksum_written [of ?k1 h ?dg p fs rest1 peer] assms(8,9) dg(2)
    by (auto simp: peer_at_def cong: option.case_cong)
  define D where "D = plain_header (h_serviceTime h) (datagram_flags h fs) p @ xs @ encode_frames fs @ rest1"
  let ?k2 = "opened peer D (?n + ?m) k"
  have time: "get16 D 2 = ?t" if "has_flag (datagram_flags h fs) ENET_PROTOCOL_HEADER_FLAG_SENT_TIME"
    unfolding D_def by (rule plain_header_time [OF that])
  have known: "\<And>i. peer = Some i \<Longrightarrow> i < length (h_peers k)"
    using assms(7) by (auto simp: header_peer_def split: if_splits)
  have buffer: "buffer_is D (?n + ?m) (length (h_peers k)) ?k2"
    by (simp add: buffer_is_def receive_view_def opened_def upd_peer_def Let_def split: option.split)
  have data: "take (?n + ?m) D = (plain_header (h_serviceTime h) (datagram_flags h fs) p @ xs) @ encode_frames fs"
    using xs by (simp add: D_def)
  have big: "2 \<le> h_receivedDataLength k"
    by (simp add: assms(6) written_datagram_eq header_length)
  have run: "enet_protocol_handle_incoming_commands event k =
      (let (event, h) = command_loop (take (?n + ?m) D) (datagram_flags h fs) (get16 D 2) ?n peer event ?k2
       in (event_reported event, event, h))"
  proof -
    have order: "k\<lparr>h_receivedDataLength := L, h_receivedData := D\<rparr> = k\<lparr>h_receivedData := D, h_receivedDataLength := L\<rparr>" for L
      by (cases k) simp
    have fields: "h_receivedData (upd_peer i f j) = h_receivedData j" "h_receivedDataLength (upd_peer i f j) = h_receivedDataLength j"
      for i f j by (simp_all add: upd_peer_def)
    show ?thesis
      using big assms(7) dec chk dg
      by (simp add: enet_protocol_handle_incoming_commands_def Let_def opened_def D_def [symmetric] order fields
        split: option.split)
  qed
  have acks: "has_flag (datagram_flags h fs) ENET_PROTOCOL_HEADER_FLAG_SENT_TIME \<and> get16 D 2 = ?t"
    if "f \<in> set fs" "has_flag (hd_command (fst f)) ENET_PROTOCOL_COMMAND_FLAG_ACKNOWLEDGE" for f
  proof -
    have "has_flag (datagram_flags h fs) ENET_PROTOCOL_HEADER_FLAG_SENT_TIME"
      unfolding datagram_flags_test(1) list_ex_iff using that by blast
    then show ?thesis using time by simp
  qed
  have "process_frames ?t (length (plain_header (h_serviceTime h) (datagram_flags h fs) p @ xs)) fs peer event ?k2
      = Some (command_loop (take (?n + ?m) D) (datagram_flags h fs) (get16 D 2)
          (length (plain_header (h_serviceTime h) (datagram_flags h fs) p @ xs)) peer event ?k2)"
    using assms(1) buffer refl data known acks by (rule command_loop_frames)
  then show ?thesis
    unfolding xs run by (metis (no_types, lifting) case_prod_conv surj_pair)
qed

text \<open>C4: A datagram from end to end: where the receiver knows the sender under the identifiers in the
  header, uses the same checksum and undoes the compression, what
  \<open>enet_protocol_handle_incoming_commands\<close> does with the bytes the sender wrote for some commands
  is to hand these commands, in this order and each with its own payload, to their handlers, until
  one of them is refused, and to acknowledge those that ask for it with the time they were sent.\<close>

theorem datagram_reaches_handlers:
  assumes "list_all frame_ok fs" "length (encode_frames fs) \<le> 4088"
    and "p_outgoingPeerID p \<le> ENET_PROTOCOL_MAXIMUM_PEER_ID" "p_outgoingSessionID p \<le> 3"
    and "h_receivedData k = written_datagram h p fs @ rest"
      "h_receivedDataLength k = length (written_datagram h p fs)"
    and "header_peer k (parse_header k) = Some peer"
    and "h_checksum k = h_checksum h"
      "checksum_connectID p = (case peer of None \<Rightarrow> 0 | Some i \<Rightarrow> p_connectID (peer_at k i))"
    and "\<And>out. packed_frames h fs = Some out \<Longrightarrow> \<exists>d. h_decompress k = Some d \<and>
      (\<forall>rest limit. length (encode_frames fs) \<le> unat limit \<longrightarrow> d (out @ rest) (of_nat (length out)) limit = encode_frames fs)"
  shows "\<exists>D event' k'. process_frames (ucast (h_serviceTime h AND 0xFFFF)) (length (datagram_header_of h p fs)) fs peer event
      (opened peer D (length (datagram_header_of h p fs) + length (encode_frames fs)) k) = Some (event', k')
    \<and> enet_protocol_handle_incoming_commands event k = (event_reported event', event', k')"
  using assms by (rule datagram_handled)

theorem datagram_reaches_handlers_witness:
  "\<exists>D event' k'. process_frames 0 4 [ping_frame] (Some 0) None (opened (Some 0) D 8 ping_received) = Some (event', k')
    \<and> enet_protocol_handle_incoming_commands None ping_received = (event_reported event', event', k')"
proof -
  have data: "h_receivedData ping_received = written_datagram (sample_host []) sample_peer [ping_frame] @ []"
    "h_receivedDataLength ping_received = length (written_datagram (sample_host []) sample_peer [ping_frame])"
    "h_checksum ping_received = h_checksum (sample_host [])"
    by (simp_all add: ping_received_def sample_host_def)
  have frame: "list_all frame_ok [ping_frame]" "length (encode_frames [ping_frame]) = 4"
    by (simp_all add: ping_frame_def frame_ok_def wf_command_def command_number_def encode_command_def put16_def)
  have ids: "p_outgoingPeerID sample_peer \<le> ENET_PROTOCOL_MAXIMUM_PEER_ID" "p_outgoingSessionID sample_peer \<le> 3"
    by (simp_all add: sample_peer_def)
  have header: "length (datagram_header_of (sample_host []) sample_peer [ping_frame]) = 4"
    by (simp add: header_length ping_frame_def has_flag_def sample_host_def)
  have "dg_peerID (parse_header ping_received) = 0" "dg_sessionID (parse_header ping_received) = 0"
    using parse_written [OF ids data(1,3)] by (simp_all add: sample_peer_def)
  then have "header_peer ping_received (parse_header ping_received) = Some (Some 0)"
    by (simp add: header_peer_def wrong_sender_def peer_at_def) (simp add: ping_received_def sample_host_def sample_peer_def)
  moreover have "packed_frames (sample_host []) [ping_frame] = None" "h_serviceTime (sample_host []) = 0"
    "checksum_connectID sample_peer = p_connectID (peer_at ping_received 0)"
    by (simp_all add: packed_frames_def checksum_connectID_def ping_received_def peer_at_def sample_host_def sample_peer_def)
  ultimately show ?thesis
    using datagram_reaches_handlers [OF frame(1) _ ids data(1,2) _ data(3), of "Some 0" None] frame(2) header
    by (simp del: process_frames.simps encode_frames_simps)
qed

end
