(* ===== verification/Enet_Flow.thy ===== *)
theory Enet_Flow
  imports Enet_Reachable "HOL-Library.Multiset" "HOL-Library.Sublist"
begin

text \<open>
  What the send path does to the queues of reliable commands: a timeout takes back exactly the
  commands that are due, the choice of a datagram's commands neither loses nor duplicates one,
  and what is in transit stays within the window.
\<close>

section \<open>Timeouts\<close>

definition due :: "u32 \<Rightarrow> ENetOutgoingCommand \<Rightarrow> bool" where
  "due now oc \<longleftrightarrow> ENET_TIME_DIFFERENCE now (oc_sentTime oc) \<ge> oc_roundTripTimeout oc"

text \<open>The command as it is queued again, with its timeout doubled.\<close>

definition resent :: "ENetOutgoingCommand \<Rightarrow> ENetOutgoingCommand" where
  "resent oc = oc\<lparr>oc_roundTripTimeout := oc_roundTripTimeout oc * 2\<rparr>"

definition data_in_commands :: "ENetOutgoingCommand list \<Rightarrow> u32" where
  "data_in_commands ocs = sum_list (map (\<lambda>oc. ucast (oc_fragmentLength oc)) ocs)"

lemma timeout_loop_checked:
  assumes "timeout_loop now ocs kept again againReliable p = (TimeoutsChecked, q)"
  shows "p_sentReliableCommands q = kept @ filter (\<lambda>oc. \<not> due now oc) ocs
    \<and> p_outgoingCommands q = again @ map resent (filter (\<lambda>oc. due now oc \<and> oc_packet oc = None) ocs) @ p_outgoingCommands p
    \<and> p_outgoingSendReliableCommands q = againReliable
        @ map resent (filter (\<lambda>oc. due now oc \<and> oc_packet oc \<noteq> None) ocs) @ p_outgoingSendReliableCommands p
    \<and> p_packetsLost q = p_packetsLost p + of_nat (length (filter (due now) ocs))
    \<and> p_reliableDataInTransit q = p_reliableDataInTransit p
        - data_in_commands (filter (\<lambda>oc. due now oc \<and> oc_packet oc \<noteq> None) ocs)"
  using assms
proof (induction now ocs kept again againReliable p rule: timeout_loop.induct)
  case (1 now kept again againReliable p)
  then show ?case by (auto simp: requeue_def data_in_commands_def)
next
  case (2 now oc rest kept again againReliable p)
  have note1: "p_outgoingCommands (note_timeout oc p) = p_outgoingCommands p"
    "p_outgoingSendReliableCommands (note_timeout oc p) = p_outgoingSendReliableCommands p"
    "p_packetsLost (note_timeout oc p) = p_packetsLost p"
    "p_reliableDataInTransit (note_timeout oc p) = p_reliableDataInTransit p"
    by (simp_all add: note_timeout_def)
  have deadline: "p_outgoingCommands (next_deadline kept rest p) = p_outgoingCommands p"
    "p_outgoingSendReliableCommands (next_deadline kept rest p) = p_outgoingSendReliableCommands p"
    "p_packetsLost (next_deadline kept rest p) = p_packetsLost p"
    "p_reliableDataInTransit (next_deadline kept rest p) = p_reliableDataInTransit p" for p
    by (simp_all add: next_deadline_def split: list.split)
  show ?case
  proof (cases "ENET_TIME_DIFFERENCE now (oc_sentTime oc) < oc_roundTripTimeout oc")
    case True
    then show ?thesis
      using 2(1) [OF True] 2(4) by (simp add: due_def not_le)
  next
    case False
    then have due: "due now oc" by (simp add: due_def not_less)
    have up: "gives_up now oc (note_timeout oc p) = Some False"
      using 2(4) False by (auto simp: Let_def split: option.splits bool.splits)
    let ?p = "next_deadline kept rest (count_lost oc (note_timeout oc p))"
    show ?thesis
    proof (cases "oc_packet oc = None")
      case True
      have run: "timeout_loop now rest kept (again @ [resent oc]) againReliable ?p = (TimeoutsChecked, q)"
        using 2(4) False up True by (simp add: Let_def resent_def)
      note IH = 2(3) [OF False refl up refl refl refl _ run [unfolded resent_def]]
      show ?thesis
        using IH True due by (simp add: deadline note1 count_lost_def data_in_commands_def resent_def [symmetric])
    next
      case packet: False
      have run: "timeout_loop now rest kept again (againReliable @ [resent oc]) ?p = (TimeoutsChecked, q)"
        using 2(4) False up packet by (simp add: Let_def resent_def)
      note IH = 2(2) [OF False refl up refl refl refl packet run [unfolded resent_def]]
      show ?thesis
        using IH packet due by (simp add: deadline note1 count_lost_def data_in_commands_def resent_def [symmetric])
    qed
  qed
qed

text \<open>Where the loop gives up, some command was due long after the first loss.\<close>

definition lost_since :: "u32 \<Rightarrow> u32 \<Rightarrow> ENetOutgoingCommand \<Rightarrow> ENetPeer \<Rightarrow> bool" where
  "lost_since now start oc p \<longleftrightarrow> due now oc \<and> start \<noteq> 0
     \<and> (ENET_TIME_DIFFERENCE now start \<ge> p_timeoutMaximum p
        \<or> (ENET_TIME_DIFFERENCE now start \<ge> p_timeoutMinimum p
            \<and> push_bit (unat (oc_sendAttempts oc) - 1) 1 \<ge> p_timeoutLimit p))"

lemma timeout_loop_gives_up:
  assumes "timeout_loop now ocs kept again againReliable p = (PeerTimedOut, q)"
  shows "\<exists>oc start. oc \<in> set ocs \<and> start \<in> insert (p_earliestTimeout p) (oc_sentTime ` set ocs) \<and> lost_since now start oc p"
  using assms
proof (induction now ocs kept again againReliable p rule: timeout_loop.induct)
  case (2 now oc rest kept again againReliable p)
  show ?case
  proof (cases "ENET_TIME_DIFFERENCE now (oc_sentTime oc) < oc_roundTripTimeout oc")
    case True
    then show ?thesis
      using 2(1) [OF True] 2(4) by (auto simp: due_def not_le)
  next
    case False
    let ?n = "note_timeout oc p"
    let ?p = "next_deadline kept rest (count_lost oc ?n)"
    have p: "p_timeoutMaximum ?p = p_timeoutMaximum p" "p_timeoutMinimum ?p = p_timeoutMinimum p"
      "p_timeoutLimit ?p = p_timeoutLimit p" "p_earliestTimeout ?p = p_earliestTimeout ?n"
      by (simp_all add: next_deadline_def count_lost_def note_timeout_def split: list.split)
    have n: "p_earliestTimeout ?n \<in> {p_earliestTimeout p, oc_sentTime oc}"
      by (simp add: note_timeout_def)
    show ?thesis
    proof (cases "gives_up now oc ?n = Some True")
      case True
      then have "lost_since now (p_earliestTimeout ?n) oc p"
        using False by (auto simp: gives_up_def lost_since_def due_def Let_def not_less note_timeout_def split: if_splits)
      then show ?thesis using n by auto
    next
      case notTrue: False
      then have up: "gives_up now oc ?n = Some False"
        using 2(4) False by (auto simp: Let_def split: option.splits bool.splits)
      have "\<exists>oc' start. oc' \<in> set rest \<and> start \<in> insert (p_earliestTimeout ?p) (oc_sentTime ` set rest)
          \<and> lost_since now start oc' ?p"
      proof (cases "oc_packet oc = None")
        case True
        then show ?thesis
          using 2(3) [OF False refl up refl refl refl] 2(4) False up by (simp add: Let_def)
      next
        case packet: False
        then show ?thesis
          using 2(2) [OF False refl up refl refl refl packet] 2(4) False up by (simp add: Let_def)
      qed
      then obtain oc' start where "oc' \<in> set rest" "start \<in> insert (p_earliestTimeout ?p) (oc_sentTime ` set rest)"
        "lost_since now start oc' ?p"
        by blast
      then show ?thesis
        using n p by (intro exI [of _ oc'] exI [of _ start]) (auto simp: lost_since_def)
    qed
  qed
qed simp

text \<open>C15: A check of the timeouts that does not give up takes exactly the commands that are due from
  \<open>sentReliableCommands\<close>, whose others keep their order, and queues them before everything that waits,
  in the order they were sent, each with its timeout doubled, those with a packet before the queue of
  packets to send reliably, the others before the queue of commands.  The loss statistics and the count
  of data in transit follow.\<close>

theorem timeouts_requeue_due:
  assumes "i < length (h_peers h)" "enet_protocol_check_timeouts i ev h = (False, ev', h')" "\<not> en_fault h'"
  shows "p_sentReliableCommands (peer_at h' i)
      = filter (\<lambda>oc. \<not> due (h_serviceTime h) oc) (p_sentReliableCommands (peer_at h i))
    \<and> p_outgoingCommands (peer_at h' i)
      = map resent (filter (\<lambda>oc. due (h_serviceTime h) oc \<and> oc_packet oc = None) (p_sentReliableCommands (peer_at h i)))
        @ p_outgoingCommands (peer_at h i)
    \<and> p_outgoingSendReliableCommands (peer_at h' i)
      = map resent (filter (\<lambda>oc. due (h_serviceTime h) oc \<and> oc_packet oc \<noteq> None) (p_sentReliableCommands (peer_at h i)))
        @ p_outgoingSendReliableCommands (peer_at h i)
    \<and> p_packetsLost (peer_at h' i) = p_packetsLost (peer_at h i)
        + of_nat (length (filter (due (h_serviceTime h)) (p_sentReliableCommands (peer_at h i))))
    \<and> p_reliableDataInTransit (peer_at h' i) = p_reliableDataInTransit (peer_at h i)
        - data_in_commands (filter (\<lambda>oc. due (h_serviceTime h) oc \<and> oc_packet oc \<noteq> None) (p_sentReliableCommands (peer_at h i)))"
proof -
  obtain outcome q where loop:
    "timeout_loop (h_serviceTime h) (p_sentReliableCommands (peer_at h i)) [] [] [] (peer_at h i) = (outcome, q)"
    by fastforce
  have "outcome = TimeoutsChecked" "h' = upd_peer i (\<lambda>_. q) h"
    using assms(2,3) loop unfolding enet_protocol_check_timeouts_def Let_def
    by (auto simp: raise_fault_def split: timeouts.splits prod.splits)
  then show ?thesis
    using timeout_loop_checked loop assms(1) by fastforce
qed

text \<open>A command sent once, at time 1, to be answered within half a second.\<close>

definition sent_ping :: ENetOutgoingCommand where
  "sent_ping = \<lparr>oc_reliableSequenceNumber = 1, oc_unreliableSequenceNumber = 0, oc_sentTime = 1,
     oc_roundTripTimeout = 500, oc_queueTime = 0, oc_fragmentOffset = 0, oc_fragmentLength = 0,
     oc_sendAttempts = 1, oc_command = \<lparr>hd_command = 0x85, hd_channelID = 0xFF, hd_reliableSequenceNumber = 1,
       pr_body = Ping\<rparr>, oc_packet = None\<rparr>"

definition waiting_host :: "u32 \<Rightarrow> u32 \<Rightarrow> ENetHost" where
  "waiting_host earliest now = (sample_host [sample_peer\<lparr>p_sentReliableCommands := [sent_ping],
     p_earliestTimeout := earliest\<rparr>])\<lparr>h_serviceTime := now\<rparr>"

lemma waiting_host_loop:
  "timeout_loop 600 [sent_ping] [] [] [] (peer_at (waiting_host 0 600) 0) = (TimeoutsChecked,
     requeue [] [resent sent_ping] [] (count_lost sent_ping (note_timeout sent_ping (peer_at (waiting_host 0 600) 0))))"
  by (simp add: waiting_host_def sample_host_def sample_peer_def peer_at_def sent_ping_def enet_time_defs
      note_timeout_def gives_up_def next_deadline_def count_lost_def resent_def)

theorem timeouts_requeue_due_witness:
  "p_outgoingCommands (peer_at (snd (snd (enet_protocol_check_timeouts 0 None (waiting_host 0 600)))) 0) = [resent sent_ping]"
proof -
  let ?h = "waiting_host 0 600"
  let ?p = "requeue [] [resent sent_ping] [] (count_lost sent_ping (note_timeout sent_ping (peer_at ?h 0)))"
  have h: "p_sentReliableCommands (peer_at ?h 0) = [sent_ping]" "h_serviceTime ?h = 600" "0 < length (h_peers ?h)"
    "p_outgoingCommands (peer_at ?h 0) = []" "\<not> en_fault ?h"
    by (simp_all add: waiting_host_def sample_host_def sample_peer_def peer_at_def)
  have run: "enet_protocol_check_timeouts 0 None ?h = (False, None, upd_peer 0 (\<lambda>_. ?p) ?h)"
    by (simp add: enet_protocol_check_timeouts_def h waiting_host_loop del: timeout_loop.simps)
  have "due 600 sent_ping" "oc_packet sent_ping = None"
    by (simp_all add: due_def sent_ping_def enet_time_defs)
  then show ?thesis
    using timeouts_requeue_due [OF h(3) run] h by (simp add: run)
qed

text \<open>C37: A peer is given up only after a command timed out and either \<open>timeoutMaximum\<close> has passed since the
  earliest loss, or \<open>timeoutMinimum\<close> has and the command was resent so often that its backoff has
  reached \<open>timeoutLimit\<close>.\<close>

theorem peer_given_up_late:
  assumes "enet_protocol_check_timeouts i ev h = (True, ev', h')"
  shows "\<exists>oc start. oc \<in> set (p_sentReliableCommands (peer_at h i))
    \<and> start \<in> insert (p_earliestTimeout (peer_at h i)) (oc_sentTime ` set (p_sentReliableCommands (peer_at h i)))
    \<and> lost_since (h_serviceTime h) start oc (peer_at h i)"
proof -
  obtain outcome q where loop:
    "timeout_loop (h_serviceTime h) (p_sentReliableCommands (peer_at h i)) [] [] [] (peer_at h i) = (outcome, q)"
    by fastforce
  have "outcome = PeerTimedOut"
    using assms loop by (auto simp: enet_protocol_check_timeouts_def Let_def split: timeouts.splits prod.splits)
  then show ?thesis
    using timeout_loop_gives_up loop by blast
qed

theorem peer_given_up_late_witness:
  "\<exists>start. start = 1 \<and> lost_since 30001 start sent_ping (peer_at (waiting_host 1 30001) 0)"
proof -
  let ?h = "waiting_host 1 30001"
  have h: "p_sentReliableCommands (peer_at ?h 0) = [sent_ping]" "h_serviceTime ?h = 30001" "p_earliestTimeout (peer_at ?h 0) = 1"
    by (simp_all add: waiting_host_def sample_host_def sample_peer_def peer_at_def)
  have "fst (timeout_loop 30001 [sent_ping] [] [] [] (peer_at ?h 0)) = PeerTimedOut"
    by (simp add: waiting_host_def sample_host_def sample_peer_def peer_at_def sent_ping_def enet_time_defs
      note_timeout_def gives_up_def)
  then have "fst (enet_protocol_check_timeouts 0 None ?h)"
    by (cases "timeout_loop 30001 [sent_ping] [] [] [] (peer_at ?h 0)")
      (simp add: enet_protocol_check_timeouts_def h case_prod_beta)
  then obtain ev' h' where "enet_protocol_check_timeouts 0 None ?h = (True, ev', h')"
    by (cases "enet_protocol_check_timeouts 0 None ?h") auto
  from peer_given_up_late [OF this] show ?thesis
    by (simp add: h sent_ping_def)
qed

section \<open>A fault stays\<close>

named_theorems faults

lemma faults_memory [faults]:
  "en_fault m \<Longrightarrow> en_fault (packet_unref e k m)" "en_fault m \<Longrightarrow> en_fault (outgoing_unref e oc m)"
  "en_fault m \<Longrightarrow> en_fault (packet_addref r k m)" "en_fault m \<Longrightarrow> en_fault (snd (enet_malloc m))"
proof -
  show unref: "en_fault (packet_unref e k m)" if "en_fault m" for e k and m :: "'a memory_scheme"
    using that by (simp add: packet_unref_def enet_packet_destroy_def raise_fault_def Let_def split: option.split)
  show "en_fault m \<Longrightarrow> en_fault (outgoing_unref e oc m)"
    by (simp add: outgoing_unref_def unref split: option.split)
  show "en_fault m \<Longrightarrow> en_fault (packet_addref r k m)"
    by (simp add: packet_addref_def raise_fault_def split: option.split)
  show "en_fault m \<Longrightarrow> en_fault (snd (enet_malloc m))"
    by (simp add: enet_malloc_def Let_def)
qed

lemma faults_queues [faults]:
  "en_fault m \<Longrightarrow> en_fault (enet_peer_reset_outgoing_commands ocs m)"
  "en_fault m \<Longrightarrow> en_fault (enet_peer_reset_incoming_commands ics m)"
  "en_fault m \<Longrightarrow> en_fault (fold reset_channel chs m)"
  "en_fault m \<Longrightarrow> en_fault (release_queues p m)"
proof -
  show out: "en_fault (enet_peer_reset_outgoing_commands ocs m)" if "en_fault m" for ocs and m :: "'a memory_scheme"
    using that by (induction ocs m rule: enet_peer_reset_outgoing_commands.induct) (simp_all add: faults)
  show inc: "en_fault (enet_peer_reset_incoming_commands ics m)" if "en_fault m" for ics and m :: "'a memory_scheme"
    using that by (induction ics arbitrary: m) (auto simp: enet_peer_reset_incoming_commands_def faults split: option.split)
  show chans: "en_fault (fold reset_channel chs m)" if "en_fault m" for chs and m :: "'a memory_scheme"
    using that by (induction chs arbitrary: m) (simp_all add: reset_channel_def inc)
  show "en_fault m \<Longrightarrow> en_fault (release_queues p m)"
    by (simp add: release_queues_def Let_def out inc chans)
qed

lemma faults_drop [faults]:
  "en_fault m \<Longrightarrow> en_fault (drop_packet oc m)"
  "en_fault m \<Longrightarrow> en_fault (snd (drop_same_numbers k u ocs m))"
proof -
  show one: "en_fault (drop_packet oc m)" if "en_fault m" for oc and m :: "'a memory_scheme"
    using that by (simp add: drop_packet_def raise_fault_def faults split: option.split)
  show "en_fault m \<Longrightarrow> en_fault (snd (drop_same_numbers k u ocs m))"
    by (induction k u ocs m rule: drop_same_numbers.induct) (simp_all add: one)
qed

lemma faults_outgoing_step:
  assumes "outgoing_step reliable oc s = (goes, s')" "en_fault (os_host s)"
  shows "en_fault (os_host s')"
proof -
  have put: "en_fault (os_host (put_outgoing oc s)) = en_fault (os_host s)" for s
    by (simp add: put_outgoing_def put_command_def Let_def split: option.split)
  from assms(1) show ?thesis
  proof (cases rule: outgoing_step_cases)
    case (dropped rest h)
    then show ?thesis
      using assms(2) faults_drop(2) [OF faults_drop(1) [OF assms(2), of oc], of "oc_reliableSequenceNumber oc"
        "oc_unreliableSequenceNumber oc" "os_ahead s"] by simp
  qed (use assms(2) in \<open>simp_all add: put keep_command_def skip_reliable_def\<close>)
qed

lemma faults_disconnect_delayed:
  assumes "p_state (peer_at h i) = DISCONNECT_LATER" "en_fault h"
  shows "en_fault (disconnect_delayed i d h)"
proof -
  have clear: "en_fault (clear_needs_dispatch i h)"
    using assms(2) by (simp add: clear_needs_dispatch_def dispatch_remove_def raise_fault_def)
  have reset: "en_fault (enet_peer_reset_queues i h)"
    using clear by (simp add: enet_peer_reset_queues_def Let_def faults)
  have queued: "en_fault k \<Longrightarrow> en_fault (enet_peer_setup_outgoing_command i oc k)" for k oc
    by (simp add: enet_peer_setup_outgoing_command_def raise_fault_def Let_def)
  have "en_fault (snd (enet_peer_queue_outgoing_command i c None a b k))" if "en_fault k" for c a b k
    using faults_memory(4) [OF that]
    by (cases "enet_malloc k") (auto simp: enet_peer_queue_outgoing_command_def queued split: option.split)
  then show ?thesis
    using reset by (simp add: disconnect_delayed_eq [OF assms(1)] enet_peer_on_disconnect_def Let_def)
qed

text \<open>What a delayed disconnection leaves in the queues: at most the command that tells the other side.\<close>

lemma disconnect_delayed_queues:
  fixes d :: u32
  assumes "p_state (peer_at h i) = DISCONNECT_LATER" "i < length (h_peers h)"
  defines "q \<equiv> peer_at (disconnect_delayed i d h) i"
  shows "p_state q = DISCONNECTING" "p_sentReliableCommands q = []" "p_outgoingSendReliableCommands q = []"
    "length (p_outgoingCommands q) \<le> 1" "\<forall>oc \<in> set (p_outgoingCommands q). pr_body (oc_command oc) = Disconnect d"
    "p_reliableDataInTransit q = p_reliableDataInTransit (peer_at h i)"
proof -
  define k where "k = enet_peer_reset_queues i h"
  have more: "memory.more (release_queues p m) = memory.more m" for p and m :: ENetHost
    by (simp add: mem_frame)
  have cleared: "p_reliableDataInTransit (peer_at (clear_needs_dispatch i h) i) = p_reliableDataInTransit (peer_at h i)"
    "length (h_peers (clear_needs_dispatch i h)) = length (h_peers h)"
    using assms(2) by (simp_all add: clear_needs_dispatch_def dispatch_remove_def raise_fault_def upd_peer_def peer_at_def)
  have k: "p_sentReliableCommands (peer_at k i) = []" "p_outgoingCommands (peer_at k i) = []"
    "p_outgoingSendReliableCommands (peer_at k i) = []" "i < length (h_peers k)"
    "p_reliableDataInTransit (peer_at k i) = p_reliableDataInTransit (peer_at h i)"
    using assms(2) cleared by (simp_all add: k_def enet_peer_reset_queues_def Let_def clear_queues_def more_host_fields [OF more])
  let ?c = "host_command ENET_PROTOCOL_COMMAND_FLAG_ACKNOWLEDGE (Disconnect d)"
  obtain r m where m: "enet_malloc k = (r, m)" by force
  then have "m = k\<lparr>en_next := Suc (en_next k)\<rparr>"
    by (simp add: enet_malloc_def Let_def)
  then have same: "peer_at m i = peer_at k i" "i < length (h_peers m)"
    using k(4) by (simp_all add: peer_at_def)
  let ?oc = "new_outgoing_command ?c None 0 0"
  have "snd (enet_peer_queue_outgoing_command i ?c None 0 0 k) = (if r = None then m
      else upd_peer i (setup_outgoing_command (h_totalQueued m + 1) ?oc) (m\<lparr>h_totalQueued := h_totalQueued m + 1\<rparr>))"
    using m by (cases r) (simp_all add: enet_peer_queue_outgoing_command_def enet_peer_setup_outgoing_command_def
        new_outgoing_command_def host_command_def Let_def)
  moreover have "i < length (h_peers (m\<lparr>h_totalQueued := a\<rparr>))" "peer_at (m\<lparr>h_totalQueued := a\<rparr>) i = peer_at k i" for a
    using same by (simp_all add: peer_at_def)
  ultimately have queued: "peer_at (snd (enet_peer_queue_outgoing_command i ?c None 0 0 k)) i
      = (if r = None then peer_at k i else setup_outgoing_command (h_totalQueued m + 1) ?oc (peer_at k i))"
    "i < length (h_peers (snd (enet_peer_queue_outgoing_command i ?c None 0 0 k)))"
    using same by simp_all
  have len: "i < length (h_peers (enet_peer_on_disconnect i j))" if "i < length (h_peers j)" for j
    using that by (simp add: enet_peer_on_disconnect_def Let_def)
  have q: "q = (if r = None then peer_at k i else setup_outgoing_command (h_totalQueued m + 1) ?oc (peer_at k i))
      \<lparr>p_state := DISCONNECTING\<rparr>"
    using len [OF queued(2)] by (simp add: q_def disconnect_delayed_eq [OF assms(1)] k_def [symmetric] queued(1))
  have "hd_channelID ?c = 0xFF"
    by (simp add: host_command_def)
  then show "p_state q = DISCONNECTING" "p_sentReliableCommands q = []" "p_outgoingSendReliableCommands q = []"
    "length (p_outgoingCommands q) \<le> 1" "\<forall>oc \<in> set (p_outgoingCommands q). pr_body (oc_command oc) = Disconnect d"
    "p_reliableDataInTransit q = p_reliableDataInTransit (peer_at h i)"
    unfolding q using k by (simp_all add: setup_outgoing_command_def number_outgoing_command_def Let_def new_outgoing_command_def host_command_def)
qed

section \<open>Commands are neither lost nor duplicated\<close>

text \<open>A command without what sending it changes.\<close>

definition sent_key :: "ENetOutgoingCommand \<Rightarrow> ENetOutgoingCommand" where
  "sent_key oc = oc\<lparr>oc_sendAttempts := 0, oc_sentTime := 0, oc_roundTripTimeout := 0\<rparr>"

definition reliable_keys :: "ENetOutgoingCommand list \<Rightarrow> ENetOutgoingCommand multiset" where
  "reliable_keys ocs = mset (map sent_key (filter acknowledged ocs))"

lemma reliable_keys_simps [simp]:
  "reliable_keys [] = {#}" "reliable_keys (xs @ ys) = reliable_keys xs + reliable_keys ys"
  "reliable_keys (oc # ocs) = (if acknowledged oc then add_mset (sent_key oc) (reliable_keys ocs) else reliable_keys ocs)"
  by (simp_all add: reliable_keys_def)

text \<open>The reliable commands that wait, and those that were sent.\<close>

definition reliable_waiting :: "outgoing_state \<Rightarrow> ENetOutgoingCommand multiset" where
  "reliable_waiting s = reliable_keys (os_passed s) + reliable_keys (os_ahead s)
     + reliable_keys (os_passedReliable s) + reliable_keys (os_aheadReliable s)"

definition keys_sent :: "ENetPeer \<Rightarrow> ENetOutgoingCommand multiset" where
  "keys_sent p = mset (map sent_key (p_sentReliableCommands p))"

text \<open>
  The packet throttle drops the commands behind a packet that have its two sequence numbers, a
  reliable one among them where the numbers meet.  It has no packet to let go of: the code follows a
  null pointer there.
\<close>

lemma drop_same_numbers_keys:
  assumes "\<not> en_fault (snd (drop_same_numbers k u ocs m))" "\<forall>b \<in> set ocs. unpacked b"
  shows "reliable_keys (fst (drop_same_numbers k u ocs m)) = reliable_keys ocs"
  using assms
proof (induction k u ocs m rule: drop_same_numbers.induct)
  case (2 k u oc rest m)
  show ?case
  proof (cases "oc_reliableSequenceNumber oc \<noteq> k \<or> oc_unreliableSequenceNumber oc \<noteq> u")
    case False
    then have "\<not> en_fault (snd (drop_same_numbers k u rest (drop_packet oc m)))"
      using 2(2) by simp
    then have "\<not> en_fault (drop_packet oc m)"
      using faults_drop(2) by blast
    then have "\<not> acknowledged oc"
      using 2(3) by (auto simp: drop_packet_def unpacked_def acknowledged_def raise_fault_def)
    then show ?thesis
      using 2 False by simp
  qed simp
qed simp

lemma keys_sent_record: "keys_sent (record_sent_reliable now oc p) = add_mset (sent_key oc) (keys_sent p)"
proof -
  have "p_sentReliableCommands (upd_channel c f p) = p_sentReliableCommands p" for c f
    by (simp add: upd_channel_def)
  then show ?thesis
    by (simp add: record_sent_reliable_def keys_sent_def sent_key_def Let_def split: option.split)
qed

lemma outgoing_step_keys:
  assumes "outgoing_step reliable oc s = (goes, s')" "\<not> en_fault (os_host s')" "\<forall>b \<in> set (os_ahead s). unpacked b"
  shows "reliable_waiting s' + keys_sent (os_peer s')
    = reliable_waiting s + keys_sent (os_peer s) + reliable_keys [oc]"
proof -
  have put: "reliable_waiting (put_outgoing oc s) = reliable_waiting s" "keys_sent (os_peer (put_outgoing oc s)) = keys_sent (os_peer s)" for s
    by (simp_all add: put_outgoing_def reliable_waiting_def keys_sent_def Let_def)
  have waiting: "reliable_waiting (keep_command reliable oc s) = reliable_waiting s + reliable_keys [oc]"
    "reliable_waiting (skip_reliable s) = reliable_waiting s" "os_peer (keep_command reliable oc s) = os_peer s"
    "os_peer (skip_reliable s) = os_peer s" for s
    by (simp_all add: keep_command_def skip_reliable_def reliable_waiting_def)
  from assms(1) show ?thesis
  proof (cases rule: outgoing_step_cases)
    case (dropped rest h)
    have "reliable_keys rest = reliable_keys (os_ahead s)"
      using drop_same_numbers_keys [of "oc_reliableSequenceNumber oc" "oc_unreliableSequenceNumber oc" "os_ahead s"
          "drop_packet oc (os_host s)"] dropped(5,6) assms(2,3) by simp
    then show ?thesis
      using dropped by (simp add: reliable_waiting_def keys_sent_def count_throttle_def)
  next
    case reliable
    then show ?thesis
      by (simp add: put keys_sent_record) (simp add: reliable_waiting_def)
  next
    case (unreliable p)
    then have "keys_sent p = keys_sent (os_peer s)"
      by (auto simp: keys_sent_def count_throttle_def)
    then show ?thesis
      using unreliable(2) unfolding unreliable(5) put by (simp add: reliable_waiting_def)
  qed (simp_all add: waiting, simp_all add: reliable_waiting_def keys_sent_def)
qed

lemma drop_same_numbers_suffix: "suffix (fst (drop_same_numbers k u ocs m)) ocs"
  by (induction k u ocs m rule: drop_same_numbers.induct) (auto simp: suffix_Cons)

lemma subseq_remove: "subseq (xs @ x # ys) zs \<Longrightarrow> subseq (xs @ ys) zs"
  by (meson subseq_append' list_emb_Cons subseq_order.order_refl subseq_order.order_trans)

lemma subseq_set: "subseq xs ys \<Longrightarrow> set xs \<subseteq> set ys"
  by (auto simp: subseq_conv_nths dest: in_set_nthsD)

lemma outgoing_step_frame:
  assumes "outgoing_step reliable oc s = (goes, s')"
  shows "p_state (os_peer s') = p_state (os_peer s) \<and> length (h_peers (os_host s')) = length (h_peers (os_host s))"
proof -
  have put: "p_state (os_peer (put_outgoing oc s)) = p_state (os_peer s)"
    "h_peers (os_host (put_outgoing oc s)) = h_peers (os_host s)" for s
    by (simp_all add: put_outgoing_def put_command_def Let_def split: option.split)
  have p: "p_state (record_sent_reliable now oc p) = p_state p" "p_state (count_throttle p) = p_state p" for now p
    by (simp_all add: record_sent_reliable_def count_throttle_def Let_def upd_channel_def split: option.split)
  from assms show ?thesis
  proof (cases rule: outgoing_step_cases)
    case (dropped rest h)
    have "memory.more h = memory.more (os_host s)"
      using arg_cong [OF dropped(5), of "\<lambda>x. memory.more (snd x)"] by (simp add: mem_frame)
    then show ?thesis
      using dropped(6) more_host_fields(1) [of h "os_host s"] by (simp add: p)
  next
    case (unreliable q)
    then show ?thesis by (auto simp: put p)
  qed (simp_all add: put p keep_command_def skip_reliable_def)
qed

definition queues_within :: "ENetPeer \<Rightarrow> outgoing_state \<Rightarrow> bool" where
  "queues_within p s \<longleftrightarrow>
     subseq (os_passed s @ os_ahead s) (p_outgoingCommands p)
     \<and> subseq (os_passedReliable s @ os_aheadReliable s) (p_outgoingSendReliableCommands p)
     \<and> prefix (p_sentReliableCommands p) (p_sentReliableCommands (os_peer s))"

lemma outgoing_step_within:
  assumes "queues_within p s" "next_outgoing (os_ahead s) (os_aheadReliable s) = Some (reliable, oc, cs, rs)"
    and "outgoing_step reliable oc (s\<lparr>os_ahead := cs, os_aheadReliable := rs\<rparr>) = (goes, s')"
  shows "queues_within p s'"
proof -
  let ?s = "s\<lparr>os_ahead := cs, os_aheadReliable := rs\<rparr>"
  have put: "queues_within p (put_outgoing oc s) = queues_within p s" for s
    by (simp add: put_outgoing_def queues_within_def Let_def)
  have within: "queues_within p (keep_command reliable oc ?s)"
    using assms(1) next_outgoing_parts [OF assms(2)]
    by (auto simp: keep_command_def queues_within_def split: if_splits)
  have removed: "queues_within p ?s"
    using assms(1) next_outgoing_parts [OF assms(2)] by (auto simp: queues_within_def split: if_splits intro: subseq_remove)
  from assms(3) show ?thesis
  proof (cases rule: outgoing_step_cases)
    case (dropped rest h)
    have "suffix rest cs"
      using drop_same_numbers_suffix [of "oc_reliableSequenceNumber oc" "oc_unreliableSequenceNumber oc" cs
          "drop_packet oc (os_host ?s)"] dropped(5) by simp
    then have "subseq (os_passed s @ rest) (os_passed s @ cs)"
      by (auto simp: subseq_append')
    then show ?thesis
      using removed dropped(6) subseq_order.order_trans by (auto simp: queues_within_def count_throttle_def)
  next
    case reliable
    have "prefix (p_sentReliableCommands q) (p_sentReliableCommands (record_sent_reliable now oc q))" for now q
      by (simp add: record_sent_reliable_def Let_def upd_channel_def split: option.split)
    then show ?thesis
      using removed unfolding reliable(5) put by (auto simp: queues_within_def intro: prefix_order.trans)
  next
    case (unreliable q)
    then have "p_sentReliableCommands q = p_sentReliableCommands (os_peer s)"
      by (auto simp: count_throttle_def)
    then show ?thesis
      using removed unfolding unreliable(5) put by (simp add: queues_within_def)
  qed (use within in \<open>cases reliable; simp add: queues_within_def keep_command_def skip_reliable_def\<close>)+
qed

section \<open>Data in transit\<close>

text \<open>What may be in transit: the throttled window, or one datagram.\<close>

definition transit_limit :: "ENetPeer \<Rightarrow> u32" where
  "transit_limit p = ENET_MAX ((p_packetThrottle p * p_windowSize p) div ENET_PEER_PACKET_THROTTLE_SCALE) (p_mtu p)"

lemma outgoing_step_transit:
  assumes "outgoing_step reliable oc s = (goes, s')" "oc_ok oc"
  shows "transit_limit (os_peer s') = transit_limit (os_peer s)
    \<and> (p_reliableDataInTransit (os_peer s') = p_reliableDataInTransit (os_peer s)
       \<or> p_reliableDataInTransit (os_peer s') \<le> transit_limit (os_peer s))"
proof -
  have put: "transit_limit (os_peer (put_outgoing oc s)) = transit_limit (os_peer s)"
    "p_reliableDataInTransit (os_peer (put_outgoing oc s)) = p_reliableDataInTransit (os_peer s)" for s
    by (simp_all add: put_outgoing_def transit_limit_def Let_def)
  have recorded: "transit_limit (record_sent_reliable now oc p) = transit_limit p"
    "p_reliableDataInTransit (record_sent_reliable now oc p) = p_reliableDataInTransit p + ucast (oc_fragmentLength oc)" for now p
    by (simp_all add: record_sent_reliable_def transit_limit_def Let_def upd_channel_def split: option.split)
  have throttle: "transit_limit (count_throttle p) = transit_limit p"
    "p_reliableDataInTransit (count_throttle p) = p_reliableDataInTransit p" for p
    by (simp_all add: count_throttle_def transit_limit_def)
  from assms(1) show ?thesis
  proof (cases rule: outgoing_step_cases)
    case reliable
    then have "\<not> exceeds_transit oc (os_peer s)"
      by (auto simp: reliable_gate_def split: option.splits if_splits)
    then have "ucast (oc_fragmentLength oc) = (0 :: u32)
        \<or> p_reliableDataInTransit (os_peer s) + ucast (oc_fragmentLength oc) \<le> transit_limit (os_peer s)"
      using assms(2) by (auto simp: exceeds_transit_def transit_limit_def oc_ok_def)
    then show ?thesis
      using reliable by (auto simp: put recorded)
  next
    case (dropped rest h)
    then show ?thesis by (simp add: throttle)
  next
    case (unreliable p)
    then show ?thesis by (auto simp: put throttle)
  qed (simp_all add: keep_command_def skip_reliable_def transit_limit_def)
qed

section \<open>The choice of the commands\<close>

text \<open>
  What the choice makes of the peer, \<open>q\<close>, and of the host, \<open>k\<close>; where the peer has nothing left and
  waits to be disconnected, that follows.
\<close>

definition chosen :: "nat \<Rightarrow> ENetHost \<Rightarrow> ENetPeer \<Rightarrow> ENetHost \<Rightarrow> bool" where
  "chosen i h q k \<longleftrightarrow> peer_at k i = q \<and> i < length (h_peers k) \<and> p_state q = p_state (peer_at h i)
     \<and> subseq (p_outgoingCommands q) (p_outgoingCommands (peer_at h i))
     \<and> subseq (p_outgoingSendReliableCommands q) (p_outgoingSendReliableCommands (peer_at h i))
     \<and> prefix (p_sentReliableCommands (peer_at h i)) (p_sentReliableCommands q)
     \<and> (en_fault k \<or> reliable_keys (p_outgoingCommands q) + reliable_keys (p_outgoingSendReliableCommands q) + keys_sent q
          = reliable_keys (p_outgoingCommands (peer_at h i)) + reliable_keys (p_outgoingSendReliableCommands (peer_at h i))
            + keys_sent (peer_at h i))
     \<and> p_reliableDataInTransit q \<le> max (p_reliableDataInTransit (peer_at h i)) (transit_limit (peer_at h i))"

lemma outgoing_chosen:
  assumes "host_ok n h" "i < n" "enet_protocol_check_outgoing_commands i sent h = (mayPing, sent', h')"
  shows "\<exists>q k. chosen i h q k
    \<and> (h' = k \<or> (p_state q = DISCONNECT_LATER \<and> \<not> enet_peer_has_outgoing_commands q
         \<and> h' = disconnect_delayed i (p_eventData q) k))"
proof -
  let ?p = "peer_at h i"
  let ?s = "\<lparr>os_host = h, os_peer = ?p, os_sentUnreliable = sent, os_windowWrap = False,
      os_canPing = True, os_passed = [], os_ahead = p_outgoingCommands ?p,
      os_passedReliable = [], os_aheadReliable = p_outgoingSendReliableCommands ?p\<rparr>"
  define s where "s = outgoing_loop ?s"
  define P where "P t \<longleftrightarrow> sending_ok n i t \<and> queues_within ?p t \<and> p_state (os_peer t) = p_state ?p
    \<and> (en_fault (os_host t) \<or> reliable_waiting t + keys_sent (os_peer t) = reliable_waiting ?s + keys_sent ?p)
    \<and> transit_limit (os_peer t) = transit_limit ?p
    \<and> p_reliableDataInTransit (os_peer t) \<le> max (p_reliableDataInTransit ?p) (transit_limit ?p)" for t
  have "P s"
    unfolding s_def
  proof (rule outgoing_loop_invariant [where P = P])
    show "P ?s"
      using peer_ok_at [OF assms(1,2)] assms(1) by (auto simp: P_def sending_ok_def peer_ok_def queues_within_def)
    fix t reliable oc cs rs goes t'
    assume t: "P t" and nxt: "next_outgoing (os_ahead t) (os_aheadReliable t) = Some (reliable, oc, cs, rs)"
      and step: "outgoing_step reliable oc (t\<lparr>os_ahead := cs, os_aheadReliable := rs\<rparr>) = (goes, t')"
    note n = next_outgoing_ok [OF _ nxt]
    have oc: "oc_ok oc" "sending_ok n i (t\<lparr>os_ahead := cs, os_aheadReliable := rs\<rparr>)" "reliable \<or> unpacked oc"
      using t n by (auto simp: P_def)
    have kept: "en_fault (os_host t') \<or> reliable_waiting t' + keys_sent (os_peer t') = reliable_waiting ?s + keys_sent ?p"
    proof (cases "en_fault (os_host t')")
      case False
      then have "\<not> en_fault (os_host t)"
        using faults_outgoing_step [OF step] by auto
      moreover have "\<forall>b \<in> set cs. unpacked b"
        using oc(2) by (simp add: sending_ok_def)
      then have "reliable_waiting t' + keys_sent (os_peer t') = reliable_waiting t + keys_sent (os_peer t)"
        using outgoing_step_keys [OF step False] next_outgoing_parts [OF nxt] by (auto simp: reliable_waiting_def split: if_splits)
      ultimately show ?thesis
        using t by (simp add: P_def)
    qed simp
    have "queues_within ?p t'"
      using t by (intro outgoing_step_within [OF _ nxt step]) (simp add: P_def)
    then show "P t'"
      using t kept outgoing_step_ok [OF oc(2,1) step oc(3)] outgoing_step_frame [OF step] outgoing_step_transit [OF step oc(1)]
      by (auto simp: P_def le_max_iff_disj)
  qed
  define q where "q = (os_peer s)\<lparr>p_outgoingCommands := os_passed s @ os_ahead s,
      p_outgoingSendReliableCommands := os_passedReliable s @ os_aheadReliable s\<rparr>"
  define k where "k = upd_peer i (\<lambda>_. q) (os_host s)"
  have "i < length (h_peers (os_host s))"
    using \<open>P s\<close> assms(2) host_ok_length [of n "os_host s"] by (simp add: P_def sending_ok_def)
  then have k: "peer_at k i = q" "i < length (h_peers k)" "en_fault k = en_fault (os_host s)"
    by (simp_all add: k_def)
  then have "chosen i h q k"
    using \<open>P s\<close> by (simp add: chosen_def P_def queues_within_def q_def reliable_waiting_def keys_sent_def add.assoc)
  moreover have "h' = k \<or> (p_state q = DISCONNECT_LATER \<and> \<not> enet_peer_has_outgoing_commands q
      \<and> h' = disconnect_delayed i (p_eventData q) k)"
    using assms(3) k(1) by (auto simp: enet_protocol_check_outgoing_commands_def Let_def s_def [symmetric] q_def [symmetric] k_def [symmetric]
        split: if_splits)
  ultimately show ?thesis by blast
qed

text \<open>C14: Choosing the commands of a datagram neither loses nor duplicates a reliable command, even where the
  packet throttle drops unreliable ones.  For a peer of a host with the invariant of all reachable
  hosts, and as long as no fault is met (a throttled packet followed by a reliable command with the same two
  sequence numbers makes the code follow a null pointer), what waited in the two queues or had been sent still
  waits or has been sent, up to the counters that sending sets; both queues keep their order, and what
  is sent is appended to \<open>sentReliableCommands\<close>.  A peer in \<open>DISCONNECT_LATER\<close> that has nothing reliable
  left, neither before nor after, may be disconnected instead, and then at most the command that tells
  the other side is queued.\<close>

theorem reliable_commands_conserved:
  assumes "host_ok n h" "i < n"
    and "enet_protocol_check_outgoing_commands i sent h = (mayPing, sent', h')" "\<not> en_fault h'"
  shows "(reliable_keys (p_outgoingCommands (peer_at h' i)) + reliable_keys (p_outgoingSendReliableCommands (peer_at h' i))
      + keys_sent (peer_at h' i)
    = reliable_keys (p_outgoingCommands (peer_at h i)) + reliable_keys (p_outgoingSendReliableCommands (peer_at h i))
      + keys_sent (peer_at h i)
    \<and> subseq (p_outgoingCommands (peer_at h' i)) (p_outgoingCommands (peer_at h i))
    \<and> subseq (p_outgoingSendReliableCommands (peer_at h' i)) (p_outgoingSendReliableCommands (peer_at h i))
    \<and> prefix (p_sentReliableCommands (peer_at h i)) (p_sentReliableCommands (peer_at h' i)))
   \<or> (p_state (peer_at h i) = DISCONNECT_LATER \<and> p_state (peer_at h' i) = DISCONNECTING
    \<and> reliable_keys (p_outgoingCommands (peer_at h i)) + reliable_keys (p_outgoingSendReliableCommands (peer_at h i))
      + keys_sent (peer_at h i) = {#}
    \<and> p_sentReliableCommands (peer_at h' i) = [] \<and> p_outgoingSendReliableCommands (peer_at h' i) = []
    \<and> length (p_outgoingCommands (peer_at h' i)) \<le> 1
    \<and> (\<exists>d. \<forall>oc \<in> set (p_outgoingCommands (peer_at h' i)). pr_body (oc_command oc) = Disconnect d))"
proof -
  obtain q k where c: "chosen i h q k" and h': "h' = k \<or> (p_state q = DISCONNECT_LATER \<and> \<not> enet_peer_has_outgoing_commands q
      \<and> h' = disconnect_delayed i (p_eventData q) k)"
    using outgoing_chosen [OF assms(1-3)] by blast
  note q = c [unfolded chosen_def]
  from h' show ?thesis
  proof
    assume "h' = k"
    then show ?thesis using q assms(4) by simp
  next
    assume d: "p_state q = DISCONNECT_LATER \<and> \<not> enet_peer_has_outgoing_commands q \<and> h' = disconnect_delayed i (p_eventData q) k"
    then have state: "p_state (peer_at k i) = DISCONNECT_LATER" and len: "i < length (h_peers k)" using q by simp_all
    have "\<not> en_fault k"
      using faults_disconnect_delayed [OF state] d assms(4) by auto
    moreover have "reliable_keys (p_outgoingCommands q) + reliable_keys (p_outgoingSendReliableCommands q) + keys_sent q = {#}"
      using d by (simp add: enet_peer_has_outgoing_commands_def keys_sent_def)
    ultimately show ?thesis
      using q d disconnect_delayed_queues [OF state len, of "p_eventData q"] by auto
  qed
qed

text \<open>A connected peer with a reliable packet of two bytes to send.\<close>

definition data_command :: ENetOutgoingCommand where
  "data_command = \<lparr>oc_reliableSequenceNumber = 1, oc_unreliableSequenceNumber = 0, oc_sentTime = 0,
     oc_roundTripTimeout = 0, oc_queueTime = 0, oc_fragmentOffset = 0, oc_fragmentLength = 2,
     oc_sendAttempts = 0, oc_command = \<lparr>hd_command = 0x86, hd_channelID = 0, hd_reliableSequenceNumber = 1,
       pr_body = SendReliable 2\<rparr>, oc_packet = Some 7\<rparr>"

definition data_host :: ENetHost where
  "data_host = sample_host [sample_peer\<lparr>p_outgoingSendReliableCommands := [data_command]\<rparr>]"

lemma data_host_ok: "host_ok 1 data_host"
  by (simp add: host_ok_def data_host_def sample_defs counters_ok_def counted_def limited_def peer_ok_def channel_ok_def
      mtu_ok_def oc_ok_def unpacked_def sent_ping_def data_command_def wf_command_def command_number_def)

lemma data_command_simps:
  "acknowledged data_command" "oc_fragmentLength data_command = 2" "oc_packet data_command = Some 7"
  "enet_protocol_command_size (hd_command (oc_command data_command)) = 6"
  "oc_reliableSequenceNumber data_command = 1"
  by (simp_all add: data_command_def acknowledged_def has_flag_def enet_protocol_command_size_def commandSizes_def)

lemma data_host_peer:
  "command_channel data_command (peer_at data_host 0) = Some 0"
  "\<not> exceeds_transit data_command (peer_at data_host 0)"
  by (simp_all add: data_host_def sample_defs peer_at_def command_channel_def exceeds_transit_def data_command_simps
      ENET_MAX_def) (simp add: data_command_def)

lemma data_host_ready: "reliable_gate False data_command (peer_at data_host 0) = Ready"
  by (simp add: reliable_gate_def data_host_peer opens_used_window_def data_command_simps)

lemma data_host_room:
  "os_host s = data_host \<Longrightarrow> os_peer s = peer_at data_host 0 \<Longrightarrow> \<not> no_room_for_command data_command s"
  by (simp add: no_room_for_command_def data_host_def sample_defs peer_at_def data_command_simps)

lemma transit_record_sent:
  "p_reliableDataInTransit (record_sent_reliable now oc p) = p_reliableDataInTransit p + ucast (oc_fragmentLength oc)"
  "p_state (record_sent_reliable now oc p) = p_state p"
  by (auto simp: record_sent_reliable_def Let_def upd_channel_def split: option.splits)

lemma data_host_run:
  "\<not> en_fault (snd (snd (enet_protocol_check_outgoing_commands 0 [] data_host)))"
  "p_reliableDataInTransit (peer_at (snd (snd (enet_protocol_check_outgoing_commands 0 [] data_host))) 0) = 2"
proof -
  let ?s = "\<lparr>os_host = data_host, os_peer = peer_at data_host 0, os_sentUnreliable = [], os_windowWrap = False,
    os_canPing = True, os_passed = [], os_ahead = p_outgoingCommands (peer_at data_host 0),
    os_passedReliable = [], os_aheadReliable = p_outgoingSendReliableCommands (peer_at data_host 0)\<rparr>"
  have h: "p_outgoingCommands (peer_at data_host 0) = []" "p_outgoingSendReliableCommands (peer_at data_host 0) = [data_command]"
    "\<not> en_fault data_host" "length (h_peers data_host) = 1" "p_reliableDataInTransit (peer_at data_host 0) = 0"
    "p_state (peer_at data_host 0) = CONNECTED"
    by (simp_all add: data_host_def sample_defs peer_at_def)
  have "outgoing_loop ?s = put_outgoing data_command (?s\<lparr>os_aheadReliable := [], os_canPing := False,
      os_peer := record_sent_reliable (h_serviceTime data_host) data_command (peer_at data_host 0),
      os_host := data_host\<lparr>h_headerFlags := set_flag (h_headerFlags data_host) ENET_PROTOCOL_HEADER_FLAG_SENT_TIME\<rparr>\<rparr>)"
    by (simp add: h outgoing_loop.simps outgoing_step_def data_command_simps data_host_ready send_command_now_def data_host_room
        Let_def put_outgoing_def)
  then show "\<not> en_fault (snd (snd (enet_protocol_check_outgoing_commands 0 [] data_host)))"
    "p_reliableDataInTransit (peer_at (snd (snd (enet_protocol_check_outgoing_commands 0 [] data_host))) 0) = 2"
    by (simp_all add: enet_protocol_check_outgoing_commands_def Let_def put_outgoing_def put_command_def data_command_simps
        h transit_record_sent)
qed

theorem reliable_commands_conserved_witness:
  "\<exists>p. p = peer_at (snd (snd (enet_protocol_check_outgoing_commands 0 [] data_host))) 0
    \<and> reliable_keys (p_outgoingCommands p) + reliable_keys (p_outgoingSendReliableCommands p) + keys_sent p
      = {#sent_key data_command#}"
proof -
  have h: "p_state (peer_at data_host 0) = CONNECTED"
    "p_outgoingCommands (peer_at data_host 0) = []" "p_outgoingSendReliableCommands (peer_at data_host 0) = [data_command]"
    "p_sentReliableCommands (peer_at data_host 0) = []"
    by (simp_all add: data_host_def sample_host_def peer_at_def sample_peer_def)
  obtain mayPing sent' h' where run: "enet_protocol_check_outgoing_commands 0 [] data_host = (mayPing, sent', h')"
    by (cases "enet_protocol_check_outgoing_commands 0 [] data_host") auto
  then have "\<not> en_fault h'"
    using data_host_run(1) by simp
  then show ?thesis
    using reliable_commands_conserved [OF data_host_ok _ run] run by (simp add: h keys_sent_def data_command_simps)
qed

text \<open>C16: Flow control: choosing the commands of a datagram never raises the reliable data in transit to a
  peer above the throttled window, or one mtu where that is more: for every peer, whatever its state, of a
  host with the invariant of all reachable hosts.\<close>

theorem data_in_transit_limited:
  assumes "host_ok n h" "i < n"
    and "enet_protocol_check_outgoing_commands i sent h = (mayPing, sent', h')"
  shows "p_reliableDataInTransit (peer_at h' i)
    \<le> max (p_reliableDataInTransit (peer_at h i))
        (ENET_MAX ((p_packetThrottle (peer_at h i) * p_windowSize (peer_at h i)) div ENET_PEER_PACKET_THROTTLE_SCALE)
           (p_mtu (peer_at h i)))"
proof -
  obtain q k where c: "chosen i h q k" and h': "h' = k \<or> (p_state q = DISCONNECT_LATER \<and> \<not> enet_peer_has_outgoing_commands q
      \<and> h' = disconnect_delayed i (p_eventData q) k)"
    using outgoing_chosen [OF assms] by blast
  note q = c [unfolded chosen_def]
  have "p_reliableDataInTransit (peer_at h' i) = p_reliableDataInTransit q"
    using h' q disconnect_delayed_queues(6) [of k i "p_eventData q"] by auto
  then show ?thesis
    using q by (simp add: transit_limit_def)
qed

theorem data_in_transit_limited_witness:
  "\<exists>p. p = peer_at (snd (snd (enet_protocol_check_outgoing_commands 0 [] data_host))) 0
    \<and> p_reliableDataInTransit p = 2 \<and> p_reliableDataInTransit p \<le> max (p_reliableDataInTransit (peer_at data_host 0)) 65536"
proof -
  have h: "p_packetThrottle (peer_at data_host 0) = 32" "p_windowSize (peer_at data_host 0) = 65536" "p_mtu (peer_at data_host 0) = 1392"
    by (simp_all add: data_host_def sample_host_def peer_at_def sample_peer_def)
  obtain mayPing sent' h' where run: "enet_protocol_check_outgoing_commands 0 [] data_host = (mayPing, sent', h')"
    by (cases "enet_protocol_check_outgoing_commands 0 [] data_host") auto
  then show ?thesis
    using data_in_transit_limited [OF data_host_ok _ run] data_host_run(2) by (simp add: h ENET_MAX_def)
qed

end
