(* ===== verification/Enet_Retry.thy ===== *)
theory Enet_Retry
  imports Enet_Flow Enet_Datagrams
begin

text \<open>
  Progress: what is lost is sent again.  One pass of the send path over a peer whose deadline has
  passed either gives the peer up or puts a lost command in a datagram.
\<close>

section \<open>The first command of the queues is sent\<close>

text \<open>The command as it was when it was sent last, and as it is after it is sent once more.\<close>

definition sent_once_more :: "u32 \<Rightarrow> ENetOutgoingCommand \<Rightarrow> ENetOutgoingCommand \<Rightarrow> bool" where
  "sent_once_more now oc oc' \<longleftrightarrow>
     sent_key oc' = sent_key oc \<and> oc_sentTime oc' = now \<and> oc_sendAttempts oc' = oc_sendAttempts oc + 1"

definition has_sent :: "ENetOutgoingCommand \<Rightarrow> ENetOutgoingCommand \<Rightarrow> outgoing_state \<Rightarrow> bool" where
  "has_sent oc oc' s \<longleftrightarrow> \<not> os_canPing s \<and> oc' \<in> set (p_sentReliableCommands (os_peer s))
     \<and> oc_command oc \<in> set (h_commands (os_host s))"

lemma put_outgoing_commands:
  "os_canPing (put_outgoing oc s) = os_canPing s"
  "p_sentReliableCommands (os_peer (put_outgoing oc s)) = p_sentReliableCommands (os_peer s)"
  "set (h_commands (os_host (put_outgoing oc s))) = insert (oc_command oc) (set (h_commands (os_host s)))"
  by (simp_all add: put_outgoing_def put_command_def Let_def split: option.split)

lemma recorded_once_more:
  "\<exists>oc'. sent_once_more now oc oc' \<and> p_sentReliableCommands (record_sent_reliable now oc p) = p_sentReliableCommands p @ [oc']"
proof -
  have "p_sentReliableCommands (upd_channel c f p) = p_sentReliableCommands p" for c f
    by (simp add: upd_channel_def)
  then show ?thesis
    by (simp add: record_sent_reliable_def sent_once_more_def sent_key_def Let_def split: option.split)
qed

lemma no_ping_step: "outgoing_step reliable oc s = (goes, s') \<Longrightarrow> \<not> os_canPing s \<Longrightarrow> \<not> os_canPing s'"
  by (auto simp: outgoing_step_def send_command_now_def keep_command_def skip_reliable_def put_outgoing_commands Let_def
      case_prod_beta split: reliable_gate.splits if_splits)

lemma has_sent_step:
  assumes "has_sent oc oc' s" "outgoing_step reliable c s = (goes, s')"
  shows "has_sent oc oc' s'"
  using assms(2)
proof (cases rule: outgoing_step_cases)
  case full
  then show ?thesis
    using assms(1) no_ping_step [OF assms(2)] by (simp add: has_sent_def keep_command_def)
next
  case (dropped rest h)
  have "memory.more h = memory.more (os_host s)"
    using arg_cong [OF dropped(5), of "\<lambda>x. memory.more (snd x)"] by (simp add: mem_frame)
  then have "h_commands h = h_commands (os_host s)"
    using send_view_more [of h "os_host s"] by (simp add: send_view_def)
  then show ?thesis
    using assms(1) dropped(6) by (simp add: has_sent_def count_throttle_def)
next
  case reliable
  then show ?thesis
    using assms(1) recorded_once_more [of "h_serviceTime (os_host s)" c "os_peer s"]
    by (auto simp: has_sent_def put_outgoing_commands)
next
  case (unreliable p)
  then show ?thesis
    using assms(1) by (auto simp: has_sent_def put_outgoing_commands count_throttle_def)
qed (use assms(1) in \<open>simp_all add: has_sent_def keep_command_def skip_reliable_def\<close>)

lemma head_of_line_sent:
  assumes "next_outgoing (os_ahead s) (os_aheadReliable s) = Some (reliable, oc, cs, rs)"
    and "acknowledged oc" "reliable_gate (os_windowWrap s) oc (os_peer s) = Ready" "\<not> no_room_for_command oc s"
  shows "\<exists>oc'. sent_once_more (h_serviceTime (os_host s)) oc oc' \<and> has_sent oc oc' (outgoing_loop s)"
proof -
  let ?s = "s\<lparr>os_ahead := cs, os_aheadReliable := rs\<rparr>"
  obtain oc' where oc': "sent_once_more (h_serviceTime (os_host s)) oc oc'"
    "p_sentReliableCommands (record_sent_reliable (h_serviceTime (os_host s)) oc (os_peer s)) = p_sentReliableCommands (os_peer s) @ [oc']"
    using recorded_once_more by blast
  obtain goes s1 where step: "outgoing_step reliable oc ?s = (goes, s1)" by fastforce
  have "goes" "has_sent oc oc' s1"
    using step assms(2-4) oc'(2)
    by (auto simp: outgoing_step_def send_command_now_def no_room_for_command_def Let_def has_sent_def put_outgoing_commands)
  moreover have "has_sent oc oc' (outgoing_loop s1)"
  proof (rule outgoing_loop_invariant [where P = "has_sent oc oc'"])
    show "has_sent oc oc' s1" by fact
    fix t reliable c cs rs goes t'
    assume "has_sent oc oc' t" and t': "outgoing_step reliable c (t\<lparr>os_ahead := cs, os_aheadReliable := rs\<rparr>) = (goes, t')"
    then have "has_sent oc oc' (t\<lparr>os_ahead := cs, os_aheadReliable := rs\<rparr>)"
      by (simp add: has_sent_def)
    then show "has_sent oc oc' t'"
      using t' by (rule has_sent_step)
  qed
  moreover have "outgoing_loop s = outgoing_loop s1"
    using assms(1) step \<open>goes\<close> by (subst outgoing_loop.simps) simp
  ultimately show ?thesis
    using oc'(1) by auto
qed

section \<open>One pass over a peer\<close>

lemma check_outgoing_sends:
  assumes "i < length (h_peers h)" "acknowledged oc" "reliable_gate False oc (peer_at h i) = Ready"
    and "next_outgoing (p_outgoingCommands (peer_at h i)) (p_outgoingSendReliableCommands (peer_at h i)) = Some (reliable, oc, cs, rs)"
    and "\<And>s. os_host s = h \<Longrightarrow> os_peer s = peer_at h i \<Longrightarrow> \<not> no_room_for_command oc s"
    and "enet_protocol_check_outgoing_commands i sent h = (mayPing, sent', h')"
  shows "\<not> mayPing \<and> length (h_peers h') = length (h_peers h) \<and> oc_command oc \<in> set (h_commands h')
    \<and> (\<exists>oc'. sent_once_more (h_serviceTime h) oc oc' \<and> oc' \<in> set (p_sentReliableCommands (peer_at h' i)))"
proof -
  let ?s = "\<lparr>os_host = h, os_peer = peer_at h i, os_sentUnreliable = sent, os_windowWrap = False,
      os_canPing = True, os_passed = [], os_ahead = p_outgoingCommands (peer_at h i),
      os_passedReliable = [], os_aheadReliable = p_outgoingSendReliableCommands (peer_at h i)\<rparr>"
  define s where "s = outgoing_loop ?s"
  obtain oc' where oc': "sent_once_more (h_serviceTime h) oc oc'" "has_sent oc oc' s"
    using head_of_line_sent [of ?s reliable oc cs rs] assms(2-5) by (auto simp: s_def)
  have len: "length (h_peers (os_host s)) = length (h_peers h)"
    unfolding s_def
  proof (rule outgoing_loop_invariant [where P = "\<lambda>t. length (h_peers (os_host t)) = length (h_peers h)"])
    fix t reliable c cs rs goes t'
    assume "length (h_peers (os_host t)) = length (h_peers h)"
      and "outgoing_step reliable c (t\<lparr>os_ahead := cs, os_aheadReliable := rs\<rparr>) = (goes, t')"
    then show "length (h_peers (os_host t')) = length (h_peers h)"
      using outgoing_step_frame by fastforce
  qed simp
  let ?q = "(os_peer s)\<lparr>p_outgoingCommands := os_passed s @ os_ahead s,
      p_outgoingSendReliableCommands := os_passedReliable s @ os_aheadReliable s\<rparr>"
  have "p_sentReliableCommands ?q \<noteq> []"
    using oc'(2) by (auto simp: has_sent_def)
  then have "enet_peer_has_outgoing_commands ?q"
    by (simp add: enet_peer_has_outgoing_commands_def)
  then have "h' = upd_peer i (\<lambda>_. ?q) (os_host s)" "mayPing = os_canPing s"
    using assms(1,6) len by (auto simp: enet_protocol_check_outgoing_commands_def Let_def s_def [symmetric])
  then show ?thesis
    using oc' len assms(1) by (auto simp: has_sent_def upd_peer_def peer_at_def)
qed

lemma release_sent_more: "memory.more (release_sent sent m) = memory.more m"
  by (induction sent m rule: release_sent.induct) (simp_all add: mem_frame)

lemma transmit_keeps:
  assumes "transmit i sent g = (r, sent', h')" "i < length (h_peers g)" "p_sentReliableCommands (peer_at g i) \<noteq> []"
  shows "p_sentReliableCommands (peer_at h' i) = p_sentReliableCommands (peer_at g i) \<and> h_commands h' = h_commands g
    \<and> (en_fault h' \<or> h_outbox h' \<noteq> h_outbox g)"
proof -
  let ?g = "upd_peer i (update_packet_loss (h_serviceTime g)) g"
  have loss: "p_sentReliableCommands (update_packet_loss now p) = p_sentReliableCommands p" for now p
    by (simp add: update_packet_loss_def Let_def)
  have fault: "peer_at (raise_fault h) i = peer_at h i" "h_commands (raise_fault h) = h_commands h" "en_fault (raise_fault h)" for h :: ENetHost
    by (simp_all add: raise_fault_def peer_at_def)
  have upd: "h_commands (upd_peer i f h) = h_commands h" "h_outbox (upd_peer i f h) = h_outbox h" for f h
    by (simp_all add: upd_peer_def)
  have removed: "p_sentReliableCommands (peer_at (enet_protocol_remove_sent_unreliable_commands i sent h) i) = p_sentReliableCommands (peer_at h i)
      \<and> h_commands (enet_protocol_remove_sent_unreliable_commands i sent h) = h_commands h
      \<and> h_outbox (enet_protocol_remove_sent_unreliable_commands i sent h) = h_outbox h"
    if "p_sentReliableCommands (peer_at h i) \<noteq> []" for h
  proof -
    have m: "memory.more (release_sent sent h) = memory.more h"
      by (rule release_sent_more)
    then have "peer_at (release_sent sent h) i = peer_at h i" "h_commands (release_sent sent h) = h_commands h"
      "h_outbox (release_sent sent h) = h_outbox h"
      using more_host_fields [OF m] send_view_more [OF m] net_view_send [OF send_view_more [OF m]]
      by (simp_all add: send_view_def net_view_def)
    then show ?thesis
      using that by (simp add: enet_protocol_remove_sent_unreliable_commands_def enet_peer_has_outgoing_commands_def Let_def)
  qed
  have compressed: "peer_at (compress_buffers h) i = peer_at h i" "h_commands (compress_buffers h) = h_commands h"
    "h_outbox (compress_buffers h) = h_outbox h" "length (h_peers (compress_buffers h)) = length (h_peers h)" for h
    by (simp_all add: compress_buffers_def peer_at_def raise_fault_def Let_def split: option.split)
  have flags: "peer_at (h\<lparr>h_headerFlags := f\<rparr>) i = peer_at h i" for h :: ENetHost and f
    by (simp add: peer_at_def)
  show ?thesis
  proof (cases "buffers_bytes ?g (h_buffers ?g)")
    case None
    then show ?thesis
      using assms by (auto simp: transmit_def fault loss upd Let_def)
  next
    case (Some body)
    let ?c = "compress_buffers ?g"
    define h1 where "h1 = upd_peer i (\<lambda>p. p\<lparr>p_lastSendTime := h_serviceTime ?c\<rparr>)
      (?c\<lparr>h_headerFlags := header_flags (h_headerFlags ?c) (peer_at ?c i)\<rparr>)"
    have h1: "p_sentReliableCommands (peer_at h1 i) = p_sentReliableCommands (peer_at g i)" "h_commands h1 = h_commands g"
      "h_outbox h1 = h_outbox g"
      using assms(2) by (simp_all add: h1_def compressed loss upd flags)
    let ?bytes = "(p_address (peer_at ?c i), datagram_header_bytes (h_checksum ?c) (h_serviceTime ?c) (h_headerFlags ?c)
      (peer_at ?c i) body @ (case buffers_bytes ?c (h_buffers ?c) of None \<Rightarrow> [] | Some bs \<Rightarrow> bs))"
    define h2 where "h2 = h1\<lparr>h_outbox := h_outbox h1 @ [?bytes]\<rparr>"
    define h3 where "h3 = enet_protocol_remove_sent_unreliable_commands i sent h2"
    have "snd (snd (transmit i sent g)) \<in> insert h3 (range (\<lambda>(a, b). h3\<lparr>h_totalSentData := a, h_totalSentPackets := b\<rparr>))"
      using Some by (auto simp: transmit_def Let_def enet_socket_send_def h1_def [symmetric] h2_def [symmetric] h3_def [symmetric])
    then have "peer_at h' i = peer_at h3 i \<and> h_commands h' = h_commands h3 \<and> h_outbox h' = h_outbox h3"
      using assms(1) by (auto simp: peer_at_def)
    moreover have "peer_at h2 i = peer_at h1 i" "h_commands h2 = h_commands h1"
      by (simp_all add: h2_def peer_at_def)
    ultimately show ?thesis
      using removed [of h2] h1 assms(3) by (simp add: h2_def h3_def)
  qed
qed

text \<open>Every attempt was counted, fewer than the shift of the timeout test is defined for, and the command fits.\<close>

definition can_retry :: "ENetPeer \<Rightarrow> ENetOutgoingCommand \<Rightarrow> bool" where
  "can_retry p oc \<longleftrightarrow> acknowledged oc \<and> 1 \<le> oc_sendAttempts oc \<and> oc_sendAttempts oc \<le> 32
     \<and> sizeof_ENetProtocolHeader + enet_protocol_command_size (hd_command (oc_command oc)) + unat (oc_fragmentLength oc)
        \<le> unat (p_mtu p)"

lemma timeout_loop_defined:
  assumes "\<forall>oc\<in>set ocs. due now oc \<longrightarrow> 1 \<le> oc_sendAttempts oc \<and> oc_sendAttempts oc \<le> 32"
  shows "fst (timeout_loop now ocs kept again againReliable p) \<noteq> UndefinedShift"
  using assms
proof (induction now ocs kept again againReliable p rule: timeout_loop.induct)
  case (2 now oc rest kept again againReliable p)
  show ?case
  proof (cases "ENET_TIME_DIFFERENCE now (oc_sentTime oc) < oc_roundTripTimeout oc")
    case True
    then show ?thesis using 2(1) [OF True] 2(4) by simp
  next
    case False
    then have "1 \<le> oc_sendAttempts oc" "\<not> 32 < oc_sendAttempts oc"
      using 2(4) by (simp_all add: due_def not_less)
    then have "oc_sendAttempts oc \<noteq> 0" by auto
    then have "gives_up now oc (note_timeout oc p) \<noteq> None"
      using \<open>\<not> 32 < oc_sendAttempts oc\<close> by (auto simp: gives_up_def Let_def)
    then show ?thesis
      using False 2(2,3) [OF False refl _ refl refl refl] 2(4)
      by (auto simp: Let_def split: option.split bool.split)
  qed
qed simp

lemma timeout_loop_limits:
  "transit_limit (snd (timeout_loop now ocs kept again againReliable p)) = transit_limit p
   \<and> p_mtu (snd (timeout_loop now ocs kept again againReliable p)) = p_mtu p"
proof (induction now ocs kept again againReliable p rule: timeout_loop.induct)
  case (1 now kept again againReliable p)
  then show ?case by (simp add: requeue_def transit_limit_def)
next
  case (2 now oc rest kept again againReliable p)
  have same: "transit_limit (note_timeout oc p) = transit_limit p" "p_mtu (note_timeout oc p) = p_mtu p"
    "transit_limit (count_lost oc p) = transit_limit p" "p_mtu (count_lost oc p) = p_mtu p"
    "transit_limit (next_deadline kept rest p) = transit_limit p" "p_mtu (next_deadline kept rest p) = p_mtu p"
    "transit_limit (requeue a b c p) = transit_limit p" "p_mtu (requeue a b c p) = p_mtu p" for a b c p
    by (simp_all add: note_timeout_def count_lost_def next_deadline_def requeue_def transit_limit_def split: list.split)
  show ?case
  proof (cases "ENET_TIME_DIFFERENCE now (oc_sentTime oc) < oc_roundTripTimeout oc")
    case True
    then show ?thesis using 2(1) by simp
  next
    case False
    then show ?thesis
      using 2(2,3) [OF False refl _ refl refl refl]
      by (auto simp: Let_def same split: option.split bool.split)
  qed
qed

lemma given_up_state:
  assumes "i < length (h_peers h)"
  shows "p_state (peer_at (snd (enet_protocol_notify_disconnect i ev h)) i) \<in> {DISCONNECTED, ZOMBIE}"
proof -
  have fields: "peer_at (enet_peer_on_disconnect i h) i = peer_at h i" "length (h_peers (enet_peer_on_disconnect i h)) = length (h_peers h)"
    "peer_at (dispatch_remove i h) i = peer_at h i" "length (h_peers (dispatch_remove i h)) = length (h_peers h)"
    "peer_at (dispatch_insert i h) i = peer_at h i" "length (h_peers (dispatch_insert i h)) = length (h_peers h)" for h
    by (simp_all add: enet_peer_on_disconnect_def dispatch_remove_def dispatch_insert_def peer_at_def raise_fault_def Let_def)
  have released: "peer_at (release_queues p h) i = peer_at h i" "length (h_peers (release_queues p h)) = length (h_peers h)"
    for p and h :: ENetHost
    using more_host_fields [of "release_queues p h" h] by (simp_all add: mem_frame)
  have reset: "p_state (peer_at (enet_peer_reset i h) i) = DISCONNECTED" if "i < length (h_peers h)" for h
    using that by (simp add: enet_peer_reset_def enet_peer_reset_queues_def clear_needs_dispatch_def Let_def fields released
        clear_queues_def reset_fields_def)
  show ?thesis
    using assms by (auto simp: enet_protocol_notify_disconnect_def Let_def reset enet_protocol_dispatch_state_def
        enet_protocol_change_state_def needs_dispatch_def fields split: option.split)
qed

lemma room_in_new_datagram:
  assumes "can_retry p oc" "mtu_ok (p_mtu p)" "h_commands h = []" "h_buffers h = []" "h_packetSize h = of_nat sizeof_ENetProtocolHeader"
    and "os_host s = h" "os_peer s = p"
  shows "\<not> no_room_for_command oc s"
proof -
  let ?size = "enet_protocol_command_size (hd_command (oc_command oc))"
  let ?room = "ucast (p_mtu p) - of_nat sizeof_ENetProtocolHeader :: u64"
  have m: "sizeof_ENetProtocolHeader + ?size + unat (oc_fragmentLength oc) \<le> unat (p_mtu p)" "unat (p_mtu p) \<le> 4096"
    using assms(1) mtu_ok_unat [OF assms(2)] by (simp_all add: can_retry_def)
  have room: "unat ?room = unat (p_mtu p) - sizeof_ENetProtocolHeader"
    using m by (subst unat_room) simp_all
  have all: "unat (of_nat ?size + ucast (oc_fragmentLength oc) :: u64) = ?size + unat (oc_fragmentLength oc)"
    using m by (simp add: unat_word_ariths(1) unat_of_nat_small unat_ucast_u16)
  have "\<not> ?room < of_nat ?size"
    using m room by (simp add: word_less_nat_alt unat_of_nat_small)
  moreover have "\<not> (ucast ?room :: u16) < ucast (of_nat ?size + ucast (oc_fragmentLength oc) :: u64)"
    using m room all by (simp add: word_less_nat_alt unsigned_ucast_eq unsigned_take_bit_eq take_bit_nat_eq_self)
  ultimately show ?thesis
    using assms(3-7) by (simp add: no_room_for_command_def Let_def)
qed

lemma fill_sends:
  assumes "i < length (h_peers h)" "acknowledged oc" "reliable_gate False oc (peer_at h i) = Ready"
    and "next_outgoing (p_outgoingCommands (peer_at h i)) (p_outgoingSendReliableCommands (peer_at h i)) = Some (reliable, oc, cs, rs)"
    and "\<And>s. os_host s = h \<Longrightarrow> os_peer s = peer_at h i \<Longrightarrow> \<not> no_room_for_command oc s"
    and "fill_datagram i sent h = (sent', h')"
  shows "length (h_peers h') = length (h_peers h) \<and> oc_command oc \<in> set (h_commands h')
    \<and> (\<exists>oc'. sent_once_more (h_serviceTime h) oc oc' \<and> oc' \<in> set (p_sentReliableCommands (peer_at h' i)))"
proof -
  obtain mayPing sent1 h1 where check: "enet_protocol_check_outgoing_commands i sent h = (mayPing, sent1, h1)"
    by (metis prod_cases3)
  have sends: "\<not> mayPing \<and> length (h_peers h1) = length (h_peers h) \<and> oc_command oc \<in> set (h_commands h1)
    \<and> (\<exists>oc'. sent_once_more (h_serviceTime h) oc oc' \<and> oc' \<in> set (p_sentReliableCommands (peer_at h1 i)))"
    by (rule check_outgoing_sends [OF assms(1-5) check])
  have "\<not> (p_outgoingCommands (peer_at h i) = [] \<and> p_outgoingSendReliableCommands (peer_at h i) = [])"
    using assms(4) by auto
  then have "h' = h1"
    using assms(6) sends check by (auto simp: fill_datagram_def Let_def)
  then show ?thesis
    using sends by blast
qed

lemma first_of_queues:
  assumes "as \<noteq> [] \<or> bs \<noteq> []" "as = [] \<longrightarrow> cs = []" "bs = [] \<longrightarrow> ds = []"
  shows "\<exists>reliable oc cs' ds'. next_outgoing (as @ cs) (bs @ ds) = Some (reliable, oc, cs', ds') \<and> oc \<in> set as \<union> set bs"
  using assms by (cases as; cases bs) auto

text \<open>What is known of the commands that are due.\<close>

definition can_send_lost :: "ENetPeer \<Rightarrow> ENetOutgoingCommand list \<Rightarrow> bool" where
  "can_send_lost p lost \<longleftrightarrow>
     lost \<noteq> [] \<and> (\<forall>oc\<in>set lost. can_retry p oc)
     \<and> (\<forall>oc\<in>set lost. oc_packet oc \<noteq> None \<longrightarrow>
          p_reliableDataInTransit p - data_in_commands (filter (\<lambda>oc. oc_packet oc \<noteq> None) lost)
            + ucast (oc_fragmentLength oc) \<le> transit_limit p)
     \<and> (filter (\<lambda>oc. oc_packet oc = None) lost = [] \<longrightarrow> p_outgoingCommands p = [])
     \<and> (filter (\<lambda>oc. oc_packet oc \<noteq> None) lost = [] \<longrightarrow> p_outgoingSendReliableCommands p = [])"

lemma lost_command_first:
  assumes "timeout_loop now sent [] [] [] p = (TimeoutsChecked, q)" "can_send_lost p (filter (due now) sent)"
  obtains reliable oc cs rs where "oc \<in> set (filter (due now) sent)" "reliable_gate False (resent oc) q = Ready"
    "next_outgoing (p_outgoingCommands q) (p_outgoingSendReliableCommands q) = Some (reliable, resent oc, cs, rs)"
    "can_retry q (resent oc)"
proof -
  let ?lost = "filter (due now) sent"
  let ?cs = "filter (\<lambda>oc. oc_packet oc = None) ?lost"
  let ?rs = "filter (\<lambda>oc. oc_packet oc \<noteq> None) ?lost"
  have conj: "filter (\<lambda>oc. due now oc \<and> P oc) sent = filter P ?lost" for P
    by (simp add: conj_commute)
  have q: "p_outgoingCommands q = map resent ?cs @ p_outgoingCommands p"
    "p_outgoingSendReliableCommands q = map resent ?rs @ p_outgoingSendReliableCommands p"
    "p_reliableDataInTransit q = p_reliableDataInTransit p - data_in_commands ?rs"
    using timeout_loop_checked [OF assms(1)] unfolding conj by simp_all
  have limits: "transit_limit q = transit_limit p" "p_mtu q = p_mtu p"
    using timeout_loop_limits [of now sent "[]" "[]" "[]" p] assms(1) by simp_all
  note lost = assms(2) [unfolded can_send_lost_def]
  have "?cs \<noteq> [] \<or> ?rs \<noteq> []"
    using lost by (cases "?lost") auto
  then have "\<exists>reliable oc cs' rs'. next_outgoing (p_outgoingCommands q) (p_outgoingSendReliableCommands q) = Some (reliable, oc, cs', rs')
      \<and> oc \<in> set (map resent ?cs) \<union> set (map resent ?rs)"
    unfolding q(1,2) using lost by (intro first_of_queues) (simp_all only: map_is_Nil_conv, blast+)
  then obtain reliable oc' cs rs where next': "next_outgoing (p_outgoingCommands q) (p_outgoingSendReliableCommands q) = Some (reliable, oc', cs, rs)"
    and oc': "oc' \<in> set (map resent ?cs) \<union> set (map resent ?rs)"
    by blast
  from oc' obtain oc where oc: "oc' = resent oc" "oc \<in> set ?lost"
    by auto
  have retry: "can_retry p oc"
    using lost oc(2) by blast
  then have "\<not> opens_used_window (resent oc) ch" for ch
    by (auto simp: opens_used_window_def resent_def can_retry_def not_less)
  moreover have "\<not> exceeds_transit (resent oc) q"
    using lost oc(2) limits unfolding exceeds_transit_def q(3)
    by (auto simp: resent_def transit_limit_def not_less)
  ultimately have "reliable_gate False (resent oc) q = Ready"
    by (simp add: reliable_gate_def split: option.split)
  moreover have "can_retry q (resent oc)"
    using retry limits by (simp add: can_retry_def resent_def acknowledged_def)
  ultimately show ?thesis
    using next' oc by (auto intro: that)
qed

text \<open>What a pass over a peer sends is one datagram with the commands that are left in the host.\<close>

lemma pass_sends_datagram:
  assumes "host_ok n h" "i < n" "send_to_peer ping i ev sent h = (r, ev', sent', h')" "\<not> en_fault h'" "net_view h' \<noteq> net_view h"
  shows "\<exists>fs. h_commands h' = map fst fs
    \<and> h_outbox h' = h_outbox h @ [(p_address (peer_at h i), written_datagram h (peer_at h i) fs)]"
proof -
  let ?p = "peer_at h i"
  obtain parts sent2 g where g: "holds_parts (p_mtu ?p) parts g" "transmit i sent2 g = (r, sent', h')"
      "net_view g = net_view h" "peer_ids (peer_at g i) = peer_ids ?p"
    using send_to_peer_transmits [OF assms(1-3)] assms(5) by blast
  have "unat (p_mtu ?p) \<le> 4096"
    using peer_ok_at [OF assms(1,2)] by (simp add: peer_ok_def mtu_ok_unat)
  then have "p_mtu ?p \<le> 4096" by (simp add: word_le_nat_alt)
  from transmit_sends [OF g(1) this g(2)] obtain fs where fs: "h_commands h' = map fst fs"
    "h_outbox h' = h_outbox g @ [(p_address (peer_at g i), written_datagram g (peer_at g i) fs)]"
    using assms(4) by auto
  have "h_outbox g = h_outbox h" "p_address (peer_at g i) = p_address ?p"
    using g(3,4) by (simp_all add: net_view_def peer_ids_def)
  then show ?thesis
    using fs written_datagram_same [OF g(4,3)] by (intro exI [of _ fs]) simp
qed

text \<open>A new datagram takes one of the commands that were queued again.\<close>

lemma retry_is_filled:
  assumes "timeout_loop now sentCommands [] [] [] p = (TimeoutsChecked, q)" "can_send_lost p (filter (due now) sentCommands)"
    and "mtu_ok (p_mtu p)" "peer_at h i = q" "i < length (h_peers h)" "h_serviceTime h = now"
    and "h_commands h = []" "h_buffers h = []" "h_packetSize h = of_nat sizeof_ENetProtocolHeader"
    and "fill_datagram i sent h = (sent', h')"
  shows "\<exists>oc oc'. oc \<in> set (filter (due now) sentCommands) \<and> oc_command (resent oc) \<in> set (h_commands h')
    \<and> sent_once_more now oc oc' \<and> oc' \<in> set (p_sentReliableCommands (peer_at h' i)) \<and> length (h_peers h') = length (h_peers h)"
proof -
  obtain reliable oc cs rs where oc: "oc \<in> set (filter (due now) sentCommands)" "reliable_gate False (resent oc) q = Ready"
    "next_outgoing (p_outgoingCommands q) (p_outgoingSendReliableCommands q) = Some (reliable, resent oc, cs, rs)"
    "can_retry q (resent oc)"
    using lost_command_first [OF assms(1,2)] by metis
  have mtu: "mtu_ok (p_mtu q)"
    using timeout_loop_limits [of now sentCommands "[]" "[]" "[]" p] assms(1,3) by simp
  have "\<not> no_room_for_command (resent oc) s" if "os_host s = h" "os_peer s = peer_at h i" for s
    using room_in_new_datagram [OF oc(4) mtu assms(7-9) that(1)] that(2) assms(4) by simp
  then obtain oc' where h': "length (h_peers h') = length (h_peers h)" "oc_command (resent oc) \<in> set (h_commands h')"
    "sent_once_more now (resent oc) oc'" "oc' \<in> set (p_sentReliableCommands (peer_at h' i))"
    using fill_sends [of i h "resent oc" reliable cs rs sent sent' h'] oc(2-4) assms(4-6,10) by (auto simp: can_retry_def)
  then have "sent_once_more now oc oc'"
    by (simp add: sent_once_more_def resent_def sent_key_def)
  then show ?thesis
    using oc(1) h' by blast
qed

text \<open>C36: Progress: what was lost is not forgotten.  For a peer of a host with the invariant of every reachable
  host: when the peer's deadline has passed, some of the commands sent to it are due, no acknowledgement
  waits to be sent to it (acknowledgements go first and may take the room), every due command asks for an
  acknowledgement, was sent between once and 32 times, fits a datagram with its header and, with a packet, the
  throttled window, and a queue that no due command goes back to is empty (nothing that was not lost is
  ahead), then one pass of the send path over the peer either gives it up or hands \<open>sendmsg\<close> a datagram with
  one of the due commands, counts the attempt and dates it to now; unless the pass meets a
  fault.\<close>

theorem lost_command_sent_again:
  assumes "host_ok n h" "i < n" "p_acknowledgements (peer_at h i) = []"
    and "ENET_TIME_GREATER_EQUAL (h_serviceTime h) (p_nextTimeout (peer_at h i))"
    and "lost = filter (due (h_serviceTime h)) (p_sentReliableCommands (peer_at h i))"
    and "can_send_lost (peer_at h i) lost"
    and "send_to_peer True i ev sent h = (r, ev', sent', h')" "\<not> en_fault h'"
  shows "p_state (peer_at h' i) \<in> {DISCONNECTED, ZOMBIE}
    \<or> (\<exists>oc oc' fs. oc \<in> set lost \<and> sent_once_more (h_serviceTime h) oc oc'
         \<and> oc' \<in> set (p_sentReliableCommands (peer_at h' i)) \<and> oc_command oc \<in> set (map fst fs)
         \<and> h_outbox h' = h_outbox h @ [(p_address (peer_at h i), written_datagram h (peer_at h i) fs)])"
proof -
  note ok = assms(1)
  let ?p = "peer_at h i" let ?now = "h_serviceTime h"
  have i: "i < length (h_peers h)" using ok assms(2) by (simp add: host_ok_length)
  define h1 where "h1 = begin_datagram i h"
  define p1 where "p1 = ?p\<lparr>p_flags := clear_flag (p_flags ?p) ENET_PEER_FLAG_CONTINUE_SENDING\<rparr>"
  have h1: "peer_at h1 i = p1" "length (h_peers h1) = length (h_peers h)" "h_serviceTime h1 = ?now"
    "h_commands h1 = []" "h_buffers h1 = []" "h_packetSize h1 = of_nat sizeof_ENetProtocolHeader" "net_view h1 = net_view h"
    using i by (simp_all add: h1_def begin_datagram_def p1_def peer_at_def net) (simp_all add: upd_peer_def peer_at_def)
  have p1: "p_acknowledgements p1 = []" "p_sentReliableCommands p1 = p_sentReliableCommands ?p" "p_nextTimeout p1 = p_nextTimeout ?p"
    "p_mtu p1 = p_mtu ?p" "can_send_lost p1 lost"
    using assms(3,6) by (simp_all add: p1_def can_send_lost_def can_retry_def transit_limit_def)
  have sent: "p_sentReliableCommands ?p \<noteq> []"
    using assms(5,6) by (auto simp: can_send_lost_def)
  obtain outcome q where loop: "timeout_loop ?now (p_sentReliableCommands ?p) [] [] [] p1 = (outcome, q)"
    by fastforce
  have run: "send_to_peer True i ev sent h =
      (let (timedOut, event, h) = enet_protocol_check_timeouts i ev h1
       in if timedOut then (if event_reported event = 1 then Some 1 else None, event, sent, h)
          else (let (sentUnreliable, h) = fill_datagram i sent h
            in if h_commands h = [] then (None, event, sentUnreliable, h)
               else (let (r, sentUnreliable, h) = transmit i sentUnreliable h in (r, event, sentUnreliable, h))))"
    using assms(4) sent by (simp add: send_to_peer_def h1_def [symmetric] h1 p1)
  let ?h2 = "upd_peer i (\<lambda>_. q) h1"
  show ?thesis
  proof (cases outcome)
    case UndefinedShift
    have "\<forall>oc\<in>set (p_sentReliableCommands ?p). due ?now oc \<longrightarrow> 1 \<le> oc_sendAttempts oc \<and> oc_sendAttempts oc \<le> 32"
      using assms(5,6) by (auto simp: can_send_lost_def can_retry_def)
    from timeout_loop_defined [OF this, of "[]" "[]" "[]" p1] show ?thesis
      using loop UndefinedShift by simp
  next
    case PeerTimedOut
    then have "h' = snd (enet_protocol_notify_disconnect i ev ?h2)"
      using assms(7) by (simp add: run enet_protocol_check_timeouts_def h1 p1 loop case_prod_beta Let_def)
    then show ?thesis
      using given_up_state [of i ?h2 ev] i h1(2) by simp
  next
    case TimeoutsChecked
    obtain sent3 h3 where fill: "fill_datagram i sent ?h2 = (sent3, h3)" by fastforce
    have h2: "peer_at ?h2 i = q" "length (h_peers ?h2) = length (h_peers h)" "h_serviceTime ?h2 = ?now"
      "h_commands ?h2 = []" "h_buffers ?h2 = []" "h_packetSize ?h2 = of_nat sizeof_ENetProtocolHeader"
      using i h1 by simp_all (simp_all add: upd_peer_def)
    have "mtu_ok (p_mtu p1)"
      using peer_ok_at [OF ok assms(2)] p1(4) by (simp add: peer_ok_def)
    then obtain oc oc' where h3: "oc \<in> set lost" "oc_command (resent oc) \<in> set (h_commands h3)" "sent_once_more ?now oc oc'"
      "oc' \<in> set (p_sentReliableCommands (peer_at h3 i))" "length (h_peers h3) = length (h_peers h)"
      using retry_is_filled [OF loop [unfolded TimeoutsChecked] p1(5) [unfolded assms(5)] _ h2(1) _ h2(3-6) fill] i h2(2) assms(5) by auto
    have trans: "transmit i sent3 h3 = (r, sent', h')"
      using assms(7) h3(2) TimeoutsChecked
      by (auto simp: run enet_protocol_check_timeouts_def h1 p1 loop fill Let_def split: if_splits prod.splits)
    have "net_view h3 = net_view h"
      using fill net_view_fill [of i sent ?h2] h1(7) by (simp add: net)
    moreover have "p_sentReliableCommands (peer_at h3 i) \<noteq> []" "i < length (h_peers h3)"
      using h3(4,5) i by auto
    ultimately have h': "p_sentReliableCommands (peer_at h' i) = p_sentReliableCommands (peer_at h3 i)" "h_commands h' = h_commands h3"
      "net_view h' \<noteq> net_view h"
      using transmit_keeps [OF trans] assms(8) by (auto simp: net_view_def)
    obtain fs where "h_commands h' = map fst fs"
      "h_outbox h' = h_outbox h @ [(p_address ?p, written_datagram h ?p fs)]"
      using pass_sends_datagram [OF ok assms(2,7,8) h'(3)] by blast
    then show ?thesis
      using h3 h'(1,2) by (intro disjI2, rule_tac x = oc in exI, rule_tac x = oc' in exI, rule_tac x = fs in exI) (simp add: resent_def)
  qed
qed

lemma waiting_run:
  "\<not> en_fault (snd (snd (snd (send_to_peer True 0 None [] (waiting_host 0 600)))))
   \<and> p_state (peer_at (snd (snd (snd (send_to_peer True 0 None [] (waiting_host 0 600))))) 0) = CONNECTED"
  by (simp add: send_to_peer_def begin_datagram_def waiting_host_def sample_defs sent_ping_def upd_peer_def peer_at_def
    enet_protocol_check_timeouts_def enet_time_defs note_timeout_def gives_up_def next_deadline_def count_lost_def requeue_def
    fill_datagram_def enet_protocol_check_outgoing_commands_def outgoing_loop.simps outgoing_step_def acknowledged_def has_flag_def
    reliable_gate_def command_channel_def exceeds_transit_def send_command_now_def no_room_for_command_def record_sent_reliable_def
    put_outgoing_def put_command_def enet_protocol_command_size_def commandSizes_def transmit_def update_packet_loss_def
    encode_command_def put16_def compress_buffers_def enet_socket_send_def enet_protocol_remove_sent_unreliable_commands_def
    set_flag_def clear_flag_def Let_def command_number_def datagram_header_bytes_def)

theorem lost_command_sent_again_witness:
  "\<exists>oc' fs h'. h' = snd (snd (snd (send_to_peer True 0 None [] (waiting_host 0 600))))
    \<and> sent_once_more 600 sent_ping oc' \<and> oc' \<in> set (p_sentReliableCommands (peer_at h' 0))
    \<and> oc_command sent_ping \<in> set (map fst fs)
    \<and> h_outbox h' = [(p_address sample_peer, written_datagram (waiting_host 0 600) (peer_at (waiting_host 0 600) 0) fs)]"
proof -
  let ?h = "waiting_host 0 600"
  have h: "p_sentReliableCommands (peer_at ?h 0) = [sent_ping]" "h_serviceTime ?h = 600" "p_nextTimeout (peer_at ?h 0) = 0"
    "p_acknowledgements (peer_at ?h 0) = []" "p_outgoingCommands (peer_at ?h 0) = []" "p_mtu (peer_at ?h 0) = 1392"
    "p_outgoingSendReliableCommands (peer_at ?h 0) = []" "h_outbox ?h = []" "p_address (peer_at ?h 0) = p_address sample_peer"
    by (simp_all add: waiting_host_def sample_host_def sample_peer_def peer_at_def)
  have ok: "host_ok 1 ?h"
    by (simp add: host_ok_def waiting_host_def sample_defs counters_ok_def counted_def limited_def peer_ok_def channel_ok_def
        mtu_ok_def oc_ok_def unpacked_def sent_ping_def wf_command_def command_number_def)
  have "acknowledged sent_ping" "oc_packet sent_ping = None" "oc_sendAttempts sent_ping = 1" "oc_fragmentLength sent_ping = 0"
    "hd_command (oc_command sent_ping) = 0x85" "due 600 sent_ping"
    by (simp_all add: acknowledged_def sent_ping_def has_flag_def due_def enet_time_defs)
  then have lost: "[sent_ping] = filter (due (h_serviceTime ?h)) (p_sentReliableCommands (peer_at ?h 0))"
    "can_send_lost (peer_at ?h 0) [sent_ping]"
    by (simp_all add: h can_send_lost_def can_retry_def enet_protocol_command_size_def commandSizes_def)
  obtain r ev' sent' h' where run: "send_to_peer True 0 None [] ?h = (r, ev', sent', h')"
    by (metis prod_cases4)
  have "ENET_TIME_GREATER_EQUAL (h_serviceTime ?h) (p_nextTimeout (peer_at ?h 0))"
    by (simp add: h enet_time_defs)
  from lost_command_sent_again [OF ok _ h(4) this lost run] waiting_run run show ?thesis
    by (auto simp: h)
qed

end
