(* ===== verification/Enet_Range.thy ===== *)
theory Enet_Range
  imports Enet_Decompress
begin

text \<open>
  The arithmetic of the range coder.  Renormalising is a relation between intervals and the bytes
  it shifts out; the encoder's loop and the decoder's loop both compute it, and what the decoder
  reads lies in the interval that the encoder wrote.
\<close>

section \<open>Intervals\<close>

text \<open>
  An interval does not wrap; it may end at \<open>2\<^sup>3\<^sup>2\<close>, which the macros see as 0, only where it
  starts above the first top byte.
\<close>

definition interval :: "u32 \<Rightarrow> u32 \<Rightarrow> bool" where
  "interval low rng \<longleftrightarrow> 0 < unat rng \<and> unat low + unat rng \<le> 2 ^ 32 \<and>
     (unat low + unat rng = 2 ^ 32 \<longrightarrow> 2 ^ 24 \<le> unat low)"

definition within :: "u32 \<Rightarrow> u32 \<Rightarrow> u32 \<Rightarrow> bool" where
  "within low rng code \<longleftrightarrow> unat low \<le> unat code \<and> unat code < unat low + unat rng"

text \<open>The word the decoder holds when \<open>bs\<close> is what is left of its input, which zeros follow.\<close>

definition byte_at :: "u8 list \<Rightarrow> nat \<Rightarrow> nat" where
  "byte_at bs i = (if i < length bs then unat (bs ! i) else 0)"

definition code_of :: "u8 list \<Rightarrow> u32" where
  "code_of bs = of_nat (((byte_at bs 0 * 256 + byte_at bs 1) * 256 + byte_at bs 2) * 256 + byte_at bs 3)"

lemma byte_at_simps [simp]:
  "byte_at [] i = 0" "byte_at (b # bs) 0 = unat b" "byte_at (b # bs) (Suc i) = byte_at bs i"
  "byte_at (b # bs) 1 = byte_at bs 0" "byte_at (b # bs) 2 = byte_at bs 1" "byte_at (b # bs) 3 = byte_at bs 2"
  by (simp_all add: byte_at_def eval_nat_numeral)

lemma unat_u8_less: "unat (x :: u8) < 256"
  using unsigned_less [of x] by simp

lemma byte_at_less: "byte_at bs i < 256"
  by (simp add: byte_at_def unat_u8_less)

lemma unat_code_of: "unat (code_of bs) = ((byte_at bs 0 * 256 + byte_at bs 1) * 256 + byte_at bs 2) * 256 + byte_at bs 3"
  unfolding code_of_def
  by (rule unat_of_nat_small) (use byte_at_less [of bs 0] byte_at_less [of bs 1] byte_at_less [of bs 2]
      byte_at_less [of bs 3] in simp)

lemma unat_code_of_Cons: "unat (code_of (b # bs)) = unat b * 2 ^ 24 + unat (code_of bs) div 256"
proof -
  have "unat (code_of bs) div 256 = (byte_at bs 0 * 256 + byte_at bs 1) * 256 + byte_at bs 2"
    using byte_at_less [of bs 3] unfolding unat_code_of by (subst div_mult_self3) simp_all
  then show ?thesis
    by (simp add: unat_code_of)
qed

lemma code_of_Nil [simp]: "code_of [] = 0"
  by (simp add: code_of_def)

section \<open>Words\<close>

lemma unat_u32_less: "unat (x :: u32) < 2 ^ 32"
  using unsigned_less [of x] by simp

lemma unat_push_8: "unat (push_bit 8 (x :: u32)) = (unat x mod 2 ^ 24) * 256"
proof -
  have "unat (push_bit 8 x) = (unat x * 2 ^ 8) mod (2 ^ 24 * 2 ^ 8)"
    by (simp add: unsigned_push_bit_eq take_bit_eq_mod [where 'a = nat] push_bit_eq_mult [where 'a = nat])
  also have "\<dots> = (unat x mod 2 ^ 24) * 2 ^ 8"
    by (rule mult_mod_left [symmetric])
  finally show ?thesis by simp
qed

lemma unat_drop_24: "unat (drop_bit 24 (x :: u32)) = unat x div 2 ^ 24"
  by (simp add: unsigned_drop_bit_eq drop_bit_eq_div [where 'a = nat] take_bit_nat_eq_self unat_u32_less [simplified])

lemma unat_top_byte: "unat (ucast (drop_bit 24 (x :: u32)) :: u8) = unat x div 2 ^ 24"
proof -
  have "unat x div 2 ^ 24 < 2 ^ 8"
    using unat_u32_less [of x] by (simp add: less_mult_imp_div_less)
  then show ?thesis
    by (simp add: unsigned_ucast_eq take_bit_eq_mod unat_drop_24 del: unsigned_drop_bit_eq)
qed

lemma top_bytes_differ:
  "(x XOR y) \<ge> (ENET_RANGE_CODER_TOP) \<longleftrightarrow> unat x div 2 ^ 24 \<noteq> unat (y :: u32) div 2 ^ 24"
proof -
  have le: "z \<ge> (0x1000000 :: u32) \<longleftrightarrow> drop_bit 24 z \<noteq> 0" for z
  proof -
    have "z \<ge> (0x1000000 :: u32) \<longleftrightarrow> 2 ^ 24 \<le> unat z"
      by (simp add: word_le_nat_alt)
    also have "\<dots> \<longleftrightarrow> unat (drop_bit 24 z) \<noteq> 0"
      unfolding unat_drop_24 by (simp add: div_eq_0_iff not_less)
    finally show ?thesis
      by (simp add: unsigned_eq_0_iff)
  qed
  have "drop_bit 24 (x XOR y) \<noteq> 0 \<longleftrightarrow> drop_bit 24 x \<noteq> drop_bit 24 y"
    by (auto simp: bit_eq_iff bit_simps)
  also have "\<dots> \<longleftrightarrow> unat (drop_bit 24 x) \<noteq> unat (drop_bit 24 y)"
    by (simp only: word_unat_eq_iff)
  finally show ?thesis
    using le by (simp add: unat_drop_24)
qed

lemma unat_low_bits: "unat (- x AND (ENET_RANGE_CODER_BOTTOM - 1)) = (2 ^ 32 - unat (x :: u32)) mod 2 ^ 16"
proof -
  have "- x AND (ENET_RANGE_CODER_BOTTOM - 1) = take_bit 16 (- x)"
    by (simp add: take_bit_eq_mask mask_eq_exp_minus_1)
  moreover have "unat (take_bit 16 (- x)) = unat (- x) mod 2 ^ 16"
    by (simp only: unsigned_take_bit_eq take_bit_eq_mod [where 'a = nat])
  moreover have "unat (- x) mod 2 ^ 16 = (2 ^ 32 - unat x) mod 2 ^ 16"
    using unat_minus_cases [of 0 x] by (cases "x = 0") (simp_all add: word_le_nat_alt unsigned_eq_0_iff)
  ultimately show ?thesis by simp
qed

section \<open>Renormalising\<close>

lemma crossing_distance:
  fixes L R :: nat
  assumes "L < 2 ^ 32" "R < 2 ^ 16" "L + R \<le> 2 ^ 32" "(L div 2 ^ 24 + 1) * 2 ^ 24 \<le> L + R"
  shows "(2 ^ 32 - L) mod 2 ^ 16 = 2 ^ 24 - L mod 2 ^ 24" "2 ^ 24 - L mod 2 ^ 24 \<le> R"
proof -
  define q m where "q = L div 2 ^ 24" and "m = L mod 2 ^ 24"
  have L: "L = q * 2 ^ 24 + m" "m < 2 ^ 24"
    by (simp_all add: q_def m_def)
  then have q: "q < 256"
    using assms(1) by simp
  have le: "2 ^ 24 - m \<le> R"
    using assms(4) L by (simp add: q_def [symmetric])
  have "2 ^ 32 - L = (2 ^ 24 - m) + ((255 - q) * 256) * 2 ^ 16"
    using L q by (simp add: algebra_simps)
  then have "(2 ^ 32 - L) mod 2 ^ 16 = (2 ^ 24 - m) mod 2 ^ 16"
    by (simp only: mod_mult_self1)
  also have "\<dots> = 2 ^ 24 - m"
    using le assms(2) by (intro mod_less) simp
  finally show "(2 ^ 32 - L) mod 2 ^ 16 = 2 ^ 24 - L mod 2 ^ 24" "2 ^ 24 - L mod 2 ^ 24 \<le> R"
    using le by (simp_all add: m_def)
qed

lemma unat_end: "interval low rng \<Longrightarrow>
  unat (low + rng) = (if unat low + unat rng = 2 ^ 32 then 0 else unat low + unat rng)"
  by (auto simp: interval_def unat_word_ariths(1))

lemma next_range:
  assumes "interval low rng" "\<not> interval_done low rng"
  shows "0 < unat (next_range low rng)" "unat (next_range low rng) \<le> unat rng"
    "unat low mod 2 ^ 24 + unat (next_range low rng) \<le> 2 ^ 24"
    "unat low mod 2 ^ 24 + unat (next_range low rng) = 2 ^ 24 \<Longrightarrow> unat (next_range low rng) < 2 ^ 16"
    "unat (next_range low rng) = unat rng \<or> unat low mod 2 ^ 24 + unat (next_range low rng) = 2 ^ 24"
    "unat low + unat rng = 2 ^ 32 \<Longrightarrow> unat (next_range low rng) = unat rng \<and> unat low mod 2 ^ 24 + unat rng = 2 ^ 24"
proof -
  define L R where "L = unat low" and "R = unat rng"
  have i: "0 < R" "L + R \<le> 2 ^ 32" "L + R = 2 ^ 32 \<Longrightarrow> 2 ^ 24 \<le> L" "L < 2 ^ 32"
    using assms(1) unat_u32_less [of low] by (auto simp: interval_def L_def R_def)
  have m: "L mod 2 ^ 24 < 2 ^ 24" by simp
  have differ: "(low XOR (low + rng)) \<ge> ENET_RANGE_CODER_TOP \<longleftrightarrow> (L div 2 ^ 24 + 1) * 2 ^ 24 \<le> L + R"
  proof -
    have "(low XOR (low + rng)) \<ge> ENET_RANGE_CODER_TOP \<longleftrightarrow> L div 2 ^ 24 \<noteq> unat (low + rng) div 2 ^ 24"
      by (simp only: top_bytes_differ L_def)
    also have "\<dots> \<longleftrightarrow> (L div 2 ^ 24 + 1) * 2 ^ 24 \<le> L + R"
    proof (cases "L + R = 2 ^ 32")
      case True
      then have "L div 2 ^ 24 \<noteq> 0"
        using i(3) by (simp add: div_eq_0_iff)
      moreover have "L div 2 ^ 24 < 256"
        using i(4) by (simp add: less_mult_imp_div_less)
      ultimately show ?thesis
        using True unat_end [OF assms(1)] by (simp add: L_def R_def)
    next
      case False
      have mono: "L div 2 ^ 24 \<le> (L + R) div 2 ^ 24"
        by (simp add: div_le_mono)
      have "unat (low + rng) = L + R"
        using False unat_end [OF assms(1)] by (simp add: L_def R_def)
      moreover have "(L div 2 ^ 24 + 1) * 2 ^ 24 \<le> L + R \<longleftrightarrow> L div 2 ^ 24 < (L + R) div 2 ^ 24"
        by (subst less_eq_div_iff_mult_less_eq [symmetric]) auto
      ultimately show ?thesis
        using mono by auto
    qed
    finally show ?thesis .
  qed
  define r where "r = unat (next_range low rng)"
  have "0 < r \<and> r \<le> R \<and> L mod 2 ^ 24 + r \<le> 2 ^ 24 \<and> (L mod 2 ^ 24 + r = 2 ^ 24 \<longrightarrow> r < 2 ^ 16) \<and>
      (r = R \<or> L mod 2 ^ 24 + r = 2 ^ 24) \<and> (L + R = 2 ^ 32 \<longrightarrow> r = R \<and> L mod 2 ^ 24 + R = 2 ^ 24)"
  proof (cases "(low XOR (low + rng)) \<ge> ENET_RANGE_CODER_TOP")
    case True
    then have small: "R < 2 ^ 16" and cross: "(L div 2 ^ 24 + 1) * 2 ^ 24 \<le> L + R"
      using assms(2) differ by (auto simp: interval_done_def R_def word_le_nat_alt)
    have "r = 2 ^ 24 - L mod 2 ^ 24"
      using True crossing_distance(1) [OF i(4) small i(2) cross]
      by (simp only: r_def next_range_def unat_low_bits if_True L_def)
    moreover have "L mod 2 ^ 24 + R = 2 ^ 24" if "L + R = 2 ^ 32"
    proof -
      have "L = 255 * 2 ^ 24 + (2 ^ 24 - R)"
        using that small by simp
      then have "L mod 2 ^ 24 = (2 ^ 24 - R) mod 2 ^ 24"
        by (metis mod_mult_self3)
      also have "\<dots> = 2 ^ 24 - R"
        using i(1) by (intro mod_less) simp
      finally show ?thesis
        using small by simp
    qed
    moreover from this have sum: "L mod 2 ^ 24 + r = 2 ^ 24"
      using \<open>r = 2 ^ 24 - L mod 2 ^ 24\<close> m by simp
    moreover have "r \<le> R" "0 < r"
      using crossing_distance(2) [OF i(4) small i(2) cross] \<open>r = 2 ^ 24 - L mod 2 ^ 24\<close> m by simp_all
    ultimately show ?thesis
      using small by auto
  next
    case False
    then have "L + R < (L div 2 ^ 24 + 1) * 2 ^ 24" "r = R"
      using differ by (simp_all add: r_def next_range_def R_def)
    moreover have "L = L div 2 ^ 24 * 2 ^ 24 + L mod 2 ^ 24"
      by simp
    ultimately have "L mod 2 ^ 24 + R < 2 ^ 24"
      unfolding add_mult_distrib by linarith
    moreover have "L + R \<noteq> 2 ^ 32"
    proof
      assume eq: "L + R = 2 ^ 32"
      then have "L div 2 ^ 24 < 256"
        using i(4) by (simp add: less_mult_imp_div_less)
      then have "(L div 2 ^ 24 + 1) * 2 ^ 24 \<le> 256 * 2 ^ 24"
        by (intro mult_le_mono1) simp
      then show False
        using \<open>L + R < (L div 2 ^ 24 + 1) * 2 ^ 24\<close> eq by simp
    qed
    ultimately show ?thesis
      using i(1) \<open>r = R\<close> by simp
  qed
  then show "0 < unat (next_range low rng)" "unat (next_range low rng) \<le> unat rng"
    "unat low mod 2 ^ 24 + unat (next_range low rng) \<le> 2 ^ 24"
    "unat low mod 2 ^ 24 + unat (next_range low rng) = 2 ^ 24 \<Longrightarrow> unat (next_range low rng) < 2 ^ 16"
    "unat (next_range low rng) = unat rng \<or> unat low mod 2 ^ 24 + unat (next_range low rng) = 2 ^ 24"
    "unat low + unat rng = 2 ^ 32 \<Longrightarrow> unat (next_range low rng) = unat rng \<and> unat low mod 2 ^ 24 + unat rng = 2 ^ 24"
    by (simp_all only: r_def L_def R_def)
qed

text \<open>One round of the renormalising loops.\<close>

lemma shifted_values:
  assumes "interval low rng" "\<not> interval_done low rng"
  shows "unat (push_bit 8 low) = (unat low mod 2 ^ 24) * 256"
    "unat (push_bit 8 (next_range low rng)) = unat (next_range low rng) * 256"
proof -
  show "unat (push_bit 8 low) = (unat low mod 2 ^ 24) * 256"
    by (rule unat_push_8)
  have "unat (next_range low rng) < 2 ^ 24"
    using next_range(3,4) [OF assms] by (cases "unat (next_range low rng) = 2 ^ 24") auto
  then show "unat (push_bit 8 (next_range low rng)) = unat (next_range low rng) * 256"
    by (simp add: unat_push_8)
qed

lemma interval_shift:
  assumes "interval low rng" "\<not> interval_done low rng"
  shows "interval (push_bit 8 low) (push_bit 8 (next_range low rng))"
  using next_range [OF assms] unfolding interval_def shifted_values [OF assms] by auto

lemma within_shift:
  assumes "interval low rng" "\<not> interval_done low rng"
    and "within (push_bit 8 low) (push_bit 8 (next_range low rng)) (code_of bs)"
  shows "within low rng (code_of (ucast (drop_bit 24 low) # bs))"
proof -
  have "unat low mod 2 ^ 24 \<le> unat (code_of bs) div 256"
    "unat (code_of bs) div 256 < unat low mod 2 ^ 24 + unat (next_range low rng)"
    using assms(3) unfolding within_def shifted_values [OF assms(1,2)] by auto
  moreover have "unat low = unat low div 2 ^ 24 * 2 ^ 24 + unat low mod 2 ^ 24"
    by simp
  ultimately show ?thesis
    using next_range(2) [OF assms(1,2)] unfolding within_def unat_code_of_Cons unat_top_byte by linarith
qed

section \<open>The loops\<close>

text \<open>\<open>settles low rng ds l r\<close>: renormalising the interval shifts out \<open>ds\<close> and leaves \<open>l\<close>, \<open>r\<close>.\<close>

inductive settles :: "u32 \<Rightarrow> u32 \<Rightarrow> u8 list \<Rightarrow> u32 \<Rightarrow> u32 \<Rightarrow> bool" where
  settled: "interval_done low rng \<Longrightarrow> settles low rng [] low rng"
| shifted: "\<not> interval_done low rng \<Longrightarrow>
    settles (push_bit 8 low) (push_bit 8 (next_range low rng)) ds l r \<Longrightarrow>
    settles low rng (ucast (drop_bit 24 low) # ds) l r"

lemma settles_interval: "settles low rng ds l r \<Longrightarrow> interval low rng \<Longrightarrow> interval l r \<and> interval_done l r"
  by (induction rule: settles.induct) (auto intro: interval_shift)

text \<open>Renormalising ends: the range grows, but for one step after which the interval ends at \<open>2\<^sup>3\<^sup>2\<close>.\<close>

lemma settles_exists: "interval low rng \<Longrightarrow> \<exists>ds l r. settles low rng ds l r"
proof (induction "(if unat low + unat rng = 2 ^ 32 then 0 else 2 ^ 33) + (2 ^ 32 - unat rng)" arbitrary: low rng rule: less_induct)
  case less
  show ?case
  proof (cases "interval_done low rng")
    case True
    then show ?thesis
      using settled by blast
  next
    case False
    let ?l = "push_bit 8 low" and ?r = "push_bit 8 (next_range low rng)"
    note n = next_range [OF less.prems False] and v = shifted_values [OF less.prems False]
    have "interval ?l ?r"
      using less.prems False by (rule interval_shift)
    moreover have "(if unat ?l + unat ?r = 2 ^ 32 then 0 else 2 ^ 33) + (2 ^ 32 - unat ?r)
        < (if unat low + unat rng = 2 ^ 32 then 0 else 2 ^ 33) + (2 ^ 32 - unat rng)"
    proof -
      define m k where "m = unat low mod 2 ^ 24" and "k = unat (next_range low rng)"
      have "unat ?l + unat ?r = 2 ^ 32 \<longleftrightarrow> m + k = 2 ^ 24" "unat ?r = k * 256" "0 < k" "k \<le> 2 ^ 24"
        "k = unat rng \<or> m + k = 2 ^ 24" "unat low + unat rng = 2 ^ 32 \<Longrightarrow> k = unat rng \<and> m + k = 2 ^ 24"
        using n v by (auto simp: m_def k_def)
      then show ?thesis
        using unat_u32_less [of rng] by auto
    qed
    ultimately obtain ds l r where "settles ?l ?r ds l r"
      using less.hyps by blast
    then show ?thesis
      using False shifted by blast
  qed
qed

lemma settles_within:
  "settles low rng ds l r \<Longrightarrow> interval low rng \<Longrightarrow> within l r (code_of bs) \<Longrightarrow> within low rng (code_of (ds @ bs))"
  by (induction rule: settles.induct) (auto intro: interval_shift within_shift)

lemma encode_settles:
  "encode_loop outLimit c = Some c' \<Longrightarrow>
    \<exists>ds l r. settles (rc_low c) (rc_range c) ds l r \<and>
      c' = c\<lparr>rc_out := rc_out c @ ds, rc_low := l, rc_range := r\<rparr>"
proof (induction outLimit c rule: encode_loop.induct)
  case (1 outLimit c)
  show ?case
  proof (cases "interval_done (rc_low c) (rc_range c)")
    case True
    then have "c' = c"
      using "1.prems" by (simp add: encode_loop.simps [of outLimit c])
    then show ?thesis
      using True settled by (intro exI [of _ "[]"] exI [of _ "rc_low c"] exI [of _ "rc_range c"]) auto
  next
    case False
    then have room: "\<not> outLimit \<le> length (rc_out c)"
      using "1.prems" by (auto simp: encode_loop.simps [of outLimit c] split: if_splits)
    obtain ds l r where "settles (push_bit 8 (rc_low c)) (push_bit 8 (next_range (rc_low c) (rc_range c))) ds l r"
      and c': "c' = c\<lparr>rc_out := (rc_out c @ [ucast (drop_bit 24 (rc_low c))]) @ ds, rc_low := l, rc_range := r\<rparr>"
      using "1.IH" [OF False room] "1.prems" False room by (auto simp: encode_loop.simps [of outLimit c])
    with False show ?thesis
      by (intro exI [of _ "ucast (drop_bit 24 (rc_low c)) # ds"] exI) (auto intro: shifted)
  qed
qed

text \<open>The decoder with \<open>bs\<close> left of its input: it holds their word, and the bytes behind it.\<close>

definition reading :: "u8 list \<Rightarrow> ENetRangeDecoder \<Rightarrow> ENetRangeDecoder" where
  "reading bs c = c\<lparr>rc_code := code_of bs, rc_in := drop 4 bs\<rparr>"

lemma reading_simps [simp]:
  "rc_code (reading bs c) = code_of bs" "rc_in (reading bs c) = drop 4 bs"
  "rc_low (reading bs c) = rc_low c" "rc_range (reading bs c) = rc_range c"
  "rc_symbols (reading bs c) = rc_symbols c" "rc_nextSymbol (reading bs c) = rc_nextSymbol c"
  "rc_fault (reading bs c) = rc_fault c" "rc_predicted (reading bs c) = rc_predicted c"
  "rc_order (reading bs c) = rc_order c" "rc_out (reading bs c) = rc_out c"
  "reading bs (reading cs c) = reading bs c"
  by (simp_all add: reading_def)

lemma or_shifted_byte: "push_bit 8 x OR ucast (d :: u8) = push_bit 8 x + (ucast d :: u32)"
  by (rule disjunctive_add [symmetric]) (auto simp: bit_simps dest: bit_imp_le_length)

lemma code_of_shift: "code_of (drop 1 bs) = push_bit 8 (code_of bs) OR of_nat (byte_at bs 4)"
proof (cases bs)
  case Nil
  then show ?thesis by simp
next
  case (Cons b cs)
  define q where "q = unat (code_of cs) div 256"
  have q: "q < 2 ^ 24"
    using unat_u32_less [of "code_of cs"] by (simp add: q_def less_mult_imp_div_less)
  have "unat (code_of cs) = q * 256 + byte_at cs 3"
    using byte_at_less [of cs 3] unfolding q_def unat_code_of by (subst div_mult_self3) simp_all
  moreover have "unat (push_bit 8 (code_of bs)) = q * 256"
    using q unfolding unat_push_8 Cons unat_code_of_Cons q_def [symmetric] by simp
  moreover have "byte_at bs 4 = byte_at cs 3"
    by (simp add: Cons byte_at_def)
  ultimately have "code_of cs = push_bit 8 (code_of bs) + of_nat (byte_at bs 4)"
    by (metis of_nat_add of_nat_unat ucast_id)
  moreover have "of_nat (byte_at bs 4) = (ucast (of_nat (byte_at bs 4) :: u8) :: u32)"
    using byte_at_less [of bs 4] by (simp add: ucast_of_nat_small)
  ultimately show ?thesis
    using Cons or_shifted_byte by simp
qed

lemma seed_byte_shift:
  "seed_byte 0 ((reading bs c)\<lparr>rc_code := push_bit 8 (code_of bs)\<rparr>) = reading (drop 1 bs) c"
proof (cases "drop 4 bs")
  case Nil
  then have "byte_at bs 4 = 0" "drop 5 bs = []"
    by (auto simp: byte_at_def)
  then show ?thesis
    using Nil code_of_shift [of bs] by (simp add: seed_byte_def reading_def)
next
  case (Cons d ds)
  then have l: "4 < length bs"
    by (cases "4 < length bs") auto
  then have "byte_at bs 4 = unat d" "drop 5 bs = ds"
    using Cons Cons_nth_drop_Suc [OF l] by (auto simp: byte_at_def)
  then show ?thesis
    using Cons code_of_shift [of bs] by (simp add: seed_byte_def reading_def)
qed

lemma settles_decode:
  "settles low rng ds l r \<Longrightarrow> rc_low c = low \<Longrightarrow> rc_range c = rng \<Longrightarrow>
    decode_loop (reading bs c) = Some (reading (drop (length ds) bs) (c\<lparr>rc_low := l, rc_range := r\<rparr>))"
proof (induction arbitrary: bs c rule: settles.induct)
  case (settled low rng)
  then show ?case
    by (simp add: decode_loop.simps [of "reading bs c"])
next
  case (shifted low rng ds l r)
  let ?c = "c\<lparr>rc_range := push_bit 8 (next_range low rng), rc_low := push_bit 8 low\<rparr>"
  have "decode_loop (reading bs c) =
      decode_loop ((seed_byte 0 ((reading bs c)\<lparr>rc_code := push_bit 8 (code_of bs)\<rparr>))
        \<lparr>rc_range := push_bit 8 (next_range low rng), rc_low := push_bit 8 low\<rparr>)"
    using shifted.hyps shifted.prems by (simp add: decode_loop.simps [of "reading bs c"])
  also have "\<dots> = decode_loop (reading (drop 1 bs) ?c)"
    by (simp only: seed_byte_shift) (cases c, simp add: reading_def)
  also have "\<dots> = Some (reading (drop (length ds) (drop 1 bs)) (?c\<lparr>rc_low := l, rc_range := r\<rparr>))"
    by (rule shifted.IH) simp_all
  finally show ?case
    by (simp add: reading_def)
qed

lemma seed_byte_at:
  assumes "rc_in c = drop i bs"
  shows "seed_byte n c = c\<lparr>rc_code := rc_code c OR push_bit n (of_nat (byte_at bs i)), rc_in := drop (Suc i) bs\<rparr>"
proof (cases "i < length bs")
  case True
  then have "rc_in c = bs ! i # drop (Suc i) bs"
    using assms Cons_nth_drop_Suc [OF True] by simp
  then show ?thesis
    using True by (simp add: seed_byte_def byte_at_def)
next
  case False
  then show ?thesis
    using assms by (simp add: seed_byte_def byte_at_def)
qed

lemma seed_reading:
  assumes "rc_code c = 0" "rc_in c = bs"
  shows "ENET_RANGE_CODER_SEED c = reading bs c"
proof -
  define z where "z = [0, 0, 0, 0] @ bs"
  have step: "code_of (drop j z) = push_bit 8 (code_of (drop i z)) OR of_nat (byte_at bs i)"
    if "i < 4" "j = Suc i" for i j
  proof -
    have "byte_at (drop i z) 4 = byte_at bs i"
      using that(1) by (auto simp: z_def byte_at_def nth_append)
    then show ?thesis
      using code_of_shift [of "drop i z"] that(2) by simp
  qed
  have start: "code_of (drop 0 z) = 0" and "drop 4 z = bs"
    by (simp_all add: z_def code_of_def)
  have s1: "code_of (drop 1 z) = of_nat (byte_at bs 0)"
    using step [of 0 1] start by simp
  have s2: "code_of (drop 2 z) = push_bit 8 (code_of (drop 1 z)) OR of_nat (byte_at bs 1)"
    and s3: "code_of (drop 3 z) = push_bit 8 (code_of (drop 2 z)) OR of_nat (byte_at bs 2)"
    and s4: "code_of (drop 4 z) = push_bit 8 (code_of (drop 3 z)) OR of_nat (byte_at bs 3)"
    by (rule step; simp)+
  have "code_of bs = push_bit 8 (push_bit 8 (push_bit 8 (of_nat (byte_at bs 0)) OR of_nat (byte_at bs 1))
      OR of_nat (byte_at bs 2)) OR of_nat (byte_at bs 3)"
    using s4 unfolding s3 s2 s1 \<open>drop 4 z = bs\<close> .
  then have code: "code_of bs = ((push_bit 24 (of_nat (byte_at bs 0)) OR push_bit 16 (of_nat (byte_at bs 1)))
      OR push_bit 8 (of_nat (byte_at bs 2))) OR of_nat (byte_at bs 3)"
    by (simp only: push_bit_or push_bit_push_bit) simp
  let ?w = "\<lambda>i. of_nat (byte_at bs i) :: u32"
  have "seed_byte 24 c = c\<lparr>rc_code := push_bit 24 (?w 0), rc_in := drop 1 bs\<rparr>"
    using seed_byte_at [of c 0 bs 24] assms by simp
  then have "seed_byte 16 (seed_byte 24 c) = c\<lparr>rc_code := push_bit 24 (?w 0) OR push_bit 16 (?w 1), rc_in := drop 2 bs\<rparr>"
    using seed_byte_at [of "seed_byte 24 c" 1 bs 16] by (simp del: One_nat_def) 
  then have "seed_byte 8 (seed_byte 16 (seed_byte 24 c)) =
      c\<lparr>rc_code := (push_bit 24 (?w 0) OR push_bit 16 (?w 1)) OR push_bit 8 (?w 2), rc_in := drop 3 bs\<rparr>"
    using seed_byte_at [of "seed_byte 16 (seed_byte 24 c)" 2 bs 8] by simp
  then show ?thesis
    using seed_byte_at [of "seed_byte 8 (seed_byte 16 (seed_byte 24 c))" 3 bs 0] code
    by (simp add: ENET_RANGE_CODER_SEED_def reading_def)
qed

section \<open>Coding one symbol\<close>

text \<open>The interval of a symbol: \<open>cnt\<close> of \<open>tot\<close>, above \<open>below\<close>.\<close>

definition slot_ok :: "u32 \<Rightarrow> u32 \<Rightarrow> u32 \<Rightarrow> bool" where
  "slot_ok below cnt tot \<longleftrightarrow> 0 < unat cnt \<and> unat below + unat cnt \<le> unat tot \<and> unat tot < 2 ^ 16"

lemma narrow_values:
  assumes "interval (rc_low c) (rc_range c)" "interval_done (rc_low c) (rc_range c)" "slot_ok below cnt tot"
  defines "q \<equiv> unat (rc_range c) div unat tot"
  shows "unat (rc_range c div tot) = q" "0 < q"
    "unat (rc_low (narrow below cnt tot c)) = unat (rc_low c) + unat below * q"
    "unat (rc_range (narrow below cnt tot c)) = q * unat cnt"
    "unat below * q + q * unat cnt \<le> unat (rc_range c)"
proof -
  define L R b k t where "L = unat (rc_low c)" and "R = unat (rc_range c)" and "b = unat below" and "k = unat cnt"
    and "t = unat tot"
  have slot: "0 < k" "b + k \<le> t" "t < 2 ^ 16" "2 ^ 16 \<le> R" "L + R \<le> 2 ^ 32"
    using assms(1-3) by (auto simp: slot_ok_def interval_def interval_done_def b_def k_def t_def L_def R_def word_le_nat_alt)
  have q: "q = R div t" "q * t \<le> R"
    by (simp_all add: q_def R_def t_def div_times_less_eq_dividend)
  show "unat (rc_range c div tot) = q"
    by (simp add: q_def unat_div)
  show "0 < q"
    using slot q(1) by (simp add: div_greater_zero_iff)
  have "(b + k) * q \<le> t * q"
    using slot(2) by (rule mult_le_mono1)
  then have le: "b * q + q * k \<le> R"
    using q(2) by (metis add_mult_distrib le_trans mult.commute)
  then show "unat below * q + q * unat cnt \<le> unat (rc_range c)"
    by (simp add: b_def k_def R_def)
  have "0 < q * k"
    using \<open>0 < q\<close> slot(1) by simp
  with le have small: "b * q < 2 ^ 32" "L + b * q < 2 ^ 32" "q * k < 2 ^ 32"
    using slot unat_u32_less [of "rc_range c"] unfolding R_def by linarith+
  have "unat (below * (rc_range c div tot)) = b * q"
    using small(1) by (simp add: unat_word_ariths(2) unat_div q_def b_def)
  then show "unat (rc_low (narrow below cnt tot c)) = unat (rc_low c) + unat below * q"
    using small(2) by (simp add: narrow_def Let_def unat_word_ariths(1) b_def L_def)
  show "unat (rc_range (narrow below cnt tot c)) = q * unat cnt"
    using small(3) by (simp add: narrow_def Let_def unat_word_ariths(2) unat_div q_def k_def)
qed

lemma narrow_interval:
  assumes "interval (rc_low c) (rc_range c)" "interval_done (rc_low c) (rc_range c)" "slot_ok below cnt tot"
  shows "interval (rc_low (narrow below cnt tot c)) (rc_range (narrow below cnt tot c))"
    "within (rc_low (narrow below cnt tot c)) (rc_range (narrow below cnt tot c)) code \<Longrightarrow>
      within (rc_low c) (rc_range c) code"
    "within (rc_low (narrow below cnt tot c)) (rc_range (narrow below cnt tot c)) code \<Longrightarrow>
      unat below \<le> unat ((code - rc_low c) div (rc_range c div tot)) \<and>
      unat ((code - rc_low c) div (rc_range c div tot)) < unat below + unat cnt"
proof -
  note v = narrow_values [OF assms]
  have "0 < unat cnt"
    using assms(3) by (simp add: slot_ok_def)
  then have pos: "0 < unat (rc_range c) div unat tot * unat cnt"
    using v(2) by simp
  show "interval (rc_low (narrow below cnt tot c)) (rc_range (narrow below cnt tot c))"
    using assms(1) v(5) pos unfolding interval_def v(3,4) by auto
  show "within (rc_low c) (rc_range c) code"
    if "within (rc_low (narrow below cnt tot c)) (rc_range (narrow below cnt tot c)) code"
    using that v(5) unfolding within_def v(3,4) by linarith
  show "unat below \<le> unat ((code - rc_low c) div (rc_range c div tot)) \<and>
      unat ((code - rc_low c) div (rc_range c div tot)) < unat below + unat cnt"
    if "within (rc_low (narrow below cnt tot c)) (rc_range (narrow below cnt tot c)) code"
  proof -
    define q where "q = unat (rc_range c) div unat tot"
    have w: "unat (rc_low c) + unat below * q \<le> unat code"
      "unat code < unat (rc_low c) + unat below * q + q * unat cnt"
      using that unfolding within_def v(3,4) q_def by auto
    have d: "unat (code - rc_low c) = unat code - unat (rc_low c)"
      using w by (simp add: unat_minus_cases word_le_nat_alt)
    have "unat ((code - rc_low c) div (rc_range c div tot)) = (unat code - unat (rc_low c)) div q"
      by (simp only: unat_div d v(1) q_def)
    moreover have "unat below \<le> (unat code - unat (rc_low c)) div q"
      using w v(2) by (simp add: q_def less_eq_div_iff_mult_less_eq)
    moreover have "(unat code - unat (rc_low c)) div q < unat below + unat cnt"
      using w v(2) by (simp add: q_def div_less_iff_less_mult add_mult_distrib mult.commute)
    ultimately show ?thesis by simp
  qed
qed

text \<open>What encoding a symbol writes, and that the decoder which finds it reads the symbol back.\<close>

lemma encode_symbol:
  assumes "interval (rc_low c) (rc_range c)" "interval_done (rc_low c) (rc_range c)" "slot_ok below cnt tot"
    and "ENET_RANGE_CODER_ENCODE outLimit below cnt tot c = Some c'"
  shows "\<exists>ds l r. c' = c\<lparr>rc_out := rc_out c @ ds, rc_low := l, rc_range := r\<rparr> \<and> interval l r \<and> interval_done l r \<and>
    settles (rc_low (narrow below cnt tot c)) (rc_range (narrow below cnt tot c)) ds l r"
proof -
  obtain ds l r where s: "settles (rc_low (narrow below cnt tot c)) (rc_range (narrow below cnt tot c)) ds l r"
    and c': "c' = (narrow below cnt tot c)\<lparr>rc_out := rc_out (narrow below cnt tot c) @ ds, rc_low := l, rc_range := r\<rparr>"
    using assms(4) encode_settles unfolding ENET_RANGE_CODER_ENCODE_def by blast
  moreover have "tot \<noteq> 0"
    using assms(3) by (auto simp: slot_ok_def)
  then have "c' = c\<lparr>rc_out := rc_out c @ ds, rc_low := l, rc_range := r\<rparr>"
    using c' by (cases c) (simp add: narrow_def Let_def)
  ultimately show ?thesis
    using settles_interval [OF s narrow_interval(1) [OF assms(1-3)]] by blast
qed

text \<open>What a range is divided by is not 0.\<close>

lemma divides:
  assumes "interval_done l r" "slot_ok below cnt tot"
  shows "tot \<noteq> 0" "r div tot \<noteq> 0"
proof -
  have t: "0 < unat tot" "unat tot < 2 ^ 16"
    using assms(2) by (auto simp: slot_ok_def)
  then show "tot \<noteq> 0" by auto
  have "unat tot \<le> unat r"
    using assms(1) t(2) by (simp add: interval_done_def word_le_nat_alt)
  then have "0 < unat (r div tot)"
    using t(1) by (simp add: unat_div div_greater_zero_iff)
  then show "r div tot \<noteq> 0" by auto
qed

lemma read_symbol:
  assumes "interval (rc_low c) (rc_range c)" "interval_done (rc_low c) (rc_range c)" "slot_ok below cnt tot"
    and "within (rc_low c + below * (rc_range c div tot)) (rc_range c div tot * cnt) (rc_code c)"
  shows "\<exists>code. ENET_RANGE_CODER_READ tot c = (code, c\<lparr>rc_range := rc_range c div tot\<rparr>) \<and>
    unat below \<le> unat code \<and> unat code < unat below + unat cnt"
proof -
  let ?q = "(rc_code c - rc_low c) div (rc_range c div tot)"
  have "within (rc_low (narrow below cnt tot c)) (rc_range (narrow below cnt tot c)) (rc_code c)"
    using assms(4) by (simp add: narrow_def Let_def)
  then have q: "unat below \<le> unat ?q" "unat ?q < unat below + unat cnt"
    using narrow_interval(3) [OF assms(1-3)] by simp_all
  moreover have "unat below + unat cnt < 2 ^ 16"
    using assms(3) by (simp add: slot_ok_def)
  ultimately have "unat (ucast ?q :: u16) = unat ?q"
    by (simp add: unsigned_ucast_eq take_bit_nat_eq_self)
  then show ?thesis
    using q divides [OF assms(2,3)] by (intro exI [of _ "ucast ?q"]) (cases c, simp add: ENET_RANGE_CODER_READ_def Let_def)
qed

lemma decode_symbol:
  assumes "settles (rc_low c + below * rc_range c) (rc_range c * cnt) ds l r"
  shows "ENET_RANGE_CODER_DECODE below cnt (reading bs c) = Some (reading (drop (length ds) bs) (c\<lparr>rc_low := l, rc_range := r\<rparr>))"
proof -
  let ?c = "c\<lparr>rc_low := rc_low c + below * rc_range c, rc_range := rc_range c * cnt\<rparr>"
  have "ENET_RANGE_CODER_DECODE below cnt (reading bs c) = decode_loop (reading bs ?c)"
    by (cases c) (simp add: ENET_RANGE_CODER_DECODE_def reading_def)
  also have "\<dots> = Some (reading (drop (length ds) bs) (?c\<lparr>rc_low := l, rc_range := r\<rparr>))"
    by (rule settles_decode [OF assms]) simp_all
  finally show ?thesis
    by simp
qed

section \<open>Coding a list of symbols\<close>

type_synonym slots = "(u32 \<times> u32 \<times> u32) list"

text \<open>What the encoder writes for a list of slots, and the decoder that finds each of them.\<close>

inductive codes :: "u32 \<Rightarrow> u32 \<Rightarrow> slots \<Rightarrow> u8 list \<Rightarrow> u32 \<Rightarrow> u32 \<Rightarrow> bool" where
  codes_Nil: "codes low rng [] [] low rng"
| codes_Cons: "slot_ok b k t \<Longrightarrow> settles (low + b * (rng div t)) (rng div t * k) ds l1 r1 \<Longrightarrow>
    codes l1 r1 ss es l r \<Longrightarrow> codes low rng ((b, k, t) # ss) (ds @ es) l r"

inductive decodes :: "u32 \<Rightarrow> u32 \<Rightarrow> slots \<Rightarrow> u8 list \<Rightarrow> u32 \<Rightarrow> u32 \<Rightarrow> u8 list \<Rightarrow> bool" where
  decodes_Nil: "decodes low rng [] bs low rng bs"
| decodes_Cons: "slot_ok b k t \<Longrightarrow> within (low + b * (rng div t)) (rng div t * k) (code_of bs) \<Longrightarrow>
    settles (low + b * (rng div t)) (rng div t * k) ds l1 r1 \<Longrightarrow>
    decodes l1 r1 ss (drop (length ds) bs) l r bs' \<Longrightarrow> decodes low rng ((b, k, t) # ss) bs l r bs'"

inductive_cases decodes_ConsE: "decodes low rng ((b, k, t) # ss) bs l r bs'"

lemma narrowed_interval:
  assumes "interval low rng" "interval_done low rng" "slot_ok b k t"
  shows "interval (low + b * (rng div t)) (rng div t * k)"
    "within (low + b * (rng div t)) (rng div t * k) code \<Longrightarrow> within low rng code"
proof -
  define c where "c = \<lparr>rc_symbols = (\<lambda>_. new_symbol 0 0), rc_fault = False, rc_nextSymbol = 0, rc_low = low,
    rc_range = rng, rc_predicted = 0, rc_order = 0, rc_out = []\<rparr>"
  have "rc_low c = low" "rc_range c = rng" "rc_low (narrow b k t c) = low + b * (rng div t)"
    "rc_range (narrow b k t c) = rng div t * k"
    by (simp_all add: c_def narrow_def Let_def)
  then show "interval (low + b * (rng div t)) (rng div t * k)"
    "within (low + b * (rng div t)) (rng div t * k) code \<Longrightarrow> within low rng code"
    using narrow_interval(1,2) [of c b k t] assms by simp_all
qed

lemma codes_interval:
  "codes low rng ss ds l r \<Longrightarrow> interval low rng \<Longrightarrow> interval_done low rng \<Longrightarrow> interval l r \<and> interval_done l r"
  by (induction rule: codes.induct) (auto dest: settles_interval narrowed_interval(1))

lemma codes_append:
  "codes low rng ss ds l r \<Longrightarrow> codes l r ts es l' r' \<Longrightarrow> codes low rng (ss @ ts) (ds @ es) l' r'"
  by (induction rule: codes.induct) (auto intro: codes_Cons)

lemma codes_decodes:
  assumes "codes low rng ss ds l r" "interval low rng" "interval_done low rng" "within l r (code_of bs)"
  shows "decodes low rng ss (ds @ bs) l r bs \<and> within low rng (code_of (ds @ bs))"
  using assms
proof (induction rule: codes.induct)
  case (codes_Nil low rng)
  then show ?case by (simp add: decodes_Nil)
next
  case (codes_Cons b k t low rng ds l1 r1 ss es l r)
  have i: "interval (low + b * (rng div t)) (rng div t * k)"
    using narrowed_interval(1) [OF codes_Cons.prems(1,2) codes_Cons.hyps(1)] .
  then have "interval l1 r1" "interval_done l1 r1"
    using settles_interval [OF codes_Cons.hyps(2)] by simp_all
  then have IH: "decodes l1 r1 ss (es @ bs) l r bs" "within l1 r1 (code_of (es @ bs))"
    using codes_Cons.IH codes_Cons.prems(3) by simp_all
  have w: "within (low + b * (rng div t)) (rng div t * k) (code_of (ds @ es @ bs))"
    using settles_within [OF codes_Cons.hyps(2) i IH(2)] .
  then show ?case
    using decodes_Cons [OF codes_Cons.hyps(1) w codes_Cons.hyps(2)] IH(1)
      narrowed_interval(2) [OF codes_Cons.prems(1,2) codes_Cons.hyps(1)] by simp
qed

text \<open>A decoder that is left with the start of the interval finds the first slot, whatever it is.\<close>

lemma settles_start:
  "settles low rng ds l r \<Longrightarrow> code_of bs = low \<Longrightarrow> length bs \<le> 4 \<Longrightarrow> code_of (drop (length ds) bs) = l"
proof (induction arbitrary: bs rule: settles.induct)
  case (shifted low rng ds l r)
  have "code_of (drop 1 bs) = push_bit 8 low"
    using code_of_shift [of bs] shifted.prems by (simp add: byte_at_def)
  then show ?case
    using shifted.IH [of "drop 1 bs"] shifted.prems(2) by simp
qed simp

lemma start_decodes:
  assumes "interval low rng" "interval_done low rng" "code_of bs = low" "length bs \<le> 4"
    and "\<And>b k t. (b, k, t) \<in> set ss \<Longrightarrow> b = 0 \<and> slot_ok b k t"
  shows "\<exists>l r bs'. decodes low rng ss bs l r bs'"
  using assms
proof (induction ss arbitrary: low rng bs)
  case Nil
  then show ?case using decodes_Nil by blast
next
  case (Cons s ss)
  obtain b k t where s: "s = (b, k, t)" by (cases s)
  have b: "b = 0" and ok: "slot_ok b k t"
    using Cons.prems(5) s by auto
  have i: "interval (low + b * (rng div t)) (rng div t * k)"
    using narrowed_interval(1) [OF Cons.prems(1,2) ok] .
  then obtain ds l1 r1 where st: "settles (low + b * (rng div t)) (rng div t * k) ds l1 r1"
    using settles_exists by blast
  have w: "within (low + b * (rng div t)) (rng div t * k) (code_of bs)"
    using i b Cons.prems(3) by (simp add: within_def interval_def)
  have "code_of (drop (length ds) bs) = l1"
    using settles_start [OF st] b Cons.prems(3,4) by simp
  moreover have "interval l1 r1" "interval_done l1 r1"
    using settles_interval [OF st i] by simp_all
  moreover have "length (drop (length ds) bs) \<le> 4" "\<And>b k t. (b, k, t) \<in> set ss \<Longrightarrow> b = 0 \<and> slot_ok b k t"
    using Cons.prems(4,5) by (simp, meson list.set_intros(2))
  ultimately obtain l r bs' where "decodes l1 r1 ss (drop (length ds) bs) l r bs'"
    using Cons.IH by blast
  then show ?case
    using decodes_Cons [OF ok w st] s by blast
qed

lemma slot_of_nat: "0 < k \<Longrightarrow> b + k \<le> t \<Longrightarrow> t < 65536 \<Longrightarrow> slot_ok (of_nat b) (of_nat k) (of_nat t)"
  by (simp add: slot_ok_def unat_of_nat_small)

text \<open>Flushing: what is written makes the start of the interval.\<close>

lemma unat_low_shift: "unat (x :: u32) = unat x div 2 ^ 24 * 2 ^ 24 + unat (push_bit 8 x) div 256"
  by (simp add: unat_push_8)

lemma flush_short:
  "ENET_RANGE_CODER_FLUSH outLimit c = Some c' \<Longrightarrow> rc_low c = push_bit (8 * i) x \<Longrightarrow> i \<le> 4 \<Longrightarrow>
    length (rc_out c') \<le> length (rc_out c) + (4 - i)"
proof (induction outLimit c arbitrary: i rule: ENET_RANGE_CODER_FLUSH.induct)
  case (1 outLimit c)
  show ?case
  proof (cases "rc_low c = 0")
    case True
    then show ?thesis
      using "1.prems" by (simp add: ENET_RANGE_CODER_FLUSH.simps [of outLimit c])
  next
    case False
    have "push_bit 32 x = 0"
      by (rule bit_word_eqI) (simp add: bit_simps)
    then have i: "i < 4"
      using False "1.prems"(2,3) by (cases "i = 4") auto
    have room: "\<not> outLimit \<le> length (rc_out c)"
      using False "1.prems" by (auto simp: ENET_RANGE_CODER_FLUSH.simps [of outLimit c] split: if_splits)
    have "push_bit 8 (rc_low c) = push_bit (8 * Suc i) x"
      using "1.prems"(2) by (simp add: push_bit_push_bit)
    then show ?thesis
      using "1.IH" [OF False room, of "Suc i"] "1.prems" False room i
      by (simp add: ENET_RANGE_CODER_FLUSH.simps [of outLimit c])
  qed
qed

lemma flush_code:
  "ENET_RANGE_CODER_FLUSH outLimit c = Some c' \<Longrightarrow> \<exists>ds. rc_out c' = rc_out c @ ds \<and> code_of ds = rc_low c \<and> rc_fault c' = rc_fault c"
proof (induction outLimit c rule: ENET_RANGE_CODER_FLUSH.induct)
  case (1 outLimit c)
  show ?case
  proof (cases "rc_low c = 0")
    case True
    then have "c' = c"
      using "1.prems" by (simp add: ENET_RANGE_CODER_FLUSH.simps [of outLimit c])
    then show ?thesis
      using True by (intro exI [of _ "[]"]) simp
  next
    case False
    then have room: "\<not> outLimit \<le> length (rc_out c)"
      using "1.prems" by (auto simp: ENET_RANGE_CODER_FLUSH.simps [of outLimit c] split: if_splits)
    obtain ds where ds: "rc_out c' = (rc_out c @ [ucast (drop_bit 24 (rc_low c))]) @ ds"
      "code_of ds = push_bit 8 (rc_low c)" "rc_fault c' = rc_fault c"
      using "1.IH" [OF False room] "1.prems" False room by (auto simp: ENET_RANGE_CODER_FLUSH.simps [of outLimit c])
    have "unat (code_of (ucast (drop_bit 24 (rc_low c)) # ds)) = unat (rc_low c)"
      unfolding unat_code_of_Cons ds(2) unat_top_byte by (rule unat_low_shift [symmetric])
    then have "code_of (ucast (drop_bit 24 (rc_low c)) # ds) = rc_low c"
      by (simp only: word_unat_eq_iff)
    then show ?thesis
      using ds by (intro exI [of _ "ucast (drop_bit 24 (rc_low c)) # ds"]) simp
  qed
qed

end
