(* ===== verification/Enet_Counts.thy ===== *)
theory Enet_Counts
  imports Enet_Range "HOL-Library.Tree"
begin

text \<open>
  The symbols of one context of the range coder: a binary search tree of values and counts, whose
  nodes are symbols of the array.  Every operation on the nodes is an operation on the abstract
  tree: counting a value, halving the counts, and finding the value of a code.
\<close>

section \<open>Trees of counts\<close>

type_synonym counts = "(u8 \<times> nat) tree"

definition vals :: "counts \<Rightarrow> u8 set" where
  "vals t = fst ` set_tree t"

fun weight :: "counts \<Rightarrow> nat" where
  "weight Leaf = 0"
| "weight (Node l (w, n) r) = weight l + n + weight r"

fun ordered :: "counts \<Rightarrow> bool" where
  "ordered Leaf = True"
| "ordered (Node l (w, n) r) \<longleftrightarrow> (\<forall>v \<in> vals l. v < w) \<and> (\<forall>v \<in> vals r. w < v) \<and> ordered l \<and> ordered r"

text \<open>The sum of the counts of the smaller values, and the count of a value.\<close>

fun weight_below :: "counts \<Rightarrow> u8 \<Rightarrow> nat" where
  "weight_below Leaf v = 0"
| "weight_below (Node l (w, n) r) v =
     (if v < w then weight_below l v else if v > w then weight l + n + weight_below r v else weight l)"

fun count_of :: "counts \<Rightarrow> u8 \<Rightarrow> nat" where
  "count_of Leaf v = 0"
| "count_of (Node l (w, n) r) v = (if v < w then count_of l v else if v > w then count_of r v else n)"

fun bump :: "counts \<Rightarrow> u8 \<Rightarrow> nat \<Rightarrow> counts" where
  "bump Leaf v d = Node Leaf (v, d) Leaf"
| "bump (Node l (w, n) r) v d =
     (if v < w then Node (bump l v d) (w, n) r
      else if v > w then Node l (w, n) (bump r v d)
      else Node l (w, n + d) r)"

fun halve :: "counts \<Rightarrow> counts" where
  "halve Leaf = Leaf"
| "halve (Node l (w, n) r) = Node (halve l) (w, n - n div 2) (halve r)"

lemma vals_simps [simp]: "vals Leaf = {}" "vals (Node l (w, n) r) = insert w (vals l \<union> vals r)"
  by (auto simp: vals_def)

lemma vals_bump [simp]: "vals (bump t v d) = insert v (vals t)"
  by (induction t v d rule: bump.induct) auto

lemma vals_halve [simp]: "vals (halve t) = vals t"
  by (induction t rule: halve.induct) auto

lemma ordered_bump: "ordered t \<Longrightarrow> ordered (bump t v d)"
  by (induction t v d rule: bump.induct) auto

lemma ordered_halve: "ordered t \<Longrightarrow> ordered (halve t)"
  by (induction t rule: halve.induct) auto

lemma ordered_apart: "ordered (Node l (w, n) r) \<Longrightarrow> vals l \<inter> vals r = {} \<and> w \<notin> vals l \<and> w \<notin> vals r"
  by (auto dest: less_asym)

lemma weight_bump: "weight (bump t v d) = weight t + d"
  by (induction t v d rule: bump.induct) auto

lemma count_of_0: "v \<notin> vals t \<Longrightarrow> count_of t v = 0"
  by (induction t v rule: count_of.induct) auto

lemma weight_below_le: "weight_below t v + count_of t v \<le> weight t"
  by (induction t v rule: count_of.induct) auto

text \<open>The counts of a tree are between 1 and \<open>b\<close>.\<close>

fun counts_within :: "nat \<Rightarrow> counts \<Rightarrow> bool" where
  "counts_within b Leaf = True"
| "counts_within b (Node l (w, n) r) \<longleftrightarrow> 0 < n \<and> n \<le> b \<and> counts_within b l \<and> counts_within b r"

lemma counts_within_mono: "counts_within b t \<Longrightarrow> b \<le> c \<Longrightarrow> counts_within c t"
  by (induction b t rule: counts_within.induct) auto

lemma counts_within_bump:
  "counts_within b t \<Longrightarrow> 0 < d \<Longrightarrow> count_of t v + d \<le> c \<Longrightarrow> b \<le> c \<Longrightarrow> counts_within c (bump t v d)"
  by (induction t v d rule: bump.induct) (auto intro: counts_within_mono)

lemma counts_within_halve: "counts_within b t \<Longrightarrow> counts_within (b - b div 2) (halve t)"
  by (induction t rule: halve.induct) auto

lemma count_of_pos: "counts_within b t \<Longrightarrow> v \<in> vals t \<Longrightarrow> ordered t \<Longrightarrow> 0 < count_of t v \<and> count_of t v \<le> b"
  by (induction t v rule: count_of.induct) auto

lemma weight_pos: "counts_within b t \<Longrightarrow> t \<noteq> Leaf \<Longrightarrow> 0 < weight t"
  by (cases t rule: weight.cases) auto

section \<open>Trees in the array\<close>

text \<open>
  A symbol as the node of a tree, and as a context.  \<open>a\<close> is the address of the symbol of a
  value.
\<close>

definition node_view :: "ENetSymbol \<Rightarrow> u8 \<times> u8 \<times> u16 \<times> u16 \<times> u16" where
  "node_view s = (sy_value s, sy_count s, sy_under s, sy_left s, sy_right s)"

definition context_view :: "ENetSymbol \<Rightarrow> u16 \<times> u16 \<times> u16 \<times> u16" where
  "context_view s = (sy_symbols s, sy_escapes s, sy_total s, sy_parent s)"

definition links_to :: "(u8 \<Rightarrow> nat) \<Rightarrow> nat \<Rightarrow> u16 \<Rightarrow> counts \<Rightarrow> bool" where
  "links_to a i off t \<longleftrightarrow>
     (case t of Leaf \<Rightarrow> off = 0 | Node l (w, n) r \<Rightarrow> i < a w \<and> a w < symbolCount \<and> off = symbol_offset (a w) i)"

fun tree_at :: "(u8 \<Rightarrow> nat) \<Rightarrow> (nat \<Rightarrow> ENetSymbol) \<Rightarrow> counts \<Rightarrow> bool" where
  "tree_at a m Leaf = True"
| "tree_at a m (Node l (w, n) r) \<longleftrightarrow>
     node_view (m (a w)) = (w, of_nat n, of_nat (weight l + n), sy_left (m (a w)), sy_right (m (a w))) \<and>
     links_to a (a w) (sy_left (m (a w))) l \<and> links_to a (a w) (sy_right (m (a w))) r \<and>
     tree_at a m l \<and> tree_at a m r"

lemma links_to_simps [simp]:
  "links_to a i off Leaf \<longleftrightarrow> off = 0"
  "links_to a i off (Node l (w, n) r) \<longleftrightarrow> i < a w \<and> a w < symbolCount \<and> off = symbol_offset (a w) i"
  by (simp_all add: links_to_def)

lemma unat_offset: "i < j \<Longrightarrow> j < symbolCount \<Longrightarrow> unat (symbol_offset j i) = j - i"
  by (simp add: symbol_offset_def unat_minus_cases word_le_nat_alt unat_of_nat_small)

lemma follow_offset [simp]: "i < j \<Longrightarrow> j < symbolCount \<Longrightarrow> i + unat (symbol_offset j i) = j"
  by (simp add: unat_offset)

lemma offset_nonzero [simp]: "i < j \<Longrightarrow> j < symbolCount \<Longrightarrow> symbol_offset j i \<noteq> 0"
  using unat_offset [of i j] by auto

lemma tree_at_cong:
  "(\<And>v. v \<in> vals t \<Longrightarrow> node_view (m' (a v)) = node_view (m (a v)) \<and> a' v = a v) \<Longrightarrow> tree_at a' m' t = tree_at a m t"
proof (induction t rule: weight.induct)
  case (2 l w n r)
  have "node_view (m' (a w)) = node_view (m (a w))" "a' w = a w"
    using "2.prems" by simp_all
  moreover have "links_to a' i off l = links_to a i off l" "links_to a' i off r = links_to a i off r" for i off
    using "2.prems" by (auto simp: links_to_def split: tree.split)
  ultimately show ?case
    using "2.IH" "2.prems" by (simp add: node_view_def)
qed simp

lemma tree_at_frame:
  "tree_at a m t \<Longrightarrow> (\<And>v. v \<in> vals t \<Longrightarrow> m' (a v) = m (a v)) \<Longrightarrow> tree_at a m' t"
  using tree_at_cong [of t m' a m a] by auto

section \<open>Counting a value\<close>

lemma upd_symbol_inside: "i < symbolCount \<Longrightarrow> upd_symbol i f c = c\<lparr>rc_symbols := (rc_symbols c)(i := f (rc_symbols c i))\<rparr>"
  by (cases c) (simp add: upd_symbol_def)

lemma node_view_new [simp]: "node_view (new_symbol v d) = (v, d, ucast d, 0, 0)"
  "context_view (new_symbol v d) = (0, 0, 0, 0)" "sy_left (new_symbol v d) = 0" "sy_right (new_symbol v d) = 0"
  by (simp_all add: node_view_def context_view_def new_symbol_def)

text \<open>
  The addresses of the values of a tree and of \<open>v\<close>, which is that of the next symbol where the
  tree does not have \<open>v\<close>.
\<close>

definition addressed :: "(u8 \<Rightarrow> nat) \<Rightarrow> counts \<Rightarrow> u8 \<Rightarrow> nat \<Rightarrow> bool" where
  "addressed a t v n \<longleftrightarrow> inj_on a (insert v (vals t)) \<and> (\<forall>w \<in> vals t. a w < n) \<and> n \<le> symbolCount \<and>
     (v \<notin> vals t \<longrightarrow> a v = n \<and> n < symbolCount)"

definition tallied :: "(u8 \<Rightarrow> nat) \<Rightarrow> counts \<Rightarrow> u8 \<Rightarrow> nat \<Rightarrow> (nat \<Rightarrow> ENetSymbol) \<Rightarrow> (nat \<Rightarrow> ENetSymbol) \<Rightarrow> bool" where
  "tallied a t v d m m' \<longleftrightarrow> tree_at a m' (bump t v d) \<and>
     (\<forall>i. i \<notin> a ` insert v (vals t) \<longrightarrow> m' i = m i) \<and>
     (\<forall>w \<in> vals t. context_view (m' (a w)) = context_view (m (a w))) \<and>
     (v \<notin> vals t \<longrightarrow> context_view (m' (a v)) = (0, 0, 0, 0))"

text \<open>How what was done in a subtree, or to the node, is what was done in the tree.\<close>

lemma addressed_apart:
  "addressed a t v n \<Longrightarrow> x \<in> insert v (vals t) \<Longrightarrow> y \<in> insert v (vals t) \<Longrightarrow> a x = a y \<longleftrightarrow> x = y"
  by (auto simp: addressed_def dest: inj_onD)

lemma addressed_less: "addressed a t v n \<Longrightarrow> w \<in> vals t \<Longrightarrow> a w < n \<and> a w < symbolCount"
  by (auto simp: addressed_def)

lemma addressed_left: "addressed a (Node l (w, n) r) v k \<Longrightarrow> ordered (Node l (w, n) r) \<Longrightarrow> v < w \<Longrightarrow> addressed a l v k"
  by (fastforce simp: addressed_def intro: inj_on_subset)

lemma addressed_right: "addressed a (Node l (w, n) r) v k \<Longrightarrow> ordered (Node l (w, n) r) \<Longrightarrow> w < v \<Longrightarrow> addressed a r v k"
  by (fastforce simp: addressed_def intro: inj_on_subset)

lemma tallied_child:
  assumes "addressed a t v k" "vals t = insert w (vals u \<union> vals o')" "w \<notin> insert v (vals u \<union> vals o')"
    "insert v (vals u) \<inter> vals o' = {}" "tallied a u v d (m(a w := s)) m'" "context_view s = context_view (m (a w))"
  shows "m' (a w) = s" "\<And>x. x \<in> vals o' \<Longrightarrow> m' (a x) = m (a x)" "\<And>i. i \<notin> a ` insert v (vals t) \<Longrightarrow> m' i = m i"
    "\<And>x. x \<in> vals t \<Longrightarrow> context_view (m' (a x)) = context_view (m (a x))"
    "v \<notin> vals t \<Longrightarrow> context_view (m' (a v)) = (0, 0, 0, 0)"
proof -
  have same: "m' (a x) = (m(a w := s)) (a x)" if "x \<in> insert w (vals o')" for x
  proof -
    have "a x \<noteq> a y" if "y \<in> insert v (vals u)" for y
      using that \<open>x \<in> insert w (vals o')\<close> assms(2-4) addressed_apart [OF assms(1), of x y] by auto
    then show ?thesis
      using assms(5) unfolding tallied_def by blast
  qed
  show w: "m' (a w) = s"
    using same [of w] by simp
  have aw: "a x \<noteq> a w" if "x \<in> vals u \<union> vals o'" for x
    using that assms(2,3) addressed_apart [OF assms(1), of x w] by auto
  show o: "m' (a x) = m (a x)" if "x \<in> vals o'" for x
    using that same [of x] aw [of x] by simp
  show "m' i = m i" if "i \<notin> a ` insert v (vals t)" for i
    using that assms(2,5) by (auto simp: tallied_def)
  show "context_view (m' (a x)) = context_view (m (a x))" if x: "x \<in> vals t" for x
  proof -
    consider "x = w" | "x \<in> vals o'" | "x \<in> vals u"
      using x unfolding assms(2) by blast
    then show ?thesis
    proof cases
      case 1
      then show ?thesis using w assms(6) by simp
    next
      case 2
      then show ?thesis using o by simp
    next
      case 3
      then show ?thesis using aw [of x] assms(5) by (simp add: tallied_def)
    qed
  qed
  show "context_view (m' (a v)) = (0, 0, 0, 0)" if "v \<notin> vals t"
    using that assms(2,5) by (simp add: tallied_def)
qed

lemma tallied_left:
  assumes "tree_at a m (Node l (w, n) r)" "ordered (Node l (w, n) r)" "addressed a (Node l (w, n) r) v k" "v < w"
    and "tallied a l v d (m(a w := s)) m'"
    and "node_view s = (w, of_nat n, of_nat (weight l + n + d), lk, sy_right (m (a w)))"
    and "context_view s = context_view (m (a w))" "links_to a (a w) lk (bump l v d)"
  shows "tallied a (Node l (w, n) r) v d m m'"
proof -
  have apart: "vals (Node l (w, n) r) = insert w (vals l \<union> vals r)" "w \<notin> insert v (vals l \<union> vals r)"
    "insert v (vals l) \<inter> vals r = {}"
    using assms(2,4) ordered_apart [OF assms(2)] by (auto dest: less_asym)
  note child = tallied_child [OF assms(3) apart assms(5,7)]
  have "tree_at a m' r"
    using assms(1) child(2) by (auto intro: tree_at_frame)
  moreover have "tree_at a m' (bump l v d)"
    using assms(5) by (simp add: tallied_def)
  ultimately have "tree_at a m' (bump (Node l (w, n) r) v d)"
    using assms(1,4,6,8) child(1) by (simp add: node_view_def weight_bump ac_simps)
  then show ?thesis
    using child(3-5) by (auto simp: tallied_def)
qed

lemma tallied_right:
  assumes "tree_at a m (Node l (w, n) r)" "ordered (Node l (w, n) r)" "addressed a (Node l (w, n) r) v k" "w < v"
    and "tallied a r v d (m(a w := s)) m'"
    and "node_view s = (w, of_nat n, of_nat (weight l + n), sy_left (m (a w)), lk)"
    and "context_view s = context_view (m (a w))" "links_to a (a w) lk (bump r v d)"
  shows "tallied a (Node l (w, n) r) v d m m'"
proof -
  have apart: "vals (Node l (w, n) r) = insert w (vals r \<union> vals l)" "w \<notin> insert v (vals r \<union> vals l)"
    "insert v (vals r) \<inter> vals l = {}"
    using assms(2,4) ordered_apart [OF assms(2)] by (auto dest: less_asym)
  note child = tallied_child [OF assms(3) apart assms(5,7)]
  have "tree_at a m' l"
    using assms(1) child(2) by (auto intro: tree_at_frame)
  moreover have "tree_at a m' (bump r v d)"
    using assms(5) by (simp add: tallied_def)
  ultimately have "tree_at a m' (bump (Node l (w, n) r) v d)"
    using assms(1,4,6,8) child(1) less_not_sym [OF assms(4)] by (simp add: node_view_def)
  then show ?thesis
    using child(3-5) by (auto simp: tallied_def)
qed

lemma tallied_leaf: "v \<notin> vals t \<Longrightarrow> addressed a t v k \<Longrightarrow> tallied a Leaf v (unat d) m (m(a v := new_symbol v d))"
  by (simp add: tallied_def node_view_def [symmetric])

lemma context_walk_counts:
  assumes "t = Node l (w, n) r" "tree_at a (rc_symbols c) t" "ordered t" "counts_within 255 t"
    and "addressed a t v (rc_nextSymbol c)"
  shows "\<exists>m'. context_walk v d below cnt (a w) c =
      (a v, below + of_nat (weight_below t v), cnt + of_nat (count_of t v),
       c\<lparr>rc_symbols := m', rc_nextSymbol := rc_nextSymbol c + (if v \<in> vals t then 0 else 1)\<rparr>) \<and>
    tallied a t v (unat d) (rc_symbols c) m'"
  using assms
proof (induction t arbitrary: l w n r c below)
  case (Node l' x r')
  let ?m = "rc_symbols c" and ?N = "rc_nextSymbol c"
  define t where "t = Node l (w, n) r"
  have x: "l' = l" "x = (w, n)" "r' = r" and t: "tree_at a ?m t" "ordered t" "addressed a t v ?N" "counts_within 255 t"
    using Node.prems by (simp_all add: t_def)
  have i: "a w < ?N" "a w < symbolCount"
    using addressed_less [OF t(3), of w] by (simp_all add: t_def)
  have node: "sy_value (?m (a w)) = w" "sy_count (?m (a w)) = of_nat n" "sy_under (?m (a w)) = of_nat (weight l + n)"
    and links: "links_to a (a w) (sy_left (?m (a w))) l" "links_to a (a w) (sy_right (?m (a w))) r"
    using t(1) by (simp_all add: t_def node_view_def)
  consider "v < w" | "w < v" | "v = w" by force
  then have "\<exists>m'. context_walk v d below cnt (a w) c =
      (a v, below + of_nat (weight_below t v), cnt + of_nat (count_of t v),
       c\<lparr>rc_symbols := m', rc_nextSymbol := ?N + (if v \<in> vals t then 0 else 1)\<rparr>) \<and>
    tallied a t v (unat d) ?m m'"
  proof cases
    case 1
    let ?s = "(?m (a w))\<lparr>sy_under := sy_under (?m (a w)) + ucast d\<rparr>"
    let ?c = "c\<lparr>rc_symbols := ?m(a w := ?s)\<rparr>"
    have vr: "v \<in> vals t \<longleftrightarrow> v \<in> vals l" using 1 t(2) by (auto simp: t_def)
    have sub: "addressed a l v ?N"
      using addressed_left t(2,3) 1 unfolding t_def by blast
    have aw: "a x \<noteq> a w" if "x \<in> vals l" for x
      using that t(2) addressed_apart [OF t(3), of x w] by (auto simp: t_def)
    show ?thesis
    proof (cases l)
      case Leaf
      let ?s' = "?s\<lparr>sy_left := symbol_offset (a v) (a w)\<rparr>"
      have av: "a v = ?N" "?N < symbolCount" "v \<notin> vals t"
        using sub Leaf vr by (simp_all add: addressed_def)
      have "context_walk v d below cnt (a w) c = (a v, below, cnt,
          c\<lparr>rc_symbols := ?m(a w := ?s', a v := new_symbol v d), rc_nextSymbol := Suc ?N\<rparr>)"
        using 1 i node links Leaf av
        by (simp add: context_walk.simps [of v d below cnt "a w" c] upd_symbol_inside ENET_SYMBOL_CREATE_def fun_upd_twist)
      moreover have "tallied a t v (unat d) ?m (?m(a w := ?s', a v := new_symbol v d))"
        unfolding t_def
        by (rule tallied_left [where k = ?N and s = ?s' and lk = "symbol_offset (a v) (a w)"])
          (use 1 i av t Leaf node tallied_leaf [of v Leaf a ?N d "?m(a w := ?s')"] sub in
            \<open>simp_all add: t_def node_view_def context_view_def\<close>)
      ultimately show ?thesis
        using 1 Leaf av by (auto simp: t_def)
    next
      case l: (Node l2 y r2)
      obtain w2 n2 where y: "y = (w2, n2)" by force
      have "context_walk v d below cnt (a w) c = context_walk v d below cnt (a w2) ?c"
        using 1 i node links l y by (simp add: context_walk.simps [of v d below cnt "a w" c] upd_symbol_inside)
      moreover have fields: "rc_nextSymbol ?c = ?N" "?c\<lparr>rc_symbols := m', rc_nextSymbol := N'\<rparr> = c\<lparr>rc_symbols := m', rc_nextSymbol := N'\<rparr>"
        for m' N' by simp_all
      moreover have tl: "tree_at a (rc_symbols ?c) l" "ordered l" "counts_within 255 l" "addressed a l v (rc_nextSymbol ?c)"
        using t(1,2,4) aw sub by (auto simp: t_def intro: tree_at_frame)
      obtain m' where "context_walk v d below cnt (a w2) ?c =
          (a v, below + of_nat (weight_below l v), cnt + of_nat (count_of l v),
           c\<lparr>rc_symbols := m', rc_nextSymbol := ?N + (if v \<in> vals l then 0 else 1)\<rparr>)"
        and m': "tallied a l v (unat d) (rc_symbols ?c) m'"
        using Node.IH(1) [unfolded x, OF l [unfolded y] tl, of below] by (elim exE conjE) (rule that, simp_all only: fields)
      moreover have "tallied a t v (unat d) ?m m'"
        unfolding t_def
        by (rule tallied_left [where k = ?N and s = ?s and lk = "sy_left (?m (a w))"])
          (use 1 m' t node links l y in \<open>simp_all add: t_def node_view_def context_view_def\<close>)
      ultimately show ?thesis
        using 1 vr by (auto simp: t_def)
    qed
  next
    case 2
    have vl: "v \<in> vals t \<longleftrightarrow> v \<in> vals r" using 2 t(2) by (auto simp: t_def)
    have sub: "addressed a r v ?N"
      using addressed_right t(2,3) 2 unfolding t_def by blast
    have w: "weight_below t v = weight l + n + weight_below r v" "count_of t v = count_of r v"
      using 2 by (auto simp: t_def)
    show ?thesis
    proof (cases r)
      case Leaf
      let ?s' = "(?m (a w))\<lparr>sy_right := symbol_offset (a v) (a w)\<rparr>"
      have av: "a v = ?N" "?N < symbolCount" "v \<notin> vals t"
        using sub Leaf vl by (simp_all add: addressed_def)
      have "context_walk v d below cnt (a w) c = (a v, below + of_nat (weight l + n), cnt,
          c\<lparr>rc_symbols := ?m(a w := ?s', a v := new_symbol v d), rc_nextSymbol := Suc ?N\<rparr>)"
        using 2 less_not_sym [OF 2] i node links Leaf av
        by (simp add: context_walk.simps [of v d below cnt "a w" c] Let_def upd_symbol_inside ENET_SYMBOL_CREATE_def fun_upd_twist)
      moreover have "tallied a t v (unat d) ?m (?m(a w := ?s', a v := new_symbol v d))"
        unfolding t_def
        by (rule tallied_right [where k = ?N and s = ?s' and lk = "symbol_offset (a v) (a w)"])
          (use 2 i av t Leaf node tallied_leaf [of v Leaf a ?N d "?m(a w := ?s')"] sub in
            \<open>simp_all add: t_def node_view_def context_view_def\<close>)
      ultimately show ?thesis
        using w Leaf av by auto
    next
      case r: (Node l2 y r2)
      obtain w2 n2 where y: "y = (w2, n2)" by force
      have "context_walk v d below cnt (a w) c = context_walk v d (below + of_nat (weight l + n)) cnt (a w2) c"
        using 2 less_not_sym [OF 2] i node links r y by (simp add: Let_def context_walk.simps [of v d below cnt "a w" c])
      moreover have tr: "tree_at a ?m r" "ordered r" "counts_within 255 r" "addressed a r v ?N"
        using t(1,2,4) sub by (auto simp: t_def)
      obtain m' where "context_walk v d (below + of_nat (weight l + n)) cnt (a w2) c =
          (a v, below + of_nat (weight l + n) + of_nat (weight_below r v), cnt + of_nat (count_of r v),
           c\<lparr>rc_symbols := m', rc_nextSymbol := ?N + (if v \<in> vals r then 0 else 1)\<rparr>)"
        and m': "tallied a r v (unat d) ?m m'"
        using Node.IH(2) [unfolded x, OF r [unfolded y] tr, of "below + of_nat (weight l + n)"] by auto
      moreover have "tallied a t v (unat d) ?m m'"
        unfolding t_def
        by (rule tallied_right [where k = ?N and s = "?m (a w)" and lk = "sy_right (?m (a w))"])
          (use 2 m' t node links r y in \<open>simp_all add: t_def node_view_def context_view_def\<close>)
      ultimately show ?thesis
        using w vl by (auto simp: add.assoc)
    qed
  next
    case 3
    let ?s = "(?m (a w))\<lparr>sy_under := sy_under (?m (a w)) + ucast d, sy_count := sy_count (?m (a w)) + d\<rparr>"
    have "context_walk v d below cnt (a w) c = (a v, below + of_nat (weight l), cnt + of_nat n, c\<lparr>rc_symbols := ?m(a w := ?s)\<rparr>)"
    proof -
      have "ucast (of_nat n :: u8) = (of_nat n :: u16)"
        using t(4) by (simp add: t_def ucast_of_nat_small)
      then show ?thesis
        using 3 i node by (simp add: context_walk.simps [of w d below cnt "a w" c] upd_symbol_inside)
    qed
    moreover have "tallied a t v (unat d) ?m (?m(a w := ?s))"
    proof -
      have "a x \<noteq> a w" if "x \<in> vals l \<union> vals r" for x
        using that ordered_apart [OF t(2) [unfolded t_def]] addressed_apart [OF t(3), of x w] by (auto simp: t_def)
      then have same: "\<And>x. x \<in> vals l \<union> vals r \<Longrightarrow> (?m(a w := ?s)) (a x) = ?m (a x)"
        by simp
      have "tree_at a ?m l" "tree_at a ?m r"
        using t(1) by (simp_all add: t_def)
      then have "tree_at a (?m(a w := ?s)) l" "tree_at a (?m(a w := ?s)) r"
        by (blast intro: tree_at_frame same)+
      moreover have "node_view ?s = (w, of_nat (n + unat d), of_nat (weight l + (n + unat d)), sy_left (?m (a w)), sy_right (?m (a w)))"
        using node by (simp add: node_view_def)
      ultimately have "tree_at a (?m(a w := ?s)) (bump t v (unat d))"
        using 3 links by (simp add: t_def del: tree_at.simps) simp
      moreover have "context_view ((?m(a w := ?s)) i) = context_view (?m i)" for i
        by (simp add: context_view_def)
      moreover have "v \<in> vals t"
        using 3 by (simp add: t_def)
      ultimately show ?thesis
        using 3 by (auto simp: tallied_def)
    qed
    ultimately show ?thesis
      using 3 by (auto simp: t_def)
  qed
  then show ?case using x by (simp add: t_def)
qed simp

section \<open>Halving the counts\<close>

lemma links_to_halve [simp]: "links_to a i off (halve t) = links_to a i off t"
  by (cases t rule: halve.cases) auto

lemma halved_word:
  assumes n: "n < 2 ^ LENGTH('a)"
  shows "(of_nat n :: 'a::len word) - drop_bit 1 (of_nat n) = of_nat (n - n div 2)"
proof -
  have "n div 2 < 2 ^ LENGTH('a)"
    using n by (rule le_less_trans [OF div_le_dividend])
  then have "drop_bit 1 (of_nat n :: 'a word) = of_nat (n div 2)"
    using n by (simp add: word_unat_eq_iff unsigned_drop_bit_eq drop_bit_eq_div [where 'a = nat] unat_of_nat_small
        take_bit_nat_eq_self)
  then show ?thesis
    by (simp add: of_nat_diff)
qed

definition halved :: "(u8 \<Rightarrow> nat) \<Rightarrow> counts \<Rightarrow> (nat \<Rightarrow> ENetSymbol) \<Rightarrow> (nat \<Rightarrow> ENetSymbol) \<Rightarrow> bool" where
  "halved a t m m' \<longleftrightarrow> tree_at a m' (halve t) \<and> (\<forall>i. i \<notin> a ` vals t \<longrightarrow> m' i = m i) \<and>
     (\<forall>i. context_view (m' i) = context_view (m i))"

lemma rescale_halves:
  assumes "t = Node l (w, n) r" "tree_at a (rc_symbols c) t" "ordered t" "counts_within 255 t"
    and "inj_on a (vals t)" "\<forall>v \<in> vals t. a v < symbolCount"
  shows "\<exists>m'. enet_symbol_rescale (a w) c = (of_nat (weight (halve t)), c\<lparr>rc_symbols := m'\<rparr>) \<and>
    halved a t (rc_symbols c) m'"
  using assms
proof (induction t arbitrary: l w n r c)
  case (Node l' x r')
  let ?m = "rc_symbols c"
  have x: "l' = l" "x = (w, n)" "r' = r"
    using Node.prems(1) by simp_all
  note prems = Node.prems(2-6) [unfolded x]
  have i: "a w < symbolCount"
    using prems(5) by simp
  have n: "n < 256"
    using prems(3) by simp
  have n': "ucast (of_nat (n - n div 2) :: u8) = (of_nat (n - n div 2) :: u16)"
    by (rule ucast_of_nat_small) (use n in simp)
  have node: "sy_value (?m (a w)) = w" "sy_count (?m (a w)) = of_nat n" "sy_under (?m (a w)) = of_nat (weight l + n)"
    and links: "links_to a (a w) (sy_left (?m (a w))) l" "links_to a (a w) (sy_right (?m (a w))) r"
    using prems(1) by (simp_all add: node_view_def)
  have apart: "a y \<noteq> a w" if "y \<in> vals l \<union> vals r" for y
    using that ordered_apart [OF prems(2)] inj_on_eq_iff [OF prems(4), of y w] by auto
  have lr: "a y \<noteq> a z" if "y \<in> vals l" "z \<in> vals r" for y z
    using that ordered_apart [OF prems(2)] inj_on_eq_iff [OF prems(4), of y z] by auto
  have inj: "inj_on a (vals l)" "inj_on a (vals r)"
    using prems(4) by (auto intro: inj_on_subset)
  define s where "s = (?m (a w))\<lparr>sy_count := of_nat (n - n div 2), sy_under := of_nat (n - n div 2)\<rparr>"
  define m1 where "m1 = ?m(a w := s)"
  define s2 where "s2 = s\<lparr>sy_under := of_nat (weight (halve l) + (n - n div 2))\<rparr>"
  have "tree_at a ?m l" "tree_at a ?m r"
    using prems(1) by simp_all
  then have "tree_at a m1 l"
    by (rule_tac tree_at_frame) (use apart in \<open>simp_all add: m1_def\<close>)
  have first: "\<exists>m2. (if sy_left s \<noteq> 0
      then (let (tot, c) = enet_symbol_rescale (a w + unat (sy_left s)) (c\<lparr>rc_symbols := m1\<rparr>)
            in upd_symbol (a w) (\<lambda>s. s\<lparr>sy_under := sy_under s + tot\<rparr>) c)
      else c\<lparr>rc_symbols := m1\<rparr>) = c\<lparr>rc_symbols := m2(a w := s2)\<rparr> \<and> halved a l m1 m2"
  proof (cases l)
    case Leaf
    then show ?thesis
      using links by (intro exI [of _ m1]) (simp add: s_def s2_def m1_def halved_def)
  next
    case l: (Node l2 y r2)
    obtain w2 n2 where y: "y = (w2, n2)" by force
    have left: "sy_left s \<noteq> 0" "a w + unat (sy_left s) = a w2"
      using links l y by (simp_all add: s_def)
    obtain m2 where m2: "enet_symbol_rescale (a w2) (c\<lparr>rc_symbols := m1\<rparr>) = (of_nat (weight (halve l)), c\<lparr>rc_symbols := m2\<rparr>)"
      "halved a l m1 m2"
      using Node.IH(1) [unfolded x, OF l [unfolded y], of "c\<lparr>rc_symbols := m1\<rparr>"] \<open>tree_at a m1 l\<close> prems inj by auto
    have "a w \<notin> a ` vals l"
      by (metis UnI1 apart imageE)
    then have "m2 (a w) = s"
      using m2(2) by (simp add: halved_def m1_def)
    then show ?thesis
      using m2 left i by (intro exI [of _ m2]) (simp add: upd_symbol_inside s2_def s_def algebra_simps)
  qed
  then obtain m2 where run1: "(if sy_left s \<noteq> 0
      then (let (tot, c) = enet_symbol_rescale (a w + unat (sy_left s)) (c\<lparr>rc_symbols := m1\<rparr>)
            in upd_symbol (a w) (\<lambda>s. s\<lparr>sy_under := sy_under s + tot\<rparr>) c)
      else c\<lparr>rc_symbols := m1\<rparr>) = c\<lparr>rc_symbols := m2(a w := s2)\<rparr>" and m2: "halved a l m1 m2"
    by blast
  define m3 where "m3 = m2(a w := s2)"
  have m2l: "m2 (a y) = m1 (a y)" if "y \<in> insert w (vals r)" for y
  proof -
    have "a y \<notin> a ` vals l"
      using that apart lr by (metis UnI1 image_iff insert_iff)
    then show ?thesis
      using m2 by (simp add: halved_def)
  qed
  have "m3 (a y) = ?m (a y)" if "y \<in> vals r" for y
    using that m2l [of y] apart [of y] by (simp add: m3_def m1_def)
  then have "tree_at a m3 r"
    using \<open>tree_at a ?m r\<close> by (blast intro: tree_at_frame)
  have under: "sy_under s2 = of_nat (weight (halve l) + (n - n div 2))"
    and right: "sy_right s2 = sy_right (?m (a w))" and left: "sy_left s2 = sy_left (?m (a w))"
    by (simp_all add: s2_def s_def)
  have "\<exists>m4. (if sy_right s2 = 0 then (sy_under s2, c\<lparr>rc_symbols := m3\<rparr>)
      else (let (tot, c) = enet_symbol_rescale (a w + unat (sy_right s2)) (c\<lparr>rc_symbols := m3\<rparr>)
            in (sy_under s2 + tot, c))) = (of_nat (weight (halve (Node l (w, n) r))), c\<lparr>rc_symbols := m4\<rparr>) \<and> halved a r m3 m4"
  proof (cases r)
    case Leaf
    then show ?thesis
      using links right under by (intro exI [of _ m3]) (simp add: halved_def)
  next
    case r: (Node l2 y r2)
    obtain w2 n2 where y: "y = (w2, n2)" by force
    have "sy_right s2 \<noteq> 0" "a w + unat (sy_right s2) = a w2"
      using links r y right by simp_all
    moreover obtain m4 where "enet_symbol_rescale (a w2) (c\<lparr>rc_symbols := m3\<rparr>) = (of_nat (weight (halve r)), c\<lparr>rc_symbols := m4\<rparr>)"
      "halved a r m3 m4"
      using Node.IH(2) [unfolded x, OF r [unfolded y], of "c\<lparr>rc_symbols := m3\<rparr>"] \<open>tree_at a m3 r\<close> prems inj by auto
    ultimately show ?thesis
      using under by (intro exI [of _ m4]) simp
  qed
  then obtain m4 where run2: "(if sy_right s2 = 0 then (sy_under s2, c\<lparr>rc_symbols := m3\<rparr>)
      else (let (tot, c) = enet_symbol_rescale (a w + unat (sy_right s2)) (c\<lparr>rc_symbols := m3\<rparr>)
            in (sy_under s2 + tot, c))) = (of_nat (weight (halve (Node l (w, n) r))), c\<lparr>rc_symbols := m4\<rparr>)"
    and m4: "halved a r m3 m4"
    by blast
  have start: "upd_symbol (a w) (\<lambda>s. s\<lparr>sy_under := ucast (sy_count s)\<rparr>)
      (upd_symbol (a w) (\<lambda>s. s\<lparr>sy_count := sy_count s - drop_bit 1 (sy_count s)\<rparr>) c) = c\<lparr>rc_symbols := m1\<rparr>"
    using i node(2) halved_word [of n, where 'a = 8] n n' by (simp add: upd_symbol_inside m1_def s_def)
  have m3: "m3 (a w) = s2"
    by (simp add: m3_def)
  have sel: "rc_symbols (c\<lparr>rc_symbols := m1\<rparr>) (a w) = s" "rc_symbols (c\<lparr>rc_symbols := m3\<rparr>) (a w) = s2"
    by (simp_all add: m1_def m3_def)
  have inside: "(symbolCount \<le> a w) = False"
    using i by simp
  have run: "enet_symbol_rescale (a w) c = (of_nat (weight (halve (Node l (w, n) r))), c\<lparr>rc_symbols := m4\<rparr>)"
    unfolding enet_symbol_rescale.simps [of "a w" c] Let_def start
    by (simp only: inside if_False sel run1 [unfolded Let_def, folded m3_def] run2 [unfolded Let_def])
  have m4l: "m4 (a y) = m3 (a y)" if "y \<in> insert w (vals l)" for y
  proof -
    have "a y \<notin> a ` vals r"
      using that apart lr by (metis UnI2 image_iff insert_iff)
    then show ?thesis
      using m4 by (simp add: halved_def)
  qed
  have "halved a (Node l (w, n) r) ?m m4"
    unfolding halved_def
  proof (intro conjI allI impI)
    have "m4 (a y) = m2 (a y)" if "y \<in> vals l" for y
      using that m4l [of y] apart [of y] by (simp add: m3_def)
    then have "tree_at a m4 (halve l)"
      using m2 by (auto simp: halved_def intro: tree_at_frame)
    moreover have "tree_at a m4 (halve r)" "m4 (a w) = s2"
      using m4 m4l [of w] m3 by (simp_all add: halved_def)
    ultimately show "tree_at a m4 (halve (Node l (w, n) r))"
      using links left right under node(1) by (simp add: node_view_def s2_def s_def)
    show "m4 i = ?m i" if "i \<notin> a ` vals (Node l (w, n) r)" for i
      using that m2 m4 by (simp add: halved_def m3_def m1_def image_Un)
    show "context_view (m4 i) = context_view (?m i)" for i
    proof -
      have "context_view (m4 i) = context_view (m3 i)" "context_view (m2 i) = context_view (m1 i)"
        using m2 m4 by (simp_all add: halved_def)
      then show ?thesis
        by (simp add: m3_def m1_def s2_def s_def context_view_def)
    qed
  qed
  with run show ?case
    unfolding x by blast
qed simp


section \<open>Finding the value of a code\<close>

text \<open>
  The slot of a value: its own minimum and count, above those of the smaller values.  The decoder
  that has a code of the slot walks the way the encoder walks for the value.
\<close>

definition in_slot :: "nat \<Rightarrow> counts \<Rightarrow> nat \<Rightarrow> u8 \<Rightarrow> nat \<Rightarrow> bool" where
  "in_slot m t b v x \<longleftrightarrow> b + unat v * m + weight_below t v \<le> x \<and> x < b + unat v * m + weight_below t v + m + count_of t v"

lemma unat_ucast_u8 [simp]: "unat (ucast (w :: u8) :: u16) = unat w"
  using unat_u8_less [of w] by (simp add: unsigned_ucast_eq take_bit_nat_eq_self)

lemma in_slot_left: "in_slot m (Node l (w, n) r) b v x \<Longrightarrow> v < w \<Longrightarrow> in_slot m l b v x \<and> x < b + weight l + unat w * m"
proof -
  assume slot: "in_slot m (Node l (w, n) r) b v x" and v: "v < w"
  have "(unat v + 1) * m \<le> unat w * m"
    using v by (intro mult_le_mono1) (simp add: word_less_nat_alt)
  then show ?thesis
    using slot v weight_below_le [of l v] by (auto simp: in_slot_def)
qed

lemma in_slot_right: "in_slot m (Node l (w, n) r) b v x \<Longrightarrow> w < v \<Longrightarrow>
    in_slot m r (b + weight l + n) v x \<and> b + weight l + n + (unat w + 1) * m \<le> x"
proof -
  assume slot: "in_slot m (Node l (w, n) r) b v x" and v: "w < v"
  have "(unat w + 1) * m \<le> unat v * m"
    using v by (intro mult_le_mono1) (simp add: word_less_nat_alt)
  then show ?thesis
    using slot v less_not_sym [OF v] by (auto simp: in_slot_def)
qed

text \<open>One round of the walk, by numbers.\<close>

lemma decode_walk_step:
  assumes "a w < symbolCount" "tree_at a (rc_symbols c) (Node l (w, n) r)" "n < 256"
    and "b + weight (Node l (w, n) r) + 256 * m \<le> 65535"
  defines "s \<equiv> rc_symbols c (a w)"
  shows "decode_walk d (of_nat m) code (of_nat b) (a w) c =
    (if b + weight l + n + (unat w + 1) * m \<le> unat code then
       (if sy_right s \<noteq> 0
        then decode_walk d (of_nat m) code (of_nat (b + weight l + n)) (a w + unat (sy_right s)) c
        else (NoRight (a w) (of_nat (b + weight l + n + (unat w + 1) * m)), c))
     else if unat code < b + weight l + unat w * m then
       (let c = upd_symbol (a w) (\<lambda>s. s\<lparr>sy_under := sy_under s + ucast d\<rparr>) c
        in if sy_left s \<noteq> 0
           then decode_walk d (of_nat m) code (of_nat b) (a w + unat (sy_left s)) c
           else (NoLeft (a w) (of_nat (b + weight l + n + (unat w + 1) * m)) (of_nat (n + m)), c))
     else
       (Hit (a w) w (of_nat (b + weight l + unat w * m)) (of_nat (m + n)),
        upd_symbol (a w) (\<lambda>s. s\<lparr>sy_under := sy_under s + ucast d, sy_count := sy_count s + d\<rparr>) c))"
proof -
  define A where "A = b + weight l + n + (unat w + 1) * m"
  have node: "sy_value s = w" "sy_count s = of_nat n" "sy_under s = of_nat (weight l + n)"
    using assms(2) by (simp_all add: node_view_def s_def)
  have "unat w < 256" by (rule unat_u8_less)
  then have "(unat w + 1) * m \<le> 256 * m"
    by (intro mult_le_mono1) simp
  then have small: "A < 65536" "n + m < 65536"
    using assms(3,4) unfolding A_def weight.simps by linarith+
  have ucw: "(ucast w :: u16) = of_nat (unat w)" "(ucast (of_nat n :: u8) :: u16) = of_nat n"
    using assms(3) by (simp_all add: ucast_of_nat_small)
  have after: "of_nat b + sy_under s + (ucast (sy_value s) + 1) * of_nat m = (of_nat A :: u16)"
    unfolding node ucw A_def by (simp add: algebra_simps)
  have beforeNode: "ucast (sy_count s) + of_nat m = (of_nat (n + m) :: u16)"
    unfolding node ucw by simp
  have ge: "of_nat A \<le> code \<longleftrightarrow> A \<le> unat code"
    using small by (simp add: word_le_nat_alt unat_of_nat_small)
  have diff: "A - (n + m) = b + weight l + unat w * m" "n + m \<le> A"
    by (simp_all add: A_def algebra_simps)
  have lt: "uint code < uint (of_nat A :: u16) - uint (of_nat (n + m) :: u16) \<longleftrightarrow> unat code < b + weight l + unat w * m"
  proof -
    have "unat (of_nat A :: u16) = A" "unat (of_nat (n + m) :: u16) = n + m"
      by (rule unat_of_nat_small; use small in simp)+
    then have "uint code < uint (of_nat A :: u16) - uint (of_nat (n + m) :: u16) \<longleftrightarrow>
        int (unat code) < int A - int (n + m)"
      by (simp only: uint_nat)
    also have "\<dots> \<longleftrightarrow> unat code < A - (n + m)"
      using diff(2) by linarith
    finally show ?thesis
      by (simp only: diff(1))
  qed
  have hit: "(of_nat A :: u16) - of_nat (n + m) = of_nat (b + weight l + unat w * m)"
    using diff by (metis of_nat_diff)
  have inside: "(symbolCount \<le> a w) = False"
    using assms(1) by simp
  have under: "of_nat b + sy_under s = (of_nat (b + weight l + n) :: u16)"
    unfolding node by simp
  have cnt: "of_nat m + ucast (sy_count s) = (of_nat (m + n) :: u16)"
    unfolding node ucw by simp
  show ?thesis
    unfolding decode_walk.simps [of d "of_nat m" code "of_nat b" "a w" c] Let_def s_def [symmetric] after beforeNode
    by (simp only: ge lt hit A_def [symmetric] inside if_False node(1) under cnt)
qed

lemma word_div_mod_1 [simp]: "x div 1 = x" "x mod 1 = 0" for x :: u16
  by simp_all

lemma slot_of_leaf:
  assumes "in_slot 1 Leaf b v (unat code)" "b + 256 \<le> 65535"
  shows "code = of_nat (b + unat v)"
proof -
  have "unat code = b + unat v"
    using assms by (simp add: in_slot_def)
  then show ?thesis
    by (metis of_nat_unat ucast_id)
qed

text \<open>The value the root gives a new symbol, on either side.\<close>

lemma value_to_the_left:
  fixes v w :: u8
  assumes "v < w"
  shows "w - 1 - ucast (of_nat (b + n + (unat w + 1) * 1) - of_nat (n + 1) - of_nat (b + unat v) - 1 :: u16) = v"
proof -
  have less: "unat v < unat w"
    using assms by (simp add: word_less_nat_alt)
  have "(of_nat (b + n + (unat w + 1) * 1) - of_nat (n + 1) - of_nat (b + unat v) - 1 :: u16) = of_nat (unat w - unat v - 1)"
    using less by (simp add: of_nat_diff)
  then have "ucast (of_nat (b + n + (unat w + 1) * 1) - of_nat (n + 1) - of_nat (b + unat v) - 1 :: u16)
      = (of_nat (unat w - unat v - 1) :: u8)"
    using unat_u8_less [of w] by (simp add: ucast_of_nat_small)
  also have "\<dots> = w - v - 1"
    using less by (simp add: of_nat_diff)
  finally show ?thesis
    by simp
qed

lemma value_to_the_right:
  fixes v w :: u8
  assumes "w < v"
  shows "w + 1 + ucast (of_nat (b + unat v) - of_nat (b + (unat w + 1) * 1) :: u16) = v"
proof -
  have less: "unat w < unat v"
    using assms by (simp add: word_less_nat_alt)
  have "(of_nat (b + unat v) - of_nat (b + (unat w + 1) * 1) :: u16) = of_nat (unat v - unat w - 1)"
    using less by (simp add: of_nat_diff)
  then have "ucast (of_nat (b + unat v) - of_nat (b + (unat w + 1) * 1) :: u16) = (of_nat (unat v - unat w - 1) :: u8)"
    using unat_u8_less [of v] by (simp add: ucast_of_nat_small)
  also have "\<dots> = v - w - 1"
    using less by (simp add: of_nat_diff)
  finally show ?thesis
    by simp
qed

lemma decode_walk_finds:
  assumes "t = Node l (w, n) r" "tree_at a (rc_symbols c) t" "ordered t" "counts_within 255 t"
    and "addressed a t v (rc_nextSymbol c)" "in_slot m t b v (unat code)" "b + weight t + 256 * m \<le> 65535"
    and "m \<le> 1" "v \<notin> vals t \<Longrightarrow> m = 1"
  shows "create_missing code d (of_nat m) (decode_walk d (of_nat m) code (of_nat b) (a w) c) =
      (case context_walk v d (of_nat (b + unat v * m)) (of_nat m) (a w) c of (symbol, e) \<Rightarrow> (symbol, v, e)) \<and>
    (v \<in> vals t \<longrightarrow> (\<exists>s x u k e. decode_walk d (of_nat m) code (of_nat b) (a w) c = (Hit s x u k, e)))"
  using assms
proof (induction t arbitrary: l w n r c b)
  case (Node l' x r')
  let ?m = "rc_symbols c" and ?N = "rc_nextSymbol c"
  have x: "l' = l" "x = (w, n)" "r' = r"
    using Node.prems(1) by simp_all
  note prems = Node.prems(2-9) [unfolded x]
  let ?t = "Node l (w, n) r"
  have i: "a w < symbolCount" "a w < ?N"
    using addressed_less [OF prems(4), of w] by simp_all
  have n: "n < 256" "ucast (of_nat n :: u8) = (of_nat n :: u16)"
    using prems(3) by (simp_all add: ucast_of_nat_small)
  have node: "sy_value (?m (a w)) = w" "sy_count (?m (a w)) = of_nat n" "sy_under (?m (a w)) = of_nat (weight l + n)"
    and links: "links_to a (a w) (sy_left (?m (a w))) l" "links_to a (a w) (sy_right (?m (a w))) r"
    using prems(1) by (simp_all add: node_view_def)
  note step = decode_walk_step [OF i(1) prems(1) n(1) prems(6), of d code]
  note walk = context_walk.simps [of v d _ _ "a w" c]
  have "x \<in> vals l \<union> vals r \<Longrightarrow> a x \<noteq> a w" for x
    using ordered_apart [OF prems(2)] addressed_apart [OF prems(4), of x w] by auto
  note apart = this
  consider "v < w" | "w < v" | "v = w" by force
  then have "create_missing code d (of_nat m) (decode_walk d (of_nat m) code (of_nat b) (a w) c) =
      (case context_walk v d (of_nat (b + unat v * m)) (of_nat m) (a w) c of (symbol, e) \<Rightarrow> (symbol, v, e)) \<and>
    (v \<in> vals ?t \<longrightarrow> (\<exists>s x u k e. decode_walk d (of_nat m) code (of_nat b) (a w) c = (Hit s x u k, e)))"
  proof cases
    case 1
    let ?c = "upd_symbol (a w) (\<lambda>s. s\<lparr>sy_under := sy_under s + ucast d\<rparr>) c"
    have slot: "in_slot m l b v (unat code)" "unat code < b + weight l + unat w * m"
      using in_slot_left [OF prems(5) 1] by simp_all
    then have "\<not> b + weight l + n + (unat w + 1) * m \<le> unat code"
      by (simp add: algebra_simps)
    note step = step [unfolded if_not_P [OF this] if_P [OF slot(2)]]
    have vr: "v \<in> vals ?t \<longleftrightarrow> v \<in> vals l"
      using 1 prems(2) by auto
    have sub: "addressed a l v ?N"
      using addressed_left [OF prems(4,2) 1] .
    show ?thesis
    proof (cases l)
      case Leaf
      then have m: "m = 1" and "v \<notin> vals ?t" and N: "?N < symbolCount"
        using prems(8) vr sub by (auto simp: addressed_def)
      have code: "code = of_nat (b + unat v)"
        using slot_of_leaf [of b v code] slot(1) prems(6) Leaf m by simp
      have D: "decode_walk d (of_nat m) code (of_nat b) (a w) c =
          (NoLeft (a w) (of_nat (b + n + (unat w + 1) * 1)) (of_nat (n + 1)), ?c)"
        unfolding step using links Leaf m by simp
      have eq: "(ucast w + (- 1 - ucast v) :: u16) = ucast w - ucast v - 1"
        by simp
      have "w - 1 - ucast (ucast w + (- 1 - ucast v) :: u16) = v"
        using value_to_the_left [OF 1, of b n] unfolding eq by simp
      then show ?thesis
        unfolding D
        using 1 i N node links Leaf m code \<open>v \<notin> vals ?t\<close>
        by (simp add: walk create_missing_def upd_symbol_inside ENET_SYMBOL_CREATE_def)
    next
      case l: (Node l2 y r2)
      obtain w2 n2 where y: "y = (w2, n2)" by force
      have c: "?c = c\<lparr>rc_symbols := ?m(a w := (?m (a w))\<lparr>sy_under := sy_under (?m (a w)) + ucast d\<rparr>)\<rparr>"
        using i by (simp add: upd_symbol_inside)
      have tl: "tree_at a (rc_symbols ?c) l" "ordered l" "counts_within 255 l" "addressed a l v (rc_nextSymbol ?c)"
        using prems(1-3) apart sub by (auto simp: c intro: tree_at_frame)
      have left: "sy_left (?m (a w)) \<noteq> 0" "a w + unat (sy_left (?m (a w))) = a w2"
        using links l y by simp_all
      have "decode_walk d (of_nat m) code (of_nat b) (a w) c = decode_walk d (of_nat m) code (of_nat b) (a w2) ?c"
        unfolding step using left by simp
      moreover have "context_walk v d below cnt (a w) c = context_walk v d below cnt (a w2) ?c" for below cnt
        using 1 i node left by (simp add: walk)
      ultimately show ?thesis
        using Node.IH(1) [unfolded x, OF l [unfolded y] tl slot(1) _ prems(7)] prems(6,8) vr
        by (simp del: vals_simps)
    qed
  next
    case 2
    have slot: "in_slot m r (b + weight l + n) v (unat code)" "b + weight l + n + (unat w + 1) * m \<le> unat code"
      using in_slot_right [OF prems(5) 2] by simp_all
    note step = step [unfolded if_P [OF slot(2)]]
    have vl: "v \<in> vals ?t \<longleftrightarrow> v \<in> vals r"
      using 2 prems(2) by auto
    have sub: "addressed a r v ?N"
      using addressed_right [OF prems(4,2) 2] .
    show ?thesis
    proof (cases r)
      case Leaf
      then have m: "m = 1" and "v \<notin> vals ?t" and N: "?N < symbolCount"
        using prems(8) vl sub by (auto simp: addressed_def)
      have code: "code = of_nat (b + weight l + n + unat v)"
        using slot_of_leaf [of "b + weight l + n" v code] slot(1) prems(6) Leaf m by simp
      have D: "decode_walk d (of_nat m) code (of_nat b) (a w) c =
          (NoRight (a w) (of_nat (b + weight l + n + (unat w + 1) * 1)), c)"
        unfolding step using links Leaf m by simp
      show ?thesis
        unfolding D
        using 2 less_not_sym [OF 2] i N node links Leaf m code value_to_the_right [OF 2, of "b + weight l + n"]
          \<open>v \<notin> vals ?t\<close>
        by (simp add: walk create_missing_def upd_symbol_inside ENET_SYMBOL_CREATE_def algebra_simps)
    next
      case r: (Node l2 y r2)
      obtain w2 n2 where y: "y = (w2, n2)" by force
      have tr: "tree_at a ?m r" "ordered r" "counts_within 255 r"
        using prems(1-3) by simp_all
      have right: "sy_right (?m (a w)) \<noteq> 0" "a w + unat (sy_right (?m (a w))) = a w2"
        using links r y by simp_all
      have "decode_walk d (of_nat m) code (of_nat b) (a w) c = decode_walk d (of_nat m) code (of_nat (b + weight l + n)) (a w2) c"
        unfolding step using right by simp
      moreover have "context_walk v d (of_nat (b + unat v * m)) cnt (a w) c
          = context_walk v d (of_nat (b + weight l + n + unat v * m)) cnt (a w2) c" for cnt
        using 2 less_not_sym [OF 2] i node right by (simp add: walk algebra_simps)
      ultimately show ?thesis
        using Node.IH(2) [unfolded x, OF r [unfolded y] tr sub slot(1) _ prems(7)] prems(6,8) vl
        by (simp del: vals_simps)
    qed
  next
    case 3
    then have "\<not> b + weight l + n + (unat w + 1) * m \<le> unat code" "\<not> unat code < b + weight l + unat w * m"
      using prems(5) by (simp_all add: in_slot_def algebra_simps)
    note step = step [unfolded if_not_P [OF this(1)] if_not_P [OF this(2)]]
    show ?thesis
      unfolding step unfolding walk using 3 i node n(2) by (simp add: create_missing_def algebra_simps)
  qed
  then show ?case unfolding x .
qed simp

end
