(* ===== verification/Enet_Contexts.thy ===== *)
theory Enet_Contexts
  imports Enet_Counts
begin

text \<open>
  The contexts of the range coder as a function of the string they stand for.  The array of symbols
  stores such a function under an injective assignment of addresses to strings; encoder and decoder
  store the same function under different addresses.  Every operation of the coder on the array is
  an operation on the function.
\<close>

section \<open>The contexts and how the array stores them\<close>

type_synonym key = "u8 list"

record cx =
  cx_escapes :: nat
  cx_total :: nat
  cx_tree :: counts

definition blank :: cx where
  "blank = \<lparr>cx_escapes = 0, cx_total = 0, cx_tree = Leaf\<rparr>"

definition context_at :: "(key \<Rightarrow> nat) \<Rightarrow> (nat \<Rightarrow> ENetSymbol) \<Rightarrow> cx \<Rightarrow> key \<Rightarrow> bool" where
  "context_at a m x k \<longleftrightarrow>
     sy_escapes (m (a k)) = of_nat (cx_escapes x) \<and> sy_total (m (a k)) = of_nat (cx_total x) \<and>
     links_to (\<lambda>v. a (k @ [v])) (a k) (sy_symbols (m (a k))) (cx_tree x) \<and>
     tree_at (\<lambda>v. a (k @ [v])) m (cx_tree x)"

text \<open>The strings in \<open>K\<close> have symbols, the empty string the root; the others have no context.\<close>

definition stored :: "(key \<Rightarrow> nat) \<Rightarrow> (key \<Rightarrow> cx) \<Rightarrow> key set \<Rightarrow> (nat \<Rightarrow> ENetSymbol) \<Rightarrow> bool" where
  "stored a A K m \<longleftrightarrow>
     finite K \<and> [] \<in> K \<and> bij_betw a K {..<card K} \<and> a [] = 0 \<and> card K \<le> symbolCount \<and>
     (\<forall>k v. k @ [v] \<in> K \<longleftrightarrow> k \<in> K \<and> v \<in> vals (cx_tree (A k))) \<and>
     (\<forall>k. k \<notin> K \<longrightarrow> A k = blank) \<and>
     (\<forall>k. ordered (cx_tree (A k)) \<and> counts_within 255 (cx_tree (A k))) \<and>
     (\<forall>k \<in> K. context_at a m (A k) k)"

lemma storedD:
  assumes "stored a A K m"
  shows "finite K" "[] \<in> K" "inj_on a K" "a ` K = {..<card K}" "a [] = 0" "card K \<le> symbolCount"
    "k @ [v] \<in> K \<longleftrightarrow> k \<in> K \<and> v \<in> vals (cx_tree (A k))" "k \<notin> K \<Longrightarrow> A k = blank"
    "ordered (cx_tree (A k))" "counts_within 255 (cx_tree (A k))" "k \<in> K \<Longrightarrow> context_at a m (A k) k"
  using assms by (auto simp: stored_def bij_betw_def)

lemma stored_less: "stored a A K m \<Longrightarrow> k \<in> K \<Longrightarrow> a k < card K \<and> a k < symbolCount"
proof -
  assume st: "stored a A K m" and "k \<in> K"
  then have "a k \<in> {..<card K}"
    using storedD(4) [OF st] by blast
  then show ?thesis
    using storedD(6) [OF st] by simp
qed

lemma stored_eq: "stored a A K m \<Longrightarrow> k \<in> K \<Longrightarrow> k' \<in> K \<Longrightarrow> a k = a k' \<longleftrightarrow> k = k'"
  using storedD(3) by (rule inj_on_eq_iff)

lemma context_at_cong:
  assumes "context_at a m x k" "\<And>v. v \<in> vals (cx_tree x) \<Longrightarrow> node_view (m' (a (k @ [v]))) = node_view (m (a (k @ [v]))) \<and> a' (k @ [v]) = a (k @ [v])"
    and "a' k = a k" "context_view (m' (a k)) = context_view (m (a k))"
  shows "context_at a' m' x k"
proof -
  have "tree_at (\<lambda>v. a' (k @ [v])) m' (cx_tree x) = tree_at (\<lambda>v. a (k @ [v])) m (cx_tree x)"
    using assms(2) by (intro tree_at_cong) auto
  moreover have "links_to (\<lambda>v. a' (k @ [v])) i off (cx_tree x) = links_to (\<lambda>v. a (k @ [v])) i off (cx_tree x)" for i off
    using assms(2) by (auto simp: links_to_def split: tree.split)
  ultimately show ?thesis
    using assms by (simp add: context_at_def context_view_def)
qed

section \<open>Counting a value in a context\<close>

lemma extended_addresses:
  fixes k :: key
  assumes "stored a A K m"
  defines "a' \<equiv> if k \<in> K then a else a(k := card K)"
  shows "inj_on a' (insert k K)" "a' ` insert k K = {..<card (insert k K)}"
proof -
  note st = storedD [OF assms(1)]
  have "inj_on a' (insert k K) \<and> a' ` insert k K = {..<card (insert k K)}"
  proof (cases "k \<in> K")
    case True
    then show ?thesis
      using st(3,4) by (simp add: a'_def insert_absorb)
  next
    case False
    moreover have "a' ` K = a ` K"
      by (rule image_cong) (use False in \<open>auto simp: a'_def\<close>)
    moreover have "inj_on a' K" "a' k = card K"
      using False st(3,4) by (simp_all add: a'_def inj_on_fun_updI)
    ultimately have "inj_on a' K" "a' ` K = {..<card K}" "a' k = card K"
      using st(4) by simp_all
    then show ?thesis
      using False st(1) by (simp add: lessThan_Suc insert_commute)
  qed
  then show "inj_on a' (insert k K)" "a' ` insert k K = {..<card (insert k K)}" by simp_all
qed

lemma links_to_bump: "t \<noteq> Leaf \<Longrightarrow> links_to a i off (bump t v d) = links_to a i off t"
  by (cases t rule: weight.cases) auto

text \<open>Where the array has the tree of one context with one value more, it stores the contexts with it.\<close>

lemma stored_bump:
  assumes "stored a A K m" "k \<in> K" "0 < d" "count_of (cx_tree (A k)) v + d \<le> 255" "card (insert (k @ [v]) K) \<le> symbolCount"
  defines "t \<equiv> cx_tree (A k)"
  defines "a' \<equiv> if k @ [v] \<in> K then a else a(k @ [v] := card K)"
  assumes nodes: "\<And>i. i \<notin> a' ` (\<lambda>w. k @ [w]) ` insert v (vals t) \<Longrightarrow> node_view (m' i) = node_view (m i)"
    and tree: "tree_at (\<lambda>w. a' (k @ [w])) m' (bump t v d)"
    and contexts: "\<And>i. i < card K \<Longrightarrow> i \<noteq> a k \<Longrightarrow> context_view (m' i) = context_view (m i)"
    and own: "sy_escapes (m' (a k)) = sy_escapes (m (a k))" "sy_total (m' (a k)) = sy_total (m (a k))"
      "links_to (\<lambda>w. a' (k @ [w])) (a k) (sy_symbols (m' (a k))) (bump t v d)"
    and new: "k @ [v] \<notin> K \<Longrightarrow> context_view (m' (card K)) = (0, 0, 0, 0)"
  shows "stored a' (A(k := A k\<lparr>cx_tree := bump t v d\<rparr>)) (insert (k @ [v]) K) m'"
proof -
  note st = storedD [OF assms(1)]
  let ?A = "A(k := A k\<lparr>cx_tree := bump t v d\<rparr>)" and ?K = "insert (k @ [v]) K"
  have same: "a' k' = a k'" if "k' \<in> K" for k'
    using that by (auto simp: a'_def)
  note inj = extended_addresses(1) [OF assms(1), of "k @ [v]", folded a'_def]
    and image = extended_addresses(2) [OF assms(1), of "k @ [v]", folded a'_def]
  have apart: "a' (k' @ [w]) \<notin> a' ` (\<lambda>w. k @ [w]) ` insert v (vals t)" if "k' @ [w] \<in> K" "k' \<noteq> k" for k' w
  proof -
    have "a' (k' @ [w]) \<noteq> a' (k @ [u])" if "u \<in> insert v (vals t)" for u
      using that \<open>k' @ [w] \<in> K\<close> \<open>k' \<noteq> k\<close> st(7) [of k u] assms(2) inj_on_eq_iff [OF inj, of "k' @ [w]" "k @ [u]"]
      by (auto simp: t_def)
    then show ?thesis by blast
  qed
  have at: "context_at a' m' (?A k') k'" if "k' \<in> ?K" for k'
  proof -
    consider "k' = k" | "k' \<noteq> k" "k' \<in> K" | "k' \<notin> K" "k' = k @ [v]"
      using \<open>k' \<in> ?K\<close> by auto
    then show ?thesis
    proof cases
      case 1
      then show ?thesis
        using st(11) [OF assms(2)] own tree same [OF assms(2)] by (simp add: context_at_def t_def)
    next
      case 2
      have "context_at a' m' (A k') k'"
      proof (rule context_at_cong [OF st(11) [OF 2(2)]])
        show "a' k' = a k'" using same [OF 2(2)] .
        show "context_view (m' (a k')) = context_view (m (a k'))"
          using contexts stored_less [OF assms(1) 2(2)] stored_eq [OF assms(1) 2(2) assms(2)] 2(1) by simp
        show "node_view (m' (a (k' @ [w]))) = node_view (m (a (k' @ [w]))) \<and> a' (k' @ [w]) = a (k' @ [w])"
          if "w \<in> vals (cx_tree (A k'))" for w
        proof -
          have "k' @ [w] \<in> K"
            using that 2(2) st(7) by simp
          then show ?thesis
            using nodes [OF apart [OF _ 2(1)]] same by simp
        qed
      qed
      then show ?thesis using 2(1) by simp
    next
      case 3
      then have "A k' = blank" "a' k' = card K"
        using st(8) by (auto simp: a'_def)
      moreover have "k' \<noteq> k" using 3 by simp
      ultimately show ?thesis
        using new 3 by (simp add: context_at_def blank_def context_view_def)
    qed
  qed
  have "a' [] = 0"
    using same [OF st(2)] st(5) by simp
  moreover have "k' @ [w] \<in> ?K \<longleftrightarrow> k' \<in> ?K \<and> w \<in> vals (cx_tree (?A k'))" for k' w
  proof (cases "k' = k \<and> w = v")
    case True
    then show ?thesis using assms(2) by simp
  next
    case False
    moreover have "vals (cx_tree (A k')) = {}" if "k' \<notin> K"
      using that st(8) by (simp add: blank_def)
    ultimately show ?thesis
      using st(7) [of k' w] assms(2) by (auto simp: t_def)
  qed
  moreover have "?A k' = blank" if "k' \<notin> ?K" for k'
    using that st(8) assms(2) by auto
  moreover have "ordered (cx_tree (?A k')) \<and> counts_within 255 (cx_tree (?A k'))" for k'
    using st(9,10) assms(3,4) by (auto simp: t_def intro: ordered_bump counts_within_bump)
  ultimately show ?thesis
    using st(1,2) assms(5) inj image at unfolding stored_def bij_betw_def by auto
qed

lemma stored_addressed:
  assumes "stored a A K m" "k \<in> K" "card (insert (k @ [v]) K) \<le> symbolCount"
  defines "a' \<equiv> if k @ [v] \<in> K then a else a(k @ [v] := card K)"
  shows "addressed (\<lambda>w. a' (k @ [w])) (cx_tree (A k)) v (card K)"
    "tree_at (\<lambda>w. a' (k @ [w])) m (cx_tree (A k))"
    "links_to (\<lambda>w. a' (k @ [w])) (a k) (sy_symbols (m (a k))) (cx_tree (A k))"
proof -
  note st = storedD [OF assms(1)]
  have inK: "k @ [w] \<in> K \<longleftrightarrow> w \<in> vals (cx_tree (A k))" for w
    using st(7) assms(2) by simp
  have old: "a' (k @ [w]) = a (k @ [w])" if "w \<in> vals (cx_tree (A k))" for w
    using that inK by (auto simp: a'_def)
  have less: "a (k @ [w]) < card K" if "w \<in> vals (cx_tree (A k))" for w
    using that inK stored_less [OF assms(1)] by simp
  have inj: "inj_on a' (insert (k @ [v]) K)"
    using extended_addresses(1) [OF assms(1), of "k @ [v]"] by (simp add: a'_def)
  have "inj_on (\<lambda>w. a' (k @ [w])) (insert v (vals (cx_tree (A k))))"
  proof (rule inj_onI)
    fix x y assume "x \<in> insert v (vals (cx_tree (A k)))" "y \<in> insert v (vals (cx_tree (A k)))" "a' (k @ [x]) = a' (k @ [y])"
    then show "x = y"
      using inj_on_eq_iff [OF inj, of "k @ [x]" "k @ [y]"] inK by auto
  qed
  then show "addressed (\<lambda>w. a' (k @ [w])) (cx_tree (A k)) v (card K)"
    using less old inK st(1,6) assms(3) by (auto simp: addressed_def a'_def)
  have "tree_at (\<lambda>w. a' (k @ [w])) m (cx_tree (A k)) = tree_at (\<lambda>w. a (k @ [w])) m (cx_tree (A k))"
    using old by (intro tree_at_cong) auto
  then show "tree_at (\<lambda>w. a' (k @ [w])) m (cx_tree (A k))"
    using st(11) [OF assms(2)] by (simp add: context_at_def)
  show "links_to (\<lambda>w. a' (k @ [w])) (a k) (sy_symbols (m (a k))) (cx_tree (A k))"
    using st(11) [OF assms(2)] old by (auto simp: context_at_def links_to_def split: tree.splits)
qed

lemma context_encode_stored:
  assumes "stored a A K (rc_symbols c)" "rc_nextSymbol c = card K" "k \<in> K" "d \<noteq> 0"
    and "count_of (cx_tree (A k)) v + unat d \<le> 255" "card (insert (k @ [v]) K) \<le> symbolCount"
  shows "\<exists>a' m'. ENET_CONTEXT_ENCODE (a k) v d minimum c =
      (a' (k @ [v]), ucast v * minimum + of_nat (weight_below (cx_tree (A k)) v), minimum + of_nat (count_of (cx_tree (A k)) v),
       c\<lparr>rc_symbols := m', rc_nextSymbol := card (insert (k @ [v]) K)\<rparr>) \<and>
    stored a' (A(k := A k\<lparr>cx_tree := bump (cx_tree (A k)) v (unat d)\<rparr>)) (insert (k @ [v]) K) m' \<and>
    (\<forall>k \<in> K. a' k = a k \<and> sy_parent (m' (a k)) = sy_parent (rc_symbols c (a k))) \<and>
    (k @ [v] \<notin> K \<longrightarrow> sy_parent (m' (a' (k @ [v]))) = 0)"
proof -
  let ?m = "rc_symbols c" and ?t = "cx_tree (A k)"
  define a' where "a' = (if k @ [v] \<in> K then a else a(k @ [v] := card K))"
  note st = storedD [OF assms(1)]
  have inK: "k @ [w] \<in> K \<longleftrightarrow> w \<in> vals ?t" for w
    using st(7) assms(3) by simp
  note adr = stored_addressed [OF assms(1,3,6), folded a'_def]
  have ak: "a k < card K" "a k < symbolCount"
    using stored_less [OF assms(1,3)] by simp_all
  have same: "a' k' = a k'" if "k' \<in> K" for k'
    using that by (auto simp: a'_def)
  have d: "0 < unat d"
    using assms(4) by (simp add: unat_gt_0)
  have av: "k @ [v] \<notin> K \<Longrightarrow> a' (k @ [v]) = card K \<and> card K < symbolCount"
    using st(1) assms(6) by (simp add: a'_def)
  note bump = stored_bump [OF assms(1,3) d assms(5,6), folded a'_def]
  have "\<exists>m'. ENET_CONTEXT_ENCODE (a k) v d minimum c =
      (a' (k @ [v]), ucast v * minimum + of_nat (weight_below ?t v), minimum + of_nat (count_of ?t v),
       c\<lparr>rc_symbols := m', rc_nextSymbol := card (insert (k @ [v]) K)\<rparr>) \<and>
    stored a' (A(k := A k\<lparr>cx_tree := bump ?t v (unat d)\<rparr>)) (insert (k @ [v]) K) m' \<and>
    (\<forall>k \<in> K. sy_parent (m' (a k)) = sy_parent (?m (a k))) \<and>
    (k @ [v] \<notin> K \<longrightarrow> sy_parent (m' (a' (k @ [v]))) = 0)"
  proof (cases ?t)
    case Leaf
    then have new: "k @ [v] \<notin> K" "a' (k @ [v]) = card K" "card K < symbolCount"
      using inK av by simp_all
    let ?m' = "?m(card K := new_symbol v d, a k := (?m (a k))\<lparr>sy_symbols := symbol_offset (card K) (a k)\<rparr>)"
    have "ENET_CONTEXT_ENCODE (a k) v d minimum c =
      (a' (k @ [v]), ucast v * minimum + of_nat (weight_below ?t v), minimum + of_nat (count_of ?t v),
       c\<lparr>rc_symbols := ?m', rc_nextSymbol := card (insert (k @ [v]) K)\<rparr>)"
      using Leaf new ak adr(3) assms(2) st(1)
      by (simp add: ENET_CONTEXT_ENCODE_def ENET_SYMBOL_CREATE_def upd_symbol_inside)
    moreover have "stored a' (A(k := A k\<lparr>cx_tree := bump ?t v (unat d)\<rparr>)) (insert (k @ [v]) K) ?m'"
      by (rule bump) (use Leaf new ak in \<open>auto simp: node_view_def context_view_def new_symbol_def\<close>)
    moreover have "sy_parent (?m' (a k')) = sy_parent (?m (a k'))" if "k' \<in> K" for k'
      using stored_less [OF assms(1) that] by simp
    moreover have "sy_parent (?m' (a' (k @ [v]))) = 0"
      using new(2) ak by (simp add: new_symbol_def)
    ultimately show ?thesis by blast
  next
    case (Node l y r)
    obtain w n where y: "y = (w, n)" by force
    have t: "?t = Node l (w, n) r"
      using Node y by simp
    obtain m' where walk: "context_walk v d (ucast v * minimum) minimum (a' (k @ [w])) c =
        (a' (k @ [v]), ucast v * minimum + of_nat (weight_below ?t v), minimum + of_nat (count_of ?t v),
         c\<lparr>rc_symbols := m', rc_nextSymbol := rc_nextSymbol c + (if v \<in> vals ?t then 0 else 1)\<rparr>)"
      and m': "tallied (\<lambda>w. a' (k @ [w])) ?t v (unat d) ?m m'"
      using context_walk_counts [OF t adr(2) st(9,10) adr(1) [folded assms(2)], of d "ucast v * minimum" minimum] by blast
    have next_symbol: "rc_nextSymbol c + (if v \<in> vals ?t then 0 else 1) = card (insert (k @ [v]) K)"
      using st(1) assms(2) inK by (simp add: insert_absorb)
    have "ENET_CONTEXT_ENCODE (a k) v d minimum c = context_walk v d (ucast v * minimum) minimum (a' (k @ [w])) c"
      using adr(3) t by (simp add: ENET_CONTEXT_ENCODE_def)
    moreover have views: "context_view (m' i) = context_view (?m i)" if "i < card K" for i
    proof (cases "i \<in> (\<lambda>w. a' (k @ [w])) ` insert v (vals ?t)")
      case True
      then obtain u where u: "i = a' (k @ [u])" "u \<in> insert v (vals ?t)" by blast
      have "u \<in> vals ?t"
      proof (rule ccontr)
        assume "u \<notin> vals ?t"
        then have "u = v" "k @ [v] \<notin> K"
          using u(2) inK by auto
        then show False
          using av u(1) that by simp
      qed
      then show ?thesis
        using m' u(1) by (simp add: tallied_def)
    next
      case False
      then show ?thesis
        using m' by (simp add: tallied_def)
    qed
    moreover have "stored a' (A(k := A k\<lparr>cx_tree := bump ?t v (unat d)\<rparr>)) (insert (k @ [v]) K) m'"
    proof (rule bump)
      show "tree_at (\<lambda>w. a' (k @ [w])) m' (bump ?t v (unat d))"
        using m' by (simp add: tallied_def)
      show "node_view (m' i) = node_view (?m i)" if "i \<notin> a' ` (\<lambda>w. k @ [w]) ` insert v (vals ?t)" for i
        using that m' by (simp add: tallied_def image_image)
      show "context_view (m' (card K)) = (0, 0, 0, 0)" if "k @ [v] \<notin> K"
        using that m' av inK by (simp add: tallied_def)
      show "links_to (\<lambda>w. a' (k @ [w])) (a k) (sy_symbols (m' (a k))) (bump ?t v (unat d))"
        using views [OF ak(1)] adr(3) t by (simp add: links_to_bump context_view_def)
    qed (use views [OF ak(1)] views in \<open>simp_all add: context_view_def\<close>)
    moreover have "sy_parent (m' (a k')) = sy_parent (?m (a k'))" if "k' \<in> K" for k'
      using views [of "a k'"] stored_less [OF assms(1) that] by (simp add: context_view_def)
    moreover have "sy_parent (m' (a' (k @ [v]))) = 0" if "k @ [v] \<notin> K"
      using that m' inK by (simp add: tallied_def context_view_def)
    ultimately show ?thesis
      using walk next_symbol by auto
  qed
  then show ?thesis
    using same by blast
qed

section \<open>The totals of a context\<close>

lemma stored_context:
  assumes "stored a A K m" "k \<in> K"
  defines "t \<equiv> cx_tree (A k)"
  assumes tree: "tree_at (\<lambda>w. a (k @ [w])) m' (cx_tree x)" "vals (cx_tree x) = vals t" "ordered (cx_tree x)"
      "counts_within 255 (cx_tree x)"
    and nodes: "\<And>i. i \<notin> (\<lambda>w. a (k @ [w])) ` vals t \<Longrightarrow> node_view (m' i) = node_view (m i)"
    and contexts: "\<And>i. i \<noteq> a k \<Longrightarrow> sy_symbols (m' i) = sy_symbols (m i) \<and> sy_escapes (m' i) = sy_escapes (m i) \<and>
      sy_total (m' i) = sy_total (m i)"
    and own: "sy_escapes (m' (a k)) = of_nat (cx_escapes x)" "sy_total (m' (a k)) = of_nat (cx_total x)"
      "links_to (\<lambda>w. a (k @ [w])) (a k) (sy_symbols (m' (a k))) (cx_tree x)"
  shows "stored a (A(k := x)) K m'"
proof -
  note st = storedD [OF assms(1)]
  have inK: "k' @ [w] \<in> K \<longleftrightarrow> w \<in> vals (cx_tree (A k'))" if "k' \<in> K" for k' w
    using st(7) that by simp
  have "context_at a m' ((A(k := x)) k') k'" if "k' \<in> K" for k'
  proof (cases "k' = k")
    case True
    then show ?thesis
      using own tree by (simp add: context_at_def)
  next
    case False
    have "tree_at (\<lambda>w. a (k' @ [w])) m' (cx_tree (A k')) = tree_at (\<lambda>w. a (k' @ [w])) m (cx_tree (A k'))"
    proof (rule tree_at_cong)
      fix w assume "w \<in> vals (cx_tree (A k'))"
      then have w: "k' @ [w] \<in> K"
        using inK that by simp
      have "a (k' @ [w]) \<noteq> a (k @ [u])" if "u \<in> vals t" for u
        using that stored_eq [OF assms(1) w, of "k @ [u]"] inK [OF assms(2)] False by (auto simp: t_def)
      then show "node_view (m' (a (k' @ [w]))) = node_view (m (a (k' @ [w]))) \<and> a (k' @ [w]) = a (k' @ [w])"
        using nodes by blast
    qed
    then show ?thesis
      using False st(11) [OF that] contexts [of "a k'"] stored_eq [OF assms(1) that assms(2)]
      by (simp add: context_at_def)
  qed
  moreover have "k' @ [w] \<in> K \<longleftrightarrow> k' \<in> K \<and> w \<in> vals (cx_tree ((A(k := x)) k'))" for k' w
    using st(7) tree(2) by (simp add: t_def)
  moreover have "(A(k := x)) k' = blank" if "k' \<notin> K" for k'
    using that st(8) assms(2) by auto
  moreover have "ordered (cx_tree ((A(k := x)) k')) \<and> counts_within 255 (cx_tree ((A(k := x)) k'))" for k'
    using st(9,10) tree(3,4) by simp
  ultimately show ?thesis
    using assms(1) unfolding stored_def by simp
qed

text \<open>The symbol of a context is a node of another one: only its fields as a context change.\<close>

lemma stored_fields:
  assumes "stored a A K m" "k \<in> K" "node_view s = node_view (m (a k))" "sy_symbols s = sy_symbols (m (a k))"
    and "sy_escapes s = of_nat e" "sy_total s = of_nat tot"
  shows "stored a (A(k := A k\<lparr>cx_escapes := e, cx_total := tot\<rparr>)) K (m(a k := s))"
proof (rule stored_context [OF assms(1,2)])
  note st = storedD [OF assms(1)]
  have same: "node_view ((m(a k := s)) i) = node_view (m i)" for i
    using assms(3) by simp
  have "tree_at (\<lambda>w. a (k @ [w])) (m(a k := s)) (cx_tree (A k)) = tree_at (\<lambda>w. a (k @ [w])) m (cx_tree (A k))"
    using same by (intro tree_at_cong) auto
  then show "tree_at (\<lambda>w. a (k @ [w])) (m(a k := s)) (cx_tree (A k\<lparr>cx_escapes := e, cx_total := tot\<rparr>))"
    using st(11) [OF assms(2)] by (simp add: context_at_def)
  show "node_view ((m(a k := s)) i) = node_view (m i)" for i
    by (rule same)
qed (use storedD(9-11) [OF assms(1)] assms(2-6) in \<open>auto simp: context_at_def\<close>)

lemma stored_parent:
  assumes "stored a A K m"
  shows "stored a A K (m(i := (m i)\<lparr>sy_parent := p\<rparr>))"
proof -
  have "context_at a (m(i := (m i)\<lparr>sy_parent := p\<rparr>)) (A k) k" if "k \<in> K" for k
  proof -
    let ?m = "m(i := (m i)\<lparr>sy_parent := p\<rparr>)"
    have "tree_at (\<lambda>w. a (k @ [w])) ?m (cx_tree (A k)) = tree_at (\<lambda>w. a (k @ [w])) m (cx_tree (A k))"
      by (rule tree_at_cong) (simp add: node_view_def)
    then show ?thesis
      using storedD(11) [OF assms that] by (auto simp: context_at_def)
  qed
  then show ?thesis
    using assms unfolding stored_def by simp
qed

definition cx_rescale :: "nat \<Rightarrow> cx \<Rightarrow> cx" where
  "cx_rescale m x =
     \<lparr>cx_escapes = cx_escapes x - cx_escapes x div 2,
      cx_total = weight (halve (cx_tree x)) + (cx_escapes x - cx_escapes x div 2) + 256 * m,
      cx_tree = halve (cx_tree x)\<rparr>"

definition cx_count :: "nat \<Rightarrow> nat \<Rightarrow> nat \<Rightarrow> nat \<Rightarrow> cx \<Rightarrow> cx" where
  "cx_count delta m limit cnt x =
     (let y = x\<lparr>cx_total := cx_total x + delta\<rparr>
      in if cnt > limit \<or> cx_total y > 0xFF00 then cx_rescale m y else y)"

lemma count_escape_stored:
  assumes "stored a A K (rc_symbols c)" "k \<in> K"
  shows "\<exists>m'. count_escape (a k) c = c\<lparr>rc_symbols := m'\<rparr> \<and>
    stored a (A(k := A k\<lparr>cx_escapes := cx_escapes (A k) + 5, cx_total := cx_total (A k) + 5\<rparr>)) K m' \<and>
    (\<forall>i. sy_parent (m' i) = sy_parent (rc_symbols c i))"
proof -
  let ?s = "(rc_symbols c (a k))\<lparr>sy_escapes := sy_escapes (rc_symbols c (a k)) + 5, sy_total := sy_total (rc_symbols c (a k)) + 5\<rparr>"
  have "stored a (A(k := A k\<lparr>cx_escapes := cx_escapes (A k) + 5, cx_total := cx_total (A k) + 5\<rparr>)) K ((rc_symbols c)(a k := ?s))"
    by (rule stored_fields [OF assms]) (use storedD(11) [OF assms] in \<open>simp_all add: node_view_def context_at_def\<close>)
  then show ?thesis
    using stored_less [OF assms] by (intro exI [of _ "(rc_symbols c)(a k := ?s)"]) (simp add: count_escape_def upd_symbol_inside)
qed

lemma context_rescale_stored:
  assumes "stored a A K (rc_symbols c)" "k \<in> K" "cx_escapes (A k) < 65536"
  shows "\<exists>m'. ENET_CONTEXT_RESCALE (a k) (of_nat m) c = c\<lparr>rc_symbols := m'\<rparr> \<and>
    stored a (A(k := cx_rescale m (A k))) K m' \<and> (\<forall>i. sy_parent (m' i) = sy_parent (rc_symbols c i))"
proof -
  let ?m = "rc_symbols c" and ?t = "cx_tree (A k)"
  note st = storedD [OF assms(1)]
  have at: "sy_escapes (?m (a k)) = of_nat (cx_escapes (A k))" "links_to (\<lambda>w. a (k @ [w])) (a k) (sy_symbols (?m (a k))) ?t"
    "tree_at (\<lambda>w. a (k @ [w])) ?m ?t"
    using st(11) [OF assms(2)] by (simp_all add: context_at_def)
  have i: "a k < symbolCount"
    using stored_less [OF assms(1,2)] by simp
  have inK: "k @ [w] \<in> K" if "w \<in> vals ?t" for w
    using that st(7) assms(2) by simp
  define e where "e = cx_escapes (A k) - cx_escapes (A k) div 2"
  obtain m1 where run: "(if sy_symbols (?m (a k)) \<noteq> 0 then enet_symbol_rescale (a k + unat (sy_symbols (?m (a k)))) c else (0, c))
      = (of_nat (weight (halve ?t)), c\<lparr>rc_symbols := m1\<rparr>)" and m1: "halved (\<lambda>w. a (k @ [w])) ?t ?m m1"
  proof (cases ?t)
    case Leaf
    then show ?thesis
      using at by (intro that [of ?m]) (simp_all add: halved_def)
  next
    case (Node l y r)
    obtain w n where y: "y = (w, n)" by force
    have t: "?t = Node l (w, n) r"
      using Node y by simp
    have inj: "inj_on (\<lambda>w. a (k @ [w])) (vals ?t)"
      using stored_eq [OF assms(1)] inK by (auto intro!: inj_onI)
    have less: "\<forall>w \<in> vals ?t. a (k @ [w]) < symbolCount"
      using stored_less [OF assms(1)] inK by blast
    show ?thesis
      using rescale_halves [OF t at(3) st(9,10) inj less] at(2) t that by auto
  qed
  have views: "sy_symbols (m1 i) = sy_symbols (?m i)" "sy_escapes (m1 i) = sy_escapes (?m i)"
    "sy_total (m1 i) = sy_total (?m i)" "sy_parent (m1 i) = sy_parent (?m i)" for i
    using m1 by (simp_all add: halved_def context_view_def)
  have e: "sy_escapes (?m (a k)) - drop_bit 1 (sy_escapes (?m (a k))) = of_nat e"
    using halved_word [of "cx_escapes (A k)", where 'a = 16] assms(3) by (simp only: at(1) e_def) simp
  let ?s = "(m1 (a k))\<lparr>sy_escapes := of_nat e, sy_total := of_nat (weight (halve ?t)) + (of_nat e + 256 * of_nat m)\<rparr>"
  let ?m' = "m1(a k := ?s)"
  have "ENET_CONTEXT_RESCALE (a k) (of_nat m) c = c\<lparr>rc_symbols := ?m'\<rparr>"
    unfolding ENET_CONTEXT_RESCALE_def Let_def run prod.case
    using i e [simplified] views by (simp add: upd_symbol_inside)
  moreover have "stored a (A(k := cx_rescale m (A k))) K ?m'"
  proof (rule stored_context [OF assms(1,2)])
    have "tree_at (\<lambda>w. a (k @ [w])) m1 (halve ?t)"
      using m1 by (simp add: halved_def)
    then show "tree_at (\<lambda>w. a (k @ [w])) ?m' (cx_tree (cx_rescale m (A k)))"
      using tree_at_cong [of "halve ?t" ?m' "\<lambda>w. a (k @ [w])" m1 "\<lambda>w. a (k @ [w])"]
      by (simp add: cx_rescale_def node_view_def)
    show "node_view (?m' i) = node_view (?m i)" if "i \<notin> (\<lambda>w. a (k @ [w])) ` vals ?t" for i
    proof -
      have "node_view (?m' i) = node_view (m1 i)"
        by (simp add: node_view_def)
      then show ?thesis
        using that m1 by (simp add: halved_def)
    qed
    show "counts_within 255 (cx_tree (cx_rescale m (A k)))"
      using counts_within_mono [OF counts_within_halve [OF st(10) [of k]], of 255] by (simp add: cx_rescale_def)
  qed (use views at st(9) in \<open>auto simp: cx_rescale_def ordered_halve e_def\<close>)
  ultimately show ?thesis
    using views by (intro exI [of _ ?m']) auto
qed

lemma count_symbol_stored:
  assumes "stored a A K (rc_symbols c)" "k \<in> K" "cx_escapes (A k) < 65536" "cx_total (A k) + unat delta < 65536"
    and "cnt < 65536" "unat delta = d" "unat limit = l"
  shows "\<exists>m'. count_symbol (a k) delta (of_nat m) limit (of_nat cnt) c = c\<lparr>rc_symbols := m'\<rparr> \<and>
    stored a (A(k := cx_count d m l cnt (A k))) K m' \<and> (\<forall>i. sy_parent (m' i) = sy_parent (rc_symbols c i))"
proof -
  let ?s = "(rc_symbols c (a k))\<lparr>sy_total := sy_total (rc_symbols c (a k)) + ucast delta\<rparr>"
  let ?m = "(rc_symbols c)(a k := ?s)" and ?c = "upd_symbol (a k) (\<lambda>s. s\<lparr>sy_total := sy_total s + ucast delta\<rparr>) c"
  let ?y = "(A k)\<lparr>cx_total := cx_total (A k) + d\<rparr>"
  note at = storedD(11) [OF assms(1,2)]
  have c: "?c = c\<lparr>rc_symbols := ?m\<rparr>"
    using stored_less [OF assms(1,2)] by (simp add: upd_symbol_inside)
  have delta: "(ucast delta :: u16) = of_nat d"
    using assms(6) by (metis of_nat_unat)
  have tot: "sy_total ?s = of_nat (cx_total (A k) + d)"
    using at delta by (simp add: context_at_def)
  have "stored a (A(k := A k\<lparr>cx_escapes := cx_escapes (A k), cx_total := cx_total (A k) + d\<rparr>)) K ?m"
    by (rule stored_fields [OF assms(1,2)]) (use at tot in \<open>simp_all add: node_view_def context_at_def\<close>)
  then have y: "stored a (A(k := ?y)) K ?m"
    by simp
  have limit: "of_nat cnt > limit \<longleftrightarrow> cnt > l"
    using assms(5,7) by (auto simp: word_less_nat_alt unat_of_nat_small)
  have full: "sy_total (rc_symbols ?c (a k)) > 0xFF00 \<longleftrightarrow> cx_total ?y > 0xFF00"
  proof -
    have "unat (of_nat (cx_total (A k) + d) :: u16) = cx_total (A k) + d"
      by (rule unat_of_nat_small) (use assms(4,6) in simp)
    then have "unat (sy_total (rc_symbols ?c (a k))) = cx_total (A k) + d"
      using tot by (simp only: c) simp
    then show ?thesis
      by (simp add: word_less_nat_alt)
  qed
  show ?thesis
  proof (cases "cnt > l \<or> cx_total ?y > 0xFF00")
    case True
    obtain m' where m': "ENET_CONTEXT_RESCALE (a k) (of_nat m) ?c = ?c\<lparr>rc_symbols := m'\<rparr>"
      "stored a ((A(k := ?y))(k := cx_rescale m ?y)) K m'" "\<forall>i. sy_parent (m' i) = sy_parent (?m i)"
      using context_rescale_stored [of a "A(k := ?y)" K ?c k m] y assms(2,3) by (auto simp: c)
    have "count_symbol (a k) delta (of_nat m) limit (of_nat cnt) c = c\<lparr>rc_symbols := m'\<rparr>"
      using True m'(1) limit full by (simp add: count_symbol_def Let_def c)
    then show ?thesis
      using True m'(2,3) by (intro exI [of _ m']) (auto simp: cx_count_def)
  next
    case False
    then have "count_symbol (a k) delta (of_nat m) limit (of_nat cnt) c = c\<lparr>rc_symbols := ?m\<rparr>"
      using limit full c by (simp add: count_symbol_def Let_def)
    then show ?thesis
      using False y by (intro exI [of _ ?m]) (auto simp: cx_count_def)
  qed
qed

section \<open>Decoding in a context\<close>

text \<open>The decoder that has a code of the slot of a value does what the encoder does for the value.\<close>

lemma root_decode_encodes:
  assumes "stored a A K (rc_symbols c)" "rc_nextSymbol c = card K" "k \<in> K" "card (insert (k @ [v]) K) \<le> symbolCount"
    and "in_slot 1 (cx_tree (A k)) 0 v (unat code)" "weight (cx_tree (A k)) + 256 \<le> 65535"
  shows "ENET_CONTEXT_ROOT_DECODE (a k) code d 1 c =
    (case ENET_CONTEXT_ENCODE (a k) v d 1 c of (symbol, e) \<Rightarrow> (symbol, v, e))"
proof -
  let ?t = "cx_tree (A k)"
  define a' where "a' = (if k @ [v] \<in> K then a else a(k @ [v] := card K))"
  note adr = stored_addressed [OF assms(1,3,4), folded a'_def]
  show ?thesis
  proof (cases ?t)
    case Leaf
    have code: "code = of_nat (unat v)"
      using slot_of_leaf [of 0 v code] assms(5) Leaf by simp
    have "ucast code = v"
      unfolding code by (subst ucast_of_nat_small) (use unat_u8_less [of v] in simp_all)
    then show ?thesis
      using adr(3) Leaf code by (simp add: ENET_CONTEXT_ROOT_DECODE_def ENET_CONTEXT_ENCODE_def case_prod_beta Let_def)
  next
    case (Node l y r)
    obtain w n where y: "y = (w, n)" by force
    have t: "?t = Node l (w, n) r"
      using Node y by simp
    have "create_missing code d (of_nat 1) (decode_walk d (of_nat 1) code (of_nat 0) (a' (k @ [w])) c) =
        (case context_walk v d (of_nat (0 + unat v * 1)) (of_nat 1) (a' (k @ [w])) c of (symbol, e) \<Rightarrow> (symbol, v, e))"
      by (rule conjunct1 [OF decode_walk_finds [where a = "\<lambda>w. a' (k @ [w])", OF t adr(2) storedD(9,10) [OF assms(1)]]])
        (use adr(1) assms(2,5,6) in simp_all)
    then show ?thesis
      using adr(3) t by (simp add: ENET_CONTEXT_ROOT_DECODE_def ENET_CONTEXT_ENCODE_def)
  qed
qed

lemma try_decode_encodes:
  assumes "stored a A K (rc_symbols c)" "rc_nextSymbol c = card K" "k \<in> K" "v \<in> vals (cx_tree (A k))"
    and "in_slot 0 (cx_tree (A k)) 0 v (unat code)" "weight (cx_tree (A k)) \<le> 65535"
  shows "ENET_CONTEXT_TRY_DECODE (a k) code d 0 c =
    Inr (case ENET_CONTEXT_ENCODE (a k) v d 0 c of (symbol, e) \<Rightarrow> (symbol, v, e))"
proof -
  let ?t = "cx_tree (A k)"
  have "k @ [v] \<in> K"
    using storedD(7) [OF assms(1)] assms(3,4) by simp
  then have card: "card (insert (k @ [v]) K) \<le> symbolCount" and a': "a = (if k @ [v] \<in> K then a else a(k @ [v] := card K))"
    using storedD(6) [OF assms(1)] by (simp_all add: insert_absorb)
  note adr = stored_addressed [OF assms(1,3) card, folded a']
  obtain l w n r where t: "?t = Node l (w, n) r"
    using assms(4) by (cases ?t rule: weight.cases) auto
  note finds = decode_walk_finds [where a = "\<lambda>w. a (k @ [w])" and m = 0 and b = 0 and v = v and d = d and code = code,
      OF t adr(2) storedD(9,10) [OF assms(1)] adr(1) [folded assms(2)] assms(5)]
  obtain s x u j e where hit: "decode_walk d 0 code 0 (a (k @ [w])) c = (Hit s x u j, e)"
    using finds assms(4,6) by auto
  have "create_missing code d 0 (decode_walk d 0 code 0 (a (k @ [w])) c) =
      (case context_walk v d 0 0 (a (k @ [w])) c of (symbol, e) \<Rightarrow> (symbol, v, e))"
    using finds assms(4,6) by simp
  then have "(s, x, u, j, e) = (case context_walk v d 0 0 (a (k @ [w])) c of (symbol, e) \<Rightarrow> (symbol, v, e))"
    by (simp add: hit create_missing_def)
  then show ?thesis
    using adr(3) t hit by (simp add: ENET_CONTEXT_TRY_DECODE_def ENET_CONTEXT_ENCODE_def)
qed

section \<open>What one value does to a context\<close>

text \<open>
  A context with its totals right and room for one more \<open>d\<close> on every count; \<open>m\<close> is the count of
  every value by default.
\<close>

definition cx_ok :: "nat \<Rightarrow> nat \<Rightarrow> cx \<Rightarrow> bool" where
  "cx_ok d m x \<longleftrightarrow> ordered (cx_tree x) \<and> counts_within (255 - d) (cx_tree x) \<and>
     cx_total x = cx_escapes x + weight (cx_tree x) + 256 * m \<and> cx_total x \<le> 0xFF00 \<and>
     (cx_tree x = Leaf \<and> m = 0 \<or> 0 < cx_escapes x)"

definition cx_seen :: "nat \<Rightarrow> nat \<Rightarrow> u8 \<Rightarrow> cx \<Rightarrow> cx" where
  "cx_seen d m v x = cx_count d m (255 - 2 * d + m) (m + count_of (cx_tree x) v) (x\<lparr>cx_tree := bump (cx_tree x) v d\<rparr>)"

definition cx_missed :: "u8 \<Rightarrow> cx \<Rightarrow> cx" where
  "cx_missed v x = cx_count 2 0 251 0
     (x\<lparr>cx_tree := bump (cx_tree x) v 2, cx_escapes := cx_escapes x + 5, cx_total := cx_total x + 5\<rparr>)"

lemma finite_vals [simp]: "finite (vals t)"
  by (simp add: vals_def)

lemma card_vals: "ordered t \<Longrightarrow> card (vals t) = size t"
proof (induction t rule: weight.induct)
  case (2 l w n r)
  then show ?case
    using ordered_apart [OF "2.prems"] by (simp add: card_Un_disjoint)
qed simp

lemma size_counts: "ordered t \<Longrightarrow> size t \<le> 256"
  using card_mono [of UNIV "vals t"] by (simp add: card_vals card_word)

lemma weight_halve: "2 * weight (halve t) \<le> weight t + size t"
proof (induction t rule: halve.induct)
  case (2 l w n r)
  have "2 * (n - n div 2) \<le> n + 1" by simp
  then show ?case using 2 by simp
qed simp

lemma cx_count_ok:
  assumes "ordered (cx_tree y)" "counts_within 255 (cx_tree y)" "cx_total y + d = cx_escapes y + weight (cx_tree y) + 256 * m"
    and "cx_total y + d \<le> 0xFF00 + 300" "0 < cx_escapes y" "cnt \<le> l \<Longrightarrow> counts_within (255 - d) (cx_tree y)"
    and "d \<le> 127" "m \<le> 1"
  shows "cx_ok d m (cx_count d m l cnt y)"
proof (cases "cnt > l \<or> cx_total y + d > 0xFF00")
  case True
  have "counts_within 128 (halve (cx_tree y))"
    using counts_within_halve [OF assms(2)] by simp
  then have "counts_within (255 - d) (halve (cx_tree y))"
    by (rule counts_within_mono) (use assms(7) in simp)
  moreover have "weight (halve (cx_tree y)) + (cx_escapes y - cx_escapes y div 2) + 256 * m \<le> 0xFF00"
    using weight_halve [of "cx_tree y"] size_counts [OF assms(1)] assms(3,4,8) by linarith
  moreover have "0 < cx_escapes y - cx_escapes y div 2"
    using assms(5) by simp
  ultimately show ?thesis
    using True assms(1) by (simp add: cx_count_def Let_def cx_rescale_def cx_ok_def ordered_halve)
next
  case False
  then show ?thesis
    using assms by (simp add: cx_count_def Let_def cx_ok_def)
qed

lemma cx_seen_ok:
  assumes "cx_ok d m x" "0 < d" "d \<le> 100" "m \<le> 1" "0 < cx_escapes x"
  shows "cx_ok d m (cx_seen d m v x)"
  unfolding cx_seen_def
proof (rule cx_count_ok)
  have ok: "ordered (cx_tree x)" "counts_within (255 - d) (cx_tree x)"
    using assms(1) by (simp_all add: cx_ok_def)
  have c: "count_of (cx_tree x) v \<le> 255 - d"
    using count_of_pos [OF ok(2) _ ok(1), of v] count_of_0 [of v "cx_tree x"] by (cases "v \<in> vals (cx_tree x)") auto
  show "counts_within 255 (cx_tree (x\<lparr>cx_tree := bump (cx_tree x) v d\<rparr>))"
    using counts_within_bump [OF ok(2) assms(2), of v 255] c assms(3) by simp
  show "counts_within (255 - d) (cx_tree (x\<lparr>cx_tree := bump (cx_tree x) v d\<rparr>))"
    if "m + count_of (cx_tree x) v \<le> 255 - 2 * d + m"
    using counts_within_bump [OF ok(2) assms(2), of v "255 - d"] that assms(3) by simp
qed (use assms in \<open>auto simp: cx_ok_def ordered_bump weight_bump\<close>)

lemma cx_missed_ok:
  assumes "cx_ok 2 0 x" "v \<notin> vals (cx_tree x)"
  shows "cx_ok 2 0 (cx_missed v x)"
  unfolding cx_missed_def
proof (rule cx_count_ok)
  have ok: "counts_within 253 (cx_tree x)"
    using assms(1) by (simp add: cx_ok_def)
  have "counts_within 253 (bump (cx_tree x) v 2)"
    using counts_within_bump [OF ok, of 2 v 253] count_of_0 [OF assms(2)] by simp
  then show "counts_within (255 - 2) (cx_tree (x\<lparr>cx_tree := bump (cx_tree x) v 2, cx_escapes := cx_escapes x + 5, cx_total := cx_total x + 5\<rparr>))"
    "counts_within 255 (cx_tree (x\<lparr>cx_tree := bump (cx_tree x) v 2, cx_escapes := cx_escapes x + 5, cx_total := cx_total x + 5\<rparr>))"
    by (simp_all add: counts_within_mono)
qed (use assms in \<open>auto simp: cx_ok_def ordered_bump weight_bump\<close>)

end
