(* ===== verification/Enet_Roundtrip.thy ===== *)
theory Enet_Roundtrip
  imports Enet_Contexts
begin

text \<open>
  Encoder and decoder of the range coder on the same contexts: the slots a value is coded in, what
  learning the value does to the contexts, and the simulation between the two directions.
\<close>

section \<open>Learning a value\<close>

text \<open>The contexts are those of the string of the last values and its ends, down to the root.\<close>

definition model_ok :: "(key \<Rightarrow> cx) \<Rightarrow> bool" where
  "model_ok A \<longleftrightarrow> cx_ok 3 1 (A []) \<and> (\<forall>k. k \<noteq> [] \<longrightarrow> cx_ok 2 0 (A k))"

abbreviation (input) has :: "(key \<Rightarrow> cx) \<Rightarrow> key \<Rightarrow> u8 \<Rightarrow> bool" where
  "has A k v \<equiv> v \<in> vals (cx_tree (A k))"

definition escape_slots :: "cx \<Rightarrow> slots" where
  "escape_slots x = (if 0 < cx_escapes x \<and> cx_escapes x < cx_total x
     then [(0, of_nat (cx_escapes x), of_nat (cx_total x))] else [])"

definition symbol_slot :: "nat \<Rightarrow> u8 \<Rightarrow> cx \<Rightarrow> u32 \<times> u32 \<times> u32" where
  "symbol_slot m v x =
     (of_nat (cx_escapes x + (unat v * m + weight_below (cx_tree x) v)), of_nat (m + count_of (cx_tree x) v), of_nat (cx_total x))"

fun slots :: "key \<Rightarrow> u8 \<Rightarrow> (key \<Rightarrow> cx) \<Rightarrow> slots" where
  "slots [] v A = [symbol_slot 1 v (A [])]"
| "slots (b # k) v A =
     (if has A (b # k) v then [symbol_slot 0 v (A (b # k))] else escape_slots (A (b # k)) @ slots k v A)"

fun learn :: "key \<Rightarrow> u8 \<Rightarrow> (key \<Rightarrow> cx) \<Rightarrow> key \<Rightarrow> cx" where
  "learn [] v A = A([] := cx_seen 3 1 v (A []))"
| "learn (b # k) v A =
     (if has A (b # k) v then A(b # k := cx_seen 2 0 v (A (b # k)))
      else learn k v (A(b # k := cx_missed v (A (b # k)))))"

fun found_in :: "key \<Rightarrow> u8 \<Rightarrow> (key \<Rightarrow> cx) \<Rightarrow> key" where
  "found_in [] v A = []"
| "found_in (b # k) v A = (if has A (b # k) v then b # k else found_in k v A)"

fun visited :: "key \<Rightarrow> u8 \<Rightarrow> (key \<Rightarrow> cx) \<Rightarrow> key set" where
  "visited [] v A = {[]}"
| "visited (b # k) v A = (if has A (b # k) v then {b # k} else insert (b # k) (visited k v A))"

lemma longer_untouched:
  assumes "length k < length x"
  shows "slots k v (A(x := y)) = slots k v A" "found_in k v (A(x := y)) = found_in k v A"
    "visited k v (A(x := y)) = visited k v A"
  using assms by (induction k arbitrary: A) auto

lemma model_okD: "model_ok A \<Longrightarrow> cx_ok 3 1 (A [])" "model_ok A \<Longrightarrow> cx_ok 2 0 (A (b # k))"
  by (simp_all add: model_ok_def)

lemma model_ok_upd: "model_ok A \<Longrightarrow> cx_ok 2 0 x \<Longrightarrow> model_ok (A(b # k := x))"
  by (simp add: model_ok_def)

lemma has_escapes: "cx_ok 2 0 x \<Longrightarrow> v \<in> vals (cx_tree x) \<Longrightarrow> 0 < cx_escapes x"
  by (auto simp: cx_ok_def)

lemma learn_ok: "model_ok A \<Longrightarrow> model_ok (learn k v A)"
proof (induction k arbitrary: A)
  case Nil
  then show ?case
    using cx_seen_ok [of 3 1 "A []" v] by (simp add: model_ok_def) (simp add: cx_ok_def)
next
  case (Cons b k)
  note ok = model_okD(2) [OF Cons.prems, of b k]
  show ?case
  proof (cases "has A (b # k) v")
    case True
    then show ?thesis
      using model_ok_upd [OF Cons.prems cx_seen_ok [OF ok]] has_escapes [OF ok True]
      by (simp only: learn.simps if_True)
  next
    case False
    then show ?thesis
      using Cons.IH [OF model_ok_upd [OF Cons.prems cx_missed_ok [OF ok False]]]
      by (simp only: learn.simps if_False)
  qed
qed

section \<open>The slots\<close>

lemma escape_slots_ok: "cx_ok d m x \<Longrightarrow> (b, k, t) \<in> set (escape_slots x) \<Longrightarrow> b = 0 \<and> slot_ok b k t"
  using slot_of_nat [of "cx_escapes x" 0 "cx_total x"] by (auto simp: escape_slots_def cx_ok_def split: if_splits)

lemma symbol_slot_ok:
  assumes "cx_ok d m x" "m \<le> 1" "m = 0 \<Longrightarrow> v \<in> vals (cx_tree x)" "symbol_slot m v x = (b, k, t)"
  shows "slot_ok b k t"
proof -
  have ok: "ordered (cx_tree x)" "counts_within (255 - d) (cx_tree x)" "cx_total x = cx_escapes x + weight (cx_tree x) + 256 * m"
    "cx_total x \<le> 0xFF00"
    using assms(1) by (simp_all add: cx_ok_def)
  have "unat v * m + m \<le> 256 * m"
    using unat_u8_less [of v] assms(2) by (cases m) auto
  moreover have "0 < m + count_of (cx_tree x) v"
    using assms(3) count_of_pos [OF ok(2) _ ok(1), of v] by (cases m) auto
  ultimately have "slot_ok (of_nat (cx_escapes x + (unat v * m + weight_below (cx_tree x) v)))
      (of_nat (m + count_of (cx_tree x) v)) (of_nat (cx_total x))"
    using weight_below_le [of "cx_tree x" v] ok(3,4) by (intro slot_of_nat) linarith+
  then show ?thesis
    using assms(4) by (simp add: symbol_slot_def)
qed

section \<open>Coders that store the contexts\<close>

definition coder_at :: "(key \<Rightarrow> nat) \<Rightarrow> (key \<Rightarrow> cx) \<Rightarrow> key set \<Rightarrow> 'a ENetRangeCoder_scheme \<Rightarrow> bool" where
  "coder_at a A K c \<longleftrightarrow> stored a A K (rc_symbols c) \<and> rc_nextSymbol c = card K"

text \<open>
  Every symbol but those in \<open>W\<close>, which wait for their parent, has the symbol of the string without
  its first byte as parent.
\<close>

definition parented :: "(key \<Rightarrow> nat) \<Rightarrow> key set \<Rightarrow> key set \<Rightarrow> (nat \<Rightarrow> ENetSymbol) \<Rightarrow> bool" where
  "parented a K W m \<longleftrightarrow> (\<forall>x \<in> K. x \<noteq> [] \<and> x \<notin> W \<longrightarrow> tl x \<in> K \<and> sy_parent (m (a x)) = of_nat (a (tl x)))"

lemma parentedD:
  assumes "parented a K W m" "b # k \<in> K" "b # k \<notin> W"
  shows "k \<in> K" "sy_parent (m (a (b # k))) = of_nat (a k)"
  using assms(1) [unfolded parented_def, rule_format, OF assms(2)] assms(3) by simp_all

text \<open>The slot the address of the symbol of \<open>y\<close> goes to: that of \<open>predicted\<close> or of a waiting symbol.\<close>

definition waits :: "(key \<Rightarrow> nat) \<Rightarrow> key set \<Rightarrow> key option \<Rightarrow> parent_slot \<Rightarrow> key \<Rightarrow> bool" where
  "waits a K p slot y \<longleftrightarrow>
     (case p of None \<Rightarrow> slot = Predicted | Some x \<Rightarrow> slot = ParentOf (a x) \<and> x \<in> K \<and> x \<noteq> [] \<and> tl x = y)"

text \<open>What the operations on the symbols leave.\<close>

definition same_coding :: "'a ENetRangeCoder_scheme \<Rightarrow> 'a ENetRangeCoder_scheme \<Rightarrow> bool" where
  "same_coding c c' \<longleftrightarrow> (\<exists>m n p. c' = c\<lparr>rc_symbols := m, rc_nextSymbol := n, rc_predicted := p\<rparr>)"

lemma same_codingD:
  assumes "same_coding c c'"
  shows "rc_low c' = rc_low c" "rc_range c' = rc_range c" "rc_out c' = rc_out c" "rc_order c' = rc_order c"
    "rc_fault c' = rc_fault c"
  using assms by (auto simp: same_coding_def)

lemma same_coding_reading: "same_coding (reading bs c) c' \<Longrightarrow> reading bs c' = c'"
  by (auto simp: same_coding_def reading_def)

lemma same_coding_trans: "same_coding c d \<Longrightarrow> same_coding d e \<Longrightarrow> same_coding c e"
  unfolding same_coding_def
proof (elim exE)
  fix m n p m' n' p'
  assume "d = c\<lparr>rc_symbols := m, rc_nextSymbol := n, rc_predicted := p\<rparr>"
    "e = d\<lparr>rc_symbols := m', rc_nextSymbol := n', rc_predicted := p'\<rparr>"
  then show "\<exists>m n p. e = c\<lparr>rc_symbols := m, rc_nextSymbol := n, rc_predicted := p\<rparr>"
    by (intro exI [of _ m'] exI [of _ n'] exI [of _ p']) simp
qed

lemma same_coding_symbols: "same_coding c (c\<lparr>rc_symbols := m\<rparr>)"
  unfolding same_coding_def
  by (intro exI [of _ m] exI [of _ "rc_nextSymbol c"] exI [of _ "rc_predicted c"]) simp

lemma encode_links:
  assumes "coder_at a A K c" "parented a K W (rc_symbols c)" "k \<in> K"
    and "d \<noteq> 0" "count_of (cx_tree (A k)) v + unat d \<le> 255" "card (insert (k @ [v]) K) \<le> symbolCount"
  shows "\<exists>a' c'. ENET_CONTEXT_ENCODE (a k) v d minimum c =
      (a' (k @ [v]), ucast v * minimum + of_nat (weight_below (cx_tree (A k)) v), minimum + of_nat (count_of (cx_tree (A k)) v), c') \<and>
    coder_at a' (A(k := A k\<lparr>cx_tree := bump (cx_tree (A k)) v (unat d)\<rparr>)) (insert (k @ [v]) K) c' \<and>
    parented a' (insert (k @ [v]) K) (W \<union> (if k @ [v] \<in> K \<or> k = [] then {} else {k @ [v]})) (rc_symbols c') \<and>
    (\<forall>x \<in> K. a' x = a x) \<and> same_coding c c' \<and> rc_predicted c' = rc_predicted c"
proof -
  have st: "stored a A K (rc_symbols c)" "rc_nextSymbol c = card K"
    using assms(1) by (simp_all add: coder_at_def)
  let ?K = "insert (k @ [v]) K" and ?A = "A(k := A k\<lparr>cx_tree := bump (cx_tree (A k)) v (unat d)\<rparr>)"
  obtain a' m' where enc: "ENET_CONTEXT_ENCODE (a k) v d minimum c =
      (a' (k @ [v]), ucast v * minimum + of_nat (weight_below (cx_tree (A k)) v), minimum + of_nat (count_of (cx_tree (A k)) v),
       c\<lparr>rc_symbols := m', rc_nextSymbol := card ?K\<rparr>)"
    and st': "stored a' ?A ?K m'" and old: "\<forall>x \<in> K. a' x = a x \<and> sy_parent (m' (a x)) = sy_parent (rc_symbols c (a x))"
    and new: "k @ [v] \<notin> K \<longrightarrow> sy_parent (m' (a' (k @ [v]))) = 0"
    using context_encode_stored [OF st assms(3-6)] by blast
  let ?c = "c\<lparr>rc_symbols := m', rc_nextSymbol := card ?K\<rparr>"
  have "tl x \<in> ?K \<and> sy_parent (m' (a' x)) = of_nat (a' (tl x))"
    if "x \<in> ?K" "x \<noteq> []" "x \<notin> W \<union> (if k @ [v] \<in> K \<or> k = [] then {} else {k @ [v]})" for x
  proof (cases "x \<in> K")
    case True
    then show ?thesis
      using that assms(2) old by (auto simp: parented_def)
  next
    case False
    then have "x = k @ [v]" "k = []"
      using that by (auto split: if_splits)
    then show ?thesis
      using new False storedD(5) [OF st'] storedD(2) [OF st(1)] by simp
  qed
  then have "parented a' ?K (W \<union> (if k @ [v] \<in> K \<or> k = [] then {} else {k @ [v]})) (rc_symbols ?c)"
    by (simp add: parented_def)
  moreover have "coder_at a' ?A ?K ?c"
    using st' by (simp add: coder_at_def)
  moreover have "same_coding c ?c"
    unfolding same_coding_def
    by (intro exI [of _ m'] exI [of _ "card ?K"] exI [of _ "rc_predicted c"]) simp
  ultimately show ?thesis
    using enc old by (intro exI [of _ a'] exI [of _ ?c]) simp
qed

lemma set_parent_links:
  assumes "coder_at a A K c" "parented a K (set_option p \<union> W) (rc_symbols c)" "waits a K p slot y" "y \<in> K"
  defines "c' \<equiv> set_parent slot (a y) c"
  shows "coder_at a A K c'" "parented a K W (rc_symbols c')" "same_coding c c'"
    "rc_predicted c' = (if p = None then of_nat (a y) else rc_predicted c)"
proof -
  have st: "stored a A K (rc_symbols c)"
    using assms(1) by (simp add: coder_at_def)
  have "coder_at a A K c' \<and> parented a K W (rc_symbols c') \<and> same_coding c c' \<and>
      rc_predicted c' = (if p = None then of_nat (a y) else rc_predicted c)"
  proof (cases p)
    case None
    then have "c' = c\<lparr>rc_predicted := of_nat (a y)\<rparr>"
      using assms(3) by (simp add: c'_def waits_def set_parent_def)
    moreover have "same_coding c (c\<lparr>rc_predicted := of_nat (a y)\<rparr>)"
      unfolding same_coding_def
      by (intro exI [of _ "rc_symbols c"] exI [of _ "rc_nextSymbol c"] exI [of _ "of_nat (a y)"]) simp
    ultimately show ?thesis
      using assms(1,2) None by (simp add: coder_at_def)
  next
    case (Some x)
    then have slot: "slot = ParentOf (a x)" "x \<in> K" "x \<noteq> []" "tl x = y"
      using assms(3) by (simp_all add: waits_def)
    let ?m = "(rc_symbols c)(a x := (rc_symbols c (a x))\<lparr>sy_parent := of_nat (a y)\<rparr>)"
    have c': "c' = c\<lparr>rc_symbols := ?m\<rparr>"
      using slot(1) stored_less [OF st slot(2)] by (simp add: c'_def set_parent_def upd_symbol_inside)
    have "parented a K W ?m"
      unfolding parented_def
    proof (intro ballI impI)
      fix z assume z: "z \<in> K" "z \<noteq> [] \<and> z \<notin> W"
      show "tl z \<in> K \<and> sy_parent (?m (a z)) = of_nat (a (tl z))"
      proof (cases "z = x")
        case True
        then show ?thesis
          using slot assms(4) by simp
      next
        case False
        then show ?thesis
          using stored_eq [OF st z(1) slot(2)] assms(2) z Some by (simp add: parented_def)
      qed
    qed
    then show ?thesis
      using stored_parent [OF st, of "a x"] assms(1) Some c' same_coding_symbols [of c] by (simp add: coder_at_def)
  qed
  then show "coder_at a A K c'" "parented a K W (rc_symbols c')" "same_coding c c'"
    "rc_predicted c' = (if p = None then of_nat (a y) else rc_predicted c)" by simp_all
qed


section \<open>Counting a value seen or missed\<close>

lemma cx_okD:
  assumes "cx_ok d m x"
  shows "cx_total x = cx_escapes x + weight (cx_tree x) + 256 * m" "cx_total x \<le> 0xFF00"
    "ordered (cx_tree x)" "counts_within (255 - d) (cx_tree x)"
  using assms by (simp_all add: cx_ok_def)

lemma cx_ok_count: "cx_ok d m x \<Longrightarrow> count_of (cx_tree x) v \<le> 255 - d"
  using count_of_pos [OF cx_okD(4) _ cx_okD(3), of d m x v] count_of_0 [of v "cx_tree x"]
  by (cases "v \<in> vals (cx_tree x)") auto

lemma seen_stored:
  assumes "stored a (A(k := x\<lparr>cx_tree := bump (cx_tree x) v d\<rparr>)) K (rc_symbols c)" "k \<in> K" "cx_ok d m x"
    and "d \<le> 3" "m \<le> 1" "unat delta = d" "unat limit = 255 - 2 * d + m"
  shows "\<exists>m'. count_symbol (a k) delta (of_nat m) limit (of_nat (m + count_of (cx_tree x) v)) c = c\<lparr>rc_symbols := m'\<rparr> \<and>
    stored a (A(k := cx_seen d m v x)) K m' \<and> (\<forall>i. sy_parent (m' i) = sy_parent (rc_symbols c i))"
proof -
  note ok = cx_okD [OF assms(3)] cx_ok_count [OF assms(3), of v]
  let ?A = "A(k := x\<lparr>cx_tree := bump (cx_tree x) v d\<rparr>)"
  have "cx_escapes x < 65536" "cx_total x + unat delta < 65536" "m + count_of (cx_tree x) v < 65536"
    using ok assms(4-6) by linarith+
  then have small: "cx_escapes (?A k) < 65536" "cx_total (?A k) + unat delta < 65536" "m + count_of (cx_tree x) v < 65536"
    by simp_all
  obtain m' where "count_symbol (a k) delta (of_nat m) limit (of_nat (m + count_of (cx_tree x) v)) c = c\<lparr>rc_symbols := m'\<rparr>"
    "stored a (?A(k := cx_count d m (255 - 2 * d + m) (m + count_of (cx_tree x) v) (?A k))) K m'"
    "\<forall>i. sy_parent (m' i) = sy_parent (rc_symbols c i)"
    using count_symbol_stored [OF assms(1,2) small assms(6,7), of m] by blast
  then show ?thesis
    by (intro exI [of _ m']) (simp add: cx_seen_def)
qed

lemma missed_stored:
  assumes "stored a (A(k := x\<lparr>cx_tree := bump (cx_tree x) v 2\<rparr>)) K (rc_symbols c)" "k \<in> K" "cx_ok 2 0 x"
  shows "\<exists>m'. count_subcontext (a k) 0 (count_escape (a k) c) = c\<lparr>rc_symbols := m'\<rparr> \<and>
    stored a (A(k := cx_missed v x)) K m' \<and> (\<forall>i. sy_parent (m' i) = sy_parent (rc_symbols c i))"
proof -
  note ok = cx_okD [OF assms(3)] cx_ok_count [OF assms(3), of v]
  let ?y = "x\<lparr>cx_tree := bump (cx_tree x) v 2, cx_escapes := cx_escapes x + 5, cx_total := cx_total x + 5\<rparr>"
  obtain m1 where m1: "count_escape (a k) c = c\<lparr>rc_symbols := m1\<rparr>" "stored a (A(k := ?y)) K m1"
    "\<forall>i. sy_parent (m1 i) = sy_parent (rc_symbols c i)"
    using count_escape_stored [OF assms(1,2)] by auto
  obtain m' where "count_symbol (a k) 2 (of_nat 0) (0xFF - 2 * 2) (of_nat 0) (c\<lparr>rc_symbols := m1\<rparr>) = c\<lparr>rc_symbols := m'\<rparr>"
    "stored a ((A(k := ?y))(k := cx_count 2 0 251 0 ((A(k := ?y)) k))) K m'"
    "\<forall>i. sy_parent (m' i) = sy_parent (m1 i)"
    using count_symbol_stored [of a "A(k := ?y)" K "c\<lparr>rc_symbols := m1\<rparr>" k 2 0 2 "0xFF - 2 * 2" 251 0] m1(2) assms(2) ok
    by auto
  then show ?thesis
    using m1 by (intro exI [of _ m']) (simp add: cx_missed_def)
qed

section \<open>Encoding a value\<close>

text \<open>Encoding the slots \<open>ss\<close> makes \<open>c'\<close> of \<open>c\<close>, up to the symbols, in the room for the output.\<close>

definition emits :: "nat \<Rightarrow> 'a ENetRangeCoder_scheme \<Rightarrow> slots \<Rightarrow> 'a ENetRangeCoder_scheme \<Rightarrow> bool" where
  "emits outLimit c ss c' \<longleftrightarrow>
     (\<exists>ds. codes (rc_low c) (rc_range c) ss ds (rc_low c') (rc_range c') \<and> rc_out c' = rc_out c @ ds) \<and>
     (length (rc_out c) \<le> outLimit \<longrightarrow> length (rc_out c') \<le> outLimit) \<and>
     rc_order c' = rc_order c \<and> rc_fault c' = rc_fault c"

abbreviation (input) ready :: "'a ENetRangeCoder_scheme \<Rightarrow> bool" where
  "ready c \<equiv> interval (rc_low c) (rc_range c) \<and> interval_done (rc_low c) (rc_range c)"

lemma emits_none: "same_coding c c' \<Longrightarrow> emits outLimit c [] c'"
  by (auto simp: emits_def same_coding_def intro!: exI [of _ "[]"] codes_Nil)

lemma emits_trans: "emits outLimit c ss c' \<Longrightarrow> emits outLimit c' ts c'' \<Longrightarrow> emits outLimit c (ss @ ts) c''"
  by (auto simp: emits_def intro: codes_append)

lemma emits_ready: "emits outLimit c ss c' \<Longrightarrow> ready c \<Longrightarrow> ready c'"
  using codes_interval by (auto simp: emits_def)

lemma encode_loop_room:
  "encode_loop outLimit c = Some c' \<Longrightarrow> length (rc_out c) \<le> outLimit \<Longrightarrow> length (rc_out c') \<le> outLimit"
proof (induction outLimit c rule: encode_loop.induct)
  case (1 outLimit c)
  then show ?case
    by (cases "interval_done (rc_low c) (rc_range c)"; cases "length (rc_out c) < outLimit")
      (simp_all add: encode_loop.simps [of outLimit c])
qed

lemma encode_slot:
  assumes "ready c" "slot_ok b k t" "ENET_RANGE_CODER_ENCODE outLimit b k t c = Some c'"
  shows "emits outLimit c [(b, k, t)] c'" "rc_symbols c' = rc_symbols c" "rc_nextSymbol c' = rc_nextSymbol c"
    "rc_predicted c' = rc_predicted c"
proof -
  obtain ds l r where c': "c' = c\<lparr>rc_out := rc_out c @ ds, rc_low := l, rc_range := r\<rparr>"
    and s: "settles (rc_low (narrow b k t c)) (rc_range (narrow b k t c)) ds l r"
    using encode_symbol [OF _ _ assms(2,3)] assms(1) by auto
  then have "settles (rc_low c + b * (rc_range c div t)) (rc_range c div t * k) ds l r"
    by (simp add: narrow_def Let_def)
  then have "codes (rc_low c) (rc_range c) [(b, k, t)] (ds @ []) l r"
    using codes_Cons [OF assms(2) _ codes_Nil] by blast
  moreover have "length (rc_out c) \<le> outLimit \<longrightarrow> length (rc_out c') \<le> outLimit"
    using assms(3) encode_loop_room [of outLimit "narrow b k t c" c'] by (simp add: ENET_RANGE_CODER_ENCODE_def narrow_def Let_def)
  ultimately show "emits outLimit c [(b, k, t)] c'" "rc_symbols c' = rc_symbols c" "rc_nextSymbol c' = rc_nextSymbol c"
    "rc_predicted c' = rc_predicted c"
    using c' by (auto simp: emits_def)
qed

text \<open>The arguments of the macros, at their width.\<close>

lemma slot_words:
  assumes "cx_ok d m x" "m \<le> 1" "v \<in> vals (cx_tree x) \<or> m = 1"
  shows "ucast (of_nat (cx_escapes x) :: u16) + ucast (ucast v * of_nat m + of_nat (weight_below (cx_tree x) v) :: u16) =
      (of_nat (cx_escapes x + (unat v * m + weight_below (cx_tree x) v)) :: u32)"
    "(of_nat m + of_nat (count_of (cx_tree x) v) :: u16) = of_nat (m + count_of (cx_tree x) v)"
    "ucast (of_nat (m + count_of (cx_tree x) v) :: u16) = (of_nat (m + count_of (cx_tree x) v) :: u32)"
    "ucast (of_nat (cx_total x) :: u16) = (of_nat (cx_total x) :: u32)"
    "ucast (of_nat (cx_escapes x) :: u16) = (of_nat (cx_escapes x) :: u32)"
proof -
  note ok = cx_okD [OF assms(1)] cx_ok_count [OF assms(1), of v]
  have "unat v * m \<le> 255 * m"
    using unat_u8_less [of v] by (intro mult_le_mono1) simp
  then have small: "cx_escapes x < 65536" "unat v * m + weight_below (cx_tree x) v < 65536" "m + count_of (cx_tree x) v < 65536"
    "cx_total x < 65536"
    using ok weight_below_le [of "cx_tree x" v] assms(2) by linarith+
  have "(ucast v :: u16) = of_nat (unat v)"
    by (metis of_nat_unat)
  then have "ucast v * of_nat m + of_nat (weight_below (cx_tree x) v) = (of_nat (unat v * m + weight_below (cx_tree x) v) :: u16)"
    by simp
  then show "ucast (of_nat (cx_escapes x) :: u16) + ucast (ucast v * of_nat m + of_nat (weight_below (cx_tree x) v) :: u16) =
      (of_nat (cx_escapes x + (unat v * m + weight_below (cx_tree x) v)) :: u32)"
    using small(1,2) by (simp only: of_nat_add [of "cx_escapes x"]) (subst (1 2) ucast_of_nat_small; simp)
  show "ucast (of_nat (m + count_of (cx_tree x) v) :: u16) = (of_nat (m + count_of (cx_tree x) v) :: u32)"
    by (rule ucast_of_nat_small) (use small(3) in simp)
  show "ucast (of_nat (cx_total x) :: u16) = (of_nat (cx_total x) :: u32)"
    "ucast (of_nat (cx_escapes x) :: u16) = (of_nat (cx_escapes x) :: u32)"
    by (rule ucast_of_nat_small; use small in simp)+
qed simp

text \<open>Both directions visit a context alike: the value gets a symbol in it, whose address goes to the slot.\<close>

lemma visit:
  assumes "coder_at a A K c" "parented a K (set_option p) (rc_symbols c)" "waits a K p slot (k @ [v])" "k \<in> K"
    and "cx_ok d m (A k)" "unat \<delta> = d" "0 < d" "card (insert (k @ [v]) K) \<le> symbolCount"
  shows "\<exists>a' c1 c'. ENET_CONTEXT_ENCODE (a k) v \<delta> minimum c =
      (a' (k @ [v]), ucast v * minimum + of_nat (weight_below (cx_tree (A k)) v), minimum + of_nat (count_of (cx_tree (A k)) v), c1) \<and>
    set_parent slot (a' (k @ [v])) c1 = c' \<and>
    coder_at a' (A(k := A k\<lparr>cx_tree := bump (cx_tree (A k)) v d\<rparr>)) (insert (k @ [v]) K) c' \<and>
    parented a' (insert (k @ [v]) K) (if k @ [v] \<in> K \<or> k = [] then {} else {k @ [v]}) (rc_symbols c') \<and>
    (\<forall>x \<in> K. a' x = a x) \<and> same_coding c c' \<and>
    rc_predicted c' = (if p = None then of_nat (a' (k @ [v])) else rc_predicted c)"
proof -
  let ?W = "if k @ [v] \<in> K \<or> k = [] then {} else {k @ [v]}" and ?K = "insert (k @ [v]) K"
  let ?A = "A(k := A k\<lparr>cx_tree := bump (cx_tree (A k)) v d\<rparr>)"
  have \<delta>: "\<delta> \<noteq> 0" "count_of (cx_tree (A k)) v + unat \<delta> \<le> 255"
    using assms(6,7) cx_ok_count [OF assms(5), of v] unat_u8_less [of \<delta>] by auto
  obtain a' c1 where enc: "ENET_CONTEXT_ENCODE (a k) v \<delta> minimum c =
      (a' (k @ [v]), ucast v * minimum + of_nat (weight_below (cx_tree (A k)) v), minimum + of_nat (count_of (cx_tree (A k)) v), c1)"
    and c1: "coder_at a' ?A ?K c1" "parented a' ?K (set_option p \<union> ?W) (rc_symbols c1)" "\<forall>x \<in> K. a' x = a x" "same_coding c c1"
      "rc_predicted c1 = rc_predicted c"
    using encode_links [OF assms(1,2,4) \<delta> assms(8), of minimum] unfolding assms(6) by blast
  have "waits a' ?K p slot (k @ [v])"
    using assms(3) c1(3) by (auto simp: waits_def split: option.splits)
  note set = set_parent_links [OF c1(1,2) this insertI1]
  show ?thesis
    using enc set same_coding_trans [OF c1(4) set(3)] c1(3,5)
    by (intro exI [of _ a'] exI [of _ c1] exI [of _ "set_parent slot (a' (k @ [v])) c1"]) simp
qed

lemma encode_seen:
  assumes "coder_at a (A(k := x\<lparr>cx_tree := bump (cx_tree x) v d\<rparr>)) K c" "parented a K {} (rc_symbols c)" "k \<in> K"
    and "cx_ok d m x" "d \<le> 3" "m \<le> 1" "v \<in> vals (cx_tree x) \<or> m = 1" "unat \<delta> = d" "unat limit = 255 - 2 * d + m"
    and "ready c" "ENET_RANGE_CODER_ENCODE outLimit b n t c = Some c2" "symbol_slot m v x = (b, n, t)"
  shows "\<exists>c'. count_symbol (a k) \<delta> (of_nat m) limit (of_nat (m + count_of (cx_tree x) v)) c2 = c' \<and>
    coder_at a (A(k := cx_seen d m v x)) K c' \<and> parented a K {} (rc_symbols c') \<and> emits outLimit c [(b, n, t)] c' \<and>
    rc_predicted c' = rc_predicted c"
proof -
  have ok: "slot_ok b n t"
    using symbol_slot_ok [OF assms(4,6) _ assms(12)] assms(7) by auto
  note e = encode_slot [OF assms(10) ok assms(11)]
  have "stored a (A(k := x\<lparr>cx_tree := bump (cx_tree x) v d\<rparr>)) K (rc_symbols c2)"
    using assms(1) e(2) by (simp add: coder_at_def)
  then obtain m' where m': "count_symbol (a k) \<delta> (of_nat m) limit (of_nat (m + count_of (cx_tree x) v)) c2 = c2\<lparr>rc_symbols := m'\<rparr>"
    "stored a (A(k := cx_seen d m v x)) K m'" "\<forall>i. sy_parent (m' i) = sy_parent (rc_symbols c2 i)"
    using seen_stored [OF _ assms(3-6,8,9)] by blast
  have "emits outLimit c [(b, n, t)] (c2\<lparr>rc_symbols := m'\<rparr>)"
    using emits_trans [OF e(1) emits_none [OF same_coding_symbols]] by simp
  then show ?thesis
    using m' e assms(1,2) by (auto simp: coder_at_def parented_def)
qed

text \<open>The strings with a symbol once the value was coded from the context of \<open>k\<close> on.\<close>

definition reached :: "key \<Rightarrow> u8 \<Rightarrow> (key \<Rightarrow> cx) \<Rightarrow> key set \<Rightarrow> key set" where
  "reached k v A K = K \<union> (\<lambda>x. x @ [v]) ` visited k v A"

lemma reached_simps:
  "reached [] v A K = insert [v] K"
  "has A (b # k) v \<Longrightarrow> reached (b # k) v A K = insert ((b # k) @ [v]) K"
  "\<not> has A (b # k) v \<Longrightarrow> reached (b # k) v A K = reached k v (A(b # k := y)) (insert ((b # k) @ [v]) K)"
  by (auto simp: reached_def longer_untouched)

lemma coder_at_fields:
  assumes "coder_at a A K c" "k \<in> K"
  shows "sy_escapes (rc_symbols c (a k)) = of_nat (cx_escapes (A k))" "sy_total (rc_symbols c (a k)) = of_nat (cx_total (A k))"
  using assms storedD(11) by (auto simp: coder_at_def context_at_def)

lemma coder_at_addresses:
  assumes "coder_at a A K c" "k \<in> K"
  shows "a [] = 0" "a k = 0 \<longleftrightarrow> k = []" "unat (of_nat (a k) :: u16) = a k" "a k < symbolCount"
    "k @ [v] \<in> K \<longleftrightarrow> v \<in> vals (cx_tree (A k))"
proof -
  have st: "stored a A K (rc_symbols c)"
    using assms(1) by (simp add: coder_at_def)
  show "a [] = 0"
    using storedD(5) [OF st] .
  then show "a k = 0 \<longleftrightarrow> k = []"
    using stored_eq [OF st assms(2) storedD(2) [OF st]] by simp
  show "unat (of_nat (a k) :: u16) = a k" "a k < symbolCount"
    using stored_less [OF st assms(2)] by (auto intro: unat_of_nat_small)
  show "k @ [v] \<in> K \<longleftrightarrow> v \<in> vals (cx_tree (A k))"
    using storedD(7) [OF st] assms(2) by simp
qed

lemma card_insert_less: "finite K \<Longrightarrow> card K < n \<Longrightarrow> card (insert x K) \<le> n"
  by (simp add: card_insert_if)

lemma coder_at_finite: "coder_at a A K c \<Longrightarrow> finite K"
  by (simp add: coder_at_def stored_def)

text \<open>What the loop over the contexts does, unless the output is full.\<close>

definition learnt ::
  "(key \<Rightarrow> nat) \<Rightarrow> (key \<Rightarrow> cx) \<Rightarrow> key set \<Rightarrow> key option \<Rightarrow> key \<Rightarrow> u8 \<Rightarrow> 'a ENetRangeCoder_scheme \<Rightarrow> 'a ENetRangeCoder_scheme \<Rightarrow> bool"
  where
  "learnt a A K p k v c c' \<longleftrightarrow>
     (\<exists>a'. coder_at a' (learn k v A) (reached k v A K) c' \<and> parented a' (reached k v A K) {} (rc_symbols c') \<and>
       (\<forall>x \<in> K. a' x = a x) \<and> rc_predicted c' = (if p = None then of_nat (a' (k @ [v])) else rc_predicted c))"

lemma learnt_missed:
  assumes "\<not> has A (b # k) v"
    and "learnt a' (A(b # k := cx_missed v (A (b # k)))) (insert ((b # k) @ [v]) K) (Some x) k v c1 c'" "\<forall>x \<in> K. a' x = a x"
    and "rc_predicted c1 = (if p = None then of_nat (a' ((b # k) @ [v])) else rc_predicted c)"
  shows "learnt a A K p (b # k) v c c'"
proof -
  let ?B = "A(b # k := cx_missed v (A (b # k)))" and ?K = "insert ((b # k) @ [v]) K"
  obtain a2 where a2: "coder_at a2 (learn k v ?B) (reached k v ?B ?K) c'" "parented a2 (reached k v ?B ?K) {} (rc_symbols c')"
    "\<forall>x \<in> ?K. a2 x = a' x" "rc_predicted c' = rc_predicted c1"
    using assms(2) by (auto simp: learnt_def)
  have eq: "learn (b # k) v A = learn k v ?B" "reached (b # k) v A K = reached k v ?B ?K"
    using assms(1) reached_simps(3) [where A = A and b = b and k = k and v = v, OF assms(1)]
    by (simp_all only: learn.simps if_False)
  have "\<forall>x \<in> K. a2 x = a x" "a2 ((b # k) @ [v]) = a' ((b # k) @ [v])"
    using a2(3) assms(3) by simp_all
  then show ?thesis
    unfolding learnt_def eq using a2(1,2,4) assms(4) by (intro exI [of _ a2]) (simp only: simp_thms)
qed

lemma encode_root_learns:
  assumes "coder_at a A K c" "parented a K (set_option p) (rc_symbols c)" "waits a K p slot [v]" "[] \<in> K" "model_ok A"
    and "card K < symbolCount" "ready c"
  shows "\<exists>r. encode_contexts outLimit v 0 slot c = Some r \<and>
    (\<forall>c'. r = Some c' \<longrightarrow> learnt a A K p [] v c c' \<and> emits outLimit c (slots [] v A) c')"
proof -
  let ?x = "A []" and ?K = "insert [v] K"
  note ok = model_okD(1) [OF assms(5)]
  have card: "card (insert ([] @ [v]) K) \<le> symbolCount"
    using card_insert_less [OF coder_at_finite [OF assms(1)] assms(6)] by simp
  obtain a' c1 c2 where enc: "ENET_CONTEXT_ENCODE (a []) v 3 1 c =
      (a' ([] @ [v]), ucast v * 1 + of_nat (weight_below (cx_tree ?x) v), 1 + of_nat (count_of (cx_tree ?x) v), c1)"
    "set_parent slot (a' ([] @ [v])) c1 = c2"
    and at: "coder_at a' (A([] := ?x\<lparr>cx_tree := bump (cx_tree ?x) v 3\<rparr>)) (insert ([] @ [v]) K) c2"
    and link: "parented a' (insert ([] @ [v]) K) (if [] @ [v] \<in> K \<or> [] = ([] :: key) then {} else {[] @ [v]}) (rc_symbols c2)"
    and same: "\<forall>x \<in> K. a' x = a x" "same_coding c c2" "rc_predicted c2 = (if p = None then of_nat (a' ([] @ [v])) else rc_predicted c)"
    using visit [OF assms(1,2) _ assms(4) ok _ _ card, of slot 3 1] assms(3) by auto
  have root: "a [] = 0" "a' [] = 0"
    using coder_at_addresses(1) [OF assms(1,4)] same(1) assms(4) by simp_all
  have fields: "sy_escapes (rc_symbols c2 0) = of_nat (cx_escapes ?x)" "sy_total (rc_symbols c2 0) = of_nat (cx_total ?x)"
    using coder_at_fields [OF at, of "[]"] root assms(4) by simp_all
  obtain b n t where slot: "symbol_slot 1 v ?x = (b, n, t)" by (cases "symbol_slot 1 v ?x") auto
  have words: "ucast (of_nat (cx_escapes ?x) :: u16) + ucast (ucast v * 1 + of_nat (weight_below (cx_tree ?x) v) :: u16) = b"
    "(1 + of_nat (count_of (cx_tree ?x) v) :: u16) = of_nat (1 + count_of (cx_tree ?x) v)"
    "ucast (of_nat (1 + count_of (cx_tree ?x) v) :: u16) = n" "ucast (of_nat (cx_total ?x) :: u16) = t"
    using slot_words [OF ok, of v] slot by (simp_all only: of_nat_1 symbol_slot_def prod.inject) auto
  have "encode_contexts outLimit v 0 slot c = Some (encode_root outLimit v slot c)"
    by (simp add: encode_contexts.simps [of outLimit v 0])
  also have "encode_root outLimit v slot c =
      map_option (count_root (of_nat (1 + count_of (cx_tree ?x) v))) (ENET_RANGE_CODER_ENCODE outLimit b n t c2)"
    by (simp only: encode_root_def Let_def enc(1) [unfolded root] enc(2) prod.case fields words)
  finally have "encode_contexts outLimit v 0 slot c =
      Some (map_option (count_root (of_nat (1 + count_of (cx_tree ?x) v))) (ENET_RANGE_CODER_ENCODE outLimit b n t c2))" .
  moreover have "learnt a A K p [] v c c' \<and> emits outLimit c (slots [] v A) c'"
    if res: "map_option (count_root (of_nat (1 + count_of (cx_tree ?x) v))) (ENET_RANGE_CODER_ENCODE outLimit b n t c2) = Some c'" for c'
  proof -
    obtain c3 where c3: "ENET_RANGE_CODER_ENCODE outLimit b n t c2 = Some c3" "c' = count_root (of_nat (1 + count_of (cx_tree ?x) v)) c3"
      using res by auto
    have "ready c2"
      using emits_ready [OF emits_none [OF same(2)] assms(7)] .
    then have "coder_at a' (A([] := cx_seen 3 1 v ?x)) ?K c' \<and> parented a' ?K {} (rc_symbols c') \<and> emits outLimit c2 [(b, n, t)] c' \<and>
        rc_predicted c' = rc_predicted c2"
      using encode_seen [OF at _ _ ok _ _ _ _ _ _ c3(1) slot, of 3 "0xFF - 2 * 3 + 1"] link assms(4) root c3(2) by auto
    then show ?thesis
      using same slot emits_trans [OF emits_none [OF same(2)], where ts = "[(b, n, t)]" and c'' = c']
      by (auto simp: learnt_def reached_simps)
  qed
  ultimately show ?thesis by blast
qed

lemma count_word: "cx_ok d m x \<Longrightarrow> 0 < (of_nat (count_of (cx_tree x) v) :: u16) \<longleftrightarrow> v \<in> vals (cx_tree x)"
proof (cases "v \<in> vals (cx_tree x)")
  case True
  assume ok: "cx_ok d m x"
  have "0 < count_of (cx_tree x) v" "count_of (cx_tree x) v < 65536"
    using count_of_pos [OF cx_okD(4) [OF ok] True cx_okD(3) [OF ok]] by auto
  then show ?thesis
    using True by (simp add: word_less_nat_alt unat_of_nat_small)
qed (simp add: count_of_0)

lemma escape_words:
  assumes "cx_ok d m x"
  shows "(of_nat (cx_escapes x) :: u16) > 0 \<and> (of_nat (cx_escapes x) :: u16) < of_nat (cx_total x) \<longleftrightarrow>
    0 < cx_escapes x \<and> cx_escapes x < cx_total x"
proof -
  have "cx_escapes x < 65536" "cx_total x < 65536"
    using cx_okD(1,2) [OF assms] by linarith+
  then show ?thesis
    by (auto simp: word_less_nat_alt unat_of_nat_small)
qed

lemma encode_escape:
  assumes "coder_at a A K c" "k \<in> K" "cx_ok 2 0 x" "cx_escapes (A k) = cx_escapes x" "cx_total (A k) = cx_total x" "ready c"
  shows "(let s = rc_symbols c (a k)
      in if sy_escapes s > 0 \<and> sy_escapes s < sy_total s
         then ENET_RANGE_CODER_ENCODE outLimit 0 (ucast (sy_escapes s)) (ucast (sy_total s)) c else Some c) = Some c2 \<Longrightarrow>
    emits outLimit c (escape_slots x) c2 \<and> rc_symbols c2 = rc_symbols c \<and> rc_nextSymbol c2 = rc_nextSymbol c \<and>
    rc_predicted c2 = rc_predicted c"
proof -
  have words: "ucast (of_nat (cx_total x) :: u16) = (of_nat (cx_total x) :: u32)"
    "ucast (of_nat (cx_escapes x) :: u16) = (of_nat (cx_escapes x) :: u32)"
    by (rule ucast_of_nat_small; use cx_okD(1,2) [OF assms(3)] in simp)+
  assume "(let s = rc_symbols c (a k)
      in if sy_escapes s > 0 \<and> sy_escapes s < sy_total s
         then ENET_RANGE_CODER_ENCODE outLimit 0 (ucast (sy_escapes s)) (ucast (sy_total s)) c else Some c) = Some c2"
  then have run: "(if 0 < cx_escapes x \<and> cx_escapes x < cx_total x
      then ENET_RANGE_CODER_ENCODE outLimit 0 (of_nat (cx_escapes x)) (of_nat (cx_total x)) c else Some c) = Some c2"
    unfolding coder_at_fields [OF assms(1,2)] assms(4,5) Let_def escape_words [OF assms(3)] words .
  show ?thesis
  proof (cases "0 < cx_escapes x \<and> cx_escapes x < cx_total x")
    case True
    have "slot_ok 0 (of_nat (cx_escapes x)) (of_nat (cx_total x))"
      using escape_slots_ok [OF assms(3)] True by (auto simp: escape_slots_def)
    then show ?thesis
      using encode_slot [OF assms(6)] run True by (simp add: escape_slots_def)
  next
    case False
    then have "c2 = c" "escape_slots x = []"
      using run by (auto simp: escape_slots_def)
    then show ?thesis
      using emits_none [of c c] same_coding_symbols [of c "rc_symbols c"] by simp
  qed
qed

lemma encode_contexts_learns:
  assumes "coder_at a A K c" "parented a K (set_option p) (rc_symbols c)" "waits a K p slot (k @ [v])" "k \<in> K" "model_ok A"
    and "card K + length k < symbolCount" "ready c"
  shows "\<exists>r. encode_contexts outLimit v (a k) slot c = Some r \<and>
    (\<forall>c'. r = Some c' \<longrightarrow> learnt a A K p k v c c' \<and> emits outLimit c (slots k v A) c')"
  using assms
proof (induction k arbitrary: a A K p slot c)
  case Nil
  then show ?case
    using encode_root_learns [OF Nil(1,2), of slot v outLimit] coder_at_addresses(1) [OF Nil(1,4)] by simp
next
  case (Cons b k)
  let ?k = "b # k" let ?x = "A ?k" and ?K = "insert (?k @ [v]) K"
  let ?A = "A(?k := ?x\<lparr>cx_tree := bump (cx_tree ?x) v 2\<rparr>)"
  note ok = model_okD(2) [OF Cons.prems(5), of b k]
  have fin: "finite K"
    using coder_at_finite [OF Cons.prems(1)] .
  have card: "card ?K \<le> symbolCount"
    using card_insert_less [OF fin, of symbolCount] Cons.prems(6) by simp
  obtain a' c1 c2 where enc: "ENET_CONTEXT_ENCODE (a ?k) v 2 0 c =
      (a' (?k @ [v]), ucast v * 0 + of_nat (weight_below (cx_tree ?x) v), 0 + of_nat (count_of (cx_tree ?x) v), c1)"
    "set_parent slot (a' (?k @ [v])) c1 = c2"
    and at: "coder_at a' ?A ?K c2"
    and link: "parented a' ?K (if ?k @ [v] \<in> K \<or> ?k = [] then {} else {?k @ [v]}) (rc_symbols c2)"
    and same: "\<forall>x \<in> K. a' x = a x" "same_coding c c2" "rc_predicted c2 = (if p = None then of_nat (a' (?k @ [v])) else rc_predicted c)"
    using visit [OF Cons.prems(1-4) ok _ _ card, of 2 0] by auto
  have k: "?k \<in> ?K" "a ?k \<noteq> 0" "a' ?k = a ?k" "(?k @ [v] \<in> K) = has A ?k v"
    using Cons.prems(4) same(1) coder_at_addresses(2,5) [OF Cons.prems(1,4)] by simp_all
  have fields: "sy_escapes (rc_symbols c2 (a ?k)) = of_nat (cx_escapes ?x)" "sy_total (rc_symbols c2 (a ?k)) = of_nat (cx_total ?x)"
    using coder_at_fields [OF at k(1)] unfolding k(3) by simp_all
  have ready: "ready c2"
    using emits_ready [OF emits_none [OF same(2)] Cons.prems(7)] .
  let ?cnt = "of_nat (count_of (cx_tree ?x) v) :: u16"
  note cnt = count_word [OF ok, of v]
  show ?case
  proof (cases "has A ?k v")
    case True
    obtain b' n t where slot: "symbol_slot 0 v ?x = (b', n, t)" by (cases "symbol_slot 0 v ?x") auto
    have words: "ucast (of_nat (cx_escapes ?x) :: u16) + ucast (ucast v * 0 + of_nat (weight_below (cx_tree ?x) v) :: u16) = b'"
      "(0 + of_nat (count_of (cx_tree ?x) v) :: u16) = of_nat (count_of (cx_tree ?x) v)"
      "ucast (of_nat (count_of (cx_tree ?x) v) :: u16) = n" "ucast (of_nat (cx_total ?x) :: u16) = t"
      using slot_words [OF ok, of v] slot True by (simp_all only: of_nat_0 symbol_slot_def prod.inject add_0) auto
    have run: "encode_contexts outLimit v (a ?k) slot c =
        Some (map_option (count_subcontext (a ?k) ?cnt) (ENET_RANGE_CODER_ENCODE outLimit b' n t c2))"
      using k(2) cnt True
      by (simp only: encode_contexts.simps [of outLimit v "a ?k"] Let_def enc prod.case fields words if_False if_True)
    have "learnt a A K p ?k v c c' \<and> emits outLimit c (slots ?k v A) c'"
      if res: "map_option (count_subcontext (a ?k) ?cnt) (ENET_RANGE_CODER_ENCODE outLimit b' n t c2) = Some c'" for c'
    proof -
      obtain c3 where c3: "ENET_RANGE_CODER_ENCODE outLimit b' n t c2 = Some c3" "c' = count_subcontext (a ?k) ?cnt c3"
        using res by auto
      have "coder_at a' (A(?k := cx_seen 2 0 v ?x)) ?K c' \<and> parented a' ?K {} (rc_symbols c') \<and> emits outLimit c2 [(b', n, t)] c' \<and>
          rc_predicted c' = rc_predicted c2"
        using encode_seen [OF at _ k(1) ok _ _ _ _ _ ready c3(1) slot, of 2 "0xFF - 2 * 2"] link True k c3(2) by auto
      then show ?thesis
        using same slot True emits_trans [OF emits_none [OF same(2)], where ts = "[(b', n, t)]" and c'' = c']
        by (auto simp: learnt_def reached_simps)
    qed
    then show ?thesis
      using run by blast
  next
    case False
    let ?E = "let s = rc_symbols c2 (a ?k)
      in if sy_escapes s > 0 \<and> sy_escapes s < sy_total s
         then ENET_RANGE_CODER_ENCODE outLimit 0 (ucast (sy_escapes s)) (ucast (sy_total s)) c2 else Some c2"
    have none: "?k @ [v] \<notin> K" "0 + ?cnt = 0" "\<not> 0 < 0 + ?cnt"
      using False k(4) count_of_0 [OF False] by simp_all
    have run: "encode_contexts outLimit v (a ?k) slot c =
        (case ?E of None \<Rightarrow> Some None
         | Some c \<Rightarrow> let c = count_subcontext (a ?k) 0 (count_escape (a ?k) c)
             in encode_contexts outLimit v (unat (sy_parent (rc_symbols c (a ?k)))) (ParentOf (a' (?k @ [v]))) c)"
      using k(2) none
      by (simp only: encode_contexts.simps [of outLimit v "a ?k"] Let_def enc prod.case if_False)
    show ?thesis
    proof (cases ?E)
      case None
      then show ?thesis
        using run by simp
    next
      case (Some c3)
      have "emits outLimit c2 (escape_slots ?x) c3 \<and> rc_symbols c3 = rc_symbols c2 \<and> rc_nextSymbol c3 = rc_nextSymbol c2 \<and>
          rc_predicted c3 = rc_predicted c2"
        by (rule encode_escape [OF at k(1) ok _ _ ready, of outLimit, unfolded k(3), OF _ _ Some]) simp_all
      then have e: "emits outLimit c2 (escape_slots ?x) c3" "rc_symbols c3 = rc_symbols c2" "rc_nextSymbol c3 = rc_nextSymbol c2"
        "rc_predicted c3 = rc_predicted c2" by simp_all
      have st: "stored a' ?A ?K (rc_symbols c3)"
        using at e(2) by (simp add: coder_at_def)
      obtain m where m: "count_subcontext (a ?k) 0 (count_escape (a ?k) c3) = c3\<lparr>rc_symbols := m\<rparr>"
        "stored a' (A(?k := cx_missed v ?x)) ?K m" "\<forall>i. sy_parent (m i) = sy_parent (rc_symbols c3 i)"
        using missed_stored [OF st k(1) ok, unfolded k(3)] by blast
      let ?B = "A(?k := cx_missed v ?x)" and ?c = "c3\<lparr>rc_symbols := m\<rparr>"
      have at': "coder_at a' ?B ?K ?c"
        using m(2) at e(3) by (simp add: coder_at_def)
      have link': "parented a' ?K (set_option (Some (?k @ [v]))) (rc_symbols ?c)"
        using link m(3) e(2) none(1) by (simp add: parented_def)
      have parent: "k \<in> K" "unat (sy_parent (rc_symbols ?c (a ?k))) = a' k"
      proof -
        have "?k \<notin> set_option p"
          using Cons.prems(3) by (auto simp: waits_def)
        then show "k \<in> K"
          using parentedD(1) [OF Cons.prems(2,4)] by simp
        have "sy_parent (rc_symbols ?c (a' ?k)) = of_nat (a' k)"
          by (rule parentedD(2) [OF link' k(1)]) simp
        then show "unat (sy_parent (rc_symbols ?c (a ?k))) = a' k"
          using coder_at_addresses(3) [OF at', of k] \<open>k \<in> K\<close> k(3) by simp
      qed
      have emitted: "emits outLimit c (escape_slots ?x) ?c"
        using emits_trans [OF emits_trans [OF emits_none [OF same(2)] e(1)] emits_none [OF same_coding_symbols]] by simp
      have "waits a' ?K (Some (?k @ [v])) (ParentOf (a' (?k @ [v]))) (k @ [v])"
        by (simp add: waits_def)
      moreover have "model_ok ?B"
        using model_ok_upd [OF Cons.prems(5) cx_missed_ok [OF ok False]] .
      moreover have "card ?K + length k < symbolCount"
        using Cons.prems(6) fin by (simp add: card_insert_if)
      ultimately obtain r where r: "encode_contexts outLimit v (a' k) (ParentOf (a' (?k @ [v]))) ?c = Some r"
        "\<And>c'. r = Some c' \<Longrightarrow> learnt a' ?B ?K (Some (?k @ [v])) k v ?c c' \<and> emits outLimit ?c (slots k v ?B) c'"
        using Cons.IH [OF at' link', of "ParentOf (a' (?k @ [v]))"] parent(1) emits_ready [OF emitted Cons.prems(7)] by blast
      have "learnt a A K p ?k v c c' \<and> emits outLimit c (slots ?k v A) c'" if res: "r = Some c'" for c'
      proof -
        have "learnt a A K p ?k v c c'"
        proof (rule learnt_missed [where A = A and a' = a' and ?c1.0 = ?c])
          show "learnt a' ?B ?K (Some (?k @ [v])) k v ?c c'"
            using r(2) [OF res] by (rule conjunct1)
          show "rc_predicted ?c = (if p = None then of_nat (a' (?k @ [v])) else rc_predicted c)"
            using e(4) same(3) by simp
        qed (fact False same(1))+
        moreover have "slots k v ?B = slots k v A"
          by (simp add: longer_untouched)
        ultimately show ?thesis
          using r(2) [OF res] False emits_trans [OF emitted] by simp
      qed
      then show ?thesis
        using run Some r(1) m(1) parent(2) by simp
    qed
  qed
qed

section \<open>Decoding an escape\<close>

lemma reading_range: "(reading bs c)\<lparr>rc_range := q\<rparr> = reading bs (c\<lparr>rc_range := q\<rparr>)"
  by (simp add: reading_def)

lemma read_slot:
  assumes "ready c" "slot_ok b n t" "within (rc_low c + b * (rc_range c div t)) (rc_range c div t * n) (code_of bs)"
  shows "\<exists>code. ENET_RANGE_CODER_READ t (reading bs c) = (code, reading bs (c\<lparr>rc_range := rc_range c div t\<rparr>)) \<and>
    unat b \<le> unat code \<and> unat code < unat b + unat n"
  using read_symbol [of "reading bs c" b n t] assms by (simp add: reading_range)

lemma settle_slot:
  assumes "settles (rc_low c + b * (rc_range c div t)) (rc_range c div t * n) ds l r"
    and "same_coding (c\<lparr>rc_range := rc_range c div t\<rparr>) e"
  shows "ENET_RANGE_CODER_DECODE b n (reading bs e) = Some (reading (drop (length ds) bs) (e\<lparr>rc_low := l, rc_range := r\<rparr>))"
  by (rule decode_symbol) (use assms(1) same_codingD [OF assms(2)] in simp)

lemma decode_escape:
  assumes "coder_at a A K c" "parented a K {} (rc_symbols c)" "b # k \<in> K" "cx_ok 2 0 (A (b # k))" "ready c"
    and "decodes (rc_low c) (rc_range c) (escape_slots (A (b # k)) @ ss) bs l r bs'"
  shows "\<exists>l1 r1 bs1. decode_contexts (a (b # k)) (reading bs c) = decode_contexts (a k) (reading bs1 (c\<lparr>rc_low := l1, rc_range := r1\<rparr>)) \<and>
    decodes l1 r1 ss bs1 l r bs' \<and> interval l1 r1 \<and> interval_done l1 r1"
proof -
  let ?x = "A (b # k)" and ?s = "rc_symbols c (a (b # k))"
  note fields = coder_at_fields [OF assms(1,3)] and words = escape_words [OF assms(4)]
  have parent: "unat (sy_parent ?s) = a k"
    using parentedD [OF assms(2,3)] coder_at_addresses(3) [OF assms(1), of k] by simp
  have nonzero: "a (b # k) \<noteq> 0"
    using coder_at_addresses(2) [OF assms(1,3)] by simp
  show ?thesis
  proof (cases "0 < cx_escapes ?x \<and> cx_escapes ?x < cx_total ?x")
    case False
    then have "sy_escapes ?s = 0 \<or> sy_escapes ?s \<ge> sy_total ?s"
      using words unfolding fields by (auto simp: not_less word_neq_0_conv)
    then have "decode_contexts (a (b # k)) (reading bs c) = decode_contexts (a k) (reading bs c)"
      using nonzero parent by (simp add: decode_contexts.simps [of "a (b # k)"])
    moreover have "escape_slots ?x = []"
      using False by (auto simp: escape_slots_def)
    ultimately show ?thesis
      using assms(5,6) by - (rule exI [of _ "rc_low c"], rule exI [of _ "rc_range c"], rule exI [of _ bs], simp)
  next
    case True
    have slot: "escape_slots ?x = [(0, of_nat (cx_escapes ?x), of_nat (cx_total ?x))]"
      using True by (simp add: escape_slots_def)
    obtain ds l1 r1 where d: "slot_ok 0 (of_nat (cx_escapes ?x)) (of_nat (cx_total ?x))"
      "within (rc_low c + 0 * (rc_range c div of_nat (cx_total ?x))) (rc_range c div of_nat (cx_total ?x) * of_nat (cx_escapes ?x)) (code_of bs)"
      "settles (rc_low c + 0 * (rc_range c div of_nat (cx_total ?x))) (rc_range c div of_nat (cx_total ?x) * of_nat (cx_escapes ?x)) ds l1 r1"
      "decodes l1 r1 ss (drop (length ds) bs) l r bs'"
      using assms(6) unfolding slot append_Cons append_Nil by (rule decodes_ConsE) blast
    obtain code where code: "ENET_RANGE_CODER_READ (of_nat (cx_total ?x)) (reading bs c) =
        (code, reading bs (c\<lparr>rc_range := rc_range c div of_nat (cx_total ?x)\<rparr>))"
      "unat code < unat (of_nat (cx_escapes ?x) :: u32)"
      using read_slot [OF assms(5) d(1,2)] by auto
    have small: "cx_escapes ?x < 65536" "cx_total ?x < 65536"
      using cx_okD(1,2) [OF assms(4)] by linarith+
    have ucasts: "ucast (of_nat (cx_total ?x) :: u16) = (of_nat (cx_total ?x) :: u32)"
      "ucast (of_nat (cx_escapes ?x) :: u16) = (of_nat (cx_escapes ?x) :: u32)"
      by (rule ucast_of_nat_small; use small in simp)+
    have below: "code < of_nat (cx_escapes ?x)"
      using code(2) small(1) by (simp add: word_less_nat_alt unat_of_nat_small)
    have unskipped: "\<not> ((of_nat (cx_escapes ?x) :: u16) = 0 \<or> (of_nat (cx_escapes ?x) :: u16) \<ge> of_nat (cx_total ?x))"
      using True words by auto
    have settle: "ENET_RANGE_CODER_DECODE 0 (of_nat (cx_escapes ?x)) (reading bs (c\<lparr>rc_range := rc_range c div of_nat (cx_total ?x)\<rparr>)) =
        Some (reading (drop (length ds) bs) (c\<lparr>rc_low := l1, rc_range := r1\<rparr>))"
      using settle_slot [OF d(3), of _ bs] same_coding_symbols [of "c\<lparr>rc_range := rc_range c div of_nat (cx_total ?x)\<rparr>" "rc_symbols c"]
      by simp
    have "decode_contexts (a (b # k)) (reading bs c) = decode_contexts (a k) (reading (drop (length ds) bs) (c\<lparr>rc_low := l1, rc_range := r1\<rparr>))"
      using nonzero parent unskipped below
      by (simp only: decode_contexts.simps [of "a (b # k)"] Let_def reading_simps fields ucasts code(1) settle prod.case option.case
          if_False if_True)
    moreover have "interval l1 r1 \<and> interval_done l1 r1"
      using settles_interval [OF d(3) narrowed_interval(1)] assms(5) d(1) by blast
    ultimately show ?thesis
      using d(4) by blast
  qed
qed

section \<open>The end of the output\<close>

text \<open>The escapes of all contexts of the string: that of the root ends the output.\<close>

fun end_slots :: "key \<Rightarrow> (key \<Rightarrow> cx) \<Rightarrow> slots" where
  "end_slots [] A = [(0, of_nat (cx_escapes (A [])), of_nat (cx_total (A [])))]"
| "end_slots (b # k) A = escape_slots (A (b # k)) @ end_slots k A"

lemma root_escape_ok: "cx_ok 3 1 x \<Longrightarrow> slot_ok 0 (of_nat (cx_escapes x)) (of_nat (cx_total x))"
  using slot_of_nat [of "cx_escapes x" 0 "cx_total x"] by (auto simp: cx_ok_def)

lemma end_slots_ok: "model_ok A \<Longrightarrow> (b, n, t) \<in> set (end_slots k A) \<Longrightarrow> b = 0 \<and> slot_ok b n t"
proof (induction k)
  case Nil
  then show ?case
    using root_escape_ok [OF model_okD(1)] by simp
next
  case (Cons b k)
  then show ?case
    using escape_slots_ok [OF model_okD(2)] by auto
qed

text \<open>What the root reads, and the two ways from there.\<close>

lemma root_reads:
  assumes "coder_at a A K c" "[] \<in> K" "cx_ok 3 1 (A [])" "ready c" "slot_ok b n (of_nat (cx_total (A [])))"
    and "within (rc_low c + b * (rc_range c div of_nat (cx_total (A [])))) (rc_range c div of_nat (cx_total (A [])) * n) (code_of bs)"
  shows "\<exists>code. ENET_RANGE_CODER_READ (ucast (sy_total (rc_symbols (reading bs c) 0))) (reading bs c) =
      (code, reading bs (c\<lparr>rc_range := rc_range c div of_nat (cx_total (A []))\<rparr>)) \<and>
    unat b \<le> unat code \<and> unat code < unat b + unat n \<and>
    sy_escapes (rc_symbols (reading bs c) 0) = of_nat (cx_escapes (A []))"
proof -
  have "ucast (of_nat (cx_total (A [])) :: u16) = (of_nat (cx_total (A [])) :: u32)"
    by (rule ucast_of_nat_small) (use cx_okD(2) [OF assms(3)] in simp)
  then show ?thesis
    using read_slot [OF assms(4-6)] coder_at_fields [OF assms(1,2)] coder_at_addresses(1) [OF assms(1,2)] by simp
qed

lemma decode_contexts_finish:
  assumes "coder_at a A K c" "parented a K {} (rc_symbols c)" "k \<in> K" "model_ok A" "ready c"
    and "decodes (rc_low c) (rc_range c) (end_slots k A) bs l r bs'"
  shows "\<exists>c'. decode_contexts (a k) (reading bs c) = Some (Inr (Finished, c')) \<and> rc_out c' = rc_out c \<and> rc_fault c' = rc_fault c"
  using assms
proof (induction k arbitrary: c bs)
  case Nil
  let ?x = "A []"
  note ok = model_okD(1) [OF Nil.prems(4)]
  have root: "a [] = 0"
    using coder_at_addresses(1) [OF Nil.prems(1,3)] .
  obtain ds l1 r1 where d: "slot_ok 0 (of_nat (cx_escapes ?x)) (of_nat (cx_total ?x))"
    "within (rc_low c + 0 * (rc_range c div of_nat (cx_total ?x))) (rc_range c div of_nat (cx_total ?x) * of_nat (cx_escapes ?x)) (code_of bs)"
    "settles (rc_low c + 0 * (rc_range c div of_nat (cx_total ?x))) (rc_range c div of_nat (cx_total ?x) * of_nat (cx_escapes ?x)) ds l1 r1"
    using Nil.prems(6) unfolding end_slots.simps by (rule decodes_ConsE) blast
  let ?c = "c\<lparr>rc_range := rc_range c div of_nat (cx_total ?x)\<rparr>"
  obtain code where code: "ENET_RANGE_CODER_READ (ucast (sy_total (rc_symbols (reading bs c) 0))) (reading bs c) = (code, reading bs ?c)"
    "unat code < unat (of_nat (cx_escapes ?x) :: u32)" "sy_escapes (rc_symbols (reading bs c) 0) = of_nat (cx_escapes ?x)"
    using root_reads [OF Nil.prems(1,3) ok Nil.prems(5) d(1,2)] by auto
  have small: "cx_escapes ?x < 65536"
    using cx_okD(1,2) [OF ok] by linarith
  have below: "code < of_nat (cx_escapes ?x)"
    using code(2) small by (simp add: word_less_nat_alt unat_of_nat_small)
  have "ENET_RANGE_CODER_DECODE 0 (ucast (of_nat (cx_escapes ?x) :: u16)) (reading bs ?c) =
      Some (reading (drop (length ds) bs) (?c\<lparr>rc_low := l1, rc_range := r1\<rparr>))"
    using settle_slot [OF d(3) same_coding_symbols, of bs "rc_symbols c"] small by (simp add: ucast_of_nat_small)
  then have "decode_root (reading bs c) = Some (Finished, reading (drop (length ds) bs) (?c\<lparr>rc_low := l1, rc_range := r1\<rparr>))"
    using below by (simp only: decode_root_def Let_def code(1,3) prod.case if_True option.map)
  then show ?case
    using root by (simp add: decode_contexts.simps [of 0])
next
  case (Cons b k)
  obtain l1 r1 bs1 where step: "decode_contexts (a (b # k)) (reading bs c) = decode_contexts (a k) (reading bs1 (c\<lparr>rc_low := l1, rc_range := r1\<rparr>))"
    "decodes l1 r1 (end_slots k A) bs1 l r bs'" "interval l1 r1" "interval_done l1 r1"
    using decode_escape [OF Cons.prems(1-3) model_okD(2) [OF Cons.prems(4)] Cons.prems(5,6) [unfolded end_slots.simps]] by blast
  have "coder_at a A K (c\<lparr>rc_low := l1, rc_range := r1\<rparr>)"
    using Cons.prems(1) by (simp add: coder_at_def)
  then show ?case
    using Cons.IH [of "c\<lparr>rc_low := l1, rc_range := r1\<rparr>" bs1] parentedD(1) [OF Cons.prems(2,3)] Cons.prems(2,4) step by simp
qed

section \<open>Decoding a value\<close>

inductive_simps decodes_Nil_iff: "decodes low rng [] bs l r bs'"

lemma slot_code:
  assumes "cx_ok d m x" "m \<le> 1" "v \<in> vals (cx_tree x) \<or> m = 1" "symbol_slot m v x = (b, n, t)"
    and "unat b \<le> unat code" "unat code < unat b + unat n"
  shows "\<not> code < (of_nat (cx_escapes x) :: u16)" "in_slot m (cx_tree x) 0 v (unat (code - of_nat (cx_escapes x)))"
proof -
  note ok = cx_okD [OF assms(1)] cx_ok_count [OF assms(1), of v]
  have "unat v * m \<le> 255 * m"
    using unat_u8_less [of v] by (intro mult_le_mono1) simp
  then have small: "cx_escapes x < 65536" "cx_escapes x + (unat v * m + weight_below (cx_tree x) v) < 4294967296" "m + count_of (cx_tree x) v < 4294967296"
    using ok weight_below_le [of "cx_tree x" v] assms(2) by linarith+
  have bn: "b = of_nat (cx_escapes x + (unat v * m + weight_below (cx_tree x) v))" "n = of_nat (m + count_of (cx_tree x) v)"
    using assms(4) by (simp_all only: symbol_slot_def prod.inject)
  have "unat b = cx_escapes x + (unat v * m + weight_below (cx_tree x) v)" "unat n = m + count_of (cx_tree x) v"
    unfolding bn by (rule unat_of_nat_small; use small in simp)+
  then have code: "cx_escapes x + (unat v * m + weight_below (cx_tree x) v) \<le> unat code"
    "unat code < cx_escapes x + (unat v * m + weight_below (cx_tree x) v) + (m + count_of (cx_tree x) v)"
    using assms(5,6) by simp_all
  have esc: "unat (of_nat (cx_escapes x) :: u16) = cx_escapes x"
    by (rule unat_of_nat_small) (use small(1) in simp)
  then show le: "\<not> code < (of_nat (cx_escapes x) :: u16)"
    using code(1) by (simp add: word_less_nat_alt)
  then have "unat (code - of_nat (cx_escapes x)) = unat code - cx_escapes x"
    using esc by (simp add: unat_minus_cases not_less)
  then show "in_slot m (cx_tree x) 0 v (unat (code - of_nat (cx_escapes x)))"
    using code by (auto simp: in_slot_def)
qed

text \<open>The context that has the value, once the value was seen there.\<close>

definition seen :: "key \<Rightarrow> u8 \<Rightarrow> cx \<Rightarrow> cx" where
  "seen k v x = (if k = [] then cx_seen 3 1 v x else cx_seen 2 0 v x)"

text \<open>What the decoder is left with when it found \<open>v\<close> in the context of \<open>f\<close>.\<close>

definition found ::
  "(key \<Rightarrow> nat) \<Rightarrow> (key \<Rightarrow> cx) \<Rightarrow> key set \<Rightarrow> key \<Rightarrow> u8 \<Rightarrow> 'a ENetRangeCoder_scheme \<Rightarrow> (key \<Rightarrow> nat) \<Rightarrow> 'a ENetRangeCoder_scheme \<Rightarrow> bool"
  where
  "found a A K f v c a' c' \<longleftrightarrow>
     coder_at a' (A(f := seen f v (A f))) (insert (f @ [v]) K) c' \<and> parented a' (insert (f @ [v]) K) {} (rc_symbols c') \<and>
     (\<forall>x \<in> K. a' x = a x) \<and> rc_out c' = rc_out c \<and> rc_order c' = rc_order c \<and> rc_fault c' = rc_fault c"

lemma decode_seen:
  assumes "coder_at a A K c" "parented a K {} (rc_symbols c)" "f \<in> K" "f @ [v] \<in> K \<or> f = []" "card (insert (f @ [v]) K) \<le> symbolCount"
    and "cx_ok d m (A f)" "unat \<delta> = d" "0 < d" "d \<le> 3" "m \<le> 1" "unat limit = 255 - 2 * d + m" "seen f v (A f) = cx_seen d m v (A f)"
    and "settles (rc_low c + b * (rc_range c div t)) (rc_range c div t * n) ds l r"
  shows "\<exists>a' e c'. ENET_CONTEXT_ENCODE (a f) v \<delta> (of_nat m) (reading bs (c\<lparr>rc_range := rc_range c div t\<rparr>)) =
      (a' (f @ [v]), ucast v * of_nat m + of_nat (weight_below (cx_tree (A f)) v), of_nat m + of_nat (count_of (cx_tree (A f)) v), e) \<and>
    map_option (count_symbol (a f) \<delta> (of_nat m) limit (of_nat (m + count_of (cx_tree (A f)) v))) (ENET_RANGE_CODER_DECODE b n e) =
      Some (reading (drop (length ds) bs) c') \<and>
    found a A K f v c a' c' \<and> rc_low c' = l \<and> rc_range c' = r"
proof -
  let ?q = "rc_range c div t" and ?K = "insert (f @ [v]) K" and ?bs = "drop (length ds) bs"
  let ?c = "reading bs (c\<lparr>rc_range := ?q\<rparr>)"
  have at: "coder_at a A K ?c" "parented a K {} (rc_symbols ?c)"
    using assms(1,2) by (simp_all add: coder_at_def)
  have \<delta>: "\<delta> \<noteq> 0" "count_of (cx_tree (A f)) v + unat \<delta> \<le> 255"
    using assms(7,8) cx_ok_count [OF assms(6), of v] unat_u8_less [of \<delta>] by auto
  obtain a' e where enc: "ENET_CONTEXT_ENCODE (a f) v \<delta> (of_nat m) ?c =
      (a' (f @ [v]), ucast v * of_nat m + of_nat (weight_below (cx_tree (A f)) v), of_nat m + of_nat (count_of (cx_tree (A f)) v), e)"
    and e: "coder_at a' (A(f := A f\<lparr>cx_tree := bump (cx_tree (A f)) v d\<rparr>)) ?K e" "parented a' ?K {} (rc_symbols e)"
      "\<forall>x \<in> K. a' x = a x" "same_coding ?c e"
    using encode_links [OF at assms(3) \<delta> assms(5), of "of_nat m"] assms(4) unfolding assms(7) by auto
  have eq: "reading bs e = e"
    using same_coding_reading [OF e(4)] .
  let ?e = "reading ?bs (e\<lparr>rc_low := l, rc_range := r\<rparr>)"
  have dec: "ENET_RANGE_CODER_DECODE b n e = Some ?e"
    using settle_slot [of "reading bs c" b t n ds l r e bs] assms(13) e(4) eq by (simp add: reading_range)
  have st: "stored a' (A(f := A f\<lparr>cx_tree := bump (cx_tree (A f)) v d\<rparr>)) ?K (rc_symbols ?e)"
    using e(1) by (simp add: coder_at_def)
  have "f \<in> ?K" "a' f = a f"
    using assms(3) e(3) by simp_all
  then obtain m' where m': "count_symbol (a f) \<delta> (of_nat m) limit (of_nat (m + count_of (cx_tree (A f)) v)) ?e = ?e\<lparr>rc_symbols := m'\<rparr>"
    "stored a' (A(f := cx_seen d m v (A f))) ?K m'" "\<forall>i. sy_parent (m' i) = sy_parent (rc_symbols ?e i)"
    using seen_stored [OF st _ assms(6,9,10,7,11)] by metis
  let ?c' = "e\<lparr>rc_low := l, rc_range := r, rc_symbols := m'\<rparr>"
  have "?e\<lparr>rc_symbols := m'\<rparr> = reading ?bs ?c'"
    by (simp add: reading_def)
  moreover have "found a A K f v c a' ?c'"
    unfolding found_def assms(12)
    using m'(2,3) e(1-3) same_codingD [OF e(4)] by (simp add: coder_at_def parented_def)
  ultimately show ?thesis
    using enc dec m'(1) by (intro exI [of _ a'] exI [of _ e] exI [of _ ?c']) simp
qed

lemma root_decodes:
  assumes "coder_at a A K c" "parented a K {} (rc_symbols c)" "[] \<in> K" "model_ok A" "card K < symbolCount" "ready c"
    and "decodes (rc_low c) (rc_range c) (slots [] v A) bs l r bs'"
  shows "\<exists>a' c'. decode_contexts 0 (reading bs c) = Some (Inr (Decoded 0 (a' [v]) v, reading bs' c')) \<and>
    found a A K [] v c a' c' \<and> rc_low c' = l \<and> rc_range c' = r"
proof -
  let ?x = "A []"
  note ok = model_okD(1) [OF assms(4)]
  have card: "card (insert ([] @ [v]) K) \<le> symbolCount"
    using card_insert_less [OF coder_at_finite [OF assms(1)] assms(5)] by simp
  obtain b n t where slot: "symbol_slot 1 v ?x = (b, n, t)" by (cases "symbol_slot 1 v ?x") auto
  have t: "t = of_nat (cx_total ?x)"
    using slot by (simp add: symbol_slot_def)
  have root: "a [] = 0"
    using coder_at_addresses(1) [OF assms(1,3)] .
  obtain ds where d: "slot_ok b n t" "within (rc_low c + b * (rc_range c div t)) (rc_range c div t * n) (code_of bs)"
    "settles (rc_low c + b * (rc_range c div t)) (rc_range c div t * n) ds l r" "bs' = drop (length ds) bs"
    using assms(7) unfolding slots.simps slot by (rule decodes_ConsE) (simp add: decodes_Nil_iff)
  obtain code where code: "ENET_RANGE_CODER_READ (ucast (sy_total (rc_symbols (reading bs c) 0))) (reading bs c) =
      (code, reading bs (c\<lparr>rc_range := rc_range c div t\<rparr>))"
    "unat b \<le> unat code" "unat code < unat b + unat n" "sy_escapes (rc_symbols (reading bs c) 0) = of_nat (cx_escapes ?x)"
    using root_reads [OF assms(1,3) ok assms(6) d(1,2) [unfolded t]] t by auto
  have pos: "\<not> code < of_nat (cx_escapes ?x)" "in_slot 1 (cx_tree ?x) 0 v (unat (code - of_nat (cx_escapes ?x)))"
    by (rule slot_code [OF ok _ _ slot code(2,3)]; simp)+
  obtain a' e c' where enc: "ENET_CONTEXT_ENCODE (a []) v 3 (of_nat 1) (reading bs (c\<lparr>rc_range := rc_range c div t\<rparr>)) =
      (a' ([] @ [v]), ucast v * of_nat 1 + of_nat (weight_below (cx_tree ?x) v), of_nat 1 + of_nat (count_of (cx_tree ?x) v), e)"
    and dec: "map_option (count_root (of_nat (1 + count_of (cx_tree ?x) v))) (ENET_RANGE_CODER_DECODE b n e) = Some (reading bs' c')"
    and f: "found a A K [] v c a' c'" "rc_low c' = l" "rc_range c' = r"
    using decode_seen [where \<delta> = 3 and m = 1 and d = 3 and limit = "0xFF - 2 * 3 + 1", OF assms(1,2,3) _ card ok _ _ _ _ _ _ d(3), of bs] d(4) root
    by (auto simp: seen_def)
  have words: "ucast (of_nat (cx_escapes ?x) :: u16) + ucast (ucast v * 1 + of_nat (weight_below (cx_tree ?x) v) :: u16) = b"
    "(1 + of_nat (count_of (cx_tree ?x) v) :: u16) = of_nat (1 + count_of (cx_tree ?x) v)"
    "ucast (of_nat (1 + count_of (cx_tree ?x) v) :: u16) = n"
    using slot_words [OF ok, of v] slot by (simp_all only: of_nat_1 symbol_slot_def prod.inject) auto
  have weight: "weight (cx_tree ?x) + 256 \<le> 65535"
    using cx_okD(1,2) [OF ok] by linarith
  let ?c = "reading bs (c\<lparr>rc_range := rc_range c div t\<rparr>)"
  have "stored a A K (rc_symbols ?c)" "rc_nextSymbol ?c = card K"
    using assms(1) by (simp_all add: coder_at_def)
  then have run: "ENET_CONTEXT_ROOT_DECODE (a []) (code - of_nat (cx_escapes ?x)) 3 1 (reading bs (c\<lparr>rc_range := rc_range c div t\<rparr>)) =
      (a' ([] @ [v]), v, ucast v * 1 + of_nat (weight_below (cx_tree ?x) v), 1 + of_nat (count_of (cx_tree ?x) v), e)"
    using root_decode_encodes [where a = a and A = A and K = K and c = ?c and k = "[]" and v = v and d = 3, OF _ _ assms(3) card pos(2) weight]
      enc by (simp only: of_nat_1 prod.case)
  obtain c3 where c3: "ENET_RANGE_CODER_DECODE b n e = Some c3" "count_root (of_nat (1 + count_of (cx_tree ?x) v)) c3 = reading bs' c'"
    using dec by auto
  have "decode_root (reading bs c) = Some (Decoded 0 (a' [v]) v, reading bs' c')"
    using pos(1)
    by (simp only: decode_root_def Let_def code(1,4) run [unfolded root] words c3 prod.case if_False option.map append_Nil)
  then show ?thesis
    using f by (intro exI [of _ a'] exI [of _ c']) (simp add: decode_contexts.simps [of 0])
qed

lemma context_decodes:
  assumes "coder_at a A K c" "parented a K {} (rc_symbols c)" "b # k \<in> K" "cx_ok 2 0 (A (b # k))" "has A (b # k) v" "ready c"
    and "decodes (rc_low c) (rc_range c) [symbol_slot 0 v (A (b # k))] bs l r bs'"
  shows "\<exists>a' c'. decode_contexts (a (b # k)) (reading bs c) =
      Some (Inr (Decoded (a (b # k)) (a' ((b # k) @ [v])) v, reading bs' c')) \<and>
    found a A K (b # k) v c a' c' \<and> rc_low c' = l \<and> rc_range c' = r"
proof -
  let ?k = "b # k" let ?x = "A ?k" and ?s = "rc_symbols c (a (b # k))"
  note ok = assms(4) and fields = coder_at_fields [OF assms(1,3)] and words = escape_words [OF assms(4)]
  have k: "?k @ [v] \<in> K" "a ?k \<noteq> 0"
    using coder_at_addresses(2,5) [OF assms(1,3)] assms(5) by simp_all
  then have card: "card (insert (?k @ [v]) K) \<le> symbolCount"
    using assms(1) by (simp add: coder_at_def stored_def insert_absorb)
  have escapes: "0 < cx_escapes ?x" "cx_escapes ?x < cx_total ?x"
  proof -
    show "0 < cx_escapes ?x"
      using has_escapes [OF ok assms(5)] .
    have "0 < weight (cx_tree ?x)"
      using weight_pos [OF cx_okD(4) [OF ok]] assms(5) by (cases "cx_tree ?x") auto
    then show "cx_escapes ?x < cx_total ?x"
      using cx_okD(1) [OF ok] by simp
  qed
  obtain b' n t where slot: "symbol_slot 0 v ?x = (b', n, t)" by (cases "symbol_slot 0 v ?x") auto
  have t: "t = of_nat (cx_total ?x)"
    using slot by (simp add: symbol_slot_def)
  obtain ds where d: "slot_ok b' n t" "within (rc_low c + b' * (rc_range c div t)) (rc_range c div t * n) (code_of bs)"
    "settles (rc_low c + b' * (rc_range c div t)) (rc_range c div t * n) ds l r" "bs' = drop (length ds) bs"
    using assms(7) unfolding slot by (rule decodes_ConsE) (simp add: decodes_Nil_iff)
  obtain code where code: "ENET_RANGE_CODER_READ t (reading bs c) = (code, reading bs (c\<lparr>rc_range := rc_range c div t\<rparr>))"
    "unat b' \<le> unat code" "unat code < unat b' + unat n"
    using read_slot [OF assms(6) d(1,2)] by auto
  have pos: "\<not> code < of_nat (cx_escapes ?x)" "in_slot 0 (cx_tree ?x) 0 v (unat (code - of_nat (cx_escapes ?x)))"
    by (rule slot_code [OF ok _ _ slot code(2,3)]; use assms(5) in simp)+
  let ?c = "reading bs (c\<lparr>rc_range := rc_range c div t\<rparr>)"
  obtain a' e c' where enc: "ENET_CONTEXT_ENCODE (a ?k) v 2 (of_nat 0) ?c =
      (a' (?k @ [v]), ucast v * of_nat 0 + of_nat (weight_below (cx_tree ?x) v), of_nat 0 + of_nat (count_of (cx_tree ?x) v), e)"
    and dec: "map_option (count_subcontext (a ?k) (of_nat (0 + count_of (cx_tree ?x) v))) (ENET_RANGE_CODER_DECODE b' n e) =
      Some (reading bs' c')"
    and f: "found a A K ?k v c a' c'" "rc_low c' = l" "rc_range c' = r"
    using decode_seen [where \<delta> = 2 and m = 0 and d = 2 and limit = "0xFF - 2 * 2", OF assms(1,2,3) _ card ok _ _ _ _ _ _ d(3), of bs]
      d(4) k(1) by (auto simp: seen_def)
  have words: "ucast (of_nat (cx_escapes ?x) :: u16) + ucast (ucast v * 0 + of_nat (weight_below (cx_tree ?x) v) :: u16) = b'"
    "(0 + of_nat (count_of (cx_tree ?x) v) :: u16) = of_nat (0 + count_of (cx_tree ?x) v)"
    "ucast (of_nat (0 + count_of (cx_tree ?x) v) :: u16) = n" "ucast (of_nat (cx_total ?x) :: u16) = t"
    using slot_words [OF ok, of v] slot assms(5) by (simp_all only: of_nat_0 symbol_slot_def prod.inject add_0) auto
  have weight: "weight (cx_tree ?x) \<le> 65535"
    using cx_okD(1,2) [OF ok] by linarith
  have "stored a A K (rc_symbols ?c)" "rc_nextSymbol ?c = card K"
    using assms(1) by (simp_all add: coder_at_def)
  then have run: "ENET_CONTEXT_TRY_DECODE (a ?k) (code - of_nat (cx_escapes ?x)) 2 0 ?c =
      Inr (a' (?k @ [v]), v, ucast v * 0 + of_nat (weight_below (cx_tree ?x) v), 0 + of_nat (count_of (cx_tree ?x) v), e)"
    using try_decode_encodes [where a = a and A = A and K = K and c = ?c and k = ?k and v = v and d = 2, OF _ _ assms(3,5) pos(2) weight]
      enc [unfolded of_nat_0] by simp
  obtain c3 where c3: "ENET_RANGE_CODER_DECODE b' n e = Some c3"
    "count_subcontext (a ?k) (of_nat (0 + count_of (cx_tree ?x) v)) c3 = reading bs' c'"
    using dec by auto
  have unskipped: "\<not> ((of_nat (cx_escapes ?x) :: u16) = 0 \<or> (of_nat (cx_escapes ?x) :: u16) \<ge> of_nat (cx_total ?x))"
    using escapes escape_words [OF ok] by auto
  have "decode_contexts (a ?k) (reading bs c) = Some (Inr (Decoded (a ?k) (a' (?k @ [v])) v, reading bs' c'))"
    using pos(1) k(2) unskipped
    by (simp only: decode_contexts.simps [of "a ?k"] Let_def reading_simps fields words code(1) run c3 prod.case if_False option.case sum.case)
  then show ?thesis
    using f by blast
qed

lemma decode_contexts_finds:
  assumes "coder_at a A K c" "parented a K {} (rc_symbols c)" "k \<in> K" "model_ok A" "card K < symbolCount" "ready c"
    and "decodes (rc_low c) (rc_range c) (slots k v A) bs l r bs'"
  defines "f \<equiv> found_in k v A"
  shows "\<exists>a' c'. decode_contexts (a k) (reading bs c) = Some (Inr (Decoded (a f) (a' (f @ [v])) v, reading bs' c')) \<and>
    found a A K f v c a' c' \<and> rc_low c' = l \<and> rc_range c' = r"
  using assms(1-7) unfolding f_def
proof (induction k arbitrary: c bs)
  case Nil
  then show ?case
    using root_decodes [OF Nil.prems] coder_at_addresses(1) [OF Nil.prems(1,3)] by simp
next
  case (Cons b k)
  show ?case
  proof (cases "has A (b # k) v")
    case True
    then show ?thesis
      using context_decodes [OF Cons.prems(1-3) model_okD(2) [OF Cons.prems(4)] True Cons.prems(6)] Cons.prems(7)
      by (simp only: slots.simps found_in.simps if_True)
  next
    case False
    have "decodes (rc_low c) (rc_range c) (escape_slots (A (b # k)) @ slots k v A) bs l r bs'"
      using Cons.prems(7) False by simp
    then obtain l1 r1 bs1 where step: "decode_contexts (a (b # k)) (reading bs c) = decode_contexts (a k) (reading bs1 (c\<lparr>rc_low := l1, rc_range := r1\<rparr>))"
      "decodes l1 r1 (slots k v A) bs1 l r bs'" "interval l1 r1" "interval_done l1 r1"
      using decode_escape [OF Cons.prems(1-3) model_okD(2) [OF Cons.prems(4)] Cons.prems(6)] by blast
    let ?c = "c\<lparr>rc_low := l1, rc_range := r1\<rparr>"
    have "coder_at a A K ?c" "parented a K {} (rc_symbols ?c)"
      using Cons.prems(1,2) by (simp_all add: coder_at_def)
    then obtain a' c' where "decode_contexts (a k) (reading bs1 ?c) =
        Some (Inr (Decoded (a (found_in k v A)) (a' (found_in k v A @ [v])) v, reading bs' c'))"
      "found a A K (found_in k v A) v ?c a' c'" "rc_low c' = l" "rc_range c' = r"
      using Cons.IH [of ?c bs1] parentedD(1) [OF Cons.prems(2,3)] Cons.prems(4,5) step(2-4) by auto
    then show ?thesis
      using step(1) False by (intro exI [of _ a'] exI [of _ c']) (simp add: found_def)
  qed
qed

section \<open>Patching the contexts that escaped\<close>

lemma length_found_in: "length (found_in k v A) \<le> length k"
  by (induction k) auto

lemma found_here:
  assumes "found_in k v A = k"
  shows "learn k v A = A(k := seen k v (A k))" "reached k v A K = insert (k @ [v]) K"
proof -
  have "learn k v A = A(k := seen k v (A k)) \<and> reached k v A K = insert (k @ [v]) K"
  proof (cases k)
    case (Cons b k')
    have "has A (b # k') v"
      using assms Cons length_found_in [of k' v A] by (auto split: if_splits)
    then show ?thesis
      unfolding Cons using reached_simps(2) by (simp only: learn.simps if_True seen_def) simp
  qed (simp add: seen_def reached_simps)
  then show "learn k v A = A(k := seen k v (A k))" "reached k v A K = insert (k @ [v]) K" by simp_all
qed

lemma patch_missed:
  assumes "coder_at a B K c" "parented a K (set_option p) (rc_symbols c)" "waits a K p slot ((b # k) @ [v])" "b # k \<in> K"
    and "cx_ok 2 0 (B (b # k))" "\<not> has B (b # k) v" "card K < symbolCount" "a (b # k) \<noteq> i"
  shows "\<exists>a' c1. patch_contexts i bottom v (a (b # k)) slot c = patch_contexts i bottom v (a' k) (ParentOf (a' ((b # k) @ [v]))) c1 \<and>
    coder_at a' (B(b # k := cx_missed v (B (b # k)))) (insert ((b # k) @ [v]) K) c1 \<and>
    parented a' (insert ((b # k) @ [v]) K) (set_option (Some ((b # k) @ [v]))) (rc_symbols c1) \<and>
    k \<in> K \<and> (\<forall>x \<in> K. a' x = a x) \<and> same_coding c c1 \<and>
    rc_predicted c1 = (if p = None then of_nat (a' ((b # k) @ [v])) else rc_predicted c)"
proof -
  let ?k = "b # k" let ?x = "B ?k" and ?K = "insert (?k @ [v]) K"
  let ?B = "B(?k := ?x\<lparr>cx_tree := bump (cx_tree ?x) v 2\<rparr>)"
  have card: "card ?K \<le> symbolCount"
    using card_insert_less [OF coder_at_finite [OF assms(1)] assms(7)] .
  obtain a' c1 c2 where enc: "ENET_CONTEXT_ENCODE (a ?k) v 2 0 c =
      (a' (?k @ [v]), ucast v * 0 + of_nat (weight_below (cx_tree ?x) v), 0 + of_nat (count_of (cx_tree ?x) v), c1)"
    "set_parent slot (a' (?k @ [v])) c1 = c2"
    and at: "coder_at a' ?B ?K c2"
    and link: "parented a' ?K (if ?k @ [v] \<in> K \<or> ?k = [] then {} else {?k @ [v]}) (rc_symbols c2)"
    and same: "\<forall>x \<in> K. a' x = a x" "same_coding c c2" "rc_predicted c2 = (if p = None then of_nat (a' (?k @ [v])) else rc_predicted c)"
    using visit [OF assms(1-5) _ _ card, of 2 0] by auto
  have k: "?k \<in> ?K" "a' ?k = a ?k" "?k @ [v] \<notin> K"
    using assms(4,6) same(1) coder_at_addresses(5) [OF assms(1,4)] by simp_all
  have st: "stored a' ?B ?K (rc_symbols c2)"
    using at by (simp add: coder_at_def)
  obtain m where m: "count_subcontext (a ?k) 0 (count_escape (a ?k) c2) = c2\<lparr>rc_symbols := m\<rparr>"
    "stored a' (B(?k := cx_missed v ?x)) ?K m" "\<forall>i. sy_parent (m i) = sy_parent (rc_symbols c2 i)"
    using missed_stored [OF st k(1) assms(5), unfolded k(2)] by blast
  let ?c = "c2\<lparr>rc_symbols := m\<rparr>"
  have at': "coder_at a' (B(?k := cx_missed v ?x)) ?K ?c"
    using m(2) at by (simp add: coder_at_def)
  have link': "parented a' ?K (set_option (Some (?k @ [v]))) (rc_symbols ?c)"
    using link m(3) k(3) by (simp add: parented_def)
  have "?k \<notin> set_option p"
    using assms(3) by (auto simp: waits_def)
  then have inK: "k \<in> K"
    using parentedD(1) [OF assms(2,4)] by simp
  have "sy_parent (rc_symbols ?c (a' ?k)) = of_nat (a' k)"
    by (rule parentedD(2) [OF link' k(1)]) simp
  then have parent: "unat (sy_parent (rc_symbols ?c (a ?k))) = a' k"
    using coder_at_addresses(3) [OF at', of k] inK k(2) by simp
  have none: "(0 + of_nat (count_of (cx_tree ?x) v) :: u16) = 0"
    using count_of_0 [OF assms(6)] by simp
  have "patch_contexts i bottom v (a ?k) slot c = patch_contexts i bottom v (a' k) (ParentOf (a' (?k @ [v]))) ?c"
    using assms(8)
    by (simp only: patch_contexts.simps [of i bottom v "a ?k"] Let_def enc none prod.case if_False if_True m(1) parent simp_thms)
  then show ?thesis
    using at' link' inK same same_coding_trans [OF same(2) same_coding_symbols, of m]
    by (intro exI [of _ a'] exI [of _ ?c]) simp
qed

lemma patch_done:
  assumes "coder_at a (A(k := seen k v (A k))) K c" "parented a K (set_option p) (rc_symbols c)" "waits a K p slot (k @ [v])"
    and "k @ [v] \<in> K" "found_in k v A = k"
  shows "\<exists>c'. patch_contexts (a k) (a (k @ [v])) v (a k) slot c = Some c' \<and> learnt a A K p k v c c' \<and> same_coding c c'"
proof -
  let ?c = "set_parent slot (a (k @ [v])) c"
  have "parented a K (set_option p \<union> {}) (rc_symbols c)"
    using assms(2) by simp
  note set = set_parent_links [OF assms(1) this assms(3,4)]
  have "learnt a A K p k v c ?c"
    unfolding learnt_def found_here [OF assms(5)] insert_absorb [OF assms(4)]
    using set(1,2,4) by (intro exI [of _ a]) simp
  then show ?thesis
    using set(3) by (simp add: patch_contexts.simps [of "a k"])
qed

lemma patch_learns:
  assumes "coder_at a (A(f := seen f v (A f))) K c" "parented a K (set_option p) (rc_symbols c)" "waits a K p slot (k @ [v])"
    and "k \<in> K" "f @ [v] \<in> K" "f = found_in k v A" "model_ok A" "card K + length k \<le> symbolCount"
  shows "\<exists>c'. patch_contexts (a f) (a (f @ [v])) v (a k) slot c = Some c' \<and> learnt a A K p k v c c' \<and> same_coding c c'"
  using assms
proof (induction k arbitrary: a A K p slot c)
  case Nil
  have f: "f = []"
    using Nil.prems(6) by simp
  show ?case
    unfolding f by (rule patch_done [OF Nil.prems(1) [unfolded f] Nil.prems(2,3) Nil.prems(5) [unfolded f]]) simp
next
  case (Cons b k)
  let ?k = "b # k" let ?x = "A ?k" and ?K = "insert (?k @ [v]) K" and ?B = "A(f := seen f v (A f))"
  show ?case
  proof (cases "has A ?k v")
    case True
    then have f: "f = ?k" and here: "found_in ?k v A = ?k"
      using Cons.prems(6) by simp_all
    show ?thesis
      unfolding f by (rule patch_done [OF Cons.prems(1) [unfolded f] Cons.prems(2,3) Cons.prems(5) [unfolded f] here])
  next
    case False
    have f: "f = found_in k v A" "f \<noteq> ?k"
      using Cons.prems(6) False length_found_in [of k v A] by auto
    then have x: "?B ?k = ?x" by simp
    have st: "stored a ?B K (rc_symbols c)"
      using Cons.prems(1) unfolding coder_at_def by (rule conjunct1)
    then have "f \<in> K"
      using storedD(7) [OF st] Cons.prems(5) by simp
    then have apart: "a ?k \<noteq> a f"
      using stored_eq [OF st Cons.prems(4)] f(2) by simp
    note ok = model_okD(2) [OF Cons.prems(7), of b k]
    have "cx_ok 2 0 (?B ?k)" "\<not> has ?B ?k v" "card K < symbolCount"
      unfolding x using ok False Cons.prems(8) by simp_all
    then obtain a' c1 where run: "patch_contexts (a f) (a (f @ [v])) v (a ?k) slot c =
        patch_contexts (a f) (a (f @ [v])) v (a' k) (ParentOf (a' (?k @ [v]))) c1"
      and at: "coder_at a' (?B(?k := cx_missed v ?x)) ?K c1"
      and link: "parented a' ?K (set_option (Some (?k @ [v]))) (rc_symbols c1)"
      and same: "k \<in> K" "\<forall>x \<in> K. a' x = a x" "same_coding c c1"
        "rc_predicted c1 = (if p = None then of_nat (a' (?k @ [v])) else rc_predicted c)"
      using patch_missed [OF Cons.prems(1-4) _ _ _ apart, of "a (f @ [v])"] unfolding x by blast
    let ?A = "A(?k := cx_missed v ?x)"
    have eq: "?B(?k := cx_missed v ?x) = ?A(f := seen f v (?A f))"
      using f(2) by (simp add: fun_upd_twist)
    have "waits a' ?K (Some (?k @ [v])) (ParentOf (a' (?k @ [v]))) (k @ [v])"
      by (simp add: waits_def)
    moreover have "f = found_in k v ?A"
      using f(1) by (simp add: longer_untouched)
    moreover have "model_ok ?A"
      using model_ok_upd [OF Cons.prems(7) cx_missed_ok [OF ok False]] .
    moreover have "card ?K + length k \<le> symbolCount"
      using Cons.prems(8) coder_at_finite [OF Cons.prems(1)] by (simp add: card_insert_if)
    ultimately obtain c' where c': "patch_contexts (a' f) (a' (f @ [v])) v (a' k) (ParentOf (a' (?k @ [v]))) c1 = Some c'"
      "learnt a' ?A ?K (Some (?k @ [v])) k v c1 c'" "same_coding c1 c'"
      using Cons.IH [OF at [unfolded eq] link, of "ParentOf (a' (?k @ [v]))"] same(1) Cons.prems(5) by blast
    have "learnt a A K p ?k v c c'"
      by (rule learnt_missed [OF False c'(2) same(2,4)])
    moreover have "a' f = a f" "a' (f @ [v]) = a (f @ [v])"
      using same(2) \<open>f \<in> K\<close> Cons.prems(5) by simp_all
    ultimately show ?thesis
      using run c'(1) same_coding_trans [OF same(3) c'(3)] by simp
  qed
qed

end
