(* ===== verification/Enet_Streams.thy ===== *)
theory Enet_Streams
  imports Enet_Roundtrip
begin

text \<open>
  The loops of the range coder over a whole input: both directions go through the same rounds, in
  each of which they code a value in the same slots, learn it, and agree on the context of the next
  one.  Hence the decompressor gives back what was compressed.
\<close>

section \<open>Rounds\<close>

text \<open>
  Between two values: the string of the context the next value is predicted in, the contexts, and
  the strings with a symbol.
\<close>

type_synonym model = "key \<times> (key \<Rightarrow> cx) \<times> key set"

definition fresh :: "key \<Rightarrow> cx" where
  "fresh = (\<lambda>_. blank)([] := \<lparr>cx_escapes = 1, cx_total = 257, cx_tree = Leaf\<rparr>)"

definition at_round :: "model \<Rightarrow> 'a ENetRangeCoder_scheme \<Rightarrow> bool" where
  "at_round M c \<longleftrightarrow>
     (case M of (p, A, K) \<Rightarrow>
        (\<exists>a. coder_at a A K c \<and> parented a K {} (rc_symbols c) \<and> unat (rc_predicted c) = a p) \<and>
        p \<in> K \<and> model_ok A \<and> rc_order c = length p \<and> length p \<le> 2 \<and> card K < 4094 \<and> \<not> rc_fault c)"

definition advance :: "u8 \<Rightarrow> model \<Rightarrow> model" where
  "advance v M =
     (case M of (p, A, K) \<Rightarrow>
        if card (reached p v A K) \<ge> 4094 then ([], fresh, {[]})
        else (if length p < 2 then p @ [v] else tl (p @ [v]), learn p v A, reached p v A K))"

lemma fresh_ok: "model_ok fresh"
  by (simp add: model_ok_def fresh_def cx_ok_def blank_def)

lemma fresh_stored:
  assumes "sy_escapes (m 0) = 1" "sy_total (m 0) = 257" "sy_symbols (m 0) = 0"
  shows "stored (\<lambda>_. 0) fresh {[]} m"
proof -
  have "bij_betw (\<lambda>_. 0) {[] :: key} {..<Suc 0}"
    by (simp add: bij_betw_def lessThan_Suc)
  then show ?thesis
    using assms by (auto simp: stored_def fresh_def blank_def context_at_def)
qed

text \<open>The array with nothing but the root.\<close>

definition restarted :: "'a ENetRangeCoder_scheme \<Rightarrow> 'a ENetRangeCoder_scheme" where
  "restarted c = (let m = (rc_symbols c)(0 := (new_symbol 0 0)\<lparr>sy_escapes := 1, sy_total := 257\<rparr>)
     in c\<lparr>rc_symbols := m, rc_nextSymbol := 1\<rparr>)"

lemma create_root: "ENET_CONTEXT_CREATE 1 1 (c\<lparr>rc_nextSymbol := 0\<rparr>) = (0, restarted c)"
  by (simp add: ENET_CONTEXT_CREATE_def ENET_SYMBOL_CREATE_def upd_symbol_inside restarted_def Let_def new_symbol_def)

lemma restarted_round: "\<not> rc_fault c \<Longrightarrow> at_round ([], fresh, {[]}) ((restarted c)\<lparr>rc_predicted := 0, rc_order := 0\<rparr>)"
  by (auto simp: at_round_def coder_at_def parented_def restarted_def Let_def fresh_ok new_symbol_def
      intro!: exI [of _ "\<lambda>_. 0"] fresh_stored)

lemma visits_first: "p \<in> visited p v A"
  by (cases p) auto

lemma next_round:
  assumes "at_round (p, A, K) c" "learnt a A K None p v c c'" "rc_order c' = rc_order c" "rc_fault c' = rc_fault c"
  shows "at_round (advance v (p, A, K)) (next_symbol_input c')"
proof -
  let ?K = "reached p v A K" and ?A = "learn p v A"
  obtain a' where a': "coder_at a' ?A ?K c'" "parented a' ?K {} (rc_symbols c')" "rc_predicted c' = of_nat (a' (p @ [v]))"
    using assms(2) by (auto simp: learnt_def)
  have r: "p \<in> K" "model_ok A" "rc_order c' = length p" "length p \<le> 2" "\<not> rc_fault c'"
    using assms(1,3,4) by (auto simp: at_round_def)
  have new: "p @ [v] \<in> ?K"
    using visits_first [of p v A] by (auto simp: reached_def)
  have parent: "tl (p @ [v]) \<in> ?K" "sy_parent (rc_symbols c' (a' (p @ [v]))) = of_nat (a' (tl (p @ [v])))"
    using a'(2) new by (auto simp: parented_def)
  note adr = coder_at_addresses(3,4) [OF a'(1) new] coder_at_addresses(3) [OF a'(1) parent(1)]
  define q where "q = (if length p < 2 then p @ [v] else tl (p @ [v]))"
  define c1 where "c1 = (if rc_order c' \<ge> ENET_SUBCONTEXT_ORDER
        then c'\<lparr>rc_predicted := sy_parent (rc_symbols c' (unat (rc_predicted c'))),
               rc_fault := rc_fault c' \<or> unat (rc_predicted c') \<ge> symbolCount\<rparr>
        else c'\<lparr>rc_order := rc_order c' + 1\<rparr>)"
  have c1: "q \<in> ?K" "unat (rc_predicted c1) = a' q" "rc_order c1 = length q" "length q \<le> 2" "\<not> rc_fault c1"
    "rc_symbols c1 = rc_symbols c'" "rc_nextSymbol c1 = card ?K"
    using r new parent adr a'(1,3) by (simp_all add: c1_def q_def coder_at_def)
  have run: "next_symbol_input c' = ENET_RANGE_CODER_FREE_SYMBOLS c1"
    by (simp add: next_symbol_input_def c1_def)
  show ?thesis
  proof (cases "card ?K \<ge> 4094")
    case True
    then show ?thesis
      using run c1(5,7) restarted_round [of c1] by (simp add: ENET_RANGE_CODER_FREE_SYMBOLS_def create_root advance_def)
  next
    case False
    then have "next_symbol_input c' = c1"
      using run c1(7) by (simp add: ENET_RANGE_CODER_FREE_SYMBOLS_def)
    moreover have "coder_at a' ?A ?K c1" "parented a' ?K {} (rc_symbols c1)"
      using a'(1,2) c1(6,7) by (simp_all add: coder_at_def)
    ultimately have "at_round (q, ?A, ?K) (next_symbol_input c')"
      using c1(1-5) learn_ok [OF r(2)] False by (auto simp: at_round_def)
    then show ?thesis
      using False by (simp add: advance_def q_def)
  qed
qed

lemma next_symbol_input_keeps:
  "rc_low (next_symbol_input c) = rc_low c" "rc_range (next_symbol_input c) = rc_range c"
  "rc_out (next_symbol_input c) = rc_out c" "next_symbol_input (reading bs d) = reading bs (next_symbol_input d)"
  by (simp_all add: next_symbol_input_def ENET_RANGE_CODER_FREE_SYMBOLS_def create_root restarted_def Let_def reading_def)

section \<open>Compressing\<close>

fun slots_of :: "u8 list \<Rightarrow> model \<Rightarrow> slots" where
  "slots_of [] M = []"
| "slots_of (v # vs) M = slots (fst M) v (fst (snd M)) @ slots_of vs (advance v M)"

text \<open>What a coder wrote, and where its interval is.\<close>

definition wrote :: "nat \<Rightarrow> 'a ENetRangeCoder_scheme \<Rightarrow> slots \<Rightarrow> 'a ENetRangeCoder_scheme \<Rightarrow> bool" where
  "wrote outLimit c ss c' \<longleftrightarrow>
     (\<exists>ds. codes (rc_low c) (rc_range c) ss ds (rc_low c') (rc_range c') \<and> rc_out c' = rc_out c @ ds) \<and>
     (length (rc_out c) \<le> outLimit \<longrightarrow> length (rc_out c') \<le> outLimit)"

lemma wrote_ready: "wrote outLimit c ss c' \<Longrightarrow> ready c \<Longrightarrow> ready c'"
  using codes_interval by (auto simp: wrote_def)

lemma encode_round:
  assumes "at_round M c" "ready c"
  shows "\<exists>r. encode_contexts outLimit v (unat (rc_predicted c)) Predicted c = Some r \<and>
    (\<forall>c'. r = Some c' \<longrightarrow> at_round (advance v M) (next_symbol_input c') \<and>
      wrote outLimit c (slots (fst M) v (fst (snd M))) (next_symbol_input c'))"
proof -
  obtain p A K where M: "M = (p, A, K)" by (cases M)
  obtain a where a: "coder_at a A K c" "parented a K {} (rc_symbols c)" "unat (rc_predicted c) = a p"
    and r: "p \<in> K" "model_ok A" "length p \<le> 2" "card K < 4094"
    using assms(1) by (auto simp: at_round_def M)
  have "parented a K (set_option None) (rc_symbols c)" "waits a K None Predicted (p @ [v])" "card K + length p < symbolCount"
    using a(2) r by (simp_all add: waits_def)
  then obtain r where run: "encode_contexts outLimit v (a p) Predicted c = Some r"
    and r: "\<And>c'. r = Some c' \<Longrightarrow> learnt a A K None p v c c' \<and> emits outLimit c (slots p v A) c'"
    using encode_contexts_learns [OF a(1) _ _ r(1,2) _ assms(2)] by blast
  have "at_round (advance v M) (next_symbol_input c') \<and> wrote outLimit c (slots (fst M) v (fst (snd M))) (next_symbol_input c')"
    if res: "r = Some c'" for c'
  proof
    have e: "learnt a A K None p v c c'" "emits outLimit c (slots p v A) c'"
      using r [OF res] by simp_all
    then show "at_round (advance v M) (next_symbol_input c')"
      using next_round [OF assms(1) [unfolded M] e(1)] by (simp add: M emits_def)
    show "wrote outLimit c (slots (fst M) v (fst (snd M))) (next_symbol_input c')"
      using e(2) by (simp add: wrote_def emits_def next_symbol_input_keeps M)
  qed
  then show ?thesis
    using run a(3) by auto
qed

text \<open>The input as one list of bytes.\<close>

lemma compress_loop_buffers:
  "[] \<notin> set buffers \<Longrightarrow> compress_loop outLimit data buffers c = compress_loop outLimit (data @ concat buffers) [] c"
proof (induction outLimit data buffers c rule: compress_loop.induct)
  case (3 outLimit v data buffers c)
  then show ?case
    by (auto split: option.split)
next
  case (4 outLimit v data buffers c)
  then show ?case
    by (auto split: option.split)
qed simp_all

lemma compress_loop_no_empty: "compress_loop outLimit data buffers c = Some (Some c') \<Longrightarrow> [] \<notin> set buffers"
  by (induction outLimit data buffers c rule: compress_loop.induct) (auto split: option.splits)

lemma flush_room:
  "ENET_RANGE_CODER_FLUSH outLimit c = Some c' \<Longrightarrow> length (rc_out c) \<le> outLimit \<Longrightarrow> length (rc_out c') \<le> outLimit"
proof (induction outLimit c rule: ENET_RANGE_CODER_FLUSH.induct)
  case (1 outLimit c)
  then show ?case
    by (cases "rc_low c = 0"; cases "length (rc_out c) < outLimit") (simp_all add: ENET_RANGE_CODER_FLUSH.simps [of outLimit c])
qed

text \<open>The compressed bytes: those of the slots, and at most four that make the start of the interval.\<close>

definition compressed :: "nat \<Rightarrow> 'a ENetRangeCoder_scheme \<Rightarrow> slots \<Rightarrow> 'a ENetRangeCoder_scheme \<Rightarrow> bool" where
  "compressed outLimit c ss c' \<longleftrightarrow>
     (\<exists>ds fl l r. codes (rc_low c) (rc_range c) ss ds l r \<and> code_of fl = l \<and> length fl \<le> 4 \<and> rc_out c' = rc_out c @ ds @ fl) \<and>
     (length (rc_out c) \<le> outLimit \<longrightarrow> length (rc_out c') \<le> outLimit) \<and> \<not> rc_fault c'"

lemma wrote_compressed: "wrote outLimit c ss c' \<Longrightarrow> compressed outLimit c' ts c'' \<Longrightarrow> compressed outLimit c (ss @ ts) c''"
proof -
  assume "wrote outLimit c ss c'" "compressed outLimit c' ts c''"
  moreover from this obtain ds es fl l r where "codes (rc_low c) (rc_range c) ss ds (rc_low c') (rc_range c')"
    "codes (rc_low c') (rc_range c') ts es l r" "code_of fl = l" "length fl \<le> 4" "rc_out c'' = rc_out c @ (ds @ es) @ fl"
    by (auto simp: wrote_def compressed_def)
  moreover from this have "codes (rc_low c) (rc_range c) (ss @ ts) (ds @ es) l r"
    by (intro codes_append)
  ultimately show ?thesis
    unfolding wrote_def compressed_def by blast
qed

lemma flush_compressed:
  assumes "ENET_RANGE_CODER_FLUSH outLimit c = Some c'" "\<not> rc_fault c"
  shows "compressed outLimit c [] c'"
proof -
  obtain fl where fl: "rc_out c' = rc_out c @ fl" "code_of fl = rc_low c" "rc_fault c' = rc_fault c"
    using flush_code [OF assms(1)] by blast
  have "length fl \<le> 4"
    using flush_short [OF assms(1), of 0 "rc_low c"] fl(1) by simp
  then show ?thesis
    using fl assms(2) flush_room [OF assms(1)] codes_Nil [of "rc_low c" "rc_range c"]
    unfolding compressed_def by (metis append_Nil)
qed

lemma compress_stream:
  assumes "at_round M c" "ready c"
  shows "\<exists>r. compress_loop outLimit vs [] c = Some r \<and> (\<forall>c'. r = Some c' \<longrightarrow> compressed outLimit c (slots_of vs M) c')"
  using assms
proof (induction vs arbitrary: M c)
  case Nil
  have "\<not> rc_fault c"
    using Nil.prems(1) by (auto simp: at_round_def split: prod.splits)
  then show ?case
    unfolding compress_loop.simps slots_of.simps using flush_compressed by blast
next
  case (Cons v vs)
  obtain r where run: "encode_contexts outLimit v (unat (rc_predicted c)) Predicted c = Some r"
    and r: "\<And>c'. r = Some c' \<Longrightarrow> at_round (advance v M) (next_symbol_input c') \<and>
      wrote outLimit c (slots (fst M) v (fst (snd M))) (next_symbol_input c')"
    using encode_round [OF Cons.prems] by blast
  show ?case
  proof (cases r)
    case None
    then show ?thesis
      using run by simp
  next
    case (Some c1)
    let ?c = "next_symbol_input c1"
    note step = conjunct1 [OF r [OF Some]] conjunct2 [OF r [OF Some]]
    obtain r' where "compress_loop outLimit vs [] ?c = Some r'" "\<And>c'. r' = Some c' \<Longrightarrow> compressed outLimit ?c (slots_of vs (advance v M)) c'"
      using Cons.IH [OF step(1) wrote_ready [OF step(2) Cons.prems(2)]] by blast
    then show ?thesis
      using run Some wrote_compressed [OF step(2)] by simp
  qed
qed

section \<open>Decompressing\<close>

lemma decodes_split:
  "decodes low rng (ss @ ts) bs l r bs' \<Longrightarrow> \<exists>l1 r1 bs1. decodes low rng ss bs l1 r1 bs1 \<and> decodes l1 r1 ts bs1 l r bs'"
proof (induction ss arbitrary: low rng bs)
  case Nil
  then show ?case
    using decodes_Nil by force
next
  case (Cons s ss)
  obtain b k t where s: "s = (b, k, t)" by (cases s)
  obtain ds l1 r1 where d: "slot_ok b k t" "within (low + b * (rng div t)) (rng div t * k) (code_of bs)"
    "settles (low + b * (rng div t)) (rng div t * k) ds l1 r1" "decodes l1 r1 (ss @ ts) (drop (length ds) bs) l r bs'"
    using Cons.prems unfolding s append_Cons by (rule decodes_ConsE) blast
  then show ?case
    unfolding s using Cons.IH [OF d(4)] decodes_Cons [OF d(1-3)] by blast
qed

lemma decodes_append:
  "decodes low rng ss bs l1 r1 bs1 \<Longrightarrow> decodes l1 r1 ts bs1 l r bs' \<Longrightarrow> decodes low rng (ss @ ts) bs l r bs'"
  by (induction rule: decodes.induct) (auto intro: decodes_Cons)

lemma decodes_interval:
  "decodes low rng ss bs l r bs' \<Longrightarrow> interval low rng \<Longrightarrow> interval_done low rng \<Longrightarrow> interval l r \<and> interval_done l r"
  by (induction rule: decodes.induct) (auto dest: settles_interval narrowed_interval(1))

lemma found_visited: "found_in k v A \<in> visited k v A"
  by (induction k) auto

lemma learnt_found:
  assumes "found a A K f v c a' c1" "f = found_in p v A" "learnt a' A (insert (f @ [v]) K) None p v d c2"
  shows "learnt a A K None p v c c2"
proof -
  have "reached p v A (insert (f @ [v]) K) = reached p v A K"
    using found_visited [of p v A] assms(2) by (auto simp: reached_def)
  then show ?thesis
    using assms(1,3) by (auto simp: learnt_def found_def)
qed

lemma decode_round:
  assumes "at_round M c" "ready c" "decodes (rc_low c) (rc_range c) (slots (fst M) v (fst (snd M)) @ ss) bs l r bs'"
  shows "\<exists>sub bottom bs1 c1 c'. decode_contexts (unat (rc_predicted c)) (reading bs c) = Some (Inr (Decoded sub bottom v, reading bs1 c1)) \<and>
    patch_contexts sub bottom v (unat (rc_predicted c)) Predicted (reading bs1 c1) = Some (reading bs1 c') \<and>
    (\<forall>out. at_round (advance v M) (next_symbol_input (c'\<lparr>rc_out := out\<rparr>))) \<and>
    decodes (rc_low c') (rc_range c') ss bs1 l r bs' \<and> ready c' \<and> rc_out c' = rc_out c"
proof -
  obtain p A K where M: "M = (p, A, K)" by (cases M)
  obtain a where a: "coder_at a A K c" "parented a K {} (rc_symbols c)" "unat (rc_predicted c) = a p"
    and r: "p \<in> K" "model_ok A" "length p \<le> 2" "card K < 4094"
    using assms(1) by (auto simp: at_round_def M)
  obtain l1 r1 bs1 where d: "decodes (rc_low c) (rc_range c) (slots p v A) bs l1 r1 bs1" "decodes l1 r1 ss bs1 l r bs'"
    using decodes_split [OF assms(3)] by (auto simp: M)
  let ?f = "found_in p v A"
  obtain a' c1 where c1: "decode_contexts (a p) (reading bs c) = Some (Inr (Decoded (a ?f) (a' (?f @ [v])) v, reading bs1 c1))"
    "found a A K ?f v c a' c1" "rc_low c1 = l1" "rc_range c1 = r1"
    using decode_contexts_finds [OF a(1,2) r(1,2) _ assms(2) d(1)] r(4) by auto
  let ?K = "insert (?f @ [v]) K" and ?c = "reading bs1 c1"
  have at: "coder_at a' (A(?f := seen ?f v (A ?f))) ?K ?c" "parented a' ?K (set_option None) (rc_symbols ?c)"
    and same: "\<forall>x \<in> K. a' x = a x" "rc_out c1 = rc_out c" "rc_order c1 = rc_order c" "rc_fault c1 = rc_fault c"
    using c1(2) unfolding found_def coder_at_def by simp_all
  have "waits a' ?K None Predicted (p @ [v])" "p \<in> ?K" "?f @ [v] \<in> ?K" "card ?K + length p \<le> symbolCount"
    using r coder_at_finite [OF a(1)] by (simp_all add: waits_def card_insert_if)
  then obtain c2 where c2: "patch_contexts (a' ?f) (a' (?f @ [v])) v (a' p) Predicted ?c = Some c2"
    "learnt a' A ?K None p v ?c c2" "same_coding ?c c2"
    using patch_learns [OF at _ _ _ refl r(2)] by blast
  have "a ?f = a' ?f"
  proof -
    have st: "stored a' (A(?f := seen ?f v (A ?f))) ?K (rc_symbols c1)"
      using at(1) unfolding coder_at_def by simp
    have "?f \<in> ?K"
      using storedD(7) [OF st, of ?f v] by blast
    then show ?thesis
      using same(1) by auto
  qed
  moreover have "a' p = a p"
    using same(1) r(1) by simp
  moreover have c2': "reading bs1 c2 = c2"
    using same_coding_reading [OF c2(3)] .
  moreover have "at_round (advance v M) (next_symbol_input (c2\<lparr>rc_out := out\<rparr>))" for out
  proof -
    have "learnt a A K None p v c (c2\<lparr>rc_out := out\<rparr>)"
      using learnt_found [OF c1(2) refl c2(2)] by (simp add: learnt_def coder_at_def)
    then show ?thesis
      unfolding M by (rule next_round [OF assms(1) [unfolded M]]) (use same same_codingD [OF c2(3)] in simp_all)
  qed
  moreover have "interval l1 r1" "interval_done l1 r1"
    using decodes_interval [OF d(1)] assms(2) by simp_all
  ultimately show ?thesis
    using c1 c2(1) d(2) a(3) same(2) same_codingD [OF c2(3)]
    by (intro exI [of _ "a ?f"] exI [of _ "a' (?f @ [v])"] exI [of _ bs1] exI [of _ c1] exI [of _ c2]) simp
qed

text \<open>The output ends where the escapes of all contexts follow.\<close>

fun rounds :: "u8 list \<Rightarrow> model \<Rightarrow> model" where
  "rounds [] M = M"
| "rounds (v # vs) M = rounds vs (advance v M)"

lemma decompress_end:
  assumes "at_round M c" "ready c" "decodes (rc_low c) (rc_range c) (end_slots (fst M) (fst (snd M))) bs l r bs'"
  shows "\<exists>c'. decompress_loop outLimit (reading bs c) = Some (Inr c') \<and> rc_out c' = rc_out c \<and> \<not> rc_fault c'"
proof -
  obtain p A K where M: "M = (p, A, K)" by (cases M)
  obtain a where a: "coder_at a A K c" "parented a K {} (rc_symbols c)" "unat (rc_predicted c) = a p"
    and r: "p \<in> K" "model_ok A" "\<not> rc_fault c"
    using assms(1) by (auto simp: at_round_def M)
  obtain c' where "decode_contexts (a p) (reading bs c) = Some (Inr (Finished, c'))" "rc_out c' = rc_out c" "rc_fault c' = rc_fault c"
    using decode_contexts_finish [OF a(1,2) r(1,2) assms(2) assms(3) [unfolded M fst_conv snd_conv]] by blast
  then show ?thesis
    using a(3) r(3) by (simp add: decompress_loop.simps)
qed

lemma decompress_stream:
  assumes "at_round M c" "ready c" "length (rc_out c) + length vs \<le> outLimit"
    and "decodes (rc_low c) (rc_range c) (slots_of vs M @ end_slots (fst (rounds vs M)) (fst (snd (rounds vs M)))) bs l r bs'"
  shows "\<exists>c'. decompress_loop outLimit (reading bs c) = Some (Inr c') \<and> rc_out c' = rc_out c @ vs \<and> \<not> rc_fault c'"
  using assms
proof (induction vs arbitrary: M c bs)
  case Nil
  then show ?case
    using decompress_end [of M c bs l r bs' outLimit] by simp
next
  case (Cons v vs)
  obtain sub bottom bs1 c1 c' where step: "decode_contexts (unat (rc_predicted c)) (reading bs c) = Some (Inr (Decoded sub bottom v, reading bs1 c1))"
    "patch_contexts sub bottom v (unat (rc_predicted c)) Predicted (reading bs1 c1) = Some (reading bs1 c')"
    "\<And>out. at_round (advance v M) (next_symbol_input (c'\<lparr>rc_out := out\<rparr>))"
    "decodes (rc_low c') (rc_range c') (slots_of vs (advance v M) @ end_slots (fst (rounds (v # vs) M)) (fst (snd (rounds (v # vs) M)))) bs1 l r bs'"
    "ready c'" "rc_out c' = rc_out c"
    using decode_round [OF Cons.prems(1,2)] Cons.prems(4) unfolding slots_of.simps append_assoc by blast
  let ?c = "next_symbol_input (c'\<lparr>rc_out := rc_out c @ [v]\<rparr>)"
  have out: "ENET_RANGE_CODER_OUTPUT outLimit v (reading bs1 c') = Some (reading bs1 (c'\<lparr>rc_out := rc_out c @ [v]\<rparr>))"
    using Cons.prems(3) step(6) by (simp add: ENET_RANGE_CODER_OUTPUT_def reading_def)
  have run: "decompress_loop outLimit (reading bs c) = decompress_loop outLimit (reading bs1 ?c)"
    by (subst decompress_loop.simps) (simp add: step(1,2) out next_symbol_input_keeps)
  have c: "ready ?c" "length (rc_out ?c) + length vs \<le> outLimit" "rc_out ?c = rc_out c @ [v]"
    "decodes (rc_low ?c) (rc_range ?c) (slots_of vs (advance v M) @ end_slots (fst (rounds vs (advance v M))) (fst (snd (rounds vs (advance v M))))) bs1 l r bs'"
    using Cons.prems(3) step(4,5) by (simp_all add: next_symbol_input_keeps)
  show ?case
    using Cons.IH [OF step(3) c(1,2,4)] run c(3) by simp
qed

section \<open>The whole input\<close>

lemma start_coder_round:
  "at_round ([], fresh, {[]}) (start_coder symbols)" "ready (start_coder symbols)"
  "rc_low (start_coder symbols) = 0" "rc_range (start_coder symbols) = - 1" "rc_out (start_coder symbols) = []"
proof -
  let ?c = "\<lparr>rc_symbols = symbols, rc_fault = False, rc_nextSymbol = 0, rc_low = 0, rc_range = - 1, rc_predicted = 0,
    rc_order = 0, rc_out = []\<rparr>"
  have start: "start_coder symbols = (restarted ?c)\<lparr>rc_predicted := 0, rc_order := 0\<rparr>"
    using create_root [of ?c] by (simp add: start_coder_def restarted_def Let_def)
  show "at_round ([], fresh, {[]}) (start_coder symbols)"
    unfolding start by (rule restarted_round) simp
  show init: "rc_low (start_coder symbols) = 0" "rc_range (start_coder symbols) = - 1" "rc_out (start_coder symbols) = []"
    by (simp_all add: start restarted_def Let_def)
  have "unat (- 1 :: u32) = 4294967295"
    using unat_minus_cases [of "0 :: u32" 1] by simp
  then show "ready (start_coder symbols)"
    unfolding init by (simp add: interval_def interval_done_def)
qed

lemma start_decoder_round:
  "\<exists>c. start_decoder symbols bs = reading bs c \<and> at_round ([], fresh, {[]}) c \<and> ready c \<and> rc_low c = 0 \<and> rc_range c = - 1 \<and> rc_out c = []"
proof -
  let ?c = "\<lparr>rc_symbols = symbols, rc_fault = False, rc_nextSymbol = 0, rc_low = 0, rc_range = - 1, rc_predicted = 0,
    rc_order = 0, rc_out = [], rc_code = 0, rc_in = bs\<rparr>"
  let ?d = "(restarted ?c)\<lparr>rc_predicted := 0, rc_order := 0\<rparr>"
  have "start_decoder symbols bs = ENET_RANGE_CODER_SEED ?d"
    using create_root [of ?c] by (simp add: start_decoder_def restarted_def Let_def)
  also have "\<dots> = reading bs ?d"
    by (rule seed_reading) (simp_all add: restarted_def Let_def)
  finally have start: "start_decoder symbols bs = reading bs ?d" .
  have "at_round ([], fresh, {[]}) ?d"
    by (rule restarted_round) simp
  moreover have "rc_low ?d = 0" "rc_range ?d = - 1" "rc_out ?d = []"
    by (simp_all add: restarted_def Let_def)
  moreover from this have "ready ?d"
    using start_coder_round(2-4) [of symbols] by (simp only:)
  ultimately show ?thesis
    using start by blast
qed

lemma compressed_decompresses:
  assumes "compress_loop outLimit vs [] (start_coder symbols) = Some (Some c)" "rc_out c \<noteq> []" "length vs \<le> outLimit'"
  shows "enet_range_coder_decompress symbols' (rc_out c) outLimit' = Some vs"
proof -
  let ?M = "([], fresh, {[]})" let ?N = "rounds vs ?M"
  note start = start_coder_round [of symbols]
  have "compressed outLimit (start_coder symbols) (slots_of vs ?M) c"
    using compress_stream [OF start(1,2), of outLimit vs] assms(1) by auto
  then obtain ds fl l r where ds: "codes 0 (- 1) (slots_of vs ?M) ds l r" "code_of fl = l" "length fl \<le> 4" "rc_out c = ds @ fl"
    unfolding compressed_def start(3-5) by auto
  have int: "interval 0 (- 1)" "interval_done 0 (- 1)"
    using start(2-4) by simp_all
  have lr: "interval l r" "interval_done l r"
    using codes_interval [OF ds(1) int] by simp_all
  then have "within l r (code_of fl)"
    using ds(2) by (simp add: within_def interval_def)
  then have body: "decodes 0 (- 1) (slots_of vs ?M) (ds @ fl) l r fl"
    using codes_decodes [OF ds(1) int] by simp
  have "model_ok (fst (snd ?N))"
  proof -
    have "model_ok (fst (snd M)) \<Longrightarrow> model_ok (fst (snd (rounds vs M)))" for M
      by (induction vs M rule: rounds.induct) (auto simp: advance_def fresh_ok learn_ok split: prod.splits)
    then show ?thesis
      using fresh_ok by simp
  qed
  then obtain l' r' bs' where "decodes l r (end_slots (fst ?N) (fst (snd ?N))) fl l' r' bs'"
    using start_decodes [OF lr ds(2,3)] end_slots_ok by blast
  then have all: "decodes 0 (- 1) (slots_of vs ?M @ end_slots (fst ?N) (fst (snd ?N))) (rc_out c) l' r' bs'"
    unfolding ds(4) using decodes_append [OF body] by blast
  obtain d where d: "start_decoder symbols' (rc_out c) = reading (rc_out c) d" "at_round ?M d" "ready d"
    "rc_low d = 0" "rc_range d = - 1" "rc_out d = []"
    using start_decoder_round by blast
  obtain d' where "decompress_loop outLimit' (start_decoder symbols' (rc_out c)) = Some (Inr d')" "rc_out d' = vs" "\<not> rc_fault d'"
    using decompress_stream [OF d(2,3), of vs outLimit' "rc_out c" l' r' bs'] all assms(3) unfolding d(1,4-6) by auto
  then show ?thesis
    using assms(2) by (simp add: enet_range_coder_decompress_def)
qed

lemma compress_whole:
  assumes "buffers \<noteq> []" "[] \<notin> set (tl buffers)" "inLimit \<noteq> 0"
  shows "enet_range_coder_compress symbols buffers inLimit outLimit =
    (case compress_loop outLimit (concat buffers) [] (start_coder symbols) of
       None \<Rightarrow> None | Some None \<Rightarrow> Some [] | Some (Some c) \<Rightarrow> if rc_fault c then None else Some (rc_out c))"
proof -
  obtain data rest where b: "buffers = data # rest"
    using assms(1) by (cases buffers) auto
  then have "compress_loop outLimit data rest (start_coder symbols) = compress_loop outLimit (concat buffers) [] (start_coder symbols)"
    using compress_loop_buffers [of rest outLimit data] assms(2) by simp
  then show ?thesis
    using assms(3) b by (simp add: enet_range_coder_compress_def)
qed

lemma decompress_after_compress:
  assumes "enet_range_coder_compress symbols buffers inLimit outLimit = Some out" "out \<noteq> []"
    and "length (concat buffers) \<le> outLimit'"
  shows "enet_range_coder_decompress symbols' out outLimit' = Some (concat buffers)"
proof -
  obtain data rest where b: "buffers = data # rest" "inLimit \<noteq> 0"
    using assms(1,2) by (auto simp: enet_range_coder_compress_def split: list.splits if_splits)
  then obtain c where c: "compress_loop outLimit data rest (start_coder symbols) = Some (Some c)" "out = rc_out c"
    using assms(1,2) by (auto simp: enet_range_coder_compress_def split: option.splits if_splits)
  then have "compress_loop outLimit (concat buffers) [] (start_coder symbols) = Some (Some c)"
    using compress_loop_buffers [OF compress_loop_no_empty [OF c(1)], of outLimit data "start_coder symbols"] b(1) by simp
  then show ?thesis
    using compressed_decompresses assms(2,3) c(2) by blast
qed

text \<open>C6: What the compressor returned, the decompressor turns back into the bytes of the buffers: for
  every input, whatever the arrays of symbols of the two held before, if something was returned at
  all and the output has room for it.\<close>

theorem range_coder_round_trip:
  assumes "enet_range_coder_compress symbols buffers inLimit outLimit = Some out" "out \<noteq> []"
    and "length (concat buffers) \<le> outLimit'"
  shows "enet_range_coder_decompress symbols' out outLimit' = Some (concat buffers)"
  using assms by (rule decompress_after_compress)

theorem range_coder_round_trip_witness:
  "enet_range_coder_decompress (\<lambda>_. new_symbol 1 2) [65, 190, 65, 190] 1 = Some [65]"
proof -
  have "enet_range_coder_compress (\<lambda>_. new_symbol 0 0) [[65]] 1 10 = Some [65, 190, 65, 190]"
    by code_simp
  then show ?thesis
    using range_coder_round_trip [of "\<lambda>_. new_symbol 0 0" "[[65]]" 1 10 "[65, 190, 65, 190]" 1 "\<lambda>_. new_symbol 1 2"] by simp
qed

lemma compress_returns:
  assumes "[] \<notin> set (tl buffers)"
  shows "\<exists>out. enet_range_coder_compress symbols buffers inLimit outLimit = Some out \<and> length out \<le> outLimit"
proof (cases "buffers = [] \<or> inLimit = 0")
  case True
  then show ?thesis
    by (auto simp: enet_range_coder_compress_def split: list.split)
next
  case False
  note start = start_coder_round [of symbols]
  obtain r where r: "compress_loop outLimit (concat buffers) [] (start_coder symbols) = Some r"
    "\<And>c'. r = Some c' \<Longrightarrow> compressed outLimit (start_coder symbols) (slots_of (concat buffers) ([], fresh, {[]})) c'"
    using compress_stream [OF start(1,2)] by blast
  show ?thesis
    using r False assms start(5) by (cases r) (auto simp: compress_whole compressed_def)
qed

text \<open>C8: The compressor ends on every input whose buffers after the first are not empty, uses no
  symbol outside its array, not even where the array is full and starts again, and writes no more
  bytes than there is room for.\<close>

theorem compressor_stays_inside:
  assumes "[] \<notin> set (tl buffers)"
  shows "\<exists>out. enet_range_coder_compress symbols buffers inLimit outLimit = Some out \<and> length out \<le> outLimit"
  using assms by (rule compress_returns)

theorem compressor_stays_inside_witness:
  "\<exists>out. enet_range_coder_compress (\<lambda>_. new_symbol 0 0) [[], [65, 66], [65]] 3 2 = Some out \<and> length out \<le> 2"
  by (rule compressor_stays_inside) simp

text \<open>C23: How the input is cut into buffers makes no difference, as long as no buffer after the first
  is empty: the compressor sees the bytes in a row.\<close>

theorem buffers_are_one_input:
  assumes "buffers \<noteq> []" "[] \<notin> set (tl buffers)"
  shows "enet_range_coder_compress symbols buffers inLimit outLimit =
    enet_range_coder_compress symbols [concat buffers] inLimit outLimit"
proof (cases "inLimit = 0")
  case True
  then show ?thesis
    using assms(1) by (simp add: enet_range_coder_compress_def split: list.split)
next
  case False
  then show ?thesis
    using assms by (simp add: compress_whole)
qed

theorem buffers_are_one_input_witness:
  "enet_range_coder_compress (\<lambda>_. new_symbol 0 0) [[65], [66, 67]] 3 9 =
    enet_range_coder_compress (\<lambda>_. new_symbol 0 0) [[65, 66, 67]] 3 9"
  using buffers_are_one_input [of "[[65], [66, 67]]"] by simp

end
