(* ===== verification/Enet_Compressed.thy ===== *)
theory Enet_Compressed
  imports Enet_Streams Enet_Framing
begin

text \<open>
  The range coder as the compressor of two hosts: what the receive path asks of the compressor of
  the sender holds of it.
\<close>

lemma range_coder_undoes:
  assumes "enet_host_compress_with_range_coder symbols h0 = (0, h)" "enet_host_compress_with_range_coder symbols' k0 = (0, k)"
    and "length (encode_frames fs) \<le> 4088" "packed_frames h fs = Some out"
  shows "\<exists>d. h_decompress k = Some d \<and>
    (\<forall>rest limit. length (encode_frames fs) \<le> unat limit \<longrightarrow> d (out @ rest) (of_nat (length out)) limit = encode_frames fs)"
proof -
  have h: "h_compress h = cp_compress (range_coder symbols)" and k: "h_decompress k = cp_decompress (range_coder symbols')"
    using assms(1,2)
    by (auto simp: enet_host_compress_with_range_coder_def enet_host_compress_def split: prod.splits option.splits)
  let ?n = "of_nat (length (encode_frames fs)) :: u64"
  have out: "enet_range_coder_compress symbols (frame_buffers fs) (unat ?n) (unat ?n) = Some out" "out \<noteq> []"
    "length out < length (encode_frames fs)"
    using assms(4) h by (auto simp: packed_frames_def range_coder_def Let_def split: option.splits if_splits)
  have "unat (of_nat (length out) :: u64) = length out"
    by (rule unat_of_nat_small) (use out(3) assms(3) in simp)
  then show ?thesis
    using k decompress_after_compress [OF out(1,2)] by (simp add: range_coder_def concat_frame_buffers)
qed

text \<open>The compressor is given every command and every payload in a buffer of its own.\<close>

lemma range_coder_returns:
  assumes "enet_host_compress_with_range_coder symbols h0 = (0, h)" "\<forall>f \<in> set fs. snd f \<noteq> Some []"
  shows "\<exists>compress out. h_compress h = Some compress \<and> compress (frame_buffers fs) n n = Some out \<and> length out \<le> unat n"
proof -
  have "h_compress h = cp_compress (range_coder symbols)"
    using assms(1)
    by (auto simp: enet_host_compress_with_range_coder_def enet_host_compress_def split: prod.splits option.splits)
  moreover have "[] \<notin> set (frame_buffers fs)"
    using assms(2) by (induction fs) (auto simp: encode_command_def put16_def split: option.splits)
  then have "[] \<notin> set (tl (frame_buffers fs))"
    by (cases "frame_buffers fs") simp_all
  ultimately show ?thesis
    using compress_returns [of "frame_buffers fs" symbols "unat n" "unat n"] by (simp add: range_coder_def)
qed

text \<open>C7: A compressed datagram from end to end: with the library's own range coder on both hosts, which
  each enabled with a call of its own, nothing is asked of the compressor any more.  For commands none
  of which carries an empty packet, whose buffer \<open>enet_range_coder_compress\<close> would read past, the
  compressor returns on the sender's buffers within its limit, and the commands reach their
  handlers, compressed or not.\<close>

theorem compressed_datagram_reaches_handlers:
  assumes "enet_host_compress_with_range_coder symbols h0 = (0, h)" "enet_host_compress_with_range_coder symbols' k0 = (0, k)"
    and "list_all frame_ok fs" "length (encode_frames fs) \<le> 4088" "\<forall>f \<in> set fs. snd f \<noteq> Some []"
    and "p_outgoingPeerID p \<le> ENET_PROTOCOL_MAXIMUM_PEER_ID" "p_outgoingSessionID p \<le> 3"
    and "h_receivedData k = written_datagram h p fs @ rest"
      "h_receivedDataLength k = length (written_datagram h p fs)"
    and "header_peer k (parse_header k) = Some peer"
    and "h_checksum k = h_checksum h"
      "checksum_connectID p = (case peer of None \<Rightarrow> 0 | Some i \<Rightarrow> p_connectID (peer_at k i))"
  shows "(\<exists>compress out. h_compress h = Some compress \<and> length out \<le> length (encode_frames fs)
      \<and> compress (frame_buffers fs) (of_nat (length (encode_frames fs))) (of_nat (length (encode_frames fs))) = Some out)
    \<and> (\<exists>D event' k'. process_frames (ucast (h_serviceTime h AND 0xFFFF)) (length (datagram_header_of h p fs)) fs peer event
      (opened peer D (length (datagram_header_of h p fs) + length (encode_frames fs)) k) = Some (event', k')
    \<and> enet_protocol_handle_incoming_commands event k = (event_reported event', event', k'))"
proof
  have "unat (of_nat (length (encode_frames fs)) :: u64) = length (encode_frames fs)"
    by (rule unat_of_nat_small) (use assms(4) in simp)
  then show "\<exists>compress out. h_compress h = Some compress \<and> length out \<le> length (encode_frames fs)
      \<and> compress (frame_buffers fs) (of_nat (length (encode_frames fs))) (of_nat (length (encode_frames fs))) = Some out"
    using range_coder_returns [OF assms(1,5), of "of_nat (length (encode_frames fs))"] by auto
qed (use assms(3,4,6-12) range_coder_undoes [OF assms(1,2,4)] in \<open>rule datagram_handled\<close>)

text \<open>Two hosts with the range coder on, and what the second received from the first.\<close>

definition packing_host :: ENetHost where
  "packing_host = snd (enet_host_compress_with_range_coder (\<lambda>_. new_symbol 0 0) (sample_host []))"

definition packed_received :: ENetHost where
  "packed_received = snd (enet_host_compress_with_range_coder (\<lambda>_. new_symbol 0 0)
     ((sample_host [sample_peer])\<lparr>h_receivedAddress := \<lparr>ad_host = 1, ad_port = 2\<rparr>,
        h_receivedData := written_datagram packing_host sample_peer [ping_frame],
        h_receivedDataLength := length (written_datagram packing_host sample_peer [ping_frame])\<rparr>))"

lemmas coder_defs = enet_host_compress_with_range_coder_def enet_range_coder_create_def enet_host_compress_def enet_malloc_def
  sample_host_def

theorem compressed_datagram_reaches_handlers_witness:
  "\<exists>D event' k'. process_frames 0 (length (datagram_header_of packing_host sample_peer [ping_frame])) [ping_frame] (Some 0) None
      (opened (Some 0) D (length (datagram_header_of packing_host sample_peer [ping_frame]) + 4) packed_received) = Some (event', k')
    \<and> enet_protocol_handle_incoming_commands None packed_received = (event_reported event', event', k')"
proof -
  have on: "enet_host_compress_with_range_coder (\<lambda>_. new_symbol 0 0) (sample_host []) = (0, packing_host)"
    "enet_host_compress_with_range_coder (\<lambda>_. new_symbol 0 0)
     ((sample_host [sample_peer])\<lparr>h_receivedAddress := \<lparr>ad_host = 1, ad_port = 2\<rparr>,
        h_receivedData := written_datagram packing_host sample_peer [ping_frame],
        h_receivedDataLength := length (written_datagram packing_host sample_peer [ping_frame])\<rparr>) = (0, packed_received)"
    by (simp_all add: packing_host_def packed_received_def coder_defs)
  have data: "h_receivedData packed_received = written_datagram packing_host sample_peer [ping_frame] @ []"
    "h_receivedDataLength packed_received = length (written_datagram packing_host sample_peer [ping_frame])"
    "h_checksum packed_received = h_checksum packing_host" "h_serviceTime packing_host = 0"
    by (simp_all add: packing_host_def packed_received_def coder_defs)
  have frame: "list_all frame_ok [ping_frame]" "length (encode_frames [ping_frame]) = 4"
    by (simp_all add: ping_frame_def frame_ok_def wf_command_def command_number_def encode_command_def put16_def)
  have full: "\<forall>f \<in> set [ping_frame]. snd f \<noteq> Some []"
    by (simp add: ping_frame_def)
  have ids: "p_outgoingPeerID sample_peer \<le> ENET_PROTOCOL_MAXIMUM_PEER_ID" "p_outgoingSessionID sample_peer \<le> 3"
    by (simp_all add: sample_peer_def)
  have peers: "h_peers packed_received = [sample_peer]" "h_receivedAddress packed_received = \<lparr>ad_host = 1, ad_port = 2\<rparr>"
    "h_checksum packing_host = None"
    by (simp_all add: packing_host_def packed_received_def coder_defs)
  have "dg_peerID (parse_header packed_received) = 0" "dg_sessionID (parse_header packed_received) = 0"
    using parse_written [OF ids data(1,3)] by (simp_all add: sample_peer_def)
  then have header: "header_peer packed_received (parse_header packed_received) = Some (Some 0)"
    using peers by (simp add: header_peer_def wrong_sender_def peer_at_def sample_peer_def)
  have "checksum_connectID sample_peer = p_connectID (peer_at packed_received 0)"
    using peers by (simp add: checksum_connectID_def peer_at_def sample_peer_def)
  then show ?thesis
    using compressed_datagram_reaches_handlers [OF on frame(1) _ full ids data(1,2) header data(3), of None] frame(2) data(4)
    by (simp del: process_frames.simps encode_frames_simps)
qed

end
