(* ===== verification/Enet_Handshake.thy ===== *)
theory Enet_Handshake
  imports Enet_Framing
begin

text \<open>
  The handshake of two hosts: the request \<open>enet_host_connect\<close> queues, the reply
  \<open>enet_protocol_handle_connect\<close> queues, what \<open>enet_protocol_handle_verify_connect\<close> makes of it, and
  what \<open>enet_protocol_handle_acknowledge\<close> makes of the acknowledgement of the reply.
\<close>

section \<open>What the two sides negotiate\<close>

definition link_view :: "ENetPeer \<Rightarrow> ENetPeerState \<times> u16 \<times> u16 \<times> u32 \<times> u8 \<times> u8 \<times> u32 \<times> nat \<times> u32 \<times> u32 \<times> u32" where
  "link_view p = (p_state p, p_outgoingPeerID p, p_incomingPeerID p, p_connectID p, p_outgoingSessionID p,
     p_incomingSessionID p, p_mtu p, p_channelCount p, p_packetThrottleInterval p, p_packetThrottleAcceleration p,
     p_packetThrottleDeceleration p)"

text \<open>Each side writes to the other under the identifiers the other reads, and both agree on the rest.\<close>

definition paired :: "ENetPeer \<Rightarrow> ENetPeer \<Rightarrow> bool" where
  "paired p q \<longleftrightarrow>
     p_outgoingPeerID p = p_incomingPeerID q \<and> p_outgoingPeerID q = p_incomingPeerID p \<and>
     p_outgoingSessionID p = p_incomingSessionID q \<and> p_outgoingSessionID q = p_incomingSessionID p \<and>
     p_outgoingSessionID p \<le> 3 \<and> p_outgoingSessionID q \<le> 3 \<and>
     p_connectID p = p_connectID q \<and> p_mtu p = p_mtu q \<and> p_channelCount p = p_channelCount q \<and>
     p_packetThrottleInterval p = p_packetThrottleInterval q \<and>
     p_packetThrottleAcceleration p = p_packetThrottleAcceleration q \<and>
     p_packetThrottleDeceleration p = p_packetThrottleDeceleration q"

text \<open>The call that made \<open>h'\<close> of \<open>h\<close> queued a command without a payload for peer \<open>i\<close>.\<close>

definition queued_for :: "nat \<Rightarrow> ENetHost \<Rightarrow> ENetHost \<Rightarrow> ENetProtocolBody \<Rightarrow> bool" where
  "queued_for i h h' body \<longleftrightarrow>
     length (p_outgoingCommands (peer_at h' i)) = Suc (length (p_outgoingCommands (peer_at h i))) \<and>
     pr_body (oc_command (last (p_outgoingCommands (peer_at h' i)))) = body"

lemma link_view_setup [simp]:
  "hd_channelID (oc_command oc) = 0xFF \<Longrightarrow> link_view (setup_outgoing_command queued oc p) = link_view p"
  by (simp add: setup_outgoing_command_def number_outgoing_command_def link_view_def Let_def)

lemma queue_host_command:
  assumes "i < length (h_peers h)"
  shows "link_view (peer_at (snd (enet_peer_queue_outgoing_command i (host_command flags body) None 0 0 h)) i) = link_view (peer_at h i)"
    "queued_for i h (snd (enet_peer_queue_outgoing_command i (host_command flags body) None 0 0 h)) body'
     \<Longrightarrow> body' = number_body 0 (p_outgoingUnsequencedGroup (peer_at h i)) body"
proof -
  let ?m = "snd (enet_malloc h)"
  have m: "h_peers ?m = h_peers h" "peer_at ?m i = peer_at h i"
    by (simp_all add: enet_malloc_def Let_def peer_at_def)
  show "link_view (peer_at (snd (enet_peer_queue_outgoing_command i (host_command flags body) None 0 0 h)) i) = link_view (peer_at h i)"
    using assms m by (simp add: enet_peer_queue_outgoing_command_def enet_peer_setup_outgoing_command_def host_command_def
        new_outgoing_command_def Let_def case_prod_beta split: option.split)
  show "queued_for i h (snd (enet_peer_queue_outgoing_command i (host_command flags body) None 0 0 h)) body'
     \<Longrightarrow> body' = number_body 0 (p_outgoingUnsequencedGroup (peer_at h i)) body"
    using assms m by (simp add: enet_peer_queue_outgoing_command_def enet_peer_setup_outgoing_command_def host_command_def
        new_outgoing_command_def setup_outgoing_command_def number_outgoing_command_def queued_for_def Let_def case_prod_beta
        split: option.splits)
qed

lemma peer_at_next: "peer_at (h\<lparr>en_next := k\<rparr>) i = peer_at h i"
  by (simp add: peer_at_def)

lemma queue_host_command_made:
  assumes "i < length (h_peers h)" "en_malloc h = (\<lambda>_. True)"
  shows "hd_channelID (oc_command (last (p_outgoingCommands (peer_at (snd (enet_peer_queue_outgoing_command i (host_command flags body) None 0 0 h)) i)))) = 0xFF"
    "hd_command (oc_command (last (p_outgoingCommands (peer_at (snd (enet_peer_queue_outgoing_command i (host_command flags body) None 0 0 h)) i))))
      = body_number body OR flags"
    "queued_for i h (snd (enet_peer_queue_outgoing_command i (host_command flags body) None 0 0 h))
    (number_body 0 (p_outgoingUnsequencedGroup (peer_at h i)) body)"
  using assms peer_at_next by (simp_all add: enet_peer_queue_outgoing_command_def enet_malloc_def enet_peer_setup_outgoing_command_def
      host_command_def new_outgoing_command_def setup_outgoing_command_def number_outgoing_command_def queued_for_def Let_def)

section \<open>The request and the reply\<close>

definition connecting_peer :: "ENetHost \<Rightarrow> ENetAddress \<Rightarrow> nat \<Rightarrow> u32 \<Rightarrow> ENetPeer \<Rightarrow> ENetPeer" where
  "connecting_peer h address n connectID p = p\<lparr>p_channelCount := n, p_state := CONNECTING, p_address := address,
     p_connectID := connectID, p_mtu := h_mtu h, p_windowSize := connect_windowSize h,
     p_channels := replicate n initial_channel\<rparr>"

definition connect_request :: "ENetHost \<Rightarrow> nat \<Rightarrow> u32 \<Rightarrow> ENetPeer \<Rightarrow> ENetProtocolConnect" where
  "connect_request h n data p = \<lparr>cn_outgoingPeerID = p_incomingPeerID p, cn_incomingSessionID = p_incomingSessionID p,
     cn_outgoingSessionID = p_outgoingSessionID p, cn_mtu = p_mtu p, cn_windowSize = p_windowSize p,
     cn_channelCount = of_nat n, cn_incomingBandwidth = h_incomingBandwidth h,
     cn_outgoingBandwidth = h_outgoingBandwidth h, cn_packetThrottleInterval = p_packetThrottleInterval p,
     cn_packetThrottleAcceleration = p_packetThrottleAcceleration p,
     cn_packetThrottleDeceleration = p_packetThrottleDeceleration p, cn_connectID = p_connectID p, cn_data = data\<rparr>"

lemma host_connect_queues:
  assumes "enet_host_connect address n data h = (Some i, h')"
  obtains k m connectID where "i < length (h_peers h)" "0 < m" "m \<le> 255" "h_peers k = h_peers h" "h_mtu k = h_mtu h"
    "en_malloc k = en_malloc h" "h' = snd (enet_peer_queue_outgoing_command i (host_command ENET_PROTOCOL_COMMAND_FLAG_ACKNOWLEDGE
       (Connect (connect_request k m data (connecting_peer k address m connectID (peer_at h i))))) None 0 0
       (upd_peer i (connecting_peer k address m connectID) k))"
proof -
  define m where "m = (if n < ENET_PROTOCOL_MINIMUM_CHANNEL_COUNT then ENET_PROTOCOL_MINIMUM_CHANNEL_COUNT
    else if n > ENET_PROTOCOL_MAXIMUM_CHANNEL_COUNT then ENET_PROTOCOL_MAXIMUM_CHANNEL_COUNT else n)"
  define k where "k = snd (enet_host_random (snd (enet_malloc h)))"
  have found: "find_state DISCONNECTED 0 (h_peers h) = Some i"
    using assms by (auto simp: enet_host_connect_def Let_def split: option.splits prod.splits)
  then have i: "i < length (h_peers h)"
    using find_state_Some [OF found] by simp
  have k: "h_peers k = h_peers h" "h_mtu k = h_mtu h" "peer_at k i = peer_at h i" "en_malloc k = en_malloc h"
    by (simp_all add: k_def enet_host_random_def enet_malloc_def Let_def peer_at_def)
  have m: "0 < m" "m \<le> 255"
    by (simp_all add: m_def)
  have "h' = snd (enet_peer_queue_outgoing_command i (host_command ENET_PROTOCOL_COMMAND_FLAG_ACKNOWLEDGE
       (Connect (connect_request k m data (connecting_peer k address m (fst (enet_host_random (snd (enet_malloc h)))) (peer_at h i))))) None 0 0
       (upd_peer i (connecting_peer k address m (fst (enet_host_random (snd (enet_malloc h))))) k))"
    using assms i k(1,3) unfolding enet_host_connect_def found Let_def case_prod_beta m_def [symmetric] k_def [symmetric]
    by (auto simp: connect_request_def connecting_peer_def [abs_def] k_def [symmetric] upd_peer_def peer_at_def split: option.splits)
  then show ?thesis
    using that i m k(1,2,4) by blast
qed

lemma request_link:
  assumes "enet_host_connect address n data h = (Some i, h')" "queued_for i h h' (Connect cn)"
  shows "i < length (h_peers h)" "p_state (peer_at h' i) = CONNECTING" "p_mtu (peer_at h' i) = h_mtu h"
    "0 < p_channelCount (peer_at h' i)" "p_channelCount (peer_at h' i) \<le> 255"
    "cn_outgoingPeerID cn = p_incomingPeerID (peer_at h' i)"
    "cn_incomingSessionID cn = p_incomingSessionID (peer_at h' i)" "cn_outgoingSessionID cn = p_outgoingSessionID (peer_at h' i)"
    "cn_mtu cn = h_mtu h" "unat (cn_channelCount cn) = p_channelCount (peer_at h' i)"
    "cn_connectID cn = p_connectID (peer_at h' i)"
    "cn_packetThrottleInterval cn = p_packetThrottleInterval (peer_at h' i)"
    "cn_packetThrottleAcceleration cn = p_packetThrottleAcceleration (peer_at h' i)"
    "cn_packetThrottleDeceleration cn = p_packetThrottleDeceleration (peer_at h' i)"
proof -
  obtain k m connectID where i: "i < length (h_peers h)" and m: "0 < m" "m \<le> 255" and k: "h_peers k = h_peers h" "h_mtu k = h_mtu h"
    and h': "h' = snd (enet_peer_queue_outgoing_command i (host_command ENET_PROTOCOL_COMMAND_FLAG_ACKNOWLEDGE
       (Connect (connect_request k m data (connecting_peer k address m connectID (peer_at h i))))) None 0 0
       (upd_peer i (connecting_peer k address m connectID) k))"
    using host_connect_queues [OF assms(1)] by blast
  let ?p = "connecting_peer k address m connectID (peer_at h i)" and ?k = "upd_peer i (connecting_peer k address m connectID) k"
  have ki: "i < length (h_peers ?k)" "peer_at ?k i = ?p"
    using i k by (simp_all add: peer_at_def upd_peer_def)
  have "queued_for i ?k h' (Connect cn)"
    using assms(2) ki(2) by (simp add: queued_for_def connecting_peer_def)
  then have cn: "cn = connect_request k m data ?p"
    using queue_host_command(2) [OF ki(1)] unfolding h' by fastforce
  have view: "link_view (peer_at h' i) = link_view ?p"
    unfolding h' queue_host_command(1) [OF ki(1)] by (simp only: ki(2))
  show "i < length (h_peers h)" by (fact i)
  show "p_state (peer_at h' i) = CONNECTING" "p_mtu (peer_at h' i) = h_mtu h"
    "0 < p_channelCount (peer_at h' i)" "p_channelCount (peer_at h' i) \<le> 255"
    "cn_outgoingPeerID cn = p_incomingPeerID (peer_at h' i)"
    "cn_incomingSessionID cn = p_incomingSessionID (peer_at h' i)" "cn_outgoingSessionID cn = p_outgoingSessionID (peer_at h' i)"
    "cn_mtu cn = h_mtu h" "unat (cn_channelCount cn) = p_channelCount (peer_at h' i)"
    "cn_connectID cn = p_connectID (peer_at h' i)"
    "cn_packetThrottleInterval cn = p_packetThrottleInterval (peer_at h' i)"
    "cn_packetThrottleAcceleration cn = p_packetThrottleAcceleration (peer_at h' i)"
    "cn_packetThrottleDeceleration cn = p_packetThrottleDeceleration (peer_at h' i)"
    using view m k(2) by (simp_all add: cn link_view_def connect_request_def connecting_peer_def unat_of_nat_small)
qed

lemma accepted_queues:
  assumes "enet_protocol_handle_connect cn h = (Some j, h')"
  obtains k where "j < length (h_peers h)" "h_peers k = h_peers h" "h_mtu k = h_mtu h" "0 < unat (cn_channelCount cn)"
    "en_malloc k = en_malloc h" "h' = snd (enet_peer_queue_outgoing_command j
       (verify_command k cn (min (unat (cn_channelCount cn)) (h_channelLimit h))
          (accept_peer k cn (min (unat (cn_channelCount cn)) (h_channelLimit h)) (peer_at h j))) None 0 0
       (upd_peer j (accept_peer k cn (min (unat (cn_channelCount cn)) (h_channelLimit h))) k))"
proof -
  define k where "k = snd (enet_malloc h)"
  have j: "j < length (h_peers h)"
    using handle_connect_free [OF assms] by simp
  have k: "h_peers k = h_peers h" "h_mtu k = h_mtu h" "peer_at k j = peer_at h j" "en_malloc k = en_malloc h"
    by (simp_all add: k_def enet_malloc_def Let_def peer_at_def)
  define m where "m = (if unat (cn_channelCount cn) > h_channelLimit h then h_channelLimit h else unat (cn_channelCount cn))"
  have m: "m = min (unat (cn_channelCount cn)) (h_channelLimit h)"
    by (simp add: m_def)
  have "0 < unat (cn_channelCount cn) \<and> h' = snd (enet_peer_queue_outgoing_command j (verify_command k cn m (accept_peer k cn m (peer_at h j))) None 0 0
       (upd_peer j (accept_peer k cn m) k))"
    using assms j k(1,3) unfolding enet_protocol_handle_connect_def Let_def case_prod_beta k_def [symmetric] m_def [symmetric]
    by (auto simp: upd_peer_def peer_at_def verify_command_def split: if_splits option.splits prod.splits)
  then show ?thesis
    using that j k(1,2,4) unfolding m by blast
qed

lemma next_session_small: "next_session requested current \<le> 3"
proof -
  have "(w :: u8) AND 3 \<le> 3" for w
    by (simp add: word_and_le1)
  then show ?thesis
    by (simp add: next_session_def Let_def)
qed

lemma accept_peer_fields:
  "p_state (accept_peer h c m p) = ACKNOWLEDGING_CONNECT" "p_channelCount (accept_peer h c m p) = m"
  "p_outgoingPeerID (accept_peer h c m p) = cn_outgoingPeerID c" "p_incomingPeerID (accept_peer h c m p) = p_incomingPeerID p"
  "p_connectID (accept_peer h c m p) = cn_connectID c"
  "p_outgoingSessionID (accept_peer h c m p) \<le> 3" "p_incomingSessionID (accept_peer h c m p) \<le> 3"
  "p_mtu (accept_peer h c m p) = min (clamp_mtu (cn_mtu c)) (h_mtu h)"
  "p_packetThrottleInterval (accept_peer h c m p) = cn_packetThrottleInterval c"
  "p_packetThrottleAcceleration (accept_peer h c m p) = cn_packetThrottleAcceleration c"
  "p_packetThrottleDeceleration (accept_peer h c m p) = cn_packetThrottleDeceleration c"
  by (auto simp: accept_peer_def Let_def next_session_small min_def)

lemma reply_link:
  assumes "enet_protocol_handle_connect cn h = (Some j, h')" "queued_for j h h' (VerifyConnect vc)"
  shows "j < length (h_peers h)" "0 < unat (cn_channelCount cn)" "p_state (peer_at h' j) = ACKNOWLEDGING_CONNECT"
    "p_outgoingPeerID (peer_at h' j) = cn_outgoingPeerID cn" "p_connectID (peer_at h' j) = cn_connectID cn"
    "p_outgoingSessionID (peer_at h' j) \<le> 3" "p_incomingSessionID (peer_at h' j) \<le> 3"
    "p_mtu (peer_at h' j) = min (clamp_mtu (cn_mtu cn)) (h_mtu h)"
    "p_channelCount (peer_at h' j) = min (unat (cn_channelCount cn)) (h_channelLimit h)"
    "p_packetThrottleInterval (peer_at h' j) = cn_packetThrottleInterval cn"
    "p_packetThrottleAcceleration (peer_at h' j) = cn_packetThrottleAcceleration cn"
    "p_packetThrottleDeceleration (peer_at h' j) = cn_packetThrottleDeceleration cn"
    "vc_outgoingPeerID vc = p_incomingPeerID (peer_at h' j)" "vc_connectID vc = cn_connectID cn"
    "vc_incomingSessionID vc = p_outgoingSessionID (peer_at h' j)" "vc_outgoingSessionID vc = p_incomingSessionID (peer_at h' j)"
    "vc_mtu vc = p_mtu (peer_at h' j)" "vc_channelCount vc = of_nat (p_channelCount (peer_at h' j))"
    "vc_packetThrottleInterval vc = cn_packetThrottleInterval cn"
    "vc_packetThrottleAcceleration vc = cn_packetThrottleAcceleration cn"
    "vc_packetThrottleDeceleration vc = cn_packetThrottleDeceleration cn"
proof -
  let ?m = "min (unat (cn_channelCount cn)) (h_channelLimit h)"
  obtain k where j: "j < length (h_peers h)" and k: "h_peers k = h_peers h" "h_mtu k = h_mtu h" and n: "0 < unat (cn_channelCount cn)"
    and h': "h' = snd (enet_peer_queue_outgoing_command j (verify_command k cn ?m (accept_peer k cn ?m (peer_at h j))) None 0 0
       (upd_peer j (accept_peer k cn ?m) k))"
    using accepted_queues [OF assms(1)] by blast
  let ?p = "accept_peer k cn ?m (peer_at h j)" and ?k = "upd_peer j (accept_peer k cn ?m) k"
  have kj: "j < length (h_peers ?k)" "peer_at ?k j = ?p"
    using j k by (simp_all add: peer_at_def upd_peer_def)
  have "queued_for j ?k h' (VerifyConnect vc)"
    using assms(2) kj(2) by (simp add: queued_for_def accept_peer_def Let_def)
  then have vc: "VerifyConnect vc = pr_body (verify_command k cn ?m ?p)"
    using queue_host_command(2) [OF kj(1)] unfolding h' verify_command_def by (fastforce simp: host_command_def)
  have view: "link_view (peer_at h' j) = link_view ?p"
    unfolding h' verify_command_def queue_host_command(1) [OF kj(1)] by (simp only: kj(2))
  show "j < length (h_peers h)" "0 < unat (cn_channelCount cn)" by (fact j, fact n)
  show "p_state (peer_at h' j) = ACKNOWLEDGING_CONNECT"
    "p_outgoingPeerID (peer_at h' j) = cn_outgoingPeerID cn" "p_connectID (peer_at h' j) = cn_connectID cn"
    "p_outgoingSessionID (peer_at h' j) \<le> 3" "p_incomingSessionID (peer_at h' j) \<le> 3"
    "p_mtu (peer_at h' j) = min (clamp_mtu (cn_mtu cn)) (h_mtu h)"
    "p_channelCount (peer_at h' j) = min (unat (cn_channelCount cn)) (h_channelLimit h)"
    "p_packetThrottleInterval (peer_at h' j) = cn_packetThrottleInterval cn"
    "p_packetThrottleAcceleration (peer_at h' j) = cn_packetThrottleAcceleration cn"
    "p_packetThrottleDeceleration (peer_at h' j) = cn_packetThrottleDeceleration cn"
    "vc_outgoingPeerID vc = p_incomingPeerID (peer_at h' j)" "vc_connectID vc = cn_connectID cn"
    "vc_incomingSessionID vc = p_outgoingSessionID (peer_at h' j)" "vc_outgoingSessionID vc = p_incomingSessionID (peer_at h' j)"
    "vc_mtu vc = p_mtu (peer_at h' j)" "vc_channelCount vc = of_nat (p_channelCount (peer_at h' j))"
    "vc_packetThrottleInterval vc = cn_packetThrottleInterval cn"
    "vc_packetThrottleAcceleration vc = cn_packetThrottleAcceleration cn"
    "vc_packetThrottleDeceleration vc = cn_packetThrottleDeceleration cn"
    using view vc k(2)
    by (simp_all add: verify_command_def host_command_def link_view_def accept_peer_fields)
qed

section \<open>The reply arrives\<close>

lemma link_view_upd_channel [simp]: "link_view (upd_channel c f p) = link_view p"
  by (simp add: link_view_def upd_channel_def)

lemma link_view_settle: "link_view (settle_sent_command n c wasSent oc p) = link_view p"
  by (auto simp: settle_sent_command_def Let_def split: list.split) (simp_all add: link_view_def upd_channel_def)

lemma link_view_taken: "take_sent_reliable_command n c p = Some (wasSent, oc, q) \<Longrightarrow> link_view q = link_view p"
  by (auto simp: take_sent_reliable_command_def link_view_def split: option.splits)

lemma removed_link:
  assumes "i < length (h_peers h)"
  shows "link_view (peer_at (snd (enet_protocol_remove_sent_reliable_command i n c h)) i) = link_view (peer_at h i)"
    "length (h_peers (snd (enet_protocol_remove_sent_reliable_command i n c h))) = length (h_peers h)"
  using assms link_view_taken
  by (auto simp: enet_protocol_remove_sent_reliable_command_def more_host_fields [OF more_outgoing_unref] link_view_settle
      split: option.split)

lemma notified_link:
  assumes "i < length (h_peers h)" "enet_protocol_notify_connect i event h = (event', h')"
  shows "link_view (peer_at h' i) = link_view ((peer_at h i)\<lparr>p_state :=
    (case event of Some _ \<Rightarrow> CONNECTED | None \<Rightarrow> if p_state (peer_at h i) = CONNECTING then CONNECTION_SUCCEEDED else CONNECTION_PENDING)\<rparr>)"
proof -
  have peers: "h_peers (enet_peer_on_connect i k) = h_peers k" "h_peers (enet_peer_on_disconnect i k) = h_peers k"
    "h_peers (dispatch_insert i k) = h_peers k" for k
    by (simp_all add: enet_peer_on_connect_def enet_peer_on_disconnect_def dispatch_insert_def raise_fault_def Let_def)
  have at: "peer_at (enet_peer_on_connect i k) i = peer_at k i" "peer_at (enet_peer_on_disconnect i k) i = peer_at k i"
    "peer_at (dispatch_insert i k) i = peer_at k i" "peer_at (k\<lparr>h_recalculateBandwidthLimits := b\<rparr>) i = peer_at k i" for k b
    by (simp_all add: peer_at_def peers)
  have flag: "link_view (p\<lparr>p_flags := f\<rparr>) = link_view p" for p f
    by (simp add: link_view_def)
  show ?thesis
    using assms by (auto simp: enet_protocol_notify_connect_def enet_protocol_dispatch_state_def enet_protocol_change_state_def
        needs_dispatch_def Let_def peers at flag split: option.splits)
qed

lemma adopted_link:
  assumes "p_channelCount p \<le> 255"
  shows "p_state (adopt_verified c p) = p_state p" "p_outgoingPeerID (adopt_verified c p) = vc_outgoingPeerID c"
    "p_incomingPeerID (adopt_verified c p) = p_incomingPeerID p" "p_connectID (adopt_verified c p) = p_connectID p"
    "p_incomingSessionID (adopt_verified c p) = vc_incomingSessionID c"
    "p_outgoingSessionID (adopt_verified c p) = vc_outgoingSessionID c"
    "p_mtu (adopt_verified c p) = min (clamp_mtu (vc_mtu c)) (p_mtu p)"
    "p_channelCount (adopt_verified c p) = min (unat (vc_channelCount c)) (p_channelCount p)"
    "p_packetThrottleInterval (adopt_verified c p) = p_packetThrottleInterval p"
    "p_packetThrottleAcceleration (adopt_verified c p) = p_packetThrottleAcceleration p"
    "p_packetThrottleDeceleration (adopt_verified c p) = p_packetThrottleDeceleration p"
  by (auto simp: adopt_verified_def Let_def min_def)

lemma clamp_mtu_id: "mtu_ok m \<Longrightarrow> clamp_mtu m = m"
  by (auto simp: mtu_ok_def clamp_mtu_def)

lemma verified_link:
  assumes "i < length (h_peers h)" "p_state (peer_at h i) = CONNECTING" "\<not> bad_verify (peer_at h i) c"
    "p_channelCount (peer_at h i) \<le> 255"
  shows "\<exists>event' h'. enet_protocol_handle_verify_connect i event c h = (0, event', h')
    \<and> link_view (peer_at h' i) = link_view ((adopt_verified c (peer_at h i))
        \<lparr>p_state := if event = None then CONNECTION_SUCCEEDED else CONNECTED\<rparr>)"
proof -
  define k where "k = snd (enet_protocol_remove_sent_reliable_command i 1 0xFF h)"
  have k: "link_view (peer_at k i) = link_view (peer_at h i)" "i < length (h_peers k)"
    using removed_link [OF assms(1)] assms(1) by (simp_all add: k_def)
  have adopted: "link_view (adopt_verified c (peer_at k i)) = link_view (adopt_verified c (peer_at h i))"
    using k(1) by (auto simp: link_view_def adopt_verified_def Let_def)
  obtain event' h' where n: "enet_protocol_notify_connect i event (upd_peer i (adopt_verified c) k) = (event', h')"
    by force
  have "enet_protocol_handle_verify_connect i event c h = (0, event', h')"
    using assms(2,3) n by (simp add: enet_protocol_handle_verify_connect_def k_def)
  moreover have "p_state (adopt_verified c (peer_at k i)) = CONNECTING"
    using adopted assms(2) by (simp add: link_view_def adopted_link [OF assms(4)])
  then have "link_view (peer_at h' i) = link_view ((adopt_verified c (peer_at k i))
      \<lparr>p_state := if event = None then CONNECTION_SUCCEEDED else CONNECTED\<rparr>)"
    using notified_link [OF _ n] k(2) by (simp split: option.splits)
  then have "link_view (peer_at h' i) = link_view ((adopt_verified c (peer_at h i))
      \<lparr>p_state := if event = None then CONNECTION_SUCCEEDED else CONNECTED\<rparr>)"
    using adopted by (simp add: link_view_def)
  ultimately show ?thesis by blast
qed

text \<open>The reply is accepted, and the two peers agree.\<close>

lemma reply_agrees:
  assumes "reachable_host nA hA" "reachable_host nB hB"
    and "enet_host_connect address n data hA = (Some i, hA1)" "queued_for i hA hA1 (Connect cn)"
    and "enet_protocol_handle_connect cn hB = (Some j, hB1)" "queued_for j hB hB1 (VerifyConnect vc)"
    and "length (h_peers hA2) = nA" "link_view (peer_at hA2 i) = link_view (peer_at hA1 i)"
  shows "\<exists>event' hA3. enet_protocol_handle_verify_connect i event vc hA2 = (0, event', hA3)
    \<and> p_state (peer_at hA3 i) = (if event = None then CONNECTION_SUCCEEDED else CONNECTED)
    \<and> p_state (peer_at hB1 j) = ACKNOWLEDGING_CONNECT
    \<and> paired (peer_at hA3 i) (peer_at hB1 j)"
proof -
  let ?a = "peer_at hA2 i" and ?b = "peer_at hB1 j"
  note req = request_link [OF assms(3,4)] and rep = reply_link [OF assms(5,6)]
  have "0 < h_channelLimit hB"
    using reachable_host_ok [OF assms(2)] by (simp add: host_ok_def)
  have mtu: "mtu_ok (h_mtu hA)" "mtu_ok (h_mtu hB)" and "length (h_peers hA) = nA"
    using assms(1,2) reachable_host_ok host_ok_mtu host_ok_length by blast+
  then have i: "i < length (h_peers hA2)"
    using req(1) assms(7) by simp
  have a: "p_state ?a = CONNECTING" "p_mtu ?a = h_mtu hA" "p_channelCount ?a = unat (cn_channelCount cn)"
    "p_channelCount ?a \<le> 255" "p_incomingPeerID ?a = cn_outgoingPeerID cn" "p_connectID ?a = cn_connectID cn"
    "p_packetThrottleInterval ?a = cn_packetThrottleInterval cn"
    "p_packetThrottleAcceleration ?a = cn_packetThrottleAcceleration cn"
    "p_packetThrottleDeceleration ?a = cn_packetThrottleDeceleration cn"
    using req assms(8) by (simp_all add: link_view_def)
  have m: "p_mtu ?b = min (h_mtu hA) (h_mtu hB)" "mtu_ok (p_mtu ?b)"
    using mtu rep(8) req(9) clamp_mtu_id [of "h_mtu hA"] by (auto simp: min_def)
  have shrunk: "min (p_mtu ?b) (p_mtu ?a) = p_mtu ?b"
    by (simp add: m(1) a(2))
  have count: "unat (vc_channelCount vc) = p_channelCount ?b" "0 < p_channelCount ?b" "p_channelCount ?b \<le> p_channelCount ?a"
    using rep(2,9,18) a(3,4) \<open>0 < h_channelLimit hB\<close> by (simp_all add: unat_of_nat_small)
  have "\<not> bad_verify ?a vc"
    using rep(14,19-21) a count by (simp add: bad_verify_def)
  then obtain event' hA3 where run: "enet_protocol_handle_verify_connect i event vc hA2 = (0, event', hA3)"
    "link_view (peer_at hA3 i) = link_view ((adopt_verified vc ?a)
        \<lparr>p_state := if event = None then CONNECTION_SUCCEEDED else CONNECTED\<rparr>)"
    using verified_link [OF i a(1) _ a(4)] by blast
  then have state: "p_state (peer_at hA3 i) = (if event = None then CONNECTION_SUCCEEDED else CONNECTED)"
    by (simp add: link_view_def)
  have pair: "paired (peer_at hA3 i) ?b"
    using run(2) rep(4-7,10-17) shrunk count a clamp_mtu_id [OF m(2)]
    by (simp add: paired_def link_view_def adopted_link [OF a(4)])
  show ?thesis
    using run(1) rep(3) state pair by blast
qed

section \<open>The acknowledgement arrives\<close>

text \<open>The acknowledgement names the reply, and its time is not ahead of the clock.\<close>

definition acknowledges_reply :: "nat \<Rightarrow> u16 \<Rightarrow> u16 \<Rightarrow> ENetHost \<Rightarrow> bool" where
  "acknowledges_reply j number sentTime h \<longleftrightarrow>
     \<not> ENET_TIME_LESS (h_serviceTime h) (received_sent_time (h_serviceTime h) sentTime) \<and>
     (case take_sent_reliable_command number 0xFF (peer_at h j) of
        Some (_, oc, _) \<Rightarrow> command_number (oc_command oc) = ENET_PROTOCOL_COMMAND_VERIFY_CONNECT
      | None \<Rightarrow> False)"

lemma link_view_round_trip: "link_view (track_round_trip now (sample_round_trip rtt p)) = link_view p"
proof -
  have "link_view (snd (enet_peer_throttle rtt p)) = link_view p" for p
    by (simp add: enet_peer_throttle_def link_view_def Let_def)
  then have "link_view (sample_round_trip rtt p) = link_view p"
    by (simp add: sample_round_trip_def Let_def) (simp add: link_view_def)
  moreover have "link_view (track_round_trip now q) = link_view q" for q
    by (simp add: track_round_trip_def link_view_def Let_def)
  ultimately show ?thesis by simp
qed

lemma take_sent_round_trip:
  "map_option (\<lambda>(b, oc, q). oc) (take_sent_reliable_command n c (track_round_trip now (sample_round_trip rtt p)))
     = map_option (\<lambda>(b, oc, q). oc) (take_sent_reliable_command n c p)"
proof -
  have "p_sentReliableCommands (snd (enet_peer_throttle rtt p)) = p_sentReliableCommands p \<and> p_outgoingCommands (snd (enet_peer_throttle rtt p)) = p_outgoingCommands p
      \<and> p_outgoingSendReliableCommands (snd (enet_peer_throttle rtt p)) = p_outgoingSendReliableCommands p" for p
    by (simp add: enet_peer_throttle_def Let_def)
  then have "p_sentReliableCommands (track_round_trip now (sample_round_trip rtt p)) = p_sentReliableCommands p
    \<and> p_outgoingCommands (track_round_trip now (sample_round_trip rtt p)) = p_outgoingCommands p
    \<and> p_outgoingSendReliableCommands (track_round_trip now (sample_round_trip rtt p)) = p_outgoingSendReliableCommands p"
    by (simp add: sample_round_trip_def track_round_trip_def Let_def)
  then show ?thesis
    by (simp add: take_sent_reliable_command_def split: option.split)
qed

lemma acknowledged_link:
  assumes "i < length (h_peers h)" "p_state (peer_at h i) = ACKNOWLEDGING_CONNECT" "acknowledges_reply i number sentTime h"
  shows "\<exists>event' h'. enet_protocol_handle_acknowledge i event 0xFF number sentTime h = (0, event', h')
    \<and> link_view (peer_at h' i) = link_view ((peer_at h i)\<lparr>p_state := if event = None then CONNECTION_PENDING else CONNECTED\<rparr>)"
proof -
  let ?f = "\<lambda>p. track_round_trip (h_serviceTime h)
    (sample_round_trip (ENET_MAX (ENET_TIME_DIFFERENCE (h_serviceTime h) (received_sent_time (h_serviceTime h) sentTime)) 1) p)"
  define k where "k = enet_protocol_remove_sent_reliable_command i number 0xFF (upd_peer i ?f h)"
  have link: "link_view (peer_at (snd k) i) = link_view (peer_at h i)" "i < length (h_peers (snd k))"
    using removed_link [of i "upd_peer i ?f h" number "0xFF"] assms(1) by (simp_all add: k_def link_view_round_trip)
  have "fst k = ENET_PROTOCOL_COMMAND_VERIFY_CONNECT"
  proof -
    obtain b oc q where "take_sent_reliable_command number 0xFF (peer_at h i) = Some (b, oc, q)"
      "command_number (oc_command oc) = ENET_PROTOCOL_COMMAND_VERIFY_CONNECT"
      using assms(3) by (auto simp: acknowledges_reply_def split: option.splits)
    moreover from this(1) obtain b' q' where "take_sent_reliable_command number 0xFF (?f (peer_at h i)) = Some (b', oc, q')"
      using take_sent_round_trip [of number "0xFF" "h_serviceTime h"
        "ENET_MAX (ENET_TIME_DIFFERENCE (h_serviceTime h) (received_sent_time (h_serviceTime h) sentTime)) 1" "peer_at h i"] by auto
    ultimately show ?thesis
      using assms(1) by (simp add: k_def enet_protocol_remove_sent_reliable_command_def)
  qed
  moreover obtain event' h' where n: "enet_protocol_notify_connect i event (snd k) = (event', h')"
    by force
  moreover have "p_state (peer_at (snd k) i) = ACKNOWLEDGING_CONNECT"
    using link(1) assms(2) by (simp add: link_view_def)
  ultimately have "enet_protocol_handle_acknowledge i event 0xFF number sentTime h = (0, event', h')"
    using assms(2,3) by (simp add: enet_protocol_handle_acknowledge_def acknowledges_reply_def k_def case_prod_beta)
  moreover have "link_view (peer_at h' i) = link_view ((peer_at h i)\<lparr>p_state := if event = None then CONNECTION_PENDING else CONNECTED\<rparr>)"
    using notified_link [OF link(2) n] link(1) assms(2) by (simp add: link_view_def split: option.splits)
  ultimately show ?thesis by blast
qed

text \<open>C5: A handshake connects both sides in agreement.  Let a host call \<open>enet_host_connect\<close>, another accept
  the request it queued, the reply that was queued in turn reach the first host while it is still
  connecting, and the acknowledgement of the reply reach the second.  Then reply and acknowledgement are
  accepted, both peers are connected (or about to be reported so), and they hold each other's
  identifiers and session numbers crosswise and the same connection identifier, mtu, number of channels
  and throttle: each takes the other's datagrams for its own.\<close>

theorem handshake_agrees:
  assumes "reachable_host nA hA" "reachable_host nB hB"
    and "enet_host_connect address n data hA = (Some i, hA1)" "queued_for i hA hA1 (Connect cn)"
    and "enet_protocol_handle_connect cn hB = (Some j, hB1)" "queued_for j hB hB1 (VerifyConnect vc)"
    and "length (h_peers hA2) = nA" "link_view (peer_at hA2 i) = link_view (peer_at hA1 i)"
    and "length (h_peers hB2) = nB" "link_view (peer_at hB2 j) = link_view (peer_at hB1 j)"
    and "acknowledges_reply j number sentTime hB2"
  shows "\<exists>evA' hA3 evB' hB3. enet_protocol_handle_verify_connect i evA vc hA2 = (0, evA', hA3)
    \<and> enet_protocol_handle_acknowledge j evB 0xFF number sentTime hB2 = (0, evB', hB3)
    \<and> p_state (peer_at hA3 i) = (if evA = None then CONNECTION_SUCCEEDED else CONNECTED)
    \<and> p_state (peer_at hB3 j) = (if evB = None then CONNECTION_PENDING else CONNECTED)
    \<and> paired (peer_at hA3 i) (peer_at hB3 j)
    \<and> (\<forall>k. h_receivedAddress k = p_address (peer_at hB3 j)
          \<longrightarrow> \<not> wrong_sender k (p_outgoingSessionID (peer_at hA3 i)) (peer_at hB3 j))
    \<and> (\<forall>k. h_receivedAddress k = p_address (peer_at hA3 i)
          \<longrightarrow> \<not> wrong_sender k (p_outgoingSessionID (peer_at hB3 j)) (peer_at hA3 i))"
proof -
  obtain evA' hA3 where a: "enet_protocol_handle_verify_connect i evA vc hA2 = (0, evA', hA3)"
    "p_state (peer_at hA3 i) = (if evA = None then CONNECTION_SUCCEEDED else CONNECTED)"
    "p_state (peer_at hB1 j) = ACKNOWLEDGING_CONNECT" "paired (peer_at hA3 i) (peer_at hB1 j)"
    using reply_agrees [OF assms(1-8), of evA] by blast
  have "j < length (h_peers hB2)"
    using reply_link(1) [OF assms(5,6)] host_ok_length [OF reachable_host_ok [OF assms(2)]] assms(9) by simp
  moreover have "p_state (peer_at hB2 j) = ACKNOWLEDGING_CONNECT"
    using a(3) assms(10) by (simp add: link_view_def)
  ultimately obtain evB' hB3 where b: "enet_protocol_handle_acknowledge j evB 0xFF number sentTime hB2 = (0, evB', hB3)"
    "link_view (peer_at hB3 j) = link_view ((peer_at hB2 j)\<lparr>p_state := if evB = None then CONNECTION_PENDING else CONNECTED\<rparr>)"
    using acknowledged_link [OF _ _ assms(11)] by blast
  then have state: "p_state (peer_at hB3 j) = (if evB = None then CONNECTION_PENDING else CONNECTED)"
    and same: "p_outgoingPeerID (peer_at hB3 j) = p_outgoingPeerID (peer_at hB1 j)" "p_incomingPeerID (peer_at hB3 j) = p_incomingPeerID (peer_at hB1 j)"
    "p_connectID (peer_at hB3 j) = p_connectID (peer_at hB1 j)" "p_outgoingSessionID (peer_at hB3 j) = p_outgoingSessionID (peer_at hB1 j)"
    "p_incomingSessionID (peer_at hB3 j) = p_incomingSessionID (peer_at hB1 j)" "p_mtu (peer_at hB3 j) = p_mtu (peer_at hB1 j)"
    "p_channelCount (peer_at hB3 j) = p_channelCount (peer_at hB1 j)"
    "p_packetThrottleInterval (peer_at hB3 j) = p_packetThrottleInterval (peer_at hB1 j)"
    "p_packetThrottleAcceleration (peer_at hB3 j) = p_packetThrottleAcceleration (peer_at hB1 j)"
    "p_packetThrottleDeceleration (peer_at hB3 j) = p_packetThrottleDeceleration (peer_at hB1 j)"
    using assms(10) by (simp_all add: link_view_def)
  have "paired (peer_at hA3 i) (peer_at hB3 j)"
    using a(4) unfolding paired_def same .
  with state show ?thesis
    using a(1,2) b(1) by (auto simp: wrong_sender_def paired_def)
qed

text \<open>A host with a free peer asks, one with a free peer answers.\<close>

definition asked :: "ENetHost \<Rightarrow> ENetProtocolConnect" where
  "asked h = (case pr_body (oc_command (last (p_outgoingCommands (peer_at h 0)))) of Connect c \<Rightarrow> c)"

definition answering_host :: ENetHost where
  "answering_host = snd (enet_protocol_handle_connect (asked connecting_host) (plain_host 1))"

definition answered :: "ENetHost \<Rightarrow> ENetProtocolVerifyConnect" where
  "answered h = (case pr_body (oc_command (last (p_outgoingCommands (peer_at h 0)))) of VerifyConnect c \<Rightarrow> c)"

lemma connect_made:
  assumes "length (h_peers h) = 1" "p_state (peer_at h 0) = DISCONNECTED" "en_malloc h = (\<lambda>_. True)"
  shows "enet_host_connect a n d h = (Some 0, snd (enet_host_connect a n d h))"
    "queued_for 0 h (snd (enet_host_connect a n d h)) (Connect (asked (snd (enet_host_connect a n d h))))"
proof -
  obtain p where p: "h_peers h = [p]"
    using assms(1) by (metis One_nat_def length_0_conv length_Suc_conv)
  show run: "enet_host_connect a n d h = (Some 0, snd (enet_host_connect a n d h))"
    using assms(2,3) p by (simp add: enet_host_connect_def enet_malloc_def peer_at_def Let_def case_prod_beta)
  obtain k m connectID where k: "h_peers k = h_peers h" "en_malloc k = en_malloc h"
    and h': "snd (enet_host_connect a n d h) = snd (enet_peer_queue_outgoing_command 0 (host_command ENET_PROTOCOL_COMMAND_FLAG_ACKNOWLEDGE
       (Connect (connect_request k m d (connecting_peer k a m connectID (peer_at h 0))))) None 0 0
       (upd_peer 0 (connecting_peer k a m connectID) k))"
    using host_connect_queues [OF run] by blast
  have "p_outgoingCommands (peer_at (upd_peer 0 (connecting_peer k a m connectID) k) 0) = p_outgoingCommands (peer_at h 0)"
    using k p by (simp add: peer_at_def upd_peer_def connecting_peer_def)
  then show "queued_for 0 h (snd (enet_host_connect a n d h)) (Connect (asked (snd (enet_host_connect a n d h))))"
    using queue_host_command_made(3) [of 0 "upd_peer 0 (connecting_peer k a m connectID) k" ENET_PROTOCOL_COMMAND_FLAG_ACKNOWLEDGE] k p assms(3)
    unfolding h' queued_for_def asked_def by simp
qed

lemma accept_made:
  assumes "length (h_peers h) = 1" "p_state (peer_at h 0) = DISCONNECTED" "en_malloc h = (\<lambda>_. True)" "0 < h_duplicatePeers h"
    "0 < unat (cn_channelCount c)" "unat (cn_channelCount c) \<le> 255"
  shows "enet_protocol_handle_connect c h = (Some 0, snd (enet_protocol_handle_connect c h))"
    "queued_for 0 h (snd (enet_protocol_handle_connect c h)) (VerifyConnect (answered (snd (enet_protocol_handle_connect c h))))"
    "hd_channelID (oc_command (last (p_outgoingCommands (peer_at (snd (enet_protocol_handle_connect c h)) 0)))) = 0xFF"
    "command_number (oc_command (last (p_outgoingCommands (peer_at (snd (enet_protocol_handle_connect c h)) 0)))) = ENET_PROTOCOL_COMMAND_VERIFY_CONNECT"
proof -
  obtain p where p: "h_peers h = [p]"
    using assms(1) by (metis One_nat_def length_0_conv length_Suc_conv)
  show run: "enet_protocol_handle_connect c h = (Some 0, snd (enet_protocol_handle_connect c h))"
    using assms(2-) p by (simp add: enet_protocol_handle_connect_def enet_malloc_def peer_at_def Let_def case_prod_beta word_less_nat_alt word_le_nat_alt)
  let ?m = "min (unat (cn_channelCount c)) (h_channelLimit h)"
  obtain k where k: "h_peers k = h_peers h" "en_malloc k = en_malloc h"
    and h': "snd (enet_protocol_handle_connect c h) = snd (enet_peer_queue_outgoing_command 0
       (verify_command k c ?m (accept_peer k c ?m (peer_at h 0))) None 0 0 (upd_peer 0 (accept_peer k c ?m) k))"
    using accepted_queues [OF run] by blast
  have "p_outgoingCommands (peer_at (upd_peer 0 (accept_peer k c ?m) k) 0) = p_outgoingCommands (peer_at h 0)"
    using k p by (simp add: peer_at_def upd_peer_def accept_peer_def Let_def)
  then show "queued_for 0 h (snd (enet_protocol_handle_connect c h)) (VerifyConnect (answered (snd (enet_protocol_handle_connect c h))))"
    using queue_host_command_made(3) [of 0 "upd_peer 0 (accept_peer k c ?m) k" ENET_PROTOCOL_COMMAND_FLAG_ACKNOWLEDGE] k p assms(3)
    unfolding h' verify_command_def queued_for_def answered_def by simp
  show "hd_channelID (oc_command (last (p_outgoingCommands (peer_at (snd (enet_protocol_handle_connect c h)) 0)))) = 0xFF"
    "command_number (oc_command (last (p_outgoingCommands (peer_at (snd (enet_protocol_handle_connect c h)) 0)))) = ENET_PROTOCOL_COMMAND_VERIFY_CONNECT"
    using queue_host_command_made(1,2) [of 0 "upd_peer 0 (accept_peer k c ?m) k" ENET_PROTOCOL_COMMAND_FLAG_ACKNOWLEDGE] k p assms(3)
    unfolding h' verify_command_def by (simp_all add: command_number_def)
qed

lemma plain_host_free:
  "length (h_peers (plain_host 1)) = 1" "p_state (peer_at (plain_host 1) 0) = DISCONNECTED" "en_malloc (plain_host 1) = (\<lambda>_. True)"
  "0 < h_duplicatePeers (plain_host 1)"
  by (simp_all add: plain_host_def enet_host_create_def plain_env_def plain_memory_def enet_malloc_def Let_def
      enet_peer_reset_def enet_peer_reset_queues_def clear_queues_def reset_fields_def upd_peer_def peer_at_def
      initial_host_def initial_peer_def enet_peer_on_disconnect_def clear_needs_dispatch_def release_queues_def
      has_flag_def clamp_channelLimit_def enet_peer_reset_incoming_commands_def)

text \<open>The reply has been sent.\<close>

definition waiting_host :: ENetHost where
  "waiting_host = upd_peer 0 (\<lambda>p. p\<lparr>p_sentReliableCommands := [last (p_outgoingCommands p)], p_outgoingCommands := []\<rparr>)
     (answering_host\<lparr>h_serviceTime := 0\<rparr>)"

theorem handshake_agrees_witness:
  "\<exists>number evA' hA evB' hB. enet_protocol_handle_verify_connect 0 None (answered answering_host) connecting_host = (0, evA', hA)
     \<and> enet_protocol_handle_acknowledge 0 None 0xFF number 0 waiting_host = (0, evB', hB) \<and> paired (peer_at hA 0) (peer_at hB 0)"
proof -
  note free = plain_host_free
  have connect: "enet_host_connect zero_address 2 7 (plain_host 1) = (Some 0, connecting_host)"
    and request: "queued_for 0 (plain_host 1) connecting_host (Connect (asked connecting_host))"
    unfolding connecting_host_def by (fact connect_made(1) [OF free(1-3)], fact connect_made(2) [OF free(1-3)])
  note req = request_link [OF connect request]
  have channels: "0 < unat (cn_channelCount (asked connecting_host))" "unat (cn_channelCount (asked connecting_host)) \<le> 255"
    using req(4,5,10) by simp_all
  note made = accept_made [OF free(1-4) channels, folded answering_host_def]
  have one: "length (h_peers connecting_host) = 1" "length (h_peers answering_host) = 1"
    using host_ok_host_connect [OF reachable_host_ok [OF reachable_plain [of 1]]]
      host_ok_handle_connect [OF reachable_host_ok [OF reachable_plain [of 1]]]
    unfolding connecting_host_def answering_host_def by (simp_all add: host_ok_length)
  let ?oc = "last (p_outgoingCommands (peer_at answering_host 0))"
  have waiting: "length (h_peers waiting_host) = 1" "h_serviceTime waiting_host = 0"
    "peer_at waiting_host 0 = (peer_at answering_host 0)\<lparr>p_sentReliableCommands := [?oc], p_outgoingCommands := []\<rparr>"
    using one(2) by (simp_all add: waiting_host_def) (simp add: upd_peer_def peer_at_def)
  have view: "link_view (peer_at waiting_host 0) = link_view (peer_at answering_host 0)"
    by (simp add: waiting(3) link_view_def)
  have acknowledges: "acknowledges_reply 0 (oc_reliableSequenceNumber ?oc) 0 waiting_host"
    using made(3,4) by (simp add: acknowledges_reply_def waiting(2,3) take_sent_reliable_command_def is_command_def
        received_sent_time_def time_less_irrefl)
  obtain evA' hA evB' hB
    where "enet_protocol_handle_verify_connect 0 None (answered answering_host) connecting_host = (0, evA', hA)"
      "enet_protocol_handle_acknowledge 0 None 0xFF (oc_reliableSequenceNumber ?oc) 0 waiting_host = (0, evB', hB)"
      "paired (peer_at hA 0) (peer_at hB 0)"
    using handshake_agrees [OF reachable_plain reachable_plain connect request made(1,2) one(1) refl waiting(1) view acknowledges, of None None]
    by auto
  then show ?thesis
    by blast
qed

end
