(* ===== verification/Enet_Shapes.thy ===== *)
theory Enet_Shapes
  imports Enet_Streams
begin

text \<open>
  The decompressor on bytes nobody compressed.  Such a stream can make the root's tree hold a value
  twice or in the wrong place, so nothing is said of values here: what is kept is the shape of the
  trees in the array, the depth of every symbol, and the totals of the contexts.
\<close>

section \<open>Renormalising from any state\<close>

lemma shifted_range_nonzero:
  assumes "r \<noteq> 0" "\<not> interval_done l r"
  shows "push_bit 8 (next_range l r) \<noteq> 0"
proof -
  define L R where "L = unat l" and "R = unat r"
  have L: "L < 2 ^ 32" "L div 2 ^ 24 < 256" and R: "0 < R" "R < 2 ^ 32"
    using unat_u32_less [of l] unat_u32_less [of r] assms(1)
    by (simp_all add: L_def R_def unat_gt_0 less_mult_imp_div_less)
  have tops: "(l XOR (l + r)) \<ge> ENET_RANGE_CODER_TOP \<longleftrightarrow> L div 2 ^ 24 \<noteq> (L + R) mod 2 ^ 32 div 2 ^ 24"
    by (simp only: top_bytes_differ unat_word_ariths(1) L_def R_def) simp
  have "unat (next_range l r) mod 2 ^ 24 \<noteq> 0"
  proof (cases "(l XOR (l + r)) \<ge> ENET_RANGE_CODER_TOP")
    case True
    then have small: "R < 2 ^ 16"
      using assms(2) by (auto simp: interval_done_def R_def word_le_nat_alt)
    have n: "unat (next_range l r) = (2 ^ 32 - L) mod 2 ^ 16"
      using True by (simp only: next_range_def unat_low_bits if_True L_def)
    show ?thesis
    proof (cases "L + R \<le> 2 ^ 32")
      case True
      have "(L div 2 ^ 24 + 1) * 2 ^ 24 \<le> L + R"
      proof (rule ccontr)
        assume "\<not> (L div 2 ^ 24 + 1) * 2 ^ 24 \<le> L + R"
        then have less: "L + R < (L div 2 ^ 24 + 1) * 2 ^ 24"
          by simp
        moreover have "L div 2 ^ 24 * 2 ^ 24 \<le> L + R"
          by (rule le_trans [OF div_times_less_eq_dividend]) simp
        ultimately have "(L + R) div 2 ^ 24 = L div 2 ^ 24"
          by (intro div_nat_eqI) (simp_all add: mult.commute)
        moreover have "(L div 2 ^ 24 + 1) * 2 ^ 24 \<le> 256 * 2 ^ 24"
          using L(2) by (intro mult_le_mono1) simp
        then have "L + R < 2 ^ 32"
          using less by simp
        ultimately show False
          using \<open>(l XOR (l + r)) \<ge> ENET_RANGE_CODER_TOP\<close> tops by simp
      qed
      from crossing_distance [OF L(1) small True this] show ?thesis
        unfolding n using small by simp
    next
      case False
      then have "0 < 2 ^ 32 - L" "2 ^ 32 - L < 2 ^ 16"
        using L(1) small by linarith+
      then show ?thesis
        unfolding n by simp
    qed
  next
    case False
    then have n: "unat (next_range l r) = R" and same: "(L + R) mod 2 ^ 32 div 2 ^ 24 = L div 2 ^ 24"
      using tops by (simp_all only: next_range_def R_def if_False) simp
    have "R mod 2 ^ 24 \<noteq> 0"
    proof
      assume "R mod 2 ^ 24 = 0"
      then obtain k where k: "R = k * 2 ^ 24"
        by (metis mod_0_imp_dvd dvd_div_mult_self)
      then have k': "0 < k" "k < 256"
        using R by simp_all
      define q m where "q = L div 2 ^ 24" and "m = L mod 2 ^ 24"
      have qm: "L = q * 2 ^ 24 + m" "m < 2 ^ 24" "q < 256"
        using L(2) by (simp_all add: q_def m_def)
      have "(L + R) mod 2 ^ 32 = (if q + k < 256 then q + k else q + k - 256) * 2 ^ 24 + m"
      proof (cases "q + k < 256")
        case True
        then have "(q + k) * 2 ^ 24 \<le> 255 * 2 ^ 24"
          by (intro mult_le_mono1) simp
        then show ?thesis
          using True qm k by (simp add: algebra_simps)
      next
        case False
        then have "L + R = ((q + k - 256) * 2 ^ 24 + m) + 2 ^ 32"
          using qm k by (simp add: algebra_simps)
        moreover have "(q + k - 256) * 2 ^ 24 \<le> 255 * 2 ^ 24"
          using k' qm by (intro mult_le_mono1) simp
        ultimately have "(L + R) mod 2 ^ 32 = (q + k - 256) * 2 ^ 24 + m"
          using qm(2) by (simp only: mod_add_self2) simp
        then show ?thesis using False by simp
      qed
      then have "(if q + k < 256 then q + k else q + k - 256) = q"
        using same qm by (simp add: q_def [symmetric])
      then show False
        using k' by (simp split: if_splits)
    qed
    then show ?thesis
      unfolding n by simp
  qed
  then have "unat (push_bit 8 (next_range l r)) \<noteq> 0"
    unfolding unat_push_8 by simp
  then show ?thesis
    by auto
qed

text \<open>Four rounds empty \<open>low\<close>; from then on the range grows.\<close>

definition decoder_at :: "ENetRangeDecoder \<Rightarrow> ENetRangeDecoder \<Rightarrow> bool" where
  "decoder_at c c' \<longleftrightarrow>
     rc_symbols c' = rc_symbols c \<and> rc_fault c' = rc_fault c \<and> rc_nextSymbol c' = rc_nextSymbol c \<and>
     rc_predicted c' = rc_predicted c \<and> rc_order c' = rc_order c \<and> rc_out c' = rc_out c"

lemma decoder_at_trans: "decoder_at a b \<Longrightarrow> decoder_at b c \<Longrightarrow> decoder_at a c"
  by (simp add: decoder_at_def)

lemma decoder_at_simps [simp]:
  "decoder_at c c" "decoder_at c (c\<lparr>rc_range := r\<rparr>)" "decoder_at c (c\<lparr>rc_low := l, rc_range := r\<rparr>)"
  by (simp_all add: decoder_at_def)

definition decoder_step :: "ENetRangeDecoder \<Rightarrow> ENetRangeDecoder" where
  "decoder_step c = (seed_byte 0 (c\<lparr>rc_code := push_bit 8 (rc_code c)\<rparr>))
     \<lparr>rc_range := push_bit 8 (next_range (rc_low c) (rc_range c)), rc_low := push_bit 8 (rc_low c)\<rparr>"

lemma decode_loop_step:
  "decode_loop c = (if interval_done (rc_low c) (rc_range c) then Some c else decode_loop (decoder_step c))"
  by (subst decode_loop.simps) (simp add: decoder_step_def)

lemma decoder_step_fields:
  "rc_low (decoder_step c) = push_bit 8 (rc_low c)" "decoder_at c (decoder_step c)"
  "rc_range (decoder_step c) = push_bit 8 (next_range (rc_low c) (rc_range c))"
proof -
  show "rc_low (decoder_step c) = push_bit 8 (rc_low c)"
    "rc_range (decoder_step c) = push_bit 8 (next_range (rc_low c) (rc_range c))"
    by (simp_all add: decoder_step_def)
  show "decoder_at c (decoder_step c)"
    by (simp add: decoder_at_def decoder_step_def seed_byte_def split: list.split)
qed

definition wide :: "ENetRangeDecoder \<Rightarrow> bool" where
  "wide c \<longleftrightarrow> rc_range c \<ge> ENET_RANGE_CODER_BOTTOM"

lemma decode_loop_low_0:
  assumes "rc_low c = 0" "rc_range c \<noteq> 0"
  shows "\<exists>c'. decode_loop c = Some c' \<and> decoder_at c c' \<and> wide c'"
  using assms
proof (induction "2 ^ 32 - unat (rc_range c)" arbitrary: c rule: less_induct)
  case less
  show ?case
  proof (cases "interval_done (rc_low c) (rc_range c)")
    case True
    then show ?thesis
      by (subst decode_loop_step) (simp add: decoder_at_simps interval_done_def wide_def)
  next
    case False
    let ?R = "unat (rc_range c)"
    have "?R < 2 ^ 24"
      using False less.prems(1) by (auto simp: interval_done_def word_le_nat_alt not_le)
    then have "next_range 0 (rc_range c) = rc_range c"
      by (simp add: next_range_def word_le_nat_alt)
    then have r: "unat (rc_range (decoder_step c)) = ?R * 256"
      using less.prems(1) \<open>?R < 2 ^ 24\<close> by (simp add: decoder_step_fields unat_push_8)
    moreover have "0 < ?R"
      using less.prems(2) by (simp add: unat_gt_0)
    ultimately have "2 ^ 32 - unat (rc_range (decoder_step c)) < 2 ^ 32 - ?R"
      using \<open>?R < 2 ^ 24\<close> by simp
    moreover have "rc_low (decoder_step c) = 0" "rc_range (decoder_step c) \<noteq> 0"
      using less.prems r \<open>0 < ?R\<close> by (auto simp: decoder_step_fields)
    ultimately obtain c' where "decode_loop (decoder_step c) = Some c'" "decoder_at (decoder_step c) c'" "wide c'"
      using less.hyps by blast
    then show ?thesis
      using False decoder_at_trans [OF decoder_step_fields(2)] by (subst decode_loop_step) auto
  qed
qed

lemma decode_loop_returns:
  assumes "rc_range c \<noteq> 0"
  shows "\<exists>c'. decode_loop c = Some c' \<and> decoder_at c c' \<and> wide c'"
proof -
  have "\<exists>c'. decode_loop c = Some c' \<and> decoder_at c c' \<and> wide c'"
    if "push_bit (8 * n) (rc_low c) = 0" "rc_range c \<noteq> 0" for n c
    using that
  proof (induction n arbitrary: c)
    case 0
    then show ?case by (simp add: decode_loop_low_0)
  next
    case (Suc n)
    show ?case
    proof (cases "interval_done (rc_low c) (rc_range c)")
      case True
      then show ?thesis
        by (subst decode_loop_step) (simp add: decoder_at_simps interval_done_def wide_def)
    next
      case False
      have "push_bit (8 * n) (rc_low (decoder_step c)) = 0" "rc_range (decoder_step c) \<noteq> 0"
        using Suc.prems shifted_range_nonzero [OF _ False] by (simp_all add: decoder_step_fields add.commute)
      then obtain c' where "decode_loop (decoder_step c) = Some c'" "decoder_at (decoder_step c) c'" "wide c'"
        using Suc.IH by blast
      then show ?thesis
        using False decoder_at_trans [OF decoder_step_fields(2)] by (subst decode_loop_step) auto
    qed
  qed
  moreover have "push_bit (8 * 4) (rc_low c) = 0"
    by (rule bit_eqI) (auto simp: bit_simps)
  ultimately show ?thesis
    using assms by blast
qed

text \<open>Reading a code divides by nothing that is 0, and decoding what was read returns.\<close>

definition read_at :: "u32 \<Rightarrow> ENetRangeDecoder \<Rightarrow> bool" where
  "read_at tot c \<longleftrightarrow> rc_range c \<noteq> 0 \<and> unat (rc_range c) * unat tot < 2 ^ 32"

lemma read_returns:
  assumes "wide c" "0 < unat tot" "unat tot < 2 ^ 16"
  shows "\<exists>code c'. ENET_RANGE_CODER_READ tot c = (code, c') \<and> decoder_at c c' \<and> read_at tot c'"
proof -
  let ?r = "rc_range c div tot"
  have "unat tot \<le> unat (rc_range c)"
    using assms by (simp add: wide_def word_le_nat_alt)
  then have "0 < unat ?r"
    using assms(2) by (simp add: unat_div div_greater_zero_iff)
  then have nz: "?r \<noteq> 0" "tot \<noteq> 0"
    using assms(2) by auto
  have "unat ?r * unat tot \<le> unat (rc_range c)"
    by (simp add: unat_div)
  then have "read_at tot (c\<lparr>rc_range := ?r\<rparr>)"
    using nz unat_u32_less [of "rc_range c"] by (simp add: read_at_def)
  moreover have "decoder_at c (c\<lparr>rc_range := ?r\<rparr>)"
    by simp
  moreover have "snd (ENET_RANGE_CODER_READ tot c) = c\<lparr>rc_range := ?r\<rparr>"
    using nz by (cases c) (simp add: ENET_RANGE_CODER_READ_def Let_def)
  ultimately show ?thesis
    by (cases "ENET_RANGE_CODER_READ tot c") simp
qed

lemma decode_returns:
  assumes "read_at tot c" "0 < unat cnt" "unat cnt \<le> unat tot"
  shows "\<exists>c'. ENET_RANGE_CODER_DECODE below cnt c = Some c' \<and> decoder_at c c' \<and> wide c'"
proof -
  let ?c = "c\<lparr>rc_low := rc_low c + below * rc_range c, rc_range := rc_range c * cnt\<rparr>"
  have "unat (rc_range c) * unat cnt < 2 ^ 32"
    by (rule le_less_trans [of _ "unat (rc_range c) * unat tot"]) (use assms(1,3) in \<open>simp_all add: read_at_def\<close>)
  then have "unat (rc_range c * cnt) = unat (rc_range c) * unat cnt"
    by (simp add: unat_word_ariths(2))
  moreover have "0 < unat (rc_range c)"
    using assms(1) by (simp add: read_at_def unat_gt_0)
  ultimately have "0 < unat (rc_range ?c)"
    using assms(2) by simp
  then have "rc_range ?c \<noteq> 0" by auto
  then show ?thesis
    using decode_loop_returns [of ?c] by (auto simp: ENET_RANGE_CODER_DECODE_def decoder_at_def)
qed

section \<open>Shapes in the array\<close>

text \<open>
  A tree of addresses: the symbols of a context.  The sums \<open>under\<close> steer the walks and nothing else,
  so they are left out of the array.
\<close>

definition bare :: "(nat \<Rightarrow> ENetSymbol) \<Rightarrow> nat \<Rightarrow> ENetSymbol" where
  "bare m i = (m i)\<lparr>sy_under := 0\<rparr>"

lemma bare_fields [simp]:
  "sy_count (bare m i) = sy_count (m i)" "sy_left (bare m i) = sy_left (m i)" "sy_right (bare m i) = sy_right (m i)"
  "sy_symbols (bare m i) = sy_symbols (m i)" "sy_escapes (bare m i) = sy_escapes (m i)"
  "sy_total (bare m i) = sy_total (m i)" "sy_parent (bare m i) = sy_parent (m i)"
  by (simp_all add: bare_def)

lemma bare_under [simp]: "bare (m(i := (m i)\<lparr>sy_under := u\<rparr>)) = bare m"
  by (auto simp: bare_def)

lemma bare_upd: "bare (m(i := s)) = (bare m)(i := s\<lparr>sy_under := 0\<rparr>)"
  by (auto simp: bare_def)

definition points_to :: "nat \<Rightarrow> u16 \<Rightarrow> nat tree \<Rightarrow> bool" where
  "points_to i off t \<longleftrightarrow>
     (case t of Leaf \<Rightarrow> off = 0 | Node l x r \<Rightarrow> i < x \<and> x < symbolCount \<and> off = symbol_offset x i)"

lemma points_to_simps [simp]:
  "points_to i off Leaf \<longleftrightarrow> off = 0"
  "points_to i off (Node l x r) \<longleftrightarrow> i < x \<and> x < symbolCount \<and> off = symbol_offset x i"
  by (simp_all add: points_to_def)

fun shaped :: "(nat \<Rightarrow> ENetSymbol) \<Rightarrow> nat tree \<Rightarrow> bool" where
  "shaped m Leaf = True"
| "shaped m (Node l x r) \<longleftrightarrow>
     points_to x (sy_left (m x)) l \<and> points_to x (sy_right (m x)) r \<and> shaped m l \<and> shaped m r \<and>
     x \<notin> set_tree l \<and> x \<notin> set_tree r \<and> set_tree l \<inter> set_tree r = {}"

lemma shaped_cong:
  "(\<And>x. x \<in> set_tree t \<Longrightarrow> sy_left (m' x) = sy_left (m x) \<and> sy_right (m' x) = sy_right (m x)) \<Longrightarrow> shaped m' t = shaped m t"
  by (induction t) auto

lemma shaped_bare: "bare m' = bare m \<Longrightarrow> shaped m' t = shaped m t"
  by (rule shaped_cong) (metis bare_fields(2,3))

text \<open>A walk that finds a symbol counts it; one that finds none ends where a link is 0, and hangs the next symbol there.\<close>

definition counted_at :: "nat \<Rightarrow> u8 \<Rightarrow> (nat \<Rightarrow> ENetSymbol) \<Rightarrow> (nat \<Rightarrow> ENetSymbol) \<Rightarrow> bool" where
  "counted_at x d m m' \<longleftrightarrow> bare m' = (bare m)(x := (bare m x)\<lparr>sy_count := sy_count (m x) + d\<rparr>)"

definition bare_symbol :: "u8 \<Rightarrow> u8 \<Rightarrow> ENetSymbol" where
  "bare_symbol v d = (new_symbol v d)\<lparr>sy_under := 0\<rparr>"

definition hung_at :: "nat \<Rightarrow> nat \<Rightarrow> u8 \<Rightarrow> u8 \<Rightarrow> (nat \<Rightarrow> ENetSymbol) \<Rightarrow> (nat \<Rightarrow> ENetSymbol) \<Rightarrow> bool" where
  "hung_at y n v d m m' \<longleftrightarrow> y < n \<and>
     (sy_left (m y) = 0 \<and> bare m' = (bare m)(n := bare_symbol v d, y := (bare m y)\<lparr>sy_left := symbol_offset n y\<rparr>)
      \<or> sy_right (m y) = 0 \<and> bare m' = (bare m)(n := bare_symbol v d, y := (bare m y)\<lparr>sy_right := symbol_offset n y\<rparr>))"

lemma bare_counted:
  "bare (m(x := (m x)\<lparr>sy_under := u, sy_count := k\<rparr>)) = (bare m)(x := (bare m x)\<lparr>sy_count := k\<rparr>)"
  by (auto simp: bare_def)

lemma bare_hung:
  assumes "y < n"
  shows "bare (m(n := new_symbol v d, y := (m y)\<lparr>sy_left := k\<rparr>)) = (bare m)(n := bare_symbol v d, y := (bare m y)\<lparr>sy_left := k\<rparr>)"
    "bare (m(n := new_symbol v d, y := (m y)\<lparr>sy_right := k\<rparr>)) = (bare m)(n := bare_symbol v d, y := (bare m y)\<lparr>sy_right := k\<rparr>)"
  using assms by (auto simp: bare_def bare_symbol_def)

definition walked ::
  "nat tree \<Rightarrow> u8 \<Rightarrow> u8 \<Rightarrow> u16 \<Rightarrow> 'a ENetRangeCoder_scheme \<Rightarrow> nat \<times> u16 \<times> u16 \<times> 'a ENetRangeCoder_scheme \<Rightarrow> bool" where
  "walked t v d cnt c res \<longleftrightarrow>
     (case res of (got, below, cnt', c') \<Rightarrow>
        c' = c\<lparr>rc_symbols := rc_symbols c', rc_nextSymbol := rc_nextSymbol c'\<rparr> \<and>
        (got \<in> set_tree t \<and> cnt' = cnt + ucast (sy_count (rc_symbols c got)) \<and> rc_nextSymbol c' = rc_nextSymbol c
           \<and> counted_at got d (rc_symbols c) (rc_symbols c')
         \<or> got = rc_nextSymbol c \<and> cnt' = cnt \<and> rc_nextSymbol c' = got + 1
           \<and> (\<exists>y\<in>set_tree t. hung_at y got v d (rc_symbols c) (rc_symbols c'))))"

lemma bare_eq_fields: "bare m' = bare m \<Longrightarrow> sy_count (m' i) = sy_count (m i) \<and> sy_left (m' i) = sy_left (m i) \<and> sy_right (m' i) = sy_right (m i)"
  by (metis bare_fields(1-3))

lemma walked_bare:
  assumes "walked t v d cnt (c\<lparr>rc_symbols := m\<rparr>) res" "bare m = bare (rc_symbols c)" "set_tree t \<subseteq> set_tree t'"
  shows "walked t' v d cnt c res"
proof -
  have "counted_at s d m m' = counted_at s d (rc_symbols c) m'" "hung_at y n v d m m' = hung_at y n v d (rc_symbols c) m'" for s y n m'
    using bare_eq_fields [OF assms(2)] assms(2) by (simp_all add: counted_at_def hung_at_def)
  note same = this
  obtain got below cnt' c' where res: "res = (got, below, cnt', c')"
    by (metis prod_cases4)
  have "sy_count (m got) = sy_count (rc_symbols c got)"
    using bare_eq_fields [OF assms(2)] by simp
  then show ?thesis
    using assms(1,3) unfolding walked_def res prod.case by (auto simp: same)
qed

lemma context_walk_ends:
  assumes "t = Node l x r" "shaped (rc_symbols c) t" "set_tree t \<subseteq> {..<rc_nextSymbol c}" "rc_nextSymbol c < symbolCount"
  shows "walked t v d cnt c (context_walk v d below cnt x c)"
  using assms
proof (induction t arbitrary: l x r c below)
  case (Node l' x' r')
  let ?m = "rc_symbols c" and ?n = "rc_nextSymbol c" and ?t = "Node l' x' r'"
  have e: "l' = l" "x' = x" "r' = r" using Node.prems(1) by simp_all
  note sh = Node.prems(2-4) [unfolded e]
  have x: "x < ?n" "x < symbolCount" "\<not> symbolCount \<le> x" using sh by auto
  show ?case
  proof (cases "v < sy_value (?m x)")
    case True
    define u where "u = sy_under (?m x) + ucast d"
    define m1 where "m1 = ?m(x := (?m x)\<lparr>sy_under := u\<rparr>)"
    show ?thesis
    proof (cases l)
      case Leaf
      have "context_walk v d below cnt x c = (?n, below, cnt,
          c\<lparr>rc_symbols := ?m(?n := new_symbol v d, x := (?m x)\<lparr>sy_under := u, sy_left := symbol_offset ?n x\<rparr>), rc_nextSymbol := ?n + 1\<rparr>)"
        using True x sh Leaf
        by (subst context_walk.simps) (simp add: Let_def ENET_SYMBOL_CREATE_def upd_symbol_inside u_def fun_upd_twist)
      moreover have "hung_at x ?n v d ?m (?m(?n := new_symbol v d, x := (?m x)\<lparr>sy_under := u, sy_left := symbol_offset ?n x\<rparr>))"
        using x sh Leaf by (auto simp: hung_at_def bare_def bare_symbol_def)
      ultimately show ?thesis
        by (simp add: e walked_def)
    next
      case l: (Node l2 x2 r2)
      let ?c = "c\<lparr>rc_symbols := m1\<rparr>"
      have m1: "bare m1 = bare ?m" by (simp add: m1_def)
      have sl: "l' = Node l2 x2 r2" "shaped (rc_symbols ?c) l'" "set_tree l' \<subseteq> {..<rc_nextSymbol ?c}" "rc_nextSymbol ?c < symbolCount"
        using sh shaped_bare [OF m1, of l] l by (auto simp: e)
      have "context_walk v d below cnt x c = context_walk v d below cnt x2 ?c"
        using True x sh l by (subst context_walk.simps) (simp add: Let_def upd_symbol_inside u_def m1_def)
      then show ?thesis
        using walked_bare [OF Node.IH(1) [OF sl] m1, where t' = ?t] by auto
    qed
  next
    case ge: False
    show ?thesis
    proof (cases "v > sy_value (?m x)")
      case True
      define below1 where "below1 = below + sy_under (?m x)"
      show ?thesis
      proof (cases r)
        case Leaf
        have "context_walk v d below cnt x c = (?n, below1, cnt,
            c\<lparr>rc_symbols := ?m(?n := new_symbol v d, x := (?m x)\<lparr>sy_right := symbol_offset ?n x\<rparr>), rc_nextSymbol := ?n + 1\<rparr>)"
          using True ge x sh Leaf
          by (subst context_walk.simps) (simp add: Let_def ENET_SYMBOL_CREATE_def upd_symbol_inside below1_def)
        moreover have "hung_at x ?n v d ?m (?m(?n := new_symbol v d, x := (?m x)\<lparr>sy_right := symbol_offset ?n x\<rparr>))"
          using x sh Leaf by (auto simp: hung_at_def bare_hung)
        ultimately show ?thesis
          by (simp add: e walked_def)
      next
        case r: (Node l2 x2 r2)
        have sr: "r' = Node l2 x2 r2" "shaped ?m r'" "set_tree r' \<subseteq> {..<?n}"
          using sh r by (auto simp: e)
        have run: "context_walk v d below cnt x c = context_walk v d below1 cnt x2 c"
          using True ge x sh r by (subst context_walk.simps) (simp add: Let_def below1_def)
        have "walked r' v d cnt (c\<lparr>rc_symbols := ?m\<rparr>) (context_walk v d below1 cnt x2 c)"
          using Node.IH(2) [OF sr sh(3), of below1] by simp
        then show ?thesis
          unfolding run by (rule walked_bare) auto
      qed
    next
      case False
      have "context_walk v d below cnt x c = (x, below + (sy_under (?m x) - ucast (sy_count (?m x))), cnt + ucast (sy_count (?m x)),
          c\<lparr>rc_symbols := ?m(x := (?m x)\<lparr>sy_under := sy_under (?m x) + ucast d, sy_count := sy_count (?m x) + d\<rparr>), rc_nextSymbol := ?n\<rparr>)"
        using False ge x by (subst context_walk.simps) (simp add: Let_def upd_symbol_inside)
      moreover have "counted_at x d ?m (?m(x := (?m x)\<lparr>sy_under := sy_under (?m x) + ucast d, sy_count := sy_count (?m x) + d\<rparr>))"
        by (simp add: counted_at_def bare_counted)
      ultimately show ?thesis
        by (simp add: e walked_def)
    qed
  qed
qed simp

text \<open>The same of the walk for a code.\<close>

definition searched ::
  "nat tree \<Rightarrow> u8 \<Rightarrow> u16 \<Rightarrow> ENetRangeDecoder \<Rightarrow> search_end \<times> ENetRangeDecoder \<Rightarrow> bool" where
  "searched t d minimum c res \<longleftrightarrow>
     (case res of (e, c') \<Rightarrow>
        c' = c\<lparr>rc_symbols := rc_symbols c'\<rparr> \<and>
        (case e of
           Hit got v below cnt \<Rightarrow> got \<in> set_tree t \<and> cnt = minimum + ucast (sy_count (rc_symbols c got))
             \<and> counted_at got d (rc_symbols c) (rc_symbols c')
         | NoRight y after \<Rightarrow> y \<in> set_tree t \<and> sy_right (rc_symbols c y) = 0 \<and> bare (rc_symbols c') = bare (rc_symbols c)
         | NoLeft y after beforeNode \<Rightarrow>
             y \<in> set_tree t \<and> sy_left (rc_symbols c y) = 0 \<and> bare (rc_symbols c') = bare (rc_symbols c)))"

lemma searched_bare:
  assumes "searched t d minimum (c\<lparr>rc_symbols := m\<rparr>) res" "bare m = bare (rc_symbols c)" "set_tree t \<subseteq> set_tree t'"
  shows "searched t' d minimum c res"
proof -
  obtain e c' where res: "res = (e, c')"
    by (cases res)
  have "counted_at x d m m' = counted_at x d (rc_symbols c) m'" for x m'
    using bare_eq_fields [OF assms(2)] assms(2) by (simp add: counted_at_def)
  then show ?thesis
    using assms(1,3) bare_eq_fields [OF assms(2)] unfolding searched_def res prod.case
    by (auto simp: assms(2) split: search_end.splits)
qed

lemma decode_walk_ends:
  assumes "t = Node l x r" "shaped (rc_symbols c) t" "set_tree t \<subseteq> {..<symbolCount}"
  shows "searched t d minimum c (decode_walk d minimum code below x c)"
  using assms
proof (induction t arbitrary: l x r c below)
  case (Node l' x' r')
  let ?m = "rc_symbols c" and ?t = "Node l' x' r'"
  have e: "l' = l" "x' = x" "r' = r" using Node.prems(1) by simp_all
  note sh = Node.prems(2,3) [unfolded e]
  have x: "x < symbolCount" "\<not> symbolCount \<le> x" using sh by auto
  define after where "after = below + sy_under (?m x) + (ucast (sy_value (?m x)) + 1) * minimum"
  define b where "b = ucast (sy_count (?m x)) + minimum"
  show ?case
  proof (cases "code \<ge> after")
    case True
    show ?thesis
    proof (cases r)
      case Leaf
      have "decode_walk d minimum code below x c = (NoRight x after, c)"
        using True x sh Leaf by (subst decode_walk.simps) (simp add: Let_def after_def [symmetric])
      then show ?thesis
        using sh Leaf by (simp add: e searched_def)
    next
      case r: (Node l2 x2 r2)
      have sr: "r' = Node l2 x2 r2" "shaped ?m r'" "set_tree r' \<subseteq> {..<symbolCount}"
        using sh r by (auto simp: e)
      have run: "decode_walk d minimum code below x c = decode_walk d minimum code (below + sy_under (?m x)) x2 c"
        using True x sh r by (subst decode_walk.simps) (simp add: Let_def after_def [symmetric])
      have "searched r' d minimum (c\<lparr>rc_symbols := ?m\<rparr>) (decode_walk d minimum code (below + sy_under (?m x)) x2 c)"
        using Node.IH(2) [OF sr] by simp
      then show ?thesis
        unfolding run by (rule searched_bare) auto
    qed
  next
    case before_end: False
    show ?thesis
    proof (cases "uint code < uint after - uint b")
      case True
      define m1 where "m1 = ?m(x := (?m x)\<lparr>sy_under := sy_under (?m x) + ucast d\<rparr>)"
      have m1: "bare m1 = bare ?m" by (simp add: m1_def)
      show ?thesis
      proof (cases l)
        case Leaf
        have "decode_walk d minimum code below x c = (NoLeft x after b, c\<lparr>rc_symbols := m1\<rparr>)"
          using True before_end x sh Leaf
          by (subst decode_walk.simps) (simp add: Let_def after_def [symmetric] b_def [symmetric] upd_symbol_inside m1_def)
        then show ?thesis
          using sh Leaf m1 by (simp add: e searched_def)
      next
        case l: (Node l2 x2 r2)
        let ?c = "c\<lparr>rc_symbols := m1\<rparr>"
        have sl: "l' = Node l2 x2 r2" "shaped (rc_symbols ?c) l'" "set_tree l' \<subseteq> {..<symbolCount}"
          using sh shaped_bare [OF m1, of l] l by (auto simp: e)
        have run: "decode_walk d minimum code below x c = decode_walk d minimum code below x2 ?c"
          using True before_end x sh l
          by (subst decode_walk.simps) (simp add: Let_def after_def [symmetric] b_def [symmetric] upd_symbol_inside m1_def)
        show ?thesis
          unfolding run using Node.IH(1) [OF sl] m1 by (rule searched_bare) auto
      qed
    next
      case False
      have "decode_walk d minimum code below x c = (Hit x (sy_value (?m x)) (after - b) (minimum + ucast (sy_count (?m x))),
          c\<lparr>rc_symbols := ?m(x := (?m x)\<lparr>sy_under := sy_under (?m x) + ucast d, sy_count := sy_count (?m x) + d\<rparr>)\<rparr>)"
        using False before_end x
        by (subst decode_walk.simps) (simp add: Let_def after_def [symmetric] b_def [symmetric] upd_symbol_inside)
      then show ?thesis
        by (simp add: e searched_def counted_at_def bare_counted)
    qed
  qed
qed simp

section \<open>A symbol more, and all counts halved\<close>

lemma hung_fields:
  assumes "hung_at y n v d m m'"
  shows "i \<noteq> n \<Longrightarrow> sy_count (m' i) = sy_count (m i) \<and> sy_symbols (m' i) = sy_symbols (m i) \<and> sy_escapes (m' i) = sy_escapes (m i)
      \<and> sy_total (m' i) = sy_total (m i) \<and> sy_parent (m' i) = sy_parent (m i)"
    "i \<noteq> n \<Longrightarrow> i \<noteq> y \<Longrightarrow> sy_left (m' i) = sy_left (m i) \<and> sy_right (m' i) = sy_right (m i)"
    "sy_count (m' n) = d \<and> sy_left (m' n) = 0 \<and> sy_right (m' n) = 0 \<and> sy_symbols (m' n) = 0 \<and> sy_escapes (m' n) = 0
      \<and> sy_total (m' n) = 0 \<and> sy_parent (m' n) = 0"
    "sy_left (m y) = 0 \<and> sy_left (m' y) = symbol_offset n y \<and> sy_right (m' y) = sy_right (m y)
     \<or> sy_right (m y) = 0 \<and> sy_right (m' y) = symbol_offset n y \<and> sy_left (m' y) = sy_left (m y)"
proof -
  have b: "sy_count (m' j) = sy_count (bare m' j)" "sy_symbols (m' j) = sy_symbols (bare m' j)" "sy_escapes (m' j) = sy_escapes (bare m' j)"
    "sy_total (m' j) = sy_total (bare m' j)" "sy_parent (m' j) = sy_parent (bare m' j)" "sy_left (m' j) = sy_left (bare m' j)"
    "sy_right (m' j) = sy_right (bare m' j)" for j
    by simp_all
  from assms consider
      (left) "y < n" "sy_left (m y) = 0" "bare m' = (bare m)(n := bare_symbol v d, y := (bare m y)\<lparr>sy_left := symbol_offset n y\<rparr>)"
    | (right) "y < n" "sy_right (m y) = 0" "bare m' = (bare m)(n := bare_symbol v d, y := (bare m y)\<lparr>sy_right := symbol_offset n y\<rparr>)"
    unfolding hung_at_def by blast
  then have "(i \<noteq> n \<longrightarrow> sy_count (m' i) = sy_count (m i) \<and> sy_symbols (m' i) = sy_symbols (m i) \<and> sy_escapes (m' i) = sy_escapes (m i)
      \<and> sy_total (m' i) = sy_total (m i) \<and> sy_parent (m' i) = sy_parent (m i)) \<and>
    (i \<noteq> n \<longrightarrow> i \<noteq> y \<longrightarrow> sy_left (m' i) = sy_left (m i) \<and> sy_right (m' i) = sy_right (m i)) \<and>
    (sy_count (m' n) = d \<and> sy_left (m' n) = 0 \<and> sy_right (m' n) = 0 \<and> sy_symbols (m' n) = 0 \<and> sy_escapes (m' n) = 0
      \<and> sy_total (m' n) = 0 \<and> sy_parent (m' n) = 0) \<and>
    (sy_left (m y) = 0 \<and> sy_left (m' y) = symbol_offset n y \<and> sy_right (m' y) = sy_right (m y)
     \<or> sy_right (m y) = 0 \<and> sy_right (m' y) = symbol_offset n y \<and> sy_left (m' y) = sy_left (m y))"
    by cases (simp_all only: b, simp_all add: bare_symbol_def new_symbol_def)
  then show "i \<noteq> n \<Longrightarrow> sy_count (m' i) = sy_count (m i) \<and> sy_symbols (m' i) = sy_symbols (m i) \<and> sy_escapes (m' i) = sy_escapes (m i)
      \<and> sy_total (m' i) = sy_total (m i) \<and> sy_parent (m' i) = sy_parent (m i)"
    "i \<noteq> n \<Longrightarrow> i \<noteq> y \<Longrightarrow> sy_left (m' i) = sy_left (m i) \<and> sy_right (m' i) = sy_right (m i)"
    "sy_count (m' n) = d \<and> sy_left (m' n) = 0 \<and> sy_right (m' n) = 0 \<and> sy_symbols (m' n) = 0 \<and> sy_escapes (m' n) = 0
      \<and> sy_total (m' n) = 0 \<and> sy_parent (m' n) = 0"
    "sy_left (m y) = 0 \<and> sy_left (m' y) = symbol_offset n y \<and> sy_right (m' y) = sy_right (m y)
     \<or> sy_right (m y) = 0 \<and> sy_right (m' y) = symbol_offset n y \<and> sy_left (m' y) = sy_left (m y)"
    by blast+
qed

definition same_root :: "nat tree \<Rightarrow> nat tree \<Rightarrow> bool" where
  "same_root t t' \<longleftrightarrow> (\<forall>i off. points_to i off t \<longrightarrow> points_to i off t')"

lemma same_root_Node [simp]: "same_root (Node l x r) (Node l' x r')"
  by (simp add: same_root_def)

lemma shaped_hung:
  assumes "shaped m t" "y \<in> set_tree t" "hung_at y n v d m m'" "set_tree t \<subseteq> {..<n}" "n < symbolCount"
  shows "\<exists>t'. shaped m' t' \<and> set_tree t' = insert n (set_tree t) \<and> same_root t t'"
  using assms(1,2,4)
proof (induction t)
  case (Node l x r)
  note hf = hung_fields [OF assms(3)]
  have y: "y < n" using assms(3) by (auto simp: hung_at_def)
  have apart: "x \<notin> set_tree l" "x \<notin> set_tree r" "set_tree l \<inter> set_tree r = {}" "x < n" "set_tree l \<subseteq> {..<n}" "set_tree r \<subseteq> {..<n}"
    using Node.prems by auto
  have frame: "shaped m' u" if "shaped m u" "y \<notin> set_tree u" "set_tree u \<subseteq> {..<n}" for u
    using that hf(2) by (subst shaped_cong [of u m' m]) fastforce+
  consider (here) "y = x" | (left) "y \<in> set_tree l" "y \<noteq> x" | (right) "y \<in> set_tree r" "y \<noteq> x"
    using Node.prems(2) by auto
  then show ?case
  proof cases
    case here
    have lr: "shaped m' l" "shaped m' r"
      using frame Node.prems apart here by simp_all
    from hf(4) show ?thesis
    proof
      assume h: "sy_left (m y) = 0 \<and> sy_left (m' y) = symbol_offset n y \<and> sy_right (m' y) = sy_right (m y)"
      then have "l = Leaf"
        using Node.prems(1) here by (cases l) auto
      then have "shaped m' (Node (Node Leaf n Leaf) x r)"
        using h here hf(3) lr Node.prems(1) apart y assms(5) by auto
      then show ?thesis
        using \<open>l = Leaf\<close> by (intro exI [of _ "Node (Node Leaf n Leaf) x r"]) auto
    next
      assume h: "sy_right (m y) = 0 \<and> sy_right (m' y) = symbol_offset n y \<and> sy_left (m' y) = sy_left (m y)"
      then have "r = Leaf"
        using Node.prems(1) here by (cases r) auto
      then have "shaped m' (Node l x (Node Leaf n Leaf))"
        using h here hf(3) lr Node.prems(1) apart y assms(5) by auto
      then show ?thesis
        using \<open>r = Leaf\<close> by (intro exI [of _ "Node l x (Node Leaf n Leaf)"]) auto
    qed
  next
    case left
    then obtain l' where l': "shaped m' l'" "set_tree l' = insert n (set_tree l)" "same_root l l'"
      using Node.IH(1) Node.prems apart by auto
    have "shaped m' r" using frame Node.prems(1) apart left by auto
    moreover have "sy_left (m' x) = sy_left (m x) \<and> sy_right (m' x) = sy_right (m x)"
      using hf(2) left apart by auto
    ultimately have "shaped m' (Node l' x r)"
      using l' Node.prems(1) apart by (auto simp: same_root_def)
    then show ?thesis
      using l'(2) by (intro exI [of _ "Node l' x r"]) auto
  next
    case right
    then obtain r' where r': "shaped m' r'" "set_tree r' = insert n (set_tree r)" "same_root r r'"
      using Node.IH(2) Node.prems apart by auto
    have "shaped m' l" using frame Node.prems(1) apart right by auto
    moreover have "sy_left (m' x) = sy_left (m x) \<and> sy_right (m' x) = sy_right (m x)"
      using hf(2) right apart by auto
    ultimately have "shaped m' (Node l x r')"
      using r' Node.prems(1) apart by (auto simp: same_root_def)
    then show ?thesis
      using r'(2) by (intro exI [of _ "Node l x r'"]) auto
  qed
qed simp

text \<open>Rescaling halves every count of the tree and returns their sum.\<close>

definition tally :: "(nat \<Rightarrow> ENetSymbol) \<Rightarrow> nat tree \<Rightarrow> nat" where
  "tally m t = (\<Sum>x\<in>set_tree t. unat (sy_count (m x)))"

lemma tally_cong: "(\<And>x. x \<in> set_tree t \<Longrightarrow> sy_count (m' x) = sy_count (m x)) \<Longrightarrow> tally m' t = tally m t"
  by (simp add: tally_def)

lemma tally_simps [simp]:
  "tally m Leaf = 0"
  "shaped m' (Node l x r) \<Longrightarrow> tally m (Node l x r) = unat (sy_count (m x)) + tally m l + tally m r"
  by (simp_all add: tally_def sum.union_disjoint)

definition halve_count :: "ENetSymbol \<Rightarrow> ENetSymbol" where
  "halve_count s = s\<lparr>sy_count := sy_count s - drop_bit 1 (sy_count s)\<rparr>"

definition halved_tree :: "nat tree \<Rightarrow> (nat \<Rightarrow> ENetSymbol) \<Rightarrow> (nat \<Rightarrow> ENetSymbol) \<Rightarrow> bool" where
  "halved_tree t m m' \<longleftrightarrow>
     (\<forall>i. i \<notin> set_tree t \<longrightarrow> m' i = m i) \<and> (\<forall>i\<in>set_tree t. bare m' i = halve_count (bare m i))"

lemma halved_fields:
  assumes "bare m' i = halve_count (bare m i)"
  shows "sy_count (m' i) = sy_count (m i) - drop_bit 1 (sy_count (m i))" "sy_left (m' i) = sy_left (m i)"
    "sy_right (m' i) = sy_right (m i)" "sy_symbols (m' i) = sy_symbols (m i)" "sy_escapes (m' i) = sy_escapes (m i)"
    "sy_total (m' i) = sy_total (m i)" "sy_parent (m' i) = sy_parent (m i)"
proof -
  have b: "sy_count (m' i) = sy_count (bare m' i)" "sy_symbols (m' i) = sy_symbols (bare m' i)" "sy_escapes (m' i) = sy_escapes (bare m' i)"
    "sy_total (m' i) = sy_total (bare m' i)" "sy_parent (m' i) = sy_parent (bare m' i)" "sy_left (m' i) = sy_left (bare m' i)"
    "sy_right (m' i) = sy_right (bare m' i)"
    by simp_all
  show "sy_count (m' i) = sy_count (m i) - drop_bit 1 (sy_count (m i))" "sy_left (m' i) = sy_left (m i)"
    "sy_right (m' i) = sy_right (m i)" "sy_symbols (m' i) = sy_symbols (m i)" "sy_escapes (m' i) = sy_escapes (m i)"
    "sy_total (m' i) = sy_total (m i)" "sy_parent (m' i) = sy_parent (m i)"
    by (simp_all only: b assms, simp_all add: halve_count_def)
qed

lemma rescale_left:
  assumes "shaped (rc_symbols c) (Node l x r)" "set_tree (Node l x r) \<subseteq> {..<symbolCount}"
    and "h = sy_count (rc_symbols c x) - drop_bit 1 (sy_count (rc_symbols c x))"
    and "m1 = (rc_symbols c)(x := (rc_symbols c x)\<lparr>sy_count := h, sy_under := ucast h\<rparr>)"
    and "\<And>l2 x2 r2. l = Node l2 x2 r2 \<Longrightarrow> \<exists>m2. enet_symbol_rescale x2 (c\<lparr>rc_symbols := m1\<rparr>)
      = (of_nat (tally m2 l), c\<lparr>rc_symbols := m2\<rparr>) \<and> halved_tree l m1 m2"
  shows "\<exists>m3. (let left = sy_left (m1 x) in
      if left \<noteq> 0
      then (let (tot, c) = enet_symbol_rescale (x + unat left) (c\<lparr>rc_symbols := m1\<rparr>)
            in upd_symbol x (\<lambda>s. s\<lparr>sy_under := sy_under s + tot\<rparr>) c)
      else c\<lparr>rc_symbols := m1\<rparr>) = c\<lparr>rc_symbols := m3\<rparr> \<and> sy_under (m3 x) = of_nat (unat h + tally m3 l)
      \<and> (\<forall>i. i \<notin> insert x (set_tree l) \<longrightarrow> m3 i = rc_symbols c i)
      \<and> (\<forall>i\<in>insert x (set_tree l). bare m3 i = halve_count (bare (rc_symbols c) i))"
proof (cases l)
  case Leaf
  then show ?thesis
    using assms(1) by (intro exI [of _ m1]) (auto simp: assms(3,4) bare_def halve_count_def)
next
  case l: (Node l2 x2 r2)
  let ?m = "rc_symbols c"
  have apart: "x \<notin> set_tree l" "x < symbolCount" and m1: "\<And>i. i \<noteq> x \<Longrightarrow> m1 i = ?m i"
    using assms(1,2) by (simp_all add: assms(4))
  obtain m2 where m2: "enet_symbol_rescale x2 (c\<lparr>rc_symbols := m1\<rparr>) = (of_nat (tally m2 l), c\<lparr>rc_symbols := m2\<rparr>)"
    "halved_tree l m1 m2"
    using assms(5) [OF l] by blast
  define m3 where "m3 = m2(x := (m2 x)\<lparr>sy_under := sy_under (m2 x) + of_nat (tally m2 l)\<rparr>)"
  have "m2 x = m1 x"
    using m2(2) apart by (simp add: halved_tree_def)
  moreover have "tally m3 l = tally m2 l"
    using apart by (intro tally_cong) (auto simp: m3_def)
  ultimately have "sy_under (m3 x) = of_nat (unat h + tally m3 l)"
    by (simp add: m3_def assms(4))
  moreover have "m3 i = ?m i" if "i \<notin> insert x (set_tree l)" for i
    using that m2(2) m1 by (simp add: m3_def halved_tree_def)
  moreover have "bare m3 i = halve_count (bare ?m i)" if "i \<in> insert x (set_tree l)" for i
  proof (cases "i = x")
    case True
    then show ?thesis
      using \<open>m2 x = m1 x\<close> by (simp add: m3_def assms(3,4) bare_def halve_count_def)
  next
    case False
    then show ?thesis
      using that m2(2) m1 by (simp add: m3_def halved_tree_def bare_def)
  qed
  moreover have "sy_left (m1 x) \<noteq> 0" "x + unat (sy_left (m1 x)) = x2"
    using assms(1) l by (simp_all add: assms(4))
  ultimately show ?thesis
    using m2(1) apart(2) by (intro exI [of _ m3]) (simp add: Let_def upd_symbol_inside m3_def)
qed

lemma rescale_shaped:
  assumes "t = Node l x r" "shaped (rc_symbols c) t" "set_tree t \<subseteq> {..<symbolCount}"
  shows "\<exists>m'. enet_symbol_rescale x c = (of_nat (tally m' t), c\<lparr>rc_symbols := m'\<rparr>) \<and> halved_tree t (rc_symbols c) m'"
  using assms
proof (induction t arbitrary: l x r c)
  case (Node l' x' r')
  let ?m = "rc_symbols c"
  have e: "l' = l" "x' = x" "r' = r" using Node.prems(1) by simp_all
  note sh = Node.prems(2,3) [unfolded e]
  have x: "x < symbolCount" "\<not> symbolCount \<le> x" and apart: "x \<notin> set_tree l" "x \<notin> set_tree r" "set_tree l \<inter> set_tree r = {}"
    using sh by auto
  define h where "h = sy_count (?m x) - drop_bit 1 (sy_count (?m x))"
  define m1 where "m1 = ?m(x := (?m x)\<lparr>sy_count := h, sy_under := ucast h\<rparr>)"
  have m1: "shaped m1 l" "shaped m1 r" "\<And>i. i \<noteq> x \<Longrightarrow> m1 i = ?m i"
    using sh apart shaped_cong [of l m1 ?m] shaped_cong [of r m1 ?m] by (auto simp: m1_def)
  have "\<exists>m3. (let left = sy_left (m1 x) in
      if left \<noteq> 0
      then (let (tot, c) = enet_symbol_rescale (x + unat left) (c\<lparr>rc_symbols := m1\<rparr>)
            in upd_symbol x (\<lambda>s. s\<lparr>sy_under := sy_under s + tot\<rparr>) c)
      else c\<lparr>rc_symbols := m1\<rparr>) = c\<lparr>rc_symbols := m3\<rparr> \<and> sy_under (m3 x) = of_nat (unat h + tally m3 l)
      \<and> (\<forall>i. i \<notin> insert x (set_tree l) \<longrightarrow> m3 i = ?m i) \<and> (\<forall>i\<in>insert x (set_tree l). bare m3 i = halve_count (bare ?m i))"
  proof (rule rescale_left [OF _ _ h_def m1_def])
    show "shaped ?m (Node l x r)" "set_tree (Node l x r) \<subseteq> {..<symbolCount}"
      using sh by simp_all
    show "\<exists>m2. enet_symbol_rescale x2 (c\<lparr>rc_symbols := m1\<rparr>) = (of_nat (tally m2 l), c\<lparr>rc_symbols := m2\<rparr>) \<and> halved_tree l m1 m2"
      if l: "l = Node l2 x2 r2" for l2 x2 r2
      using Node.IH(1) [of l2 x2 r2 "c\<lparr>rc_symbols := m1\<rparr>"] sh m1 l by (auto simp: e)
  qed
  then obtain m3 where run1: "(let left = sy_left (m1 x) in
      if left \<noteq> 0
      then (let (tot, c) = enet_symbol_rescale (x + unat left) (c\<lparr>rc_symbols := m1\<rparr>)
            in upd_symbol x (\<lambda>s. s\<lparr>sy_under := sy_under s + tot\<rparr>) c)
      else c\<lparr>rc_symbols := m1\<rparr>) = c\<lparr>rc_symbols := m3\<rparr>"
    and m3: "sy_under (m3 x) = of_nat (unat h + tally m3 l)" "\<And>i. i \<notin> insert x (set_tree l) \<Longrightarrow> m3 i = ?m i"
      "\<And>i. i \<in> insert x (set_tree l) \<Longrightarrow> bare m3 i = halve_count (bare ?m i)"
    by blast
  have fields: "sy_right (m3 x) = sy_right (?m x)" "sy_count (m3 x) = h" "sy_left (m3 x) = sy_left (?m x)"
    using halved_fields [OF m3(3) [of x]] by (simp_all add: h_def)
  have m3r: "m3 i = ?m i" if "i \<in> set_tree r" for i
    using that apart by (intro m3(2)) auto
  have "shaped m3 r"
    using sh m3r by (subst shaped_cong [of r m3 ?m]) auto
  have run: "enet_symbol_rescale x c =
      (if sy_right (m3 x) = 0 then (sy_under (m3 x), c\<lparr>rc_symbols := m3\<rparr>)
       else (let (tot, c) = enet_symbol_rescale (x + unat (sy_right (m3 x))) (c\<lparr>rc_symbols := m3\<rparr>) in (sy_under (m3 x) + tot, c)))"
  proof -
    have c1: "upd_symbol x (\<lambda>s. s\<lparr>sy_under := ucast (sy_count s)\<rparr>)
        (upd_symbol x (\<lambda>s. s\<lparr>sy_count := sy_count s - drop_bit 1 (sy_count s)\<rparr>) c) = c\<lparr>rc_symbols := m1\<rparr>"
      using x by (simp add: upd_symbol_inside m1_def h_def)
    have sel: "rc_symbols (c\<lparr>rc_symbols := m1\<rparr>) x = m1 x" "rc_symbols (c\<lparr>rc_symbols := m3\<rparr>) x = m3 x"
      by simp_all
    have inside: "(symbolCount \<le> x) = False"
      using x by simp
    show ?thesis
      unfolding enet_symbol_rescale.simps [of x c] Let_def c1
      by (simp only: inside if_False sel run1 [unfolded Let_def])
  qed
  have sm3: "shaped ?m (Node l x r)" using sh by simp
  show ?case
  proof (cases r)
    case Leaf
    have "sy_right (m3 x) = 0"
      using fields sh Leaf by simp
    moreover have "tally m3 (Node l x r) = unat h + tally m3 l"
      using tally_simps(2) [OF sm3, of m3] fields Leaf by simp
    moreover have "halved_tree (Node l x r) ?m m3"
      using m3(2,3) Leaf by (simp add: halved_tree_def)
    ultimately show ?thesis
      using run m3(1) by (intro exI [of _ m3]) (simp add: e)
  next
    case r: (Node l2 x2 r2)
    have sr: "r' = Node l2 x2 r2" "shaped (rc_symbols (c\<lparr>rc_symbols := m3\<rparr>)) r'" "set_tree r' \<subseteq> {..<symbolCount}"
      using sh \<open>shaped m3 r\<close> r by (auto simp: e)
    obtain m4 where m4: "enet_symbol_rescale x2 (c\<lparr>rc_symbols := m3\<rparr>) = (of_nat (tally m4 r), c\<lparr>rc_symbols := m4\<rparr>)"
      "halved_tree r m3 m4"
      using Node.IH(2) [OF sr] by (auto simp: e)
    have off: "sy_right (m3 x) \<noteq> 0" "x + unat (sy_right (m3 x)) = x2"
      using fields sh r by simp_all
    have same: "m4 i = m3 i" if "i \<notin> set_tree r" for i
      using m4(2) that by (simp add: halved_tree_def)
    have "tally m4 l = tally m3 l"
      using same apart(3) by (intro tally_cong) (metis disjoint_iff)
    then have "tally m4 (Node l x r) = unat h + tally m3 l + tally m4 r"
      using tally_simps(2) [OF sm3, of m4] same [OF apart(2)] fields by simp
    moreover have "halved_tree (Node l x r) ?m m4"
      unfolding halved_tree_def
    proof (intro conjI ballI allI impI)
      show "m4 i = ?m i" if "i \<notin> set_tree (Node l x r)" for i
        using that same m3(2) by simp
      show "bare m4 i = halve_count (bare ?m i)" if "i \<in> set_tree (Node l x r)" for i
      proof (cases "i \<in> set_tree r")
        case True
        then have "m3 i = ?m i" "bare m4 i = halve_count (bare m3 i)"
          using m3r m4(2) by (simp_all add: halved_tree_def)
        then show ?thesis by (simp add: bare_def)
      next
        case False
        then show ?thesis
          using that same m3(3) by (auto simp: bare_def)
      qed
    qed
    ultimately show ?thesis
      using run off m4(1) m3(1) by (intro exI [of _ m4]) (simp add: e)
  qed
qed simp

end
