(* ===== verification/Enet_Balance.thy ===== *)
theory Enet_Balance
  imports Enet_Shapes
begin

text \<open>
  The decompressor on bytes nobody compressed.  Such a stream can make the root's tree hold a value
  twice or in the wrong place, so nothing is said of values here: what is kept is the shape of the
  trees in the array, the depth of every symbol, and the totals of the contexts.
\<close>

section \<open>The contexts in the array\<close>

text \<open>
  \<open>T i\<close> is the tree of the context of symbol \<open>i\<close>, \<open>dp i\<close> how deep the symbol is.  While a symbol is
  being counted, the total of its context lags behind the counts by what is owed.
\<close>

definition symbol_delta :: "nat \<Rightarrow> nat" where
  "symbol_delta i = (if i = 0 then 3 else 2)"

definition minimum_total :: "nat \<Rightarrow> nat" where
  "minimum_total i = (if i = 0 then 256 else 0)"

definition context_ok ::
  "nat \<Rightarrow> nat \<Rightarrow> (nat \<Rightarrow> nat) \<Rightarrow> nat \<Rightarrow> (nat \<Rightarrow> ENetSymbol) \<Rightarrow> nat tree \<Rightarrow> nat \<Rightarrow> bool" where
  "context_ok owed lim dp n m t i \<longleftrightarrow>
     points_to i (sy_symbols (m i)) t \<and> shaped m t \<and> set_tree t \<subseteq> {0<..<n} \<and>
     (\<forall>x\<in>set_tree t. dp x = Suc (dp i) \<and> 0 < unat (sy_count (m x))
        \<and> (owed = 0 \<longrightarrow> unat (sy_count (m x)) + symbol_delta i \<le> 255)) \<and>
     unat (sy_total (m i)) + owed = unat (sy_escapes (m i)) + tally m t + minimum_total i \<and>
     unat (sy_total (m i)) \<le> lim"

definition forest ::
  "(nat \<Rightarrow> nat) \<Rightarrow> (nat \<Rightarrow> nat) \<Rightarrow> (nat \<Rightarrow> nat tree) \<Rightarrow> (nat \<Rightarrow> nat) \<Rightarrow> nat \<Rightarrow> (nat \<Rightarrow> ENetSymbol) \<Rightarrow> bool" where
  "forest owed lim T dp n m \<longleftrightarrow>
     0 < n \<and> n \<le> symbolCount \<and> dp 0 = 0 \<and> (\<forall>i<n. 0 < i \<longrightarrow> 0 < dp i) \<and>
     (\<forall>i<n. context_ok (owed i) (lim i) dp n m (T i) i) \<and>
     (\<forall>i<n. \<forall>j<n. i \<noteq> j \<longrightarrow> set_tree (T i) \<inter> set_tree (T j) = {})"

abbreviation settled :: "(nat \<Rightarrow> nat tree) \<Rightarrow> (nat \<Rightarrow> nat) \<Rightarrow> nat \<Rightarrow> (nat \<Rightarrow> ENetSymbol) \<Rightarrow> bool" where
  "settled \<equiv> forest (\<lambda>_. 0) (\<lambda>_. 0xFF00)"

lemma context_ok_frame:
  assumes "context_ok owed lim dp n m t i"
    "\<And>x. x \<in> set_tree t \<Longrightarrow> sy_left (m' x) = sy_left (m x) \<and> sy_right (m' x) = sy_right (m x) \<and> sy_count (m' x) = sy_count (m x)"
    "sy_symbols (m' i) = sy_symbols (m i)" "sy_escapes (m' i) = sy_escapes (m i)" "sy_total (m' i) = sy_total (m i)"
    "\<And>x. x \<in> insert i (set_tree t) \<Longrightarrow> dp' x = dp x" "n \<le> n'"
  shows "context_ok owed lim dp' n' m' t i"
proof -
  have "shaped m' t" "tally m' t = tally m t"
    using assms(1,2) shaped_cong [of t m' m] tally_cong [of t m' m] by (simp_all add: context_ok_def)
  then show ?thesis
    using assms by (auto simp: context_ok_def)
qed

text \<open>What a visit of a context does to the array: it counts a symbol of the tree, or hangs a new one in it.\<close>

definition visits ::
  "nat tree \<Rightarrow> nat \<Rightarrow> u8 \<Rightarrow> nat \<Rightarrow> (nat \<Rightarrow> ENetSymbol) \<Rightarrow> nat \<Rightarrow> nat \<Rightarrow> (nat \<Rightarrow> ENetSymbol) \<Rightarrow> bool" where
  "visits t i d n m got n' m' \<longleftrightarrow>
     got \<in> set_tree t \<and> n' = n \<and> counted_at got d m m' \<or>
     got = n \<and> n' = n + 1 \<and> (\<exists>v. \<exists>y\<in>set_tree t. hung_at y n v d m m') \<or>
     got = n \<and> n' = n + 1 \<and> t = Leaf \<and>
       (\<exists>v. bare m' = (bare m)(n := bare_symbol v d, i := (bare m i)\<lparr>sy_symbols := symbol_offset n i\<rparr>))"

lemma counted_fields:
  assumes "counted_at x d m m'"
  shows "sy_left (m' i) = sy_left (m i)" "sy_right (m' i) = sy_right (m i)" "sy_symbols (m' i) = sy_symbols (m i)"
    "sy_escapes (m' i) = sy_escapes (m i)" "sy_total (m' i) = sy_total (m i)" "sy_parent (m' i) = sy_parent (m i)"
    "sy_count (m' i) = (if i = x then sy_count (m i) + d else sy_count (m i))"
proof -
  have "bare m' i = (if i = x then (bare m i)\<lparr>sy_count := sy_count (m i) + d\<rparr> else bare m i)"
    using assms by (simp add: counted_at_def)
  then have "sy_left (bare m' i) = sy_left (m i)" "sy_right (bare m' i) = sy_right (m i)" "sy_symbols (bare m' i) = sy_symbols (m i)"
    "sy_escapes (bare m' i) = sy_escapes (m i)" "sy_total (bare m' i) = sy_total (m i)" "sy_parent (bare m' i) = sy_parent (m i)"
    "sy_count (bare m' i) = (if i = x then sy_count (m i) + d else sy_count (m i))"
    by (simp_all split: if_splits)
  then show "sy_left (m' i) = sy_left (m i)" "sy_right (m' i) = sy_right (m i)" "sy_symbols (m' i) = sy_symbols (m i)"
    "sy_escapes (m' i) = sy_escapes (m i)" "sy_total (m' i) = sy_total (m i)" "sy_parent (m' i) = sy_parent (m i)"
    "sy_count (m' i) = (if i = x then sy_count (m i) + d else sy_count (m i))"
    by simp_all
qed

lemma linked_fields:
  assumes "bare m' = (bare m)(n := bare_symbol v d, i := (bare m i)\<lparr>sy_symbols := k\<rparr>)" "i \<noteq> n"
  shows "j \<noteq> n \<Longrightarrow> sy_left (m' j) = sy_left (m j) \<and> sy_right (m' j) = sy_right (m j) \<and> sy_count (m' j) = sy_count (m j)
      \<and> sy_escapes (m' j) = sy_escapes (m j) \<and> sy_total (m' j) = sy_total (m j) \<and> sy_parent (m' j) = sy_parent (m j)"
    "j \<noteq> n \<Longrightarrow> j \<noteq> i \<Longrightarrow> sy_symbols (m' j) = sy_symbols (m j)" "sy_symbols (m' i) = k"
    "sy_count (m' n) = d \<and> sy_left (m' n) = 0 \<and> sy_right (m' n) = 0 \<and> sy_symbols (m' n) = 0 \<and> sy_escapes (m' n) = 0
      \<and> sy_total (m' n) = 0 \<and> sy_parent (m' n) = 0"
proof -
  have b: "sy_count (m' j) = sy_count (bare m' j)" "sy_symbols (m' j) = sy_symbols (bare m' j)" "sy_escapes (m' j) = sy_escapes (bare m' j)"
    "sy_total (m' j) = sy_total (bare m' j)" "sy_parent (m' j) = sy_parent (bare m' j)" "sy_left (m' j) = sy_left (bare m' j)"
    "sy_right (m' j) = sy_right (bare m' j)" for j
    by simp_all
  show "j \<noteq> n \<Longrightarrow> sy_left (m' j) = sy_left (m j) \<and> sy_right (m' j) = sy_right (m j) \<and> sy_count (m' j) = sy_count (m j)
      \<and> sy_escapes (m' j) = sy_escapes (m j) \<and> sy_total (m' j) = sy_total (m j) \<and> sy_parent (m' j) = sy_parent (m j)"
    "j \<noteq> n \<Longrightarrow> j \<noteq> i \<Longrightarrow> sy_symbols (m' j) = sy_symbols (m j)" "sy_symbols (m' i) = k"
    "sy_count (m' n) = d \<and> sy_left (m' n) = 0 \<and> sy_right (m' n) = 0 \<and> sy_symbols (m' n) = 0 \<and> sy_escapes (m' n) = 0
      \<and> sy_total (m' n) = 0 \<and> sy_parent (m' n) = 0"
    using assms(2) by (simp_all only: b assms(1)) (simp_all add: bare_symbol_def new_symbol_def)
qed

lemma visited_fields:
  assumes "visits t i d n m got n' m'" "i < n" "set_tree t \<subseteq> {0<..<n}"
  shows "j \<noteq> n \<Longrightarrow> sy_escapes (m' j) = sy_escapes (m j) \<and> sy_total (m' j) = sy_total (m j) \<and> sy_parent (m' j) = sy_parent (m j)"
    "j \<noteq> n \<Longrightarrow> j \<noteq> i \<Longrightarrow> sy_symbols (m' j) = sy_symbols (m j)"
    "j \<noteq> n \<Longrightarrow> j \<noteq> got \<Longrightarrow> sy_count (m' j) = sy_count (m j)"
    "j \<noteq> n \<Longrightarrow> j \<notin> set_tree t \<Longrightarrow> sy_left (m' j) = sy_left (m j) \<and> sy_right (m' j) = sy_right (m j)"
    "got = n \<Longrightarrow> sy_count (m' n) = d \<and> sy_left (m' n) = 0 \<and> sy_right (m' n) = 0 \<and> sy_symbols (m' n) = 0
      \<and> sy_escapes (m' n) = 0 \<and> sy_total (m' n) = 0 \<and> sy_parent (m' n) = 0"
    "n' = (if got = n then n + 1 else n)" "got < n'"
proof -
  consider (counted) "got \<in> set_tree t" "n' = n" "counted_at got d m m'"
    | (hung) v y where "got = n" "n' = n + 1" "y \<in> set_tree t" "hung_at y n v d m m'"
    | (linked) v where "got = n" "n' = n + 1" "t = Leaf"
        "bare m' = (bare m)(n := bare_symbol v d, i := (bare m i)\<lparr>sy_symbols := symbol_offset n i\<rparr>)"
    using assms(1) unfolding visits_def by blast
  then have "(j \<noteq> n \<longrightarrow> sy_escapes (m' j) = sy_escapes (m j) \<and> sy_total (m' j) = sy_total (m j) \<and> sy_parent (m' j) = sy_parent (m j))
    \<and> (j \<noteq> n \<longrightarrow> j \<noteq> i \<longrightarrow> sy_symbols (m' j) = sy_symbols (m j))
    \<and> (j \<noteq> n \<longrightarrow> j \<noteq> got \<longrightarrow> sy_count (m' j) = sy_count (m j))
    \<and> (j \<noteq> n \<longrightarrow> j \<notin> set_tree t \<longrightarrow> sy_left (m' j) = sy_left (m j) \<and> sy_right (m' j) = sy_right (m j))
    \<and> (got = n \<longrightarrow> sy_count (m' n) = d \<and> sy_left (m' n) = 0 \<and> sy_right (m' n) = 0 \<and> sy_symbols (m' n) = 0
        \<and> sy_escapes (m' n) = 0 \<and> sy_total (m' n) = 0 \<and> sy_parent (m' n) = 0)
    \<and> n' = (if got = n then n + 1 else n) \<and> got < n'"
  proof cases
    case counted
    then show ?thesis
      using assms(3) by (auto simp: counted_fields [OF counted(3)])
  next
    case hung
    note hf = hung_fields [OF hung(4)]
    show ?thesis
      using hung(1-3) hf(3) hf(1) [of j] hf(2) [of j] by auto
  next
    case linked
    have "i \<noteq> n" using assms(2) by simp
    note lf = linked_fields [OF linked(4) this]
    show ?thesis
      using linked(1,2) lf(4) lf(1) [of j] lf(2) [of j] by auto
  qed
  then show "j \<noteq> n \<Longrightarrow> sy_escapes (m' j) = sy_escapes (m j) \<and> sy_total (m' j) = sy_total (m j) \<and> sy_parent (m' j) = sy_parent (m j)"
    "j \<noteq> n \<Longrightarrow> j \<noteq> i \<Longrightarrow> sy_symbols (m' j) = sy_symbols (m j)"
    "j \<noteq> n \<Longrightarrow> j \<noteq> got \<Longrightarrow> sy_count (m' j) = sy_count (m j)"
    "j \<noteq> n \<Longrightarrow> j \<notin> set_tree t \<Longrightarrow> sy_left (m' j) = sy_left (m j) \<and> sy_right (m' j) = sy_right (m j)"
    "got = n \<Longrightarrow> sy_count (m' n) = d \<and> sy_left (m' n) = 0 \<and> sy_right (m' n) = 0 \<and> sy_symbols (m' n) = 0
      \<and> sy_escapes (m' n) = 0 \<and> sy_total (m' n) = 0 \<and> sy_parent (m' n) = 0"
    "n' = (if got = n then n + 1 else n)" "got < n'"
    by blast+
qed

lemma visited_shape:
  assumes "visits t i d n m got n' m'" "points_to i (sy_symbols (m i)) t" "shaped m t" "set_tree t \<subseteq> {0<..<n}" "i < n" "n < symbolCount"
  shows "\<exists>t'. points_to i (sy_symbols (m' i)) t' \<and> shaped m' t' \<and> set_tree t' = insert got (set_tree t)"
proof -
  consider (counted) "got \<in> set_tree t" "counted_at got d m m'"
    | (hung) v y where "got = n" "y \<in> set_tree t" "hung_at y n v d m m'"
    | (linked) v where "got = n" "t = Leaf"
        "bare m' = (bare m)(n := bare_symbol v d, i := (bare m i)\<lparr>sy_symbols := symbol_offset n i\<rparr>)"
    using assms(1) unfolding visits_def by blast
  then show ?thesis
  proof cases
    case counted
    have "shaped m' t"
      using assms(3) by (subst shaped_cong [of t m' m]) (simp_all add: counted_fields [OF counted(2)])
    then show ?thesis
      using assms(2) counted(1) by (intro exI [of _ t]) (auto simp: counted_fields [OF counted(2)])
  next
    case hung
    have "set_tree t \<subseteq> {..<n}" using assms(4) by auto
    then obtain t' where t': "shaped m' t'" "set_tree t' = insert n (set_tree t)" "same_root t t'"
      using shaped_hung [OF assms(3) hung(2,3) _ assms(6)] by blast
    then show ?thesis
      using assms(2,5) hung(1) hung_fields(1) [OF hung(3), of i] by (intro exI [of _ t']) (auto simp: same_root_def)
  next
    case linked
    have "i \<noteq> n" using assms(5) by simp
    then show ?thesis
      using linked_fields [OF linked(3)] linked(1,2) assms(5,6)
      by (intro exI [of _ "Node Leaf n Leaf"]) simp
  qed
qed

text \<open>The visits context owes its total what the symbol was counted.\<close>

definition counted_before :: "nat \<Rightarrow> nat \<Rightarrow> (nat \<Rightarrow> ENetSymbol) \<Rightarrow> nat" where
  "counted_before got n m = (if got = n then 0 else unat (sy_count (m got)))"

lemma visited_context:
  assumes "visits t i d n m got n' m'" "context_ok 0 lim dp n m t i" "i < n" "n < symbolCount" "unat d = symbol_delta i"
    and "dp' = dp(n := Suc (dp i))"
  shows "\<exists>t'. context_ok (symbol_delta i) lim dp' n' m' t' i \<and> set_tree t' = insert got (set_tree t)
    \<and> unat (sy_count (m' got)) = counted_before got n m + symbol_delta i
    \<and> (\<forall>x\<in>set_tree t. x \<noteq> got \<longrightarrow> unat (sy_count (m' x)) + symbol_delta i \<le> 255)"
proof -
  note ok = assms(2) [unfolded context_ok_def]
  have sub: "set_tree t \<subseteq> {0<..<n}" using ok by blast
  note vf = visited_fields [OF assms(1,3) sub]
  obtain t' where t': "points_to i (sy_symbols (m' i)) t'" "shaped m' t'" "set_tree t' = insert got (set_tree t)"
    using visited_shape [OF assms(1) _ _ sub assms(3,4)] ok by blast
  have got: "got = n \<and> got \<notin> set_tree t \<or> got < n \<and> got \<in> set_tree t"
    using assms(1) sub unfolding visits_def by fastforce
  have cnt: "unat (sy_count (m' got)) = counted_before got n m + symbol_delta i"
  proof (cases "got = n")
    case True
    then show ?thesis using vf(5) assms(5) by (simp add: counted_before_def)
  next
    case False
    then have "counted_at got d m m'" and small: "unat (sy_count (m got)) + symbol_delta i \<le> 255"
      using assms(1) got ok unfolding visits_def by auto
    then show ?thesis
      using False assms(5) small by (simp add: counted_fields counted_before_def unat_word_ariths(1))
  qed
  have same: "sy_count (m' x) = sy_count (m x)" if "x \<in> set_tree t - {got}" for x
    using that vf(3) [of x] sub by auto
  have tl: "tally m' t' = tally m t + symbol_delta i"
  proof -
    have "tally m' t' = unat (sy_count (m' got)) + (\<Sum>x\<in>set_tree t - {got}. unat (sy_count (m' x)))"
      unfolding tally_def t'(3) by (simp add: sum.insert_remove)
    also have "(\<Sum>x\<in>set_tree t - {got}. unat (sy_count (m' x))) = (\<Sum>x\<in>set_tree t - {got}. unat (sy_count (m x)))"
      by (rule sum.cong) (simp_all add: same)
    also have "unat (sy_count (m' got)) + \<dots> = symbol_delta i + tally m t"
      using got by (auto simp: cnt counted_before_def tally_def sum.remove [of _ got])
    finally show ?thesis by simp
  qed
  have i: "i \<noteq> n" using assms(3) by simp
  have "context_ok (symbol_delta i) lim dp' n' m' t' i"
    unfolding context_ok_def
  proof (intro conjI)
    show "set_tree t' \<subseteq> {0<..<n'}"
      using t'(3) sub vf(6) got assms(3) by (auto split: if_splits)
    have "0 < unat (sy_count (m' x))" if "x \<in> set_tree t'" for x
      using that cnt same [of x] ok t'(3) by (cases "x = got") (auto simp: symbol_delta_def)
    moreover have "dp' x = Suc (dp' i)" if "x \<in> set_tree t'" for x
      using that got ok t'(3) i sub by (auto simp: assms(6))
    ultimately show "\<forall>x\<in>set_tree t'. dp' x = Suc (dp' i) \<and> 0 < unat (sy_count (m' x))
        \<and> (symbol_delta i = 0 \<longrightarrow> unat (sy_count (m' x)) + symbol_delta i \<le> 255)"
      by (simp add: symbol_delta_def)
    show "unat (sy_total (m' i)) + symbol_delta i = unat (sy_escapes (m' i)) + tally m' t' + minimum_total i"
      "unat (sy_total (m' i)) \<le> lim"
      using vf(1) [OF i] ok tl by simp_all
  qed (use t' in simp_all)
  moreover have "\<forall>x\<in>set_tree t. x \<noteq> got \<longrightarrow> unat (sy_count (m' x)) + symbol_delta i \<le> 255"
    using same ok by simp
  ultimately show ?thesis
    using t'(3) cnt by blast
qed

lemma settled_context:
  assumes "settled T dp n m" "i < n"
  shows "context_ok 0 0xFF00 dp n m (T i) i" "set_tree (T i) \<subseteq> {0<..<n}"
proof -
  show "context_ok 0 0xFF00 dp n m (T i) i"
    using assms by (simp add: forest_def)
  then show "set_tree (T i) \<subseteq> {0<..<n}"
    by (simp add: context_ok_def)
qed

text \<open>A new symbol keeps the trees apart.\<close>

lemma planted_apart:
  fixes n :: nat
  assumes "\<And>k. k < n \<Longrightarrow> set_tree (T k) \<subseteq> {0<..<n}" "\<And>k j. k < n \<Longrightarrow> j < n \<Longrightarrow> k \<noteq> j \<Longrightarrow> set_tree (T k) \<inter> set_tree (T j) = {}"
    and "i < n" "set_tree t' = insert got (set_tree (T i))" "got = n \<or> got \<in> set_tree (T i)" "n' = (if got = n then n + 1 else n)"
    and "k < n'" "j < n'" "k \<noteq> j"
  shows "set_tree ((T(n := Leaf, i := t')) k) \<inter> set_tree ((T(n := Leaf, i := t')) j) = {}"
proof -
  have "set_tree ((T(n := Leaf, i := t')) k) \<inter> set_tree ((T(n := Leaf, i := t')) j) = {}"
    if kj: "k \<noteq> i" "k < n'" "j < n'" "k \<noteq> j" for k j
  proof (cases "k = n")
    case True
    then show ?thesis using kj by simp
  next
    case False
    then have k: "k < n" using kj assms(6) by (simp split: if_splits)
    show ?thesis
    proof (cases "j = i")
      case True
      then show ?thesis
        using False kj(1) assms(1) [OF k] assms(2) [OF k assms(3) kj(1)] assms(4,5) by auto
    next
      case ji: False
      then have "j = n \<or> j < n" using kj assms(6) by (auto split: if_splits)
      then show ?thesis
        using ji False kj(1,4) assms(2) [OF k _ kj(4)] by auto
    qed
  qed
  then show ?thesis
    using assms(7-9) by (cases "k = i") (metis inf_commute, blast)
qed

lemma visited_forest:
  assumes "visits (T i) i d n m got n' m'" "settled T dp n m" "i < n" "n < symbolCount" "unat d = symbol_delta i"
  shows "\<exists>T'. forest ((\<lambda>_. 0)(i := symbol_delta i)) (\<lambda>_. 0xFF00) T' (dp(n := Suc (dp i))) n' m'
    \<and> got \<in> set_tree (T' i) \<and> unat (sy_count (m' got)) = counted_before got n m + symbol_delta i
    \<and> (\<forall>x\<in>set_tree (T' i). x \<noteq> got \<longrightarrow> unat (sy_count (m' x)) + symbol_delta i \<le> 255)"
proof -
  note fr = assms(2) [unfolded forest_def]
  have ok: "context_ok 0 0xFF00 dp n m (T i) i" and sub: "set_tree (T i) \<subseteq> {0<..<n}"
    using fr assms(3) by (auto simp: context_ok_def)
  note vf = visited_fields [OF assms(1,3) sub]
  define dp' where "dp' = dp(n := Suc (dp i))"
  obtain t' where t': "context_ok (symbol_delta i) 0xFF00 dp' n' m' t' i" "set_tree t' = insert got (set_tree (T i))"
    "unat (sy_count (m' got)) = counted_before got n m + symbol_delta i"
    "\<forall>x\<in>set_tree (T i). x \<noteq> got \<longrightarrow> unat (sy_count (m' x)) + symbol_delta i \<le> 255"
    using visited_context [OF assms(1) ok assms(3-5) dp'_def] by blast
  define T' where "T' = T(n := Leaf, i := t')"
  have got: "got = n \<or> got \<in> set_tree (T i)"
    using assms(1) unfolding visits_def by blast
  have others: "context_ok 0 0xFF00 dp' n' m' (T' j) j" if j: "j < n'" "j \<noteq> i" for j
  proof (cases "j = n")
    case True
    then have "got = n"
      using vf(6) j(1) by (auto split: if_splits)
    then show ?thesis
      using True j vf(5) assms(3) by (simp add: T'_def context_ok_def minimum_total_def)
  next
    case False
    then have jn: "j < n"
      using j(1) vf(6) by (auto split: if_splits)
    have apart: "set_tree (T i) \<inter> set_tree (T j) = {}" and okj: "context_ok 0 0xFF00 dp n m (T j) j"
      using fr assms(3) jn j by blast+
    have inside: "set_tree (T j) \<subseteq> {0<..<n}"
      using okj by (simp add: context_ok_def)
    have "context_ok 0 0xFF00 dp' n' m' (T j) j"
    proof (rule context_ok_frame [OF okj])
      show "sy_left (m' x) = sy_left (m x) \<and> sy_right (m' x) = sy_right (m x) \<and> sy_count (m' x) = sy_count (m x)"
        if "x \<in> set_tree (T j)" for x
      proof -
        have "x \<noteq> n" "x \<notin> set_tree (T i)" using that inside apart by auto
        then show ?thesis using vf(3,4) [of x] got by auto
      qed
    qed (use vf(1) [of j] vf(2) [of j] vf(6) False j inside in \<open>auto simp: dp'_def\<close>)
    then show ?thesis
      using False j by (simp add: T'_def)
  qed
  have apart: "set_tree (T' k) \<inter> set_tree (T' j) = {}" if "k < n'" "j < n'" "k \<noteq> j" for k j
    unfolding T'_def using that vf(6) settled_context(2) [OF assms(2)] fr assms(3) t'(2) got
    by (intro planted_apart [where got = got and n' = n']) auto
  have "forest ((\<lambda>_. 0)(i := symbol_delta i)) (\<lambda>_. 0xFF00) T' dp' n' m'"
    unfolding forest_def
  proof (intro conjI allI impI)
    show "0 < n'" "n' \<le> symbolCount" "dp' 0 = 0"
      using fr assms(3,4) vf(6) by (auto simp: dp'_def)
    show "0 < dp' j" if "j < n'" "0 < j" for j
      using that fr vf(6) by (cases "j = n") (auto simp: dp'_def split: if_splits)
    show "context_ok (((\<lambda>_. 0)(i := symbol_delta i)) j) 0xFF00 dp' n' m' (T' j) j" if "j < n'" for j
      using that others [of j] t'(1) by (cases "j = i") (simp_all add: T'_def)
  qed (use apart in blast)
  then show ?thesis
    using t'(2-4) by (intro exI [of _ T']) (simp add: T'_def dp'_def)
qed

section \<open>Paying what is owed\<close>

definition context_minimum :: "nat \<Rightarrow> u16" where
  "context_minimum i = (if i = 0 then ENET_CONTEXT_SYMBOL_MINIMUM else 0)"

lemma halved_unat: "unat (w - drop_bit 1 w :: 'a :: len word) = unat w - unat w div 2"
proof -
  have w: "unat w < 2 ^ LENGTH('a)" by (rule unsigned_less)
  have less: "unat w - unat w div 2 < 2 ^ LENGTH('a)"
    by (rule le_less_trans [OF diff_le_self w])
  show ?thesis
    using trans [OF arg_cong [OF halved_word [OF w], of unat] unat_of_nat_small [OF less]] by simp
qed

lemma halved_bounds: "0 < k \<Longrightarrow> k < 256 \<Longrightarrow> 0 < k - k div 2 \<and> k - k div 2 \<le> (128 :: nat)"
  by linarith

lemma tally_halved:
  assumes "halved_tree t m m'" "set_tree t \<subseteq> {0<..<n}" "n \<le> symbolCount"
  shows "2 * tally m' t \<le> tally m t + 4096"
proof -
  have "card (set_tree t) \<le> card {0<..<n}"
    using assms(2) by (intro card_mono) auto
  then have card: "card (set_tree t) \<le> 4096"
    using assms(3) by simp
  have "2 * unat (sy_count (m' x)) \<le> unat (sy_count (m x)) + 1" if "x \<in> set_tree t" for x
  proof -
    have "bare m' x = halve_count (bare m x)"
      using that assms(1) by (simp add: halved_tree_def)
    then have "unat (sy_count (m' x)) = unat (sy_count (m x)) - unat (sy_count (m x)) div 2"
      by (simp only: halved_fields halved_unat)
    then show ?thesis by linarith
  qed
  then have "(\<Sum>x\<in>set_tree t. 2 * unat (sy_count (m' x))) \<le> (\<Sum>x\<in>set_tree t. unat (sy_count (m x)) + 1)"
    by (rule sum_mono)
  also have "\<dots> = tally m t + card (set_tree t)"
    by (simp only: sum.distrib tally_def) simp
  finally show ?thesis
    using card by (simp add: tally_def sum_distrib_left)
qed

text \<open>Halving brings a context back within the bounds.\<close>

lemma rescale_context:
  assumes "points_to i (sy_symbols (rc_symbols c i)) t" "shaped (rc_symbols c) t" "set_tree t \<subseteq> {0<..<n}" "i < n" "n \<le> symbolCount"
    "\<forall>x\<in>set_tree t. dp x = Suc (dp i) \<and> 0 < unat (sy_count (rc_symbols c x))"
    "unat (sy_escapes (rc_symbols c i)) + tally (rc_symbols c) t + minimum_total i < 2 ^ 16"
  shows "\<exists>m'. ENET_CONTEXT_RESCALE i (context_minimum i) c = c\<lparr>rc_symbols := m'\<rparr> \<and> context_ok 0 0xFF00 dp n m' t i
    \<and> (\<forall>j. j \<notin> set_tree t \<longrightarrow> sy_left (m' j) = sy_left (rc_symbols c j) \<and> sy_right (m' j) = sy_right (rc_symbols c j)
         \<and> sy_count (m' j) = sy_count (rc_symbols c j))
    \<and> (\<forall>j. j \<noteq> i \<longrightarrow> sy_symbols (m' j) = sy_symbols (rc_symbols c j) \<and> sy_escapes (m' j) = sy_escapes (rc_symbols c j)
         \<and> sy_total (m' j) = sy_total (rc_symbols c j))
    \<and> (\<forall>j. sy_parent (m' j) = sy_parent (rc_symbols c j))"
proof -
  let ?m = "rc_symbols c"
  have apart: "i \<notin> set_tree t"
    using assms(6) by force
  have inside: "set_tree t \<subseteq> {..<symbolCount}"
    using assms(3,5) by auto
  have "\<exists>m1. (if sy_symbols (?m i) \<noteq> 0 then enet_symbol_rescale (i + unat (sy_symbols (?m i))) c else (0, c))
      = (of_nat (tally m1 t), c\<lparr>rc_symbols := m1\<rparr>) \<and> halved_tree t ?m m1"
  proof (cases t)
    case Leaf
    then show ?thesis
      using assms(1) by (intro exI [of _ ?m]) (simp add: halved_tree_def)
  next
    case (Node l x r)
    then have "sy_symbols (?m i) \<noteq> 0" "i + unat (sy_symbols (?m i)) = x"
      using assms(1) by simp_all
    then show ?thesis
      using rescale_shaped [OF Node assms(2) inside] by simp
  qed
  then obtain m1 where run: "(if sy_symbols (?m i) \<noteq> 0 then enet_symbol_rescale (i + unat (sy_symbols (?m i))) c else (0, c))
      = (of_nat (tally m1 t), c\<lparr>rc_symbols := m1\<rparr>)" and half: "halved_tree t ?m m1"
    by blast
  have i: "m1 i = ?m i"
    using half apart by (simp add: halved_tree_def)
  define e where "e = sy_escapes (?m i) - drop_bit 1 (sy_escapes (?m i))"
  define tot where "tot = of_nat (tally m1 t) + (e + 256 * context_minimum i)"
  define m' where "m' = m1(i := (?m i)\<lparr>sy_escapes := e, sy_total := tot\<rparr>)"
  have "ENET_CONTEXT_RESCALE i (context_minimum i) c = c\<lparr>rc_symbols := m'\<rparr>"
    unfolding ENET_CONTEXT_RESCALE_def Let_def run prod.case
    using assms(4,5) by (simp add: upd_symbol_inside i m'_def e_def tot_def)
  moreover have fields: "sy_count (m' j) = (if j \<in> set_tree t then sy_count (?m j) - drop_bit 1 (sy_count (?m j)) else sy_count (?m j))"
    "sy_left (m' j) = sy_left (?m j)" "sy_right (m' j) = sy_right (?m j)" "sy_symbols (m' j) = sy_symbols (?m j)"
    "sy_parent (m' j) = sy_parent (?m j)" "j \<noteq> i \<Longrightarrow> sy_escapes (m' j) = sy_escapes (?m j) \<and> sy_total (m' j) = sy_total (?m j)" for j
  proof -
    have "bare m1 j = halve_count (bare ?m j) \<and> j \<in> set_tree t \<or> m1 j = ?m j \<and> j \<notin> set_tree t"
      using half by (auto simp: halved_tree_def)
    then show "sy_count (m' j) = (if j \<in> set_tree t then sy_count (?m j) - drop_bit 1 (sy_count (?m j)) else sy_count (?m j))"
      "sy_left (m' j) = sy_left (?m j)" "sy_right (m' j) = sy_right (?m j)" "sy_symbols (m' j) = sy_symbols (?m j)"
      "sy_parent (m' j) = sy_parent (?m j)" "j \<noteq> i \<Longrightarrow> sy_escapes (m' j) = sy_escapes (?m j) \<and> sy_total (m' j) = sy_total (?m j)"
      using apart by (auto simp: m'_def halved_fields)
  qed
  moreover have "context_ok 0 0xFF00 dp n m' t i"
    unfolding context_ok_def
  proof (intro conjI)
    show "points_to i (sy_symbols (m' i)) t" "shaped m' t"
      using assms(1,2) shaped_cong [of t m' ?m] by (simp_all add: fields(2-4))
    have "0 < unat (sy_count (m' x)) \<and> unat (sy_count (m' x)) + symbol_delta i \<le> 255" if "x \<in> set_tree t" for x
    proof -
      have "unat (sy_count (m' x)) = unat (sy_count (?m x)) - unat (sy_count (?m x)) div 2" "0 < unat (sy_count (?m x))"
        using that assms(6) by (simp_all only: fields(1) if_True halved_unat)
      then show ?thesis
        using halved_bounds [of "unat (sy_count (?m x))"] unat_u8_less [of "sy_count (?m x)"] by (auto simp: symbol_delta_def)
    qed
    then show "\<forall>x\<in>set_tree t. dp x = Suc (dp i) \<and> 0 < unat (sy_count (m' x))
        \<and> (0 = (0::nat) \<longrightarrow> unat (sy_count (m' x)) + symbol_delta i \<le> 255)"
      using assms(6) by simp
    have "halved_tree t ?m m1" by (rule half)
    have tl: "tally m' t = tally m1 t"
      using apart by (intro tally_cong) (auto simp: m'_def)
    have e: "2 * unat e \<le> unat (sy_escapes (?m i)) + 1"
      unfolding e_def halved_unat by linarith
    have small: "unat e + tally m1 t + minimum_total i \<le> 0xFF00"
      using tally_halved [OF half assms(3,5)] e assms(7) by (simp add: minimum_total_def split: if_splits)
    have "256 * context_minimum i = of_nat (minimum_total i)"
      by (simp add: context_minimum_def minimum_total_def)
    then have "tot = of_nat (unat e + tally m1 t + minimum_total i)"
      by (simp add: tot_def)
    then have "unat tot = unat e + tally m1 t + minimum_total i"
      using small by (simp add: unat_of_nat_small del: of_nat_add)
    moreover have "sy_escapes (m' i) = e" "sy_total (m' i) = tot"
      by (simp_all add: m'_def)
    ultimately show "unat (sy_total (m' i)) + 0 = unat (sy_escapes (m' i)) + tally m' t + minimum_total i"
      "unat (sy_total (m' i)) \<le> 0xFF00"
      using small by (simp_all add: tl)
  qed (use assms(3) in blast)
  ultimately show ?thesis
    by (intro exI [of _ m']) simp
qed

definition context_limit :: "nat \<Rightarrow> u16" where
  "context_limit i = (if i = 0 then 0xFF - 2 * 3 + 1 else 0xFF - 2 * 2)"

lemma pay:
  assumes "forest ((\<lambda>_. 0)(i := symbol_delta i)) ((\<lambda>_. 0xFF00)(i := 0xFF05)) T dp n (rc_symbols c)" "i < n"
    "cnt > context_limit i \<or> (\<forall>x\<in>set_tree (T i). unat (sy_count (rc_symbols c x)) + symbol_delta i \<le> 255)"
    "unat d = symbol_delta i"
  shows "\<exists>m'. count_symbol i d (context_minimum i) (context_limit i) cnt c = c\<lparr>rc_symbols := m'\<rparr> \<and> settled T dp n m'
    \<and> (\<forall>j. sy_parent (m' j) = sy_parent (rc_symbols c j))"
proof -
  let ?m = "rc_symbols c"
  note fr = assms(1) [unfolded forest_def]
  have n: "n \<le> symbolCount" using fr by blast
  have "context_ok (symbol_delta i) 0xFF05 dp n ?m (T i) i"
    using fr assms(2) by fastforce
  note ok = this [unfolded context_ok_def]
  have apart: "i \<notin> set_tree (T i)"
    using ok by force
  define m1 where "m1 = ?m(i := (?m i)\<lparr>sy_total := sy_total (?m i) + ucast d\<rparr>)"
  have m1: "sy_count (m1 j) = sy_count (?m j)" "sy_left (m1 j) = sy_left (?m j)" "sy_right (m1 j) = sy_right (?m j)"
    "sy_symbols (m1 j) = sy_symbols (?m j)" "sy_escapes (m1 j) = sy_escapes (?m j)" "sy_parent (m1 j) = sy_parent (?m j)"
    "j \<noteq> i \<Longrightarrow> m1 j = ?m j" for j
    by (simp_all add: m1_def)
  have c1: "upd_symbol i (\<lambda>s. s\<lparr>sy_total := sy_total s + ucast d\<rparr>) c = c\<lparr>rc_symbols := m1\<rparr>"
    using assms(2) n by (simp add: upd_symbol_inside m1_def)
  have small: "unat (sy_total (?m i)) + symbol_delta i < 65536"
    using ok by (simp add: symbol_delta_def split: if_splits)
  then have "unat (sy_total (m1 i)) = unat (sy_total (?m i)) + symbol_delta i"
    by (simp add: m1_def unat_word_ariths(1) assms(4))
  then have total: "unat (sy_total (m1 i)) = unat (sy_escapes (?m i)) + tally ?m (T i) + minimum_total i"
    using ok by simp
  have shape: "points_to i (sy_symbols (m1 i)) (T i)" "shaped m1 (T i)" "tally m1 (T i) = tally ?m (T i)"
    using ok shaped_cong [of "T i" m1 ?m] tally_cong [of "T i" m1 ?m] by (simp_all add: m1(1-4))
  have "\<exists>m'. count_symbol i d (context_minimum i) (context_limit i) cnt c = c\<lparr>rc_symbols := m'\<rparr>
      \<and> context_ok 0 0xFF00 dp n m' (T i) i \<and> (\<forall>j. j \<notin> set_tree (T i) \<longrightarrow> sy_left (m' j) = sy_left (m1 j) \<and> sy_right (m' j) = sy_right (m1 j) \<and> sy_count (m' j) = sy_count (m1 j))
      \<and> (\<forall>j. j \<noteq> i \<longrightarrow> sy_symbols (m' j) = sy_symbols (m1 j) \<and> sy_escapes (m' j) = sy_escapes (m1 j) \<and> sy_total (m' j) = sy_total (m1 j))
      \<and> (\<forall>j. sy_parent (m' j) = sy_parent (m1 j))"
  proof (cases "cnt > context_limit i \<or> sy_total (m1 i) > 0xFF00")
    case True
    have pre: "set_tree (T i) \<subseteq> {0<..<n}" "\<forall>x\<in>set_tree (T i). dp x = Suc (dp i) \<and> 0 < unat (sy_count (m1 x))"
      "unat (sy_escapes (m1 i)) + tally m1 (T i) + minimum_total i < 2 ^ 16"
      using ok small shape(3) by (simp_all add: m1(1,5))
    then obtain m' where m': "ENET_CONTEXT_RESCALE i (context_minimum i) (c\<lparr>rc_symbols := m1\<rparr>) = c\<lparr>rc_symbols := m'\<rparr>"
      "context_ok 0 0xFF00 dp n m' (T i) i" "\<forall>j. j \<notin> set_tree (T i) \<longrightarrow> sy_left (m' j) = sy_left (m1 j) \<and> sy_right (m' j) = sy_right (m1 j) \<and> sy_count (m' j) = sy_count (m1 j)"
      "\<forall>j. j \<noteq> i \<longrightarrow> sy_symbols (m' j) = sy_symbols (m1 j) \<and> sy_escapes (m' j) = sy_escapes (m1 j) \<and> sy_total (m' j) = sy_total (m1 j)"
      "\<forall>j. sy_parent (m' j) = sy_parent (m1 j)"
      using rescale_context [of i "c\<lparr>rc_symbols := m1\<rparr>" "T i" n dp] shape assms(2) n by auto
    have "count_symbol i d (context_minimum i) (context_limit i) cnt c = c\<lparr>rc_symbols := m'\<rparr>"
      unfolding count_symbol_def Let_def c1 using True m'(1) by simp
    then show ?thesis
      using m'(2-5) by blast
  next
    case False
    then have "\<forall>x\<in>set_tree (T i). unat (sy_count (m1 x)) + symbol_delta i \<le> 255" "unat (sy_total (m1 i)) \<le> 0xFF00"
      using assms(3) by (auto simp: m1(1) word_le_nat_alt word_less_nat_alt)
    then have "context_ok 0 0xFF00 dp n m1 (T i) i"
      using ok total shape by (simp add: context_ok_def m1(1,5))
    moreover have "count_symbol i d (context_minimum i) (context_limit i) cnt c = c\<lparr>rc_symbols := m1\<rparr>"
      unfolding count_symbol_def Let_def c1 using False by simp
    ultimately show ?thesis
      by blast
  qed
  then obtain m' where run: "count_symbol i d (context_minimum i) (context_limit i) cnt c = c\<lparr>rc_symbols := m'\<rparr>"
    and oki: "context_ok 0 0xFF00 dp n m' (T i) i"
    and frame: "\<And>j. j \<notin> set_tree (T i) \<Longrightarrow> sy_left (m' j) = sy_left (m1 j) \<and> sy_right (m' j) = sy_right (m1 j) \<and> sy_count (m' j) = sy_count (m1 j)"
      "\<And>j. j \<noteq> i \<Longrightarrow> sy_symbols (m' j) = sy_symbols (m1 j) \<and> sy_escapes (m' j) = sy_escapes (m1 j) \<and> sy_total (m' j) = sy_total (m1 j)"
      "\<And>j. sy_parent (m' j) = sy_parent (m1 j)"
    by blast
  have "context_ok 0 0xFF00 dp n m' (T j) j" if "j < n" "j \<noteq> i" for j
  proof (rule context_ok_frame [where m = ?m])
    have "set_tree (T i) \<inter> set_tree (T j) = {}"
      using fr assms(2) that by blast
    show "context_ok 0 0xFF00 dp n ?m (T j) j"
      using fr that by fastforce
    show "sy_left (m' x) = sy_left (?m x) \<and> sy_right (m' x) = sy_right (?m x) \<and> sy_count (m' x) = sy_count (?m x)"
      if "x \<in> set_tree (T j)" for x
      using that frame(1) [of x] \<open>set_tree (T i) \<inter> set_tree (T j) = {}\<close> by (auto simp: m1(1-3))
  qed (use frame(2) [of j] that m1 in simp_all)
  then have "settled T dp n m'"
    using fr oki by (auto simp: forest_def)
  then show ?thesis
    using run frame(3) m1(6) by (intro exI [of _ m']) simp
qed

lemma forest_frame:
  assumes "forest owed lim T dp n m"
    "\<And>j. sy_left (m' j) = sy_left (m j) \<and> sy_right (m' j) = sy_right (m j) \<and> sy_count (m' j) = sy_count (m j)
       \<and> sy_symbols (m' j) = sy_symbols (m j)"
    "\<And>j. j \<noteq> i \<Longrightarrow> sy_escapes (m' j) = sy_escapes (m j) \<and> sy_total (m' j) = sy_total (m j) \<and> owed' j = owed j \<and> lim' j = lim j"
    "i < n \<Longrightarrow> unat (sy_total (m' i)) + owed' i + unat (sy_escapes (m i)) = unat (sy_total (m i)) + owed i + unat (sy_escapes (m' i))"
    "i < n \<Longrightarrow> unat (sy_total (m' i)) \<le> lim' i" "owed' i = 0 \<Longrightarrow> owed i = 0"
  shows "forest owed' lim' T dp n m'"
proof -
  have "context_ok (owed' j) (lim' j) dp n m' (T j) j" if "j < n" for j
  proof -
    have ok: "context_ok (owed j) (lim j) dp n m (T j) j"
      using assms(1) that by (simp add: forest_def)
    have shape: "shaped m' (T j) = shaped m (T j)" "tally m' (T j) = tally m (T j)"
      using assms(2) by (auto intro!: shaped_cong tally_cong)
    show ?thesis
    proof (cases "j = i")
      case True
      then show ?thesis
        using ok assms(4-6) that shape [unfolded True] by (auto simp: context_ok_def assms(2))
    next
      case False
      then show ?thesis
        using ok assms(3) [OF False] by (simp add: context_ok_def shape assms(2))
    qed
  qed
  then show ?thesis
    using assms(1) by (simp add: forest_def)
qed

lemma forest_parent: "forest owed lim T dp n m \<Longrightarrow> forest owed lim T dp n (m(k := (m k)\<lparr>sy_parent := p\<rparr>))"
  by (erule forest_frame [where i = n]) auto

lemma forest_relax: "forest owed (\<lambda>_. 0xFF00) T dp n m \<Longrightarrow> forest owed ((\<lambda>_. 0xFF00)(i := 0xFF05)) T dp n m"
  by (frule forest_frame [where i = i and owed' = owed and m' = m]) (auto simp: forest_def context_ok_def)

lemma escape_owed:
  assumes "forest owed (\<lambda>_. 0xFF00) T dp n (rc_symbols c)" "i < n" "owed i = symbol_delta i"
  shows "\<exists>m'. count_escape i c = c\<lparr>rc_symbols := m'\<rparr> \<and> forest owed ((\<lambda>_. 0xFF00)(i := 0xFF05)) T dp n m'
    \<and> (\<forall>j. sy_parent (m' j) = sy_parent (rc_symbols c j))"
proof -
  let ?m = "rc_symbols c"
  let ?m' = "?m(i := (?m i)\<lparr>sy_escapes := sy_escapes (?m i) + ENET_SUBCONTEXT_ESCAPE_DELTA,
    sy_total := sy_total (?m i) + ENET_SUBCONTEXT_ESCAPE_DELTA\<rparr>)"
  have n: "n \<le> symbolCount" and ok: "context_ok (owed i) 0xFF00 dp n ?m (T i) i"
    using assms(1,2) by (simp_all add: forest_def)
  have total: "unat (sy_total (?m i)) + owed i = unat (sy_escapes (?m i)) + tally ?m (T i) + minimum_total i"
    "unat (sy_total (?m i)) \<le> 0xFF00"
    using ok by (simp_all add: context_ok_def)
  have run: "count_escape i c = c\<lparr>rc_symbols := ?m'\<rparr>"
    using assms(2) n by (simp add: count_escape_def upd_symbol_inside)
  have "unat (sy_total (?m i) + 5) = unat (sy_total (?m i)) + 5"
    using total(2) by (simp add: unat_word_ariths(1))
  moreover have "unat (sy_escapes (?m i) + 5) = unat (sy_escapes (?m i)) + 5"
    using total assms(3) by (simp add: unat_word_ariths(1) symbol_delta_def split: if_splits)
  ultimately have "forest owed ((\<lambda>_. 0xFF00)(i := 0xFF05)) T dp n ?m'"
    using assms(1) total(2) by (intro forest_frame [OF assms(1), where i = i]) auto
  then show ?thesis
    unfolding run by (intro exI [of _ ?m']) auto
qed

lemma affordable:
  assumes "unat cnt = unat (context_minimum i) + old"
  shows "cnt > context_limit i \<or> old + 2 * symbol_delta i \<le> 255"
  using assms by (auto simp: context_limit_def context_minimum_def symbol_delta_def word_less_nat_alt)

section \<open>The visits of the code\<close>

definition visit_of ::
  "nat tree \<Rightarrow> nat \<Rightarrow> u8 \<Rightarrow> 'a ENetRangeCoder_scheme \<Rightarrow> nat \<Rightarrow> u16 \<Rightarrow> 'a ENetRangeCoder_scheme \<Rightarrow> bool" where
  "visit_of t i d c got cnt c' \<longleftrightarrow>
     visits t i d (rc_nextSymbol c) (rc_symbols c) got (rc_nextSymbol c') (rc_symbols c') \<and>
     unat cnt = unat (context_minimum i) + counted_before got (rc_nextSymbol c) (rc_symbols c) \<and>
     c' = c\<lparr>rc_symbols := rc_symbols c', rc_nextSymbol := rc_nextSymbol c'\<rparr>"

lemma walked_visits:
  assumes "walked t v d (context_minimum i) c (got, below, cnt, c')" "set_tree t \<subseteq> {0<..<rc_nextSymbol c}"
  shows "visit_of t i d c got cnt c'"
proof -
  note w = assms(1) [unfolded walked_def prod.case]
  have "visits t i d (rc_nextSymbol c) (rc_symbols c) got (rc_nextSymbol c') (rc_symbols c')"
    using w unfolding visits_def by auto
  moreover have "unat (context_minimum i + ucast (sy_count (rc_symbols c got))) = unat (context_minimum i) + unat (sy_count (rc_symbols c got))"
    using unat_u8_less [of "sy_count (rc_symbols c got)"] by (simp add: context_minimum_def unat_word_ariths(1))
  then have "unat cnt = unat (context_minimum i) + counted_before got (rc_nextSymbol c) (rc_symbols c)"
    using w assms(2) by (auto simp: counted_before_def)
  ultimately show ?thesis
    using w unfolding visit_of_def by blast
qed

lemma linked_visits:
  assumes "t = Leaf" "i < n" "m' = m(n := new_symbol v d, i := (m i)\<lparr>sy_symbols := symbol_offset n i\<rparr>)"
  shows "visits t i d n m n (Suc n) m'"
  using assms by (auto simp: visits_def bare_def bare_symbol_def intro!: exI [of _ v])

lemma encode_visits:
  assumes "context_ok 0 lim dp (rc_nextSymbol c) (rc_symbols c) t i" "i < rc_nextSymbol c" "rc_nextSymbol c < symbolCount"
    "ENET_CONTEXT_ENCODE i v d (context_minimum i) c = (got, below, cnt, c')"
  shows "visit_of t i d c got cnt c'"
proof -
  let ?n = "rc_nextSymbol c" and ?m = "rc_symbols c"
  have ok: "points_to i (sy_symbols (?m i)) t" "shaped ?m t" "set_tree t \<subseteq> {0<..<?n}"
    using assms(1) by (simp_all add: context_ok_def)
  show ?thesis
  proof (cases t)
    case Leaf
    let ?m' = "?m(?n := new_symbol v d, i := (?m i)\<lparr>sy_symbols := symbol_offset ?n i\<rparr>)"
    have "got = ?n \<and> cnt = context_minimum i \<and> c' = c\<lparr>rc_symbols := ?m', rc_nextSymbol := Suc ?n\<rparr>"
      using assms(2-4) ok(1) Leaf by (auto simp: ENET_CONTEXT_ENCODE_def ENET_SYMBOL_CREATE_def Let_def upd_symbol_inside)
    then show ?thesis
      using linked_visits [OF Leaf assms(2)] by (simp add: visit_of_def counted_before_def)
  next
    case (Node l x r)
    have run: "(got, below, cnt, c') = context_walk v d (ucast v * context_minimum i) (context_minimum i) x c"
      using assms(4) ok(1) Node by (auto simp: ENET_CONTEXT_ENCODE_def Let_def)
    have "walked t v d (context_minimum i) c (got, below, cnt, c')"
      unfolding run using ok by (intro context_walk_ends [OF Node _ _ assms(3)]) auto
    then show ?thesis
      by (rule walked_visits) (rule ok(3))
  qed
qed

lemma bare_visits:
  assumes "visits t i d n m1 got n' m'" "bare m1 = bare m"
  shows "visits t i d n m got n' m'"
  using assms(1) bare_eq_fields [OF assms(2)] unfolding visits_def counted_at_def hung_at_def assms(2) by simp

lemma hung_visits:
  assumes "y \<in> set_tree t" "set_tree t \<subseteq> {0<..<n}" "sy_left (m y) = 0 \<and> m' = m(n := new_symbol v d, y := (m y)\<lparr>sy_left := symbol_offset n y\<rparr>)
    \<or> sy_right (m y) = 0 \<and> m' = m(n := new_symbol v d, y := (m y)\<lparr>sy_right := symbol_offset n y\<rparr>)"
  shows "visits t i d n m n (Suc n) m'"
proof -
  have "y < n" using assms(1,2) by auto
  then have "hung_at y n v d m m'"
    using assms(3) by (auto simp: hung_at_def bare_hung)
  then show ?thesis
    using assms(1) by (auto simp: visits_def)
qed

lemma hit_visits:
  assumes "got \<in> set_tree t" "set_tree t \<subseteq> {0<..<n}" "counted_at got d m m'" "cnt = context_minimum i + ucast (sy_count (m got))"
  shows "visits t i d n m got n m'" "unat cnt = unat (context_minimum i) + counted_before got n m"
  using assms unat_u8_less [of "sy_count (m got)"]
  by (auto simp: visits_def counted_before_def context_minimum_def unat_word_ariths(1))

lemma create_visits:
  assumes "searched t d minimum c (e, c1)" "set_tree t \<subseteq> {0<..<rc_nextSymbol c}" "i < rc_nextSymbol c"
    "rc_nextSymbol c < symbolCount" "minimum = context_minimum i"
    "create_missing code d minimum (e, c1) = (got, v, below, cnt, c')"
  shows "visit_of t i d c got cnt c'"
proof -
  let ?n = "rc_nextSymbol c" and ?m = "rc_symbols c"
  obtain m1 where c1: "c1 = c\<lparr>rc_symbols := m1\<rparr>"
    using assms(1) unfolding searched_def prod.case by blast
  show ?thesis
  proof (cases e)
    case (Hit got1 v1 below1 cnt1)
    then have r: "got = got1" "cnt = cnt1" "c' = c1"
      using assms(6) by (simp_all add: create_missing_def)
    have "got \<in> set_tree t" "counted_at got d ?m m1" "cnt = context_minimum i + ucast (sy_count (?m got))"
      using assms(1,5) Hit r by (simp_all add: searched_def c1)
    from hit_visits [OF this(1) assms(2) this(2,3)] show ?thesis
      using c1 r by (simp add: visit_of_def)
  next
    case (NoRight y after)
    have y: "y \<in> set_tree t" "sy_right (?m y) = 0" "bare m1 = bare ?m"
      using assms(1) NoRight by (simp_all add: searched_def c1)
    let ?v = "sy_value (m1 y) + 1 + ucast ((code - after) div minimum)"
    let ?m' = "m1(?n := new_symbol ?v d, y := (m1 y)\<lparr>sy_right := symbol_offset ?n y\<rparr>)"
    have yn: "y < ?n" using y(1) assms(2) by auto
    have "got = ?n \<and> cnt = context_minimum i \<and> c' = c\<lparr>rc_symbols := ?m', rc_nextSymbol := Suc ?n\<rparr>"
      using assms(4-6) yn NoRight c1 by (auto simp: create_missing_def ENET_SYMBOL_CREATE_def Let_def upd_symbol_inside)
    moreover have "sy_right (m1 y) = 0"
      using bare_eq_fields [OF y(3), of y] y(2) by simp
    then have "visits t i d ?n m1 ?n (Suc ?n) ?m'"
      by (intro hung_visits [where v = ?v, OF y(1) assms(2)]) simp
    ultimately show ?thesis
      using bare_visits [OF _ y(3)] by (simp add: visit_of_def counted_before_def)
  next
    case (NoLeft y after beforeNode)
    have y: "y \<in> set_tree t" "sy_left (?m y) = 0" "bare m1 = bare ?m"
      using assms(1) NoLeft by (simp_all add: searched_def c1)
    let ?v = "sy_value (m1 y) - 1 - ucast ((after - beforeNode - code - 1) div minimum)"
    let ?m' = "m1(?n := new_symbol ?v d, y := (m1 y)\<lparr>sy_left := symbol_offset ?n y\<rparr>)"
    have yn: "y < ?n" using y(1) assms(2) by auto
    have "got = ?n \<and> cnt = context_minimum i \<and> c' = c\<lparr>rc_symbols := ?m', rc_nextSymbol := Suc ?n\<rparr>"
      using assms(4-6) yn NoLeft c1 by (auto simp: create_missing_def ENET_SYMBOL_CREATE_def Let_def upd_symbol_inside)
    moreover have "sy_left (m1 y) = 0"
      using bare_eq_fields [OF y(3), of y] y(2) by simp
    then have "visits t i d ?n m1 ?n (Suc ?n) ?m'"
      by (intro hung_visits [where v = ?v, OF y(1) assms(2)]) simp
    ultimately show ?thesis
      using bare_visits [OF _ y(3)] by (simp add: visit_of_def counted_before_def)
  qed
qed

lemma root_decode_visits:
  assumes "context_ok 0 lim dp (rc_nextSymbol c) (rc_symbols c) t i" "i < rc_nextSymbol c" "rc_nextSymbol c < symbolCount"
    "ENET_CONTEXT_ROOT_DECODE i code d (context_minimum i) c = (got, v, below, cnt, c')"
  shows "visit_of t i d c got cnt c'"
proof -
  let ?n = "rc_nextSymbol c" and ?m = "rc_symbols c"
  have ok: "points_to i (sy_symbols (?m i)) t" "shaped ?m t" "set_tree t \<subseteq> {0<..<?n}"
    using assms(1) by (simp_all add: context_ok_def)
  show ?thesis
  proof (cases t)
    case Leaf
    let ?v = "ucast (code div context_minimum i)"
    let ?m' = "?m(?n := new_symbol ?v d, i := (?m i)\<lparr>sy_symbols := symbol_offset ?n i\<rparr>)"
    have "got = ?n \<and> cnt = context_minimum i \<and> c' = c\<lparr>rc_symbols := ?m', rc_nextSymbol := Suc ?n\<rparr>"
      using assms(2-4) ok(1) Leaf by (auto simp: ENET_CONTEXT_ROOT_DECODE_def ENET_SYMBOL_CREATE_def Let_def upd_symbol_inside)
    then show ?thesis
      using linked_visits [OF Leaf assms(2)] by (simp add: visit_of_def counted_before_def)
  next
    case (Node l x r)
    obtain e c1 where walk: "decode_walk d (context_minimum i) code 0 x c = (e, c1)"
      by force
    have inside: "set_tree t \<subseteq> {..<symbolCount}" using ok(3) assms(3) by auto
    have "create_missing code d (context_minimum i) (e, c1) = (got, v, below, cnt, c')"
      using assms(4) ok(1) Node walk by (simp add: ENET_CONTEXT_ROOT_DECODE_def Let_def)
    then show ?thesis
      using create_visits [OF _ ok(3) assms(2,3) refl]
        decode_walk_ends [OF Node ok(2) inside, of d "context_minimum i" code 0] walk by simp
  qed
qed

text \<open>A walk that finds nothing has met no fault: it stays in the tree.\<close>

lemma try_decode_misses:
  assumes "context_ok 0 lim dp (rc_nextSymbol c) (rc_symbols c) t i" "rc_nextSymbol c \<le> symbolCount"
    "ENET_CONTEXT_TRY_DECODE i code d 0 c = Inl c'"
  shows "rc_fault c' = rc_fault c"
proof (cases t)
  case Leaf
  then show ?thesis
    using assms(1,3) by (simp add: ENET_CONTEXT_TRY_DECODE_def context_ok_def)
next
  case (Node l x r)
  have ok: "points_to i (sy_symbols (rc_symbols c i)) t" "shaped (rc_symbols c) t" "set_tree t \<subseteq> {..<symbolCount}"
    using assms(1,2) by (auto simp: context_ok_def)
  obtain e c1 where walk: "decode_walk d 0 code 0 x c = (e, c1)"
    by force
  have "c' = c1"
    using assms(3) ok(1) Node walk by (auto simp: ENET_CONTEXT_TRY_DECODE_def Let_def split: search_end.splits if_splits)
  moreover have "c1 = c\<lparr>rc_symbols := rc_symbols c1\<rparr>"
    using decode_walk_ends [OF Node ok(2,3), of d 0 code 0] walk by (auto simp: searched_def split: search_end.splits)
  ultimately show ?thesis
    by (metis ENetRangeCoder.select_convs(2) ENetRangeCoder.surjective ENetRangeCoder.update_convs(1))
qed

lemma try_decode_visits:
  assumes "context_ok 0 lim dp (rc_nextSymbol c) (rc_symbols c) t i" "rc_nextSymbol c \<le> symbolCount" "context_minimum i = 0"
    "ENET_CONTEXT_TRY_DECODE i code d 0 c = Inr (got, v, below, cnt, c')"
  shows "visit_of t i d c got cnt c'" "got \<in> set_tree t"
proof -
  let ?n = "rc_nextSymbol c" and ?m = "rc_symbols c"
  have ok: "points_to i (sy_symbols (?m i)) t" "shaped ?m t" "set_tree t \<subseteq> {0<..<?n}"
    using assms(1) by (simp_all add: context_ok_def)
  have inside: "set_tree t \<subseteq> {..<symbolCount}" using ok(3) assms(2) by auto
  obtain l x r where t: "t = Node l x r"
    using assms(4) ok(1) by (cases t) (simp_all add: ENET_CONTEXT_TRY_DECODE_def)
  have "decode_walk d 0 code 0 x c = (Hit got v below cnt, c')"
    using assms(4) ok(1) t by (auto simp: ENET_CONTEXT_TRY_DECODE_def Let_def split: prod.splits search_end.splits if_splits)
  then have s: "got \<in> set_tree t" "counted_at got d ?m (rc_symbols c')" "cnt = context_minimum i + ucast (sy_count (?m got))"
    "c' = c\<lparr>rc_symbols := rc_symbols c'\<rparr>"
    using decode_walk_ends [OF t ok(2) inside, of d 0 code 0] assms(3) by (simp_all add: searched_def)
  have "rc_nextSymbol c' = ?n" by (subst s(4)) simp
  then show "visit_of t i d c got cnt c'" "got \<in> set_tree t"
    using hit_visits [OF s(1) ok(3) s(2,3)] s(1,4) by (simp_all add: visit_of_def)
qed

end
