(* ===== verification/Enet_Untrusted.thy ===== *)
theory Enet_Untrusted
  imports Enet_Balance
begin

text \<open>
  The loops of the decompressor on bytes nobody compressed: every round returns, stays in the array
  and leaves it healthy.
\<close>

section \<open>A visit, paid or not\<close>

definition parents :: "nat set \<Rightarrow> (nat \<Rightarrow> nat) \<Rightarrow> nat \<Rightarrow> (nat \<Rightarrow> ENetSymbol) \<Rightarrow> bool" where
  "parents skip dp n m \<longleftrightarrow>
     (\<forall>i<n. 0 < i \<longrightarrow> i \<notin> skip \<longrightarrow> unat (sy_parent (m i)) < n \<and> dp i = Suc (dp (unat (sy_parent (m i)))))"

definition healthy :: "nat set \<Rightarrow> (nat \<Rightarrow> nat tree) \<Rightarrow> (nat \<Rightarrow> nat) \<Rightarrow> ENetRangeDecoder \<Rightarrow> bool" where
  "healthy skip T dp c \<longleftrightarrow>
     settled T dp (rc_nextSymbol c) (rc_symbols c) \<and> parents skip dp (rc_nextSymbol c) (rc_symbols c) \<and> \<not> rc_fault c"

lemma unat_u16_less: "unat (w :: u16) < 65536"
  using unsigned_less [of w, where ?'a = nat] by simp

lemma unat_ucast_16_32 [simp]: "unat (ucast (w :: u16) :: u32) = unat w"
  using unat_u16_less [of w] by (simp add: unsigned_ucast_eq take_bit_nat_eq_self)

lemma visit_owes:
  assumes "settled T dp (rc_nextSymbol c) (rc_symbols c)" "i < rc_nextSymbol c" "rc_nextSymbol c < symbolCount"
    "visit_of (T i) i d c got cnt c1" "unat d = symbol_delta i"
  shows "\<exists>T'. forest ((\<lambda>_. 0)(i := symbol_delta i)) (\<lambda>_. 0xFF00) T' (dp(rc_nextSymbol c := Suc (dp i))) (rc_nextSymbol c1) (rc_symbols c1)
      \<and> got \<in> set_tree (T' i)
      \<and> (cnt > context_limit i \<or> (\<forall>x\<in>set_tree (T' i). unat (sy_count (rc_symbols c1 x)) + symbol_delta i \<le> 255))"
    "rc_nextSymbol c1 = (if got = rc_nextSymbol c then rc_nextSymbol c + 1 else rc_nextSymbol c)" "got < rc_nextSymbol c1"
    "j \<noteq> rc_nextSymbol c \<Longrightarrow> sy_parent (rc_symbols c1 j) = sy_parent (rc_symbols c j)"
    "got = rc_nextSymbol c \<Longrightarrow> sy_parent (rc_symbols c1 got) = 0"
proof -
  note v = assms(4) [unfolded visit_of_def]
  have vis: "visits (T i) i d (rc_nextSymbol c) (rc_symbols c) got (rc_nextSymbol c1) (rc_symbols c1)"
    using v by blast
  have sub: "set_tree (T i) \<subseteq> {0<..<rc_nextSymbol c}"
    by (rule settled_context(2) [OF assms(1,2)])
  note vf = visited_fields [OF vis assms(2) sub]
  obtain T' where T': "forest ((\<lambda>_. 0)(i := symbol_delta i)) (\<lambda>_. 0xFF00) T' (dp(rc_nextSymbol c := Suc (dp i))) (rc_nextSymbol c1) (rc_symbols c1)"
    "got \<in> set_tree (T' i)" "unat (sy_count (rc_symbols c1 got)) = counted_before got (rc_nextSymbol c) (rc_symbols c) + symbol_delta i"
    "\<forall>x\<in>set_tree (T' i). x \<noteq> got \<longrightarrow> unat (sy_count (rc_symbols c1 x)) + symbol_delta i \<le> 255"
    using visited_forest [OF vis assms(1-3,5)] by blast
  have "cnt > context_limit i \<or> counted_before got (rc_nextSymbol c) (rc_symbols c) + 2 * symbol_delta i \<le> 255"
    by (rule affordable) (use v in blast)
  then have "cnt > context_limit i \<or> (\<forall>x\<in>set_tree (T' i). unat (sy_count (rc_symbols c1 x)) + symbol_delta i \<le> 255)"
    using T'(3,4) by (metis add.assoc mult_2)
  then show "\<exists>T'. forest ((\<lambda>_. 0)(i := symbol_delta i)) (\<lambda>_. 0xFF00) T' (dp(rc_nextSymbol c := Suc (dp i))) (rc_nextSymbol c1) (rc_symbols c1)
      \<and> got \<in> set_tree (T' i)
      \<and> (cnt > context_limit i \<or> (\<forall>x\<in>set_tree (T' i). unat (sy_count (rc_symbols c1 x)) + symbol_delta i \<le> 255))"
    using T'(1,2) by blast
  show "rc_nextSymbol c1 = (if got = rc_nextSymbol c then rc_nextSymbol c + 1 else rc_nextSymbol c)" "got < rc_nextSymbol c1"
    by (fact vf(6), fact vf(7))
  show "j \<noteq> rc_nextSymbol c \<Longrightarrow> sy_parent (rc_symbols c1 j) = sy_parent (rc_symbols c j)"
    "got = rc_nextSymbol c \<Longrightarrow> sy_parent (rc_symbols c1 got) = 0"
    using vf(1) [of j] vf(5) by simp_all
qed

text \<open>What is decoded in a context is a part of its total, and not nothing.\<close>

lemma visit_slot:
  assumes "context_ok 0 lim dp (rc_nextSymbol c) (rc_symbols c) t i" "visit_of t i d c got cnt c1" "i = 0 \<or> got \<in> set_tree t"
  shows "0 < unat cnt" "unat cnt \<le> unat (sy_total (rc_symbols c i))"
proof -
  note ok = assms(1) [unfolded context_ok_def]
  have cnt: "unat cnt = unat (context_minimum i) + counted_before got (rc_nextSymbol c) (rc_symbols c)"
    using assms(2) by (simp add: visit_of_def)
  have total: "unat (sy_total (rc_symbols c i)) = unat (sy_escapes (rc_symbols c i)) + tally (rc_symbols c) t + minimum_total i"
    using ok by simp
  have got: "got = rc_nextSymbol c \<or> got \<in> set_tree t"
    using assms(2) unfolding visit_of_def visits_def by blast
  have le: "unat (sy_count (rc_symbols c got)) \<le> tally (rc_symbols c) t" if "got \<in> set_tree t"
    unfolding tally_def using that by (intro member_le_sum) auto
  have "got \<noteq> rc_nextSymbol c" if "got \<in> set_tree t"
    using that ok by auto
  then show "0 < unat cnt" "unat cnt \<le> unat (sy_total (rc_symbols c i))"
    using cnt total got le assms(3) ok by (auto simp: counted_before_def context_minimum_def minimum_total_def)
qed

section \<open>Decoding\<close>

text \<open>The contexts from a symbol to the root.\<close>

inductive leads :: "(nat \<Rightarrow> ENetSymbol) \<Rightarrow> nat \<Rightarrow> nat \<Rightarrow> bool" for m where
  here: "leads m s s"
| up: "i \<noteq> 0 \<Longrightarrow> leads m (unat (sy_parent (m i))) s \<Longrightarrow> leads m i s"

definition grown ::
  "(nat \<Rightarrow> nat) \<Rightarrow> nat \<Rightarrow> nat \<Rightarrow> nat \<Rightarrow> ENetRangeDecoder \<Rightarrow> (nat \<Rightarrow> nat tree) \<Rightarrow> (nat \<Rightarrow> nat) \<Rightarrow> ENetRangeDecoder \<Rightarrow> bool" where
  "grown dp i s bottom c T' dp' c' \<longleftrightarrow>
     healthy {} T' dp' c' \<and> rc_nextSymbol c \<le> rc_nextSymbol c' \<and> rc_nextSymbol c' \<le> rc_nextSymbol c + 1 \<and>
     (\<forall>j<rc_nextSymbol c. dp' j = dp j \<and> sy_parent (rc_symbols c' j) = sy_parent (rc_symbols c j)) \<and>
     leads (rc_symbols c') i s \<and> s < rc_nextSymbol c \<and>
     0 < bottom \<and> bottom < rc_nextSymbol c' \<and> dp' bottom = Suc (dp' s)"

definition decoded_at :: "(nat \<Rightarrow> nat) \<Rightarrow> nat \<Rightarrow> ENetRangeDecoder \<Rightarrow> decoded \<Rightarrow> ENetRangeDecoder \<Rightarrow> bool" where
  "decoded_at dp i c r c' \<longleftrightarrow>
     rc_out c' = rc_out c \<and> rc_order c' = rc_order c \<and> \<not> rc_fault c' \<and> wide c' \<and>
     (\<forall>s bottom v. r = Decoded s bottom v \<longrightarrow> (\<exists>T' dp'. grown dp i s bottom c T' dp' c'))"

text \<open>A symbol decoded in a context and counted there.\<close>

lemma decoded_here:
  assumes "healthy {} T dp c" "i < rc_nextSymbol c" "rc_nextSymbol c < symbolCount" "unat d = symbol_delta i"
    "visit_of (T i) i d c got cnt c1" "i = 0 \<or> got \<in> set_tree (T i)" "decoder_at c1 c2" "wide c2"
  shows "decoded_at dp i c (Decoded i got v) (count_symbol i d (context_minimum i) (context_limit i) cnt c2)"
proof -
  let ?n = "rc_nextSymbol c" and ?dp' = "dp(rc_nextSymbol c := Suc (dp i))"
  have set: "settled T dp ?n (rc_symbols c)" and par: "parents {} dp ?n (rc_symbols c)" and nofault: "\<not> rc_fault c"
    using assms(1) by (simp_all add: healthy_def)
  note vo = visit_owes [OF set assms(2,3,5,4)]
  obtain T' where T': "forest ((\<lambda>_. 0)(i := symbol_delta i)) (\<lambda>_. 0xFF00) T' ?dp' (rc_nextSymbol c1) (rc_symbols c1)"
    "got \<in> set_tree (T' i)"
    "cnt > context_limit i \<or> (\<forall>x\<in>set_tree (T' i). unat (sy_count (rc_symbols c1 x)) + symbol_delta i \<le> 255)"
    using vo(1) by blast
  have at: "rc_symbols c2 = rc_symbols c1" "rc_nextSymbol c2 = rc_nextSymbol c1" "rc_fault c2 = rc_fault c"
    "rc_out c2 = rc_out c" "rc_order c2 = rc_order c"
  proof -
    have "c1 = c\<lparr>rc_symbols := rc_symbols c1, rc_nextSymbol := rc_nextSymbol c1\<rparr>"
      using assms(5) by (simp add: visit_of_def)
    then have "rc_fault c1 = rc_fault c" "rc_out c1 = rc_out c" "rc_order c1 = rc_order c"
      by (metis ENetRangeCoder.ext_inject ENetRangeCoder.surjective ENetRangeCoder.update_convs(1,3))+
    then show "rc_symbols c2 = rc_symbols c1" "rc_nextSymbol c2 = rc_nextSymbol c1" "rc_fault c2 = rc_fault c"
      "rc_out c2 = rc_out c" "rc_order c2 = rc_order c"
      using assms(7) by (simp_all add: decoder_at_def)
  qed
  have i1: "i < rc_nextSymbol c1"
    using assms(2) vo(2) by simp
  obtain m' where m': "count_symbol i d (context_minimum i) (context_limit i) cnt c2 = c2\<lparr>rc_symbols := m'\<rparr>"
    "settled T' ?dp' (rc_nextSymbol c1) m'" "\<forall>j. sy_parent (m' j) = sy_parent (rc_symbols c1 j)"
    using pay [of i T' ?dp' "rc_nextSymbol c1" c2 cnt d] forest_relax [OF T'(1), of i] i1 T'(3) assms(4) by (auto simp: at(1))
  have old: "sy_parent (m' j) = sy_parent (rc_symbols c j)" "?dp' j = dp j" if "j < ?n" for j
    using that m'(3) vo(4) [of j] by simp_all
  have got: "0 < got" "got < rc_nextSymbol c1" "?dp' got = Suc (?dp' i)"
  proof -
    have "context_ok (symbol_delta i) 0xFF00 ?dp' (rc_nextSymbol c1) (rc_symbols c1) (T' i) i"
      using T'(1) i1 by (fastforce simp: forest_def)
    then show "0 < got" "got < rc_nextSymbol c1" "?dp' got = Suc (?dp' i)"
      using T'(2) by (auto simp: context_ok_def)
  qed
  have "parents {} ?dp' (rc_nextSymbol c1) m'"
    unfolding parents_def
  proof (intro allI impI)
    fix j
    assume j: "j < rc_nextSymbol c1" "0 < j"
    show "unat (sy_parent (m' j)) < rc_nextSymbol c1 \<and> ?dp' j = Suc (?dp' (unat (sy_parent (m' j))))"
    proof (cases "j < ?n")
      case True
      then have "unat (sy_parent (rc_symbols c j)) < ?n" "dp j = Suc (dp (unat (sy_parent (rc_symbols c j))))"
        using par j(2) by (auto simp: parents_def)
      then show ?thesis
        using old [OF True] vo(2) True by auto
    next
      case False
      then have "got = ?n" "j = ?n"
        using j(1) vo(2) by (auto split: if_splits)
      moreover have "?n \<notin> set_tree (T i)"
        using settled_context(2) [OF set assms(2)] by auto
      ultimately have "i = 0" "sy_parent (m' j) = 0"
        using assms(6) vo(5) m'(3) by auto
      moreover have "dp 0 = 0"
        using set by (simp add: forest_def)
      ultimately show ?thesis
        using j assms(2) \<open>j = ?n\<close> by simp
    qed
  qed
  then have "healthy {} T' ?dp' (c2\<lparr>rc_symbols := m'\<rparr>)"
    using m'(2) nofault by (simp add: healthy_def at)
  then show ?thesis
    unfolding decoded_at_def m'(1) using assms(2,8) nofault old got vo(2)
    by (auto simp: at wide_def grown_def intro!: exI [of _ T'] exI [of _ ?dp'] leads.here)
qed

lemma slot_decodes:
  assumes "healthy {} T dp c" "i < rc_nextSymbol c" "rc_nextSymbol c < symbolCount" "unat d = symbol_delta i"
    "visit_of (T i) i d c got cnt c1" "i = 0 \<or> got \<in> set_tree (T i)" "read_at (ucast (sy_total (rc_symbols c i))) c"
  shows "\<exists>c2. ENET_RANGE_CODER_DECODE below (ucast cnt) c1 = Some c2
    \<and> decoded_at dp i c (Decoded i got v) (count_symbol i d (context_minimum i) (context_limit i) cnt c2)"
proof -
  have set: "settled T dp (rc_nextSymbol c) (rc_symbols c)"
    using assms(1) by (simp add: healthy_def)
  have slot: "0 < unat cnt" "unat cnt \<le> unat (sy_total (rc_symbols c i))"
    using visit_slot [OF settled_context(1) [OF set assms(2)] assms(5,6)] by simp_all
  have "c1 = c\<lparr>rc_symbols := rc_symbols c1, rc_nextSymbol := rc_nextSymbol c1\<rparr>"
    using assms(5) by (simp add: visit_of_def)
  then have "rc_range c1 = rc_range c"
    by (metis ENetRangeCoder.ext_inject ENetRangeCoder.surjective ENetRangeCoder.update_convs(1,3))
  then have "read_at (ucast (sy_total (rc_symbols c i))) c1"
    using assms(7) by (simp add: read_at_def)
  then obtain c2 where c2: "ENET_RANGE_CODER_DECODE below (ucast cnt) c1 = Some c2" "decoder_at c1 c2" "wide c2"
    using decode_returns [of "ucast (sy_total (rc_symbols c i))" c1 "ucast cnt" below] slot by auto
  then show ?thesis
    using decoded_here [OF assms(1-6) c2(2,3), of v] by blast
qed

lemma decoder_at_carries:
  assumes "decoder_at c c1"
  shows "healthy skip T dp c1 = healthy skip T dp c" "decoded_at dp i c1 r c' = decoded_at dp i c r c'"
    "rc_symbols c1 = rc_symbols c" "rc_nextSymbol c1 = rc_nextSymbol c"
  using assms by (simp_all add: healthy_def decoded_at_def grown_def decoder_at_def)

lemma total_bounds:
  assumes "settled T dp n m" "i < n"
  shows "unat (sy_escapes (m i)) \<le> unat (sy_total (m i))" "unat (sy_total (m i)) < 2 ^ 16" "0 < unat (sy_total (m 0))"
  using settled_context(1) [OF assms] settled_context(1) [OF assms(1), of 0] assms(2)
  by (simp_all add: context_ok_def minimum_total_def)

lemma root_constants: "context_minimum 0 = 1" "context_limit 0 = 250" "symbol_delta 0 = 3"
  by (simp_all add: context_minimum_def context_limit_def symbol_delta_def)

lemma decode_root_returns:
  assumes "healthy {} T dp c" "rc_nextSymbol c < symbolCount" "wide c"
  shows "\<exists>r c'. decode_root c = Some (r, c') \<and> decoded_at dp 0 c r c'"
proof -
  have set: "settled T dp (rc_nextSymbol c) (rc_symbols c)" and n: "0 < rc_nextSymbol c" and nofault: "\<not> rc_fault c"
    using assms(1) by (simp_all add: healthy_def forest_def)
  note bounds = total_bounds [OF set n]
  let ?total = "ucast (sy_total (rc_symbols c 0)) :: u32" and ?escapes = "sy_escapes (rc_symbols c 0)"
  obtain code c1 where read: "ENET_RANGE_CODER_READ ?total c = (code, c1)" "decoder_at c c1" "read_at ?total c1"
    using read_returns [OF assms(3), of ?total] bounds by auto
  note at = decoder_at_carries [OF read(2)]
  show ?thesis
  proof (cases "code < ?escapes")
    case True
    then have "0 < unat ?escapes"
      by (simp add: word_less_nat_alt)
    then obtain c2 where c2: "ENET_RANGE_CODER_DECODE 0 (ucast ?escapes) c1 = Some c2" "decoder_at c1 c2" "wide c2"
      using decode_returns [OF read(3), of "ucast ?escapes" 0] bounds(1) by auto
    have "decoded_at dp 0 c Finished c2"
      using decoder_at_trans [OF read(2) c2(2)] c2(3) nofault by (simp add: decoded_at_def decoder_at_def)
    then show ?thesis
      using True read(1) c2(1) by (simp add: decode_root_def Let_def)
  next
    case False
    obtain got v below cnt c2 where dec: "ENET_CONTEXT_ROOT_DECODE 0 (code - ?escapes) ENET_CONTEXT_SYMBOL_DELTA ENET_CONTEXT_SYMBOL_MINIMUM c1
        = (got, v, below, cnt, c2)"
      by (metis prod_cases5)
    have "visit_of (T 0) 0 ENET_CONTEXT_SYMBOL_DELTA c1 got cnt c2"
      using root_decode_visits [where dp = dp and t = "T 0" and i = 0 and lim = "0xFF00" and c = c1] settled_context(1) [OF set n] n assms(2) dec by (simp add: at root_constants)
    then obtain c3 where "ENET_RANGE_CODER_DECODE (ucast ?escapes + ucast below) (ucast cnt) c2 = Some c3"
      "decoded_at dp 0 c (Decoded 0 got v) (count_symbol 0 ENET_CONTEXT_SYMBOL_DELTA 1 250 cnt c3)"
      using slot_decodes [where T = T and dp = dp and i = 0 and c = c1 and d = ENET_CONTEXT_SYMBOL_DELTA and got = got
        and cnt = cnt and ?c1.0 = c2 and below = "ucast ?escapes + ucast below" and v = v] assms(1,2) n read(3)
      by (auto simp: at root_constants)
    then show ?thesis
      using False read(1) dec by (simp add: decode_root_def Let_def)
  qed
qed

lemma grown_up:
  assumes "grown dp (unat (sy_parent (rc_symbols c i))) s bottom c T' dp' c'" "i \<noteq> 0" "i < rc_nextSymbol c"
  shows "grown dp i s bottom c T' dp' c'"
proof -
  have "sy_parent (rc_symbols c' i) = sy_parent (rc_symbols c i)" "leads (rc_symbols c') (unat (sy_parent (rc_symbols c i))) s"
    using assms(1,3) by (simp_all add: grown_def)
  then have "leads (rc_symbols c') i s"
    by (simp only: leads.up [OF assms(2)])
  then show ?thesis
    using assms(1) by (simp add: grown_def)
qed

lemma decoded_up:
  assumes "decoded_at dp (unat (sy_parent (rc_symbols c i))) c r c'" "i \<noteq> 0" "i < rc_nextSymbol c"
  shows "decoded_at dp i c r c'"
  using assms(1) grown_up [OF _ assms(2,3)] unfolding decoded_at_def by blast

lemma sub_constants: "0 < i \<Longrightarrow> context_minimum i = 0" "0 < i \<Longrightarrow> context_limit i = 251" "0 < i \<Longrightarrow> symbol_delta i = 2"
  by (simp_all add: context_minimum_def context_limit_def symbol_delta_def)

lemma decode_contexts_returns:
  assumes "healthy {} T dp c" "i < rc_nextSymbol c" "rc_nextSymbol c < symbolCount" "wide c"
  shows "\<exists>res. decode_contexts i c = Some res \<and> (\<forall>c'. res = Inl c' \<longrightarrow> \<not> rc_fault c')
    \<and> (\<forall>r c'. res = Inr (r, c') \<longrightarrow> decoded_at dp i c r c')"
  using assms
proof (induction "dp i" arbitrary: i c)
  case 0
  have "i = 0"
    using "0.hyps" "0.prems"(1,2) by (force simp: healthy_def forest_def)
  then obtain r c' where "decode_root c = Some (r, c')" "decoded_at dp i c r c'"
    using decode_root_returns "0.prems"(1,3,4) by blast
  then show ?case
    using \<open>i = 0\<close> by (subst decode_contexts.simps) simp
next
  case (Suc k)
  let ?s = "rc_symbols c i"
  let ?p = "unat (sy_parent ?s)" and ?total = "ucast (sy_total ?s) :: u32" and ?escapes = "sy_escapes ?s"
  have set: "settled T dp (rc_nextSymbol c) (rc_symbols c)" and par: "parents {} dp (rc_nextSymbol c) (rc_symbols c)"
    using Suc.prems(1) by (simp_all add: healthy_def)
  have i: "i \<noteq> 0"
    using Suc.hyps(2) set by (metis forest_def nat.distinct(1))
  then have p: "?p < rc_nextSymbol c" "k = dp ?p"
    using par Suc.prems(2) Suc.hyps(2) by (auto simp: parents_def)
  have up: "\<exists>res. decode_contexts ?p c1 = Some res \<and> (\<forall>c'. res = Inl c' \<longrightarrow> \<not> rc_fault c')
      \<and> (\<forall>r c'. res = Inr (r, c') \<longrightarrow> decoded_at dp i c r c')"
    if c1: "decoder_at c c1" "wide c1" for c1
  proof -
    note at = decoder_at_carries [OF c1(1)]
    obtain res where "decode_contexts ?p c1 = Some res" "\<forall>c'. res = Inl c' \<longrightarrow> \<not> rc_fault c'"
      "\<forall>r c'. res = Inr (r, c') \<longrightarrow> decoded_at dp ?p c1 r c'"
      using Suc.hyps(1) [OF p(2), of c1] Suc.prems(1,3) p(1) c1(2) by (auto simp: at)
    then show ?thesis
      using decoded_up [OF _ i Suc.prems(2)] by (auto simp: at)
  qed
  note bounds = total_bounds [OF set Suc.prems(2)]
  show ?case
  proof (cases "?escapes = 0 \<or> ?escapes \<ge> sy_total ?s")
    case True
    then have "decode_contexts i c = decode_contexts ?p c"
      using i by (subst decode_contexts.simps) (simp add: Let_def)
    then show ?thesis
      using up [of c] Suc.prems(4) by simp
  next
    case read_it: False
    then have esc: "0 < unat ?escapes" "0 < unat (sy_total ?s)"
      by (auto simp: unat_gt_0 word_le_nat_alt)
    obtain code c1 where read: "ENET_RANGE_CODER_READ ?total c = (code, c1)" "decoder_at c c1" "read_at ?total c1"
      using read_returns [OF Suc.prems(4), of ?total] bounds esc by auto
    note at = decoder_at_carries [OF read(2)]
    show ?thesis
    proof (cases "code < ?escapes")
      case True
      obtain c2 where c2: "ENET_RANGE_CODER_DECODE 0 (ucast ?escapes) c1 = Some c2" "decoder_at c1 c2" "wide c2"
        using decode_returns [OF read(3), of "ucast ?escapes" 0] bounds(1) esc by auto
      then have "decode_contexts i c = decode_contexts ?p c2"
        using i read_it True read(1) by (subst decode_contexts.simps) (simp add: Let_def)
      then show ?thesis
        using up [OF decoder_at_trans [OF read(2) c2(2)] c2(3)] by simp
    next
      case hit: False
      show ?thesis
      proof (cases "ENET_CONTEXT_TRY_DECODE i (code - ?escapes) ENET_SUBCONTEXT_SYMBOL_DELTA 0 c1")
        case (Inl c2)
        then have "decode_contexts i c = Some (Inl c2)"
          using i read_it hit read(1) by (subst decode_contexts.simps) (simp add: Let_def)
        moreover have "rc_fault c2 = rc_fault c1"
          using try_decode_misses [where dp = dp and t = "T i" and i = i and lim = "0xFF00" and c = c1]
            settled_context(1) [OF set Suc.prems(2)] Suc.prems(3) i Inl by (simp add: at)
        moreover have "\<not> rc_fault c1"
        proof -
          have "healthy {} T dp c1" using Suc.prems(1) by (simp add: at)
          then show ?thesis by (simp add: healthy_def)
        qed
        ultimately show ?thesis by simp
      next
        case (Inr dec)
        obtain got v below cnt c2 where dec: "dec = (got, v, below, cnt, c2)"
          by (metis prod_cases5)
        have vis: "visit_of (T i) i ENET_SUBCONTEXT_SYMBOL_DELTA c1 got cnt c2" "got \<in> set_tree (T i)"
          using try_decode_visits [where dp = dp and t = "T i" and i = i and lim = "0xFF00" and c = c1]
            settled_context(1) [OF set Suc.prems(2)] Suc.prems(3) i Inr dec by (simp_all add: at sub_constants)
        then obtain c3 where "ENET_RANGE_CODER_DECODE (ucast ?escapes + ucast below) (ucast cnt) c2 = Some c3"
          "decoded_at dp i c (Decoded i got v) (count_symbol i ENET_SUBCONTEXT_SYMBOL_DELTA 0 251 cnt c3)"
          using slot_decodes [where T = T and dp = dp and i = i and c = c1 and d = ENET_SUBCONTEXT_SYMBOL_DELTA and got = got
              and cnt = cnt and ?c1.0 = c2 and below = "ucast ?escapes + ucast below" and v = v] Suc.prems(1-3) read(3) i
          by (auto simp: at sub_constants)
        then have "decode_contexts i c = Some (Inr (Decoded i got v, count_symbol i ENET_SUBCONTEXT_SYMBOL_DELTA 0 251 cnt c3))"
          using i read_it hit read(1) Inr dec by (subst decode_contexts.simps) (simp add: Let_def)
        then show ?thesis
          using \<open>decoded_at dp i c (Decoded i got v) _\<close> by simp
      qed
    qed
  qed
qed

section \<open>Patching\<close>

text \<open>The symbol whose parent is not set yet lies two below the context that is patched next.\<close>

definition open_symbol :: "parent_slot \<Rightarrow> nat set" where
  "open_symbol slot = (case slot of Predicted \<Rightarrow> {} | ParentOf k \<Rightarrow> {k})"

definition open_ok :: "parent_slot \<Rightarrow> (nat \<Rightarrow> nat) \<Rightarrow> nat \<Rightarrow> nat \<Rightarrow> bool" where
  "open_ok slot dp n depth \<longleftrightarrow> (\<forall>k\<in>open_symbol slot. 0 < k \<and> k < n \<and> dp k = Suc (Suc depth))"

definition held :: "ENetRangeDecoder \<Rightarrow> ENetRangeDecoder \<Rightarrow> bool" where
  "held c c' \<longleftrightarrow> rc_fault c' = rc_fault c \<and> rc_out c' = rc_out c \<and> rc_order c' = rc_order c \<and> rc_range c' = rc_range c"

lemma held_trans: "held a b \<Longrightarrow> held b c \<Longrightarrow> held a c"
  by (simp add: held_def)

lemma visit_held:
  assumes "visit_of t i d c got cnt c1"
  shows "held c c1" "rc_predicted c1 = rc_predicted c"
proof -
  have "c1 = c\<lparr>rc_symbols := rc_symbols c1, rc_nextSymbol := rc_nextSymbol c1\<rparr>"
    using assms by (simp add: visit_of_def)
  then obtain m n where "c1 = c\<lparr>rc_symbols := m, rc_nextSymbol := n\<rparr>"
    by blast
  then show "held c c1" "rc_predicted c1 = rc_predicted c"
    by (simp_all add: held_def)
qed

lemma set_parent_ok:
  assumes "open_ok slot dp (rc_nextSymbol c) depth" "rc_nextSymbol c \<le> symbolCount"
  shows "held c (set_parent slot got c)" "rc_nextSymbol (set_parent slot got c) = rc_nextSymbol c"
    "sy_parent (rc_symbols (set_parent slot got c) j) = (if j \<in> open_symbol slot then of_nat got else sy_parent (rc_symbols c j))"
    "rc_predicted (set_parent slot got c) = (if slot = Predicted then of_nat got else rc_predicted c)"
    "sy_count (rc_symbols (set_parent slot got c) j) = sy_count (rc_symbols c j)"
    "forest owed lim T dp' n (rc_symbols c) \<Longrightarrow> forest owed lim T dp' n (rc_symbols (set_parent slot got c))"
proof -
  have "held c (set_parent slot got c) \<and> rc_nextSymbol (set_parent slot got c) = rc_nextSymbol c
    \<and> sy_parent (rc_symbols (set_parent slot got c) j) = (if j \<in> open_symbol slot then of_nat got else sy_parent (rc_symbols c j))
    \<and> rc_predicted (set_parent slot got c) = (if slot = Predicted then of_nat got else rc_predicted c)
    \<and> sy_count (rc_symbols (set_parent slot got c) j) = sy_count (rc_symbols c j)
    \<and> (forest owed lim T dp' n (rc_symbols c) \<longrightarrow> forest owed lim T dp' n (rc_symbols (set_parent slot got c)))"
  proof (cases slot)
    case Predicted
    then show ?thesis by (simp add: set_parent_def held_def open_symbol_def)
  next
    case (ParentOf k)
    then have "set_parent slot got c = c\<lparr>rc_symbols := (rc_symbols c)(k := (rc_symbols c k)\<lparr>sy_parent := of_nat got\<rparr>)\<rparr>"
      using assms by (simp add: set_parent_def open_ok_def open_symbol_def upd_symbol_inside)
    then show ?thesis
      using forest_parent ParentOf by (auto simp: held_def open_symbol_def)
  qed
  then show "held c (set_parent slot got c)" "rc_nextSymbol (set_parent slot got c) = rc_nextSymbol c"
    "sy_parent (rc_symbols (set_parent slot got c) j) = (if j \<in> open_symbol slot then of_nat got else sy_parent (rc_symbols c j))"
    "rc_predicted (set_parent slot got c) = (if slot = Predicted then of_nat got else rc_predicted c)"
    "sy_count (rc_symbols (set_parent slot got c) j) = sy_count (rc_symbols c j)"
    "forest owed lim T dp' n (rc_symbols c) \<Longrightarrow> forest owed lim T dp' n (rc_symbols (set_parent slot got c))"
    by blast+
qed

text \<open>A context that escaped counts its escape, if it had to create the symbol, and the symbol.\<close>

lemma pay_escape:
  assumes "forest ((\<lambda>_. 0)(i := symbol_delta i)) (\<lambda>_. 0xFF00) T dp (rc_nextSymbol c) (rc_symbols c)" "i < rc_nextSymbol c" "0 < i"
    "cnt > context_limit i \<or> (\<forall>x\<in>set_tree (T i). unat (sy_count (rc_symbols c x)) + symbol_delta i \<le> 255)"
  shows "\<exists>c'. count_subcontext i cnt (if cnt = 0 then count_escape i c else c) = c' \<and> held c c' \<and> rc_predicted c' = rc_predicted c
    \<and> rc_nextSymbol c' = rc_nextSymbol c \<and> settled T dp (rc_nextSymbol c) (rc_symbols c')
    \<and> (\<forall>j. sy_parent (rc_symbols c' j) = sy_parent (rc_symbols c j))"
proof -
  have "\<exists>m1. (if cnt = 0 then count_escape i c else c) = c\<lparr>rc_symbols := m1\<rparr>
      \<and> forest ((\<lambda>_. 0)(i := symbol_delta i)) ((\<lambda>_. 0xFF00)(i := 0xFF05)) T dp (rc_nextSymbol c) m1
      \<and> (\<forall>j. sy_parent (m1 j) = sy_parent (rc_symbols c j)) \<and> (\<forall>j. sy_count (m1 j) = sy_count (rc_symbols c j))"
  proof (cases "cnt = 0")
    case True
    obtain m1 where m1: "count_escape i c = c\<lparr>rc_symbols := m1\<rparr>"
      "forest ((\<lambda>_. 0)(i := symbol_delta i)) ((\<lambda>_. 0xFF00)(i := 0xFF05)) T dp (rc_nextSymbol c) m1"
      "\<forall>j. sy_parent (m1 j) = sy_parent (rc_symbols c j)"
      using escape_owed [OF assms(1,2)] by auto
    have "rc_symbols (count_escape i c) = m1" by (simp add: m1(1))
    then have "m1 = (rc_symbols c)(i := (rc_symbols c i)\<lparr>sy_escapes := sy_escapes (rc_symbols c i) + 5, sy_total := sy_total (rc_symbols c i) + 5\<rparr>)"
      by (auto simp: count_escape_def upd_symbol_def)
    then have "\<forall>j. sy_count (m1 j) = sy_count (rc_symbols c j)"
      by simp
    then show ?thesis
      using True m1 by (intro exI [of _ m1]) simp
  next
    case False
    then show ?thesis
      using forest_relax [OF assms(1), of i] by (intro exI [of _ "rc_symbols c"]) simp
  qed
  then obtain m1 where m1: "(if cnt = 0 then count_escape i c else c) = c\<lparr>rc_symbols := m1\<rparr>"
    "forest ((\<lambda>_. 0)(i := symbol_delta i)) ((\<lambda>_. 0xFF00)(i := 0xFF05)) T dp (rc_nextSymbol c) m1"
    "\<forall>j. sy_parent (m1 j) = sy_parent (rc_symbols c j)" "\<forall>j. sy_count (m1 j) = sy_count (rc_symbols c j)"
    by blast
  obtain m2 where m2: "count_subcontext i cnt (c\<lparr>rc_symbols := m1\<rparr>) = c\<lparr>rc_symbols := m2\<rparr>"
    "settled T dp (rc_nextSymbol c) m2" "\<forall>j. sy_parent (m2 j) = sy_parent (m1 j)"
    using pay [of i T dp "rc_nextSymbol c" "c\<lparr>rc_symbols := m1\<rparr>" cnt ENET_SUBCONTEXT_SYMBOL_DELTA] m1(2,4) assms(2-4)
    by (auto simp: sub_constants)
  show ?thesis
    unfolding m1(1) m2(1) using m1(3) m2(2,3) by (simp add: held_def)
qed

lemma leads_frame:
  assumes "leads m i s" "i < n" "parents skip dp n m" "\<And>k. k \<in> skip \<Longrightarrow> dp k > dp i"
    "\<And>j. j < n \<Longrightarrow> dp j \<le> dp i \<Longrightarrow> sy_parent (m' j) = sy_parent (m j)"
  shows "leads m' i s"
  using assms(1,2,4,5)
proof induction
  case here
  then show ?case by (simp add: leads.here)
next
  case (up i s)
  have p: "unat (sy_parent (m i)) < n" "dp i = Suc (dp (unat (sy_parent (m i))))"
    using assms(3) up.hyps(1) up.prems(1,2) by (auto simp: parents_def)
  have "leads m' (unat (sy_parent (m i))) s"
    by (rule up.IH [OF p(1)]) (use up.prems p(2) in force)+
  moreover have "sy_parent (m' i) = sy_parent (m i)"
    by (rule up.prems(3)) (use up.prems(1) in simp_all)
  ultimately show ?case
    by (simp only: leads.up [OF up.hyps(1)])
qed

definition patched :: "(nat \<Rightarrow> nat) \<Rightarrow> nat \<Rightarrow> parent_slot \<Rightarrow> ENetRangeDecoder \<Rightarrow> (nat \<Rightarrow> nat tree) \<Rightarrow> (nat \<Rightarrow> nat) \<Rightarrow> ENetRangeDecoder \<Rightarrow> bool" where
  "patched dp i slot c T' dp' c' \<longleftrightarrow>
     healthy {} T' dp' c' \<and> held c c' \<and> rc_nextSymbol c \<le> rc_nextSymbol c' \<and> rc_nextSymbol c' \<le> rc_nextSymbol c + dp i \<and>
     (\<forall>j<rc_nextSymbol c. dp' j = dp j) \<and>
     (if slot = Predicted then unat (rc_predicted c') < rc_nextSymbol c' \<and> dp' (unat (rc_predicted c')) = Suc (dp i)
      else rc_predicted c' = rc_predicted c)"

text \<open>The last step: the symbol that was decoded becomes the parent.\<close>

lemma patch_here:
  assumes "healthy (open_symbol slot) T dp c" "open_ok slot dp (rc_nextSymbol c) (dp s)" "bottom < rc_nextSymbol c" "dp bottom = Suc (dp s)"
  shows "patched dp s slot c T dp (set_parent slot bottom c)"
proof -
  have set: "settled T dp (rc_nextSymbol c) (rc_symbols c)" and par: "parents (open_symbol slot) dp (rc_nextSymbol c) (rc_symbols c)"
    and n: "rc_nextSymbol c \<le> symbolCount"
    using assms(1) by (auto simp: healthy_def forest_def)
  define c' where "c' = set_parent slot bottom c"
  note sp = set_parent_ok [OF assms(2) n, where got = bottom, folded c'_def]
  have small: "unat (of_nat bottom :: u16) = bottom"
    using assms(3) n by (intro unat_of_nat_small) simp
  have "parents {} dp (rc_nextSymbol c) (rc_symbols c')"
    unfolding parents_def
  proof (intro allI impI)
    fix j
    assume j: "j < rc_nextSymbol c" "0 < j"
    let ?p = "unat (sy_parent (rc_symbols c' j))"
    show "?p < rc_nextSymbol c \<and> dp j = Suc (dp ?p)"
    proof (cases "j \<in> open_symbol slot")
      case True
      then have "?p = bottom" "dp j = Suc (Suc (dp s))"
        using assms(2) by (simp_all add: sp(3) small open_ok_def)
      then show ?thesis
        using assms(3,4) by simp
    next
      case False
      then show ?thesis
        using par j by (simp add: sp(3) parents_def)
    qed
  qed
  then show ?thesis
    using assms(1,3,4) sp(6) [OF set] sp(1) unfolding c'_def [symmetric]
    by (simp add: patched_def healthy_def sp(2,4) small held_def)
qed

text \<open>A step: the context escaped is visited, the symbol found there becomes a parent and is counted.\<close>

lemma parents_linked:
  assumes "parents (open_symbol slot) dp n m" "open_ok slot dp n (dp i)" "i < n" "n \<le> n'" "n' = (if got = n then n + 1 else n)"
    and "got < n'" "n' \<le> symbolCount" "(dp(n := Suc (dp i))) got = Suc (dp i)"
    and "\<And>j. j < n \<Longrightarrow> sy_parent (m' j) = (if j \<in> open_symbol slot then of_nat got else sy_parent (m j))"
  shows "parents {got} (dp(n := Suc (dp i))) n' m'"
  unfolding parents_def
proof (intro allI impI)
  let ?dp = "dp(n := Suc (dp i))"
  have small: "unat (of_nat got :: u16) = got"
    using assms(6,7) by (intro unat_of_nat_small) simp
  fix j
  assume j: "j < n'" "0 < j" "j \<notin> {got}"
  then have jn: "j < n"
    using assms(5) by (simp split: if_splits)
  show "unat (sy_parent (m' j)) < n' \<and> ?dp j = Suc (?dp (unat (sy_parent (m' j))))"
  proof (cases "j \<in> open_symbol slot")
    case True
    then have "dp j = Suc (Suc (dp i))"
      using assms(2) by (simp add: open_ok_def)
    then show ?thesis
      using True jn assms(6,8,9) by (simp add: small)
  next
    case False
    then have "unat (sy_parent (m j)) < n" "dp j = Suc (dp (unat (sy_parent (m j))))"
      using assms(1) jn j(2) by (auto simp: parents_def)
    then show ?thesis
      using False jn assms(4,9) by simp
  qed
qed

definition stepped ::
  "(nat \<Rightarrow> nat) \<Rightarrow> nat \<Rightarrow> parent_slot \<Rightarrow> nat \<Rightarrow> ENetRangeDecoder \<Rightarrow> (nat \<Rightarrow> nat tree) \<Rightarrow> ENetRangeDecoder \<Rightarrow> bool" where
  "stepped dp i slot got c T' c' \<longleftrightarrow>
     healthy {got} T' (dp(rc_nextSymbol c := Suc (dp i))) c' \<and> held c c' \<and>
     rc_nextSymbol c \<le> rc_nextSymbol c' \<and> rc_nextSymbol c' \<le> rc_nextSymbol c + 1 \<and>
     0 < got \<and> got < rc_nextSymbol c' \<and> (dp(rc_nextSymbol c := Suc (dp i))) got = Suc (dp i) \<and>
     (\<forall>j<rc_nextSymbol c. sy_parent (rc_symbols c' j) =
        (if j \<in> open_symbol slot then of_nat got else sy_parent (rc_symbols c j))) \<and>
     rc_predicted c' = (if slot = Predicted then of_nat got else rc_predicted c)"

lemma patch_visit:
  assumes "healthy (open_symbol slot) T dp c" "open_ok slot dp (rc_nextSymbol c) (dp i)" "0 < i" "i < rc_nextSymbol c"
    "rc_nextSymbol c < symbolCount" "ENET_CONTEXT_ENCODE i v ENET_SUBCONTEXT_SYMBOL_DELTA 0 c = (got, below, cnt, c1)"
    "c2 = set_parent slot got c1"
  shows "\<exists>T'. stepped dp i slot got c T' (count_subcontext i cnt (if cnt = 0 then count_escape i c2 else c2))"
proof -
  let ?n = "rc_nextSymbol c" and ?m = "rc_symbols c"
  let ?dp = "dp(?n := Suc (dp i))"
  have set: "settled T dp ?n ?m" and par: "parents (open_symbol slot) dp ?n ?m" and nofault: "\<not> rc_fault c"
    using assms(1) by (simp_all add: healthy_def)
  have vis: "visit_of (T i) i ENET_SUBCONTEXT_SYMBOL_DELTA c got cnt c1"
    using encode_visits [OF settled_context(1) [OF set assms(4)] assms(4,5)] assms(3,6) by (simp add: sub_constants)
  have delta: "unat ENET_SUBCONTEXT_SYMBOL_DELTA = symbol_delta i"
    using assms(3) by (simp add: sub_constants)
  note vo = visit_owes [OF set assms(4,5) vis delta]
  obtain T1 where T1: "forest ((\<lambda>_. 0)(i := symbol_delta i)) (\<lambda>_. 0xFF00) T1 ?dp (rc_nextSymbol c1) (rc_symbols c1)"
    "got \<in> set_tree (T1 i)"
    "cnt > context_limit i \<or> (\<forall>x\<in>set_tree (T1 i). unat (sy_count (rc_symbols c1 x)) + symbol_delta i \<le> 255)"
    using vo(1) by blast
  have grow: "?n \<le> rc_nextSymbol c1" "rc_nextSymbol c1 \<le> ?n + 1" "i < rc_nextSymbol c1" "rc_nextSymbol c1 \<le> symbolCount"
    using vo(2) assms(4,5) by auto
  have "context_ok (symbol_delta i) 0xFF00 ?dp (rc_nextSymbol c1) (rc_symbols c1) (T1 i) i"
    using T1(1) grow(3) by (fastforce simp: forest_def)
  then have got: "0 < got" "got < rc_nextSymbol c1" "?dp got = Suc (dp i)"
    using T1(2) assms(4) by (auto simp: context_ok_def)
  have "open_ok slot dp (rc_nextSymbol c1) (dp i)"
    using assms(2) grow(1) by (auto simp: open_ok_def)
  note sp = set_parent_ok [OF this grow(4), where got = got, folded assms(7)]
  obtain c3 where c3: "count_subcontext i cnt (if cnt = 0 then count_escape i c2 else c2) = c3" "held c2 c3"
    "rc_predicted c3 = rc_predicted c2" "rc_nextSymbol c3 = rc_nextSymbol c2" "settled T1 ?dp (rc_nextSymbol c2) (rc_symbols c3)"
    "\<forall>j. sy_parent (rc_symbols c3 j) = sy_parent (rc_symbols c2 j)"
    using pay_escape [of i T1 ?dp c2 cnt] sp(6) [OF T1(1)] T1(3) grow(3) assms(3) by (auto simp: sp(2,5))
  have par3: "sy_parent (rc_symbols c3 j) = (if j \<in> open_symbol slot then of_nat got else sy_parent (?m j))" if "j < ?n" for j
    using that vo(4) [of j] c3(6) by (simp add: sp(3))
  have "parents {got} ?dp (rc_nextSymbol c3) (rc_symbols c3)"
    using parents_linked [OF par assms(2,4) grow(1) vo(2) got(2) grow(4) got(3) par3] by (simp add: c3(4) sp(2))
  moreover have held: "held c c3"
    using held_trans [OF visit_held(1) [OF vis] held_trans [OF sp(1) c3(2)]] .
  ultimately have "healthy {got} T1 ?dp c3"
    using c3(4,5) nofault by (simp add: healthy_def held_def sp(2))
  then show ?thesis
    unfolding c3(1) using held grow got par3 c3(3) visit_held(2) [OF vis]
    by (intro exI [of _ T1]) (simp add: stepped_def c3(4) sp(2,4))
qed

lemma patch_contexts_returns:
  assumes "healthy (open_symbol slot) T dp c" "open_ok slot dp (rc_nextSymbol c) (dp i)" "leads (rc_symbols c) i s"
    "i < rc_nextSymbol c" "s < rc_nextSymbol c" "rc_nextSymbol c + dp i \<le> symbolCount" "bottom < rc_nextSymbol c" "dp bottom = Suc (dp s)"
  shows "\<exists>c' T' dp'. patch_contexts s bottom v i slot c = Some c' \<and> patched dp i slot c T' dp' c'"
  using assms
proof (induction "dp i" arbitrary: i slot T dp c rule: less_induct)
  case less
  let ?n = "rc_nextSymbol c" and ?m = "rc_symbols c"
  let ?dp = "dp(?n := Suc (dp i))" and ?p = "unat (sy_parent (?m i))"
  have par: "parents (open_symbol slot) dp ?n ?m" and most: "?n \<le> symbolCount"
    using less.prems(1) by (simp_all add: healthy_def forest_def)
  show ?case
  proof (cases "i = s")
    case True
    then have "patch_contexts s bottom v i slot c = Some (set_parent slot bottom c)"
      by (subst patch_contexts.simps) simp
    then show ?thesis
      using True patch_here less.prems(1,2,7,8) by blast
  next
    case False
    then have i: "i \<noteq> 0" "leads ?m ?p s"
      using less.prems(3) by (auto elim: leads.cases)
    have notopen: "i \<notin> open_symbol slot" "\<And>k. k \<in> open_symbol slot \<Longrightarrow> dp k = Suc (Suc (dp i)) \<and> k < ?n"
      using less.prems(2) by (auto simp: open_ok_def)
    then have p: "?p < ?n" "dp i = Suc (dp ?p)"
      using par less.prems(4) i(1) by (auto simp: parents_def)
    obtain got below cnt c1 where enc: "ENET_CONTEXT_ENCODE i v ENET_SUBCONTEXT_SYMBOL_DELTA 0 c = (got, below, cnt, c1)"
      by (metis prod_cases4)
    define c3 where "c3 = count_subcontext i cnt (if cnt = 0 then count_escape i (set_parent slot got c1) else set_parent slot got c1)"
    obtain T1 where step: "stepped dp i slot got c T1 c3"
      using patch_visit [OF less.prems(1,2) _ less.prems(4) _ enc refl] i(1) p less.prems(6) unfolding c3_def by auto
    note st = step [unfolded stepped_def]
    have "healthy (open_symbol (ParentOf got)) T1 ?dp c3" "open_ok (ParentOf got) ?dp (rc_nextSymbol c3) (?dp ?p)"
      using st p by (simp_all add: open_ok_def open_symbol_def)
    moreover have "leads (rc_symbols c3) ?p s"
    proof (rule leads_frame [OF i(2) p(1) par])
      show "dp ?p < dp k" if "k \<in> open_symbol slot" for k
        using notopen(2) [OF that] p(2) by simp
      show "sy_parent (rc_symbols c3 j) = sy_parent (?m j)" if "j < ?n" "dp j \<le> dp ?p" for j
        using that notopen(2) [of j] p(2) st by auto
    qed
    moreover have "?dp ?p < dp i" "?dp ?p = dp ?p" "?dp bottom = Suc (?dp s)"
      using p less.prems(5,7,8) by simp_all
    ultimately obtain c' T' dp' where rest: "patch_contexts s bottom v ?p (ParentOf got) c3 = Some c'"
      "patched ?dp ?p (ParentOf got) c3 T' dp' c'"
      using less.hyps [of ?dp ?p "ParentOf got" T1 c3] p less.prems(5-7) st by auto
    have parent: "sy_parent (rc_symbols c3 i) = sy_parent (?m i)"
      using notopen(1) less.prems(4) st by simp
    have "patch_contexts s bottom v i slot c = patch_contexts s bottom v (unat (sy_parent (rc_symbols c3 i))) (ParentOf got) c3"
      by (subst patch_contexts.simps) (simp only: False enc Let_def prod.case c3_def [symmetric] if_False)
    then have "patch_contexts s bottom v i slot c = Some c'"
      using rest(1) parent by simp
    moreover have "unat (of_nat got :: u16) = got" if "got < rc_nextSymbol c3"
      using that st by (intro unat_of_nat_small) (simp add: healthy_def forest_def)
    then have "patched dp i slot c T' dp' c'"
      using rest(2) held_trans [of c c3 c'] p st less.prems(4) by (auto simp: patched_def)
    ultimately show ?thesis by blast
  qed
qed

section \<open>The rounds\<close>

definition round_ok :: "(nat \<Rightarrow> nat tree) \<Rightarrow> (nat \<Rightarrow> nat) \<Rightarrow> ENetRangeDecoder \<Rightarrow> bool" where
  "round_ok T dp c \<longleftrightarrow>
     healthy {} T dp c \<and> wide c \<and> rc_nextSymbol c < symbolCount - ENET_SUBCONTEXT_ORDER \<and>
     unat (rc_predicted c) < rc_nextSymbol c \<and> dp (unat (rc_predicted c)) \<le> rc_order c \<and> rc_order c \<le> ENET_SUBCONTEXT_ORDER"

text \<open>An array with the root alone.\<close>

lemma created_root:
  fixes c :: ENetRangeDecoder
  assumes "\<not> rc_fault c" "rc_nextSymbol c = 0"
  shows "healthy {} (\<lambda>_. Leaf) (\<lambda>_. 0) (snd (ENET_CONTEXT_CREATE ENET_CONTEXT_ESCAPE_MINIMUM ENET_CONTEXT_SYMBOL_MINIMUM c))"
    "rc_nextSymbol (snd (ENET_CONTEXT_CREATE ENET_CONTEXT_ESCAPE_MINIMUM ENET_CONTEXT_SYMBOL_MINIMUM c)) = 1"
    "held c (snd (ENET_CONTEXT_CREATE ENET_CONTEXT_ESCAPE_MINIMUM ENET_CONTEXT_SYMBOL_MINIMUM c))"
    "rc_predicted (snd (ENET_CONTEXT_CREATE ENET_CONTEXT_ESCAPE_MINIMUM ENET_CONTEXT_SYMBOL_MINIMUM c)) = rc_predicted c"
  using assms
  by (simp_all add: ENET_CONTEXT_CREATE_def ENET_SYMBOL_CREATE_def Let_def upd_symbol_def new_symbol_def healthy_def held_def
      forest_def context_ok_def parents_def minimum_total_def)

lemma round_goes_on:
  assumes "healthy {} T dp c" "wide c" "rc_nextSymbol c \<le> symbolCount" "unat (rc_predicted c) < rc_nextSymbol c"
    "dp (unat (rc_predicted c)) \<le> Suc (rc_order c)" "0 < dp (unat (rc_predicted c))" "rc_order c \<le> ENET_SUBCONTEXT_ORDER"
  shows "\<exists>T' dp'. round_ok T' dp' (next_symbol_input c) \<and> rc_out (next_symbol_input c) = rc_out c"
proof -
  define c1 where "c1 = (if rc_order c \<ge> ENET_SUBCONTEXT_ORDER
    then c\<lparr>rc_predicted := sy_parent (rc_symbols c (unat (rc_predicted c))),
           rc_fault := rc_fault c \<or> unat (rc_predicted c) \<ge> symbolCount\<rparr>
    else c\<lparr>rc_order := rc_order c + 1\<rparr>)"
  have "dp 0 = 0"
    using assms(1) by (simp add: healthy_def forest_def)
  then have p: "0 < unat (rc_predicted c)"
    using assms(6) by (cases "unat (rc_predicted c) = 0") simp_all
  have "parents {} dp (rc_nextSymbol c) (rc_symbols c)" "\<not> rc_fault c"
    using assms(1) by (simp_all add: healthy_def)
  then have up: "unat (sy_parent (rc_symbols c (unat (rc_predicted c)))) < rc_nextSymbol c"
    "dp (unat (rc_predicted c)) = Suc (dp (unat (sy_parent (rc_symbols c (unat (rc_predicted c))))))"
    using p assms(4) by (auto simp: parents_def)
  have c1: "healthy {} T dp c1" "wide c1" "rc_nextSymbol c1 = rc_nextSymbol c" "unat (rc_predicted c1) < rc_nextSymbol c1"
    "dp (unat (rc_predicted c1)) \<le> rc_order c1" "rc_order c1 \<le> ENET_SUBCONTEXT_ORDER" "rc_out c1 = rc_out c"
    using assms up \<open>\<not> rc_fault c\<close> by (simp_all add: c1_def healthy_def wide_def)
  have run: "next_symbol_input c = ENET_RANGE_CODER_FREE_SYMBOLS c1"
    by (simp add: next_symbol_input_def c1_def)
  show ?thesis
  proof (cases "rc_nextSymbol c1 \<ge> symbolCount - ENET_SUBCONTEXT_ORDER")
    case True
    let ?c0 = "c1\<lparr>rc_nextSymbol := 0\<rparr>"
    let ?c2 = "snd (ENET_CONTEXT_CREATE ENET_CONTEXT_ESCAPE_MINIMUM ENET_CONTEXT_SYMBOL_MINIMUM ?c0)"
    have "\<not> rc_fault ?c0" "rc_nextSymbol ?c0 = 0"
      using c1(1) by (simp_all add: healthy_def)
    note root = created_root [OF this]
    have free: "ENET_RANGE_CODER_FREE_SYMBOLS c1 = ?c2\<lparr>rc_predicted := 0, rc_order := 0\<rparr>"
      using True by (simp add: ENET_RANGE_CODER_FREE_SYMBOLS_def split: prod.split)
    have "round_ok (\<lambda>_. Leaf) (\<lambda>_. 0) (?c2\<lparr>rc_predicted := 0, rc_order := 0\<rparr>)"
      using root(1-3) c1(2) by (simp add: round_ok_def healthy_def wide_def held_def)
    moreover have "rc_out (?c2\<lparr>rc_predicted := 0, rc_order := 0\<rparr>) = rc_out c"
      using root(3) c1(7) by (simp add: held_def)
    ultimately show ?thesis
      unfolding run free by blast
  next
    case False
    then have "ENET_RANGE_CODER_FREE_SYMBOLS c1 = c1"
      by (simp add: ENET_RANGE_CODER_FREE_SYMBOLS_def)
    moreover have "round_ok T dp c1"
      using c1 False by (simp add: round_ok_def)
    ultimately show ?thesis
      unfolding run using c1(7) by auto
  qed
qed

lemma decompress_loop_returns:
  assumes "round_ok T dp c" "length (rc_out c) \<le> outLimit"
  shows "\<exists>res. decompress_loop outLimit c = Some res
    \<and> (\<forall>c'. res = Inl c' \<longrightarrow> \<not> rc_fault c')
    \<and> (\<forall>c'. res = Inr c' \<longrightarrow> \<not> rc_fault c' \<and> length (rc_out c') \<le> outLimit)"
  using assms
proof (induction "outLimit - length (rc_out c)" arbitrary: T dp c rule: less_induct)
  case less
  let ?p = "unat (rc_predicted c)"
  note ok = less.prems(1) [unfolded round_ok_def]
  have small: "rc_nextSymbol c < symbolCount" using ok by simp
  obtain res where dec: "decode_contexts ?p c = Some res" "\<forall>c'. res = Inl c' \<longrightarrow> \<not> rc_fault c'"
    "\<forall>r c'. res = Inr (r, c') \<longrightarrow> decoded_at dp ?p c r c'"
    using decode_contexts_returns [of T dp c ?p] ok small by blast
  show ?case
  proof (cases res)
    case (Inl c1)
    then show ?thesis
      using dec(1,2) by (subst decompress_loop.simps) (simp add: Let_def)
  next
    case (Inr rc)
    obtain r c1 where rc: "rc = (r, c1)" by force
    have at: "decoded_at dp ?p c r c1"
      using dec(3) Inr rc by blast
    show ?thesis
    proof (cases r)
      case Finished
      then have "decompress_loop outLimit c = Some (Inr c1)"
        using dec(1) Inr rc by (subst decompress_loop.simps) (simp add: Let_def)
      then show ?thesis
        using at less.prems(2) by (simp add: decoded_at_def)
    next
      case (Decoded s bottom v)
      then obtain T1 dp1 where g: "grown dp ?p s bottom c T1 dp1 c1" and c1: "rc_out c1 = rc_out c" "rc_order c1 = rc_order c" "wide c1"
        using at by (auto simp: decoded_at_def)
      have dp1: "dp1 ?p = dp ?p"
        using g ok by (simp add: grown_def)
      obtain c2 T2 dp2 where patch: "patch_contexts s bottom v ?p Predicted c1 = Some c2" "patched dp1 ?p Predicted c1 T2 dp2 c2"
        using patch_contexts_returns [of Predicted T1 dp1 c1 ?p s bottom v] g ok dp1
        by (auto simp: grown_def open_symbol_def open_ok_def)
      have c2: "healthy {} T2 dp2 c2" "wide c2" "rc_nextSymbol c2 \<le> symbolCount" "unat (rc_predicted c2) < rc_nextSymbol c2"
        "dp2 (unat (rc_predicted c2)) = Suc (dp ?p)" "rc_order c2 = rc_order c" "rc_out c2 = rc_out c"
        using patch(2) c1 dp1 by (auto simp: patched_def held_def wide_def healthy_def forest_def)
      show ?thesis
      proof (cases "length (rc_out c) \<ge> outLimit")
        case True
        then have "decompress_loop outLimit c = Some (Inl c2)"
          using dec(1) Inr rc Decoded patch(1) c2(7)
          by (subst decompress_loop.simps) (simp add: Let_def ENET_RANGE_CODER_OUTPUT_def)
        moreover have "\<not> rc_fault c2"
          using c2(1) by (simp add: healthy_def)
        ultimately show ?thesis by simp
      next
        case False
        let ?c3 = "c2\<lparr>rc_out := rc_out c @ [v]\<rparr>"
        have "healthy {} T2 dp2 ?c3" "wide ?c3"
          using c2(1,2) by (simp_all add: healthy_def wide_def)
        then obtain T3 dp3 where c3: "round_ok T3 dp3 (next_symbol_input ?c3)" "rc_out (next_symbol_input ?c3) = rc_out ?c3"
          using round_goes_on [of T2 dp2 ?c3] c2(3-6) ok by auto
        have "decompress_loop outLimit c = decompress_loop outLimit (next_symbol_input ?c3)"
          using False dec(1) Inr rc Decoded patch(1) c2(7)
          by (subst decompress_loop.simps) (simp add: Let_def ENET_RANGE_CODER_OUTPUT_def)
        then show ?thesis
          using less.hyps [OF _ c3(1)] c3(2) False by simp
      qed
    qed
  qed
qed

lemma start_decoder_ok:
  "round_ok (\<lambda>_. Leaf) (\<lambda>_. 0) (start_decoder symbols inData)" "rc_out (start_decoder symbols inData) = []"
proof -
  have seed: "decoder_at c (ENET_RANGE_CODER_SEED c)" "rc_range (ENET_RANGE_CODER_SEED c) = rc_range c" for c
    by (simp_all add: ENET_RANGE_CODER_SEED_def seed_byte_def decoder_at_def split: list.splits)
  let ?c0 = "\<lparr>rc_symbols = symbols, rc_fault = False, rc_nextSymbol = 0, rc_low = 0, rc_range = - 1, rc_predicted = 0,
    rc_order = 0, rc_out = [], rc_code = 0, rc_in = inData\<rparr> :: ENetRangeDecoder"
  let ?c1 = "snd (ENET_CONTEXT_CREATE ENET_CONTEXT_ESCAPE_MINIMUM ENET_CONTEXT_SYMBOL_MINIMUM ?c0)"
  have "\<not> rc_fault ?c0" "rc_nextSymbol ?c0 = 0" by simp_all
  note root = created_root [OF this]
  have run: "start_decoder symbols inData = ENET_RANGE_CODER_SEED ?c1"
    by (simp add: start_decoder_def)
  show "round_ok (\<lambda>_. Leaf) (\<lambda>_. 0) (start_decoder symbols inData)" "rc_out (start_decoder symbols inData) = []"
    unfolding run using root seed [of ?c1] decoder_at_carries(1) [OF seed(1)]
    by (simp_all add: round_ok_def decoder_at_def wide_def held_def)
qed

text \<open>C9: Whatever bytes arrive, the decompressor returns, never leaves its array of symbols nor divides by 0,
  and hands out no more bytes than it was allowed to.  That there is a result says the first three, on
  every way out: a coder that met a fault gives none, neither at the end nor where the code returns 0.\<close>

theorem decompressor_stays_inside:
  "\<exists>out. enet_range_coder_decompress symbols inData outLimit = Some out \<and> length out \<le> outLimit"
  using decompress_loop_returns [OF start_decoder_ok(1), of symbols inData outLimit] start_decoder_ok(2)
  by (auto simp: enet_range_coder_decompress_def split: option.splits sum.splits)

end
