(* ===== verification/Enet_Sockets.thy ===== *)
theory Enet_Sockets
  imports Enet_Service "HOL-Library.Signed_Division"
begin

text \<open>
  The functions of \<^verbatim>\<open>src/unix.c\<close> around the calls of the operating system that the host does not
  make in its loop, its clock, and \<^verbatim>\<open>src/callbacks.c\<close>.  The operating system answers calls; a
  socket is what it answers for, an address in network order is the address itself.
\<close>

section \<open>The operating system\<close>

record timeval =
  tv_sec :: int
  tv_usec :: int

datatype ENetSocketType = ENET_SOCKET_TYPE_STREAM | ENET_SOCKET_TYPE_DATAGRAM

datatype ENetSocketOption =
    ENET_SOCKOPT_NONBLOCK
  | ENET_SOCKOPT_BROADCAST
  | ENET_SOCKOPT_RCVBUF
  | ENET_SOCKOPT_SNDBUF
  | ENET_SOCKOPT_REUSEADDR
  | ENET_SOCKOPT_RCVTIMEO
  | ENET_SOCKOPT_SNDTIMEO
  | ENET_SOCKOPT_ERROR
  | ENET_SOCKOPT_NODELAY
  | ENET_SOCKOPT_TTL

datatype ENetSocketShutdown =
  ENET_SOCKET_SHUTDOWN_READ | ENET_SOCKET_SHUTDOWN_WRITE | ENET_SOCKET_SHUTDOWN_READ_WRITE

datatype sockopt =
  SO_BROADCAST | SO_REUSEADDR | SO_RCVBUF | SO_SNDBUF | SO_RCVTIMEO | SO_SNDTIMEO | SO_ERROR | TCP_NODELAY | IP_TTL

datatype sockopt_value = IntValue int | TimeValue timeval

datatype os_call =
    Socket ENetSocketType
  | Bind ENetAddress
  | GetSockName
  | Listen int
  | Connect ENetAddress
  | Accept
  | Shutdown int
  | GetFlags
  | SetFlags u32
  | SetNonBlocking int
  | SetSockOpt sockopt sockopt_value
  | GetSockOpt sockopt
  | Select int timeval

text \<open>
  An answer: the result, whether \<open>errno\<close> says that the call goes on or would block, and what the
  call wrote.
\<close>

record os_reply =
  re_result :: int
  re_pending :: bool
  re_value :: int
  re_address :: ENetAddress

record platform =
  pf_call :: "os_call \<Rightarrow> os_reply"
  pf_O_NONBLOCK :: u32
  pf_SOMAXCONN :: int
  pf_hasFcntl :: bool

section \<open>The clock\<close>

definition enet_initialize :: int where "enet_initialize = 0"

definition enet_host_random_seed :: "int \<Rightarrow> u32" where
  "enet_host_random_seed seconds = of_int seconds"

definition milliseconds :: "timeval \<Rightarrow> u32" where
  "milliseconds tv = of_int (tv_sec tv * 1000 + tv_usec tv sdiv 1000)"

text \<open>The clock shows \<open>tv\<close> when the function is called; the static \<open>timeBase\<close> is a state.\<close>

definition unix_time_get :: "timeval \<Rightarrow> u32 \<Rightarrow> u32" where
  "unix_time_get tv timeBase = milliseconds tv - timeBase"

definition enet_time_set :: "timeval \<Rightarrow> u32 \<Rightarrow> u32 \<Rightarrow> u32" where
  "enet_time_set tv newTimeBase timeBase = milliseconds tv - newTimeBase"

section \<open>Addresses\<close>

text \<open>An entry of the list of \<open>getaddrinfo\<close>: its family, its address if it has one, and the length of it.\<close>

record addrinfo =
  ai_inet :: bool
  ai_addr :: "u32 option"
  ai_addrlen :: nat

text \<open>\<open>hostent\<close>: the family, and the first address.\<close>

record hostent =
  he_inet :: bool
  he_addr :: u32

text \<open>What the library is built with.\<close>

datatype resolver =
    GetAddrInfo "string \<Rightarrow> addrinfo list option"
  | GetHostByName "string \<Rightarrow> hostent option"

abbreviation (input) sizeof_sockaddr_in :: nat where "sizeof_sockaddr_in \<equiv> 16"

definition enet_address_set_host_ip :: "(string \<Rightarrow> u32 option) \<Rightarrow> string \<Rightarrow> ENetAddress \<Rightarrow> int \<times> ENetAddress" where
  "enet_address_set_host_ip inet_pton name address =
     (case inet_pton name of
        None \<Rightarrow> (- 1, address)
      | Some host \<Rightarrow> (0, address\<lparr>ad_host := host\<rparr>))"

fun first_inet :: "addrinfo list \<Rightarrow> u32 option" where
  "first_inet [] = None"
| "first_inet (r # rs) =
     (case ai_addr r of
        Some host \<Rightarrow> if ai_inet r \<and> ai_addrlen r \<ge> sizeof_sockaddr_in then Some host else first_inet rs
      | None \<Rightarrow> first_inet rs)"

definition enet_address_set_host ::
  "resolver \<Rightarrow> (string \<Rightarrow> u32 option) \<Rightarrow> string \<Rightarrow> ENetAddress \<Rightarrow> int \<times> ENetAddress" where
  "enet_address_set_host resolve inet_pton name address =
     (case resolve of
        GetAddrInfo getaddrinfo \<Rightarrow>
          (case getaddrinfo name of
             None \<Rightarrow> (- 1, address)
           | Some resultList \<Rightarrow>
               (case first_inet resultList of
                  Some host \<Rightarrow> (0, address\<lparr>ad_host := host\<rparr>)
                | None \<Rightarrow> enet_address_set_host_ip inet_pton name address))
      | GetHostByName gethostbyname \<Rightarrow>
          (case gethostbyname name of
             Some e \<Rightarrow>
               if he_inet e then (0, address\<lparr>ad_host := he_addr e\<rparr>)
               else enet_address_set_host_ip inet_pton name address
           | None \<Rightarrow> enet_address_set_host_ip inet_pton name address))"

text \<open>\<open>memcpy(name, s, strlen(s) + 1)\<close> into a buffer: the result, and the string in it.\<close>

definition copy_name :: "string \<Rightarrow> nat \<Rightarrow> int \<times> string option" where
  "copy_name s nameLength = (if length s \<ge> nameLength then (- 1, None) else (0, Some s))"

datatype printer =
    InetNtop "u32 \<Rightarrow> nat \<Rightarrow> string option"
  | InetNtoa "u32 \<Rightarrow> string option"

definition enet_address_get_host_ip :: "printer \<Rightarrow> ENetAddress \<Rightarrow> nat \<Rightarrow> int \<times> string option" where
  "enet_address_get_host_ip print address nameLength =
     (case print of
        InetNtop inet_ntop \<Rightarrow>
          (case inet_ntop (ad_host address) nameLength of None \<Rightarrow> (- 1, None) | Some s \<Rightarrow> (0, Some s))
      | InetNtoa inet_ntoa \<Rightarrow>
          (case inet_ntoa (ad_host address) of None \<Rightarrow> (- 1, None) | Some s \<Rightarrow> copy_name s nameLength))"

text \<open>\<open>getnameinfo\<close>: the name, \<open>EAI_NONAME\<close> or another error; a name that fills the buffer has no end in it.\<close>

datatype name_info = NameInfo string | NoName | NameError

datatype name_resolver =
    GetNameInfo "ENetAddress \<Rightarrow> nat \<Rightarrow> name_info"
  | GetHostByAddr "u32 \<Rightarrow> string option"

definition enet_address_get_host :: "name_resolver \<Rightarrow> printer \<Rightarrow> ENetAddress \<Rightarrow> nat \<Rightarrow> int \<times> string option" where
  "enet_address_get_host resolve print address nameLength =
     (case resolve of
        GetNameInfo getnameinfo \<Rightarrow>
          (case getnameinfo address nameLength of
             NameInfo s \<Rightarrow> if nameLength > 0 \<and> length s \<ge> nameLength then (- 1, Some s) else (0, Some s)
           | NameError \<Rightarrow> (- 1, None)
           | NoName \<Rightarrow> enet_address_get_host_ip print address nameLength)
      | GetHostByAddr gethostbyaddr \<Rightarrow>
          (case gethostbyaddr (ad_host address) of
             Some s \<Rightarrow> copy_name s nameLength
           | None \<Rightarrow> enet_address_get_host_ip print address nameLength))"

section \<open>Sockets\<close>

abbreviation (input) any_address :: ENetAddress where "any_address \<equiv> \<lparr>ad_host = 0, ad_port = 0\<rparr>"

definition enet_socket_bind :: "platform \<Rightarrow> ENetAddress option \<Rightarrow> int" where
  "enet_socket_bind pf address =
     re_result (pf_call pf (Bind (case address of Some a \<Rightarrow> a | None \<Rightarrow> any_address)))"

definition enet_socket_get_address :: "platform \<Rightarrow> ENetAddress \<Rightarrow> int \<times> ENetAddress" where
  "enet_socket_get_address pf address =
     (let r = pf_call pf GetSockName in if re_result r = - 1 then (- 1, address) else (0, re_address r))"

definition enet_socket_listen :: "platform \<Rightarrow> int \<Rightarrow> int" where
  "enet_socket_listen pf backlog = re_result (pf_call pf (Listen (if backlog < 0 then pf_SOMAXCONN pf else backlog)))"

definition enet_socket_create :: "platform \<Rightarrow> ENetSocketType \<Rightarrow> int" where
  "enet_socket_create pf type = re_result (pf_call pf (Socket type))"

text \<open>A time in milliseconds; C divides towards 0.\<close>

definition timeval_of :: "int \<Rightarrow> timeval" where
  "timeval_of ms = \<lparr>tv_sec = ms sdiv 1000, tv_usec = (ms smod 1000) * 1000\<rparr>"

definition enet_socket_set_option :: "platform \<Rightarrow> ENetSocketOption \<Rightarrow> int \<Rightarrow> int" where
  "enet_socket_set_option pf option v =
     (let set = (\<lambda>name x. re_result (pf_call pf (SetSockOpt name x)));
          result =
            (case option of
               ENET_SOCKOPT_NONBLOCK \<Rightarrow>
                 if pf_hasFcntl pf
                 then re_result (pf_call pf (SetFlags ((if v \<noteq> 0 then pf_O_NONBLOCK pf else 0)
                        OR (of_int (re_result (pf_call pf GetFlags)) AND NOT (pf_O_NONBLOCK pf)))))
                 else re_result (pf_call pf (SetNonBlocking v))
             | ENET_SOCKOPT_BROADCAST \<Rightarrow> set SO_BROADCAST (IntValue v)
             | ENET_SOCKOPT_REUSEADDR \<Rightarrow> set SO_REUSEADDR (IntValue v)
             | ENET_SOCKOPT_RCVBUF \<Rightarrow> set SO_RCVBUF (IntValue v)
             | ENET_SOCKOPT_SNDBUF \<Rightarrow> set SO_SNDBUF (IntValue v)
             | ENET_SOCKOPT_RCVTIMEO \<Rightarrow> set SO_RCVTIMEO (TimeValue (timeval_of v))
             | ENET_SOCKOPT_SNDTIMEO \<Rightarrow> set SO_SNDTIMEO (TimeValue (timeval_of v))
             | ENET_SOCKOPT_NODELAY \<Rightarrow> set TCP_NODELAY (IntValue v)
             | ENET_SOCKOPT_TTL \<Rightarrow> set IP_TTL (IntValue v)
             | ENET_SOCKOPT_ERROR \<Rightarrow> - 1)
      in if result = - 1 then - 1 else 0)"

text \<open>The result, and what the call wrote to \<open>*value\<close>.\<close>

definition read_option :: "platform \<Rightarrow> sockopt \<Rightarrow> int \<times> int option" where
  "read_option pf name = (let r = pf_call pf (GetSockOpt name) in (if re_result r = - 1 then - 1 else 0, Some (re_value r)))"

definition enet_socket_get_option :: "platform \<Rightarrow> ENetSocketOption \<Rightarrow> int \<times> int option" where
  "enet_socket_get_option pf option =
     (case option of
        ENET_SOCKOPT_ERROR \<Rightarrow> read_option pf SO_ERROR
      | ENET_SOCKOPT_TTL \<Rightarrow> read_option pf IP_TTL
      | _ \<Rightarrow> (- 1, None))"

definition enet_socket_connect :: "platform \<Rightarrow> ENetAddress \<Rightarrow> int" where
  "enet_socket_connect pf address =
     (let r = pf_call pf (Connect address)
      in if re_result r = - 1 \<and> re_pending r then 0 else re_result r)"

definition enet_socket_accept :: "platform \<Rightarrow> ENetAddress option \<Rightarrow> int \<times> ENetAddress option" where
  "enet_socket_accept pf address =
     (let r = pf_call pf Accept
      in if re_result r = - 1 then (- 1, address)
         else (re_result r, map_option (\<lambda>_. re_address r) address))"

definition shutdown_number :: "ENetSocketShutdown \<Rightarrow> int" where
  "shutdown_number how =
     (case how of
        ENET_SOCKET_SHUTDOWN_READ \<Rightarrow> 0
      | ENET_SOCKET_SHUTDOWN_WRITE \<Rightarrow> 1
      | ENET_SOCKET_SHUTDOWN_READ_WRITE \<Rightarrow> 2)"

definition enet_socket_shutdown :: "platform \<Rightarrow> ENetSocketShutdown \<Rightarrow> int" where
  "enet_socket_shutdown pf how = re_result (pf_call pf (Shutdown (shutdown_number how)))"

text \<open>The sockets closed.\<close>

definition enet_socket_destroy :: "int \<Rightarrow> int list" where
  "enet_socket_destroy socket = (if socket \<noteq> - 1 then [socket] else [])"

definition enet_socketset_select :: "platform \<Rightarrow> int \<Rightarrow> u32 \<Rightarrow> int" where
  "enet_socketset_select pf maxSocket timeout =
     re_result (pf_call pf (Select (maxSocket + 1) \<lparr>tv_sec = uint (timeout div 1000), tv_usec = uint (timeout mod 1000 * 1000)\<rparr>))"

text \<open>\<open>enet_socket_wait\<close> without \<open>HAS_POLL\<close>: what \<open>select\<close> left in the sets.\<close>

definition select_condition :: "u32 \<Rightarrow> poll_result \<Rightarrow> int \<times> u32" where
  "select_condition condition r =
     (case r of
        PollError interrupted \<Rightarrow>
          if interrupted \<and> has_flag condition ENET_SOCKET_WAIT_INTERRUPT
          then (0, ENET_SOCKET_WAIT_INTERRUPT) else (- 1, condition)
      | PollTimeout \<Rightarrow> (0, ENET_SOCKET_WAIT_NONE)
      | PollReady writable readable \<Rightarrow>
          (let writeSet = has_flag condition ENET_SOCKET_WAIT_SEND \<and> writable;
               readSet = has_flag condition ENET_SOCKET_WAIT_RECEIVE \<and> readable;
               c = ENET_SOCKET_WAIT_NONE;
               c = (if writeSet then set_flag c ENET_SOCKET_WAIT_SEND else c)
           in (0, if readSet then set_flag c ENET_SOCKET_WAIT_RECEIVE else c)))"

section \<open>Callbacks\<close>

text \<open>A function pointer is its address.\<close>

record ENetCallbacks =
  cb_malloc :: "nat option"
  cb_free :: "nat option"
  cb_no_memory :: "nat option"

definition ENET_VERSION_CREATE :: "u32 \<Rightarrow> u32 \<Rightarrow> u32 \<Rightarrow> u32" where
  "ENET_VERSION_CREATE major minor patch = (push_bit 16 major OR push_bit 8 minor) OR patch"

definition ENET_VERSION_GET_MAJOR :: "u32 \<Rightarrow> u32" where
  "ENET_VERSION_GET_MAJOR version = drop_bit 16 version AND 0xFF"

definition ENET_VERSION_GET_MINOR :: "u32 \<Rightarrow> u32" where
  "ENET_VERSION_GET_MINOR version = drop_bit 8 version AND 0xFF"

definition ENET_VERSION_GET_PATCH :: "u32 \<Rightarrow> u32" where
  "ENET_VERSION_GET_PATCH version = version AND 0xFF"

definition ENET_VERSION :: u32 where "ENET_VERSION = ENET_VERSION_CREATE 1 3 17"

definition enet_linked_version :: u32 where "enet_linked_version = ENET_VERSION"

definition enet_initialize_with_callbacks :: "u32 \<Rightarrow> ENetCallbacks \<Rightarrow> ENetCallbacks \<Rightarrow> int \<times> ENetCallbacks" where
  "enet_initialize_with_callbacks version inits callbacks =
     (if version < ENET_VERSION_CREATE 1 3 0 then (- 1, callbacks)
      else if (cb_malloc inits \<noteq> None \<or> cb_free inits \<noteq> None) \<and> (cb_malloc inits = None \<or> cb_free inits = None)
      then (- 1, callbacks)
      else
        (let callbacks = (if cb_malloc inits \<noteq> None \<or> cb_free inits \<noteq> None
               then callbacks\<lparr>cb_malloc := cb_malloc inits, cb_free := cb_free inits\<rparr> else callbacks);
             callbacks = (if cb_no_memory inits \<noteq> None then callbacks\<lparr>cb_no_memory := cb_no_memory inits\<rparr> else callbacks)
         in (enet_initialize, callbacks)))"

lemma linked_version:
  "ENET_VERSION_GET_MAJOR enet_linked_version = 1"
  "ENET_VERSION_GET_MINOR enet_linked_version = 3"
  "ENET_VERSION_GET_PATCH enet_linked_version = 17"
  by code_simp+

section \<open>The clock runs\<close>

definition microseconds :: "timeval \<Rightarrow> int" where
  "microseconds tv = tv_sec tv * 1000000 + tv_usec tv"

definition time_ok :: "timeval \<Rightarrow> bool" where
  "time_ok tv \<longleftrightarrow> 0 \<le> tv_usec tv \<and> tv_usec tv < 1000000"

lemma milliseconds_floor: "time_ok tv \<Longrightarrow> milliseconds tv = of_int (microseconds tv div 1000)"
proof -
  assume ok: "time_ok tv"
  then have "tv_usec tv sdiv 1000 = tv_usec tv div 1000"
    by (cases "tv_usec tv = 0") (simp_all add: time_ok_def signed_divide_int_def sgn_if)
  moreover have "microseconds tv div 1000 = tv_sec tv * 1000 + tv_usec tv div 1000"
  proof -
    have "microseconds tv = tv_usec tv + (tv_sec tv * 1000) * 1000"
      by (simp add: microseconds_def)
    then show ?thesis
      by (simp only: div_mult_self1)
  qed
  ultimately show ?thesis
    by (simp add: milliseconds_def)
qed

text \<open>C38: Once \<open>enet_time_set\<close> has set the clock to a time, \<open>enet_time_get\<close> shows that time and the
  milliseconds that passed since, to within one millisecond, modulo the width of the clock and
  whatever the clock of the operating system showed.\<close>

theorem clock_runs_from_base:
  assumes "time_ok tv" "time_ok tv'" "microseconds tv \<le> microseconds tv'"
  shows "\<exists>n. unix_time_get tv' (enet_time_set tv newTimeBase timeBase) = newTimeBase + of_nat n \<and>
    \<bar>int n * 1000 - (microseconds tv' - microseconds tv)\<bar> < 1000"
proof -
  define a b where "a = microseconds tv div 1000" and "b = microseconds tv' div 1000"
  have "a \<le> b"
    unfolding a_def b_def using assms(3) by (rule zdiv_mono1) simp
  then have "(of_int b - of_int a :: u32) = of_nat (nat (b - a))"
    by (simp add: of_nat_nat)
  then have "unix_time_get tv' (enet_time_set tv newTimeBase timeBase) = newTimeBase + of_nat (nat (b - a))"
    using milliseconds_floor [OF assms(1)] milliseconds_floor [OF assms(2)]
    by (simp add: unix_time_get_def enet_time_set_def a_def b_def)
  moreover have "\<bar>int (nat (b - a)) * 1000 - (microseconds tv' - microseconds tv)\<bar> < 1000"
    using \<open>a \<le> b\<close> unfolding a_def b_def by simp
  ultimately show ?thesis by blast
qed

theorem clock_runs_from_base_witness:
  "\<exists>n. unix_time_get \<lparr>tv_sec = 12, tv_usec = 1000\<rparr> (enet_time_set \<lparr>tv_sec = 10, tv_usec = 999999\<rparr> 50 7) = 50 + of_nat n \<and>
    \<bar>int n * 1000 - 1001001\<bar> < 1000"
  using clock_runs_from_base [of "\<lparr>tv_sec = 10, tv_usec = 999999\<rparr>" "\<lparr>tv_sec = 12, tv_usec = 1000\<rparr>" 50 7]
  by (simp add: time_ok_def microseconds_def)

end
