(* ===== verification/Enet_Windows.thy ===== *)
theory Enet_Windows
  imports Enet_Sockets
begin

text \<open>
  \<^verbatim>\<open>src/win32.c\<close>, under the names of its functions with the prefix \<open>win_\<close>.  Winsock answers the
  calls of Enet_Sockets, with \<open>SOCKET_ERROR\<close> and \<open>INVALID_SOCKET\<close> as the result \<open>-1\<close>.
  What differs from \<^verbatim>\<open>unix.c\<close> in more than that is the start, the parser of addresses, and which
  errors of a socket are none.
\<close>

section \<open>Start and clock\<close>

text \<open>\<open>WSAStartup\<close>: an error, or the version it offers.  The result and the calls made after it.\<close>

datatype win_call = WSACleanup | TimeBeginPeriod | TimeEndPeriod

definition win_initialize :: "(u8 \<times> u8) option \<Rightarrow> int \<times> win_call list" where
  "win_initialize startup =
     (case startup of
        None \<Rightarrow> (- 1, [])
      | Some (low, high) \<Rightarrow>
          if low \<noteq> 1 \<or> high \<noteq> 1 then (- 1, [WSACleanup]) else (0, [TimeBeginPeriod]))"

definition win_deinitialize :: "win_call list" where
  "win_deinitialize = [TimeEndPeriod, WSACleanup]"

definition win_time_get :: "u32 \<Rightarrow> u32 \<Rightarrow> u32" where
  "win_time_get timeGetTime timeBase = timeGetTime - timeBase"

definition win_time_set :: "u32 \<Rightarrow> u32 \<Rightarrow> u32 \<Rightarrow> u32" where
  "win_time_set timeGetTime newTimeBase timeBase = timeGetTime - newTimeBase"

section \<open>Addresses\<close>

text \<open>
  \<open>strtol\<close> to base 10: white space, a sign, digits; the value, and how much of the string was
  used, nothing where there are no digits.
\<close>

definition is_space :: "char \<Rightarrow> bool" where
  "is_space c \<longleftrightarrow> c = CHR 0x20 \<or> ((9 :: nat) \<le> of_char c \<and> of_char c \<le> (13 :: nat))"

definition is_digit :: "char \<Rightarrow> bool" where
  "is_digit c \<longleftrightarrow> (48 :: nat) \<le> of_char c \<and> of_char c \<le> (57 :: nat)"

definition digit :: "char \<Rightarrow> int" where
  "digit c = int (of_char c) - 48"

definition strtol :: "string \<Rightarrow> int \<times> nat" where
  "strtol s =
     (let spaces = takeWhile is_space s;
          s = drop (length spaces) s;
          sign = (case s of c # _ \<Rightarrow> if c = CHR ''-'' then - 1 else 1 | [] \<Rightarrow> 1);
          signs = (case s of c # _ \<Rightarrow> if c = CHR ''-'' \<or> c = CHR ''+'' then 1 else 0 | [] \<Rightarrow> 0);
          digits = takeWhile is_digit (drop signs s)
      in if digits = [] then (0, 0)
         else (sign * foldl (\<lambda>n c. 10 * n + digit c) 0 digits, length spaces + signs + length digits))"

text \<open>
  One number of the address and where it ends.  \<open>strtol\<close> clamps large numbers to the range of
  \<open>long\<close>, which is larger than 255 as well.
\<close>

definition parse_octet :: "string \<Rightarrow> (u8 \<times> string) option" where
  "parse_octet name =
     (if name \<noteq> [] \<and> hd name = CHR ''0'' then Some (0, tl name)
      else
        (let (val, used) = strtol name
         in if val < 0 \<or> val > 255 \<or> used = 0 \<or> used > 3 then None
            else Some (of_int val, drop used name)))"

fun parse_octets :: "nat \<Rightarrow> string \<Rightarrow> u8 list option" where
  "parse_octets 0 name = Some []"
| "parse_octets (Suc n) name =
     (case parse_octet name of
        None \<Rightarrow> None
      | Some (v, rest) \<Rightarrow>
          if n = 0 then (if rest = [] then Some [v] else None)
          else (case rest of
                  [] \<Rightarrow> None
                | c # name \<Rightarrow> if c = CHR ''.'' then map_option ((#) v) (parse_octets n name) else None))"

definition win_address_set_host_ip :: "string \<Rightarrow> ENetAddress \<Rightarrow> int \<times> ENetAddress" where
  "win_address_set_host_ip name address =
     (case parse_octets 4 name of
        None \<Rightarrow> (- 1, address)
      | Some vals \<Rightarrow> (0, address\<lparr>ad_host := get32_native vals 0\<rparr>))"

definition win_address_set_host :: "(string \<Rightarrow> hostent option) \<Rightarrow> string \<Rightarrow> ENetAddress \<Rightarrow> int \<times> ENetAddress" where
  "win_address_set_host gethostbyname name address =
     (case gethostbyname name of
        None \<Rightarrow> win_address_set_host_ip name address
      | Some e \<Rightarrow>
          if \<not> he_inet e then win_address_set_host_ip name address
          else (0, address\<lparr>ad_host := he_addr e\<rparr>))"

definition win_address_get_host_ip :: "(u32 \<Rightarrow> string option) \<Rightarrow> ENetAddress \<Rightarrow> nat \<Rightarrow> int \<times> string option" where
  "win_address_get_host_ip inet_ntoa address nameLength =
     (case inet_ntoa (ad_host address) of None \<Rightarrow> (- 1, None) | Some s \<Rightarrow> copy_name s nameLength)"

definition win_address_get_host ::
  "(u32 \<Rightarrow> string option) \<Rightarrow> (u32 \<Rightarrow> string option) \<Rightarrow> ENetAddress \<Rightarrow> nat \<Rightarrow> int \<times> string option" where
  "win_address_get_host gethostbyaddr inet_ntoa address nameLength =
     (case gethostbyaddr (ad_host address) of
        None \<Rightarrow> win_address_get_host_ip inet_ntoa address nameLength
      | Some s \<Rightarrow> copy_name s nameLength)"

section \<open>Sockets\<close>

text \<open>\<open>== SOCKET_ERROR ? -1 : 0\<close>.\<close>

definition checked :: "os_reply \<Rightarrow> int" where
  "checked r = (if re_result r = - 1 then - 1 else 0)"

definition win_socket_bind :: "platform \<Rightarrow> ENetAddress option \<Rightarrow> int" where
  "win_socket_bind pf address = checked (pf_call pf (Bind (case address of Some a \<Rightarrow> a | None \<Rightarrow> any_address)))"

definition win_socket_get_address :: "platform \<Rightarrow> ENetAddress \<Rightarrow> int \<times> ENetAddress" where
  "win_socket_get_address pf address =
     (let r = pf_call pf GetSockName in if re_result r = - 1 then (- 1, address) else (0, re_address r))"

definition win_socket_listen :: "platform \<Rightarrow> int \<Rightarrow> int" where
  "win_socket_listen pf backlog = checked (pf_call pf (Listen (if backlog < 0 then pf_SOMAXCONN pf else backlog)))"

definition win_socket_create :: "platform \<Rightarrow> ENetSocketType \<Rightarrow> int" where
  "win_socket_create pf type = re_result (pf_call pf (Socket type))"

definition win_socket_set_option :: "platform \<Rightarrow> ENetSocketOption \<Rightarrow> int \<Rightarrow> int" where
  "win_socket_set_option pf option v =
     (let set = (\<lambda>name. checked (pf_call pf (SetSockOpt name (IntValue v))))
      in case option of
           ENET_SOCKOPT_NONBLOCK \<Rightarrow> checked (pf_call pf (SetNonBlocking v))
         | ENET_SOCKOPT_BROADCAST \<Rightarrow> set SO_BROADCAST
         | ENET_SOCKOPT_REUSEADDR \<Rightarrow> set SO_REUSEADDR
         | ENET_SOCKOPT_RCVBUF \<Rightarrow> set SO_RCVBUF
         | ENET_SOCKOPT_SNDBUF \<Rightarrow> set SO_SNDBUF
         | ENET_SOCKOPT_RCVTIMEO \<Rightarrow> set SO_RCVTIMEO
         | ENET_SOCKOPT_SNDTIMEO \<Rightarrow> set SO_SNDTIMEO
         | ENET_SOCKOPT_NODELAY \<Rightarrow> set TCP_NODELAY
         | ENET_SOCKOPT_TTL \<Rightarrow> set IP_TTL
         | ENET_SOCKOPT_ERROR \<Rightarrow> - 1)"

definition win_socket_get_option :: "platform \<Rightarrow> ENetSocketOption \<Rightarrow> int \<times> int option" where
  "win_socket_get_option pf option =
     (case option of
        ENET_SOCKOPT_ERROR \<Rightarrow> read_option pf SO_ERROR
      | ENET_SOCKOPT_TTL \<Rightarrow> read_option pf IP_TTL
      | _ \<Rightarrow> (- 1, None))"

definition win_socket_connect :: "platform \<Rightarrow> ENetAddress \<Rightarrow> int" where
  "win_socket_connect pf address =
     (let r = pf_call pf (Connect address)
      in if re_result r = - 1 \<and> \<not> re_pending r then - 1 else 0)"

definition win_socket_accept :: "platform \<Rightarrow> ENetAddress option \<Rightarrow> int \<times> ENetAddress option" where
  "win_socket_accept pf address =
     (let r = pf_call pf Accept
      in if re_result r = - 1 then (- 1, address)
         else (re_result r, map_option (\<lambda>_. re_address r) address))"

definition win_socket_shutdown :: "platform \<Rightarrow> ENetSocketShutdown \<Rightarrow> int" where
  "win_socket_shutdown pf how = checked (pf_call pf (Shutdown (shutdown_number how)))"

definition win_socket_destroy :: "int \<Rightarrow> int list" where
  "win_socket_destroy socket = (if socket \<noteq> - 1 then [socket] else [])"

text \<open>What \<open>WSASendTo\<close> and \<open>WSARecvFrom\<close> do.\<close>

datatype wsa_send = WsaSent nat | WsaSendWouldBlock | WsaSendError

datatype wsa_receive =
    WsaReceived bool ENetAddress "u8 list"
  | WsaReceiveWouldBlock
  | WsaConnectionReset
  | WsaReceiveError

definition win_socket_send :: "wsa_send \<Rightarrow> int" where
  "win_socket_send r =
     (case r of
        WsaSent sentLength \<Rightarrow> int sentLength
      | WsaSendWouldBlock \<Rightarrow> 0
      | WsaSendError \<Rightarrow> - 1)"

text \<open>The number returned, the sender and the bytes; \<open>MSG_PARTIAL\<close> is set where the datagram did not fit.\<close>

definition win_socket_receive :: "wsa_receive \<Rightarrow> int \<times> ENetAddress option \<times> u8 list" where
  "win_socket_receive r =
     (case r of
        WsaReceiveWouldBlock \<Rightarrow> (0, None, [])
      | WsaConnectionReset \<Rightarrow> (0, None, [])
      | WsaReceiveError \<Rightarrow> (- 1, None, [])
      | WsaReceived partial address bytes \<Rightarrow>
          if partial then (- 1, None, bytes) else (int (length bytes), Some address, bytes))"

definition win_socketset_select :: "platform \<Rightarrow> int \<Rightarrow> u32 \<Rightarrow> int" where
  "win_socketset_select pf maxSocket timeout =
     re_result (pf_call pf (Select (maxSocket + 1) \<lparr>tv_sec = uint (timeout div 1000), tv_usec = uint (timeout mod 1000 * 1000)\<rparr>))"

definition win_socket_wait :: "u32 \<Rightarrow> poll_result \<Rightarrow> int \<times> u32" where
  "win_socket_wait condition r =
     (case r of
        PollError interrupted \<Rightarrow> (- 1, condition)
      | PollTimeout \<Rightarrow> (0, ENET_SOCKET_WAIT_NONE)
      | PollReady writable readable \<Rightarrow>
          (let writeSet = has_flag condition ENET_SOCKET_WAIT_SEND \<and> writable;
               readSet = has_flag condition ENET_SOCKET_WAIT_RECEIVE \<and> readable;
               c = ENET_SOCKET_WAIT_NONE;
               c = (if writeSet then set_flag c ENET_SOCKET_WAIT_SEND else c)
           in (0, if readSet then set_flag c ENET_SOCKET_WAIT_RECEIVE else c)))"

section \<open>Addresses as text\<close>

fun decimal :: "nat \<Rightarrow> string" where
  "decimal n = (if n < 10 then [char_of (48 + n)] else decimal (n div 10) @ [char_of (48 + n mod 10)])"

declare decimal.simps [simp del]

fun dotted :: "u8 list \<Rightarrow> string" where
  "dotted [] = []"
| "dotted [v] = decimal (unat v)"
| "dotted (v # vs) = decimal (unat v) @ CHR ''.'' # dotted vs"

lemma of_char_digit: "d < 10 \<Longrightarrow> of_char (char_of (48 + d :: nat)) = 48 + d"
  by simp

lemma digit_char:
  assumes "d < 10"
  shows "is_digit (char_of (48 + d :: nat))" "digit (char_of (48 + d :: nat)) = int d"
    "\<not> is_space (char_of (48 + d :: nat))"
proof -
  let ?c = "char_of (48 + d :: nat)"
  have n: "of_char ?c = 48 + d"
    using assms by (rule of_char_digit)
  show "digit ?c = int d"
    by (simp add: digit_def n del: of_char_of)
  show "is_digit ?c"
    using assms by (simp only: is_digit_def n) simp
  have "?c \<noteq> CHR 0x20"
  proof
    assume "?c = CHR 0x20"
    then have "(of_char ?c :: nat) = 32"
      by simp
    then show False
      by (simp only: n)
  qed
  then show "\<not> is_space ?c"
    by (simp only: is_space_def n) simp
qed

lemma decimal_digits: "c \<in> set (decimal n) \<Longrightarrow> is_digit c"
  by (induction n rule: decimal.induct) (subst (asm) decimal.simps, auto simp: digit_char split: if_splits)

lemma decimal_value: "foldl (\<lambda>n c. 10 * n + digit c) 0 (decimal n) = int n"
proof (induction n rule: decimal.induct)
  case (1 n)
  show ?case
  proof (cases "n < 10")
    case True
    then show ?thesis
      by (subst decimal.simps) (simp add: digit_char)
  next
    case False
    have "int (10 * (n div 10) + n mod 10) = int n"
      by simp
    then have "10 * int (n div 10) + int (n mod 10) = int n"
      by (simp only: of_nat_add of_nat_mult of_nat_numeral)
    with 1 False show ?thesis
      by (subst decimal.simps) (simp add: digit_char)
  qed
qed

lemma decimal_length: "n < 256 \<Longrightarrow> 0 < length (decimal n) \<and> length (decimal n) \<le> 3"
proof -
  assume "n < 256"
  then have "n div 10 div 10 < 10" by simp
  then show ?thesis
    by (simp add: decimal.simps [of n] decimal.simps [of "n div 10"] decimal.simps [of "n div 10 div 10"])
qed

lemma decimal_hd: "0 < n \<Longrightarrow> hd (decimal n) \<noteq> CHR ''0''"
proof (induction n rule: decimal.induct)
  case (1 n)
  have "char_of (48 + n) \<noteq> CHR ''0''" if "n < 10"
  proof
    assume "char_of (48 + n) = CHR ''0''"
    then have "(of_char (char_of (48 + n) :: char) :: nat) = 48"
      by simp
    with that "1.prems" show False
      by (simp only: of_char_digit)
  qed
  moreover have "decimal (n div 10) \<noteq> []"
    by (subst decimal.simps) simp
  ultimately show ?case
    using 1 by (subst decimal.simps) (auto simp: hd_append)
qed

lemma digit_zero: "char_of (48 :: nat) = CHR ''0''"
  by code_simp

lemma parse_octet_decimal:
  assumes "rest = [] \<or> hd rest = CHR ''.''"
  shows "parse_octet (decimal (unat v) @ rest) = Some (v, rest)"
proof (cases "v = 0")
  case True
  then show ?thesis
    by (subst decimal.simps) (simp add: parse_octet_def digit_zero)
next
  case False
  let ?n = "unat v" let ?ds = "decimal ?n"
  have n: "0 < ?n" "?n < 256"
    using False unsigned_less [of v] by (simp_all add: unat_gt_0)
  have ne: "?ds \<noteq> []"
    using decimal_length [OF n(2)] by auto
  then have hd: "hd (?ds @ rest) = hd ?ds" "is_digit (hd ?ds)"
    using decimal_digits [OF hd_in_set] by simp_all
  then have c: "\<not> is_space (hd ?ds)" "hd ?ds \<noteq> CHR ''-''" "hd ?ds \<noteq> CHR ''+''"
    by (auto simp: is_digit_def is_space_def)
  have "takeWhile is_digit (?ds @ rest) = ?ds"
    using assms decimal_digits by (cases rest) (auto simp: is_digit_def takeWhile_append2)
  then have "strtol (?ds @ rest) = (int ?n, length ?ds)"
    using c ne decimal_value [of ?n] by (cases ?ds) (simp_all add: strtol_def Let_def)
  moreover have "(of_int (int ?n) :: u8) = v" by simp
  moreover have "uint v \<le> 255"
    using uint_bounded [of v] by simp
  ultimately show ?thesis
    using decimal_hd [OF n(1)] decimal_length [OF n(2)] n(2) ne hd(1)
    by (simp add: parse_octet_def)
qed

text \<open>C39: The parser of addresses of the Windows build reads back every address in dotted decimals: the
  four bytes become the address, in the order they are written.\<close>

theorem dotted_quad_parsed:
  "win_address_set_host_ip (dotted [v1, v2, v3, v4]) address = (0, address\<lparr>ad_host := get32_native [v1, v2, v3, v4] 0\<rparr>)"
proof -
  have "parse_octets 4 (dotted [v1, v2, v3, v4]) = Some [v1, v2, v3, v4]"
    using parse_octet_decimal [of "[]" v4]
    by (simp add: eval_nat_numeral parse_octet_decimal)
  then show ?thesis
    by (simp add: win_address_set_host_ip_def)
qed

end
