(* ===== verification/Spec2Isabelle.thy ===== *)
theory Spec2Isabelle
  imports Enet_List Enet_Fragments Enet_Reliable Enet_References Enet_Reachable Enet_Framing Enet_Flow Enet_Retry Enet_Compressed Enet_Handshake
    Enet_Untrusted Enet_Windows
begin

text \<open>
  A verification library for ENet, a reliable datagram protocol in C (\<^verbatim>\<open>src/src\<close>,
  \<^verbatim>\<open>src/include/enet\<close>).

  \<^bold>\<open>The program.\<close>  A host (\<^verbatim>\<open>host.c\<close>) owns a socket and a fixed array of peers (\<^verbatim>\<open>peer.c\<close>).
  A peer has channels, queues of outgoing commands, of commands sent and not acknowledged, of
  acknowledgements to send, and per channel the queues of commands received and not delivered
  yet.  The application queues packets (\<open>enet_peer_send\<close>) and calls \<open>enet_host_service\<close>
  (\<^verbatim>\<open>protocol.c\<close>), which writes queued commands into datagrams, reads datagrams and hands every
  command in them to its handler, and reports one event per call.  Packets (\<^verbatim>\<open>packet.c\<close>) are
  shared by queues and counted by references; queues are intrusive lists (\<^verbatim>\<open>list.c\<close>).

  \<^bold>\<open>How the code is modelled.\<close>  Structures are records with the fields' names under a prefix
  (\<open>p_\<close> peer, \<open>ch_\<close> channel, \<open>h_\<close> host, \<open>oc_\<close> and \<open>ic_\<close> outgoing and incoming commands,
  \<open>pk_\<close> packet, \<open>en_\<close> memory), unions of commands a datatype, integers words of their width.
  A function that changes the host takes and returns it.  A pointer to a peer is its index, a
  pointer to a packet an address in the store of live packets, a null pointer \<open>None\<close>; using a
  dangling pointer raises the flag \<open>en_fault\<close>, after which nothing is claimed.  Every
  allocation may fail.  Loops are structural recursions or functions with a proof of
  termination; those that may run for ever are partial functions whose result \<open>None\<close> is not
  to return.  The operating system is an argument: the values the clock will show, the datagrams
  that arrive, the results of \<open>sendmsg\<close> and of the waits, each indexed by the number of the
  call.  The checksum, compressor and intercept callbacks are arbitrary functions.  A compressor is
  given the buffers one by one and may have no result, where it reads what is not there; that
  raises \<open>en_fault\<close>.  The range coder has a flag of its own for indices outside its array and
  divisions by 0, and gives no result where it is raised.

  \<^bold>\<open>Theories.\<close>

  \<^item> Enet_Prelude: machine integers, time and utility macros, flag words.
  \<^item> Enet_List: \<^verbatim>\<open>list.c\<close> on a heap of nodes; a list of nodes is the abstract value of a list
    head, every operation refines the operation on lists, and a locale of queues carries the loop
    that empties the dispatch queue.
  \<^item> Enet_Packet: memory, packets and reference counts.  Enet_Crc: the CRC-32 of
    \<^verbatim>\<open>packet.c\<close> against the bitwise definition.
  \<^item> Enet_Wire: \<^verbatim>\<open>protocol.h\<close> and the sizes of \<^verbatim>\<open>protocol.c\<close>: commands to bytes and back.
  \<^item> Enet_Types: the structures of \<^verbatim>\<open>enet.h\<close>.
  \<^item> Enet_Peer and Enet_Incoming: \<^verbatim>\<open>peer.c\<close>, up to and from the queues of received commands.
    Enet_Host: \<^verbatim>\<open>host.c\<close>.  Enet_Handlers, Enet_Receive, Enet_Outgoing, Enet_Service:
    \<^verbatim>\<open>protocol.c\<close> in its order: events and handlers, the receive path, the send path, the
    flush and the service.
  \<^item> Enet_Sending: what \<open>enet_peer_send\<close> promises, and the packet throttle over many round trips.
    Enet_References: reference counts of the packets in a peer's queues.  Enet_Reliable:
    exactly-once delivery in order.  Enet_Fragments: reassembly.
  \<^item> Enet_Invariants, Enet_Reachable: the invariant of a host, kept by every operation, and the
    hosts reachable by any interleaving of calls, settings of compressor, checksum and limits,
    datagrams and clock readings, with an intercept callback that does not change the host.
  \<^item> Enet_Datagrams: what the send path puts in a datagram, and that it fits.  Enet_Framing: the
    receiver reads the same commands in it; the composition of the two sides; that a checksum is
    not counted.  Enet_Flow: timeouts, conservation of reliable commands, data in transit.
    Enet_Retry: what is lost is sent again.  Enet_Handshake: request, reply, acknowledgement and
    what the two peers agree on.
  \<^item> Enet_Compress and Enet_Decompress: the range coder of \<^verbatim>\<open>compress.c\<close>, an adaptive order-2
    model whose symbols live in one array, and the calls of \<^verbatim>\<open>host.c\<close> that make it the compressor
    of a host.  Enet_Range: renormalising as a relation between intervals and bytes; a decoder
    whose word lies in the interval reads back the slots that were coded.  Enet_Counts: the tree
    of symbols of one context implements a tree of counts.  Enet_Contexts: the array implements a
    function from strings to contexts, under addresses that may differ between the two directions.
    Enet_Roundtrip: encoder and decoder code a value in the same slots and learn the same.
    Enet_Streams: the loops over a whole input, and that decompressing undoes compressing.
    Enet_Compressed: this composed with the receive path of two hosts.
    Enet_Shapes, Enet_Balance and Enet_Untrusted: the decompressor on bytes nobody compressed.  The
    trees in the array keep their shape and depth and the totals add up whatever is read, so every
    loop returns, inside the array.
  \<^item> Enet_Sockets: the clock, name resolution and socket calls of \<^verbatim>\<open>unix.c\<close> and the table of
    callbacks of \<^verbatim>\<open>callbacks.c\<close>.  Enet_Windows: the same of \<^verbatim>\<open>win32.c\<close>, with its parser of
    addresses.  The operating system is the argument that answers the calls.

  \<^bold>\<open>Bounds and fuel.\<close>  The receive loop runs its 256 rounds as in the code.  No other fuel is used.

  \<^bold>\<open>Not modelled.\<close>  Application data and the socket handles; the code of \<^verbatim>\<open>compress.c\<close> behind
  \<open>ENET_CONTEXT_EXCLUSION\<close>, which is never compiled; debug output; the example programs.
\<close>

end
